(* ===== verification/Go_Prelude.thy ===== *)
theory Go_Prelude
  imports Main "HOL-Library.Sublist"
begin

text \<open>
  Shared ground of the development: the type names the models use, the
  collections of rewrite rules that the component proofs draw on, Go's
  fixed-width signed arithmetic, and the generic facts about lists, maps and
  words that more than one component needs.
\<close>

section \<open>Names and collections\<close>

named_theorems go_defs \<open>definitions that are unfolded to compute a closed term\<close>
named_theorems str_simps \<open>rewrite rules for the byte-string operations of the standard library\<close>
named_theorems path_simps \<open>rewrite rules for cleaned slash-separated paths\<close>

type_synonym int64 = int

text \<open>
  A Go string is a sequence of bytes, which is what Isabelle's \<open>string\<close> is: a
  list of 8-bit characters.  The result of a call that may panic is an \<open>option\<close>
  whose \<open>None\<close> is the panic.
\<close>

type_synonym 'a may_panic = "'a option"

section \<open>Signed 64-bit arithmetic\<close>

definition min_int64 :: int where
  "min_int64 = - (2 ^ 63)"

definition max_int64 :: int where
  "max_int64 = 2 ^ 63 - 1"

definition in_int64 :: "int \<Rightarrow> bool" where
  "in_int64 x \<longleftrightarrow> min_int64 \<le> x \<and> x \<le> max_int64"

text \<open>The value a Go \<open>int64\<close> expression has when its mathematical value is \<open>x\<close>.\<close>

definition wrap64 :: "int \<Rightarrow> int64" where
  "wrap64 x = (x + 2 ^ 63) mod 2 ^ 64 - 2 ^ 63"

lemmas int64_defs = min_int64_def max_int64_def in_int64_def wrap64_def

lemma wrap64_id [simp]: "in_int64 x \<Longrightarrow> wrap64 x = x"
  by (simp add: int64_defs)

lemma in_int64_wrap64 [simp]: "in_int64 (wrap64 x)"
  using pos_mod_bound [of "2 ^ 64" "x + 2 ^ 63"] pos_mod_sign [of "2 ^ 64" "x + 2 ^ 63"]
  by (simp add: int64_defs)

section \<open>Integer division by a positive number\<close>

lemma int_le_div_iff: "0 < k \<Longrightarrow> n \<le> m div k \<longleftrightarrow> n * k \<le> m" for n m k :: int
proof
  assume k: "0 < k"
  have "m div k * k \<le> m" using k by (simp add: minus_mod_eq_div_mult [symmetric])
  moreover assume "n \<le> m div k"
  ultimately show "n * k \<le> m" using k by (meson mult_right_mono order_trans less_imp_le)
next
  assume "0 < k" "n * k \<le> m"
  then show "n \<le> m div k" using zdiv_mono1 [of "n * k" m k] by simp
qed

lemma int_div_less_iff: "0 < k \<Longrightarrow> m div k < n \<longleftrightarrow> m < n * k" for n m k :: int
  using int_le_div_iff [of k n m] by linarith

section \<open>Lists\<close>

lemma takeWhile_all_append [simp]:
  "(\<And>x. x \<in> set xs \<Longrightarrow> P x) \<Longrightarrow> takeWhile P (xs @ ys) = xs @ takeWhile P ys"
  by (induction xs) auto

lemma dropWhile_hd: "dropWhile P xs = y # ys \<Longrightarrow> \<not> P y"
  by (induction xs) (auto split: if_splits)

lemma length_dropWhile_less:
  "xs \<noteq> [] \<Longrightarrow> P (hd xs) \<Longrightarrow> length (dropWhile P xs) < length xs"
  by (cases xs) (auto simp: length_dropWhile_le less_Suc_eq_le)

lemma butlast_append_single [simp]: "butlast (xs @ [x]) = xs"
  by simp

lemma last_in_set_prefix: "prefix xs ys \<Longrightarrow> set xs \<subseteq> set ys"
  by (rule set_mono_prefix)

lemma prefix_butlast: "prefix (butlast xs) xs"
  by (cases xs rule: rev_cases) auto

lemma prefix_snoc_iff:
  "prefix xs (ys @ [y]) \<longleftrightarrow> xs = ys @ [y] \<or> prefix xs ys"
  by (rule prefix_snoc)

lemma append_Cons_eq_first:
  "xs @ a # ys = us @ a # vs \<Longrightarrow> a \<notin> set xs \<Longrightarrow> a \<notin> set us \<Longrightarrow> xs = us \<and> ys = vs"
proof (induction xs arbitrary: us)
  case Nil
  then show ?case by (cases us) auto
next
  case (Cons x xs)
  then show ?case by (cases us) auto
qed

section \<open>State machines\<close>

text \<open>
  The contract of a state machine that keeps an invariant: the machine starts inside it and no
  step leaves it.  The client's conclusion is that every reachable state satisfies it.
\<close>

definition reachable :: "('s \<Rightarrow> bool) \<Rightarrow> ('s \<Rightarrow> 's \<Rightarrow> bool) \<Rightarrow> 's \<Rightarrow> bool" where
  "reachable start step s \<longleftrightarrow> (\<exists>s0. start s0 \<and> step\<^sup>*\<^sup>* s0 s)"

lemma reachable_start: "start s \<Longrightarrow> reachable start step s"
  by (auto simp: reachable_def)

lemma reachable_step: "reachable start step s \<Longrightarrow> step s t \<Longrightarrow> reachable start step t"
  unfolding reachable_def by (meson rtranclp.rtrancl_into_rtrancl)

locale invariant_machine =
  fixes start :: "'s \<Rightarrow> bool" and step :: "'s \<Rightarrow> 's \<Rightarrow> bool" and inv :: "'s \<Rightarrow> bool"
  assumes start_inv: "start s \<Longrightarrow> inv s"
    and step_inv: "inv s \<Longrightarrow> step s t \<Longrightarrow> inv t"
begin

lemma steps_inv: "step\<^sup>*\<^sup>* s t \<Longrightarrow> inv s \<Longrightarrow> inv t"
  by (induction rule: rtranclp_induct) (auto intro: step_inv)

lemma reachable_inv: "reachable start step s \<Longrightarrow> inv s"
  by (auto simp: reachable_def intro: steps_inv start_inv)

end

end
