(* ===== verification/Go_Strings.thy ===== *)
theory Go_Strings
  imports Go_Prelude "HOL-Library.Char_ord" "HOL-Library.List_Lexorder"
begin

text \<open>
  The parts of Go's packages \<open>strings\<close>, \<open>net/textproto\<close> and \<open>strconv\<close> that the
  modelled code calls, as total functions on byte strings, with the laws the
  components rely on: \<open>Split\<close> and \<open>Join\<close> are inverse, \<open>ParseInt\<close> reads back what
  \<open>FormatInt\<close> prints, trimming is idempotent.
\<close>

section \<open>Package strings\<close>

definition HasPrefix :: "string \<Rightarrow> string \<Rightarrow> bool" where
  "HasPrefix s p \<longleftrightarrow> take (length p) s = p"

definition HasSuffix :: "string \<Rightarrow> string \<Rightarrow> bool" where
  "HasSuffix s p \<longleftrightarrow> drop (length s - length p) s = p"

definition TrimPrefix :: "string \<Rightarrow> string \<Rightarrow> string" where
  "TrimPrefix s p = (if HasPrefix s p then drop (length p) s else s)"

text \<open>\<open>strings.Index\<close>: the first position at which \<open>p\<close> occurs, \<open>None\<close> for -1.\<close>

fun Index :: "string \<Rightarrow> string \<Rightarrow> nat option" where
  "Index [] p = (if p = [] then Some 0 else None)"
| "Index (c # s) p = (if HasPrefix (c # s) p then Some 0 else map_option Suc (Index s p))"

fun LastIndex :: "string \<Rightarrow> string \<Rightarrow> nat option" where
  "LastIndex [] p = (if p = [] then Some 0 else None)"
| "LastIndex (c # s) p =
     (case LastIndex s p of
        Some i \<Rightarrow> Some (Suc i)
      | None \<Rightarrow> if HasPrefix (c # s) p then Some 0 else None)"

definition Contains :: "string \<Rightarrow> string \<Rightarrow> bool" where
  "Contains s p \<longleftrightarrow> Index s p \<noteq> None"

text \<open>\<open>strings.Split\<close> and \<open>strings.SplitSeq\<close> on a separator of one byte.\<close>

fun Split :: "char \<Rightarrow> string \<Rightarrow> string list" where
  "Split c [] = [[]]"
| "Split c (x # xs) = (if x = c then [] # Split c xs
     else (x # hd (Split c xs)) # tl (Split c xs))"

fun Join :: "string list \<Rightarrow> string \<Rightarrow> string" where
  "Join [] sep = []"
| "Join [x] sep = x"
| "Join (x # y # ys) sep = x @ sep @ Join (y # ys) sep"

text \<open>\<open>strings.Cut\<close> on a separator of one byte: before, after, found.\<close>

definition Cut :: "string \<Rightarrow> char \<Rightarrow> string \<times> string \<times> bool" where
  "Cut s c = (if c \<in> set s
     then (takeWhile (\<lambda>x. x \<noteq> c) s, tl (dropWhile (\<lambda>x. x \<noteq> c) s), True)
     else (s, [], False))"

text \<open>\<open>strings.ReplaceAll\<close> of a pattern of one byte.\<close>

definition ReplaceAll1 :: "string \<Rightarrow> char \<Rightarrow> string \<Rightarrow> string" where
  "ReplaceAll1 s c new = concat (map (\<lambda>x. if x = c then new else [x]) s)"

section \<open>Trimming\<close>

text \<open>\<open>textproto.TrimString\<close> strips the four ASCII space bytes it names.\<close>

definition isASCIISpace :: "char \<Rightarrow> bool" where
  "isASCIISpace b \<longleftrightarrow> b = CHR '' '' \<or> b = CHR 0x09 \<or> b = CHR 0x0A \<or> b = CHR 0x0D"

definition trim_by :: "(char \<Rightarrow> bool) \<Rightarrow> string \<Rightarrow> string" where
  "trim_by P s = rev (dropWhile P (rev (dropWhile P s)))"

definition TrimString :: "string \<Rightarrow> string" where
  "TrimString s = trim_by isASCIISpace s"

text \<open>
  \<open>strings.TrimSpace\<close> on UTF-8 bytes: the encodings of the characters that \<open>unicode.IsSpace\<close> accepts
  are cut off both ends.
\<close>

definition space_runes :: "string list" where
  "space_runes = [[CHR 0x09], [CHR 0x0A], [CHR 0x0B], [CHR 0x0C], [CHR 0x0D], [CHR 0x20], [CHR 0xC2, CHR 0x85], [CHR 0xC2, CHR 0xA0],
     [CHR 0xE1, CHR 0x9A, CHR 0x80], [CHR 0xE2, CHR 0x80, CHR 0xA8], [CHR 0xE2, CHR 0x80, CHR 0xA9],
     [CHR 0xE2, CHR 0x80, CHR 0xAF], [CHR 0xE2, CHR 0x81, CHR 0x9F], [CHR 0xE3, CHR 0x80, CHR 0x80]] @
     map (\<lambda>k. [CHR 0xE2, CHR 0x80, char_of (0x80 + k :: nat)]) [0..<11]"

fun strip_any :: "nat \<Rightarrow> string list \<Rightarrow> string \<Rightarrow> string" where
  "strip_any 0 rs s = s"
| "strip_any (Suc k) rs s =
     (case find (HasPrefix s) rs of None \<Rightarrow> s | Some r \<Rightarrow> strip_any k rs (drop (length r) s))"

definition TrimSpace :: "string \<Rightarrow> string" where
  "TrimSpace s =
     (let t = strip_any (length s) space_runes s
      in rev (strip_any (length t) (map rev space_runes) (rev t)))"

section \<open>Package strconv\<close>

datatype num_error = ErrSyntax | ErrRange

definition is_digit :: "char \<Rightarrow> bool" where
  "is_digit c \<longleftrightarrow> 48 \<le> (of_char c :: nat) \<and> (of_char c :: nat) \<le> 57"

definition digit_val :: "char \<Rightarrow> nat" where
  "digit_val c = of_char c - 48"

definition digit_char :: "nat \<Rightarrow> char" where
  "digit_char d = char_of (48 + d)"

text \<open>
  The loop of \<open>strconv.ParseUint\<close> for base 10 and 64 bits: a byte that is not a
  digit is a syntax error, and the range error is raised at the digit that makes
  the value pass \<open>2 ^ 64 - 1\<close>, before any later byte is looked at.
\<close>

fun parse_uint_loop :: "int \<Rightarrow> string \<Rightarrow> num_error + int" where
  "parse_uint_loop n [] = Inr n"
| "parse_uint_loop n (c # cs) =
     (if \<not> is_digit c then Inl ErrSyntax
      else if 10 * n + int (digit_val c) \<ge> 2 ^ 64 then Inl ErrRange
      else parse_uint_loop (10 * n + int (digit_val c)) cs)"

definition ParseUint :: "string \<Rightarrow> num_error + int" where
  "ParseUint s = (if s = [] then Inl ErrSyntax else parse_uint_loop 0 s)"

text \<open>
  \<open>strconv.ParseInt(s, 10, 64)\<close>: the value and the error.  As in Go the value is
  meaningful on a range error (the nearest representable number) and 0 on a
  syntax error.
\<close>

definition ParseInt :: "string \<Rightarrow> int64 \<times> num_error option" where
  "ParseInt s =
     (let neg = HasPrefix s ''-'';
          body = (if HasPrefix s ''-'' \<or> HasPrefix s ''+'' then tl s else s)
      in case ParseUint body of
           Inl ErrSyntax \<Rightarrow> (0, Some ErrSyntax)
         | Inl ErrRange \<Rightarrow> (if neg then min_int64 else max_int64, Some ErrRange)
         | Inr un \<Rightarrow>
             if \<not> neg \<and> un \<ge> 2 ^ 63 then (max_int64, Some ErrRange)
             else if neg \<and> un > 2 ^ 63 then (min_int64, Some ErrRange)
             else (if neg then - un else un, None))"

fun format_nat :: "nat \<Rightarrow> string" where
  "format_nat n = (if n < 10 then [digit_char n]
     else format_nat (n div 10) @ [digit_char (n mod 10)])"

definition FormatInt :: "int64 \<Rightarrow> string" where
  "FormatInt i = (if i < 0 then CHR ''-'' # format_nat (nat (- i)) else format_nat (nat i))"

declare format_nat.simps [simp del]

section \<open>Laws of the string operations\<close>

lemma HasPrefix_iff [str_simps]: "HasPrefix s p \<longleftrightarrow> prefix p s"
  unfolding HasPrefix_def
  by (metis append_eq_conv_conj prefix_def append_take_drop_id)

lemma HasSuffix_iff [str_simps]: "HasSuffix s p \<longleftrightarrow> suffix p s"
proof
  assume "HasSuffix s p"
  then show "suffix p s" unfolding HasSuffix_def by (metis suffix_drop)
next
  assume "suffix p s"
  then show "HasSuffix s p" unfolding HasSuffix_def suffix_def by auto
qed

lemma HasPrefix_Nil [simp]: "HasPrefix s []"
  by (simp add: HasPrefix_def)

lemma HasPrefix_append [simp]: "HasPrefix (p @ s) p"
  by (simp add: HasPrefix_def)

lemma HasPrefix_Cons [simp]: "HasPrefix s [c] \<longleftrightarrow> (\<exists>t. s = c # t)"
  by (cases s) (auto simp: HasPrefix_def)

lemma Index_single: "Index s [c] = (if c \<in> set s then Some (length (takeWhile (\<lambda>x. x \<noteq> c) s)) else None)"
  by (induction s) auto

lemma Contains_single [simp]: "Contains s [c] \<longleftrightarrow> c \<in> set s"
  by (simp add: Contains_def Index_single)

lemma LastIndex_NoneD: "LastIndex s p = None \<Longrightarrow> \<not> HasPrefix s p"
  by (induction s) (auto simp: HasPrefix_def split: if_splits option.splits)

lemma LastIndex_SomeD: "LastIndex s p = Some i \<Longrightarrow> i \<le> length s \<and> HasPrefix (drop i s) p"
  by (induction s arbitrary: i) (auto split: if_splits option.splits)

subsection \<open>Split and Join\<close>

lemma Split_neq_Nil [simp]: "Split c s \<noteq> []"
  by (induction s) auto

lemma Split_no_sep: "c \<notin> set s \<Longrightarrow> Split c s = [s]"
  by (induction s) auto

lemma Split_append: "c \<notin> set x \<Longrightarrow> Split c (x @ c # s) = x # Split c s"
  by (induction x) auto

lemma Split_parts: "x \<in> set (Split c s) \<Longrightarrow> c \<notin> set x"
proof (induction s arbitrary: x)
  case (Cons a s)
  obtain y ys where s: "Split c s = y # ys" by (cases "Split c s") simp_all
  with Cons show ?case by (cases "a = c") auto
qed simp

lemma Join_Cons: "Join (x # xs) sep = (if xs = [] then x else x @ sep @ Join xs sep)"
  by (cases xs) auto

lemma Join_Split [simp]: "Join (Split c s) [c] = s"
proof (induction s)
  case (Cons a s)
  obtain y ys where "Split c s = y # ys" by (cases "Split c s") simp_all
  with Cons show ?case by (cases "a = c") (auto simp: Join_Cons split: if_splits)
qed simp

lemma Split_Join:
  "xs \<noteq> [] \<Longrightarrow> (\<And>x. x \<in> set xs \<Longrightarrow> c \<notin> set x) \<Longrightarrow> Split c (Join xs [c]) = xs"
proof (induction xs)
  case (Cons x xs)
  then show ?case by (auto simp: Join_Cons Split_append Split_no_sep)
qed simp

lemma Split_concat_slash:
  "(\<And>x. x \<in> set xs \<Longrightarrow> c \<notin> set x) \<Longrightarrow> Split c (concat (map ((#) c) xs)) = [] # xs"
proof (induction xs)
  case (Cons x xs)
  then have IH: "Split c (concat (map ((#) c) xs)) = [] # xs" by simp
  from Cons.prems have "c \<notin> set x" by simp
  then show ?case
  proof (cases xs)
    case Nil
    with \<open>c \<notin> set x\<close> show ?thesis by (simp add: Split_no_sep)
  next
    case (Cons y ys)
    then have "concat (map ((#) c) xs) = c # (y @ concat (map ((#) c) ys))" by simp
    moreover from this IH have "Split c (y @ concat (map ((#) c) ys)) = xs" by simp
    ultimately show ?thesis using \<open>c \<notin> set x\<close> by (simp add: Split_append)
  qed
qed simp

lemma Cut_no_sep: "c \<notin> set s \<Longrightarrow> Cut s c = (s, [], False)"
  by (simp add: Cut_def)

lemma Cut_append: "c \<notin> set x \<Longrightarrow> Cut (x @ c # s) c = (x, s, True)"
  by (induction x) (auto simp: Cut_def)

subsection \<open>Trimming\<close>

lemma trim_by_id: "s = [] \<or> \<not> P (hd s) \<and> \<not> P (last s) \<Longrightarrow> trim_by P s = s"
proof (cases s)
  case (Cons a t)
  assume "s = [] \<or> \<not> P (hd s) \<and> \<not> P (last s)"
  with Cons have "\<not> P a" "\<not> P (last s)" "s \<noteq> []" by auto
  then have "rev s = last s # rev (butlast s)" by (metis append_butlast_last_id rev_eq_Cons_iff rev_rev_ident)
  then show ?thesis using Cons \<open>\<not> P a\<close> \<open>\<not> P (last s)\<close>
    by (simp add: trim_by_def)
qed (simp add: trim_by_def)

lemma TrimString_id:
  "s = [] \<or> \<not> isASCIISpace (hd s) \<and> \<not> isASCIISpace (last s) \<Longrightarrow> TrimString s = s"
  unfolding TrimString_def by (rule trim_by_id)

text \<open>A printable ASCII character begins and ends no encoding of a space.\<close>

definition graphic :: "char \<Rightarrow> bool" where
  "graphic c \<longleftrightarrow> 0x20 < (of_char c :: nat) \<and> (of_char c :: nat) < 0x7F"

lemma strip_any_id: "(\<And>r. r \<in> set rs \<Longrightarrow> \<not> HasPrefix s r) \<Longrightarrow> strip_any k rs s = s"
proof (cases k)
  case (Suc n)
  assume "\<And>r. r \<in> set rs \<Longrightarrow> \<not> HasPrefix s r"
  then have "find (HasPrefix s) rs = None" by (auto simp: find_None_iff)
  then show ?thesis by (simp add: Suc)
qed simp

lemma space_runes_ends: "r \<in> set space_runes \<Longrightarrow> r \<noteq> [] \<and> \<not> graphic (hd r) \<and> \<not> graphic (last r)"
  by (auto simp: space_runes_def graphic_def upt_rec)

lemma graphic_no_space:
  "s \<noteq> [] \<Longrightarrow> graphic (hd s) \<Longrightarrow> r \<in> set space_runes \<Longrightarrow> \<not> HasPrefix (s @ u) r"
  "s \<noteq> [] \<Longrightarrow> graphic (last s) \<Longrightarrow> r \<in> set (map rev space_runes) \<Longrightarrow> \<not> HasPrefix (rev s) r"
proof -
  show "\<not> HasPrefix (s @ u) r" if "s \<noteq> []" "graphic (hd s)" "r \<in> set space_runes"
    using space_runes_ends [OF that(3)] that by (cases s; cases r) (auto simp: HasPrefix_def)
  show "\<not> HasPrefix (rev s) r" if h: "s \<noteq> []" "graphic (last s)" "r \<in> set (map rev space_runes)"
  proof -
    obtain x where x: "x \<in> set space_runes" "r = rev x" using h(3) by auto
    have "hd r = last x" "hd (rev s) = last s" using x(2) h(1) space_runes_ends [OF x(1)] by (simp_all add: hd_rev)
    moreover have "hd (rev s) = hd r" if "HasPrefix (rev s) r"
      using that x(2) space_runes_ends [OF x(1)] by (auto simp: HasPrefix_iff prefix_def hd_append)
    ultimately show ?thesis using h(2) space_runes_ends [OF x(1)] by auto
  qed
qed

text \<open>Tabs and blanks around a text that begins and ends with printable characters are cut off.\<close>

lemma strip_any_blanks:
  assumes "list_all (\<lambda>c. c = CHR 0x09 \<or> c = CHR '' '') b" "length b \<le> k"
    "\<And>c u. c = CHR 0x09 \<or> c = CHR '' '' \<Longrightarrow> find (HasPrefix (c # u)) rs = Some [c]" "\<And>r. r \<in> set rs \<Longrightarrow> \<not> HasPrefix s r"
  shows "strip_any k rs (b @ s) = s"
  using assms(1,2)
proof (induction b arbitrary: k)
  case Nil
  then show ?case using strip_any_id [OF assms(4)] by simp
next
  case (Cons c b)
  then obtain j where k: "k = Suc j" by (cases k) auto
  show ?case using Cons assms(3) [of c "b @ s"] by (simp add: k)
qed

lemma TrimSpace_around:
  assumes "list_all (\<lambda>c. c = CHR 0x09 \<or> c = CHR '' '') b" "list_all (\<lambda>c. c = CHR 0x09 \<or> c = CHR '' '') b'"
    "s \<noteq> []" "graphic (hd s)" "graphic (last s)"
  shows "TrimSpace (b @ s @ b') = s"
proof -
  have f: "find (HasPrefix (c # u)) space_runes = Some [c]" "find (HasPrefix (c # u)) (map rev space_runes) = Some [c]"
    if "c = CHR 0x09 \<or> c = CHR '' ''" for c u
    using that by (auto simp: space_runes_def HasPrefix_def)
  have "strip_any (length (b @ s @ b')) space_runes (b @ s @ b') = s @ b'"
    using assms by (intro strip_any_blanks graphic_no_space f(1)) auto
  moreover have "strip_any (length (s @ b')) (map rev space_runes) (rev b' @ rev s) = rev s"
    using assms by (intro strip_any_blanks graphic_no_space f(2)) auto
  ultimately show ?thesis by (simp add: TrimSpace_def)
qed

lemma TrimSpace_id: "s \<noteq> [] \<Longrightarrow> graphic (hd s) \<Longrightarrow> graphic (last s) \<Longrightarrow> TrimSpace s = s"
  using TrimSpace_around [of "[]" "[]" s] by simp

lemma length_trim_by: "length (trim_by P s) \<le> length s"
  unfolding trim_by_def by (metis length_dropWhile_le length_rev le_trans)

lemma length_TrimString: "length (TrimString s) \<le> length s"
  by (simp add: TrimString_def length_trim_by)

subsection \<open>Numbers\<close>

lemma digit_char_simps [simp]:
  "d < 10 \<Longrightarrow> is_digit (digit_char d)" "d < 10 \<Longrightarrow> digit_val (digit_char d) = d"
  by (simp_all add: is_digit_def digit_val_def digit_char_def)

lemma format_nat_neq_Nil [simp]: "format_nat n \<noteq> []"
  by (subst format_nat.simps) simp

lemma format_nat_digits: "c \<in> set (format_nat n) \<Longrightarrow> is_digit c"
proof (induction n rule: format_nat.induct)
  case (1 n)
  then show ?case by (subst (asm) format_nat.simps) (auto split: if_splits)
qed

lemma parse_uint_loop_append:
  "parse_uint_loop n (xs @ ys) =
     (case parse_uint_loop n xs of Inl e \<Rightarrow> Inl e | Inr m \<Rightarrow> parse_uint_loop m ys)"
  by (induction xs arbitrary: n) auto

lemma parse_uint_loop_nonneg: "0 \<le> n \<Longrightarrow> parse_uint_loop n s = Inr m \<Longrightarrow> 0 \<le> m"
proof (induction s arbitrary: n)
  case (Cons c s)
  have "0 \<le> 10 * n + int (digit_val c)" using Cons.prems by simp
  from Cons.IH [OF this] Cons.prems show ?case by (simp split: if_splits)
qed simp

lemma digit_char_inj: "m < 10 \<Longrightarrow> n < 10 \<Longrightarrow> digit_char m = digit_char n \<Longrightarrow> m = n"
  using arg_cong [of "digit_char m" "digit_char n" of_char] by (simp add: digit_char_def)

lemma format_nat_inj: "format_nat m = format_nat n \<Longrightarrow> m = n"
proof (induction m arbitrary: n rule: format_nat.induct)
  case (1 m)
  show ?case
  proof (cases "m < 10")
    case True
    then show ?thesis using 1(2) format_nat.simps [of m] format_nat.simps [of n]
      by (cases "n < 10") (auto intro: digit_char_inj dest: sym)
  next
    case False
    then have m: "format_nat m = format_nat (m div 10) @ [digit_char (m mod 10)]" using format_nat.simps [of m] by simp
    with 1(2) format_nat.simps [of n] have n: "\<not> n < 10" "format_nat n = format_nat (n div 10) @ [digit_char (n mod 10)]"
      by (auto split: if_splits)
    then have "m div 10 = n div 10" "m mod 10 = n mod 10"
      using m 1 False by (auto intro: digit_char_inj)
    then show ?thesis by (metis div_mult_mod_eq)
  qed
qed

lemma parse_format_nat: "int n < 2 ^ 64 \<Longrightarrow> parse_uint_loop 0 (format_nat n) = Inr (int n)"
proof (induction n rule: format_nat.induct)
  case (1 n)
  show ?case
  proof (cases "n < 10")
    case True
    then show ?thesis by (subst format_nat.simps) simp
  next
    case False
    with 1 have "parse_uint_loop 0 (format_nat (n div 10)) = Inr (int (n div 10))" by simp
    moreover have "10 * int (n div 10) + int (n mod 10) = int n" by presburger
    ultimately show ?thesis using False \<open>int n < 2 ^ 64\<close>
      by (subst format_nat.simps) (simp add: parse_uint_loop_append)
  qed
qed

lemma ParseUint_format_nat: "int n < 2 ^ 64 \<Longrightarrow> ParseUint (format_nat n) = Inr (int n)"
  by (simp add: ParseUint_def parse_format_nat)

lemma ParseUint_nonneg: "ParseUint s = Inr m \<Longrightarrow> 0 \<le> m"
  by (auto simp: ParseUint_def dest: parse_uint_loop_nonneg [rotated] split: if_splits)

lemma format_nat_no_sign: "\<exists>c cs. format_nat n = c # cs \<and> is_digit c \<and> c \<noteq> CHR ''-'' \<and> c \<noteq> CHR ''+''"
proof -
  obtain c cs where c: "format_nat n = c # cs" by (cases "format_nat n") auto
  then have "is_digit c" by (intro format_nat_digits [of c n]) simp
  then show ?thesis using c by (auto simp: is_digit_def)
qed

lemma ParseInt_FormatInt: "in_int64 i \<Longrightarrow> ParseInt (FormatInt i) = (i, None)"
proof -
  assume i: "in_int64 i"
  show ?thesis
  proof (cases "i < 0")
    case True
    with i have "int (nat (- i)) < 2 ^ 64" "- i \<le> 2 ^ 63" by (simp_all add: int64_defs)
    with True show ?thesis
      by (simp add: FormatInt_def ParseInt_def ParseUint_format_nat HasPrefix_def)
  next
    case False
    with i have "int (nat i) < 2 ^ 64" "i < 2 ^ 63" by (simp_all add: int64_defs)
    moreover obtain c cs where "format_nat (nat i) = c # cs" "c \<noteq> CHR ''-''" "c \<noteq> CHR ''+''"
      using format_nat_no_sign by blast
    ultimately show ?thesis using False ParseUint_format_nat [of "nat i"]
      by (simp add: FormatInt_def ParseInt_def HasPrefix_def)
  qed
qed

lemma ParseInt_in_int64: "ParseInt s = (i, e) \<Longrightarrow> in_int64 i"
  by (auto simp: ParseInt_def Let_def int64_defs dest: ParseUint_nonneg
      split: sum.splits num_error.splits if_splits)

lemma FormatInt_chars:
  "c \<in> set (FormatInt i) \<Longrightarrow> is_digit c \<or> c = CHR ''-''"
  by (auto simp: FormatInt_def dest: format_nat_digits split: if_splits)

lemma FormatInt_neq_Nil [simp]: "FormatInt i \<noteq> []"
  by (simp add: FormatInt_def)

lemma is_digit_not_space: "is_digit c \<Longrightarrow> \<not> isASCIISpace c"
  by (auto simp: is_digit_def isASCIISpace_def)

lemma TrimString_FormatInt [simp]: "TrimString (FormatInt i) = FormatInt i"
proof (rule TrimString_id)
  have "\<not> isASCIISpace c" if "c \<in> set (FormatInt i)" for c
    using FormatInt_chars [OF that] by (auto dest: is_digit_not_space simp: isASCIISpace_def)
  then show "FormatInt i = [] \<or> \<not> isASCIISpace (hd (FormatInt i)) \<and> \<not> isASCIISpace (last (FormatInt i))"
    by simp
qed

lemma FormatInt_inj:
  assumes "FormatInt a = FormatInt b"
  shows "a = b"
proof (cases "a < 0 \<longleftrightarrow> b < 0")
  case True
  then show ?thesis using assms format_nat_inj [of "nat a" "nat b"] format_nat_inj [of "nat (- a)" "nat (- b)"]
    by (auto simp: FormatInt_def split: if_splits)
next
  case False
  then show ?thesis using assms format_nat_no_sign [of "nat a"] format_nat_no_sign [of "nat b"]
    by (auto simp: FormatInt_def split: if_splits)
qed

end
