(* ===== verification/Go_Path.thy ===== *)
theory Go_Path
  imports Go_Strings
begin

text \<open>
  Go's package \<open>path\<close> (\<open>Clean\<close>, \<open>Join\<close>, \<open>Split\<close>, \<open>Dir\<close>, \<open>Base\<close>, \<open>Ext\<close>) on byte
  strings, and the abstraction every path component of the program rests on: a
  cleaned absolute path is the same thing as a list of names, \<open>path_of\<close> prints
  it, \<open>comps_of\<close> reads it back, and the textual prefix tests of the program are
  the prefix order on those lists.
\<close>

section \<open>Package path\<close>

abbreviation slash :: char where
  "slash \<equiv> CHR ''/''"

text \<open>
  One component of \<open>path.Clean\<close>'s scan.  The stack holds the output so far, last
  component first; a \<open>..\<close> takes back the last name, stays in front of a relative
  path and disappears at the root of a rooted one.
\<close>

definition clean_step :: "bool \<Rightarrow> string list \<Rightarrow> string \<Rightarrow> string list" where
  "clean_step rooted st c =
     (if c = [] \<or> c = ''.'' then st
      else if c = ''..'' then
        (case st of
           x # xs \<Rightarrow> if x = ''..'' then ''..'' # st else xs
         | [] \<Rightarrow> if rooted then [] else [''..''])
      else c # st)"

definition clean_comps :: "bool \<Rightarrow> string list \<Rightarrow> string list" where
  "clean_comps rooted cs = rev (foldl (clean_step rooted) [] cs)"

definition Clean :: "string \<Rightarrow> string" where
  "Clean p =
     (if p = [] then ''.''
      else if hd p = slash then slash # Join (clean_comps True (Split slash p)) [slash]
      else (let cs = clean_comps False (Split slash p)
            in if cs = [] then ''.'' else Join cs [slash]))"

text \<open>\<open>path.Join\<close> of two elements.\<close>

definition PathJoin :: "string \<Rightarrow> string \<Rightarrow> string" where
  "PathJoin a b = (if a = [] \<and> b = [] then []
     else Clean (if a = [] then b else a @ [slash] @ b))"

definition PathSplit :: "string \<Rightarrow> string \<times> string" where
  "PathSplit p = (let f = rev (takeWhile (\<lambda>c. c \<noteq> slash) (rev p))
     in (take (length p - length f) p, f))"

definition Dir :: "string \<Rightarrow> string" where
  "Dir p = Clean (fst (PathSplit p))"

definition Base :: "string \<Rightarrow> string" where
  "Base p = (if p = [] then ''.''
     else let q = rev (dropWhile (\<lambda>c. c = slash) (rev p))
          in if q = [] then [slash] else snd (PathSplit q))"

definition PathExt :: "string \<Rightarrow> string" where
  "PathExt p = (let f = snd (PathSplit p); e = takeWhile (\<lambda>c. c \<noteq> CHR ''.'') (rev f)
     in if CHR ''.'' \<in> set f then CHR ''.'' # rev e else [])"

section \<open>Absolute paths as lists of names\<close>

definition valid_name :: "string \<Rightarrow> bool" where
  "valid_name c \<longleftrightarrow> c \<noteq> [] \<and> slash \<notin> set c \<and> c \<noteq> ''.'' \<and> c \<noteq> ''..''"

definition valid_names :: "string list \<Rightarrow> bool" where
  "valid_names cs \<longleftrightarrow> list_all valid_name cs"

definition path_of :: "string list \<Rightarrow> string" where
  "path_of cs = slash # Join cs [slash]"

definition comps_of :: "string \<Rightarrow> string list" where
  "comps_of p = filter (\<lambda>c. c \<noteq> []) (Split slash p)"

text \<open>A cleaned absolute path: the image of \<open>path_of\<close>, stated computably.\<close>

definition abs_path :: "string \<Rightarrow> bool" where
  "abs_path p \<longleftrightarrow> valid_names (comps_of p) \<and> p = path_of (comps_of p)"

lemma valid_names_simps [simp]:
  "valid_names []" "valid_names (c # cs) \<longleftrightarrow> valid_name c \<and> valid_names cs"
  "valid_names (xs @ ys) \<longleftrightarrow> valid_names xs \<and> valid_names ys"
  "valid_names (rev xs) \<longleftrightarrow> valid_names xs"
  by (auto simp: valid_names_def list_all_iff)

lemma valid_namesD: "valid_names cs \<Longrightarrow> c \<in> set cs \<Longrightarrow> valid_name c"
  by (simp add: valid_names_def list_all_iff)

lemma valid_names_no_slash: "valid_names cs \<Longrightarrow> c \<in> set cs \<Longrightarrow> slash \<notin> set c"
  by (auto dest: valid_namesD simp: valid_name_def)

lemma valid_names_no_Nil: "valid_names cs \<Longrightarrow> [] \<notin> set cs"
  by (auto dest: valid_namesD simp: valid_name_def)

lemma valid_names_mono: "set xs \<subseteq> set ys \<Longrightarrow> valid_names ys \<Longrightarrow> valid_names xs"
  by (auto simp: valid_names_def list_all_iff)

lemma valid_names_prefix: "prefix xs ys \<Longrightarrow> valid_names ys \<Longrightarrow> valid_names xs"
  by (rule valid_names_mono [OF set_mono_prefix])

lemma valid_names_butlast: "valid_names cs \<Longrightarrow> valid_names (butlast cs)"
  by (rule valid_names_prefix [OF prefix_butlast])

subsection \<open>The two views agree\<close>

lemma path_of_Nil [simp]: "path_of [] = ''/''"
  by (simp add: path_of_def)

lemma path_of_neq_Nil [simp]: "path_of cs \<noteq> []"
  by (simp add: path_of_def)

lemma hd_path_of [simp]: "hd (path_of cs) = slash"
  by (simp add: path_of_def)

lemma path_of_Cons: "path_of (c # cs) = slash # c @ (if cs = [] then [] else path_of cs)"
  by (simp add: path_of_def Join_Cons)

lemma path_of_concat: "cs \<noteq> [] \<Longrightarrow> path_of cs = concat (map ((#) slash) cs)"
  by (induction cs) (auto simp: path_of_Cons)

lemma path_of_snoc: "path_of (cs @ [c]) = (if cs = [] then [] else path_of cs) @ slash # c"
  using path_of_concat [of "cs @ [c]"] path_of_concat [of cs] by auto

lemma Split_path_of:
  "valid_names cs \<Longrightarrow> Split slash (path_of cs) = (if cs = [] then [[], []] else [] # cs)"
  using Split_concat_slash [of cs slash] by (auto simp: path_of_concat dest: valid_names_no_slash)

lemma comps_of_path_of [simp]: "valid_names cs \<Longrightarrow> comps_of (path_of cs) = cs"
  using valid_names_no_Nil [of cs] by (auto simp: comps_of_def Split_path_of intro!: filter_True)

lemma path_of_inject: "valid_names xs \<Longrightarrow> valid_names ys \<Longrightarrow> path_of xs = path_of ys \<longleftrightarrow> xs = ys"
  by (metis comps_of_path_of)

lemma abs_path_path_of [simp]: "valid_names cs \<Longrightarrow> abs_path (path_of cs)"
  by (simp add: abs_path_def)

lemma abs_pathE:
  assumes "abs_path p"
  obtains cs where "p = path_of cs" "valid_names cs"
  using assms by (auto simp: abs_path_def)

lemma abs_path_comps: "abs_path p \<Longrightarrow> path_of (comps_of p) = p"
  by (simp add: abs_path_def)

lemma slash_in_path_of: "slash \<in> set (path_of cs)"
  by (simp add: path_of_def)

subsection \<open>The order on paths\<close>

lemma prefix_append_slash:
  "prefix (x @ slash # r) (y @ slash # t) \<Longrightarrow> slash \<notin> set x \<Longrightarrow> slash \<notin> set y \<Longrightarrow> x = y \<and> prefix r t"
proof (induction x arbitrary: y)
  case Nil
  then show ?case by (cases y) auto
next
  case (Cons a x)
  then show ?case by (cases y) auto
qed

lemma path_of_append_slash:
  "path_of xs @ [slash] = slash # concat (map (\<lambda>c. c @ [slash]) (if xs = [] then [[]] else xs))"
  by (induction xs) (auto simp: path_of_Cons path_of_def Join_Cons split: if_splits)

lemma prefix_concat_slash:
  assumes "valid_names xs" "valid_names ys"
  shows "prefix (concat (map (\<lambda>c. c @ [slash]) xs)) (concat (map (\<lambda>c. c @ [slash]) ys)) \<longleftrightarrow> prefix xs ys"
  using assms
proof (induction xs arbitrary: ys)
  case (Cons x xs)
  show ?case
  proof (cases ys)
    case Nil
    then show ?thesis by simp
  next
    case (Cons y zs)
    with Cons.prems Cons.IH [of zs] show ?thesis
      by (auto simp: valid_name_def dest: prefix_append_slash)
  qed
qed simp

text \<open>
  The textual test of the program, that a path equals another or begins with it
  and a separator, is the prefix order on the lists of names.
\<close>

lemma prefix_path_slash_iff:
  assumes "valid_names xs" "valid_names ys" "xs \<noteq> []" "ys \<noteq> []"
  shows "prefix (path_of xs @ [slash]) (path_of ys @ [slash]) \<longleftrightarrow> prefix xs ys"
  using prefix_concat_slash [OF assms(1,2)] assms(3,4)
  by (simp add: path_of_append_slash)

lemma prefix_path_of_iff:
  assumes "valid_names xs" "valid_names ys" "xs \<noteq> []"
  shows "path_of xs = path_of ys \<or> prefix (path_of xs @ [slash]) (path_of ys) \<longleftrightarrow> prefix xs ys"
proof (cases "ys = []")
  case True
  have "path_of xs \<noteq> ''/''" using assms path_of_inject [of xs "[]"] by auto
  moreover have "\<not> prefix (path_of xs @ [slash]) ''/''"
    by (auto simp: path_of_def prefix_def append_eq_Cons_conv)
  ultimately show ?thesis using True assms by simp
next
  case False
  have "prefix (path_of xs @ [slash]) (path_of ys @ [slash]) \<longleftrightarrow>
    path_of xs = path_of ys \<or> prefix (path_of xs @ [slash]) (path_of ys)"
    by (simp add: prefix_snoc_iff)
  with prefix_path_slash_iff [OF assms False] show ?thesis by simp
qed

section \<open>Cleaning\<close>

lemma clean_step_valid:
  "valid_names st \<Longrightarrow> slash \<notin> set c \<Longrightarrow> valid_names (clean_step True st c)"
  by (auto simp: clean_step_def valid_name_def split: list.splits)

lemma foldl_clean_valid:
  "valid_names st \<Longrightarrow> (\<And>c. c \<in> set cs \<Longrightarrow> slash \<notin> set c) \<Longrightarrow>
     valid_names (foldl (clean_step True) st cs)"
  by (induction cs arbitrary: st) (auto simp: clean_step_valid)

lemma clean_comps_valid:
  "(\<And>c. c \<in> set cs \<Longrightarrow> slash \<notin> set c) \<Longrightarrow> valid_names (clean_comps True cs)"
  unfolding clean_comps_def by (simp add: foldl_clean_valid)

lemma foldl_clean_id: "valid_names cs \<Longrightarrow> foldl (clean_step r) st cs = rev cs @ st"
  by (induction cs arbitrary: st) (auto simp: clean_step_def valid_name_def)

lemma clean_comps_id [simp]: "valid_names cs \<Longrightarrow> clean_comps r cs = cs"
  by (simp add: clean_comps_def foldl_clean_id)

lemma clean_comps_skip [simp]: "clean_comps r ([] # cs) = clean_comps r cs"
  by (simp add: clean_comps_def clean_step_def)

lemma clean_comps_append_valid:
  "valid_names xs \<Longrightarrow> foldl (clean_step r) [] (xs @ ys) = foldl (clean_step r) (rev xs) ys"
  by (simp add: foldl_clean_id)

lemma Clean_rooted: "hd p = slash \<Longrightarrow> p \<noteq> [] \<Longrightarrow> Clean p = path_of (clean_comps True (Split slash p))"
  by (simp add: Clean_def path_of_def)

lemma Clean_abs: "hd p = slash \<Longrightarrow> p \<noteq> [] \<Longrightarrow> abs_path (Clean p)"
  by (simp add: Clean_rooted clean_comps_valid Split_parts)

lemma Clean_path_of [simp]: "valid_names cs \<Longrightarrow> Clean (path_of cs) = path_of cs"
  by (simp add: Clean_rooted Split_path_of)

lemma Clean_abs_id [simp]: "abs_path p \<Longrightarrow> Clean p = p"
  by (auto elim: abs_pathE)

text \<open>Joining a cleaned path below another appends the names.\<close>

lemma Split_append_slash: "Split c (x @ c # y) = Split c x @ Split c y"
proof (induction x)
  case (Cons a x)
  obtain u us where "Split c x = u # us" by (cases "Split c x") simp_all
  with Cons show ?case by auto
qed simp

lemma clean_skip_Nils:
  "foldl (clean_step r) st (filter (\<lambda>c. c \<noteq> []) cs) = foldl (clean_step r) st cs"
  by (induction cs arbitrary: st) (auto simp: clean_step_def)

lemma clean_comps_filter: "clean_comps r (filter (\<lambda>c. c \<noteq> []) cs) = clean_comps r cs"
  by (simp add: clean_comps_def clean_skip_Nils)

lemma PathJoin_comps:
  assumes "valid_names xs" "valid_names (comps_of b)"
  shows "PathJoin (path_of xs) b = path_of (xs @ comps_of b)"
proof -
  have "filter (\<lambda>c. c \<noteq> []) (Split slash (path_of xs @ slash # b)) = xs @ comps_of b"
    using assms comps_of_path_of [of xs] by (simp add: Split_append_slash comps_of_def)
  then have "clean_comps True (Split slash (path_of xs @ slash # b)) = xs @ comps_of b"
    using assms clean_comps_filter [of True "Split slash (path_of xs @ slash # b)"] by simp
  then show ?thesis by (simp add: PathJoin_def Clean_rooted)
qed

lemma PathJoin_path_of:
  assumes "valid_names xs" "valid_names ys"
  shows "PathJoin (path_of xs) (path_of ys) = path_of (xs @ ys)"
  using assms PathJoin_comps [of xs "path_of ys"] by simp

lemma PathJoin_name:
  assumes "valid_names xs" "valid_name c"
  shows "PathJoin (path_of xs) c = path_of (xs @ [c])"
proof -
  have "comps_of c = [c]" using assms(2) by (simp add: comps_of_def valid_name_def Split_no_sep)
  with PathJoin_comps [of xs c] assms show ?thesis by simp
qed

subsection \<open>Dir, Base and Split\<close>

lemma PathSplit_append [simp]:
  "slash \<notin> set f \<Longrightarrow> PathSplit (d @ slash # f) = (d @ [slash], f)"
proof -
  assume f: "slash \<notin> set f"
  then have "takeWhile (\<lambda>c. c \<noteq> slash) (rev f @ slash # rev d) = rev f"
    by (subst takeWhile_all_append) auto
  then show ?thesis by (simp add: PathSplit_def Let_def)
qed

lemma PathSplit_path_of:
  "valid_names (cs @ [c]) \<Longrightarrow>
     PathSplit (path_of (cs @ [c])) = ((if cs = [] then ''/'' else path_of cs @ [slash]), c)"
  by (auto simp: path_of_snoc valid_name_def)

lemma Clean_path_slash:
  assumes "valid_names cs"
  shows "Clean (path_of cs @ [slash]) = path_of cs"
proof -
  have "Split slash (path_of cs @ [slash]) = Split slash (path_of cs) @ [[]]"
    using Split_append_slash [of slash "path_of cs" "[]"] by simp
  then have "filter (\<lambda>c. c \<noteq> []) (Split slash (path_of cs @ [slash])) = cs"
    using assms comps_of_path_of [of cs] by (simp add: comps_of_def)
  then have "clean_comps True (Split slash (path_of cs @ [slash])) = cs"
    using assms clean_comps_filter [of True "Split slash (path_of cs @ [slash])"] by simp
  then show ?thesis by (simp add: Clean_rooted)
qed

lemma Dir_path_of_snoc: "valid_names (cs @ [c]) \<Longrightarrow> Dir (path_of (cs @ [c])) = path_of cs"
  using Clean_path_of [of "[]"] by (auto simp: Dir_def PathSplit_path_of Clean_path_slash)

lemma Dir_root [simp]: "Dir ''/'' = ''/''"
  by (simp add: Dir_def PathSplit_def Clean_def clean_comps_def clean_step_def)

lemma Dir_path_of: "valid_names cs \<Longrightarrow> Dir (path_of cs) = path_of (butlast cs)"
  by (cases cs rule: rev_cases) (simp_all add: Dir_path_of_snoc)

lemma Base_path_of: "valid_names (cs @ [c]) \<Longrightarrow> Base (path_of (cs @ [c])) = c"
proof -
  assume v: "valid_names (cs @ [c])"
  then have c: "c \<noteq> []" "slash \<notin> set c" by (auto simp: valid_name_def)
  then have "dropWhile (\<lambda>c. c = slash) (rev (path_of (cs @ [c]))) = rev (path_of (cs @ [c]))"
    by (cases c rule: rev_cases) (auto simp: path_of_snoc)
  then show ?thesis using PathSplit_path_of [OF v] by (simp add: Base_def)
qed

lemmas path_of_simps [path_simps] =
  Clean_path_of PathJoin_path_of PathJoin_name Dir_path_of Base_path_of comps_of_path_of path_of_inject

end
