(* ===== verification/Path_Utils.thy ===== *)
theory Path_Utils
  imports Go_Path
begin

text \<open>
  The path helpers every layer of the server calls: \<open>pkg/utils/path.go\<close> and
  \<open>pkg/utils/balance.go\<close>.  The abstraction of a request path is the list of names
  \<open>fix_comps\<close>; cleaning, comparison, the sub-path test, joining below a base path
  and the ancestor list are each shown to be the corresponding operation on that
  list.
\<close>

section \<open>pkg/utils/path.go\<close>

datatype path_error = RelativePath

definition FixAndCleanPath :: "string \<Rightarrow> string" where
  "FixAndCleanPath path =
     (let path = ReplaceAll1 path (CHR 0x5C) ''/'';
          path = (if \<not> HasPrefix path ''/'' then ''/'' @ path else path)
      in Clean path)"

definition PathAddSeparatorSuffix :: "string \<Rightarrow> string" where
  "PathAddSeparatorSuffix path = (if \<not> HasSuffix path ''/'' then path @ ''/'' else path)"

definition PathEqual :: "string \<Rightarrow> string \<Rightarrow> bool" where
  "PathEqual path1 path2 \<longleftrightarrow> FixAndCleanPath path1 = FixAndCleanPath path2"

definition IsSubPath :: "string \<Rightarrow> string \<Rightarrow> bool" where
  "IsSubPath path subPath =
     (let path = FixAndCleanPath path; subPath = FixAndCleanPath subPath
      in path = subPath \<or> HasPrefix subPath (PathAddSeparatorSuffix path))"

definition SourceExt :: "string \<Rightarrow> string" where
  "SourceExt path =
     (let ext = PathExt path
      in if length ext > 0 \<and> ext ! 0 = CHR ''.'' then drop 1 ext else ext)"

text \<open>\<open>strings.ToLower\<close> is case mapping of Unicode, a table of the run-time library: a parameter.\<close>

definition Ext :: "(string \<Rightarrow> string) \<Rightarrow> string \<Rightarrow> string" where
  "Ext ToLower path = ToLower (SourceExt path)"

text \<open>\<open>url.PathEscape\<close>: the bytes left alone in a path segment, every other one as \<open>%XX\<close>.\<close>

definition path_unescaped :: "char \<Rightarrow> bool" where
  "path_unescaped c \<longleftrightarrow>
     (let n = (of_char c :: nat)
      in 97 \<le> n \<and> n \<le> 122 \<or> 65 \<le> n \<and> n \<le> 90 \<or> 48 \<le> n \<and> n \<le> 57) \<or>
     c \<in> set ''-_.~$&+:=@''"

definition hex_digit :: "nat \<Rightarrow> char" where
  "hex_digit d = (if d < 10 then char_of (48 + d) else char_of (55 + d))"

definition escape_byte :: "char \<Rightarrow> string" where
  "escape_byte c = [CHR ''%'', hex_digit (of_char c div 16), hex_digit (of_char c mod 16)]"

definition PathEscape :: "string \<Rightarrow> string" where
  "PathEscape s = concat (map (\<lambda>c. if path_unescaped c then [c] else escape_byte c) s)"

definition toReplace :: "(char \<times> string) list" where
  "toReplace = [(CHR ''%'', ''%25''), (CHR ''%'', ''%25''), (CHR ''?'', ''%3F''), (CHR ''#'', ''%23'')]"

definition EncodePath :: "string \<Rightarrow> bool list \<Rightarrow> string" where
  "EncodePath path all =
     (let seg = Split slash path;
          enc = (\<lambda>s. if length all > 0 \<and> all ! 0 then PathEscape s
                     else foldl (\<lambda>s (src, dst). ReplaceAll1 s src dst) s toReplace)
      in Join (map enc seg) ''/'')"

definition JoinBasePath :: "string \<Rightarrow> string \<Rightarrow> path_error + string" where
  "JoinBasePath basePath reqPath =
     (let isRelativePath = Contains reqPath ''..'';
          reqPath = FixAndCleanPath reqPath
      in if isRelativePath \<and> \<not> Contains reqPath ''..'' then Inl RelativePath
         else Inr (PathJoin (FixAndCleanPath basePath) reqPath))"

text \<open>The loop of \<open>GetPathHierarchy\<close>: \<open>cur\<close> is the string builder's content.\<close>

fun hierarchy_loop :: "string \<Rightarrow> string list \<Rightarrow> string list" where
  "hierarchy_loop cur [] = []"
| "hierarchy_loop cur (part # parts) =
     (if part = [] then hierarchy_loop cur parts
      else let cur' = cur @ ''/'' @ part in cur' # hierarchy_loop cur' parts)"

definition GetPathHierarchy :: "string \<Rightarrow> string list" where
  "GetPathHierarchy path =
     (if path = [] \<or> path = ''/'' then [''/'']
      else let path = FixAndCleanPath path;
               path = (if \<not> HasPrefix path ''/'' then ''/'' @ path else path)
           in ''/'' # hierarchy_loop [] (Split slash path))"

section \<open>pkg/utils/balance.go\<close>

definition IsBalance :: "string \<Rightarrow> bool" where
  "IsBalance str \<longleftrightarrow> Contains str ''.balance''"

definition GetActualMountPath :: "string \<Rightarrow> string" where
  "GetActualMountPath mountPath =
     (case LastIndex mountPath ''.balance'' of
        Some bIndex \<Rightarrow> take bIndex mountPath
      | None \<Rightarrow> mountPath)"

definition GetFullPath :: "string \<Rightarrow> string \<Rightarrow> string" where
  "GetFullPath mountPath path = PathJoin (GetActualMountPath mountPath) path"

section \<open>Specification: the names of a request path\<close>

text \<open>
  What the source's comment promises of \<open>FixAndCleanPath\<close>, said on lists: split at
  both separators, drop empty names and \<open>.\<close>, let \<open>..\<close> take back the name before
  it, where the parent of the root is the root.
\<close>

definition fix_comps :: "string \<Rightarrow> string list" where
  "fix_comps p = clean_comps True (Split slash (ReplaceAll1 p (CHR 0x5C) ''/''))"

text \<open>Percent-decoding as an HTTP server does it; \<open>None\<close> for a malformed escape.\<close>

definition hex_val :: "char \<Rightarrow> nat option" where
  "hex_val c = (let n = (of_char c :: nat) in
     if 48 \<le> n \<and> n \<le> 57 then Some (n - 48)
     else if 65 \<le> n \<and> n \<le> 70 then Some (n - 55)
     else if 97 \<le> n \<and> n \<le> 102 then Some (n - 87) else None)"

fun url_decode :: "string \<Rightarrow> string option" where
  "url_decode [] = Some []"
| "url_decode (c # cs) =
     (if c = CHR ''%''
      then (case cs of
              a # b # r \<Rightarrow>
                (case (hex_val a, hex_val b) of
                   (Some x, Some y) \<Rightarrow> map_option ((#) (char_of (16 * x + y))) (url_decode r)
                 | _ \<Rightarrow> None)
            | _ \<Rightarrow> None)
      else map_option ((#) c) (url_decode cs))"

subsection \<open>Cleaning\<close>

lemma ReplaceAll1_self_free: "c \<notin> set new \<Longrightarrow> c \<notin> set (ReplaceAll1 s c new)"
  by (auto simp: ReplaceAll1_def)

lemma ReplaceAll1_id: "c \<notin> set s \<Longrightarrow> ReplaceAll1 s c new = s"
  by (induction s) (auto simp: ReplaceAll1_def)

lemma FixAndCleanPath_eq: "FixAndCleanPath p = path_of (fix_comps p)"
proof -
  let ?q = "ReplaceAll1 p (CHR 0x5C) ''/''"
  show ?thesis
  proof (cases "HasPrefix ?q ''/''")
    case True
    then obtain t where "?q = slash # t" by auto
    then show ?thesis by (simp add: FixAndCleanPath_def fix_comps_def Clean_rooted)
  next
    case False
    then show ?thesis by (simp add: FixAndCleanPath_def fix_comps_def Clean_rooted del: HasPrefix_Cons)
  qed
qed

lemma fix_comps_valid [simp]: "valid_names (fix_comps p)"
  unfolding fix_comps_def by (rule clean_comps_valid) (rule Split_parts)

lemma set_clean_step: "set (clean_step r st c) \<subseteq> insert c (set st)"
  by (auto simp: clean_step_def split: list.splits if_splits)

lemma set_clean_comps: "set (clean_comps r cs) \<subseteq> set cs"
proof -
  have "set (foldl (clean_step r) st cs) \<subseteq> set st \<union> set cs" for st
    by (induction cs arbitrary: st) (use set_clean_step in fastforce)+
  from this [of "[]"] show ?thesis by (simp add: clean_comps_def)
qed

lemma set_Split: "x \<in> set (Split c s) \<Longrightarrow> set x \<subseteq> set s"
proof (induction s arbitrary: x)
  case (Cons a s)
  obtain y ys where "Split c s = y # ys" by (cases "Split c s") simp_all
  with Cons.IH have "set y \<subseteq> set s" "\<And>z. z \<in> set ys \<Longrightarrow> set z \<subseteq> set s" by auto
  with Cons.prems \<open>Split c s = y # ys\<close> show ?case by (cases "a = c") auto
qed simp

lemma fix_comps_no_backslash: "c \<in> set (fix_comps p) \<Longrightarrow> CHR 0x5C \<notin> set c"
proof -
  let ?q = "ReplaceAll1 p (CHR 0x5C) ''/''"
  assume "c \<in> set (fix_comps p)"
  then have "c \<in> set (Split slash ?q)" unfolding fix_comps_def using set_clean_comps by blast
  then have "set c \<subseteq> set ?q" by (rule set_Split)
  moreover have "CHR 0x5C \<notin> set ?q" by (rule ReplaceAll1_self_free) simp
  ultimately show ?thesis by blast
qed

lemma set_Join: "set (Join cs sep) \<subseteq> (\<Union>c\<in>set cs. set c) \<union> set sep"
  by (induction cs) (auto simp: Join_Cons)

lemma fix_comps_path_of:
  assumes "valid_names cs" "\<And>c. c \<in> set cs \<Longrightarrow> CHR 0x5C \<notin> set c"
  shows "fix_comps (path_of cs) = cs"
proof -
  have "CHR 0x5C \<notin> set (path_of cs)"
    using assms(2) set_Join [of cs "[slash]"] by (auto simp: path_of_def)
  then show ?thesis using assms(1) by (simp add: fix_comps_def ReplaceAll1_id Split_path_of)
qed

lemma fix_comps_FixAndCleanPath [simp]: "fix_comps (FixAndCleanPath p) = fix_comps p"
  by (simp add: FixAndCleanPath_eq fix_comps_path_of fix_comps_no_backslash)

lemma fix_comps_append [simp]: "fix_comps (path_of (fix_comps p @ fix_comps q)) = fix_comps p @ fix_comps q"
  by (rule fix_comps_path_of) (auto dest: fix_comps_no_backslash)

lemma fix_comps_root [simp]: "fix_comps ''/'' = []"
  by (simp add: fix_comps_def ReplaceAll1_def clean_comps_def clean_step_def)

lemma abs_FixAndCleanPath: "abs_path (FixAndCleanPath p)"
  by (simp add: FixAndCleanPath_eq)

lemma FixAndCleanPath_fix [simp]: "FixAndCleanPath (FixAndCleanPath p) = FixAndCleanPath p"
  by (subst FixAndCleanPath_eq) (simp add: FixAndCleanPath_eq [symmetric])

lemma FixAndCleanPath_inj: "FixAndCleanPath p = FixAndCleanPath q \<longleftrightarrow> fix_comps p = fix_comps q"
  by (simp add: FixAndCleanPath_eq path_of_inject)

lemma FixAndCleanPath_root: "FixAndCleanPath p = ''/'' \<longleftrightarrow> fix_comps p = []"
  using FixAndCleanPath_inj [of p "''/''"] by (simp add: FixAndCleanPath_eq [of "''/''"])

text \<open>The directory part of a cleaned path, which ends in a slash, names the parent.\<close>

lemma fix_comps_path_slash: "fix_comps (path_of (fix_comps p) @ [slash]) = fix_comps p"
proof -
  let ?q = "path_of (fix_comps p)"
  have "CHR 0x5C \<notin> set ?q" using fix_comps_no_backslash set_Join [of "fix_comps p" "[slash]"] by (force simp: path_of_def)
  then have id: "ReplaceAll1 (?q @ [slash]) (CHR 0x5C) ''/'' = ?q @ [slash]" "ReplaceAll1 ?q (CHR 0x5C) ''/'' = ?q"
    by (auto intro: ReplaceAll1_id)
  have "Split slash (?q @ [slash]) = Split slash ?q @ [[]]" using Split_append_slash [of slash ?q "[]"] by simp
  then have "fix_comps (?q @ [slash]) = fix_comps ?q"
    using clean_comps_filter [of True "Split slash ?q @ [[]]"] clean_comps_filter [of True "Split slash ?q"]
    by (simp add: fix_comps_def [of "?q @ [slash]"] fix_comps_def [of ?q] id [simplified])
  then show ?thesis using fix_comps_FixAndCleanPath [of p] by (simp only: FixAndCleanPath_eq)
qed

lemma fix_comps_split_dir:
  assumes "PathSplit (FixAndCleanPath p) = (dir, name)"
  shows "fix_comps dir = butlast (fix_comps p)"
proof (cases "fix_comps p" rule: rev_cases)
  case Nil
  with assms show ?thesis using fix_comps_root by (auto simp: FixAndCleanPath_eq PathSplit_def)
next
  case (snoc cs c)
  have v: "valid_names (cs @ [c])" using fix_comps_valid [of p] snoc by simp
  have "fix_comps (path_of cs) = cs" using v snoc fix_comps_no_backslash [of _ p] by (intro fix_comps_path_of) auto
  with fix_comps_path_slash [of "path_of cs"] assms PathSplit_path_of [OF v] snoc show ?thesis
    by (auto simp: FixAndCleanPath_eq)
qed

subsection \<open>The sub-path order\<close>

lemma PathAddSeparatorSuffix_path_of:
  "valid_names cs \<Longrightarrow> PathAddSeparatorSuffix (path_of cs) = (if cs = [] then ''/'' else path_of cs @ [slash])"
proof (cases cs rule: rev_cases)
  case (snoc ds d)
  moreover assume "valid_names cs"
  ultimately have d: "d \<noteq> []" "slash \<notin> set d" by (auto simp: valid_name_def)
  then obtain e es where "d = es @ [e]" by (cases d rule: rev_cases) auto
  with d snoc show ?thesis
    by (auto simp: PathAddSeparatorSuffix_def HasSuffix_iff path_of_snoc suffix_def)
qed (simp add: PathAddSeparatorSuffix_def HasSuffix_def)

lemma IsSubPath_iff: "IsSubPath p q \<longleftrightarrow> prefix (fix_comps p) (fix_comps q)"
proof (cases "fix_comps p = []")
  case True
  then show ?thesis
    by (auto simp: IsSubPath_def FixAndCleanPath_eq PathAddSeparatorSuffix_def HasSuffix_def
        path_of_def HasPrefix_def)
next
  case False
  then show ?thesis
    using prefix_path_of_iff [of "fix_comps p" "fix_comps q"]
    by (simp add: IsSubPath_def Let_def FixAndCleanPath_eq PathAddSeparatorSuffix_path_of HasPrefix_iff)
qed

lemma PathEqual_iff: "PathEqual p q \<longleftrightarrow> fix_comps p = fix_comps q"
  by (simp add: PathEqual_def FixAndCleanPath_inj)

text \<open>
  The sub-path test as an interface: what the permission checks, the mount table
  and the caches rely on is that it is a partial order on paths up to
  \<open>PathEqual\<close>, with the root below everything.
\<close>

locale path_order =
  fixes sub :: "'p \<Rightarrow> 'p \<Rightarrow> bool" and eq :: "'p \<Rightarrow> 'p \<Rightarrow> bool" and root :: 'p
  assumes sub_refl: "sub p p"
    and sub_trans: "sub p q \<Longrightarrow> sub q r \<Longrightarrow> sub p r"
    and sub_antisym: "sub p q \<Longrightarrow> sub q p \<Longrightarrow> eq p q"
    and sub_eq: "eq p q \<Longrightarrow> sub p q"
    and eq_sym: "eq p q \<Longrightarrow> eq q p"
    and root_sub: "sub root p"
    and sub_linear: "sub p r \<Longrightarrow> sub q r \<Longrightarrow> sub p q \<or> sub q p"
begin

lemma eq_iff_sub: "eq p q \<longleftrightarrow> sub p q \<and> sub q p"
  using sub_antisym sub_eq eq_sym by blast

lemma sub_cong: "eq p p' \<Longrightarrow> eq q q' \<Longrightarrow> sub p q \<longleftrightarrow> sub p' q'"
  using sub_trans sub_eq eq_sym by blast

lemma sub_root_iff: "sub p root \<longleftrightarrow> eq p root"
  using eq_iff_sub root_sub by blast

end

interpretation sp: path_order IsSubPath PathEqual "''/''"
proof
  fix p q r
  show "IsSubPath p p" by (simp add: IsSubPath_iff)
  show "IsSubPath p q \<Longrightarrow> IsSubPath q r \<Longrightarrow> IsSubPath p r"
    by (auto simp: IsSubPath_iff)
  show "IsSubPath p q \<Longrightarrow> IsSubPath q p \<Longrightarrow> PathEqual p q"
    by (simp add: IsSubPath_iff PathEqual_iff prefix_order.antisym)
  show "PathEqual p q \<Longrightarrow> IsSubPath p q" by (simp add: IsSubPath_iff PathEqual_iff)
  show "PathEqual p q \<Longrightarrow> PathEqual q p" by (simp add: PathEqual_iff)
  show "IsSubPath ''/'' p" by (simp add: IsSubPath_iff)
  show "IsSubPath p r \<Longrightarrow> IsSubPath q r \<Longrightarrow> IsSubPath p q \<or> IsSubPath q p"
    by (simp add: IsSubPath_iff prefix_same_cases)
qed

subsection \<open>Joining below a base path\<close>

lemma JoinBasePath_Inr:
  "JoinBasePath b r = Inr p \<Longrightarrow> p = path_of (fix_comps b @ fix_comps r)"
  by (auto simp: JoinBasePath_def Let_def FixAndCleanPath_eq PathJoin_path_of split: if_splits)

lemma fix_comps_JoinBasePath: "JoinBasePath b r = Inr p \<Longrightarrow> fix_comps p = fix_comps b @ fix_comps r"
  by (auto dest: JoinBasePath_Inr)

subsection \<open>The ancestor list\<close>

lemma hierarchy_loop_eq:
  "valid_names cs \<Longrightarrow>
     hierarchy_loop (if ds = [] then [] else path_of ds) cs = map (\<lambda>es. path_of (ds @ es)) (tl (prefixes cs))"
proof (induction cs arbitrary: ds)
  case (Cons c cs)
  then have IH: "hierarchy_loop (path_of (ds @ [c])) cs = map (\<lambda>es. path_of ((ds @ [c]) @ es)) (tl (prefixes cs))"
    using Cons.IH [of "ds @ [c]"] by simp
  have c: "c \<noteq> []" using Cons.prems by (auto simp: valid_name_def)
  have "(if ds = [] then [] else path_of ds) @ ''/'' @ c = path_of (ds @ [c])"
    by (simp add: path_of_snoc)
  with IH c show ?case
    by (cases cs) (simp_all add: Let_def)
qed simp

lemma GetPathHierarchy_eq: "GetPathHierarchy p = map path_of (prefixes (fix_comps p))"
proof (cases "p = [] \<or> p = ''/''")
  case True
  then show ?thesis
    by (auto simp: GetPathHierarchy_def fix_comps_def ReplaceAll1_def clean_comps_def clean_step_def)
next
  case False
  have "hierarchy_loop [] (Split slash (path_of (fix_comps p))) = map path_of (tl (prefixes (fix_comps p)))"
    using hierarchy_loop_eq [of "fix_comps p" "[]"] by (auto simp: Split_path_of)
  then have "GetPathHierarchy p = path_of [] # map path_of (tl (prefixes (fix_comps p)))"
    using False by (simp add: GetPathHierarchy_def FixAndCleanPath_eq HasPrefix_def path_of_def)
  then show ?thesis by (cases "fix_comps p") simp_all
qed

subsection \<open>Percent encoding\<close>

lemma hex_val_hex_digit [simp]: "d < 16 \<Longrightarrow> hex_val (hex_digit d) = Some d"
  by (auto simp: hex_val_def hex_digit_def Let_def)

lemma of_char_split: "char_of (16 * ((of_char c :: nat) div 16) + of_char c mod 16) = c"
  by (simp only: mult_div_mod_eq char_of_char)

lemma of_char_less: "(of_char c :: nat) < 256"
  using of_char_mod_256 [of c] by (metis mod_less_divisor zero_less_numeral)

lemma url_decode_escape [simp]: "url_decode (escape_byte c @ s) = map_option ((#) c) (url_decode s)"
  using of_char_less [of c]
  by (simp add: escape_byte_def of_char_split less_mult_imp_div_less)

lemma Join_map_Split:
  assumes "f c = [c]"
  shows "Join (map (\<lambda>s. concat (map f s)) (Split c p)) [c] = concat (map f p)"
proof (induction p)
  case (Cons a p)
  obtain y ys where "Split c p = y # ys" by (cases "Split c p") simp_all
  with Cons assms show ?case by (cases "a = c") (auto simp: Join_Cons split: if_splits)
qed simp

definition escape_all :: "char \<Rightarrow> string" where
  "escape_all c = (if c = slash \<or> path_unescaped c then [c] else escape_byte c)"

definition escape_default :: "char \<Rightarrow> string" where
  "escape_default c = (if c = CHR ''%'' then ''%2525'' else if c = CHR ''?'' then ''%3F''
     else if c = CHR ''#'' then ''%23'' else [c])"

lemma EncodePath_all_eq: "EncodePath p [True] = concat (map escape_all p)"
proof -
  have "map PathEscape (Split slash p) = map (\<lambda>s. concat (map escape_all s)) (Split slash p)"
  proof (rule map_cong [OF refl])
    fix s
    assume "s \<in> set (Split slash p)"
    then have "slash \<notin> set s" by (rule Split_parts)
    then show "PathEscape s = concat (map escape_all s)"
      unfolding PathEscape_def escape_all_def by (intro arg_cong [where f = concat] map_cong) auto
  qed
  moreover have "escape_all slash = [slash]" by (simp add: escape_all_def)
  ultimately show ?thesis
    using Join_map_Split [of escape_all slash p] by (simp add: EncodePath_def del: map_eq_conv)
qed

lemma replace_default:
  "foldl (\<lambda>s (src, dst). ReplaceAll1 s src dst) s toReplace = concat (map escape_default s)"
  by (induction s) (simp_all add: toReplace_def ReplaceAll1_def escape_default_def)

lemma EncodePath_default_eq: "EncodePath p [] = concat (map escape_default p)"
  using Join_map_Split [of escape_default slash p]
  by (simp add: EncodePath_def replace_default escape_default_def)

lemma path_unescaped_not_percent: "path_unescaped c \<Longrightarrow> c \<noteq> CHR ''%''"
  by (auto simp: path_unescaped_def)

lemma url_decode_all: "url_decode (concat (map escape_all p)) = Some p"
  by (induction p) (auto simp: escape_all_def dest: path_unescaped_not_percent)

lemma escape_default_bytes:
  "''%2525'' = escape_byte (CHR ''%'') @ ''25''" "''%3F'' = escape_byte (CHR ''?'')"
  "''%23'' = escape_byte (CHR ''#'')"
  by code_simp+

lemma url_decode_default_Cons:
  "url_decode (escape_default c @ s) =
     map_option ((@) (if c = CHR ''%'' then ''%25'' else [c])) (url_decode s)"
  unfolding escape_default_def escape_default_bytes
  by (cases "url_decode s") auto

lemma url_decode_default:
  "url_decode (concat (map escape_default p)) = Some (ReplaceAll1 p (CHR ''%'') ''%25'')"
  by (induction p) (auto simp: url_decode_default_Cons ReplaceAll1_def)

lemma ReplaceAll1_percent: "ReplaceAll1 p (CHR ''%'') ''%25'' = p \<longleftrightarrow> CHR ''%'' \<notin> set p"
proof
  have len: "length p \<le> length (ReplaceAll1 p (CHR ''%'') ''%25'')" for p
    by (induction p) (auto simp: ReplaceAll1_def)
  assume "ReplaceAll1 p (CHR ''%'') ''%25'' = p"
  then show "CHR ''%'' \<notin> set p"
  proof (induction p)
    case (Cons a p)
    have "length (ReplaceAll1 (a # p) (CHR ''%'') ''%25'') = length (a # p)" using Cons.prems by simp
    with len [of p] have "a \<noteq> CHR ''%''" by (auto simp: ReplaceAll1_def)
    with Cons show ?case by (simp add: ReplaceAll1_def)
  qed simp
qed (rule ReplaceAll1_id)

section \<open>Properties\<close>

text \<open>A request path joined to a user's base path never leaves it: whenever
  \<open>JoinBasePath\<close> answers, the answer is the base path itself or lies below it, and its
  names are those of the base path followed by those of the cleaned request.\<close>

theorem JoinBasePath_confined:
  assumes "JoinBasePath basePath reqPath = Inr p"
  shows "IsSubPath basePath p \<and> abs_path p \<and> fix_comps p = fix_comps basePath @ fix_comps reqPath"
  using JoinBasePath_Inr [OF assms] fix_comps_JoinBasePath [OF assms] by (simp add: IsSubPath_iff)

theorem JoinBasePath_confined_witness:
  "JoinBasePath ''/home/u'' ''docs//a..b'' = Inr ''/home/u/docs/a..b'' \<and>
   IsSubPath ''/home/u'' ''/home/u/docs/a..b''"
proof -
  have eval: "JoinBasePath ''/home/u'' ''docs//a..b'' = Inr ''/home/u/docs/a..b''" by code_simp
  from JoinBasePath_confined [OF eval] eval show ?thesis by simp
qed

text \<open>\<open>FixAndCleanPath\<close> is a canonical form: its result is a cleaned absolute path
  with no backslash, cleaning again changes nothing, and the paths it leaves alone
  are exactly the canonical ones.\<close>

theorem FixAndCleanPath_canonical:
  "abs_path (FixAndCleanPath p) \<and> CHR 0x5C \<notin> set (FixAndCleanPath p) \<and>
   FixAndCleanPath (FixAndCleanPath p) = FixAndCleanPath p \<and>
   (FixAndCleanPath p = p \<longleftrightarrow> abs_path p \<and> CHR 0x5C \<notin> set p)"
proof -
  have bs: "CHR 0x5C \<notin> set (FixAndCleanPath p)"
    using set_Join [of "fix_comps p" "[slash]"] fix_comps_no_backslash [of _ p]
    by (auto simp: FixAndCleanPath_eq path_of_def)
  have "FixAndCleanPath p = p" if "abs_path p" "CHR 0x5C \<notin> set p"
    using that by (auto simp: FixAndCleanPath_def ReplaceAll1_id path_of_def [of cs for cs] elim!: abs_pathE)
  then show ?thesis using bs abs_FixAndCleanPath [of p] by auto
qed

text \<open>The textual sub-path test means what it says: \<open>IsSubPath p q\<close> holds exactly when
  the cleaned \<open>q\<close> is the cleaned \<open>p\<close> joined with some absolute path.\<close>

theorem IsSubPath_iff_join:
  "IsSubPath p q \<longleftrightarrow> (\<exists>r. abs_path r \<and> FixAndCleanPath q = PathJoin (FixAndCleanPath p) r)"
proof
  assume "IsSubPath p q"
  then obtain cs where cs: "fix_comps q = fix_comps p @ cs" by (auto simp: IsSubPath_iff prefix_def)
  then have "valid_names cs" by (metis fix_comps_valid valid_names_simps(3))
  with cs show "\<exists>r. abs_path r \<and> FixAndCleanPath q = PathJoin (FixAndCleanPath p) r"
    by (intro exI [of _ "path_of cs"]) (simp add: FixAndCleanPath_eq PathJoin_path_of)
next
  assume "\<exists>r. abs_path r \<and> FixAndCleanPath q = PathJoin (FixAndCleanPath p) r"
  then obtain cs where "valid_names cs" "path_of (fix_comps q) = path_of (fix_comps p @ cs)"
    by (auto simp: FixAndCleanPath_eq PathJoin_path_of elim!: abs_pathE)
  then show "IsSubPath p q" by (simp add: path_of_inject IsSubPath_iff)
qed

text \<open>\<open>GetPathHierarchy\<close> lists every ancestor of a path, each once: the list has no
  duplicates, starts at the root, ends at the cleaned path, and its members are
  exactly the cleaned paths above it.\<close>

theorem GetPathHierarchy_ancestors:
  "set (GetPathHierarchy p) = {FixAndCleanPath q | q. IsSubPath q p} \<and>
   distinct (GetPathHierarchy p) \<and> hd (GetPathHierarchy p) = ''/'' \<and>
   last (GetPathHierarchy p) = FixAndCleanPath p"
proof -
  let ?cs = "fix_comps p"
  have valid: "valid_names es" if "es \<in> set (prefixes ?cs)" for es
    using that by (auto intro: valid_names_prefix)
  have "path_of es \<in> {FixAndCleanPath q | q. IsSubPath q p}" if "prefix es ?cs" for es
  proof -
    have "fix_comps (path_of es) = es"
      using that by (intro fix_comps_path_of)
        (auto intro: valid_names_prefix dest: set_mono_prefix fix_comps_no_backslash)
    with that show ?thesis
      by (auto simp: IsSubPath_iff FixAndCleanPath_eq intro!: exI [of _ "path_of es"])
  qed
  then have "set (GetPathHierarchy p) = {FixAndCleanPath q | q. IsSubPath q p}"
    by (auto simp: GetPathHierarchy_eq FixAndCleanPath_eq IsSubPath_iff)
  moreover have "distinct (GetPathHierarchy p)"
    using valid by (auto simp: GetPathHierarchy_eq distinct_map inj_on_def path_of_inject)
  moreover have "hd (prefixes ?cs) = []" "prefixes ?cs \<noteq> []" by (cases ?cs; simp)+
  moreover have "last (prefixes ?cs) = ?cs" by simp
  ultimately show ?thesis
    by (simp add: GetPathHierarchy_eq hd_map last_map FixAndCleanPath_eq)
qed

text \<open>Percent-encoding a path with \<open>all\<close> set loses nothing: decoding gives the path
  back.  In the default mode it does so exactly for the paths without a percent
  sign, because the replacement table lists the percent sign twice.\<close>

theorem EncodePath_roundtrip:
  "url_decode (EncodePath p [True]) = Some p \<and>
   (url_decode (EncodePath p []) = Some p \<longleftrightarrow> CHR ''%'' \<notin> set p)"
  by (simp add: EncodePath_all_eq EncodePath_default_eq url_decode_all url_decode_default
      ReplaceAll1_percent)

end
