(* ===== verification/Http_Range.thy ===== *)
theory Http_Range
  imports Go_Strings
begin

text \<open>
  HTTP byte ranges: \<open>pkg/http_range/range.go\<close>.  The parser of the \<open>Range\<close> request
  header with its error cases, the parser of the \<open>Content-Range\<close> response header
  with the slice panic it can raise, and the two printers.  Sizes are \<open>int64\<close>; the
  sums the printers form wrap.
\<close>

section \<open>The model\<close>

record Range =
  Start :: int64
  Length :: int64

datatype range_error = ErrNoOverlap | ErrInvalid

definition ContentRange :: "Range \<Rightarrow> int64 \<Rightarrow> string" where
  "ContentRange r fsize =
     ''bytes '' @ FormatInt (Start r) @ ''-'' @ FormatInt (wrap64 (Start r + Length r - 1)) @
     ''/'' @ FormatInt fsize"

text \<open>
  One round of the loop of \<open>ParseRange\<close>.  An element is skipped when it is blank,
  noted as not overlapping, or yields a range; any other outcome is an error that
  ends the loop.
\<close>

datatype range_item = Skip | NoOverlap | Item Range

definition parse_suffix_range :: "string \<Rightarrow> int64 \<Rightarrow> range_error + range_item" where
  "parse_suffix_range end fsize =
     (if end = [] \<or> end ! 0 = CHR ''-'' then Inl ErrInvalid
      else case ParseInt end of (i, err) \<Rightarrow>
        if i < 0 \<or> err \<noteq> None then Inl ErrInvalid
        else let i = (if i > fsize then fsize else i); start = fsize - i
             in Inr (Item \<lparr>Start = start, Length = fsize - start\<rparr>))"

definition parse_int_range :: "string \<Rightarrow> string \<Rightarrow> int64 \<Rightarrow> range_error + range_item" where
  "parse_int_range start end fsize =
     (case ParseInt start of (i, err) \<Rightarrow>
        if err \<noteq> None \<or> i < 0 then Inl ErrInvalid
        else if i \<ge> fsize then Inr NoOverlap
        else if end = [] then Inr (Item \<lparr>Start = i, Length = fsize - i\<rparr>)
        else case ParseInt end of (j, err) \<Rightarrow>
          if err \<noteq> None \<or> i > j then Inl ErrInvalid
          else let j = (if j \<ge> fsize then fsize - 1 else j)
               in Inr (Item \<lparr>Start = i, Length = j - i + 1\<rparr>))"

definition parse_range_item :: "string \<Rightarrow> int64 \<Rightarrow> range_error + range_item" where
  "parse_range_item ra fsize =
     (let ra = TrimString ra
      in if ra = [] then Inr Skip
         else case Cut ra (CHR ''-'') of (before, after, ok) \<Rightarrow>
           if \<not> ok then Inl ErrInvalid
           else let start = TrimString before; end = TrimString after
                in if start = [] then parse_suffix_range end fsize
                   else parse_int_range start end fsize)"

fun parse_ranges :: "string list \<Rightarrow> int64 \<Rightarrow> Range list \<Rightarrow> bool \<Rightarrow> range_error + Range list \<times> bool" where
  "parse_ranges [] fsize ranges noOverlap = Inr (ranges, noOverlap)"
| "parse_ranges (ra # ras) fsize ranges noOverlap =
     (case parse_range_item ra fsize of
        Inl e \<Rightarrow> Inl e
      | Inr Skip \<Rightarrow> parse_ranges ras fsize ranges noOverlap
      | Inr NoOverlap \<Rightarrow> parse_ranges ras fsize ranges True
      | Inr (Item r) \<Rightarrow> parse_ranges ras fsize (ranges @ [r]) noOverlap)"

definition ParseRange :: "string \<Rightarrow> int64 \<Rightarrow> range_error + Range list" where
  "ParseRange s fsize =
     (if s = [] then Inr []
      else if \<not> HasPrefix s ''bytes='' then Inl ErrInvalid
      else case parse_ranges (Split (CHR '','') (drop (length ''bytes='') s)) fsize [] False of
             Inl e \<Rightarrow> Inl e
           | Inr (ranges, noOverlap) \<Rightarrow>
               if noOverlap \<and> length ranges = 0 then Inl ErrNoOverlap else Inr ranges)"

text \<open>
  \<open>ParseContentRange\<close> returns two numbers and the joined errors; the slice
  expression \<open>s[p1+1:p2]\<close> panics when its lower bound passes its upper bound.
\<close>

datatype content_range_error = InvalidRange | NumErr num_error

definition slice :: "string \<Rightarrow> nat \<Rightarrow> nat \<Rightarrow> string may_panic" where
  "slice s i j = (if i \<le> j \<and> j \<le> length s then Some (drop i (take j s)) else None)"

definition ParseContentRange :: "string \<Rightarrow> (int64 \<times> int64 \<times> content_range_error list) may_panic" where
  "ParseContentRange s =
     (if s = [] then Some (0, 0, [InvalidRange])
      else if \<not> HasPrefix s ''bytes '' then Some (0, 0, [InvalidRange])
      else case (Index s ''-'', Index s ''/'') of
             (Some p1, Some p2) \<Rightarrow>
               (case (slice s (length ''bytes '') p1, slice s (p1 + 1) p2) of
                  (Some startStr, Some endStr) \<Rightarrow>
                    (let (start, startErr) = ParseInt (TrimString startStr);
                         (end, endErr) = ParseInt (TrimString endStr)
                     in Some (start, end, map NumErr (List.map_filter id [startErr, endErr])))
                | _ \<Rightarrow> None)
           | _ \<Rightarrow> Some (0, 0, [InvalidRange]))"

type_synonym http_header = "string \<rightharpoonup> string list"

definition MimeHeader :: "Range \<Rightarrow> string \<Rightarrow> int64 \<Rightarrow> http_header" where
  "MimeHeader r contentType fsize =
     [''Content-Range'' \<mapsto> [ContentRange r fsize], ''Content-Type'' \<mapsto> [contentType]]"

definition ApplyRangeToHttpHeader :: "Range \<Rightarrow> http_header option \<Rightarrow> http_header" where
  "ApplyRangeToHttpHeader p headerRef =
     (let header = (case headerRef of None \<Rightarrow> Map.empty | Some h \<Rightarrow> h)
      in if Start p = 0 \<and> Length p < 0 then header(''Range'' := None)
         else let end = (if Length p \<ge> 0 then FormatInt (wrap64 (Start p + Length p - 1)) else [])
              in header(''Range'' \<mapsto> [''bytes='' @ FormatInt (Start p) @ ''-'' @ end]))"

section \<open>Supporting lemmas\<close>

definition within :: "int64 \<Rightarrow> Range \<Rightarrow> bool" where
  "within fsize r \<longleftrightarrow> 0 \<le> Start r \<and> 0 \<le> Length r \<and> Start r + Length r \<le> fsize \<and>
     (Length r = 0 \<longrightarrow> Start r = fsize)"

lemma parse_suffix_within:
  "0 \<le> fsize \<Longrightarrow> parse_suffix_range end fsize = Inr (Item r) \<Longrightarrow> within fsize r"
  by (auto simp: parse_suffix_range_def within_def Let_def split: if_splits prod.splits)

lemma parse_int_within: "parse_int_range start end fsize = Inr (Item r) \<Longrightarrow> within fsize r"
  by (auto simp: parse_int_range_def within_def Let_def split: if_splits prod.splits)

lemma parse_range_item_within:
  "0 \<le> fsize \<Longrightarrow> parse_range_item ra fsize = Inr (Item r) \<Longrightarrow> within fsize r"
  by (auto simp: parse_range_item_def Let_def split: if_splits prod.splits
      dest: parse_suffix_within parse_int_within)

lemma parse_ranges_within:
  "0 \<le> fsize \<Longrightarrow> list_all (within fsize) acc \<Longrightarrow> parse_ranges ras fsize acc b = Inr (rs, b') \<Longrightarrow>
     list_all (within fsize) rs"
proof (induction ras arbitrary: acc b)
  case (Cons ra ras)
  show ?case
  proof (cases "parse_range_item ra fsize")
    case (Inr it)
    then show ?thesis
      using Cons.prems Cons.IH [of "acc @ [r]" b for r] Cons.IH [of acc] parse_range_item_within [of fsize ra]
      by (cases it) simp_all
  qed (use Cons.prems in simp)
qed simp

lemma slice_append: "slice (x @ y @ z) (length x) (length x + length y) = Some y"
  by (simp add: slice_def)

lemma digits_no_sep: "is_digit c \<Longrightarrow> c \<noteq> CHR ''-'' \<and> c \<noteq> CHR '','' \<and> c \<noteq> CHR ''/'' \<and> c \<noteq> CHR '' ''"
  by (auto simp: is_digit_def)

lemma FormatInt_nonneg_digits: "0 \<le> i \<Longrightarrow> c \<in> set (FormatInt i) \<Longrightarrow> is_digit c"
  by (auto simp: FormatInt_def dest: format_nat_digits)

lemma FormatInt_no_sep:
  assumes "0 \<le> i"
  shows "CHR ''-'' \<notin> set (FormatInt i)" "CHR '','' \<notin> set (FormatInt i)" "CHR ''/'' \<notin> set (FormatInt i)"
  using assms by (auto dest!: FormatInt_nonneg_digits dest: digits_no_sep)

lemma hd_last_FormatInt_nonneg:
  assumes "0 \<le> i"
  shows "is_digit (hd (FormatInt i))" "is_digit (last (FormatInt i))"
  using assms by (auto intro: FormatInt_nonneg_digits)

text \<open>What the parser makes of one printed element \<open>a-b\<close> or \<open>a-\<close>.\<close>

lemma trim_element:
  assumes "0 \<le> a" "e = [] \<or> (\<exists>b. 0 \<le> b \<and> e = FormatInt b)"
  shows "TrimString (FormatInt a @ CHR ''-'' # e) = FormatInt a @ CHR ''-'' # e"
proof (rule TrimString_id)
  have "\<not> isASCIISpace (hd (FormatInt a))" using assms hd_last_FormatInt_nonneg by (blast dest: is_digit_not_space)
  moreover have "\<not> isASCIISpace (last (CHR ''-'' # e))"
    using assms(2) hd_last_FormatInt_nonneg by (auto simp: isASCIISpace_def dest: is_digit_not_space)
       (metis is_digit_not_space isASCIISpace_def)+
  ultimately show "FormatInt a @ CHR ''-'' # e = [] \<or>
    \<not> isASCIISpace (hd (FormatInt a @ CHR ''-'' # e)) \<and> \<not> isASCIISpace (last (FormatInt a @ CHR ''-'' # e))"
    by simp
qed

lemma parse_element:
  assumes "0 \<le> a" "in_int64 a" "e = [] \<or> (\<exists>b. 0 \<le> b \<and> in_int64 b \<and> e = FormatInt b)"
  shows "parse_range_item (FormatInt a @ CHR ''-'' # e) fsize = parse_int_range (FormatInt a) e fsize"
proof -
  have "Cut (FormatInt a @ CHR ''-'' # e) (CHR ''-'') = (FormatInt a, e, True)"
    using FormatInt_no_sep(1) [OF assms(1)] by (rule Cut_append)
  moreover have "TrimString (FormatInt a @ CHR ''-'' # e) = FormatInt a @ CHR ''-'' # e"
    using assms by (intro trim_element) auto
  moreover have "TrimString e = e" using assms(3) by (auto simp: TrimString_def trim_by_def)
      (metis TrimString_FormatInt TrimString_def trim_by_def)
  ultimately show ?thesis by (simp add: parse_range_item_def)
qed

lemma no_comma_element:
  assumes "0 \<le> a" "e = [] \<or> (\<exists>b. 0 \<le> b \<and> e = FormatInt b)"
  shows "Split (CHR '','') (FormatInt a @ CHR ''-'' # e) = [FormatInt a @ CHR ''-'' # e]"
  using assms FormatInt_no_sep(2) by (intro Split_no_sep) auto

lemma ParseRange_single:
  assumes "0 \<le> a" "in_int64 a" "e = [] \<or> (\<exists>b. 0 \<le> b \<and> in_int64 b \<and> e = FormatInt b)"
  shows "ParseRange (''bytes='' @ FormatInt a @ ''-'' @ e) fsize =
     (case parse_int_range (FormatInt a) e fsize of
        Inl err \<Rightarrow> Inl err
      | Inr Skip \<Rightarrow> Inr []
      | Inr NoOverlap \<Rightarrow> Inl ErrNoOverlap
      | Inr (Item r) \<Rightarrow> Inr [r])"
proof -
  have e: "e = [] \<or> (\<exists>b. 0 \<le> b \<and> e = FormatInt b)" using assms(3) by blast
  show ?thesis
    using parse_element [OF assms, of fsize] no_comma_element [OF assms(1) e]
    by (auto simp: ParseRange_def HasPrefix_def split: sum.splits range_item.splits)
qed

lemma takeWhile_neq_split:
  "c \<in> set s \<Longrightarrow> length (takeWhile (\<lambda>x. x \<noteq> c) s) < length s \<and> s ! length (takeWhile (\<lambda>x. x \<noteq> c) s) = c"
  by (induction s) auto

lemma Index_append_single: "c \<notin> set x \<Longrightarrow> Index (x @ c # y) [c] = Some (length x)"
  by (subst Index_single) (subst takeWhile_all_append; auto)

section \<open>Properties\<close>

text \<open>C27: every range \<open>ParseRange\<close> returns lies inside the content: it starts at or after
  0, ends at or before the size, and is empty only for the suffix of length 0 at the
  very end.  So no request header makes the server read outside the file.\<close>

theorem ParseRange_within:
  assumes "0 \<le> fsize" and "ParseRange s fsize = Inr rs" and "r \<in> set rs"
  shows "0 \<le> Start r \<and> 0 \<le> Length r \<and> Start r + Length r \<le> fsize \<and>
    (Length r = 0 \<longrightarrow> Start r = fsize)"
proof -
  from assms(2) have "s = [] \<and> rs = [] \<or>
      (\<exists>b. parse_ranges (Split (CHR '','') (drop (length ''bytes='') s)) fsize [] False = Inr (rs, b))"
    by (auto simp: ParseRange_def split: if_splits sum.splits)
  with assms(1,3) have "list_all (within fsize) rs"
    by (auto intro: parse_ranges_within [of fsize "[]"])
  with assms(3) show ?thesis by (auto simp: list_all_iff within_def)
qed

theorem ParseRange_within_witness:
  "ParseRange ''bytes=2-4, 90-, -3'' 10 = Inr [\<lparr>Start = 2, Length = 3\<rparr>, \<lparr>Start = 7, Length = 3\<rparr>] \<and>
   Start \<lparr>Start = 7, Length = 3\<rparr> + Length \<lparr>Start = 7, Length = 3\<rparr> \<le> 10"
proof -
  have eval: "ParseRange ''bytes=2-4, 90-, -3'' 10 =
      Inr [\<lparr>Start = 2, Length = 3\<rparr>, \<lparr>Start = 7, Length = 3\<rparr>]" by code_simp
  show ?thesis
    using ParseRange_within [OF _ eval, of "\<lparr>Start = 7, Length = 3\<rparr>"] eval by simp
qed

text \<open>The range header the client side prints is read back by the server side as the
  same range, cut at the end of the content; a range that begins past the end is
  reported as not overlapping.\<close>

theorem ParseRange_ApplyRange:
  assumes "0 \<le> Start r" "in_int64 (Start r)" "Start r \<noteq> 0 \<or> 0 \<le> Length r"
    and "Length r < 0 \<or> 1 \<le> Length r \<and> Start r + Length r - 1 \<le> max_int64"
  shows "\<exists>h. ApplyRangeToHttpHeader r hdr ''Range'' = Some [h] \<and>
    ParseRange h fsize =
      (if Start r \<ge> fsize then Inl ErrNoOverlap
       else Inr [\<lparr>Start = Start r, Length = (if Length r < 0 then fsize - Start r
                                       else min (Length r) (fsize - Start r))\<rparr>])"
proof (cases "Length r < 0")
  case True
  then show ?thesis
    using assms ParseRange_single [OF assms(1,2), of "[]" fsize]
    by (simp add: ApplyRangeToHttpHeader_def Let_def parse_int_range_def ParseInt_FormatInt)
next
  case False
  let ?b = "Start r + Length r - 1"
  have b: "0 \<le> ?b" "in_int64 ?b" using False assms by (auto simp: int64_defs)
  then have "FormatInt ?b = [] \<or> (\<exists>b. 0 \<le> b \<and> in_int64 b \<and> FormatInt ?b = FormatInt b)" by blast
  from ParseRange_single [OF assms(1,2) this, of fsize] b False assms show ?thesis
    by (auto simp: ApplyRangeToHttpHeader_def Let_def parse_int_range_def ParseInt_FormatInt min_def)
qed

theorem ParseRange_ApplyRange_witness:
  "\<exists>h. ApplyRangeToHttpHeader \<lparr>Start = 5, Length = 100\<rparr> None ''Range'' = Some [h] \<and>
     ParseRange h 20 = Inr [\<lparr>Start = 5, Length = 15\<rparr>]"
  using ParseRange_ApplyRange [of "\<lparr>Start = 5, Length = 100\<rparr>" None 20]
  by (simp add: int64_defs)

text \<open>The \<open>Content-Range\<close> header printed for a range with a non-negative start is parsed
  back to its first and last byte, without error.\<close>

theorem ParseContentRange_ContentRange:
  assumes "0 \<le> Start r" "in_int64 (Start r)" "in_int64 (Start r + Length r - 1)"
  shows "ParseContentRange (ContentRange r fsize) = Some (Start r, Start r + Length r - 1, [])"
proof -
  let ?a = "FormatInt (Start r)" and ?b = "FormatInt (Start r + Length r - 1)"
  let ?s = "''bytes '' @ ?a @ ''-'' @ ?b @ ''/'' @ FormatInt fsize"
  have a: "CHR ''-'' \<notin> set ?a" "CHR ''/'' \<notin> set ?a" using FormatInt_no_sep [OF assms(1)] by auto
  have b: "CHR ''/'' \<notin> set ?b" using FormatInt_chars digits_no_sep by fastforce
  have i1: "Index ?s ''-'' = Some (length (''bytes '' @ ?a))"
    using Index_append_single [of "CHR ''-''" "''bytes '' @ ?a" "?b @ ''/'' @ FormatInt fsize"] a by simp
  have i2: "Index ?s ''/'' = Some (length (''bytes '' @ ?a @ ''-'' @ ?b))"
    using Index_append_single [of "CHR ''/''" "''bytes '' @ ?a @ ''-'' @ ?b" "FormatInt fsize"] a b by simp
  have s1: "slice ?s (length ''bytes '') (length (''bytes '' @ ?a)) = Some ?a"
    using slice_append [of "''bytes ''" ?a "''-'' @ ?b @ ''/'' @ FormatInt fsize"] by simp
  have s2: "slice ?s (length (''bytes '' @ ?a) + 1) (length (''bytes '' @ ?a @ ''-'' @ ?b)) = Some ?b"
    using slice_append [of "''bytes '' @ ?a @ ''-''" ?b "''/'' @ FormatInt fsize"] by (simp add: add.assoc)
  have "ContentRange r fsize = ?s" using assms(3) by (simp add: ContentRange_def)
  moreover have "ParseContentRange ?s = Some (Start r, Start r + Length r - 1, [])"
    using i1 i2 s1 s2 assms(2,3)
    by (simp add: ParseContentRange_def ParseInt_FormatInt HasPrefix_def List.map_filter_simps)
  ultimately show ?thesis by simp
qed

theorem ParseContentRange_ContentRange_witness:
  "ParseContentRange (ContentRange \<lparr>Start = 5, Length = 15\<rparr> 20) = Some (5, 19, [])"
  using ParseContentRange_ContentRange [of "\<lparr>Start = 5, Length = 15\<rparr>" 20]
  by (simp add: int64_defs)

text \<open>\<open>ParseContentRange\<close> panics on exactly the headers that begin with \<open>bytes\<close> and a
  blank and have a slash before their first hyphen: the second slice expression is
  then out of bounds.  On every other input it returns.\<close>

theorem ParseContentRange_panics_iff:
  "ParseContentRange s = None \<longleftrightarrow>
     HasPrefix s ''bytes '' \<and> (\<exists>p1 p2. Index s ''-'' = Some p1 \<and> Index s ''/'' = Some p2 \<and> p2 < p1)"
proof (cases "HasPrefix s ''bytes ''")
  case False
  then show ?thesis by (simp add: ParseContentRange_def)
next
  case True
  then obtain t where s: "s = ''bytes '' @ t"
    unfolding HasPrefix_def by (metis append_take_drop_id)
  have pos: "length ''bytes '' \<le> p \<and> p < length s \<and> s ! p = c"
    if "Index s [c] = Some p" "c = CHR ''-'' \<or> c = CHR ''/''" for c p
    using that takeWhile_neq_split [of c s] by (auto simp: Index_single s split: if_splits)
  show ?thesis
  proof (cases "Index s ''-''"; cases "Index s ''/''")
    fix p1 p2
    assume p: "Index s ''-'' = Some p1" "Index s ''/'' = Some p2"
    with pos have "length ''bytes '' \<le> p1" "p1 < length s" "p2 < length s"
      "s ! p1 = CHR ''-''" "s ! p2 = CHR ''/''" by blast+
    then have "p1 \<noteq> p2" by auto
    note \<open>length ''bytes '' \<le> p1\<close> \<open>p1 < length s\<close> \<open>p2 < length s\<close> \<open>p1 \<noteq> p2\<close>
    with True p s show ?thesis
      by (auto simp: ParseContentRange_def slice_def split: option.splits prod.splits)
  qed (use True s in \<open>auto simp: ParseContentRange_def\<close>)
qed

end
