(* ===== verification/Message_Queue.thy ===== *)
theory Message_Queue
  imports Go_Prelude
begin

text \<open>
  The generic FIFO of \<open>pkg/generic/queue.go\<close> and the in-memory message queue
  \<open>pkg/mq/mq.go\<close> built on it.  The queue is modelled at the level the code works at:
  a slice, that is a length and a backing array that reaches to its capacity, so
  that re-slicing past the length (which Go allows up to the capacity) is visible.
  The contract is a locale over lists of elements; the slice is shown to provide it
  and the message queue's theorems use the contract only.
\<close>

section \<open>pkg/generic/queue.go\<close>

record 'a Queue =
  backing :: "'a list" \<comment> \<open>from the slice's first element to its capacity\<close>
  qlen :: nat

definition NewQueue :: "'a Queue" where
  "NewQueue = \<lparr>backing = [], qlen = 0\<rparr>"

text \<open>
  \<open>append\<close> writes in place while there is capacity; otherwise it moves the elements
  to a larger array.  How much larger is the run-time's choice (\<open>grow\<close>), and the
  slots beyond the new element hold zero values (\<open>zero\<close>).
\<close>

definition Push :: "(nat \<Rightarrow> nat) \<Rightarrow> 'a \<Rightarrow> 'a Queue \<Rightarrow> 'a \<Rightarrow> 'a Queue" where
  "Push grow zero q v =
     (if qlen q < length (backing q)
      then q\<lparr>backing := (backing q)[qlen q := v], qlen := qlen q + 1\<rparr>
      else \<lparr>backing = take (qlen q) (backing q) @ v # replicate (grow (qlen q + 1) - (qlen q + 1)) zero,
            qlen = qlen q + 1\<rparr>)"

definition Pop :: "'a Queue \<Rightarrow> ('a \<times> 'a Queue) may_panic" where
  "Pop q = (if qlen q = 0 then None
     else Some (backing q ! 0, \<lparr>backing = drop 1 (backing q), qlen = qlen q - 1\<rparr>))"

definition Len :: "'a Queue \<Rightarrow> nat" where
  "Len q = qlen q"

definition IsEmpty :: "'a Queue \<Rightarrow> bool" where
  "IsEmpty q \<longleftrightarrow> qlen q = 0"

definition Clear :: "'a Queue \<Rightarrow> 'a Queue" where
  "Clear q = \<lparr>backing = [], qlen = 0\<rparr>"

definition Peek :: "'a Queue \<Rightarrow> 'a may_panic" where
  "Peek q = (if qlen q = 0 then None else Some (backing q ! 0))"

text \<open>\<open>q.queue[:n]\<close> is bounded by the capacity and \<open>q.queue[n:]\<close> by the length.\<close>

definition PeekN :: "'a Queue \<Rightarrow> int \<Rightarrow> 'a list may_panic" where
  "PeekN q n = (if 0 \<le> n \<and> n \<le> int (length (backing q)) then Some (take (nat n) (backing q)) else None)"

definition PopN :: "'a Queue \<Rightarrow> int \<Rightarrow> ('a list \<times> 'a Queue) may_panic" where
  "PopN q n =
     (case PeekN q n of
        None \<Rightarrow> None
      | Some v \<Rightarrow> if n \<le> int (qlen q)
          then Some (v, \<lparr>backing = drop (nat n) (backing q), qlen = qlen q - nat n\<rparr>)
          else None)"

definition PopAll :: "'a Queue \<Rightarrow> 'a list \<times> 'a Queue" where
  "PopAll q = (take (qlen q) (backing q), \<lparr>backing = [], qlen = 0\<rparr>)"

text \<open>The index at which the loops of \<open>PopWhile\<close> and \<open>PopUntil\<close> stop.\<close>

fun scan_while :: "('a \<Rightarrow> bool) \<Rightarrow> 'a list \<Rightarrow> nat" where
  "scan_while f [] = 0"
| "scan_while f (x # xs) = (if \<not> f x then 0 else Suc (scan_while f xs))"

definition PopWhile :: "'a Queue \<Rightarrow> ('a \<Rightarrow> bool) \<Rightarrow> 'a list \<times> 'a Queue" where
  "PopWhile q f =
     (let i = scan_while f (take (qlen q) (backing q))
      in (take i (backing q), \<lparr>backing = drop i (backing q), qlen = qlen q - i\<rparr>))"

definition PopUntil :: "'a Queue \<Rightarrow> ('a \<Rightarrow> bool) \<Rightarrow> 'a list \<times> 'a Queue" where
  "PopUntil q f =
     (let i = scan_while (\<lambda>x. \<not> f x) (take (qlen q) (backing q))
      in (take i (backing q), \<lparr>backing = drop i (backing q), qlen = qlen q - i\<rparr>))"

section \<open>pkg/mq/mq.go\<close>

record 'a Message =
  Content :: 'a

type_synonym 'a inMemoryMQ = "'a Message Queue"

definition NewInMemoryMQ :: "'a inMemoryMQ" where
  "NewInMemoryMQ = NewQueue"

definition Publish :: "(nat \<Rightarrow> nat) \<Rightarrow> 'a Message \<Rightarrow> 'a inMemoryMQ \<Rightarrow> 'a Message \<Rightarrow> 'a inMemoryMQ" where
  "Publish grow zero mq msg = Push grow zero mq msg"

text \<open>
  A consumer is a callback with effects on some state \<open>'s\<close>.  It runs while the queue's
  mutex is held, so it cannot reach the queue itself.  The loop ends because every
  round shortens the queue; \<open>Pop\<close> on the empty queue, guarded by \<open>IsEmpty\<close>, would be
  the panic.
\<close>

function Consume :: "('a Message \<Rightarrow> 's \<Rightarrow> 's) \<Rightarrow> 'a inMemoryMQ \<Rightarrow> 's \<Rightarrow> ('a inMemoryMQ \<times> 's) may_panic" where
  "Consume consumer mq s =
     (if \<not> IsEmpty mq
      then (case Pop mq of
              None \<Rightarrow> None
            | Some (m, mq') \<Rightarrow> Consume consumer mq' (consumer m s))
      else Some (mq, s))"
  by pat_completeness auto
termination
  by (relation "measure (\<lambda>(_, mq, _). qlen mq)") (auto simp: Pop_def split: if_splits)

definition ConsumeAll :: "('a Message list \<Rightarrow> 's \<Rightarrow> 's) \<Rightarrow> 'a inMemoryMQ \<Rightarrow> 's \<Rightarrow> 'a inMemoryMQ \<times> 's" where
  "ConsumeAll consumer mq s = (case PopAll mq of (ms, mq') \<Rightarrow> (mq', consumer ms s))"

definition MQClear :: "'a inMemoryMQ \<Rightarrow> 'a inMemoryMQ" where
  "MQClear mq = Clear mq"

definition MQLen :: "'a inMemoryMQ \<Rightarrow> nat" where
  "MQLen mq = Len mq"

declare Consume.simps [simp del]

section \<open>The contract of a FIFO\<close>

text \<open>The elements a queue holds, oldest first, and what keeps the slice well formed.\<close>

definition queue_list :: "'a Queue \<Rightarrow> 'a list" where
  "queue_list q = take (qlen q) (backing q)"

definition queue_inv :: "'a Queue \<Rightarrow> bool" where
  "queue_inv q \<longleftrightarrow> qlen q \<le> length (backing q)"

locale fifo =
  fixes empty :: "'q" and push :: "'q \<Rightarrow> 'a \<Rightarrow> 'q" and pop :: "'q \<Rightarrow> ('a \<times> 'q) option"
    and lst :: "'q \<Rightarrow> 'a list" and inv :: "'q \<Rightarrow> bool"
  assumes inv_empty: "inv empty" and lst_empty: "lst empty = []"
    and inv_push: "inv q \<Longrightarrow> inv (push q x)"
    and lst_push: "inv q \<Longrightarrow> lst (push q x) = lst q @ [x]"
    and pop_None: "inv q \<Longrightarrow> pop q = None \<longleftrightarrow> lst q = []"
    and pop_Some: "inv q \<Longrightarrow> pop q = Some (x, q') \<Longrightarrow> inv q' \<and> lst q = x # lst q'"
begin

lemma push_list:
  "inv q \<Longrightarrow> inv (foldl push q xs) \<and> lst (foldl push q xs) = lst q @ xs"
  by (induction xs arbitrary: q) (simp_all add: inv_push lst_push)

lemma published: "inv (foldl push empty xs) \<and> lst (foldl push empty xs) = xs"
  using push_list [OF inv_empty] by (simp add: lst_empty)

lemma pop_Cons: "inv q \<Longrightarrow> lst q = x # xs \<Longrightarrow> \<exists>q'. pop q = Some (x, q') \<and> inv q' \<and> lst q' = xs"
  using pop_None [of q] pop_Some [of q] by (cases "pop q") fastforce+

end

lemma queue_inv_Push: "queue_inv q \<Longrightarrow> queue_inv (Push grow zero q v)"
  by (auto simp: queue_inv_def Push_def)

lemma queue_list_Push: "queue_inv q \<Longrightarrow> queue_list (Push grow zero q v) = queue_list q @ [v]"
  by (auto simp: queue_inv_def queue_list_def Push_def take_Suc_conv_app_nth)

interpretation sl: fifo NewQueue "Push grow zero" Pop queue_list queue_inv for grow zero
proof
  fix q q' :: "'a Queue" and x
  show "queue_inv NewQueue" "queue_list NewQueue = []"
    by (simp_all add: queue_inv_def queue_list_def NewQueue_def)
  show "queue_inv q \<Longrightarrow> queue_inv (Push grow zero q x)" by (rule queue_inv_Push)
  show "queue_inv q \<Longrightarrow> queue_list (Push grow zero q x) = queue_list q @ [x]" by (rule queue_list_Push)
  show "queue_inv q \<Longrightarrow> Pop q = None \<longleftrightarrow> queue_list q = []"
    by (auto simp: queue_inv_def queue_list_def Pop_def)
  show "queue_inv q \<Longrightarrow> Pop q = Some (x, q') \<Longrightarrow> queue_inv q' \<and> queue_list q = x # queue_list q'"
    by (cases "backing q"; cases "qlen q") (auto simp: queue_inv_def queue_list_def Pop_def)
qed

lemma scan_while_takeWhile: "take (scan_while f xs) xs = takeWhile f xs" "scan_while f xs \<le> length xs"
  by (induction xs) auto

lemma drop_scan_while: "drop (scan_while f xs) xs = dropWhile f xs"
  by (induction xs) auto

lemma take_pop_prefix:
  assumes "queue_inv q" "n \<le> qlen q"
  shows "take n (backing q) = take n (queue_list q)"
    and "queue_list \<lparr>backing = drop n (backing q), qlen = qlen q - n\<rparr> = drop n (queue_list q)"
    and "queue_inv \<lparr>backing = drop n (backing q), qlen = qlen q - n\<rparr>"
  using assms by (auto simp: queue_list_def queue_inv_def min_def drop_take)

lemma scan_prefix:
  fixes f :: "'a \<Rightarrow> bool"
  assumes "queue_inv q"
  defines "i \<equiv> scan_while f (take (qlen q) (backing q))"
  shows "take i (backing q) = takeWhile f (queue_list q) \<and>
    queue_list \<lparr>backing = drop i (backing q), qlen = qlen q - i\<rparr> = dropWhile f (queue_list q) \<and>
    queue_inv \<lparr>backing = drop i (backing q), qlen = qlen q - i\<rparr>"
proof -
  have i: "i \<le> qlen q"
    using scan_while_takeWhile(2) [of f "queue_list q"] by (simp add: i_def queue_list_def)
  have "take i (queue_list q) = takeWhile f (queue_list q)"
    "drop i (queue_list q) = dropWhile f (queue_list q)"
    unfolding i_def queue_list_def by (rule scan_while_takeWhile(1), rule drop_scan_while)
  then show ?thesis using take_pop_prefix [OF assms(1) i] by simp
qed

lemma Consume_eq:
  "queue_inv mq \<Longrightarrow>
     \<exists>mq'. Consume f mq s = Some (mq', fold f (queue_list mq) s) \<and> queue_inv mq' \<and> queue_list mq' = []"
proof (induction "queue_list mq" arbitrary: mq s)
  case Nil
  then have "IsEmpty mq"
    by (auto simp: IsEmpty_def queue_list_def queue_inv_def)
  with Nil show ?case by (subst Consume.simps) simp
next
  case (Cons m ms)
  from sl.pop_Cons [OF Cons.prems Cons.hyps(2) [symmetric]]
  obtain q' where q': "Pop mq = Some (m, q')" "queue_inv q'" "queue_list q' = ms" by blast
  then have "\<not> IsEmpty mq" by (auto simp: Pop_def IsEmpty_def split: if_splits)
  with q' Cons.hyps(1) [of q' "f m s"] Cons.hyps(2) show ?case
    by (subst Consume.simps) (auto simp flip: Cons.hyps(2))
qed

section \<open>Properties\<close>

text \<open>Messages are delivered exactly once and in the order they were published:
  publishing a sequence to a new queue and consuming it hands the consumer that
  sequence, whatever the capacity the run-time grows the slice to, and leaves the
  queue empty.  \<open>Consume\<close> always returns.\<close>

theorem mq_fifo:
  "\<exists>mq'. Consume f (foldl (Publish grow zero) NewInMemoryMQ ms) s = Some (mq', fold f ms s) \<and> MQLen mq' = 0"
proof -
  have pub: "Publish grow zero = Push grow zero" for grow zero by (simp add: fun_eq_iff Publish_def)
  have "queue_inv (foldl (Push grow zero) NewQueue ms)" "queue_list (foldl (Push grow zero) NewQueue ms) = ms"
    using sl.published [of grow zero ms] by auto
  from Consume_eq [OF this(1), of f s] this(2) obtain mq' where
    "Consume f (foldl (Push grow zero) NewQueue ms) s = Some (mq', fold f ms s)" "queue_inv mq'" "queue_list mq' = []"
    by auto
  then show ?thesis
    by (auto simp: pub NewInMemoryMQ_def MQLen_def Len_def queue_inv_def queue_list_def)
qed

text \<open>On a well-formed queue the bulk operations split the list of elements:
  \<open>PopWhile\<close> and \<open>PopUntil\<close> at the first element that fails or meets the test, \<open>PopN\<close> after
  \<open>n\<close> elements, panicking for every other \<open>n\<close>; whereas \<open>PeekN\<close> answers up to the
  capacity, beyond the elements the queue holds.\<close>

theorem queue_bulk_operations:
  assumes "queue_inv q"
  shows "fst (PopWhile q f) = takeWhile f (queue_list q) \<and> queue_list (snd (PopWhile q f)) = dropWhile f (queue_list q) \<and>
    fst (PopUntil q f) = takeWhile (\<lambda>x. \<not> f x) (queue_list q) \<and>
    queue_list (snd (PopUntil q f)) = dropWhile (\<lambda>x. \<not> f x) (queue_list q) \<and>
    map_option (\<lambda>(v, q'). (v, queue_list q')) (PopN q n) =
      (if 0 \<le> n \<and> n \<le> int (Len q) then Some (take (nat n) (queue_list q), drop (nat n) (queue_list q)) else None) \<and>
    (PeekN q n = None \<longleftrightarrow> n < 0 \<or> int (length (backing q)) < n)"
proof -
  have "map_option (\<lambda>(v, q'). (v, queue_list q')) (PopN q n) =
      (if 0 \<le> n \<and> n \<le> int (Len q) then Some (take (nat n) (queue_list q), drop (nat n) (queue_list q)) else None)"
    using assms take_pop_prefix(1,2) [OF assms, of "nat n"]
    by (auto simp: PopN_def PeekN_def Len_def queue_inv_def nat_le_iff)
  then show ?thesis
    using scan_prefix [OF assms, of f] scan_prefix [OF assms, of "\<lambda>x. \<not> f x"]
    by (auto simp: PopWhile_def PopUntil_def Let_def PeekN_def)
qed

theorem queue_bulk_operations_witness:
  "queue_inv \<lparr>backing = [1::nat, 2, 3, 0], qlen = 3\<rparr> \<and>
   map_option (\<lambda>(v, q'). (v, queue_list q')) (PopN \<lparr>backing = [1::nat, 2, 3, 0], qlen = 3\<rparr> 2) = Some ([1, 2], [3])"
proof -
  have inv: "queue_inv \<lparr>backing = [1::nat, 2, 3, 0], qlen = 3\<rparr>" by (simp add: queue_inv_def)
  show ?thesis
    using queue_bulk_operations [OF inv, of "\<lambda>_. True" 2] inv by (simp add: Len_def queue_list_def)
qed

end
