(* ===== verification/User_Model.thy ===== *)
theory User_Model
  imports Path_Utils "HOL-Library.Word"
begin

text \<open>
  Accounts: \<open>internal/model/user.go\<close>.  The permission field is a signed 32-bit word and
  every permission test is an arithmetic shift and a mask, modelled at that width.
  The password functions take the SHA-256 hex digest as a parameter.
\<close>

unbundle bit_operations_syntax

section \<open>The model\<close>

datatype user_error = EmptyPassword | WrongPassword

record User =
  ID :: nat
  Username :: string
  PwdHash :: string
  PwdTS :: int64
  Salt :: string
  Password :: string
  BasePath :: string
  Role :: int
  Disabled :: bool
  Permission :: "32 word"
  OtpSecret :: string
  SsoID :: string
  Authn :: string
  AllowLdap :: bool

definition GENERAL :: int where "GENERAL = 0"

definition GUEST :: int where "GUEST = 1"

definition ADMIN :: int where "ADMIN = 2"

definition IsGuest :: "User \<Rightarrow> bool" where
  "IsGuest u \<longleftrightarrow> Role u = GUEST"

definition IsAdmin :: "User \<Rightarrow> bool" where
  "IsAdmin u \<longleftrightarrow> Role u = ADMIN"

subsection \<open>Passwords\<close>

definition StaticHashSalt :: string where
  "StaticHashSalt = ''https://github.com/alist-org/alist''"

definition StaticHash :: "(string \<Rightarrow> string) \<Rightarrow> string \<Rightarrow> string" where
  "StaticHash sha256 password = sha256 (password @ ''-'' @ StaticHashSalt)"

definition HashPwd :: "(string \<Rightarrow> string) \<Rightarrow> string \<Rightarrow> string \<Rightarrow> string" where
  "HashPwd sha256 static salt = sha256 (static @ ''-'' @ salt)"

definition TwoHashPwd :: "(string \<Rightarrow> string) \<Rightarrow> string \<Rightarrow> string \<Rightarrow> string" where
  "TwoHashPwd sha256 password salt = HashPwd sha256 (StaticHash sha256 password) salt"

definition ValidatePwdStaticHash :: "(string \<Rightarrow> string) \<Rightarrow> User \<Rightarrow> string \<Rightarrow> user_error option" where
  "ValidatePwdStaticHash sha256 u pwdStaticHash =
     (if pwdStaticHash = [] then Some EmptyPassword
      else if PwdHash u \<noteq> HashPwd sha256 pwdStaticHash (Salt u) then Some WrongPassword
      else None)"

definition ValidateRawPassword :: "(string \<Rightarrow> string) \<Rightarrow> User \<Rightarrow> string \<Rightarrow> user_error option" where
  "ValidateRawPassword sha256 u password = ValidatePwdStaticHash sha256 u (StaticHash sha256 password)"

text \<open>\<open>SetPassword\<close> draws a salt and reads the clock; both are arguments.\<close>

definition SetPassword :: "(string \<Rightarrow> string) \<Rightarrow> string \<Rightarrow> int64 \<Rightarrow> User \<Rightarrow> string \<Rightarrow> User" where
  "SetPassword sha256 salt now u pwd =
     (let u = u\<lparr>Salt := salt\<rparr>;
          u = u\<lparr>PwdHash := TwoHashPwd sha256 pwd (Salt u)\<rparr>
      in u\<lparr>PwdTS := now\<rparr>)"

subsection \<open>Permissions\<close>

definition CanSeeHides :: "32 word \<Rightarrow> bool" where
  "CanSeeHides permission \<longleftrightarrow> permission AND 1 = 1"

definition CanAccessWithoutPassword :: "32 word \<Rightarrow> bool" where
  "CanAccessWithoutPassword permission \<longleftrightarrow> signed_drop_bit 1 permission AND 1 = 1"

definition CanAddOfflineDownloadTasks :: "32 word \<Rightarrow> bool" where
  "CanAddOfflineDownloadTasks permission \<longleftrightarrow> signed_drop_bit 2 permission AND 1 = 1"

definition CanWriteContent :: "32 word \<Rightarrow> bool" where
  "CanWriteContent permission \<longleftrightarrow> signed_drop_bit 3 permission AND 1 = 1"

definition CanRename :: "32 word \<Rightarrow> bool" where
  "CanRename permission \<longleftrightarrow> signed_drop_bit 4 permission AND 1 = 1"

definition CanMove :: "32 word \<Rightarrow> bool" where
  "CanMove permission \<longleftrightarrow> signed_drop_bit 5 permission AND 1 = 1"

definition CanCopy :: "32 word \<Rightarrow> bool" where
  "CanCopy permission \<longleftrightarrow> signed_drop_bit 6 permission AND 1 = 1"

definition CanRemove :: "32 word \<Rightarrow> bool" where
  "CanRemove permission \<longleftrightarrow> signed_drop_bit 7 permission AND 1 = 1"

definition CanWebdavRead :: "32 word \<Rightarrow> bool" where
  "CanWebdavRead permission \<longleftrightarrow> signed_drop_bit 8 permission AND 1 = 1"

definition CanWebdavManage :: "32 word \<Rightarrow> bool" where
  "CanWebdavManage permission \<longleftrightarrow> signed_drop_bit 9 permission AND 1 = 1"

definition CanFTPAccess :: "32 word \<Rightarrow> bool" where
  "CanFTPAccess permission \<longleftrightarrow> signed_drop_bit 10 permission AND 1 = 1"

definition CanFTPManage :: "32 word \<Rightarrow> bool" where
  "CanFTPManage permission \<longleftrightarrow> signed_drop_bit 11 permission AND 1 = 1"

definition CanReadArchives :: "32 word \<Rightarrow> bool" where
  "CanReadArchives permission \<longleftrightarrow> signed_drop_bit 12 permission AND 1 = 1"

definition CanDecompress :: "32 word \<Rightarrow> bool" where
  "CanDecompress permission \<longleftrightarrow> signed_drop_bit 13 permission AND 1 = 1"

definition CanShare :: "32 word \<Rightarrow> bool" where
  "CanShare permission \<longleftrightarrow> signed_drop_bit 14 permission AND 1 = 1"

definition CanCustomizeShareID :: "32 word \<Rightarrow> bool" where
  "CanCustomizeShareID permission \<longleftrightarrow> signed_drop_bit 15 permission AND 1 = 1"

definition JoinPath :: "User \<Rightarrow> string \<Rightarrow> path_error + string" where
  "JoinPath u reqPath = JoinBasePath (BasePath u) reqPath"

text \<open>The eight bytes \<open>binary.LittleEndian.PutUint64\<close> writes.\<close>

definition WebAuthnID :: "User \<Rightarrow> nat list" where
  "WebAuthnID u = map (\<lambda>i. (ID u mod 2 ^ 64) div 256 ^ i mod 256) [0..<8]"

section \<open>Specification and lemmas\<close>

text \<open>The table of the comment on \<open>User.Permission\<close>: the test for bit \<open>n\<close> at position \<open>n\<close>.\<close>

definition perm_checks :: "(32 word \<Rightarrow> bool) list" where
  "perm_checks = [CanSeeHides, CanAccessWithoutPassword, CanAddOfflineDownloadTasks, CanWriteContent,
     CanRename, CanMove, CanCopy, CanRemove, CanWebdavRead, CanWebdavManage, CanFTPAccess, CanFTPManage,
     CanReadArchives, CanDecompress, CanShare, CanCustomizeShareID]"

lemmas perm_defs = CanSeeHides_def CanAccessWithoutPassword_def CanAddOfflineDownloadTasks_def
  CanWriteContent_def CanRename_def CanMove_def CanCopy_def CanRemove_def CanWebdavRead_def
  CanWebdavManage_def CanFTPAccess_def CanFTPManage_def CanReadArchives_def CanDecompress_def
  CanShare_def CanCustomizeShareID_def

lemma and_one_iff: "(w :: 32 word) AND 1 = 1 \<longleftrightarrow> bit w 0"
  by (simp add: and_one_eq odd_iff_mod_2_eq_one bit_0)

lemma bit_signed_drop_bit_0: "n < 32 \<Longrightarrow> bit (signed_drop_bit n (w :: 32 word)) 0 \<longleftrightarrow> bit w n"
  by (simp add: bit_signed_drop_bit_iff)

lemma of_digits_256: "(\<Sum>i<k. (n div 256 ^ i mod 256) * 256 ^ i) = n mod 256 ^ k" for n k :: nat
proof (induction k)
  case (Suc k)
  have "n mod 256 ^ Suc k = 256 ^ k * (n div 256 ^ k mod 256) + n mod 256 ^ k"
    using mod_mult2_eq [of n "256 ^ k" 256] by (simp add: mult.commute)
  with Suc show ?case by simp
qed simp

section \<open>Properties\<close>

text \<open>The sixteen permission tests read the sixteen bits of the documented table,
  each its own: the answers are the bits 0 to 15 of the permission word in order,
  so granting one permission never changes another, also for words whose sign bit
  is set.\<close>

theorem permission_bits: "map (\<lambda>can. can permission) perm_checks = map (bit permission) [0..<16]"
  by (simp add: perm_checks_def perm_defs and_one_iff bit_signed_drop_bit_0 upt_rec numeral_eq_Suc)

text \<open>A password that was set is accepted, and another one is accepted only if its
  salted double digest collides with it.  The digest function is required to
  return non-empty strings, as a hex digest is.\<close>

theorem SetPassword_Validate:
  assumes "\<And>x. sha256 x \<noteq> []"
  shows "ValidateRawPassword sha256 (SetPassword sha256 salt now u pwd) pwd = None \<and>
    (ValidateRawPassword sha256 (SetPassword sha256 salt now u pwd) p = None \<longleftrightarrow>
      TwoHashPwd sha256 p salt = TwoHashPwd sha256 pwd salt) \<and>
    ValidateRawPassword sha256 (SetPassword sha256 salt now u pwd) p \<noteq> Some EmptyPassword"
  using assms
  by (auto simp: ValidateRawPassword_def ValidatePwdStaticHash_def SetPassword_def TwoHashPwd_def
      StaticHash_def Let_def)

theorem SetPassword_Validate_witness:
  "\<exists>u. ValidateRawPassword (\<lambda>s. ''h'' @ s) (SetPassword (\<lambda>s. ''h'' @ s) ''salt'' 7 u ''secret'') ''guess'' =
     Some WrongPassword"
proof -
  define sha where "sha = (\<lambda>s. ''h'' @ s)"
  have "TwoHashPwd sha ''guess'' ''salt'' \<noteq> TwoHashPwd sha ''secret'' ''salt''"
    by (simp add: sha_def TwoHashPwd_def HashPwd_def StaticHash_def)
  then have "ValidateRawPassword sha (SetPassword sha ''salt'' 7 u ''secret'') ''guess'' = Some WrongPassword" for u
    using SetPassword_Validate [of sha "''salt''" 7 u "''secret''" "''guess''"]
    by (cases "ValidateRawPassword sha (SetPassword sha ''salt'' 7 u ''secret'') ''guess''")
       (auto simp: sha_def intro: user_error.exhaust)
  then show ?thesis unfolding sha_def by blast
qed

end
