(* ===== verification/Access.thy ===== *)
theory Access
  imports User_Model "HOL-Library.Monad_Syntax"
begin

text \<open>
  Who may see and write what: \<open>server/common/check.go\<close> with the metadata record of
  \<open>internal/model/meta.go\<close>.  A result \<open>None\<close> is a call that does not return, because it
  panics (a nil user is dereferenced, a hide pattern does not compile) or because a
  loop runs on.  Two parameters stand for code outside the repository:
  \<open>EqualFold\<close>, Go's Unicode case-insensitive comparison, and \<open>compile\<close>, the regexp2
  package, which gives a matcher or panics.
\<close>

section \<open>The model\<close>

record Meta =
  MetaID :: nat
  Path :: string
  ReadUsers :: "nat list"
  ReadUsersSub :: bool
  WriteUsers :: "nat list"
  WriteUsersSub :: bool
  MetaPassword :: string
  PSub :: bool
  Write :: bool
  WSub :: bool
  Hide :: string
  HSub :: bool
  Readme :: string
  RSub :: bool
  Header :: string
  HeaderSub :: bool

type_synonym equal_fold = "string \<Rightarrow> string \<Rightarrow> bool"
type_synonym compile = "string \<Rightarrow> (string \<Rightarrow> bool) may_panic"

text \<open>The upward loop of \<open>MetaCoversPath\<close>; nothing but the argument stops it.\<close>

partial_function (option) covers_loop :: "equal_fold \<Rightarrow> string \<Rightarrow> string \<Rightarrow> bool option" where
  "covers_loop EqualFold metaPath reqPath =
     (if reqPath \<noteq> ''/''
      then (let reqPath = Dir reqPath
            in if EqualFold metaPath reqPath then Some True
               else covers_loop EqualFold metaPath reqPath)
      else Some False)"

definition MetaCoversPath :: "equal_fold \<Rightarrow> string \<Rightarrow> string \<Rightarrow> bool \<Rightarrow> bool option" where
  "MetaCoversPath EqualFold metaPath reqPath applyToSubFolder =
     (let metaPath = FixAndCleanPath metaPath; reqPath = FixAndCleanPath reqPath
      in if EqualFold metaPath reqPath then Some True
         else if \<not> applyToSubFolder then Some False
         else covers_loop EqualFold metaPath reqPath)"

definition CanRead :: "equal_fold \<Rightarrow> User option \<Rightarrow> Meta option \<Rightarrow> string \<Rightarrow> bool option" where
  "CanRead EqualFold user meta path =
     (case user of
        None \<Rightarrow> Some True
      | Some u \<Rightarrow>
          (case meta of
             None \<Rightarrow> Some True
           | Some m \<Rightarrow>
               if length (ReadUsers m) > 0 \<and> ID u \<notin> set (ReadUsers m)
               then map_option Not (MetaCoversPath EqualFold (Path m) path (ReadUsersSub m))
               else Some True))"

definition CanWrite :: "equal_fold \<Rightarrow> User option \<Rightarrow> Meta option \<Rightarrow> string \<Rightarrow> bool option" where
  "CanWrite EqualFold user meta path =
     (case user of
        None \<Rightarrow> Some True
      | Some u \<Rightarrow>
          (case meta of
             None \<Rightarrow> Some True
           | Some m \<Rightarrow>
               if length (WriteUsers m) > 0 \<and> ID u \<notin> set (WriteUsers m)
               then map_option Not (MetaCoversPath EqualFold (Path m) path (WriteUsersSub m))
               else Some True))"

definition CanWriteContentBypassUserPerms :: "Meta option \<Rightarrow> string \<Rightarrow> bool" where
  "CanWriteContentBypassUserPerms meta path =
     (case meta of
        None \<Rightarrow> False
      | Some m \<Rightarrow>
          if \<not> Write m then False
          else if PathEqual (Path m) path then True
          else IsSubPath (Path m) path \<and> WSub m)"

text \<open>The loop over the lines of the hide field: compile each, stop at the first match.\<close>

fun hide_loop :: "compile \<Rightarrow> string list \<Rightarrow> string \<Rightarrow> bool may_panic" where
  "hide_loop compile [] name = Some False"
| "hide_loop compile (hide # hides) name =
     (case compile hide of
        None \<Rightarrow> None
      | Some re \<Rightarrow> if re name then Some True else hide_loop compile hides name)"

definition is_hidden :: "equal_fold \<Rightarrow> compile \<Rightarrow> User option \<Rightarrow> Meta option \<Rightarrow> string \<Rightarrow> bool option" where
  "is_hidden EqualFold compile user meta reqPath =
     (case meta of
        None \<Rightarrow> Some False
      | Some m \<Rightarrow>
          (case user of
             None \<Rightarrow> None
           | Some u \<Rightarrow>
               if \<not> CanSeeHides (Permission u) \<and> Hide m \<noteq> []
               then do {
                 covered \<leftarrow> MetaCoversPath EqualFold (Path m) (Dir reqPath) (HSub m);
                 if covered then hide_loop compile (Split (CHR 0x0A) (Hide m)) (Base reqPath) else Some False
               }
               else Some False))"

definition CanAccess :: "equal_fold \<Rightarrow> compile \<Rightarrow> User option \<Rightarrow> Meta option \<Rightarrow> string \<Rightarrow> string \<Rightarrow> bool option" where
  "CanAccess EqualFold compile user meta reqPath password = do {
     hidden \<leftarrow> is_hidden EqualFold compile user meta reqPath;
     if hidden then Some False
     else do {
       readable \<leftarrow> CanRead EqualFold user meta reqPath;
       if \<not> readable then Some False
       else do {
         u \<leftarrow> user;
         if CanAccessWithoutPassword (Permission u) then Some True
         else (case meta of
                 None \<Rightarrow> Some True
               | Some m \<Rightarrow>
                   if MetaPassword m = [] then Some True
                   else do {
                     covered \<leftarrow> MetaCoversPath EqualFold (Path m) reqPath (PSub m);
                     if \<not> covered then Some True else Some (MetaPassword m = password)
                   })
       }
     }
   }"

section \<open>Specification\<close>

text \<open>
  A metadata record covers a path when it is set on the path itself or, if it applies
  to sub-folders, on a folder above it; paths are compared without regard to case.
\<close>

definition covers :: "equal_fold \<Rightarrow> string \<Rightarrow> string \<Rightarrow> bool \<Rightarrow> bool" where
  "covers EqualFold metaPath reqPath sub \<longleftrightarrow>
     EqualFold (FixAndCleanPath metaPath) (FixAndCleanPath reqPath) \<or>
     sub \<and> (\<exists>p \<in> set (GetPathHierarchy reqPath). EqualFold (FixAndCleanPath metaPath) p)"

definition hides_name :: "compile \<Rightarrow> string \<Rightarrow> string \<Rightarrow> bool" where
  "hides_name compile hide name \<longleftrightarrow>
     (\<exists>h \<in> set (Split (CHR 0x0A) hide). \<exists>re. compile h = Some re \<and> re name)"

lemma covers_loop_path_of:
  "valid_names cs \<Longrightarrow>
     covers_loop E m (path_of cs) = Some (\<exists>es \<in> set (butlast (prefixes cs)). E m (path_of es))"
proof (induction cs rule: rev_induct)
  case Nil
  then show ?case by (subst covers_loop.simps) simp
next
  case (snoc c cs)
  have v: "valid_names cs" using snoc.prems by simp
  have "path_of (cs @ [c]) \<noteq> path_of []" using snoc.prems by (subst path_of_inject) auto
  then have step: "covers_loop E m (path_of (cs @ [c])) =
      (if E m (path_of cs) then Some True else covers_loop E m (path_of cs))"
    by (subst covers_loop.simps) (simp add: Dir_path_of_snoc [OF snoc.prems])
  have "butlast (prefixes (cs @ [c])) = prefixes cs" by (simp add: prefixes_snoc)
  moreover have "prefixes cs = butlast (prefixes cs) @ [cs]"
    using append_butlast_last_id [of "prefixes cs"] by simp
  ultimately have "set (butlast (prefixes (cs @ [c]))) = insert cs (set (butlast (prefixes cs)))"
    by (metis Un_insert_right set_append list.set(1,2) sup_bot.right_neutral)
  with step snoc.IH [OF v] show ?case by auto
qed

lemma MetaCoversPath_Some: "MetaCoversPath E metaPath reqPath sub = Some (covers E metaPath reqPath sub)"
proof -
  have "prefixes (fix_comps reqPath) = butlast (prefixes (fix_comps reqPath)) @ [fix_comps reqPath]"
    using append_butlast_last_id [of "prefixes (fix_comps reqPath)"] by simp
  then have "set (prefixes (fix_comps reqPath)) = insert (fix_comps reqPath) (set (butlast (prefixes (fix_comps reqPath))))"
    by (metis Un_insert_right set_append list.set(1,2) sup_bot.right_neutral)
  then show ?thesis
    by (auto simp: MetaCoversPath_def covers_def Let_def FixAndCleanPath_eq GetPathHierarchy_eq covers_loop_path_of)
qed

lemma hide_loop_Some:
  assumes "\<And>h. h \<in> set hs \<Longrightarrow> compile h \<noteq> None"
  shows "hide_loop compile hs name = Some (\<exists>h \<in> set hs. \<exists>re. compile h = Some re \<and> re name)"
  using assms by (induction hs) (auto split: option.splits)

section \<open>Properties\<close>

text \<open>\<open>MetaCoversPath\<close> always returns, and answers whether the metadata path names the
  request path or, if it applies to sub-folders, one of the ancestors
  \<open>GetPathHierarchy\<close> lists.\<close>

theorem MetaCoversPath_correct:
  "MetaCoversPath EqualFold metaPath reqPath sub =
     Some (EqualFold (FixAndCleanPath metaPath) (FixAndCleanPath reqPath) \<or>
           sub \<and> (\<exists>p \<in> set (GetPathHierarchy reqPath). EqualFold (FixAndCleanPath metaPath) p))"
  by (simp add: MetaCoversPath_Some covers_def)

text \<open>C28: The whole access decision under a metadata record whose hide patterns compile: access is refused to a user who may not see hidden files for
  a name that a pattern hides where the record covers the folder, refused to a user outside a non-empty list of readers where the
  record's list of readers covers the path, and otherwise granted to a user who needs no password, when no password covers the path, or
  for the right password.  Without a record access is granted, and without a user the decision panics.\<close>

theorem CanAccess_decision:
  assumes "\<And>h. h \<in> set (Split (CHR 0x0A) (Hide m)) \<Longrightarrow> compile h \<noteq> None"
  shows "CanAccess EqualFold compile (Some u) (Some m) reqPath password = Some (
    \<not> (\<not> CanSeeHides (Permission u) \<and> Hide m \<noteq> [] \<and>
        covers EqualFold (Path m) (Dir reqPath) (HSub m) \<and> hides_name compile (Hide m) (Base reqPath)) \<and>
    (ReadUsers m = [] \<or> ID u \<in> set (ReadUsers m) \<or> \<not> covers EqualFold (Path m) reqPath (ReadUsersSub m)) \<and>
    (CanAccessWithoutPassword (Permission u) \<or> MetaPassword m = [] \<or>
     \<not> covers EqualFold (Path m) reqPath (PSub m) \<or> MetaPassword m = password)) \<and>
    CanAccess EqualFold compile (Some u) None reqPath password = Some True \<and> CanAccess EqualFold compile None meta reqPath password = None"
proof -
  have hid: "is_hidden EqualFold compile (Some u) (Some m) reqPath = Some (
      \<not> CanSeeHides (Permission u) \<and> Hide m \<noteq> [] \<and>
      covers EqualFold (Path m) (Dir reqPath) (HSub m) \<and> hides_name compile (Hide m) (Base reqPath))"
    using assms by (simp add: is_hidden_def MetaCoversPath_Some hide_loop_Some hides_name_def)
  have "CanAccess EqualFold compile (Some u) None reqPath password = Some True" "CanAccess EqualFold compile None meta reqPath password = None"
    by (simp_all add: CanAccess_def is_hidden_def CanRead_def split: option.split)
  then show ?thesis
    unfolding CanAccess_def hid by (auto simp: CanRead_def MetaCoversPath_Some)
qed

theorem CanAccess_decision_witness:
  "\<exists>u m. CanAccess (=) (\<lambda>p. Some ((=) p)) (Some u) (Some m) ''/a/b/c'' ''guess'' = Some False \<and>
         CanAccess (=) (\<lambda>p. Some ((=) p)) (Some u) (Some m) ''/a/b/c'' ''pw'' = Some True"
proof -
  define u where "u = \<lparr>ID = 3, Username = ''x'', PwdHash = [], PwdTS = 0, Salt = [], Password = [],
    BasePath = ''/'', Role = GENERAL, Disabled = False, Permission = 0, OtpSecret = [], SsoID = [], Authn = [],
    AllowLdap = True\<rparr>"
  define m where "m = \<lparr>MetaID = 1, Path = ''/a'', ReadUsers = [], ReadUsersSub = False, WriteUsers = [],
    WriteUsersSub = False, MetaPassword = ''pw'', PSub = True, Write = False, WSub = False, Hide = ''secret'',
    HSub = True, Readme = [], RSub = False, Header = [], HeaderSub = False\<rparr>"
  have cov: "covers (=) ''/a'' ''/a/b/c'' True" unfolding covers_def by code_simp
  have base: "Base ''/a/b/c'' = ''c''" by code_simp
  have split: "Split (CHR 0x0A) ''secret'' = [''secret'']" by code_simp
  have perm: "\<not> CanAccessWithoutPassword 0" by (simp add: CanAccessWithoutPassword_def)
  have hide: "\<not> hides_name (\<lambda>p. Some ((=) p)) ''secret'' ''c''" by (simp add: hides_name_def split)
  have "CanAccess (=) (\<lambda>p. Some ((=) p)) (Some u) (Some m) ''/a/b/c'' pw = Some (pw = ''pw'')" for pw
    using CanAccess_decision [of m "\<lambda>p. Some ((=) p)" "(=)" u "''/a/b/c''" pw] by (auto simp: u_def m_def cov base perm hide)
  then show ?thesis by (intro exI [of _ u] exI [of _ m]) simp
qed

text \<open>A folder marked writable can be written by everyone exactly at the folder itself
  and, if the mark extends to sub-folders, anywhere below it.\<close>

theorem CanWriteContentBypass_iff:
  "CanWriteContentBypassUserPerms (Some m) path \<longleftrightarrow>
     Write m \<and> (if WSub m then IsSubPath (Path m) path else PathEqual (Path m) path)"
  using sp.sub_eq [of "Path m" path] by (auto simp: CanWriteContentBypassUserPerms_def)

end
