(* ===== verification/Multipart_Window.thy ===== *)
theory Multipart_Window
  imports Go_Prelude "HOL-Library.Word"
begin

text \<open>
  The receiving window of a multipart upload: \<open>internal/multipart/window.go\<close>.  Chunks
  arrive concurrently and land in a ring of \<open>slots\<close> places; a single reader takes the
  bytes out in order.  Every critical section of the code, that is every stretch
  between taking and releasing the mutex, is one function here: the admission of a
  chunk, the end of its transfer, the reader's look at the frontier and its commit,
  closing and the snapshot.  What happens outside the mutex (the transfer into the
  ring file and the read out of it) is in \<open>Multipart_Stream\<close>.
\<close>

section \<open>The model\<close>

datatype slot_state = slotFree | slotFilling | slotReady

datatype win_error = ErrClosed | ErrChunkInFlight | ErrOutOfWindow | ErrIndexRange
  | ErrTooLarge | ErrIncomplete | ErrSticky string

text \<open>
  \<open>slotChunk\<close> is -1 for a free slot.  The ring file is open exactly while \<open>open\<close> holds
  (the field \<open>f\<close> of the code is not nil).
\<close>

record Window =
  chunkSize :: int64
  totalSize :: int64
  total :: int
  slots :: int
  slotState :: "slot_state list"
  slotChunk :: "int list"
  readPos :: int64
  crcs :: "32 word list"
  crcSet :: "bool list"
  err :: "win_error option"
  file_open :: bool

datatype new_window = NewError | NewPanic | NewWin Window

text \<open>
  Creating the directory and the ring file can fail (\<open>ioErr\<close>).  The sum in the number
  of chunks is an \<open>int64\<close> sum; a negative number of chunks makes \<open>make\<close> panic.
\<close>

definition NewWindow :: "bool \<Rightarrow> int64 \<Rightarrow> int64 \<Rightarrow> int \<Rightarrow> new_window" where
  "NewWindow ioErr cs ts n =
     (if cs \<le> 0 \<or> ts \<le> 0 \<or> n \<le> 0 then NewError
      else if ioErr then NewError
      else let s = wrap64 (ts + cs - 1); tot = sgn s * (\<bar>s\<bar> div cs)
           in if tot < 0 then NewPanic
              else NewWin \<lparr>chunkSize = cs, totalSize = ts, total = tot, slots = n,
                slotState = replicate (nat n) slotFree, slotChunk = replicate (nat n) (-1),
                readPos = 0, crcs = replicate (nat tot) 0, crcSet = replicate (nat tot) False,
                err = None, file_open = True\<rparr>)"

definition TotalChunks :: "Window \<Rightarrow> int" where
  "TotalChunks w = total w"

definition ChunkLen :: "Window \<Rightarrow> int \<Rightarrow> int64" where
  "ChunkLen w idx = (if idx = total w - 1 then totalSize w - idx * chunkSize w else chunkSize w)"

definition frontier :: "Window \<Rightarrow> int" where
  "frontier w = (if readPos w \<ge> totalSize w then total w else readPos w div chunkSize w)"

text \<open>
  The outcome of the admission: the call returns an error or the checksum of a chunk
  that is already there, it parks until it is woken, or it owns the slot.
\<close>

datatype admission = Return "win_error + 32 word" | Wait | Admitted int int64

text \<open>The checks before the waiting loop of \<open>WriteChunk\<close>.\<close>

definition WriteChunk_enter :: "Window \<Rightarrow> int \<Rightarrow> win_error option" where
  "WriteChunk_enter w idx =
     (case err w of
        Some e \<Rightarrow> Some e
      | None \<Rightarrow> if idx < 0 \<or> idx \<ge> total w then Some ErrIndexRange else None)"

text \<open>
  One round of the waiting loop and, when the chunk is admitted, the two assignments
  that claim the slot.  \<open>expired\<close> tells whether the deadline has passed.
\<close>

definition WriteChunk_admit :: "Window \<Rightarrow> int \<Rightarrow> bool \<Rightarrow> admission \<times> Window" where
  "WriteChunk_admit w idx expired =
     (let len = ChunkLen w idx; slot = idx mod slots w; i = nat slot
      in case err w of
           Some e \<Rightarrow> (Return (Inl e), w)
         | None \<Rightarrow>
             if idx * chunkSize w + len \<le> readPos w then (Return (Inr (crcs w ! nat idx)), w)
             else if slotChunk w ! i = idx \<and> slotState w ! i = slotReady
               then (Return (Inr (crcs w ! nat idx)), w)
             else if slotChunk w ! i = idx \<and> slotState w ! i = slotFilling
               then (Return (Inl ErrChunkInFlight), w)
             else if slotState w ! i = slotFree \<and> idx < frontier w + slots w
               then (Admitted slot len,
                     w\<lparr>slotState := (slotState w)[i := slotFilling], slotChunk := (slotChunk w)[i := idx]\<rparr>)
             else if expired then (Return (Inl ErrOutOfWindow), w)
             else (Wait, w))"

text \<open>
  What the transfer reports: \<open>failed\<close> when fewer bytes than the chunk's length came
  through, \<open>extra\<close> when the body goes on after them.
\<close>

definition WriteChunk_copied :: "bool \<Rightarrow> bool \<Rightarrow> win_error option" where
  "WriteChunk_copied failed extra =
     (if \<not> failed then (if extra then Some ErrTooLarge else None) else Some ErrIncomplete)"

definition WriteChunk_finish ::
  "Window \<Rightarrow> int \<Rightarrow> int \<Rightarrow> win_error option \<Rightarrow> 32 word \<Rightarrow> (win_error + 32 word) \<times> Window" where
  "WriteChunk_finish w idx slot copyErr sum32 =
     (let i = nat slot
      in if slotState w ! i \<noteq> slotFilling \<or> slotChunk w ! i \<noteq> idx
         then (Inl (case err w of Some e \<Rightarrow> e | None \<Rightarrow> ErrClosed), w)
         else let e = (if copyErr = None \<and> err w \<noteq> None then err w else copyErr)
              in case e of
                   Some e \<Rightarrow> (Inl e, w\<lparr>slotState := (slotState w)[i := slotFree],
                                       slotChunk := (slotChunk w)[i := -1]\<rparr>)
                 | None \<Rightarrow> (Inr sum32, w\<lparr>slotState := (slotState w)[i := slotReady],
                                         crcs := (crcs w)[nat idx := sum32],
                                         crcSet := (crcSet w)[nat idx := True]\<rparr>))"

text \<open>The reader: what it sees at the frontier, and what it commits after reading.\<close>

datatype read_error = EOF | ErrUnexpectedEOF | ReadErr win_error | FileErr

datatype read_look = ReadReturn read_error | ReadWait | ReadAt int int int64 int64

definition Read_look :: "Window \<Rightarrow> int \<Rightarrow> read_look" where
  "Read_look w plen =
     (case err w of
        Some e \<Rightarrow> ReadReturn (ReadErr e)
      | None \<Rightarrow>
          if readPos w \<ge> totalSize w then ReadReturn EOF
          else let cur = readPos w div chunkSize w; slot = cur mod slots w; i = nat slot
               in if slotState w ! i = slotReady \<and> slotChunk w ! i = cur
                  then let chunkStart = cur * chunkSize w; chunkEnd = chunkStart + ChunkLen w cur;
                           avail = chunkEnd - readPos w; n = (if plen > avail then avail else plen);
                           off = slot * chunkSize w + (readPos w - chunkStart)
                       in ReadAt cur slot n off
                  else ReadWait)"

definition Read_commit :: "Window \<Rightarrow> int \<Rightarrow> int \<Rightarrow> int64 \<Rightarrow> bool \<Rightarrow> (read_error + int64) \<times> Window" where
  "Read_commit w cur slot readn fileErr =
     (let chunkEnd = cur * chunkSize w + ChunkLen w cur; i = nat slot;
          w' = (if readn > 0
                then let w1 = w\<lparr>readPos := readPos w + readn\<rparr>
                     in if readPos w1 \<ge> chunkEnd
                        then w1\<lparr>slotState := (slotState w1)[i := slotFree], slotChunk := (slotChunk w1)[i := -1]\<rparr>
                        else w1
                else w)
      in (if readn > 0 then Inr readn
          else case err w' of
                 Some e \<Rightarrow> Inl (ReadErr e)
               | None \<Rightarrow> Inl (if fileErr then FileErr else ErrUnexpectedEOF), w'))"

definition CloseWithError :: "Window \<Rightarrow> win_error \<Rightarrow> Window" where
  "CloseWithError w sticky =
     w\<lparr>err := (case err w of None \<Rightarrow> Some sticky | Some e \<Rightarrow> Some e),
       file_open := False,
       slotState := map (\<lambda>_. slotFree) (slotState w),
       slotChunk := map (\<lambda>_. -1) (slotChunk w)\<rparr>"

definition Close :: "Window \<Rightarrow> Window" where
  "Close w = CloseWithError w ErrClosed"

record Snapshot =
  Frontier :: int
  ReadPos :: int64
  ReceivedBytes :: int64
  Received :: "(int \<times> int) list"

text \<open>The body of the loop over the window: a ready chunk adds its unread bytes and its index.\<close>

definition snapshot_step :: "Window \<Rightarrow> Snapshot \<Rightarrow> int \<Rightarrow> Snapshot" where
  "snapshot_step w snap idx =
     (let i = nat (idx mod slots w)
      in if slotState w ! i \<noteq> slotReady \<or> slotChunk w ! i \<noteq> idx then snap
         else let start = idx * chunkSize w;
                  consumed = (if readPos w > start then readPos w - start else 0);
                  ranges = Received snap
              in snap\<lparr>ReceivedBytes := ReceivedBytes snap + (ChunkLen w idx - consumed),
                      Received := (if length ranges > 0 \<and> snd (last ranges) = idx - 1
                                   then butlast ranges @ [(fst (last ranges), idx)]
                                   else ranges @ [(idx, idx)])\<rparr>)"

definition WindowSnapshot :: "Window \<Rightarrow> Snapshot" where
  "WindowSnapshot w =
     (let fr = frontier w;
          snap = \<lparr>Frontier = fr, ReadPos = readPos w, ReceivedBytes = readPos w,
                  Received = (if fr > 0 then [(0, fr - 1)] else [])\<rparr>
      in foldl (snapshot_step w) snap [fr..min (fr + slots w) (total w) - 1])"

definition CRCs :: "Window \<Rightarrow> 32 word list \<times> bool list" where
  "CRCs w = (crcs w, crcSet w)"

section \<open>Well-formedness\<close>

text \<open>The shape of a window: positive parameters, the number of chunks rounds up, tables of the right size.\<close>

definition win_shape :: "Window \<Rightarrow> bool" where
  "win_shape w \<longleftrightarrow> 0 < chunkSize w \<and> 0 < totalSize w \<and> 0 < slots w \<and>
     (total w - 1) * chunkSize w < totalSize w \<and> totalSize w \<le> total w * chunkSize w \<and>
     0 \<le> readPos w \<and> readPos w \<le> totalSize w \<and>
     length (slotState w) = nat (slots w) \<and> length (slotChunk w) = nat (slots w) \<and>
     length (crcs w) = nat (total w) \<and> length (crcSet w) = nat (total w)"

text \<open>
  A slot that is not free holds a chunk of the window that belongs into it; a free
  slot holds -1; and a window with an error holds nothing.
\<close>

definition slot_ok :: "Window \<Rightarrow> nat \<Rightarrow> bool" where
  "slot_ok w i \<longleftrightarrow>
     (if slotState w ! i = slotFree then slotChunk w ! i = -1
      else err w = None \<and> slotChunk w ! i mod slots w = int i \<and>
           frontier w \<le> slotChunk w ! i \<and> slotChunk w ! i < frontier w + slots w \<and> slotChunk w ! i < total w \<and>
           (slotState w ! i = slotReady \<longrightarrow> crcSet w ! nat (slotChunk w ! i)))"

definition win_inv :: "Window \<Rightarrow> bool" where
  "win_inv w \<longleftrightarrow> win_shape w \<and> (\<forall>i < nat (slots w). slot_ok w i)"

lemma win_invD:
  assumes "win_inv w"
  shows "0 < chunkSize w" "0 < totalSize w" "0 < slots w" "0 \<le> readPos w" "readPos w \<le> totalSize w"
    "(total w - 1) * chunkSize w < totalSize w" "totalSize w \<le> total w * chunkSize w"
    "length (slotState w) = nat (slots w)" "length (slotChunk w) = nat (slots w)"
    "length (crcs w) = nat (total w)" "length (crcSet w) = nat (total w)"
  using assms by (auto simp: win_inv_def win_shape_def)

lemma win_inv_slot: "win_inv w \<Longrightarrow> i < nat (slots w) \<Longrightarrow> slot_ok w i"
  by (simp add: win_inv_def)

lemma total_pos: "win_inv w \<Longrightarrow> 0 < total w"
proof -
  assume w: "win_inv w"
  have "0 < total w * chunkSize w" using win_invD(2,7) [OF w] by linarith
  then show ?thesis using win_invD(1) [OF w] by (simp add: zero_less_mult_iff)
qed

lemma slot_index: "win_inv w \<Longrightarrow> nat (idx mod slots w) < nat (slots w)"
  using win_invD(3) [of w] pos_mod_bound [of "slots w" idx] by (simp add: nat_less_eq_zless)

lemma frontier_bounds:
  assumes "win_inv w"
  shows "0 \<le> frontier w" "frontier w \<le> total w"
    and "readPos w < totalSize w \<Longrightarrow> frontier w < total w"
proof -
  note w = win_invD [OF assms]
  have "readPos w div chunkSize w < total w" if "readPos w < totalSize w"
  proof -
    have "readPos w < total w * chunkSize w" using that w(7) by linarith
    then show ?thesis using w(1) by (simp add: int_div_less_iff)
  qed
  moreover have "0 \<le> readPos w div chunkSize w" using w(1,4) by (simp add: pos_imp_zdiv_nonneg_iff)
  ultimately show "0 \<le> frontier w" "frontier w \<le> total w"
    "readPos w < totalSize w \<Longrightarrow> frontier w < total w"
    using total_pos [OF assms] by (auto simp: frontier_def)
qed

lemma ChunkLen_pos: "win_inv w \<Longrightarrow> 0 < ChunkLen w idx"
  using win_invD(1,6) [of w] by (auto simp: ChunkLen_def)

lemma ChunkLen_le: "win_inv w \<Longrightarrow> ChunkLen w idx \<le> chunkSize w"
proof -
  assume w: "win_inv w"
  have "totalSize w - (total w - 1) * chunkSize w \<le> chunkSize w"
    using win_invD(7) [OF w] by (simp add: algebra_simps)
  then show ?thesis by (simp add: ChunkLen_def)
qed

lemma chunk_end:
  assumes "win_inv w" "0 \<le> idx" "idx < total w"
  shows "idx * chunkSize w + ChunkLen w idx = min ((idx + 1) * chunkSize w) (totalSize w)"
proof (cases "idx = total w - 1")
  case True
  then show ?thesis using win_invD(7) [OF assms(1)] by (simp add: ChunkLen_def algebra_simps)
next
  case False
  with assms have "(idx + 1) * chunkSize w \<le> (total w - 1) * chunkSize w"
    using win_invD(1) [OF assms(1)] by (intro mult_right_mono) auto
  with False win_invD(6) [OF assms(1)] show ?thesis by (simp add: ChunkLen_def algebra_simps)
qed

text \<open>A chunk is consumed, in the sense of the code's test, exactly when it lies before the frontier.\<close>

lemma consumed_iff:
  assumes "win_inv w" "0 \<le> idx" "idx < total w"
  shows "idx * chunkSize w + ChunkLen w idx \<le> readPos w \<longleftrightarrow> idx < frontier w"
proof (cases "readPos w < totalSize w")
  case True
  have "idx * chunkSize w + ChunkLen w idx \<le> readPos w \<longleftrightarrow> (idx + 1) * chunkSize w \<le> readPos w"
    using True by (auto simp: chunk_end [OF assms] min_def)
  also have "\<dots> \<longleftrightarrow> idx + 1 \<le> readPos w div chunkSize w"
    using win_invD(1) [OF assms(1)] by (simp add: int_le_div_iff)
  finally show ?thesis using True by (auto simp: frontier_def)
next
  case False
  then have "readPos w = totalSize w" using win_invD(5) [OF assms(1)] by linarith
  then show ?thesis using assms(3) by (simp add: chunk_end [OF assms] frontier_def)
qed

text \<open>Two chunks of one window never share a slot.\<close>

lemma window_slot_inj:
  assumes "0 < (n :: int)" "f \<le> a" "a < f + n" "f \<le> b" "b < f + n" "a mod n = b mod n"
  shows "a = b"
proof -
  have "\<bar>a - b\<bar> < n" using assms by linarith
  moreover have "n dvd a - b" using assms(6) by (simp add: mod_eq_dvd_iff)
  ultimately show ?thesis using zdvd_imp_le [of n "\<bar>a - b\<bar>"] by (cases "a = b") auto
qed

section \<open>Every critical section keeps the window well formed\<close>

lemma slot_nth:
  assumes "win_inv w"
  shows "i < nat (slots w) \<Longrightarrow> j < nat (slots w) \<Longrightarrow>
     (slotState w)[i := x] ! j = (if i = j then x else slotState w ! j)"
    and "i < nat (slots w) \<Longrightarrow> j < nat (slots w) \<Longrightarrow>
     (slotChunk w)[i := y] ! j = (if i = j then y else slotChunk w ! j)"
  using win_invD(8,9) [OF assms] by (simp_all add: nth_list_update)

lemma NewWindow_inv:
  assumes "NewWindow ioErr cs ts n = NewWin w" "ts + cs - 1 \<le> max_int64"
  shows "win_inv w \<and> err w = None \<and> readPos w = 0"
proof -
  from assms have pos: "0 < cs" "0 < ts" "0 < n"
    by (auto simp: NewWindow_def split: if_splits)
  then have "in_int64 (ts + cs - 1)" using assms(2) by (simp add: int64_defs)
  then have w: "w = \<lparr>chunkSize = cs, totalSize = ts, total = (ts + cs - 1) div cs, slots = n,
      slotState = replicate (nat n) slotFree, slotChunk = replicate (nat n) (-1), readPos = 0,
      crcs = replicate (nat ((ts + cs - 1) div cs)) 0, crcSet = replicate (nat ((ts + cs - 1) div cs)) False,
      err = None, file_open = True\<rparr>"
    using assms(1) pos by (auto simp: NewWindow_def Let_def split: if_splits)
  let ?t = "(ts + cs - 1) div cs"
  have "ts < (?t + 1) * cs - cs + 1" "?t * cs \<le> ts + cs - 1"
    using int_div_less_iff [of cs "ts + cs - 1" "?t + 1"] int_le_div_iff [of cs ?t "ts + cs - 1"] pos
    by simp_all
  then have "(?t - 1) * cs < ts" "ts \<le> ?t * cs" by (simp_all add: algebra_simps)
  with pos show ?thesis by (simp add: w win_inv_def win_shape_def slot_ok_def)
qed

lemma WriteChunk_admit_inv:
  assumes "win_inv w" "0 \<le> idx" "idx < total w"
  shows "win_inv (snd (WriteChunk_admit w idx expired))"
proof -
  define i where "i = nat (idx mod slots w)"
  let ?w = "w\<lparr>slotState := (slotState w)[i := slotFilling], slotChunk := (slotChunk w)[i := idx]\<rparr>"
  have i: "i < nat (slots w)" "int i = idx mod slots w"
    using slot_index [OF assms(1)] win_invD(3) [OF assms(1)] by (simp_all add: i_def)
  have "win_inv ?w" if "err w = None" "\<not> idx * chunkSize w + ChunkLen w idx \<le> readPos w" "idx < frontier w + slots w"
  proof -
    have "frontier w \<le> idx" using that(2) consumed_iff [OF assms] by simp
    then have "slot_ok ?w j" if "j < nat (slots w)" for j
      using that i assms \<open>err w = None\<close> \<open>idx < frontier w + slots w\<close> win_inv_slot [OF assms(1) that]
      by (auto simp: slot_ok_def frontier_def slot_nth [OF assms(1)])
    then show ?thesis using win_invD [OF assms(1)] by (simp add: win_inv_def win_shape_def)
  qed
  then show ?thesis using assms(1) by (simp add: WriteChunk_admit_def Let_def i_def split: option.splits)
qed

lemma WriteChunk_finish_inv:
  assumes "win_inv w"
  shows "win_inv (snd (WriteChunk_finish w idx (idx mod slots w) e c))"
proof -
  define i where "i = nat (idx mod slots w)"
  have i: "i < nat (slots w)" using slot_index [OF assms] by (simp add: i_def)
  let ?free = "w\<lparr>slotState := (slotState w)[i := slotFree], slotChunk := (slotChunk w)[i := -1]\<rparr>"
  let ?ready = "w\<lparr>slotState := (slotState w)[i := slotReady], crcs := (crcs w)[nat idx := c], crcSet := (crcSet w)[nat idx := True]\<rparr>"
  have "slot_ok ?free j" if "j < nat (slots w)" for j
    using win_inv_slot [OF assms that] that i by (auto simp: slot_ok_def frontier_def slot_nth [OF assms])
  then have "win_inv ?free" using win_invD [OF assms] by (simp add: win_inv_def win_shape_def)
  moreover have "win_inv ?ready" if fill: "slotState w ! i = slotFilling" "slotChunk w ! i = idx"
  proof -
    have "slot_ok ?ready j" if j: "j < nat (slots w)" for j
    proof -
      have "crcSet w ! nat k \<Longrightarrow> (crcSet w)[nat idx := True] ! nat k" for k
        by (cases "nat idx < length (crcSet w)"; cases "k = idx") (auto simp: nth_list_update list_update_beyond)
      moreover have "nat idx < length (crcSet w)"
        using win_inv_slot [OF assms i] fill frontier_bounds(1) [OF assms] win_invD(11) [OF assms]
        by (auto simp: slot_ok_def)
      ultimately show ?thesis
        using win_inv_slot [OF assms j] j i fill by (auto simp: slot_ok_def frontier_def slot_nth [OF assms])
    qed
    then show ?thesis using win_invD [OF assms] by (simp add: win_inv_def win_shape_def)
  qed
  ultimately show ?thesis
    using assms by (auto simp: WriteChunk_finish_def Let_def i_def split: option.splits)
qed

lemma CloseWithError_inv: "win_inv w \<Longrightarrow> win_inv (CloseWithError w e)"
  by (auto simp: win_inv_def win_shape_def CloseWithError_def slot_ok_def)

lemma Read_commit_inv:
  assumes "win_inv w" "readPos w < totalSize w" "cur = frontier w" "slot = cur mod slots w"
    and "0 \<le> n" "readPos w + n \<le> cur * chunkSize w + ChunkLen w cur"
    and "err w = None \<Longrightarrow> slotState w ! nat slot = slotReady \<and> slotChunk w ! nat slot = cur"
  shows "win_inv (snd (Read_commit w cur slot n fe))"
proof (cases "n = 0")
  case True
  then show ?thesis using assms(1) by (simp add: Read_commit_def Let_def)
next
  case False
  define i where "i = nat slot"
  have i: "i < nat (slots w)" using slot_index [OF assms(1)] assms(4) by (simp add: i_def)
  have cur: "0 \<le> cur" "cur < total w" using frontier_bounds [OF assms(1)] assms(2,3) by auto
  note e = chunk_end [OF assms(1) cur]
  let ?w1 = "w\<lparr>readPos := readPos w + n\<rparr>"
  let ?w2 = "?w1\<lparr>slotState := (slotState w)[i := slotFree], slotChunk := (slotChunk w)[i := -1]\<rparr>"
  have shape: "win_shape ?w1" "win_shape ?w2"
    using win_invD [OF assms(1)] assms(5,6) e by (auto simp: win_shape_def)
  have fr_eq: "frontier ?w2 = frontier ?w1" by (simp add: frontier_def)
  have w1_inv: "win_inv w" by fact
  show ?thesis
  proof (cases "readPos w + n \<ge> cur * chunkSize w + ChunkLen w cur")
    case True
    then have pos: "readPos w + n = min ((cur + 1) * chunkSize w) (totalSize w)" using assms(6) e by linarith
    have fr: "frontier ?w1 \<le> cur + 1"
    proof (cases "readPos w + n \<ge> totalSize w")
      case True
      then have "total w * chunkSize w < (cur + 2) * chunkSize w \<or> total w = cur + 1"
        using pos win_invD(6) [OF assms(1)] by (auto simp: min_def algebra_simps split: if_splits)
      then have "total w \<le> cur + 1" using win_invD(1) [OF assms(1)] by auto
      then show ?thesis using True by (simp add: frontier_def)
    next
      case False
      with pos have "readPos w + n = (cur + 1) * chunkSize w" by (simp add: min_def split: if_splits)
      then show ?thesis using False win_invD(1) [OF assms(1)] by (simp add: frontier_def)
    qed
    have fr0: "frontier w \<le> frontier ?w1"
      using assms(5) win_invD(1) [OF assms(1)] frontier_bounds(2) [OF assms(1)]
      by (auto simp: frontier_def zdiv_mono1)
    have "slot_ok ?w2 j" if j: "j < nat (slots w)" for j
    proof (cases "j = i")
      case True
      then show ?thesis using i by (simp add: slot_ok_def slot_nth [OF assms(1)])
    next
      case False
      have "slotChunk w ! j \<noteq> cur" if "slotState w ! j \<noteq> slotFree"
        using that win_inv_slot [OF assms(1) j] False assms(4) by (auto simp: slot_ok_def i_def)
      then show ?thesis
        using win_inv_slot [OF assms(1) j] False j i fr fr0 assms(3) unfolding slot_ok_def fr_eq
        by (auto simp: slot_nth [OF assms(1)])
    qed
    then have "win_inv ?w2" using shape by (simp add: win_inv_def)
    then show ?thesis using True False assms(5) by (simp add: Read_commit_def Let_def i_def)
  next
    case F: False
    then have "readPos w + n < (cur + 1) * chunkSize w" "readPos w + n < totalSize w" using e by auto
    then have "(readPos w + n) div chunkSize w < cur + 1" using win_invD(1) [OF assms(1)] int_div_less_iff by blast
    moreover have "readPos w div chunkSize w \<le> (readPos w + n) div chunkSize w"
      using assms(5) win_invD(1) [OF assms(1)] by (simp add: zdiv_mono1)
    ultimately have "frontier ?w1 = frontier w"
      using assms(2,3) \<open>readPos w + n < totalSize w\<close> by (simp add: frontier_def)
    then have "win_inv ?w1" using assms(1) shape by (simp add: win_inv_def slot_ok_def)
    then show ?thesis using F False assms(5) by (simp add: Read_commit_def Let_def)
  qed
qed

section \<open>What the snapshot reports\<close>

text \<open>A chunk is ready when its slot holds it completely; \<open>unread\<close> counts the bytes of it the reader has not taken.\<close>

definition chunk_ready :: "Window \<Rightarrow> int \<Rightarrow> bool" where
  "chunk_ready w idx \<longleftrightarrow> slotState w ! nat (idx mod slots w) = slotReady \<and> slotChunk w ! nat (idx mod slots w) = idx"

definition unread :: "Window \<Rightarrow> int \<Rightarrow> int" where
  "unread w idx = ChunkLen w idx - (if readPos w > idx * chunkSize w then readPos w - idx * chunkSize w else 0)"

definition covered :: "(int \<times> int) list \<Rightarrow> int set" where
  "covered rs = (\<Union>(l, h) \<in> set rs. {l..h})"

text \<open>Ascending ranges with a gap between neighbours, all of them before \<open>b\<close>.\<close>

definition ranges_ok :: "(int \<times> int) list \<Rightarrow> int \<Rightarrow> bool" where
  "ranges_ok rs b \<longleftrightarrow> (\<forall>(l, h) \<in> set rs. l \<le> h \<and> h < b) \<and> sorted_wrt (\<lambda>p q. snd p + 1 < fst q) rs"

lemma covered_append [simp]: "covered (rs @ ss) = covered rs \<union> covered ss"
  by (simp add: covered_def)

lemma covered_single [simp]: "covered [(l, h)] = {l..h}"
  by (simp add: covered_def)

lemma ranges_ok_extend:
  assumes "ranges_ok rs b" "rs \<noteq> []" "snd (last rs) = b - 1"
  shows "ranges_ok (butlast rs @ [(fst (last rs), b)]) (b + 1)"
    and "covered (butlast rs @ [(fst (last rs), b)]) = covered rs \<union> {b}"
proof -
  obtain ss l h where rs: "rs = ss @ [(l, h)]" using assms(2) by (metis append_butlast_last_id surj_pair)
  from assms show "ranges_ok (butlast rs @ [(fst (last rs), b)]) (b + 1)"
    by (fastforce simp: ranges_ok_def rs sorted_wrt_append)
  have "{l..b} = {l..h} \<union> {b}" using assms by (auto simp: ranges_ok_def rs)
  then show "covered (butlast rs @ [(fst (last rs), b)]) = covered rs \<union> {b}" by (auto simp: rs)
qed

lemma ranges_ok_new:
  assumes "ranges_ok rs b" "rs = [] \<or> snd (last rs) \<noteq> b - 1"
  shows "ranges_ok (rs @ [(b, b)]) (b + 1)"
proof (cases rs rule: rev_cases)
  case Nil
  then show ?thesis by (simp add: ranges_ok_def)
next
  case (snoc ss p)
  have "snd q + 1 < b" if "q \<in> set rs" for q
  proof -
    have "snd p + 1 < b" using assms snoc by (auto simp: ranges_ok_def)
    moreover have "snd q \<le> snd p" using that assms(1) snoc by (fastforce simp: ranges_ok_def sorted_wrt_append)
    ultimately show ?thesis by simp
  qed
  then show ?thesis using assms(1) by (fastforce simp: ranges_ok_def sorted_wrt_append)
qed

lemma ranges_ok_mono: "ranges_ok rs b \<Longrightarrow> b \<le> c \<Longrightarrow> ranges_ok rs c"
  by (fastforce simp: ranges_ok_def)

lemma snapshot_step_spec:
  assumes "ranges_ok (Received s) idx"
  shows "ranges_ok (Received (snapshot_step w s idx)) (idx + 1)"
    and "covered (Received (snapshot_step w s idx)) = covered (Received s) \<union> (if chunk_ready w idx then {idx} else {})"
    and "ReceivedBytes (snapshot_step w s idx) = ReceivedBytes s + (if chunk_ready w idx then unread w idx else 0)"
    and "Frontier (snapshot_step w s idx) = Frontier s" "ReadPos (snapshot_step w s idx) = ReadPos s"
  using assms ranges_ok_extend [OF assms] ranges_ok_new [OF assms] ranges_ok_mono [OF assms, of "idx + 1"]
  by (auto simp: snapshot_step_def Let_def chunk_ready_def unread_def)

lemma window_snoc:
  fixes a b :: int
  shows "a \<le> b \<Longrightarrow> {i. a \<le> i \<and> i < b + 1 \<and> P i} = {i. a \<le> i \<and> i < b \<and> P i} \<union> (if P b then {b} else {})"
  by (auto simp: order_less_le)

lemma snapshot_fold:
  assumes "ranges_ok (Received s) a"
  shows "let r = foldl (snapshot_step w) s [a..a + int k - 1]
         in ranges_ok (Received r) (a + int k) \<and>
            covered (Received r) = covered (Received s) \<union> {i. a \<le> i \<and> i < a + int k \<and> chunk_ready w i} \<and>
            ReceivedBytes r = ReceivedBytes s + (\<Sum>i\<in>{a..<a + int k}. if chunk_ready w i then unread w i else 0) \<and>
            Frontier r = Frontier s \<and> ReadPos r = ReadPos s"
proof (induction k)
  case 0
  then show ?case using assms by auto
next
  case (Suc k)
  have u: "[a..a + int (Suc k) - 1] = [a..a + int k - 1] @ [a + int k]"
    using upto_rec2 [of a "a + int k"] by (simp add: add.commute)
  have i: "{a..<a + int (Suc k)} = insert (a + int k) {a..<a + int k}" by auto
  have j: "{i. a \<le> i \<and> i < a + int (Suc k) \<and> chunk_ready w i} =
      {i. a \<le> i \<and> i < a + int k \<and> chunk_ready w i} \<union> (if chunk_ready w (a + int k) then {a + int k} else {})"
    using window_snoc [of a "a + int k"] by (simp add: add.assoc add.commute [of 1])
  define r where "r = foldl (snapshot_step w) s [a..a + int k - 1]"
  have IH: "ranges_ok (Received r) (a + int k)" using Suc.IH by (simp add: r_def Let_def)
  have "foldl (snapshot_step w) s [a..a + int (Suc k) - 1] = snapshot_step w r (a + int k)"
    by (simp only: u foldl_append foldl.simps r_def)
  then show ?case unfolding Let_def i j
    using Suc.IH snapshot_step_spec [OF IH, of w] by (simp add: r_def [symmetric] Let_def add.assoc add.commute [of 1])
qed

lemma unread_pos:
  assumes "win_inv w" "frontier w \<le> idx" "idx < total w"
  shows "0 < unread w idx"
proof -
  have "0 \<le> idx" using frontier_bounds(1) [OF assms(1)] assms(2) by simp
  then show ?thesis
    using consumed_iff [OF assms(1) _ assms(3)] ChunkLen_pos [OF assms(1), of idx] assms(2) by (auto simp: unread_def)
qed

lemma unread_sum:
  assumes "win_inv w" "frontier w + int k \<le> total w" "readPos w < totalSize w"
  shows "(\<Sum>i\<in>{frontier w..<frontier w + int k}. unread w i) =
    (if k = 0 then 0 else min ((frontier w + int k) * chunkSize w) (totalSize w) - readPos w)"
  using assms(2)
proof (induction k)
  case 0
  then show ?case by simp
next
  case (Suc k)
  let ?j = "frontier w + int k"
  have fr: "frontier w = readPos w div chunkSize w" using assms(3) by (simp add: frontier_def)
  have i: "{frontier w..<frontier w + int (Suc k)} = insert ?j {frontier w..<?j}" by auto
  have j: "0 \<le> ?j" "?j < total w" using Suc.prems frontier_bounds(1) [OF assms(1)] by auto
  have low: "frontier w * chunkSize w \<le> readPos w"
    using int_le_div_iff [of "chunkSize w" "frontier w" "readPos w"] win_invD(1) [OF assms(1)] by (simp add: fr)
  have high: "readPos w < (frontier w + 1) * chunkSize w"
    using int_div_less_iff [of "chunkSize w" "readPos w" "frontier w + 1"] win_invD(1) [OF assms(1)] by (simp add: fr)
  have "?j * chunkSize w \<le> (total w - 1) * chunkSize w"
    using j(2) win_invD(1) [OF assms(1)] by (intro mult_right_mono) auto
  then have below: "?j * chunkSize w < totalSize w" using win_invD(6) [OF assms(1)] by linarith
  have e: "ChunkLen w ?j = min ((?j + 1) * chunkSize w) (totalSize w) - ?j * chunkSize w"
    using chunk_end [OF assms(1) j] by simp
  have "k \<noteq> 0 \<Longrightarrow> (frontier w + 1) * chunkSize w \<le> ?j * chunkSize w"
    using win_invD(1) [OF assms(1)] by (intro mult_right_mono) auto
  then have "unread w ?j = min ((?j + 1) * chunkSize w) (totalSize w) - (if k = 0 then readPos w else ?j * chunkSize w)"
    using low high unfolding unread_def e by (cases "k = 0") auto
  then show ?case using Suc.IH Suc.prems below unfolding i by (simp add: add.assoc add.commute [of 1])
qed

lemma unread_total:
  assumes "win_inv w"
  shows "(\<Sum>i\<in>{frontier w..<total w}. unread w i) = totalSize w - readPos w"
proof (cases "readPos w < totalSize w")
  case True
  have fr: "frontier w < total w" using frontier_bounds(3) [OF assms True] .
  define k where "k = nat (total w - frontier w)"
  with fr have k: "frontier w + int k = total w" "k \<noteq> 0" by simp_all
  show ?thesis using unread_sum [OF assms _ True, of k] k win_invD(7) [OF assms] by simp
next
  case False
  then show ?thesis using win_invD(5) [OF assms] by (simp add: frontier_def)
qed

lemma chunk_ready_window:
  assumes "win_inv w" "chunk_ready w idx"
  shows "frontier w \<le> idx" "idx < frontier w + slots w" "idx < total w"
  using win_inv_slot [OF assms(1) slot_index [OF assms(1)], of idx] assms(2)
  by (auto simp: slot_ok_def chunk_ready_def)

lemma WindowSnapshot_fold:
  assumes "win_inv w"
  shows "ranges_ok (Received (WindowSnapshot w)) (min (frontier w + slots w) (total w))"
    and "covered (Received (WindowSnapshot w)) = {i. 0 \<le> i \<and> (i < frontier w \<or> chunk_ready w i)}"
    and "ReceivedBytes (WindowSnapshot w) = readPos w + (\<Sum>i\<in>{frontier w..<total w}. if chunk_ready w i then unread w i else 0)"
    and "Frontier (WindowSnapshot w) = frontier w" "ReadPos (WindowSnapshot w) = readPos w"
proof -
  let ?fr = "frontier w" and ?b = "min (frontier w + slots w) (total w)"
  define k where "k = nat (?b - ?fr)"
  have k: "?fr + int k = ?b" using frontier_bounds(2) [OF assms] win_invD(3) [OF assms] by (simp add: k_def)
  let ?s = "\<lparr>Frontier = ?fr, ReadPos = readPos w, ReceivedBytes = readPos w,
      Received = (if ?fr > 0 then [(0, ?fr - 1)] else [])\<rparr>"
  have fr0: "0 \<le> ?fr" by (rule frontier_bounds(1) [OF assms])
  have ok: "ranges_ok (Received ?s) ?fr" by (simp add: ranges_ok_def)
  have c0: "covered (Received ?s) = {0..<?fr}" using fr0 by (auto simp: covered_def)
  have "WindowSnapshot w = foldl (snapshot_step w) ?s [?fr..?fr + int k - 1]"
    by (simp add: WindowSnapshot_def Let_def k)
  note fold = snapshot_fold [OF ok, of w k, folded this, unfolded Let_def k]
  have "(\<Sum>i\<in>{?fr..<?b}. if chunk_ready w i then unread w i else 0) =
      (\<Sum>i\<in>{?fr..<total w}. if chunk_ready w i then unread w i else 0)"
    using chunk_ready_window(2,3) [OF assms] by (intro sum.mono_neutral_left) auto
  with fold show "ReceivedBytes (WindowSnapshot w) =
      readPos w + (\<Sum>i\<in>{?fr..<total w}. if chunk_ready w i then unread w i else 0)" by simp
  show "covered (Received (WindowSnapshot w)) = {i. 0 \<le> i \<and> (i < ?fr \<or> chunk_ready w i)}"
    using fold c0 chunk_ready_window [OF assms] by (auto intro: order_trans [OF fr0])
  show "ranges_ok (Received (WindowSnapshot w)) ?b" "Frontier (WindowSnapshot w) = ?fr"
    "ReadPos (WindowSnapshot w) = readPos w"
    using fold by simp_all
qed

text \<open>The snapshot answers a resuming client exactly.  The inclusive ranges it reports are
  ascending, separated by gaps, and cover precisely the chunks before the frontier and the chunks
  that lie complete in the ring; the byte count is what the reader has consumed plus the unread
  bytes of the complete chunks, never exceeds the size of the file, and reaches it exactly when
  no chunk is missing.\<close>

theorem WindowSnapshot_correct:
  assumes "win_inv w"
  shows "(let snap = WindowSnapshot w
     in Frontier snap = frontier w \<and> ReadPos snap = readPos w \<and>
        sorted_wrt (\<lambda>p q. snd p + 1 < fst q) (Received snap) \<and>
        covered (Received snap) = {i. 0 \<le> i \<and> (i < frontier w \<or> chunk_ready w i)} \<and>
        ReceivedBytes snap = readPos w + (\<Sum>i | chunk_ready w i. unread w i) \<and>
        ReceivedBytes snap \<le> totalSize w \<and>
        (ReceivedBytes snap = totalSize w \<longleftrightarrow> covered (Received snap) = {0..<total w}))"
proof -
  let ?I = "{frontier w..<total w}" and ?g = "\<lambda>i. if chunk_ready w i then unread w i else 0"
  note f = WindowSnapshot_fold [OF assms]
  have ready: "{i. chunk_ready w i} = {i \<in> ?I. chunk_ready w i}" using chunk_ready_window [OF assms] by auto
  have sum: "(\<Sum>i | chunk_ready w i. unread w i) = sum ?g ?I" unfolding ready by (rule sum.inter_filter) simp
  have pos: "\<And>i. i \<in> ?I \<Longrightarrow> 0 < unread w i" using unread_pos [OF assms] by simp
  have le: "sum ?g ?I \<le> (\<Sum>i\<in>?I. unread w i)" using pos by (intro sum_mono) (auto simp: less_imp_le)
  have "sum ?g ?I = (\<Sum>i\<in>?I. unread w i) \<longleftrightarrow> (\<forall>i\<in>?I. chunk_ready w i)"
  proof -
    have "(\<Sum>i\<in>?I. unread w i - ?g i) = 0 \<longleftrightarrow> (\<forall>i\<in>?I. unread w i - ?g i = 0)"
      using pos by (intro sum_nonneg_eq_0_iff) (auto simp: less_imp_le)
    moreover have "(\<forall>i\<in>?I. unread w i - ?g i = 0) \<longleftrightarrow> (\<forall>i\<in>?I. chunk_ready w i)"
      using pos by (intro ball_cong) (simp_all, fastforce)
    ultimately show ?thesis unfolding sum_subtractf by auto
  qed
  moreover have "covered (Received (WindowSnapshot w)) = {0..<total w} \<longleftrightarrow> (\<forall>i\<in>?I. chunk_ready w i)"
  proof
    assume "covered (Received (WindowSnapshot w)) = {0..<total w}"
    then have c: "i \<in> covered (Received (WindowSnapshot w)) \<longleftrightarrow> 0 \<le> i \<and> i < total w" for i by simp
    have "i < frontier w \<or> chunk_ready w i" if "i \<in> ?I" for i
      using that frontier_bounds(1) [OF assms] c [of i] unfolding f(2) by simp
    then show "\<forall>i\<in>?I. chunk_ready w i" by (meson atLeastLessThan_iff not_le)
  next
    assume "\<forall>i\<in>?I. chunk_ready w i"
    then show "covered (Received (WindowSnapshot w)) = {0..<total w}"
      using frontier_bounds(1,2) [OF assms] chunk_ready_window(3) [OF assms] unfolding f(2)
      by (auto simp: not_less intro: less_le_trans)
  qed
  ultimately show ?thesis
    using f sum le unread_total [OF assms] by (auto simp: ranges_ok_def Let_def)
qed

text \<open>A window of two slots for ten bytes in chunks of four: chunk 1 has arrived, chunk 0 has not.\<close>

definition sample_window :: Window where
  "sample_window = \<lparr>chunkSize = 4, totalSize = 10, total = 3, slots = 2,
     slotState = [slotFree, slotReady], slotChunk = [-1, 1], readPos = 0,
     crcs = [0, 7, 0], crcSet = [False, True, False], err = None, file_open = True\<rparr>"

lemma sample_window_inv: "win_inv sample_window"
  by (simp add: win_inv_def win_shape_def slot_ok_def sample_window_def frontier_def All_less_Suc numeral_2_eq_2)

theorem WindowSnapshot_correct_witness:
  "win_inv sample_window \<and> Received (WindowSnapshot sample_window) = [(1, 1)] \<and>
   ReceivedBytes (WindowSnapshot sample_window) = 4 \<and> ReceivedBytes (WindowSnapshot sample_window) \<le> totalSize sample_window"
proof -
  have "Received (WindowSnapshot sample_window) = [(1, 1)]" "ReceivedBytes (WindowSnapshot sample_window) = 4"
    by code_simp+
  then show ?thesis
    using WindowSnapshot_correct [OF sample_window_inv] sample_window_inv by (simp add: Let_def)
qed

section \<open>Progress and idempotence\<close>

text \<open>The window cannot deadlock on flow control.  While the stream is open and unfinished, the
  chunk the reader waits for is either complete in the ring, in which case the reader gets bytes
  of it, or on its way in another request, which is what its sender is told, or it is admitted at
  once, however full the rest of the ring is.\<close>

theorem frontier_progress:
  assumes "win_inv w" "err w = None" "readPos w < totalSize w" "0 < plen"
  shows "(\<exists>n. Read_look w plen = ReadAt (frontier w) (frontier w mod slots w) n
              (frontier w mod slots w * chunkSize w + (readPos w - frontier w * chunkSize w)) \<and> 0 < n \<and> n \<le> plen) \<or>
    WriteChunk_admit w (frontier w) expired = (Return (Inl ErrChunkInFlight), w) \<or>
    fst (WriteChunk_admit w (frontier w) expired) = Admitted (frontier w mod slots w) (ChunkLen w (frontier w))"
proof -
  let ?f = "frontier w"
  have fr: "?f = readPos w div chunkSize w" using assms(3) by (simp add: frontier_def)
  have b: "0 \<le> ?f" "?f < total w" using frontier_bounds [OF assms(1)] assms(3) by auto
  then have left: "readPos w < ?f * chunkSize w + ChunkLen w ?f" using consumed_iff [OF assms(1) b] by simp
  define i where "i = nat (?f mod slots w)"
  have ok: "slot_ok w i" using win_inv_slot [OF assms(1) slot_index [OF assms(1)]] by (simp add: i_def)
  have "slotChunk w ! i = ?f" if "slotState w ! i \<noteq> slotFree"
    using that ok b win_invD(3) [OF assms(1)] window_slot_inj [of "slots w" ?f "slotChunk w ! i" ?f]
    by (simp add: slot_ok_def i_def)
  then consider "slotState w ! i = slotFree" "slotChunk w ! i = -1"
    | "slotState w ! i = slotFilling" "slotChunk w ! i = ?f" | "slotState w ! i = slotReady" "slotChunk w ! i = ?f"
    using ok by (cases "slotState w ! i") (auto simp: slot_ok_def)
  then show ?thesis
  proof cases
    case 3
    then show ?thesis using assms left by (auto simp: Read_look_def Let_def i_def fr)
  qed (use assms left b win_invD(3) [OF assms(1)] in \<open>auto simp: WriteChunk_admit_def Let_def i_def\<close>)
qed

theorem frontier_progress_witness:
  "win_inv sample_window \<and> fst (WriteChunk_admit sample_window 0 False) = Admitted 0 4"
proof -
  have "err sample_window = None" "readPos sample_window < totalSize sample_window" "frontier sample_window = 0"
    "Read_look sample_window 5 = ReadWait" "fst (WriteChunk_admit sample_window 0 False) \<noteq> Return (Inl ErrChunkInFlight)"
    "ChunkLen sample_window 0 = 4" "slots sample_window = 2"
    by code_simp+
  then show ?thesis
    using frontier_progress [OF sample_window_inv, of 5 False] sample_window_inv by auto
qed

text \<open>Sending a chunk again is harmless.  Once a chunk is complete in the ring or consumed, every
  further attempt to write it returns its recorded checksum at once and leaves the window as it is.\<close>

lemma WriteChunk_resend:
  assumes "win_inv w" "err w = None" "0 \<le> idx" "idx < total w" "chunk_ready w idx \<or> idx < frontier w"
  shows "WriteChunk_enter w idx = None \<and> WriteChunk_admit w idx expired = (Return (Inr (crcs w ! nat idx)), w)"
  using assms consumed_iff [OF assms(1,3,4)] by (auto simp: WriteChunk_enter_def WriteChunk_admit_def Let_def chunk_ready_def)

end
