(* ===== verification/Multipart_Stream.thy ===== *)
theory Multipart_Stream
  imports Multipart_Window
begin

unbundle bit_operations_syntax

text \<open>
  The receiving window at work: any number of \<open>WriteChunk\<close> calls and the one \<open>Read\<close>
  call of \<open>internal/multipart/window.go\<close> running concurrently.  A state holds the window,
  the bytes of the ring file, the calls in progress and what the reader has been given;
  a step is one critical section of the window, or the transfer of one byte between a
  request body, the ring file and the reader's buffer, which the code does without the
  mutex.  The theorems say that every interleaving hands the reader the chunks the
  senders were told are accepted, in order and unmixed.
\<close>

section \<open>The checksum\<close>

text \<open>CRC-32 with the IEEE polynomial, as \<open>hash/crc32\<close> computes it.\<close>

primrec crc_bits :: "nat \<Rightarrow> 32 word \<Rightarrow> 32 word" where
  "crc_bits 0 c = c"
| "crc_bits (Suc n) c = crc_bits n (if bit c 0 then drop_bit 1 c XOR 0xEDB88320 else drop_bit 1 c)"

definition ChecksumIEEE :: "string \<Rightarrow> 32 word" where
  "ChecksumIEEE bs = NOT (foldl (\<lambda>c b. crc_bits 8 (c XOR of_char b)) (NOT 0) bs)"

lemma ChecksumIEEE_check_value: "ChecksumIEEE ''a'' = 0xE8B7BE43"
  by code_simp

section \<open>Concurrent calls\<close>

text \<open>A \<open>WriteChunk\<close> call that owns a slot: the request body, and how many bytes of it are in the ring.\<close>

record Writer =
  wIdx :: int
  wSlot :: int
  wLen :: int64
  wDone :: nat
  wBody :: string

text \<open>A \<open>Read\<close> call between its two critical sections, with the bytes \<open>ReadAt\<close> has copied so far.\<close>

record Reader =
  rCur :: int
  rSlot :: int
  rN :: int64
  rOff :: int64
  rGot :: string

text \<open>
  \<open>delivered\<close> is the concatenation of everything \<open>Read\<close> has returned; \<open>accepted\<close> records,
  for every chunk some \<open>WriteChunk\<close> call reported as received, the content it had.  \<open>fd_open\<close> is the
  descriptor of the ring file: \<open>CloseWithError\<close> forgets the file under the lock and closes it only after the lock is given up,
  so that calls which have taken it may go on reading and writing in between.
\<close>

record Stream =
  win :: Window
  ring :: "int \<Rightarrow> char"
  fd_open :: bool
  writers :: "nat \<Rightarrow> Writer option"
  rdr :: "Reader option"
  delivered :: string
  accepted :: "int \<Rightarrow> string option"

definition stream_start :: "Stream \<Rightarrow> bool" where
  "stream_start s \<longleftrightarrow> (\<exists>cs ts n. NewWindow False cs ts n = NewWin (win s) \<and> ts + cs - 1 \<le> max_int64) \<and>
     fd_open s \<and> writers s = Map.empty \<and> rdr s = None \<and> delivered s = [] \<and> accepted s = Map.empty"

inductive stream_step :: "Stream \<Rightarrow> Stream \<Rightarrow> bool" where
  admit: "\<lbrakk>writers s t = None; WriteChunk_enter (win s) idx = None;
      WriteChunk_admit (win s) idx expired = (Admitted slot len, w')\<rbrakk> \<Longrightarrow>
    stream_step s (s\<lparr>win := w', writers := (writers s)(t \<mapsto>
      \<lparr>wIdx = idx, wSlot = slot, wLen = len, wDone = 0, wBody = body\<rparr>)\<rparr>)"
| copy: "\<lbrakk>writers s t = Some c; int (wDone c) < wLen c; wDone c < length (wBody c); fd_open s\<rbrakk> \<Longrightarrow>
    stream_step s (s\<lparr>ring := (ring s)(wSlot c * chunkSize (win s) + int (wDone c) := wBody c ! wDone c),
      writers := (writers s)(t \<mapsto> c\<lparr>wDone := Suc (wDone c)\<rparr>)\<rparr>)"
| finish: "\<lbrakk>writers s t = Some c;
      WriteChunk_finish (win s) (wIdx c) (wSlot c)
        (WriteChunk_copied (int (wDone c) < wLen c) (wLen c < int (length (wBody c))))
        (ChecksumIEEE (take (wDone c) (wBody c))) = (r, w')\<rbrakk> \<Longrightarrow>
    stream_step s (s\<lparr>win := w', writers := (writers s)(t := None),
      accepted := (case r of Inl _ \<Rightarrow> accepted s
                   | Inr _ \<Rightarrow> (accepted s)(wIdx c \<mapsto> take (wDone c) (wBody c)))\<rparr>)"
| look: "\<lbrakk>rdr s = None; 0 < plen; Read_look (win s) plen = ReadAt cur slot n off\<rbrakk> \<Longrightarrow>
    stream_step s (s\<lparr>rdr := Some \<lparr>rCur = cur, rSlot = slot, rN = n, rOff = off, rGot = []\<rparr>\<rparr>)"
| fetch: "\<lbrakk>rdr s = Some r; int (length (rGot r)) < rN r; fd_open s\<rbrakk> \<Longrightarrow>
    stream_step s (s\<lparr>rdr := Some (r\<lparr>rGot := rGot r @ [ring s (rOff r + int (length (rGot r)))]\<rparr>)\<rparr>)"
| commit: "\<lbrakk>rdr s = Some r; Read_commit (win s) (rCur r) (rSlot r) (int (length (rGot r))) fe = (res, w')\<rbrakk> \<Longrightarrow>
    stream_step s (s\<lparr>win := w', rdr := None, delivered := delivered s @ rGot r\<rparr>)"
| close: "stream_step s (s\<lparr>win := CloseWithError (win s) e\<rparr>)"
| close_file: "\<not> file_open (win s) \<Longrightarrow> stream_step s (s\<lparr>fd_open := False\<rparr>)"

section \<open>The invariant\<close>

text \<open>Slot \<open>i\<close> of the ring starts with the bytes of \<open>c\<close>.\<close>

definition slot_holds :: "(int \<Rightarrow> char) \<Rightarrow> int64 \<Rightarrow> int \<Rightarrow> string \<Rightarrow> bool" where
  "slot_holds rg cs i c \<longleftrightarrow> (\<forall>k < length c. rg (i * cs + int k) = c ! k)"

text \<open>A call that owns a slot has put the first bytes of its body there, and nobody else writes there.\<close>

definition writer_ok :: "Stream \<Rightarrow> Writer \<Rightarrow> bool" where
  "writer_ok s c \<longleftrightarrow> 0 \<le> wIdx c \<and> wIdx c < total (win s) \<and> wSlot c = wIdx c mod slots (win s) \<and>
     wLen c = ChunkLen (win s) (wIdx c) \<and> int (wDone c) \<le> wLen c \<and> wDone c \<le> length (wBody c) \<and>
     slot_holds (ring s) (chunkSize (win s)) (wSlot c) (take (wDone c) (wBody c)) \<and>
     (err (win s) = None \<longrightarrow> slotState (win s) ! nat (wSlot c) = slotFilling \<and> slotChunk (win s) ! nat (wSlot c) = wIdx c)"

text \<open>A reader between its critical sections owns the slot of the frontier, whether or not the window is closed meanwhile.\<close>

definition reader_ok :: "Stream \<Rightarrow> Reader \<Rightarrow> bool" where
  "reader_ok s r \<longleftrightarrow> (let w = win s; start = rCur r * chunkSize w in
     readPos w < totalSize w \<and> rCur r = frontier w \<and> rSlot r = rCur r mod slots w \<and>
     rOff r = rSlot r * chunkSize w + (readPos w - start) \<and> readPos w + rN r \<le> start + ChunkLen w (rCur r) \<and>
     int (length (rGot r)) \<le> rN r \<and>
     (err w = None \<longrightarrow> chunk_ready w (rCur r)) \<and>
     (\<forall>t c. writers s t = Some c \<longrightarrow> wSlot c \<noteq> rSlot r) \<and>
     (\<exists>c. accepted s (rCur r) = Some c \<and> slot_holds (ring s) (chunkSize w) (rSlot r) c \<and>
          rGot r = take (length (rGot r)) (drop (nat (readPos w - start)) c)))"

definition accepted_ok :: "Stream \<Rightarrow> bool" where
  "accepted_ok s \<longleftrightarrow> (\<forall>idx c. accepted s idx = Some c \<longrightarrow>
     0 \<le> idx \<and> idx < total (win s) \<and> int (length c) = ChunkLen (win s) idx \<and>
     crcSet (win s) ! nat idx \<and> crcs (win s) ! nat idx = ChecksumIEEE c \<and>
     (err (win s) = None \<longrightarrow> idx < frontier (win s) \<or> chunk_ready (win s) idx))"

definition ready_ok :: "Stream \<Rightarrow> bool" where
  "ready_ok s \<longleftrightarrow> (\<forall>idx. chunk_ready (win s) idx \<longrightarrow>
     (\<exists>c. accepted s idx = Some c \<and> slot_holds (ring s) (chunkSize (win s)) (idx mod slots (win s)) c))"

definition delivered_ok :: "Stream \<Rightarrow> bool" where
  "delivered_ok s \<longleftrightarrow> int (length (delivered s)) = readPos (win s) \<and>
     (\<forall>k < length (delivered s). \<exists>c. accepted s (int k div chunkSize (win s)) = Some c \<and>
        delivered s ! k = c ! nat (int k mod chunkSize (win s)))"

definition stream_inv :: "Stream \<Rightarrow> bool" where
  "stream_inv s \<longleftrightarrow> win_inv (win s) \<and>
     (\<forall>t c. writers s t = Some c \<longrightarrow> writer_ok s c) \<and>
     (\<forall>t c t' c'. writers s t = Some c \<longrightarrow> writers s t' = Some c' \<longrightarrow> t \<noteq> t' \<longrightarrow> wSlot c \<noteq> wSlot c') \<and>
     (\<forall>r. rdr s = Some r \<longrightarrow> reader_ok s r) \<and>
     accepted_ok s \<and> ready_ok s \<and> delivered_ok s"

lemma stream_invD:
  assumes "stream_inv s"
  shows "win_inv (win s)" "accepted_ok s" "ready_ok s" "delivered_ok s"
    and "writers s t = Some c \<Longrightarrow> writer_ok s c"
    and "writers s t = Some c \<Longrightarrow> writers s t' = Some c' \<Longrightarrow> t \<noteq> t' \<Longrightarrow> wSlot c \<noteq> wSlot c'"
    and "rdr s = Some r \<Longrightarrow> reader_ok s r"
  using assms by (auto simp: stream_inv_def)

lemma accepted_okD:
  assumes "accepted_ok s" "accepted s idx = Some c"
  shows "0 \<le> idx" "idx < total (win s)" "int (length c) = ChunkLen (win s) idx" "crcSet (win s) ! nat idx"
    and "crcs (win s) ! nat idx = ChecksumIEEE c"
    and "err (win s) = None \<Longrightarrow> idx < frontier (win s) \<or> chunk_ready (win s) idx"
  using assms unfolding accepted_ok_def by blast+

lemma reader_okD:
  assumes "reader_ok s r"
  shows "readPos (win s) < totalSize (win s)" "rCur r = frontier (win s)" "rSlot r = rCur r mod slots (win s)"
    and "rOff r = rSlot r * chunkSize (win s) + (readPos (win s) - rCur r * chunkSize (win s))"
    and "readPos (win s) + rN r \<le> rCur r * chunkSize (win s) + ChunkLen (win s) (rCur r)"
    and "int (length (rGot r)) \<le> rN r" "err (win s) = None \<Longrightarrow> chunk_ready (win s) (rCur r)"
    and "writers s t = Some d \<Longrightarrow> wSlot d \<noteq> rSlot r"
  using assms unfolding reader_ok_def Let_def by blast+

lemma reader_ok_holds:
  assumes "reader_ok s r"
  obtains c where "accepted s (rCur r) = Some c" "slot_holds (ring s) (chunkSize (win s)) (rSlot r) c"
    "rGot r = take (length (rGot r)) (drop (nat (readPos (win s) - rCur r * chunkSize (win s))) c)"
  using assms unfolding reader_ok_def Let_def by blast

text \<open>Distinct slots are disjoint stretches of the ring file.\<close>

lemma region_inj:
  assumes "i * cs + k = j * cs + l" "0 \<le> k" "k < cs" "0 \<le> l" "l < (cs :: int)"
  shows "i = j" "k = l"
proof -
  have "(k + i * cs) div cs = (l + j * cs) div cs" using assms(1) by (simp add: add.commute)
  then show "i = j" using assms by simp
  with assms(1) show "k = l" by simp
qed

lemma slot_holds_other:
  assumes "slot_holds rg cs i c" "i \<noteq> j" "0 \<le> k" "k < cs" "int (length c) \<le> cs"
  shows "slot_holds (rg(j * cs + k := b)) cs i c"
  using assms region_inj(1) [of i cs _ j k] by (fastforce simp: slot_holds_def)

lemma NewWindow_slots:
  "NewWindow ioErr cs ts n = NewWin w \<Longrightarrow> slotState w = replicate (nat n) slotFree \<and> slots w = n"
  by (auto simp: NewWindow_def Let_def split: if_splits)

lemma stream_start_inv: "stream_start s \<Longrightarrow> stream_inv s"
proof -
  assume s: "stream_start s"
  then obtain cs ts n where w: "NewWindow False cs ts n = NewWin (win s)" "ts + cs - 1 \<le> max_int64"
    by (auto simp: stream_start_def)
  note inv = NewWindow_inv [OF w]
  have "\<not> chunk_ready (win s) idx" for idx
    using slot_index [of "win s" idx] inv NewWindow_slots [OF w(1)] by (auto simp: chunk_ready_def)
  then show ?thesis using s inv
    by (simp add: stream_start_def stream_inv_def accepted_ok_def ready_ok_def delivered_ok_def)
qed

section \<open>Effects of the critical sections\<close>

lemma ChunkLen_upd [simp]:
  "ChunkLen (w\<lparr>slotState := a\<rparr>) = ChunkLen w" "ChunkLen (w\<lparr>slotChunk := b\<rparr>) = ChunkLen w"
  "ChunkLen (w\<lparr>readPos := p\<rparr>) = ChunkLen w" "ChunkLen (w\<lparr>crcs := c\<rparr>) = ChunkLen w"
  "ChunkLen (w\<lparr>crcSet := d\<rparr>) = ChunkLen w" "ChunkLen (w\<lparr>err := e\<rparr>) = ChunkLen w"
  "ChunkLen (w\<lparr>file_open := f\<rparr>) = ChunkLen w"
  by (auto simp: ChunkLen_def fun_eq_iff)

lemma frontier_upd [simp]:
  "frontier (w\<lparr>slotState := a\<rparr>) = frontier w" "frontier (w\<lparr>slotChunk := b\<rparr>) = frontier w"
  "frontier (w\<lparr>crcs := c\<rparr>) = frontier w" "frontier (w\<lparr>crcSet := d\<rparr>) = frontier w"
  "frontier (w\<lparr>err := e\<rparr>) = frontier w" "frontier (w\<lparr>file_open := f\<rparr>) = frontier w"
  by (auto simp: frontier_def)

lemma admittedD:
  assumes "WriteChunk_admit w idx expired = (Admitted slot len, w')"
  shows "err w = None" "slot = idx mod slots w" "len = ChunkLen w idx" "slotState w ! nat slot = slotFree"
    and "w' = w\<lparr>slotState := (slotState w)[nat slot := slotFilling], slotChunk := (slotChunk w)[nat slot := idx]\<rparr>"
  using assms by (auto simp: WriteChunk_admit_def Let_def split: option.splits if_splits)

lemma enterD: "WriteChunk_enter w idx = None \<Longrightarrow> err w = None \<and> 0 \<le> idx \<and> idx < total w"
  by (auto simp: WriteChunk_enter_def split: option.splits if_splits)

text \<open>Changing a slot that is not ready, to a state that is not ready, leaves the set of ready chunks alone.\<close>

lemma chunk_ready_other:
  assumes "win_inv w" "i < nat (slots w)" "slotState w ! i \<noteq> slotReady" "x \<noteq> slotReady"
  shows "chunk_ready (w\<lparr>slotState := (slotState w)[i := x], slotChunk := (slotChunk w)[i := y]\<rparr>) idx = chunk_ready w idx"
  using assms slot_index [OF assms(1), of idx] by (auto simp: chunk_ready_def slot_nth [OF assms(1)])

lemma nat_mod_eq:
  assumes "0 < (n :: int)"
  shows "nat (a mod n) = nat (b mod n) \<longleftrightarrow> a mod n = b mod n"
  using assms pos_mod_sign [of n a] pos_mod_sign [of n b] by (auto simp: eq_nat_nat_iff)

lemma writer_slot:
  assumes "stream_inv s" "writers s t = Some c"
  shows "0 \<le> wSlot c" "nat (wSlot c) < nat (slots (win s))"
  using stream_invD(5) [OF assms] slot_index [OF stream_invD(1) [OF assms(1)], of "wIdx c"]
    win_invD(3) [OF stream_invD(1) [OF assms(1)]] by (auto simp: writer_ok_def)

lemma admit_inv:
  assumes "stream_inv s" "writers s t = None" "WriteChunk_enter (win s) idx = None"
    and "WriteChunk_admit (win s) idx expired = (Admitted slot len, w')"
  shows "stream_inv (s\<lparr>win := w', writers := (writers s)(t \<mapsto>
      \<lparr>wIdx = idx, wSlot = slot, wLen = len, wDone = 0, wBody = body\<rparr>)\<rparr>)" (is "stream_inv ?s")
proof -
  note I = stream_invD [OF assms(1)] and a = admittedD [OF assms(4)] and e = enterD [OF assms(3)]
  have i: "nat slot < nat (slots (win s))" "0 \<le> slot"
    using slot_index [OF I(1)] win_invD(3) [OF I(1)] a(2) by auto
  have w': "win_inv w'" using WriteChunk_admit_inv [OF I(1), of idx expired] e assms(4) by simp
  have rdy: "chunk_ready w' = chunk_ready (win s)"
    using chunk_ready_other [OF I(1) i(1)] a(4,5) by (auto simp: fun_eq_iff)
  have other: "wSlot c \<noteq> slot" if "writers s u = Some c" for u c
    using I(5) [OF that] a(1,4) by (auto simp: writer_ok_def)
  have "writer_ok ?s c" if c: "writers s u = Some c" for u c
    using I(5) [OF c] other [OF c] i writer_slot [OF assms(1) c] unfolding writer_ok_def
    by (auto simp: a(5) slot_nth [OF I(1)] eq_nat_nat_iff)
  moreover have "writer_ok ?s \<lparr>wIdx = idx, wSlot = slot, wLen = len, wDone = 0, wBody = body\<rparr>"
    using e a i ChunkLen_pos [OF I(1), of idx] by (simp add: writer_ok_def slot_holds_def slot_nth [OF I(1)] win_invD(8,9) [OF I(1)])
  moreover have "reader_ok ?s r" if "rdr s = Some r" for r
  proof -
    have r: "reader_ok s r" using I(7) [OF that] .
    then have "rSlot r \<noteq> slot" using a(1,4) by (auto simp: reader_ok_def chunk_ready_def Let_def)
    then show ?thesis using r rdy by (auto simp: reader_ok_def Let_def a(5))
  qed
  moreover have "accepted_ok ?s" "ready_ok ?s" "delivered_ok ?s"
    using I(2-4) rdy by (auto simp: accepted_ok_def ready_ok_def delivered_ok_def a(5))
  ultimately show ?thesis using I(6) w' other other [symmetric] unfolding stream_inv_def by (auto split: if_splits)
qed

lemma ready_not_owned:
  assumes "stream_inv s" "writers s t = Some c" "chunk_ready (win s) idx"
  shows "idx mod slots (win s) \<noteq> wSlot c"
proof
  assume eq: "idx mod slots (win s) = wSlot c"
  have r: "slotState (win s) ! nat (wSlot c) = slotReady" using assms(3) eq by (simp add: chunk_ready_def)
  then have "err (win s) = None"
    using win_inv_slot [OF stream_invD(1) [OF assms(1)] writer_slot(2) [OF assms(1,2)]] by (simp add: slot_ok_def)
  with stream_invD(5) [OF assms(1,2)] have "slotState (win s) ! nat (wSlot c) = slotFilling"
    unfolding writer_ok_def by blast
  with r show False by simp
qed

lemma copy_inv:
  assumes "stream_inv s" "writers s t = Some c" "int (wDone c) < wLen c" "wDone c < length (wBody c)"
  shows "stream_inv (s\<lparr>ring := (ring s)(wSlot c * chunkSize (win s) + int (wDone c) := wBody c ! wDone c),
      writers := (writers s)(t \<mapsto> c\<lparr>wDone := Suc (wDone c)\<rparr>)\<rparr>)" (is "stream_inv ?s")
proof -
  note I = stream_invD [OF assms(1)]
  let ?cs = "chunkSize (win s)"
  have c: "writer_ok s c" by (rule I(5) [OF assms(2)])
  then have k: "int (wDone c) < ?cs" using assms(3) ChunkLen_le [OF I(1), of "wIdx c"] by (simp add: writer_ok_def)
  have keep: "slot_holds (ring ?s) ?cs i x" if "slot_holds (ring s) ?cs i x" "i \<noteq> wSlot c" "int (length x) \<le> ?cs" for i x
    using slot_holds_other [OF that(1,2) _ k that(3)] by simp
  have acc_len: "int (length x) \<le> ?cs" if "accepted s idx = Some x" for idx x
    using that I(2) ChunkLen_le [OF I(1), of idx] by (auto simp: accepted_ok_def)
  have "writer_ok ?s d" if d: "writers s u = Some d" "u \<noteq> t" for u d
  proof -
    have "int (length (take (wDone d) (wBody d))) \<le> ?cs"
      using I(5) [OF d(1)] ChunkLen_le [OF I(1), of "wIdx d"] by (simp add: writer_ok_def)
    with I(5) [OF d(1)] I(6) [OF d(1) assms(2) d(2)]
    have "slot_holds (ring ?s) ?cs (wSlot d) (take (wDone d) (wBody d))" by (intro keep) (auto simp: writer_ok_def)
    then show ?thesis using I(5) [OF d(1)] by (auto simp: writer_ok_def)
  qed
  moreover have "writer_ok ?s (c\<lparr>wDone := Suc (wDone c)\<rparr>)"
  proof -
    have "slot_holds (ring ?s) ?cs (wSlot c) (take (Suc (wDone c)) (wBody c))"
      using c assms(4) by (auto simp: slot_holds_def writer_ok_def less_Suc_eq)
    then show ?thesis using c assms(3,4) by (auto simp: writer_ok_def)
  qed
  moreover have "reader_ok ?s r" if "rdr s = Some r" for r
  proof -
    have r: "reader_ok s r" using I(7) [OF that] .
    obtain x where x: "accepted s (rCur r) = Some x" "slot_holds (ring s) ?cs (rSlot r) x"
        "rGot r = take (length (rGot r)) (drop (nat (readPos (win s) - rCur r * ?cs)) x)"
      by (rule reader_ok_holds [OF r])
    have ne: "rSlot r \<noteq> wSlot c" using reader_okD(8) [OF r assms(2)] by simp
    have "slot_holds (ring ?s) ?cs (rSlot r) x" using keep [OF x(2) ne acc_len [OF x(1)]] .
    then show ?thesis using reader_okD [OF r] x(1,3) ne unfolding reader_ok_def Let_def
      by (simp split: if_splits)
  qed
  moreover have "ready_ok ?s"
  proof -
    have "\<exists>x. accepted s idx = Some x \<and> slot_holds (ring ?s) ?cs (idx mod slots (win s)) x"
      if rdy: "chunk_ready (win s) idx" for idx
    proof -
      obtain x where x: "accepted s idx = Some x" "slot_holds (ring s) ?cs (idx mod slots (win s)) x"
        using I(3) rdy unfolding ready_ok_def by blast
      have "idx mod slots (win s) \<noteq> wSlot c" using ready_not_owned [OF assms(1,2) rdy] .
      then show ?thesis using x(1) keep [OF x(2) _ acc_len [OF x(1)]] by blast
    qed
    then show ?thesis by (simp add: ready_ok_def)
  qed
  moreover have "accepted_ok ?s" "delivered_ok ?s"
    using I(2,4) by (auto simp: accepted_ok_def delivered_ok_def)
  ultimately show ?thesis using I(1,6) assms(2) unfolding stream_inv_def by (auto split: if_splits)
qed

lemma look_inv:
  assumes "stream_inv s" "rdr s = None" "Read_look (win s) plen = ReadAt cur slot n off" "0 < plen"
  shows "stream_inv (s\<lparr>rdr := Some \<lparr>rCur = cur, rSlot = slot, rN = n, rOff = off, rGot = []\<rparr>\<rparr>)" (is "stream_inv ?s")
proof -
  note I = stream_invD [OF assms(1)]
  let ?w = "win s"
  from assms(3) have l: "err ?w = None" "readPos ?w < totalSize ?w" "cur = frontier ?w" "slot = cur mod slots ?w"
      "chunk_ready ?w cur" "off = slot * chunkSize ?w + (readPos ?w - cur * chunkSize ?w)"
      "readPos ?w + n \<le> cur * chunkSize ?w + ChunkLen ?w cur" "0 \<le> n"
    using consumed_iff [OF I(1), of cur] frontier_bounds [OF I(1)] assms(4)
    by (auto simp: Read_look_def Let_def chunk_ready_def frontier_def split: option.splits if_splits)
  have "wSlot c \<noteq> slot" if "writers s t = Some c" for t c
    using I(5) [OF that] l(1,4,5) by (auto simp: writer_ok_def chunk_ready_def)
  moreover obtain c where "accepted s cur = Some c" "slot_holds (ring s) (chunkSize ?w) slot c"
    using I(3) l(4,5) by (auto simp: ready_ok_def)
  ultimately have "reader_ok ?s \<lparr>rCur = cur, rSlot = slot, rN = n, rOff = off, rGot = []\<rparr>"
    using l by (auto simp: reader_ok_def Let_def)
  moreover have "writer_ok ?s c = writer_ok s c" for c by (simp add: writer_ok_def)
  moreover have "accepted_ok ?s" "ready_ok ?s" "delivered_ok ?s"
    using I(2-4) by (auto simp: accepted_ok_def ready_ok_def delivered_ok_def)
  ultimately show ?thesis using I(1,5,6) unfolding stream_inv_def by auto
qed

lemma fetch_inv:
  assumes "stream_inv s" "rdr s = Some r" "int (length (rGot r)) < rN r"
  shows "stream_inv (s\<lparr>rdr := Some (r\<lparr>rGot := rGot r @ [ring s (rOff r + int (length (rGot r)))]\<rparr>)\<rparr>)"
    (is "stream_inv ?s")
proof -
  note I = stream_invD [OF assms(1)]
  let ?w = "win s" and ?k = "length (rGot r)"
  have r: "reader_ok s r" by (rule I(7) [OF assms(2)])
  obtain c where c: "accepted s (rCur r) = Some c" "slot_holds (ring s) (chunkSize ?w) (rSlot r) c"
      "rGot r = take ?k (drop (nat (readPos ?w - rCur r * chunkSize ?w)) c)"
    by (rule reader_ok_holds [OF r])
  define d where "d = nat (readPos ?w - rCur r * chunkSize ?w)"
  have "rCur r * chunkSize ?w \<le> readPos ?w"
    using r int_le_div_iff [of "chunkSize ?w" "rCur r" "readPos ?w"] win_invD(1) [OF I(1)]
    by (simp add: reader_ok_def Let_def frontier_def)
  then have d: "int d = readPos ?w - rCur r * chunkSize ?w" by (simp add: d_def)
  have "int (length c) = ChunkLen ?w (rCur r)" using c(1) I(2) by (auto simp: accepted_ok_def)
  then have "d + ?k < length c" using reader_okD(5) [OF r] assms(3) d by linarith
  then have "rGot r @ [ring s (rOff r + int ?k)] = take (Suc ?k) (drop d c)"
    using c(2) c(3) [folded d_def] r d by (auto simp: slot_holds_def reader_ok_def Let_def take_Suc_conv_app_nth add.assoc)
  moreover define g where "g = rGot r @ [ring s (rOff r + int ?k)]"
  ultimately have "take (length g) (drop d c) = g" by (metis length_append_singleton)
  moreover have "int (length g) \<le> rN r" using assms(3) by (simp add: g_def)
  ultimately have "reader_ok ?s (r\<lparr>rGot := g\<rparr>)"
    using reader_okD [OF r] c(1,2) unfolding reader_ok_def Let_def d_def by simp
  moreover have "writer_ok ?s c = writer_ok s c" for c by (simp add: writer_ok_def)
  moreover have "accepted_ok ?s" "ready_ok ?s" "delivered_ok ?s"
    using I(2-4) by (auto simp: accepted_ok_def ready_ok_def delivered_ok_def)
  ultimately show ?thesis using I(1,5,6) unfolding stream_inv_def g_def by auto
qed

lemma close_inv:
  assumes "stream_inv s"
  shows "stream_inv (s\<lparr>win := CloseWithError (win s) e\<rparr>)" (is "stream_inv ?s")
proof -
  note I = stream_invD [OF assms]
  have e: "err (win ?s) \<noteq> None" by (cases "err (win s)") (simp_all add: CloseWithError_def)
  have rdy: "\<not> chunk_ready (win ?s) idx" for idx
    using slot_index [OF I(1), of idx] win_invD(8) [OF I(1)] by (simp add: chunk_ready_def CloseWithError_def)
  have same: "frontier (win ?s) = frontier (win s)" "ChunkLen (win ?s) = ChunkLen (win s)" "readPos (win ?s) = readPos (win s)"
      "chunkSize (win ?s) = chunkSize (win s)" "slots (win ?s) = slots (win s)" "total (win ?s) = total (win s)"
      "totalSize (win ?s) = totalSize (win s)" "crcs (win ?s) = crcs (win s)" "crcSet (win ?s) = crcSet (win s)"
    by (simp_all add: CloseWithError_def)
  note same' = same [simplified]
  have "writer_ok ?s c" if "writer_ok s c" for c using that e by (auto simp: writer_ok_def same')
  moreover have "reader_ok ?s r" if "reader_ok s r" for r using that e by (auto simp: reader_ok_def Let_def same')
  moreover have "accepted_ok ?s" "ready_ok ?s" "delivered_ok ?s"
    using I(2-4) e rdy by (auto simp: accepted_ok_def ready_ok_def delivered_ok_def same')
  ultimately show ?thesis using I CloseWithError_inv [OF I(1)] unfolding stream_inv_def by auto
qed

text \<open>The end of a transfer: nothing happens in a closed window, otherwise the slot is freed or becomes ready.\<close>

lemma finish_cases:
  assumes "win_inv w" "i = nat (idx mod slots w)"
    and "err w = None \<Longrightarrow> slotState w ! i = slotFilling \<and> slotChunk w ! i = idx"
    and "WriteChunk_finish w idx (idx mod slots w) ce crc = (r, w')"
  obtains (closed) e where "err w \<noteq> None" "r = Inl e" "w' = w"
    | (failed) e where "err w = None" "r = Inl e"
        "w' = w\<lparr>slotState := (slotState w)[i := slotFree], slotChunk := (slotChunk w)[i := -1]\<rparr>"
    | (accept) "err w = None" "ce = None" "r = Inr crc"
        "w' = w\<lparr>slotState := (slotState w)[i := slotReady], crcs := (crcs w)[nat idx := crc], crcSet := (crcSet w)[nat idx := True]\<rparr>"
proof (cases "err w")
  case None
  then show thesis using that(2,3) assms(2,4) assms(3) [OF None]
    by (auto simp: WriteChunk_finish_def Let_def split: option.splits)
next
  case (Some e)
  then have "slotState w ! i \<noteq> slotFilling"
    using win_inv_slot [OF assms(1) slot_index [OF assms(1)], of idx] assms(2) by (auto simp: slot_ok_def)
  then show thesis using that(1) Some assms(2,4) by (auto simp: WriteChunk_finish_def Let_def)
qed

lemma filling_not_accepted:
  assumes "stream_inv s" "writers s t = Some c" "err (win s) = None"
  shows "accepted s (wIdx c) = None" "frontier (win s) \<le> wIdx c"
proof -
  note I = stream_invD [OF assms(1)]
  have f: "slotState (win s) ! nat (wIdx c mod slots (win s)) = slotFilling" "slotChunk (win s) ! nat (wIdx c mod slots (win s)) = wIdx c"
    using I(5) [OF assms(2)] assms(3) by (auto simp: writer_ok_def)
  then show "frontier (win s) \<le> wIdx c"
    using win_inv_slot [OF I(1) slot_index [OF I(1)], of "wIdx c"] by (simp add: slot_ok_def)
  then show "accepted s (wIdx c) = None"
    using accepted_okD(6) [OF I(2), of "wIdx c"] f(1) assms(3)
    by (cases "accepted s (wIdx c)") (auto simp: chunk_ready_def)
qed

text \<open>A call that leaves without success changes at most its own slot.\<close>

lemma drop_writer_inv:
  assumes "stream_inv s" "writers s t = Some c"
    and "w' = win s \<or> w' = (win s)\<lparr>slotState := (slotState (win s))[nat (wSlot c) := slotFree],
           slotChunk := (slotChunk (win s))[nat (wSlot c) := -1]\<rparr> \<and> err (win s) = None"
    and "win_inv w'"
  shows "stream_inv (s\<lparr>win := w', writers := (writers s)(t := None)\<rparr>)" (is "stream_inv ?s")
proof -
  note I = stream_invD [OF assms(1)]
  let ?i = "nat (wSlot c)"
  have i: "?i < nat (slots (win s))" "0 \<le> wSlot c" using writer_slot [OF assms(1,2)] by auto
  have rdy: "chunk_ready w' = chunk_ready (win s)"
    using assms(3) chunk_ready_other [OF I(1) i(1), of slotFree "-1"] I(5) [OF assms(2)]
    by (auto simp: fun_eq_iff writer_ok_def)
  have same: "frontier w' = frontier (win s)" "ChunkLen w' = ChunkLen (win s)" "readPos w' = readPos (win s)"
      "chunkSize w' = chunkSize (win s)" "slots w' = slots (win s)" "total w' = total (win s)"
      "totalSize w' = totalSize (win s)" "crcs w' = crcs (win s)" "crcSet w' = crcSet (win s)" "err w' = err (win s)"
    using assms(3) by auto
  have "writer_ok ?s d" if d: "writers s u = Some d" "u \<noteq> t" for u d
  proof -
    have "wSlot d \<noteq> wSlot c" using I(6) [OF d(1) assms(2) d(2)] .
    then have "slotState w' ! nat (wSlot d) = slotState (win s) ! nat (wSlot d)" "slotChunk w' ! nat (wSlot d) = slotChunk (win s) ! nat (wSlot d)"
      using assms(3) i writer_slot [OF assms(1) d(1)] by (auto simp: slot_nth [OF I(1)] eq_nat_nat_iff)
    then show ?thesis using I(5) [OF d(1)] unfolding writer_ok_def by (auto simp: same)
  qed
  moreover have "reader_ok ?s r" if "rdr s = Some r" for r
  proof -
    have r: "reader_ok s r" using I(7) [OF that] .
    obtain x where x: "accepted s (rCur r) = Some x" "slot_holds (ring s) (chunkSize (win s)) (rSlot r) x"
        "rGot r = take (length (rGot r)) (drop (nat (readPos (win s) - rCur r * chunkSize (win s))) x)"
      by (rule reader_ok_holds [OF r])
    show ?thesis using reader_okD [OF r] x unfolding reader_ok_def Let_def by (simp add: same rdy)
  qed
  moreover have "accepted_ok ?s" "ready_ok ?s" "delivered_ok ?s"
    using I(2-4) by (simp_all add: accepted_ok_def ready_ok_def delivered_ok_def same rdy)
  ultimately show ?thesis using I(6) assms(4) unfolding stream_inv_def by (auto split: if_splits)
qed

text \<open>A successful call makes its chunk ready, with the checksum of the bytes in the ring.\<close>

lemma accept_inv:
  assumes "stream_inv s" "writers s t = Some c" "err (win s) = None" "int (wDone c) = wLen c" "wDone c = length (wBody c)"
    and "w' = (win s)\<lparr>slotState := (slotState (win s))[nat (wSlot c) := slotReady],
           crcs := (crcs (win s))[nat (wIdx c) := ChecksumIEEE (wBody c)], crcSet := (crcSet (win s))[nat (wIdx c) := True]\<rparr>"
    and "win_inv w'"
  shows "stream_inv (s\<lparr>win := w', writers := (writers s)(t := None), accepted := (accepted s)(wIdx c \<mapsto> wBody c)\<rparr>)"
    (is "stream_inv ?s")
proof -
  note I = stream_invD [OF assms(1)]
  have c: "writer_ok s c" by (rule I(5) [OF assms(2)])
  then have cI: "0 \<le> wIdx c" "wIdx c < total (win s)" "wSlot c = wIdx c mod slots (win s)"
      "wLen c = ChunkLen (win s) (wIdx c)" "slot_holds (ring s) (chunkSize (win s)) (wSlot c) (wBody c)"
      "slotState (win s) ! nat (wSlot c) = slotFilling" "slotChunk (win s) ! nat (wSlot c) = wIdx c"
    using assms(3,5) by (auto simp: writer_ok_def)
  have i: "nat (wSlot c) < nat (slots (win s))" "0 \<le> wSlot c" using writer_slot [OF assms(1,2)] by auto
  have na: "accepted s (wIdx c) = None" using filling_not_accepted(1) [OF assms(1-3)] .
  have same: "frontier w' = frontier (win s)" "ChunkLen w' = ChunkLen (win s)" "readPos w' = readPos (win s)"
      "chunkSize w' = chunkSize (win s)" "slots w' = slots (win s)" "total w' = total (win s)"
      "totalSize w' = totalSize (win s)" "slotChunk w' = slotChunk (win s)" "err w' = err (win s)"
    using assms(6) by auto
  have st: "j < nat (slots (win s)) \<Longrightarrow> slotState w' ! j = (if j = nat (wSlot c) then slotReady else slotState (win s) ! j)" for j
    using i(1) by (simp add: assms(6) slot_nth [OF I(1)])
  have rdy: "chunk_ready w' idx \<longleftrightarrow> chunk_ready (win s) idx \<or> idx = wIdx c" for idx
    using st [OF slot_index [OF I(1), of idx]] cI(3,6,7)
    by (auto simp: chunk_ready_def same)
  have "writer_ok ?s d" if d: "writers s u = Some d" "u \<noteq> t" for u d
  proof -
    have "slotState w' ! nat (wSlot d) = slotState (win s) ! nat (wSlot d)"
      using I(6) [OF d(1) assms(2) d(2)] st writer_slot [OF assms(1) d(1)] i by (simp add: eq_nat_nat_iff)
    then show ?thesis using I(5) [OF d(1)] unfolding writer_ok_def by (auto simp: same)
  qed
  moreover have "reader_ok ?s r" if "rdr s = Some r" for r
  proof -
    have r: "reader_ok s r" using I(7) [OF that] .
    obtain x where x: "accepted s (rCur r) = Some x" "slot_holds (ring s) (chunkSize (win s)) (rSlot r) x"
        "rGot r = take (length (rGot r)) (drop (nat (readPos (win s) - rCur r * chunkSize (win s))) x)"
      by (rule reader_ok_holds [OF r])
    then have "rCur r \<noteq> wIdx c" using na by auto
    then show ?thesis using reader_okD [OF r] x unfolding reader_ok_def Let_def by (simp add: same rdy)
  qed
  moreover have "accepted_ok ?s"
  proof -
    have "crcs w' ! nat idx = (if idx = wIdx c then ChecksumIEEE (wBody c) else crcs (win s) ! nat idx)"
         "crcSet w' ! nat idx = (idx = wIdx c \<or> crcSet (win s) ! nat idx)" if "0 \<le> idx" "idx < total (win s)" for idx
      using that cI(1,2) win_invD(10,11) [OF I(1)] by (auto simp: assms(6) nth_list_update eq_nat_nat_iff)
    then show ?thesis
      using accepted_okD [OF I(2)] cI(1,2,4) assms(3-5) unfolding accepted_ok_def by (auto simp: same rdy)
  qed
  moreover have "ready_ok ?s"
    using I(3) na cI(3,5) unfolding ready_ok_def by (auto simp: same rdy)
  moreover have "delivered_ok ?s"
    using I(4) na unfolding delivered_ok_def by (auto simp: same)
  ultimately show ?thesis using I(6) assms(7) unfolding stream_inv_def by (auto split: if_splits)
qed

lemma finish_inv:
  assumes "stream_inv s" "writers s t = Some c"
    and "WriteChunk_finish (win s) (wIdx c) (wSlot c)
        (WriteChunk_copied (int (wDone c) < wLen c) (wLen c < int (length (wBody c))))
        (ChecksumIEEE (take (wDone c) (wBody c))) = (r, w')"
  shows "stream_inv (s\<lparr>win := w', writers := (writers s)(t := None),
      accepted := (case r of Inl _ \<Rightarrow> accepted s | Inr _ \<Rightarrow> (accepted s)(wIdx c \<mapsto> take (wDone c) (wBody c)))\<rparr>)"
proof -
  note I = stream_invD [OF assms(1)]
  have c: "wSlot c = wIdx c mod slots (win s)" "int (wDone c) \<le> wLen c" "wDone c \<le> length (wBody c)"
      "err (win s) = None \<Longrightarrow> slotState (win s) ! nat (wSlot c) = slotFilling \<and> slotChunk (win s) ! nat (wSlot c) = wIdx c"
    using I(5) [OF assms(2)] unfolding writer_ok_def by blast+
  have w': "win_inv w'" using WriteChunk_finish_inv [OF I(1)] assms(3) c(1) by (metis snd_conv)
  show ?thesis
  proof (rule finish_cases [OF I(1) _ _ assms(3) [unfolded c(1)], of "nat (wSlot c)"])
    fix e assume "err (win s) = None" "r = Inl e"
      "w' = (win s)\<lparr>slotState := (slotState (win s))[nat (wSlot c) := slotFree], slotChunk := (slotChunk (win s))[nat (wSlot c) := -1]\<rparr>"
    then show ?thesis using drop_writer_inv [OF assms(1,2) _ w'] by simp
  next
    assume a: "err (win s) = None" "WriteChunk_copied (int (wDone c) < wLen c) (wLen c < int (length (wBody c))) = None"
      "r = Inr (ChecksumIEEE (take (wDone c) (wBody c)))"
      "w' = (win s)\<lparr>slotState := (slotState (win s))[nat (wSlot c) := slotReady],
         crcs := (crcs (win s))[nat (wIdx c) := ChecksumIEEE (take (wDone c) (wBody c))],
         crcSet := (crcSet (win s))[nat (wIdx c) := True]\<rparr>"
    then have "int (wDone c) = wLen c" "wDone c = length (wBody c)"
      using c(2,3) by (auto simp: WriteChunk_copied_def split: if_splits)
    then show ?thesis using accept_inv [OF assms(1,2) a(1) _ _ _ w'] a(3,4) by simp
  qed (use c drop_writer_inv [OF assms(1,2) _ w'] in simp_all)
qed

text \<open>The reader's commit: the position moves past the bytes read, and a slot read to its end is freed.\<close>

lemma commit_delivered:
  assumes "stream_inv s" "rdr s = Some r" "chunkSize w' = chunkSize (win s)"
    and "readPos w' = readPos (win s) + int (length (rGot r))"
  shows "delivered_ok (s\<lparr>win := w', rdr := None, delivered := delivered s @ rGot r\<rparr>)"
proof -
  note I = stream_invD [OF assms(1)]
  let ?cs = "chunkSize (win s)" and ?p = "readPos (win s)"
  have r: "reader_ok s r" by (rule I(7) [OF assms(2)])
  obtain c where c: "accepted s (rCur r) = Some c" "rGot r = take (length (rGot r)) (drop (nat (?p - rCur r * ?cs)) c)"
    by (rule reader_ok_holds [OF r])
  have len: "int (length (delivered s)) = ?p" using I(4) by (simp add: delivered_ok_def)
  have start: "rCur r * ?cs \<le> ?p"
    using reader_okD(1,2) [OF r] int_le_div_iff [of ?cs "rCur r" ?p] win_invD(1) [OF I(1)] by (simp add: frontier_def)
  have clen: "ChunkLen (win s) (rCur r) \<le> ?cs" by (rule ChunkLen_le [OF I(1)])
  have new: "(?p + int j) div ?cs = rCur r \<and> rGot r ! j = c ! nat ((?p + int j) mod ?cs)" if j: "j < length (rGot r)" for j
  proof -
    have b: "rCur r * ?cs \<le> ?p + int j" "?p + int j < rCur r * ?cs + ?cs"
      using start clen j reader_okD(5,6) [OF r] by linarith+
    have d: "(?p + int j) div ?cs = rCur r"
      using b int_le_div_iff [of ?cs "rCur r" "?p + int j"] int_div_less_iff [of ?cs "?p + int j" "rCur r + 1"] win_invD(1) [OF I(1)]
      by (simp add: distrib_right)
    then have m: "(?p + int j) mod ?cs = ?p + int j - rCur r * ?cs" by (simp add: minus_div_mult_eq_mod [symmetric])
    have "j < length (drop (nat (?p - rCur r * ?cs)) c)"
      using j arg_cong [OF c(2), of length] by simp
    then have "rGot r ! j = c ! (nat (?p - rCur r * ?cs) + j)"
      using j arg_cong [OF c(2), of "\<lambda>x. x ! j"] by (simp add: less_diff_conv)
    moreover have "nat ((?p + int j) mod ?cs) = nat (?p - rCur r * ?cs) + j" using m start by linarith
    ultimately show ?thesis using d by simp
  qed
  have "\<exists>x. accepted s (int k div ?cs) = Some x \<and> (delivered s @ rGot r) ! k = x ! nat (int k mod ?cs)"
    if k: "k < length (delivered s @ rGot r)" for k
  proof (cases "k < length (delivered s)")
    case True
    then show ?thesis using I(4) by (auto simp: delivered_ok_def nth_append)
  next
    case False
    then have "int k = ?p + int (k - length (delivered s))" using len by simp
    then show ?thesis using new [of "k - length (delivered s)"] False k c(1) by (auto simp: nth_append)
  qed
  then show ?thesis using len assms(3,4) by (simp add: delivered_ok_def)
qed

lemma commit_inv:
  assumes "stream_inv s" "rdr s = Some r"
    and "Read_commit (win s) (rCur r) (rSlot r) (int (length (rGot r))) fe = (res, w')"
  shows "stream_inv (s\<lparr>win := w', rdr := None, delivered := delivered s @ rGot r\<rparr>)" (is "stream_inv ?s")
proof -
  note I = stream_invD [OF assms(1)]
  let ?n = "int (length (rGot r))" and ?i = "nat (rSlot r)"
  have r: "reader_ok s r" by (rule I(7) [OF assms(2)])
  note R = reader_okD [OF r]
  have i: "?i < nat (slots (win s))" "0 \<le> rSlot r"
    using slot_index [OF I(1), of "rCur r"] win_invD(3) [OF I(1)] R(3) by auto
  have b: "0 \<le> rCur r" "rCur r < total (win s)" using frontier_bounds [OF I(1)] R(1,2) by auto
  have w': "win_inv w'"
    using Read_commit_inv [OF I(1) R(1,2,3), of ?n fe] R(3,5,6,7) assms(3) by (simp add: chunk_ready_def)
  have same: "ChunkLen w' = ChunkLen (win s)" "chunkSize w' = chunkSize (win s)" "slots w' = slots (win s)"
      "total w' = total (win s)" "totalSize w' = totalSize (win s)" "crcs w' = crcs (win s)"
      "crcSet w' = crcSet (win s)" "err w' = err (win s)" "readPos w' = readPos (win s) + ?n"
    using assms(3) by (auto simp: Read_commit_def Let_def split: if_splits)
  have st: "slotState w' ! j = slotState (win s) ! j \<and> slotChunk w' ! j = slotChunk (win s) ! j"
    if "j \<noteq> ?i" "j < nat (slots (win s))" for j
    using assms(3) that i by (auto simp: Read_commit_def Let_def slot_nth [OF I(1)] split: if_splits)
  have rdy_imp: "chunk_ready (win s) idx" if "chunk_ready w' idx" for idx
    using that assms(3) i slot_index [OF I(1), of idx]
    by (auto simp: Read_commit_def Let_def chunk_ready_def slot_nth [OF I(1)] split: if_splits)
  have fr: "frontier (win s) \<le> frontier w'"
    using win_invD(1) [OF I(1)] frontier_bounds(2) [OF I(1)] by (auto simp: frontier_def same zdiv_mono1)
  have keep: "idx < frontier w' \<or> chunk_ready w' idx" if "chunk_ready (win s) idx" for idx
  proof (cases "idx = rCur r")
    case True
    show ?thesis
    proof (cases "rCur r * chunkSize w' + ChunkLen w' (rCur r) \<le> readPos w'")
      case True
      then show ?thesis using consumed_iff [OF w'] b \<open>idx = rCur r\<close> by (simp add: same)
    next
      case False
      then have "\<not> rCur r * chunkSize (win s) + ChunkLen (win s) (rCur r) \<le> readPos (win s) + ?n" unfolding same .
      then have "slotState w' = slotState (win s)" "slotChunk w' = slotChunk (win s)"
        using assms(3) by (auto simp: Read_commit_def Let_def split: if_splits)
      then show ?thesis using that by (simp add: chunk_ready_def same)
    qed
  next
    case False
    have "idx mod slots (win s) \<noteq> rSlot r"
      using False that R(2,3) chunk_ready_window [OF I(1) that] win_invD(3) [OF I(1)]
        window_slot_inj [of "slots (win s)" "frontier (win s)" idx "rCur r"] by auto
    then have "nat (idx mod slots (win s)) \<noteq> ?i" using i win_invD(3) [OF I(1)] by (simp add: eq_nat_nat_iff)
    then show ?thesis using st slot_index [OF I(1), of idx] that by (simp add: chunk_ready_def same)
  qed
  have "writer_ok ?s c" if c: "writers s t = Some c" for t c
  proof -
    have "nat (wSlot c) \<noteq> ?i" using R(8) [OF c] writer_slot [OF assms(1) c] i by (simp add: eq_nat_nat_iff)
    then show ?thesis using I(5) [OF c] st writer_slot [OF assms(1) c] unfolding writer_ok_def by (auto simp: same)
  qed
  moreover have "idx < frontier w' \<or> chunk_ready w' idx" if "accepted s idx = Some c" "err (win s) = None" for idx c
    using accepted_okD(6) [OF I(2) that] fr keep [of idx] by linarith
  then have "accepted_ok ?s"
    using accepted_okD(1-5) [OF I(2)] unfolding accepted_ok_def by (simp add: same)
  moreover have "ready_ok ?s" using I(3) rdy_imp unfolding ready_ok_def by (auto simp: same)
  moreover have "delivered_ok ?s" by (rule commit_delivered [OF assms(1,2)]) (simp_all add: same)
  ultimately show ?thesis using I(6) w' unfolding stream_inv_def by auto
qed

lemma close_file_inv: "stream_inv s \<Longrightarrow> stream_inv (s\<lparr>fd_open := b\<rparr>)"
proof -
  have "writer_ok (s\<lparr>fd_open := b\<rparr>) = writer_ok s" "reader_ok (s\<lparr>fd_open := b\<rparr>) = reader_ok s" "accepted_ok (s\<lparr>fd_open := b\<rparr>) = accepted_ok s"
    "ready_ok (s\<lparr>fd_open := b\<rparr>) = ready_ok s" "delivered_ok (s\<lparr>fd_open := b\<rparr>) = delivered_ok s"
    by (simp_all add: fun_eq_iff writer_ok_def reader_ok_def accepted_ok_def ready_ok_def delivered_ok_def)
  then show "stream_inv s \<Longrightarrow> stream_inv (s\<lparr>fd_open := b\<rparr>)" by (simp add: stream_inv_def)
qed

lemma stream_step_inv: "stream_inv s \<Longrightarrow> stream_step s s' \<Longrightarrow> stream_inv s'"
  by (erule stream_step.cases)
    (simp_all add: admit_inv copy_inv finish_inv look_inv fetch_inv commit_inv close_inv close_file_inv)

interpretation ring: invariant_machine stream_start stream_step stream_inv
  by unfold_locales (rule stream_start_inv, assumption, rule stream_step_inv)

section \<open>What every interleaving guarantees\<close>

lemma stream_accepted_mono:
  assumes "stream_inv s" "stream_step s s'" "accepted s idx = Some c"
  shows "accepted s' idx = Some c"
  using assms(2)
proof cases
  case (finish t d r w')
  have "wIdx d \<noteq> idx" if "r = Inr x" for x
  proof -
    have d: "writer_ok s d" using stream_invD(5) [OF assms(1) finish(2)] .
    then have "err (win s) = None"
      using that finish(3) stream_invD(1) [OF assms(1)]
        win_inv_slot [OF stream_invD(1) [OF assms(1)] writer_slot(2) [OF assms(1) finish(2)]]
      by (auto simp: WriteChunk_finish_def Let_def slot_ok_def split: if_splits option.splits)
    then show ?thesis using filling_not_accepted(1) [OF assms(1) finish(2)] assms(3) by auto
  qed
  then show ?thesis using assms(3) finish(1) by (auto split: sum.splits)
qed (use assms(3) in auto)

text \<open>C9: However the uploads of the chunks and the reader interleave, and whenever the window is closed,
  what the reader has been given is a prefix of the reassembled file: its length is the read position,
  and byte \<open>k\<close> is the byte at place \<open>k mod chunkSize\<close> of the content that was accepted for chunk
  \<open>k div chunkSize\<close>, whose recorded checksum is the CRC of exactly that content.\<close>

theorem stream_delivers_in_order:
  assumes "reachable stream_start stream_step s" "k < length (delivered s)"
  shows "int (length (delivered s)) = readPos (win s) \<and>
    (\<exists>c. accepted s (int k div chunkSize (win s)) = Some c \<and>
       delivered s ! k = c ! nat (int k mod chunkSize (win s)) \<and>
       int (length c) = ChunkLen (win s) (int k div chunkSize (win s)) \<and>
       crcs (win s) ! nat (int k div chunkSize (win s)) = ChecksumIEEE c)"
proof -
  have inv: "stream_inv s" using assms(1) by (rule ring.reachable_inv)
  note d = stream_invD(4) [OF inv, unfolded delivered_ok_def]
  obtain c where "accepted s (int k div chunkSize (win s)) = Some c" "delivered s ! k = c ! nat (int k mod chunkSize (win s))"
    using d assms(2) by blast
  then show ?thesis using d accepted_okD(3,5) [OF stream_invD(2) [OF inv]] by auto
qed

text \<open>Content once reported as received is final: from then on, whatever other requests send, the
  chunk keeps the content it was accepted with, and as long as the window has no error it is either
  consumed or complete in its own slot of the ring, byte for byte.\<close>

theorem stream_accepted_stable:
  assumes "reachable stream_start stream_step s" "accepted s idx = Some c" "stream_step\<^sup>*\<^sup>* s s'" "err (win s') = None"
  shows "accepted s' idx = Some c \<and>
    (idx < frontier (win s') \<or>
     chunk_ready (win s') idx \<and> slot_holds (ring s') (chunkSize (win s')) (idx mod slots (win s')) c)"
proof -
  have inv: "stream_inv s" using assms(1) by (rule ring.reachable_inv)
  from assms(3) inv assms(2) have "stream_inv s' \<and> accepted s' idx = Some c"
    by (induction rule: rtranclp_induct) (auto intro: stream_step_inv stream_accepted_mono)
  then have inv': "stream_inv s'" and a: "accepted s' idx = Some c" by auto
  have "idx < frontier (win s') \<or> chunk_ready (win s') idx" using accepted_okD(6) [OF stream_invD(2) [OF inv'] a assms(4)] .
  moreover have "slot_holds (ring s') (chunkSize (win s')) (idx mod slots (win s')) c" if "chunk_ready (win s') idx"
    using stream_invD(3) [OF inv'] that a unfolding ready_ok_def by fastforce
  ultimately show ?thesis using a by blast
qed

text \<open>A run: one chunk of one byte is uploaded and then read.\<close>

definition sample_start :: Stream where
  "sample_start = \<lparr>win = \<lparr>chunkSize = 1, totalSize = 1, total = 1, slots = 1, slotState = [slotFree], slotChunk = [-1],
     readPos = 0, crcs = [0], crcSet = [False], err = None, file_open = True\<rparr>,
     ring = (\<lambda>_. CHR ''-''), fd_open = True, writers = Map.empty, rdr = None, delivered = [], accepted = Map.empty\<rparr>"

lemma sample_start_ok: "stream_start sample_start"
proof -
  have "NewWindow False 1 1 1 = NewWin (win sample_start)"
    by (simp add: NewWindow_def sample_start_def wrap64_id int64_defs)
  moreover have "(1 :: int) + 1 - 1 \<le> max_int64" by (simp add: int64_defs)
  ultimately have "\<exists>cs ts n. NewWindow False cs ts n = NewWin (win sample_start) \<and> ts + cs - 1 \<le> max_int64" by blast
  then show ?thesis by (simp add: stream_start_def) (simp add: sample_start_def)
qed

lemma sample_run:
  "\<exists>s s'. reachable stream_start stream_step s \<and> accepted s 0 = Some ''x'' \<and> stream_step\<^sup>*\<^sup>* s s' \<and>
     err (win s') = None \<and> delivered s' = ''x'' \<and> frontier (win s') = 1"
proof -
  let ?w0 = "win sample_start"
  let ?w1 = "?w0\<lparr>slotState := [slotFilling], slotChunk := [0]\<rparr>"
  let ?w2 = "?w0\<lparr>slotState := [slotReady], slotChunk := [0], crcs := [ChecksumIEEE ''x''], crcSet := [True]\<rparr>"
  let ?c = "\<lparr>wIdx = 0, wSlot = 0, wLen = 1, wDone = 0, wBody = ''x''\<rparr>"
  let ?s1 = "sample_start\<lparr>win := ?w1, writers := [0 \<mapsto> ?c]\<rparr>"
  let ?s2 = "?s1\<lparr>ring := (\<lambda>_. CHR ''-'')(0 := CHR ''x''), writers := [0 \<mapsto> ?c\<lparr>wDone := 1\<rparr>]\<rparr>"
  let ?s3 = "?s2\<lparr>win := ?w2, writers := Map.empty, accepted := [0 \<mapsto> ''x'']\<rparr>"
  let ?s4 = "?s3\<lparr>rdr := Some \<lparr>rCur = 0, rSlot = 0, rN = 1, rOff = 0, rGot = []\<rparr>\<rparr>"
  let ?s5 = "?s3\<lparr>rdr := Some \<lparr>rCur = 0, rSlot = 0, rN = 1, rOff = 0, rGot = ''x''\<rparr>\<rparr>"
  let ?s6 = "?s3\<lparr>win := ?w2\<lparr>readPos := 1, slotState := [slotFree], slotChunk := [-1]\<rparr>, delivered := ''x''\<rparr>"
  have "stream_step sample_start ?s1"
    using stream_step.admit [of sample_start 0 0 False 0 1 ?w1 "''x''"]
    by (simp add: sample_start_def WriteChunk_enter_def WriteChunk_admit_def ChunkLen_def frontier_def)
  moreover have "stream_step ?s1 ?s2" using stream_step.copy [of ?s1 0 ?c] by (simp add: sample_start_def)
  moreover have "stream_step ?s2 ?s3"
    using stream_step.finish [of ?s2 0 "?c\<lparr>wDone := 1\<rparr>" "Inr (ChecksumIEEE ''x'')" ?w2]
    by (simp add: sample_start_def WriteChunk_finish_def WriteChunk_copied_def)
  ultimately have r: "reachable stream_start stream_step ?s3"
    by (meson sample_start_ok reachable_start reachable_step)
  have "stream_step ?s3 ?s4" using stream_step.look [of ?s3 1 0 0 1 0]
    by (simp add: sample_start_def Read_look_def ChunkLen_def)
  moreover have "stream_step ?s4 ?s5" using stream_step.fetch [of ?s4 "\<lparr>rCur = 0, rSlot = 0, rN = 1, rOff = 0, rGot = []\<rparr>"]
    by (simp add: sample_start_def)
  moreover have "stream_step ?s5 ?s6"
    using stream_step.commit [of ?s5 "\<lparr>rCur = 0, rSlot = 0, rN = 1, rOff = 0, rGot = ''x''\<rparr>" False "Inr 1"
      "?w2\<lparr>readPos := 1, slotState := [slotFree], slotChunk := [-1]\<rparr>"]
    by (simp add: sample_start_def Read_commit_def ChunkLen_def)
  ultimately have "stream_step\<^sup>*\<^sup>* ?s3 ?s6" by (meson r_into_rtranclp rtranclp_trans)
  with r show ?thesis by (intro exI [of _ ?s3] exI [of _ ?s6]) (simp add: sample_start_def frontier_def)
qed

theorem stream_accepted_stable_witness:
  "\<exists>s s'. reachable stream_start stream_step s \<and> stream_step\<^sup>*\<^sup>* s s' \<and> delivered s' = ''x'' \<and> accepted s' 0 = Some ''x''"
  using sample_run stream_accepted_stable [of _ 0 "''x''"] by blast

theorem stream_delivers_in_order_witness:
  "\<exists>s. reachable stream_start stream_step s \<and> delivered s = ''x'' \<and> readPos (win s) = 1"
proof -
  obtain s where s: "reachable stream_start stream_step s" "delivered s = ''x''"
    using sample_run unfolding reachable_def by (meson rtranclp_trans)
  then show ?thesis using stream_delivers_in_order [of s 0] by auto
qed

end
