(* ===== verification/Multipart_Session.thy ===== *)
theory Multipart_Session
  imports Multipart_Stream User_Model
begin

text \<open>
  Sessions of multipart uploads: \<open>internal/multipart/session.go\<close> and the chunk-size rule of
  \<open>server/handles/multipart.go\<close>.  The objects the code shares by pointer, sessions and windows,
  live in two heaps; the manager's tables map upload ids and keys to them, and \<open>pipes\<close> holds the
  upload goroutines in progress, each with its session and its window.  Every stretch of code
  under one mutex is one function, so that the step relation at the end interleaves requests,
  the collector and the goroutines the way the scheduler can.
\<close>

section \<open>The model\<close>

datatype State = StateReceiving | StateCompleted | StateFailedRetriable | StateFailedPermanent | StateAborted

text \<open>An error is the chain of errors it wraps, outermost first; \<open>errors.Is\<close> looks the target up in it.\<close>

datatype sentinel = Canceled | UploadNotSupported | PermissionDenied | StorageNotFound | ObjectAlreadyExists
  | RelativePathErr | IgnoredSystemFile | ErrSessionNotFound | ErrNotOwner | WinErr win_error | Msg string

type_synonym error = "sentinel list"

definition errors_Is :: "error \<Rightarrow> sentinel \<Rightarrow> bool" where
  "errors_Is e t \<longleftrightarrow> t \<in> set e"

definition abortMsg :: string where "abortMsg = ''multipart upload aborted''"

definition errAborted :: error where "errAborted = [Msg abortMsg, Canceled]"

text \<open>The sticky error \<open>errAborted\<close> of a window, seen from outside, wraps \<open>context.Canceled\<close>.\<close>

definition win_chain :: "win_error \<Rightarrow> error" where
  "win_chain e = (if e = ErrSticky abortMsg then errAborted else [WinErr e])"

record Session =
  sID :: string
  sPath :: string
  sDstDir :: string
  sName :: string
  sSize :: int64
  sChunkSize :: int64
  sTotal :: int
  sMimetype :: string
  sModified :: int
  sHashes :: "(string \<times> string) list"
  sCreator :: User
  sstate :: State
  serr :: "error option"
  sattempt :: int
  swin :: "nat option"
  sdone :: "nat option"
  prevCRCs :: "32 word list"
  prevSet :: "bool list"
  storagePct :: int
  lastActive :: int

record Manager =
  byID :: "string \<Rightarrow> nat option"
  byKey :: "string \<Rightarrow> string option"
  heap :: "nat \<Rightarrow> Session option"
  wins :: "nat \<Rightarrow> Window option"
  pipes :: "(nat \<times> nat) list"

definition WindowSlots :: int where "WindowSlots = 8"

definition touch :: "int \<Rightarrow> Session \<Rightarrow> Session" where
  "touch now s = s\<lparr>lastActive := now\<rparr>"

record SessionSnapshot =
  nID :: string
  nState :: State
  nAttempt :: int
  nPath :: string
  nSize :: int64
  nChunkSize :: int64
  nTotalChunks :: int
  nReceived :: "(int \<times> int) list"
  nReceivedBytes :: int64
  nFrontier :: int
  nStorageProgress :: int
  nError :: "error option"

definition snapshotLocked :: "Manager \<Rightarrow> Session \<Rightarrow> SessionSnapshot" where
  "snapshotLocked m s =
     (let snap = \<lparr>nID = sID s, nState = sstate s, nAttempt = sattempt s, nPath = sPath s, nSize = sSize s,
            nChunkSize = sChunkSize s, nTotalChunks = sTotal s, nReceived = [], nReceivedBytes = 0,
            nFrontier = 0, nStorageProgress = storagePct s, nError = serr s\<rparr>
      in if sstate s = StateCompleted
         then snap\<lparr>nReceived := [(0, sTotal s - 1)], nReceivedBytes := sSize s, nFrontier := sTotal s,
                   nStorageProgress := 100\<rparr>
         else case Option.bind (swin s) (wins m) of
                None \<Rightarrow> snap
              | Some w \<Rightarrow> let ws = WindowSnapshot w
                          in snap\<lparr>nReceived := Received ws, nReceivedBytes := ReceivedBytes ws,
                                  nFrontier := Frontier ws\<rparr>)"

definition sessionKey :: "nat \<Rightarrow> string \<Rightarrow> int64 \<Rightarrow> string" where
  "sessionKey userID path sz = FormatInt (int userID) @ ''|'' @ path @ ''|'' @ FormatInt sz"

text \<open>The maps of hashes are lists in the order the loop visits them.\<close>

fun qualify_loop :: "(string \<times> string) list \<Rightarrow> (string \<times> string) list \<Rightarrow> bool \<Rightarrow> bool" where
  "qualify_loop [] new shared = shared"
| "qualify_loop ((t, ov) # old) new shared =
     (case map_of new t of
        None \<Rightarrow> qualify_loop old new shared
      | Some nv \<Rightarrow> if ov \<noteq> nv then False else qualify_loop old new True)"

definition hashesQualifyResume :: "(string \<times> string) list \<Rightarrow> (string \<times> string) list \<Rightarrow> bool" where
  "hashesQualifyResume old new = qualify_loop old new False"

definition the_default :: "'a \<Rightarrow> 'a option \<Rightarrow> 'a" where
  "the_default d x = (case x of None \<Rightarrow> d | Some y \<Rightarrow> y)"

definition key_of :: "Session \<Rightarrow> string" where
  "key_of s = sessionKey (ID (sCreator s)) (sPath s) (sSize s)"

definition update_session :: "nat \<Rightarrow> (Session \<Rightarrow> Session) \<Rightarrow> Manager \<Rightarrow> Manager" where
  "update_session r f m = m\<lparr>heap := (heap m)(r := map_option f (heap m r))\<rparr>"

text \<open>Cancelling the context only makes the goroutine's error more likely; closing the window is the effect.\<close>

definition killAttemptLocked :: "Manager \<Rightarrow> Session \<Rightarrow> Manager" where
  "killAttemptLocked m s =
     (case swin s of
        None \<Rightarrow> m
      | Some wr \<Rightarrow> m\<lparr>wins := (wins m)(wr := map_option (\<lambda>w. CloseWithError w (ErrSticky abortMsg)) (wins m wr))\<rparr>)"

definition remove :: "Manager \<Rightarrow> Session \<Rightarrow> Manager" where
  "remove m s =
     (let key = key_of s
      in m\<lparr>byID := (byID m)(sID s := None),
           byKey := (if byKey m key = Some (sID s) then (byKey m)(key := None) else byKey m)\<rparr>)"

definition terminate_state :: "error \<Rightarrow> Session \<Rightarrow> Session" where
  "terminate_state cause s = (if sstate s = StateReceiving then s\<lparr>sstate := StateAborted, serr := Some cause\<rparr> else s)"

text \<open>The two critical sections of \<open>terminate\<close>: the session's, then the manager's.\<close>

definition terminate_kill :: "Manager \<Rightarrow> nat \<Rightarrow> error \<Rightarrow> Manager" where
  "terminate_kill m r cause =
     (case heap m r of
        None \<Rightarrow> m
      | Some s \<Rightarrow> killAttemptLocked (update_session r (terminate_state cause) m) s)"

definition terminate :: "Manager \<Rightarrow> nat \<Rightarrow> error \<Rightarrow> Manager" where
  "terminate m r cause =
     (case heap m r of None \<Rightarrow> m | Some s \<Rightarrow> remove (terminate_kill m r cause) s)"

definition get_session :: "Manager \<Rightarrow> nat \<Rightarrow> string \<Rightarrow> error + nat" where
  "get_session m userID ident =
     (case byID m ident of
        None \<Rightarrow> Inl [ErrSessionNotFound]
      | Some r \<Rightarrow> (case heap m r of
           None \<Rightarrow> Inl [ErrSessionNotFound]
         | Some s \<Rightarrow> if ID (sCreator s) \<noteq> userID then Inl [ErrNotOwner] else Inr r))"

text \<open>The collector: the sessions not touched since the deadline, and their termination one after the other.\<close>

definition expiredMsg :: error where "expiredMsg = [Msg ''multipart upload session expired'']"

definition gc_expired :: "Manager \<Rightarrow> string list \<Rightarrow> int \<Rightarrow> nat list" where
  "gc_expired m ids deadline = List.map_filter (\<lambda>i. case Option.bind (byID m i) (heap m) of
     None \<Rightarrow> None | Some s \<Rightarrow> if lastActive s < deadline then byID m i else None) ids"

definition gc :: "Manager \<Rightarrow> string list \<Rightarrow> int \<Rightarrow> int \<Rightarrow> Manager" where
  "gc m ids now ttl = foldl (\<lambda>m r. terminate m r expiredMsg) m (gc_expired m ids (now - ttl))"

text \<open>
  Starting an attempt: \<open>wr\<close> is the address of the new window and of the channel \<open>done\<close>, which is
  closed when the goroutine leaves \<open>pipes\<close>.
\<close>

definition startAttemptLocked :: "Manager \<Rightarrow> nat \<Rightarrow> nat \<Rightarrow> bool \<Rightarrow> (error + Manager) may_panic" where
  "startAttemptLocked m r wr ioErr =
     (case heap m r of
        None \<Rightarrow> None
      | Some s \<Rightarrow> (case NewWindow ioErr (sChunkSize s) (sSize s) WindowSlots of
           NewError \<Rightarrow> Some (Inl [Msg ''window''])
         | NewPanic \<Rightarrow> None
         | NewWin w \<Rightarrow> Some (Inr (m\<lparr>wins := (wins m)(wr \<mapsto> w), pipes := (r, wr) # pipes m,
             heap := (heap m)(r \<mapsto> s\<lparr>swin := Some wr, sdone := Some wr, sstate := StateReceiving,
                                       serr := None, storagePct := 0\<rparr>)\<rparr>))))"

record InitReq =
  iUser :: User
  iPath :: string
  iSize :: int64
  iChunkSize :: int64
  iMimetype :: string
  iModified :: int
  iHashes :: "(string \<times> string) list"

definition Init_check :: "InitReq \<Rightarrow> error option" where
  "Init_check req = (if iSize req \<le> 0 then Some [Msg ''size'']
                     else if iChunkSize req \<le> 0 then Some [Msg ''chunk size''] else None)"

datatype init_plan = Resume nat | Supersede nat | Fresh

definition Init_lookup :: "Manager \<Rightarrow> InitReq \<Rightarrow> init_plan" where
  "Init_lookup m req =
     (case byKey m (sessionKey (ID (iUser req)) (iPath req) (iSize req)) of
        None \<Rightarrow> Fresh
      | Some ident \<Rightarrow> (case byID m ident of
           None \<Rightarrow> Fresh
         | Some r \<Rightarrow> (case heap m r of
              None \<Rightarrow> Fresh
            | Some s \<Rightarrow>
                if sstate s = StateFailedRetriable \<or>
                   (sstate s = StateReceiving \<and> hashesQualifyResume (sHashes s) (iHashes req))
                then Resume r else Supersede r)))"

definition supersededMsg :: error where
  "supersededMsg = [Msg ''superseded by a new upload of the same path and size'']"

definition new_session :: "InitReq \<Rightarrow> string \<Rightarrow> int \<Rightarrow> Session" where
  "new_session req uuid now =
     (let (dstDir, name) = PathSplit (iPath req)
      in \<lparr>sID = uuid, sPath = iPath req, sDstDir = dstDir, sName = name, sSize = iSize req,
          sChunkSize = iChunkSize req, sTotal = 0, sMimetype = iMimetype req, sModified = iModified req,
          sHashes = iHashes req, sCreator = iUser req, sstate = StateReceiving, serr = None, sattempt = 0,
          swin = None, sdone = None, prevCRCs = [], prevSet = [], storagePct = 0, lastActive = now\<rparr>)"

text \<open>The session is built and its first attempt started before any other request can see it.\<close>

definition Init_create :: "Manager \<Rightarrow> InitReq \<Rightarrow> nat \<Rightarrow> nat \<Rightarrow> string \<Rightarrow> bool \<Rightarrow> int \<Rightarrow> (error + Manager) may_panic" where
  "Init_create m req r wr uuid ioErr now =
     (case startAttemptLocked (m\<lparr>heap := (heap m)(r \<mapsto> new_session req uuid now)\<rparr>) r wr ioErr of
        None \<Rightarrow> None
      | Some (Inl e) \<Rightarrow> Some (Inl e)
      | Some (Inr m1) \<Rightarrow>
          Some (Inr (update_session r (\<lambda>s. s\<lparr>sTotal := (case wins m1 wr of Some w \<Rightarrow> TotalChunks w | None \<Rightarrow> 0)\<rparr>) m1)))"

definition Init_register :: "Manager \<Rightarrow> nat \<Rightarrow> Manager" where
  "Init_register m r =
     (case heap m r of
        None \<Rightarrow> m
      | Some s \<Rightarrow> m\<lparr>byID := (byID m)(sID s \<mapsto> r), byKey := (byKey m)(key_of s \<mapsto> sID s)\<rparr>)"

definition session_snapshot :: "Manager \<Rightarrow> nat \<Rightarrow> SessionSnapshot option" where
  "session_snapshot m r = map_option (snapshotLocked m) (heap m r)"

definition Init ::
  "Manager \<Rightarrow> InitReq \<Rightarrow> nat \<Rightarrow> nat \<Rightarrow> string \<Rightarrow> bool \<Rightarrow> int \<Rightarrow> ((error + SessionSnapshot option \<times> bool) \<times> Manager) may_panic" where
  "Init m req r wr uuid ioErr now =
     (case Init_check req of
        Some e \<Rightarrow> Some (Inl e, m)
      | None \<Rightarrow>
          (case Init_lookup m req of
             Resume q \<Rightarrow> let m1 = update_session q (touch now) m in Some (Inr (session_snapshot m1 q, True), m1)
           | plan \<Rightarrow>
               let m1 = (case plan of Supersede q \<Rightarrow> terminate m q supersededMsg | _ \<Rightarrow> m)
               in case Init_create m1 req r wr uuid ioErr now of
                    None \<Rightarrow> None
                  | Some (Inl e) \<Rightarrow> Some (Inl e, m1)
                  | Some (Inr m2) \<Rightarrow> Some (Inr (session_snapshot m2 r, False), Init_register m2 r)))"

text \<open>Which pipeline errors end the session for good.\<close>

definition isPermanentPutError :: "error \<Rightarrow> bool" where
  "isPermanentPutError e =
     (if errors_Is e Canceled then False
      else list_ex (errors_Is e)
        [UploadNotSupported, PermissionDenied, StorageNotFound, ObjectAlreadyExists, RelativePathErr, IgnoredSystemFile])"

definition finish_state :: "nat \<Rightarrow> 32 word list \<times> bool list \<Rightarrow> error option \<Rightarrow> int \<Rightarrow> Session \<Rightarrow> Session" where
  "finish_state wr tables put_err now s0 =
     (let s1 = touch now s0;
          s2 = (if swin s1 = Some wr then s1\<lparr>swin := None\<rparr> else s1);
          s = s2\<lparr>prevCRCs := fst tables, prevSet := snd tables\<rparr>
      in case put_err of
           None \<Rightarrow> s\<lparr>sstate := StateCompleted, serr := None, storagePct := 100\<rparr>
         | Some e \<Rightarrow>
             if sstate s \<noteq> StateReceiving then (if serr s = None then s\<lparr>serr := Some e\<rparr> else s)
             else if isPermanentPutError e then s\<lparr>sstate := StateFailedPermanent, serr := Some e\<rparr>
             else s\<lparr>sstate := StateFailedRetriable, serr := Some e, sattempt := sattempt s + 1\<rparr>)"

definition finishAttempt :: "Manager \<Rightarrow> nat \<Rightarrow> nat \<Rightarrow> error option \<Rightarrow> int \<Rightarrow> Manager" where
  "finishAttempt m r wr put_err now =
     (case wins m wr of
        None \<Rightarrow> m
      | Some w \<Rightarrow>
          let m1 = m\<lparr>wins := (wins m)(wr \<mapsto> Close w), pipes := removeAll (r, wr) (pipes m)\<rparr>
          in update_session r (finish_state wr (CRCs w) put_err now) m1)"

text \<open>
  The first part of \<open>Chunk\<close>, up to the call of \<open>WriteChunk\<close>.  It answers at once, or goes on to
  write into a window, with the checksum the previous attempt recorded for the chunk.
\<close>

datatype chunk_begin = ChunkNoSession error | ChunkReturn SessionSnapshot "error option" | ChunkWrite nat nat "32 word option"

definition prev_crc :: "Session \<Rightarrow> int \<Rightarrow> 32 word option may_panic" where
  "prev_crc s idx =
     (if idx < int (length (prevSet s))
      then if idx < 0 then None
           else Some (if prevSet s ! nat idx then Some (prevCRCs s ! nat idx) else None)
      else Some None)"

definition Chunk_write :: "Manager \<Rightarrow> nat \<Rightarrow> Session \<Rightarrow> int \<Rightarrow> (chunk_begin \<times> Manager) may_panic" where
  "Chunk_write m r s idx =
     (case prev_crc s idx of
        None \<Rightarrow> None
      | Some prev \<Rightarrow> (case swin s of None \<Rightarrow> None | Some wr \<Rightarrow> Some (ChunkWrite r wr prev, m)))"

definition Chunk_locked :: "Manager \<Rightarrow> nat \<Rightarrow> int \<Rightarrow> nat \<Rightarrow> bool \<Rightarrow> (chunk_begin \<times> Manager) may_panic" where
  "Chunk_locked m r idx wr ioErr =
     (case heap m r of
        None \<Rightarrow> None
      | Some s \<Rightarrow>
          (case sstate s of
             StateReceiving \<Rightarrow> Chunk_write m r s idx
           | StateFailedRetriable \<Rightarrow>
               if idx \<noteq> 0
               then Some (ChunkReturn (snapshotLocked m s)
                      (Some (Msg ''upload attempt failed, resend from chunk 0 to retry'' # the_default [] (serr s))), m)
               else (case startAttemptLocked m r wr ioErr of
                       None \<Rightarrow> None
                     | Some (Inl e) \<Rightarrow> Some (ChunkReturn (snapshotLocked m s) (Some e), m)
                     | Some (Inr m2) \<Rightarrow>
                         (case heap m2 r of None \<Rightarrow> None | Some s2 \<Rightarrow> Chunk_write m2 r s2 idx))
           | StateCompleted \<Rightarrow> Some (ChunkReturn (snapshotLocked m s) None, m)
           | _ \<Rightarrow> Some (ChunkReturn (snapshotLocked m s) (Some (Msg ''session is'' # the_default [] (serr s))), m)))"

definition Chunk_begin :: "Manager \<Rightarrow> nat \<Rightarrow> string \<Rightarrow> int \<Rightarrow> nat \<Rightarrow> bool \<Rightarrow> int \<Rightarrow> (chunk_begin \<times> Manager) may_panic" where
  "Chunk_begin m userID ident idx wr ioErr now =
     (case get_session m userID ident of
        Inl e \<Rightarrow> Some (ChunkNoSession e, m)
      | Inr r \<Rightarrow> Chunk_locked (update_session r (touch now) m) r idx wr ioErr)"

text \<open>After \<open>WriteChunk\<close> failed, and once the verdict of a closed window is in.\<close>

definition Chunk_failed :: "Manager \<Rightarrow> nat \<Rightarrow> error \<Rightarrow> SessionSnapshot option \<times> error option" where
  "Chunk_failed m r e =
     (case heap m r of
        None \<Rightarrow> (None, Some e)
      | Some s \<Rightarrow> (Some (snapshotLocked m s), if sstate s = StateCompleted then None else Some e))"

text \<open>After \<open>WriteChunk\<close> succeeded: a checksum that differs from the previous attempt's ends the session.\<close>

definition changedMsg :: error where "changedMsg = [Msg ''content changed between attempts, aborting'']"

definition Chunk_written :: "Manager \<Rightarrow> nat \<Rightarrow> 32 word \<Rightarrow> 32 word option \<Rightarrow> error option \<times> Manager" where
  "Chunk_written m r crc prev =
     (case prev of
        None \<Rightarrow> (None, m)
      | Some p \<Rightarrow>
          if crc = p then (None, m)
          else case heap m r of
                 None \<Rightarrow> (Some changedMsg, m)
               | Some s \<Rightarrow> (Some changedMsg, killAttemptLocked (update_session r
                   (\<lambda>s. s\<lparr>sstate := StateFailedPermanent, serr := Some changedMsg\<rparr>) m) s))"

text \<open>One round of the loop of \<open>Complete\<close>, and what follows it.\<close>

datatype complete_look = CompleteReturn SessionSnapshot error | CompleteWait | CompleteDone

definition Complete_look :: "Manager \<Rightarrow> nat \<Rightarrow> complete_look" where
  "Complete_look m r =
     (case heap m r of
        None \<Rightarrow> CompleteDone
      | Some s \<Rightarrow>
          if sstate s = StateReceiving
          then case Option.bind (swin s) (wins m) of
                 None \<Rightarrow> CompleteWait
               | Some w \<Rightarrow> if ReceivedBytes (WindowSnapshot w) < sSize s
                           then CompleteReturn (snapshotLocked m s) [Msg ''cannot complete'']
                           else CompleteWait
          else CompleteDone)"

definition Complete_finish :: "Manager \<Rightarrow> nat \<Rightarrow> int \<Rightarrow> (SessionSnapshot \<times> error option) option \<times> Manager" where
  "Complete_finish m r now =
     (let m1 = update_session r (touch now) m
      in case heap m1 r of
           None \<Rightarrow> (None, m1)
         | Some s \<Rightarrow>
             if sstate s = StateCompleted then (Some (snapshotLocked m1 s, None), remove m1 s)
             else (Some (snapshotLocked m1 s, Some (Msg ''upload failed'' # the_default [] (serr s))), m1))"

definition Status :: "Manager \<Rightarrow> nat \<Rightarrow> string \<Rightarrow> int \<Rightarrow> (error + SessionSnapshot option) \<times> Manager" where
  "Status m userID ident now =
     (case get_session m userID ident of
        Inl e \<Rightarrow> (Inl e, m)
      | Inr r \<Rightarrow> let m1 = update_session r (touch now) m in (Inr (session_snapshot m1 r), m1))"

definition Find :: "Manager \<Rightarrow> nat \<Rightarrow> string \<Rightarrow> int64 \<Rightarrow> int \<Rightarrow> (error + SessionSnapshot option) \<times> Manager" where
  "Find m userID path sz now =
     (case byKey m (sessionKey userID path sz) of
        None \<Rightarrow> (Inl [ErrSessionNotFound], m)
      | Some ident \<Rightarrow> Status m userID ident now)"

definition Abort :: "Manager \<Rightarrow> nat \<Rightarrow> string \<Rightarrow> error option \<times> Manager" where
  "Abort m userID ident =
     (case get_session m userID ident of
        Inl e \<Rightarrow> (Some e, m)
      | Inr r \<Rightarrow> (None, terminate m r [Msg ''multipart upload aborted by client'']))"

text \<open>The handler's rules: the size of a chunk, and the status code of an error.\<close>

definition multipartMinChunkSize :: int64 where "multipartMinChunkSize = 2 ^ 20"

definition multipartChunkSize :: "int \<Rightarrow> int64 \<Rightarrow> int64" where
  "multipartChunkSize setting requested =
     (let c0 = wrap64 (setting * 2 ^ 20);
          ceiling = (if c0 < multipartMinChunkSize then multipartMinChunkSize else c0)
      in if requested > 0 \<and> requested < ceiling then max requested multipartMinChunkSize else ceiling)"

definition multipartErrCode :: "error \<Rightarrow> int" where
  "multipartErrCode e =
     (if errors_Is e (WinErr ErrOutOfWindow) then 429
      else if errors_Is e (WinErr ErrChunkInFlight) then 409
      else if errors_Is e ErrSessionNotFound then 404
      else if errors_Is e ErrNotOwner then 403
      else 400)"

section \<open>Interleaving\<close>

text \<open>
  Besides the manager, a state records which sessions are built but not yet registered, which ones
  some request or the collector holds a pointer to, and which ones are between the two critical
  sections of \<open>terminate\<close>.
\<close>

record Server =
  mgr :: Manager
  pending :: "nat set"
  held :: "nat set"
  killed :: "nat set"

definition server_start :: "Server \<Rightarrow> bool" where
  "server_start S \<longleftrightarrow> mgr S = \<lparr>byID = Map.empty, byKey = Map.empty, heap = Map.empty, wins = Map.empty, pipes = []\<rparr> \<and>
     pending S = {} \<and> held S = {} \<and> killed S = {}"

inductive win_op :: "Window \<Rightarrow> Window \<Rightarrow> bool" where
  op_admit: "win_op w (snd (WriteChunk_admit w idx expired))"
| op_finish: "win_op w (snd (WriteChunk_finish w idx slot e crc))"
| op_commit: "win_op w (snd (Read_commit w cur slot n fe))"
| op_close: "win_op w (CloseWithError w e)"

inductive server_step :: "Server \<Rightarrow> Server \<Rightarrow> bool" where
  create: "\<lbrakk>heap (mgr S) r = None; wins (mgr S) wr = None; \<forall>q s. heap (mgr S) q = Some s \<longrightarrow> sID s \<noteq> uuid;
      Init_check req = None; Init_create (mgr S) req r wr uuid ioErr now = Some (Inr m')\<rbrakk> \<Longrightarrow>
    server_step S (S\<lparr>mgr := m', pending := insert r (pending S)\<rparr>)"
| register: "r \<in> pending S \<Longrightarrow>
    server_step S (S\<lparr>mgr := Init_register (mgr S) r, pending := pending S - {r}\<rparr>)"
| acquire: "get_session (mgr S) userID ident = Inr r \<Longrightarrow>
    server_step S (S\<lparr>mgr := update_session r (touch now) (mgr S), held := insert r (held S)\<rparr>)"
| chunk: "\<lbrakk>r \<in> held S; wins (mgr S) wr = None; Chunk_locked (mgr S) r idx wr ioErr = Some (res, m')\<rbrakk> \<Longrightarrow>
    server_step S (S\<lparr>mgr := m'\<rparr>)"
| written: "\<lbrakk>r \<in> held S; Chunk_written (mgr S) r crc prev = (e, m')\<rbrakk> \<Longrightarrow> server_step S (S\<lparr>mgr := m'\<rparr>)"
| complete: "\<lbrakk>r \<in> held S; Complete_finish (mgr S) r now = (res, m')\<rbrakk> \<Longrightarrow> server_step S (S\<lparr>mgr := m'\<rparr>)"
| kill: "byID (mgr S) ident = Some r \<or> r \<in> held S \<Longrightarrow>
    server_step S (S\<lparr>mgr := terminate_kill (mgr S) r cause, held := insert r (held S), killed := insert r (killed S)\<rparr>)"
| forget: "\<lbrakk>r \<in> killed S; heap (mgr S) r = Some s\<rbrakk> \<Longrightarrow>
    server_step S (S\<lparr>mgr := remove (mgr S) s, killed := killed S - {r}\<rparr>)"
| finish: "(r, wr) \<in> set (pipes (mgr S)) \<Longrightarrow>
    server_step S (S\<lparr>mgr := finishAttempt (mgr S) r wr put_err now\<rparr>)"
| window: "\<lbrakk>wins (mgr S) wr = Some w; win_op w w'\<rbrakk> \<Longrightarrow>
    server_step S (S\<lparr>mgr := (mgr S)\<lparr>wins := (wins (mgr S))(wr \<mapsto> w')\<rparr>\<rparr>)"

section \<open>The invariant\<close>

definition geometry :: "Window \<Rightarrow> int64 \<times> int64 \<times> int \<times> nat \<times> nat" where
  "geometry w = (chunkSize w, totalSize w, total w, length (crcs w), length (crcSet w))"

lemma geometry_op: "win_op w w' \<Longrightarrow> geometry w' = geometry w"
  by (induction rule: win_op.induct)
    (auto simp: geometry_def WriteChunk_admit_def WriteChunk_finish_def Read_commit_def CloseWithError_def Let_def
      split: option.splits)

definition tables_ok :: "Manager \<Rightarrow> bool" where
  "tables_ok m \<longleftrightarrow>
     (\<forall>ident r. byID m ident = Some r \<longrightarrow> (\<exists>s. heap m r = Some s \<and> sID s = ident)) \<and>
     (\<forall>k ident. byKey m k = Some ident \<longrightarrow> (\<exists>r s. byID m ident = Some r \<and> heap m r = Some s \<and> key_of s = k)) \<and>
     (\<forall>q r s t. heap m q = Some s \<longrightarrow> heap m r = Some t \<longrightarrow> sID s = sID t \<longrightarrow> q = r)"

text \<open>A session that receives has its window and one goroutine; one that may be retried has neither.\<close>

definition session_ok :: "Manager \<Rightarrow> nat \<Rightarrow> Session \<Rightarrow> bool" where
  "session_ok m r s \<longleftrightarrow>
     (sstate s = StateReceiving \<longrightarrow> (\<exists>wr. swin s = Some wr \<and> (r, wr) \<in> set (pipes m))) \<and>
     (sstate s = StateFailedRetriable \<longrightarrow> swin s = None \<and> (\<forall>wr. (r, wr) \<notin> set (pipes m))) \<and>
     (sstate s = StateCompleted \<longrightarrow> (\<forall>wr. (r, wr) \<notin> set (pipes m))) \<and>
     (\<forall>wr. swin s = Some wr \<longrightarrow> (r, wr) \<in> set (pipes m)) \<and>
     length (prevCRCs s) = length (prevSet s) \<and> (prevSet s = [] \<or> length (prevSet s) = nat (sTotal s))"

definition pipe_ok :: "Manager \<Rightarrow> nat \<times> nat \<Rightarrow> bool" where
  "pipe_ok m p \<longleftrightarrow> (\<exists>s w. heap m (fst p) = Some s \<and> wins m (snd p) = Some w \<and>
     geometry w = (sChunkSize s, sSize s, sTotal s, nat (sTotal s), nat (sTotal s)))"

lemma tables_okD:
  assumes "tables_ok m"
  shows "byID m ident = Some r \<Longrightarrow> \<exists>s. heap m r = Some s \<and> sID s = ident"
    and "byKey m k = Some ident \<Longrightarrow> \<exists>r s. byID m ident = Some r \<and> heap m r = Some s \<and> key_of s = k"
    and "heap m q = Some u \<Longrightarrow> heap m r = Some t \<Longrightarrow> sID u = sID t \<Longrightarrow> q = r"
  using assms unfolding tables_ok_def by blast+

lemma tables_cong: "byID m' = byID m \<Longrightarrow> byKey m' = byKey m \<Longrightarrow> heap m' = heap m \<Longrightarrow> tables_ok m' = tables_ok m"
  unfolding tables_ok_def by (simp only:)

definition total_ok :: "Session \<Rightarrow> bool" where
  "total_ok s \<longleftrightarrow> (\<exists>w. NewWindow False (sChunkSize s) (sSize s) WindowSlots = NewWin w \<and> total w = sTotal s)"

definition mgr_inv :: "Manager \<Rightarrow> bool" where
  "mgr_inv m \<longleftrightarrow> tables_ok m \<and>
     (\<forall>r s. heap m r = Some s \<longrightarrow> session_ok m r s \<and> total_ok s) \<and>
     (\<forall>p \<in> set (pipes m). pipe_ok m p) \<and>
     (\<forall>r a b. (r, a) \<in> set (pipes m) \<longrightarrow> (r, b) \<in> set (pipes m) \<longrightarrow> a = b) \<and>
     (\<forall>q r a. (q, a) \<in> set (pipes m) \<longrightarrow> (r, a) \<in> set (pipes m) \<longrightarrow> q = r)"

lemma mgr_invD:
  assumes "mgr_inv m"
  shows "tables_ok m" "heap m r = Some s \<Longrightarrow> session_ok m r s" "heap m r = Some s \<Longrightarrow> total_ok s"
    and "p \<in> set (pipes m) \<Longrightarrow> pipe_ok m p"
    and "(r, a) \<in> set (pipes m) \<Longrightarrow> (r, b) \<in> set (pipes m) \<Longrightarrow> a = b"
    and "(q, a) \<in> set (pipes m) \<Longrightarrow> (r, a) \<in> set (pipes m) \<Longrightarrow> q = r"
  using assms by (auto simp: mgr_inv_def)

lemma mgr_invI:
  assumes "tables_ok m" "\<And>r s. heap m r = Some s \<Longrightarrow> session_ok m r s" "\<And>r s. heap m r = Some s \<Longrightarrow> total_ok s"
    and "\<And>p. p \<in> set (pipes m) \<Longrightarrow> pipe_ok m p"
    and "\<And>r a b. (r, a) \<in> set (pipes m) \<Longrightarrow> (r, b) \<in> set (pipes m) \<Longrightarrow> a = b"
    and "\<And>q r a. (q, a) \<in> set (pipes m) \<Longrightarrow> (r, a) \<in> set (pipes m) \<Longrightarrow> q = r"
  shows "mgr_inv m"
  using assms unfolding mgr_inv_def by blast

text \<open>Windows may change in any way that keeps their geometry.\<close>

lemma wins_inv:
  assumes "mgr_inv m" "\<And>wr w. wins m wr = Some w \<Longrightarrow> \<exists>w'. ws wr = Some w' \<and> geometry w' = geometry w"
  shows "mgr_inv (m\<lparr>wins := ws\<rparr>)"
proof -
  have "pipe_ok (m\<lparr>wins := ws\<rparr>) p" if "pipe_ok m p" for p
    using that assms(2) unfolding pipe_ok_def by fastforce
  moreover have "tables_ok (m\<lparr>wins := ws\<rparr>) = tables_ok m" "session_ok (m\<lparr>wins := ws\<rparr>) = session_ok m"
    by (auto simp: tables_ok_def session_ok_def fun_eq_iff)
  ultimately show ?thesis using assms(1) by (auto simp: mgr_inv_def)
qed

lemma kill_inv: "mgr_inv m \<Longrightarrow> mgr_inv (killAttemptLocked m s)"
  by (auto simp: killAttemptLocked_def split: option.split intro!: wins_inv)
    (auto simp: geometry_def CloseWithError_def)

text \<open>A session may change in any way that keeps its identity and its own part of the invariant.\<close>

definition same_identity :: "Session \<Rightarrow> Session \<Rightarrow> bool" where
  "same_identity s t \<longleftrightarrow> sID t = sID s \<and> sCreator t = sCreator s \<and> sPath t = sPath s \<and> sSize t = sSize s \<and>
     sChunkSize t = sChunkSize s \<and> sTotal t = sTotal s"

lemma tables_update:
  assumes "tables_ok m" "heap m r = Some s" "same_identity s t"
  shows "tables_ok (m\<lparr>heap := (heap m)(r \<mapsto> t)\<rparr>)" (is "tables_ok ?m")
proof -
  have t: "sID t = sID s" "key_of t = key_of s" using assms(3) by (auto simp: same_identity_def key_of_def)
  have fwd: "\<exists>u. heap ?m q = Some u \<and> sID u = sID v \<and> key_of u = key_of v" if "heap m q = Some v" for q v
    using that assms(2) t by auto
  have bwd: "\<exists>v. heap m q = Some v \<and> sID u = sID v" if "heap ?m q = Some u" for q u
    using that assms(2) t by (auto split: if_splits)
  have eq: "byID ?m = byID m" "byKey ?m = byKey m" by simp_all
  show ?thesis unfolding tables_ok_def eq
  proof (intro conjI allI impI)
    show "\<exists>s. heap ?m q = Some s \<and> sID s = ident" if "byID m ident = Some q" for ident q
      using tables_okD(1) [OF assms(1) that] fwd by metis
    show "\<exists>q s. byID m ident = Some q \<and> heap ?m q = Some s \<and> key_of s = k" if "byKey m k = Some ident" for k ident
      using tables_okD(2) [OF assms(1) that] fwd by metis
    show "p = q" if "heap ?m p = Some u" "heap ?m q = Some v" "sID u = sID v" for p q u v
      using tables_okD(3) [OF assms(1)] bwd [OF that(1)] bwd [OF that(2)] that(3) by metis
  qed
qed

lemma tables_new:
  assumes "tables_ok m" "heap m r = None" "\<And>q s. heap m q = Some s \<Longrightarrow> sID s \<noteq> sID t"
  shows "tables_ok (m\<lparr>heap := (heap m)(r \<mapsto> t)\<rparr>)" (is "tables_ok ?m")
proof -
  have old: "heap ?m q = Some v" if "heap m q = Some v" for q v using that assms(2) by auto
  have eq: "byID ?m = byID m" "byKey ?m = byKey m" by simp_all
  show ?thesis unfolding tables_ok_def eq
  proof (intro conjI allI impI)
    show "\<exists>s. heap ?m q = Some s \<and> sID s = ident" if "byID m ident = Some q" for ident q
      using tables_okD(1) [OF assms(1) that] old by metis
    show "\<exists>q s. byID m ident = Some q \<and> heap ?m q = Some s \<and> key_of s = k" if "byKey m k = Some ident" for k ident
      using tables_okD(2) [OF assms(1) that] old by metis
    show "p = q" if "heap ?m p = Some u" "heap ?m q = Some v" "sID u = sID v" for p q u v
      using that assms(3) [of p u] assms(3) [of q v] tables_okD(3) [OF assms(1), of p u q v] by (auto split: if_splits)
  qed
qed

lemma update_inv:
  assumes "mgr_inv m" "heap m r = Some s" "same_identity s t" "session_ok m r t"
  shows "mgr_inv (m\<lparr>heap := (heap m)(r \<mapsto> t)\<rparr>)" (is "mgr_inv ?m")
proof -
  have "pipe_ok ?m p" if "pipe_ok m p" for p
    using that assms(2,3) by (auto simp: pipe_ok_def same_identity_def)
  moreover have "session_ok ?m = session_ok m" by (auto simp: session_ok_def fun_eq_iff)
  moreover have "total_ok t" using mgr_invD(3) [OF assms(1,2)] assms(3) by (simp add: total_ok_def same_identity_def)
  ultimately show ?thesis
    using assms(1,4) tables_update [OF mgr_invD(1) [OF assms(1)] assms(2,3)] by (auto simp: mgr_inv_def)
qed

lemma update_session_inv:
  assumes "mgr_inv m" "\<And>s. same_identity s (f s)" "\<And>s. heap m r = Some s \<Longrightarrow> session_ok m r s \<Longrightarrow> session_ok m r (f s)"
  shows "mgr_inv (update_session r f m)"
proof (cases "heap m r")
  case None
  then show ?thesis using assms(1) by (simp add: update_session_def fun_upd_idem)
next
  case (Some s)
  then show ?thesis using update_inv [OF assms(1) Some assms(2)] assms(3) mgr_invD(2) [OF assms(1) Some]
    by (simp add: update_session_def)
qed

lemma touch_inv: "mgr_inv m \<Longrightarrow> mgr_inv (update_session r (touch now) m)"
  by (erule update_session_inv) (simp_all add: touch_def same_identity_def session_ok_def)

lemma terminate_kill_inv: "mgr_inv m \<Longrightarrow> mgr_inv (terminate_kill m r cause)"
  unfolding terminate_kill_def
  by (auto split: option.split intro!: kill_inv update_session_inv)
    (auto simp: terminate_state_def same_identity_def session_ok_def)

lemma written_inv: "mgr_inv m \<Longrightarrow> Chunk_written m r crc prev = (e, m') \<Longrightarrow> mgr_inv m'"
  by (auto simp: Chunk_written_def same_identity_def session_ok_def split: option.splits if_splits
      intro!: kill_inv update_session_inv)

lemma remove_inv:
  assumes "mgr_inv m" "heap m r = Some s"
  shows "mgr_inv (remove m s)"
proof -
  have t: "tables_ok m" using mgr_invD(1) [OF assms(1)] .
  have "ident \<noteq> sID s" if k: "byKey (remove m s) k = Some ident" for k ident
  proof
    assume i: "ident = sID s"
    have k': "byKey m k = Some (sID s)" "k \<noteq> key_of s"
      using k i by (auto simp: remove_def Let_def split: if_splits)
    obtain q u where "byID m (sID s) = Some q" "heap m q = Some u" "key_of u = k" using tables_okD(2) [OF t k'(1)] by blast
    moreover have "q = r" using tables_okD(3) [OF t _ assms(2)] tables_okD(1) [OF t] calculation by fastforce
    ultimately show False using assms(2) k'(2) by simp
  qed
  moreover have "byKey m k = Some ident" if "byKey (remove m s) k = Some ident" for k ident
    using that by (auto simp: remove_def Let_def split: if_splits)
  moreover have "byID (remove m s) = (byID m)(sID s := None)" "heap (remove m s) = heap m"
    by (simp_all add: remove_def Let_def)
  ultimately have "tables_ok (remove m s)"
    using tables_okD [OF t] unfolding tables_ok_def by (simp split: if_splits)
  moreover have "session_ok (remove m s) = session_ok m" "pipe_ok (remove m s) = pipe_ok m"
    "heap (remove m s) = heap m" "pipes (remove m s) = pipes m"
    by (auto simp: session_ok_def pipe_ok_def remove_def Let_def fun_eq_iff)
  ultimately show ?thesis using assms(1) by (simp add: mgr_inv_def)
qed

lemma register_inv: "mgr_inv m \<Longrightarrow> mgr_inv (Init_register m r)"
proof (cases "heap m r")
  case (Some s)
  assume m: "mgr_inv m"
  have "tables_ok (Init_register m r)"
    using mgr_invD(1) [OF m] Some unfolding tables_ok_def Init_register_def by (simp split: if_splits) (metis option.inject)
  moreover have "session_ok (Init_register m r) = session_ok m" "pipe_ok (Init_register m r) = pipe_ok m"
    "heap (Init_register m r) = heap m" "pipes (Init_register m r) = pipes m"
    using Some by (auto simp: session_ok_def pipe_ok_def Init_register_def fun_eq_iff)
  ultimately show ?thesis using m by (simp add: mgr_inv_def)
qed (simp add: Init_register_def)

lemma NewWindow_geometry:
  assumes "NewWindow ioErr cs ts n = NewWin w"
  shows "geometry w = (cs, ts, total w, nat (total w), nat (total w))" "NewWindow False cs ts n = NewWin w"
  using assms by (auto simp: NewWindow_def geometry_def Let_def split: if_splits)

lemma startD:
  assumes "startAttemptLocked m r wr ioErr = Some (Inr m')"
  obtains s w where "heap m r = Some s" "NewWindow ioErr (sChunkSize s) (sSize s) WindowSlots = NewWin w"
    "m' = m\<lparr>wins := (wins m)(wr \<mapsto> w), pipes := (r, wr) # pipes m,
       heap := (heap m)(r \<mapsto> s\<lparr>swin := Some wr, sdone := Some wr, sstate := StateReceiving, serr := None, storagePct := 0\<rparr>)\<rparr>"
  using assms by (auto simp: startAttemptLocked_def split: option.splits new_window.splits)

text \<open>A goroutine added for a session that has none, on a window nobody else uses.\<close>

lemma add_pipe_inv:
  assumes "mgr_inv m" "\<And>a. (r, a) \<notin> set (pipes m)" "wins m wr = None" "tables_ok (m\<lparr>heap := (heap m)(r \<mapsto> t)\<rparr>)"
    and "sstate t = StateReceiving" "swin t = Some wr" "length (prevCRCs t) = length (prevSet t)"
    and "prevSet t = [] \<or> length (prevSet t) = nat (sTotal t)" "total_ok t"
    and "geometry w = (sChunkSize t, sSize t, sTotal t, nat (sTotal t), nat (sTotal t))"
  shows "mgr_inv (m\<lparr>wins := (wins m)(wr \<mapsto> w), pipes := (r, wr) # pipes m, heap := (heap m)(r \<mapsto> t)\<rparr>)" (is "mgr_inv ?m")
proof -
  have free: "(q, wr) \<notin> set (pipes m)" for q
    using mgr_invD(4) [OF assms(1), of "(q, wr)"] assms(3) by (auto simp: pipe_ok_def)
  have "pipe_ok ?m p" if p: "p \<in> set (pipes m)" for p
  proof -
    have "fst p \<noteq> r" "snd p \<noteq> wr" using p assms(2) free by (metis prod.collapse)+
    then show ?thesis using mgr_invD(4) [OF assms(1) p] by (simp add: pipe_ok_def)
  qed
  moreover have "pipe_ok ?m (r, wr)" using assms(10) by (simp add: pipe_ok_def)
  moreover have "session_ok ?m q s" if "heap m q = Some s" "q \<noteq> r" for q s
    using mgr_invD(2) [OF assms(1) that(1)] that(2) by (auto simp: session_ok_def)
  moreover have "session_ok ?m r t" using assms(5-8) by (simp add: session_ok_def)
  moreover have "tables_ok ?m" using assms(4) tables_cong [of ?m "m\<lparr>heap := (heap m)(r \<mapsto> t)\<rparr>"] by simp
  ultimately show ?thesis
    by (intro mgr_invI) (use mgr_invD(3,5,6) [OF assms(1)] assms(2,9) free in \<open>auto split: if_splits\<close>)
qed

lemma restart_inv:
  assumes "mgr_inv m" "heap m r = Some s" "sstate s = StateFailedRetriable" "wins m wr = None"
    and "startAttemptLocked m r wr ioErr = Some (Inr m')"
  shows "mgr_inv m'"
proof -
  obtain w where w: "NewWindow ioErr (sChunkSize s) (sSize s) WindowSlots = NewWin w"
      "m' = m\<lparr>wins := (wins m)(wr \<mapsto> w), pipes := (r, wr) # pipes m,
         heap := (heap m)(r \<mapsto> s\<lparr>swin := Some wr, sdone := Some wr, sstate := StateReceiving, serr := None, storagePct := 0\<rparr>)\<rparr>"
    using assms(2,5) by (auto elim!: startD)
  have t: "total_ok s" and ok: "session_ok m r s" using mgr_invD(2,3) [OF assms(1,2)] by auto
  have "total w = sTotal s" using t NewWindow_geometry(2) [OF w(1)] by (auto simp: total_ok_def)
  then show ?thesis unfolding w(2) using ok assms(1,3,4) t NewWindow_geometry(1) [OF w(1)] mgr_invD(1) [OF assms(1)]
    by (intro add_pipe_inv tables_update [OF _ assms(2)]) (auto simp: session_ok_def same_identity_def total_ok_def)
qed

lemma chunk_inv:
  assumes "mgr_inv m" "wins m wr = None" "Chunk_locked m r idx wr ioErr = Some (res, m')"
  shows "mgr_inv m'"
  using assms restart_inv [OF assms(1) _ _ assms(2)]
  by (auto simp: Chunk_locked_def Chunk_write_def split: option.splits State.splits if_splits sum.splits)

lemma create_inv:
  assumes "mgr_inv m" "heap m r = None" "wins m wr = None" "\<forall>q s. heap m q = Some s \<longrightarrow> sID s \<noteq> uuid"
    and "Init_create m req r wr uuid ioErr now = Some (Inr m')"
  shows "mgr_inv m'"
proof -
  let ?s = "new_session req uuid now"
  obtain m1 where m1: "startAttemptLocked (m\<lparr>heap := (heap m)(r \<mapsto> ?s)\<rparr>) r wr ioErr = Some (Inr m1)"
      "m' = update_session r (\<lambda>s. s\<lparr>sTotal := (case wins m1 wr of Some w \<Rightarrow> TotalChunks w | None \<Rightarrow> 0)\<rparr>) m1"
    using assms(5) by (auto simp: Init_create_def split: option.splits sum.splits)
  obtain w where w: "NewWindow ioErr (sChunkSize ?s) (sSize ?s) WindowSlots = NewWin w"
      "m1 = m\<lparr>wins := (wins m)(wr \<mapsto> w), pipes := (r, wr) # pipes m,
         heap := (heap m)(r \<mapsto> ?s\<lparr>swin := Some wr, sdone := Some wr, sstate := StateReceiving, serr := None, storagePct := 0\<rparr>)\<rparr>"
    using m1(1) by (elim startD) auto
  define t where "t = ?s\<lparr>swin := Some wr, sdone := Some wr, sstate := StateReceiving, serr := None, storagePct := 0, sTotal := total w\<rparr>"
  have m': "m' = m\<lparr>wins := (wins m)(wr \<mapsto> w), pipes := (r, wr) # pipes m, heap := (heap m)(r \<mapsto> t)\<rparr>"
    by (simp add: m1(2) w(2) update_session_def TotalChunks_def t_def)
  have no: "(r, a) \<notin> set (pipes m)" for a using mgr_invD(4) [OF assms(1), of "(r, a)"] assms(2) by (auto simp: pipe_ok_def)
  have "sID t = uuid" by (simp add: t_def new_session_def split: prod.split)
  then have "tables_ok (m\<lparr>heap := (heap m)(r \<mapsto> t)\<rparr>)"
    using mgr_invD(1) [OF assms(1)] assms(2,4) by (intro tables_new) auto
  moreover have "total_ok t" using NewWindow_geometry(2) [OF w(1)] by (simp add: total_ok_def t_def)
  moreover have "geometry w = (sChunkSize t, sSize t, sTotal t, nat (sTotal t), nat (sTotal t))"
    using NewWindow_geometry(1) [OF w(1)] by (simp add: t_def)
  ultimately show ?thesis unfolding m' using assms(1,3) no
    by (intro add_pipe_inv) (auto simp: t_def new_session_def split: prod.splits)
qed

lemma finish_attempt_inv:
  assumes "mgr_inv m" "(r, wr) \<in> set (pipes m)"
  shows "mgr_inv (finishAttempt m r wr put_err now)"
proof -
  obtain s w where s: "heap m r = Some s" "wins m wr = Some w"
      "geometry w = (sChunkSize s, sSize s, sTotal s, nat (sTotal s), nat (sTotal s))"
    using mgr_invD(4) [OF assms] by (auto simp: pipe_ok_def)
  let ?t = "finish_state wr (CRCs w) put_err now s"
  let ?p = "removeAll (r, wr) (pipes m)"
  have m': "finishAttempt m r wr put_err now = (m\<lparr>wins := (wins m)(wr \<mapsto> Close w)\<rparr>)\<lparr>pipes := ?p, heap := (heap m)(r \<mapsto> ?t)\<rparr>"
    using s by (simp add: finishAttempt_def update_session_def Let_def)
  let ?m1 = "m\<lparr>wins := (wins m)(wr \<mapsto> Close w)\<rparr>"
  have m1: "mgr_inv ?m1" using s(2) by (intro wins_inv [OF assms(1)]) (auto simp: geometry_def Close_def CloseWithError_def)
  have id: "same_identity s ?t" by (auto simp: same_identity_def finish_state_def touch_def Let_def split: option.split)
  have none: "(r, a) \<notin> set ?p" for a using mgr_invD(5) [OF assms(1,2)] by auto
  have sw: "swin s = None \<or> swin s = Some wr"
    using mgr_invD(2) [OF assms(1) s(1)] mgr_invD(5) [OF assms(1) assms(2)] by (cases "swin s") (auto simp: session_ok_def)
  have "session_ok (?m1\<lparr>pipes := ?p, heap := (heap m)(r \<mapsto> ?t)\<rparr>) r ?t"
    using none sw s(3)
    by (auto simp: session_ok_def finish_state_def touch_def Let_def CRCs_def geometry_def split: option.split)
  moreover have "session_ok (?m1\<lparr>pipes := ?p, heap := (heap m)(r \<mapsto> ?t)\<rparr>) q u" if "heap m q = Some u" "q \<noteq> r" for q u
    using mgr_invD(2) [OF m1, of q u] that by (auto simp: session_ok_def)
  moreover have "pipe_ok (?m1\<lparr>pipes := ?p, heap := (heap m)(r \<mapsto> ?t)\<rparr>) p" if "p \<in> set ?p" for p
    using mgr_invD(4) [OF m1, of p] that id s(1) by (auto simp: pipe_ok_def same_identity_def)
  moreover have "tables_ok (?m1\<lparr>pipes := ?p, heap := (heap m)(r \<mapsto> ?t)\<rparr>)"
    using tables_update [OF mgr_invD(1) [OF assms(1)] s(1) id]
      tables_cong [of "?m1\<lparr>pipes := ?p, heap := (heap m)(r \<mapsto> ?t)\<rparr>" "m\<lparr>heap := (heap m)(r \<mapsto> ?t)\<rparr>"] by simp
  moreover have "total_ok ?t" using mgr_invD(3) [OF assms(1) s(1)] id by (simp add: total_ok_def same_identity_def)
  ultimately show ?thesis unfolding m'
    by (intro mgr_invI) (use mgr_invD(3,5,6) [OF assms(1)] in \<open>auto split: if_splits\<close>)
qed

lemma complete_inv: "mgr_inv m \<Longrightarrow> Complete_finish m r now = (res, m') \<Longrightarrow> mgr_inv m'"
  using touch_inv [of m r now]
  by (auto simp: Complete_finish_def Let_def split: option.splits if_splits intro: remove_inv)

lemma window_inv: "mgr_inv m \<Longrightarrow> wins m wr = Some w \<Longrightarrow> win_op w w' \<Longrightarrow> mgr_inv (m\<lparr>wins := (wins m)(wr \<mapsto> w')\<rparr>)"
  by (rule wins_inv) (auto dest: geometry_op)

lemma server_step_inv: "mgr_inv (mgr S) \<Longrightarrow> server_step S S' \<Longrightarrow> mgr_inv (mgr S')"
  by (erule server_step.cases)
    (auto intro: create_inv register_inv touch_inv chunk_inv written_inv complete_inv terminate_kill_inv remove_inv
      finish_attempt_inv window_inv)

lemma server_start_inv: "server_start S \<Longrightarrow> mgr_inv (mgr S)"
  by (simp add: server_start_def mgr_inv_def tables_ok_def)

interpretation sessions: invariant_machine server_start server_step "\<lambda>S. mgr_inv (mgr S)"
  by unfold_locales (rule server_start_inv, assumption, rule server_step_inv)

section \<open>Life of a session\<close>

definition finished :: "State \<Rightarrow> bool" where
  "finished st \<longleftrightarrow> st = StateCompleted \<or> st = StateFailedPermanent \<or> st = StateAborted"

text \<open>What one step can do to a session: its identity stays, and a finished session stays finished.\<close>

definition life_step :: "Session \<Rightarrow> Session \<Rightarrow> bool" where
  "life_step s t \<longleftrightarrow> same_identity s t \<and> (finished (sstate s) \<longrightarrow> finished (sstate t)) \<and>
     (sstate t = StateAborted \<longrightarrow> sstate s = StateAborted \<or> sstate s = StateReceiving) \<and>
     (sstate t = StateFailedRetriable \<longrightarrow> sstate s = StateFailedRetriable \<or> sstate s = StateReceiving)"

lemma life_step_refl [simp]: "life_step s s"
  by (simp add: life_step_def same_identity_def)

lemma life_update:
  assumes "heap m q = Some s" "\<And>u. life_step u (f u)"
  shows "\<exists>t. heap (update_session r f m) q = Some t \<and> life_step s t"
  using assms by (auto simp: update_session_def)

lemma heap_kill [simp]: "heap (killAttemptLocked m s) = heap m"
  by (simp add: killAttemptLocked_def split: option.split)

lemma heap_remove [simp]: "heap (remove m s) = heap m"
  by (simp add: remove_def Let_def)

lemma heap_register [simp]: "heap (Init_register m r) = heap m"
  by (simp add: Init_register_def split: option.split)

lemma life_restart:
  assumes "startAttemptLocked m r wr ioErr = Some (Inr m')" "heap m r = Some u" "sstate u = StateFailedRetriable" "heap m q = Some s"
  shows "\<exists>t. heap m' q = Some t \<and> life_step s t"
  using assms by (elim startD) (auto simp: life_step_def same_identity_def finished_def)

lemma life_chunk:
  assumes "Chunk_locked m r idx wr ioErr = Some (res, m')" "heap m q = Some s"
  shows "\<exists>t. heap m' q = Some t \<and> life_step s t"
  using assms life_restart [of m r wr ioErr]
  by (auto simp: Chunk_locked_def Chunk_write_def split: option.splits State.splits if_splits sum.splits)

lemma life_create:
  assumes "Init_create m req r wr uuid ioErr now = Some (Inr m')" "heap m r = None" "heap m q = Some s"
  shows "heap m' q = Some s"
  using assms by (auto simp: Init_create_def update_session_def split: option.splits sum.splits elim!: startD)

lemma life_finish: "life_step s (finish_state wr tables e now s)"
  by (auto simp: life_step_def finish_state_def touch_def same_identity_def finished_def Let_def split: option.split State.splits)

lemma server_step_life:
  assumes "server_step S S'" "heap (mgr S) r = Some s"
  shows "\<exists>t. heap (mgr S') r = Some t \<and> life_step s t"
  using assms(1)
proof cases
  case (create q wr uuid req ioErr now m')
  then show ?thesis using life_create assms(2) by fastforce
next
  case (chunk q wr idx ioErr res m')
  then show ?thesis using life_chunk assms(2) by fastforce
next
  case (written q crc prev e m')
  have "life_step u (u\<lparr>sstate := StateFailedPermanent, serr := Some changedMsg\<rparr>)" for u
    by (simp add: life_step_def same_identity_def finished_def)
  then show ?thesis using written assms(2) life_update [OF assms(2)]
    by (auto simp: Chunk_written_def split: option.splits if_splits)
next
  case (complete q now res m')
  have "heap m' = heap (update_session q (touch now) (mgr S))"
    using complete by (auto simp: Complete_finish_def Let_def split: option.splits if_splits)
  moreover have "life_step u (touch now u)" for u by (simp add: touch_def life_step_def same_identity_def)
  ultimately show ?thesis using complete(1) life_update [OF assms(2)] by simp
next
  case (kill ident q cause)
  have "life_step u (terminate_state cause u)" for u
    by (auto simp: terminate_state_def life_step_def same_identity_def finished_def)
  then show ?thesis using kill(1) assms(2) life_update [OF assms(2)] by (auto simp: terminate_kill_def split: option.split)
next
  case (finish q wr e now)
  then show ?thesis using assms(2) life_update [OF _ life_finish, of _ r s]
    by (auto simp: finishAttempt_def Let_def split: option.split)
next
  case (acquire u i q now)
  have "life_step u (touch now u)" for u by (simp add: touch_def life_step_def same_identity_def)
  then show ?thesis using acquire(1) life_update [OF assms(2)] by simp
qed (use assms(2) in auto)

lemma server_steps_life:
  assumes "server_step\<^sup>*\<^sup>* S S'" "heap (mgr S) r = Some s"
  shows "\<exists>t. heap (mgr S') r = Some t \<and> same_identity s t \<and> (finished (sstate s) \<longrightarrow> finished (sstate t))"
  using assms
proof (induction rule: rtranclp_induct)
  case base
  then show ?case by (simp add: same_identity_def)
next
  case (step S1 S2)
  then obtain u where u: "heap (mgr S1) r = Some u" "same_identity s u" "finished (sstate s) \<longrightarrow> finished (sstate u)" by blast
  then obtain t where "heap (mgr S2) r = Some t" "life_step u t" using server_step_life [OF step(2)] by blast
  with u show ?case by (auto simp: life_step_def same_identity_def)
qed

section \<open>Keys\<close>

lemma sessionKey_inj:
  assumes "sessionKey u p n = sessionKey v q k"
  shows "u = v \<and> p = q \<and> n = k"
proof -
  have bar: "CHR ''|'' \<notin> set (FormatInt i)" for i by (auto dest!: FormatInt_chars simp: is_digit_def)
  have eq: "FormatInt (int u) @ CHR ''|'' # (p @ CHR ''|'' # FormatInt n) = FormatInt (int v) @ CHR ''|'' # (q @ CHR ''|'' # FormatInt k)"
    using assms by (simp add: sessionKey_def)
  have 1: "FormatInt (int u) = FormatInt (int v)" "p @ CHR ''|'' # FormatInt n = q @ CHR ''|'' # FormatInt k"
    using append_Cons_eq_first [OF eq bar bar] by auto
  have "rev (FormatInt n) @ CHR ''|'' # rev p = rev (FormatInt k) @ CHR ''|'' # rev q"
    using arg_cong [OF 1(2), of rev] by simp
  then have "rev (FormatInt n) = rev (FormatInt k)" "rev p = rev q"
    using append_Cons_eq_first [of "rev (FormatInt n)" "CHR ''|''" "rev p"] bar by auto
  then show ?thesis using FormatInt_inj [OF 1(1)] FormatInt_inj [of n k] by simp
qed

section \<open>Properties\<close>

definition sample_user :: User where
  "sample_user = \<lparr>ID = 1, Username = ''u'', PwdHash = '''', PwdTS = 0, Salt = '''', Password = '''', BasePath = ''/'',
     Role = 0, Disabled = False, Permission = 0, OtpSecret = '''', SsoID = '''', Authn = '''', AllowLdap = False\<rparr>"

definition sample_req :: InitReq where
  "sample_req = \<lparr>iUser = sample_user, iPath = ''/f'', iSize = 1, iChunkSize = 1, iMimetype = '''', iModified = 0, iHashes = []\<rparr>"

text \<open>The session of \<open>sample_req\<close> while it receives, on the window at address \<open>wr\<close>.\<close>

definition sample_session :: "nat \<Rightarrow> Session" where
  "sample_session wr = (new_session sample_req ''id'' 0)\<lparr>swin := Some wr, sdone := Some wr, sTotal := 1\<rparr>"

definition sample_win :: Window where
  "sample_win = \<lparr>chunkSize = 1, totalSize = 1, total = 1, slots = 8, slotState = replicate 8 slotFree,
     slotChunk = replicate 8 (-1), readPos = 0, crcs = [0], crcSet = [False], err = None, file_open = True\<rparr>"

lemma sample_NewWindow: "NewWindow False 1 1 WindowSlots = NewWin sample_win"
  by (simp add: NewWindow_def sample_win_def WindowSlots_def wrap64_id int64_defs)

definition sample_created :: Server where
  "sample_created = \<lparr>mgr = \<lparr>byID = Map.empty, byKey = Map.empty, heap = [0 \<mapsto> sample_session 0],
     wins = [0 \<mapsto> sample_win], pipes = [(0, 0)]\<rparr>, pending = {0}, held = {}, killed = {}\<rparr>"

definition sample_registered :: Server where
  "sample_registered = sample_created\<lparr>mgr := (mgr sample_created)\<lparr>byID := [''id'' \<mapsto> 0],
     byKey := [sessionKey 1 ''/f'' 1 \<mapsto> ''id'']\<rparr>, pending := {}\<rparr>"

lemmas sample_simps = sample_created_def sample_registered_def sample_session_def sample_req_def sample_user_def
  new_session_def PathSplit_def

lemma sample_create: "reachable server_start server_step sample_created"
proof -
  let ?S = "\<lparr>mgr = \<lparr>byID = Map.empty, byKey = Map.empty, heap = Map.empty, wins = Map.empty, pipes = []\<rparr>,
    pending = {}, held = {}, killed = {}\<rparr> :: Server"
  have "Init_create (mgr ?S) sample_req 0 0 ''id'' False 0 = Some (Inr (mgr sample_created))"
    using sample_NewWindow
    by (simp add: Init_create_def startAttemptLocked_def sample_simps update_session_def TotalChunks_def sample_win_def)
  then have "server_step ?S sample_created"
    using server_step.create [of ?S 0 0 "''id''" sample_req False 0 "mgr sample_created"]
    by (simp add: Init_check_def sample_req_def sample_created_def)
  moreover have "server_start ?S" by (simp add: server_start_def)
  ultimately show ?thesis by (meson reachable_start reachable_step)
qed

lemma sample_register: "reachable server_start server_step sample_registered"
proof -
  have "server_step sample_created sample_registered"
    using server_step.register [of 0 sample_created]
    by (simp add: Init_register_def sample_simps key_of_def)
  then show ?thesis by (rule reachable_step [OF sample_create])
qed

lemma sample_session_simps [simp]:
  "sID (sample_session wr) = ''id''" "ID (sCreator (sample_session wr)) = 1" "sPath (sample_session wr) = ''/f''"
  "sSize (sample_session wr) = 1" "sChunkSize (sample_session wr) = 1" "sstate (sample_session wr) = StateReceiving"
  "swin (sample_session wr) = Some wr" "prevSet (sample_session wr) = []" "sTotal (sample_session wr) = 1"
  by (simp_all add: sample_session_def new_session_def sample_req_def sample_user_def PathSplit_def)

text \<open>C33: One pipeline per session.  In every state the server can reach, a session that is receiving has
  a window of exactly its own size and chunk size, and exactly one goroutine uploads from it; so a chunk
  never meets a missing window and the same destination is never written by two attempts at once.\<close>

theorem receiving_single_pipeline:
  assumes "reachable server_start server_step S" "heap (mgr S) r = Some s" "sstate s = StateReceiving"
  shows "\<exists>wr w. swin s = Some wr \<and> wins (mgr S) wr = Some w \<and> {a. (r, a) \<in> set (pipes (mgr S))} = {wr} \<and>
    chunkSize w = sChunkSize s \<and> totalSize w = sSize s \<and> TotalChunks w = sTotal s"
proof -
  have inv: "mgr_inv (mgr S)" using assms(1) by (rule sessions.reachable_inv)
  obtain wr where wr: "swin s = Some wr" "(r, wr) \<in> set (pipes (mgr S))"
    using mgr_invD(2) [OF inv assms(2)] assms(3) by (auto simp: session_ok_def)
  moreover have "{a. (r, a) \<in> set (pipes (mgr S))} = {wr}" using mgr_invD(5) [OF inv _ wr(2)] wr(2) by blast
  ultimately show ?thesis
    using mgr_invD(4) [OF inv wr(2)] assms(2) by (auto simp: pipe_ok_def geometry_def TotalChunks_def)
qed

theorem receiving_single_pipeline_witness:
  "reachable server_start server_step sample_registered \<and> {a. (0, a) \<in> set (pipes (mgr sample_registered))} = {0}"
  using receiving_single_pipeline [OF sample_register, of 0 "sample_session 0"] sample_register
  by (auto simp: sample_registered_def sample_created_def)

text \<open>C34: A finished session never comes back to life.  Whatever requests, the collector and the
  goroutines do later, a session that completed, failed for good or was aborted stays in one of these
  three states, and keeps its id, owner, path, size and chunk size.\<close>

theorem session_no_revival:
  assumes "server_step\<^sup>*\<^sup>* S S'" "heap (mgr S) r = Some s"
    and "sstate s = StateCompleted \<or> sstate s = StateFailedPermanent \<or> sstate s = StateAborted"
  shows "\<exists>t. heap (mgr S') r = Some t \<and> sID t = sID s \<and> sCreator t = sCreator s \<and> sPath t = sPath s \<and>
    sSize t = sSize s \<and> sChunkSize t = sChunkSize s \<and>
    (sstate t = StateCompleted \<or> sstate t = StateFailedPermanent \<or> sstate t = StateAborted)"
  using server_steps_life [OF assms(1,2)] assms(3) by (auto simp: finished_def same_identity_def)

text \<open>The collector terminates the sample session and forgets it.\<close>

definition sample_aborted :: Server where
  "sample_aborted = sample_registered\<lparr>mgr := terminate_kill (mgr sample_registered) 0 expiredMsg, held := {0}, killed := {0}\<rparr>"

lemma sample_abort_session:
  "heap (mgr sample_aborted) 0 = Some (terminate_state expiredMsg (sample_session 0))"
  by (simp add: sample_aborted_def sample_registered_def sample_created_def terminate_kill_def update_session_def)

lemma sample_abort_step:
  "server_step sample_aborted (sample_aborted\<lparr>mgr := remove (mgr sample_aborted) (terminate_state expiredMsg (sample_session 0)), killed := {}\<rparr>)"
  using server_step.forget [OF _ sample_abort_session] by (simp add: sample_aborted_def)

theorem session_no_revival_witness:
  "\<exists>S' t. server_step sample_aborted S' \<and> byID (mgr S') ''id'' = None \<and> heap (mgr S') 0 = Some t \<and> sID t = ''id'' \<and>
     sstate t \<noteq> StateReceiving"
proof -
  let ?s = "terminate_state expiredMsg (sample_session 0)"
  have s: "sstate ?s = StateAborted" "sID ?s = ''id''" by (simp_all add: terminate_state_def)
  have "server_step\<^sup>*\<^sup>* sample_aborted (sample_aborted\<lparr>mgr := remove (mgr sample_aborted) ?s, killed := {}\<rparr>)"
    using sample_abort_step by (rule r_into_rtranclp)
  from session_no_revival [OF this sample_abort_session] s
  obtain t where "heap (mgr (sample_aborted\<lparr>mgr := remove (mgr sample_aborted) ?s, killed := {}\<rparr>)) 0 = Some t"
      "sID t = ''id''" "sstate t \<noteq> StateReceiving" by auto
  then show ?thesis using sample_abort_step s by (auto simp: remove_def Let_def intro!: exI)
qed

text \<open>Looking a session up by path and size finds the asker's own upload of that path and size, and
  nothing else: the key of the lookup table determines user, path and size, and no entry is stale.\<close>

theorem Find_finds_own_upload:
  assumes "reachable server_start server_step S"
  shows "(case byKey (mgr S) (sessionKey userID path sz) of
      None \<Rightarrow> fst (Find (mgr S) userID path sz now) = Inl [ErrSessionNotFound]
    | Some ident \<Rightarrow> (\<exists>snap r s. fst (Find (mgr S) userID path sz now) = Inr (Some snap) \<and>
        byID (mgr S) ident = Some r \<and> heap (mgr S) r = Some s \<and> ID (sCreator s) = userID \<and>
        nID snap = ident \<and> nPath snap = path \<and> nSize snap = sz))"
proof (cases "byKey (mgr S) (sessionKey userID path sz)")
  case None
  then show ?thesis by (simp add: Find_def)
next
  case (Some ident)
  have t: "tables_ok (mgr S)" using mgr_invD(1) sessions.reachable_inv [OF assms] by blast
  obtain r s where s: "byID (mgr S) ident = Some r" "heap (mgr S) r = Some s" "key_of s = sessionKey userID path sz"
    using tables_okD(2) [OF t Some] by blast
  moreover have "sID s = ident" using tables_okD(1) [OF t s(1)] s(2) by simp
  moreover have "ID (sCreator s) = userID" "sPath s = path" "sSize s = sz"
    using sessionKey_inj s(3) by (auto simp: key_of_def)
  ultimately show ?thesis using Some
    by (auto simp: Find_def Status_def get_session_def session_snapshot_def update_session_def snapshotLocked_def touch_def Let_def
        split: option.split)
qed

theorem Find_finds_own_upload_witness:
  "\<exists>snap. fst (Find (mgr sample_registered) 1 ''/f'' 1 9) = Inr (Some snap) \<and> nID snap = ''id''"
  using Find_finds_own_upload [OF sample_register, of 1 "''/f''" 1 9] by (auto simp: sample_registered_def sample_created_def)

text \<open>When \<open>Chunk\<close> crashes.  In every reachable state the critical section of \<open>Chunk\<close> panics exactly when the
  index is negative and the session is receiving: the index is compared with the length of the previous
  attempt's table but not with zero.  The code holds the session's mutex at that point and does not
  release it when it panics.\<close>

theorem Chunk_panics_iff:
  assumes "reachable server_start server_step S" "heap (mgr S) r = Some s"
  shows "Chunk_locked (mgr S) r idx wr ioErr = None \<longleftrightarrow> sstate s = StateReceiving \<and> idx < 0"
proof -
  have inv: "mgr_inv (mgr S)" using assms(1) by (rule sessions.reachable_inv)
  note ok = mgr_invD(2) [OF inv assms(2)]
  have start: "startAttemptLocked (mgr S) r wr ioErr \<noteq> None"
    using mgr_invD(3) [OF inv assms(2)] assms(2)
    by (auto simp: startAttemptLocked_def total_ok_def NewWindow_def Let_def split: option.splits if_splits new_window.splits)
  have wrt: "Chunk_write m r u idx = None \<longleftrightarrow> swin u = None \<or> idx < 0" for m u
    by (auto simp: Chunk_write_def prev_crc_def split: option.splits)
  show ?thesis
  proof (cases "sstate s = StateFailedRetriable \<and> idx = 0")
    case True
    then obtain x where x: "startAttemptLocked (mgr S) r wr ioErr = Some x" using start by auto
    show ?thesis
    proof (cases x)
      case (Inr m2)
      then obtain u where "heap m2 r = Some u" "swin u = Some wr" using x by (auto elim!: startD)
      then show ?thesis using True x Inr assms(2) wrt by (simp add: Chunk_locked_def)
    qed (use True x assms(2) in \<open>simp add: Chunk_locked_def\<close>)
  next
    case False
    then show ?thesis using assms(2) ok wrt
      by (cases "sstate s") (auto simp: Chunk_locked_def session_ok_def)
  qed
qed

text \<open>Terminating a session that may be retried leaves it retryable, so a request that had looked it up
  before can still start a new attempt after the session is gone from the tables.  Such a state is
  reachable: the attempt runs, no upload id leads to the session any more, so no chunk, abort or
  collection can ever reach it.\<close>

theorem retry_after_terminate_orphans:
  "\<exists>S s. reachable server_start server_step S \<and> heap (mgr S) 0 = Some s \<and> sstate s = StateReceiving \<and>
     pipes (mgr S) = [(0, 1)] \<and> byID (mgr S) = Map.empty \<and> pending S = {} \<and> killed S = {}"
proof -
  let ?e = "[Msg ''network'']"
  define f where "f = finish_state 0 (CRCs sample_win) (Some ?e) 0 (sample_session 0)"
  have f: "sstate f = StateFailedRetriable" "sID f = ''id''" "ID (sCreator f) = 1" "sChunkSize f = 1" "sSize f = 1"
    "prevSet f = [False]" "key_of f = sessionKey 1 ''/f'' 1"
    by (simp_all add: f_def finish_state_def touch_def isPermanentPutError_def errors_Is_def CRCs_def sample_win_def key_of_def Let_def)
  define t where "t = touch 0 f"
  have t: "sstate t = StateFailedRetriable" "sID t = ''id''" "ID (sCreator t) = 1" "sChunkSize t = 1" "sSize t = 1"
    "prevSet t = [False]" "key_of t = sessionKey 1 ''/f'' 1" "swin t = None"
    using f by (simp_all add: t_def touch_def key_of_def) (simp add: f_def finish_state_def touch_def Let_def isPermanentPutError_def errors_Is_def)
  let ?m1 = "(mgr sample_registered)\<lparr>wins := [0 \<mapsto> Close sample_win], pipes := [], heap := [0 \<mapsto> f]\<rparr>"
  let ?S1 = "sample_registered\<lparr>mgr := ?m1\<rparr>"
  let ?S2 = "?S1\<lparr>mgr := ?m1\<lparr>heap := [0 \<mapsto> t]\<rparr>, held := {0}\<rparr>"
  let ?S3 = "?S2\<lparr>killed := {0}\<rparr>"
  let ?S4 = "?S2\<lparr>mgr := ?m1\<lparr>heap := [0 \<mapsto> t], byID := Map.empty, byKey := Map.empty\<rparr>\<rparr>"
  let ?u = "t\<lparr>swin := Some 1, sdone := Some 1, sstate := StateReceiving, serr := None, storagePct := 0\<rparr>"
  let ?S5 = "?S4\<lparr>mgr := (mgr ?S4)\<lparr>wins := (wins (mgr ?S4))(1 \<mapsto> sample_win), pipes := [(0, 1)], heap := [0 \<mapsto> ?u]\<rparr>\<rparr>"
  have "server_step sample_registered ?S1"
    using server_step.finish [of 0 0 sample_registered "Some ?e" 0]
    by (simp add: sample_registered_def sample_created_def finishAttempt_def update_session_def f_def)
  moreover have "server_step ?S1 ?S2"
    using server_step.acquire [of ?S1 1 "''id''" 0 0] f
    by (simp add: sample_registered_def sample_created_def get_session_def update_session_def t_def)
  moreover have "server_step ?S2 ?S3"
    using server_step.kill [of ?S2 "''id''" 0 ?e] t
    by (simp add: sample_registered_def sample_created_def terminate_kill_def killAttemptLocked_def update_session_def terminate_state_def)
  moreover have "server_step ?S3 ?S4"
    using server_step.forget [of 0 ?S3 t] t
    by (simp add: sample_registered_def sample_created_def remove_def Let_def)
  moreover have "server_step ?S4 ?S5"
    using server_step.chunk [of 0 ?S4 1 0 False "ChunkWrite 0 1 None" "mgr ?S5"] t sample_NewWindow
    by (simp add: sample_registered_def sample_created_def Chunk_locked_def Chunk_write_def startAttemptLocked_def prev_crc_def)
  ultimately have "reachable server_start server_step ?S5"
    by (meson sample_register reachable_step)
  then show ?thesis by (intro exI [of _ ?S5] exI [of _ ?u]) (simp add: sample_registered_def sample_created_def)
qed

theorem Chunk_panics_iff_witness:
  "Chunk_locked (mgr sample_registered) 0 (-1) 5 False = None \<and> Chunk_locked (mgr sample_registered) 0 3 5 False \<noteq> None"
proof -
  have h: "heap (mgr sample_registered) 0 = Some (sample_session 0)" by (simp add: sample_registered_def sample_created_def)
  then show ?thesis using Chunk_panics_iff [OF sample_register h] by simp
qed

lemma qualify_loop_spec:
  "qualify_loop old new shared \<longleftrightarrow>
     (\<forall>(t, v) \<in> set old. map_of new t \<in> {None, Some v}) \<and> (shared \<or> (\<exists>(t, v) \<in> set old. map_of new t = Some v))"
  by (induction old new shared rule: qualify_loop.induct) (auto split: option.splits)

text \<open>What an \<open>Init\<close> request does to an upload in progress.  The request resumes the asker's registered
  session of the same path and size exactly when that session waits for a retry, or when it is receiving
  and the hashes of both requests share a type and agree on every shared one, in whatever order the maps
  are visited; otherwise such a session is terminated and a new one takes its place.\<close>

theorem Init_resumes_iff:
  assumes "Init_check req = None" "byKey m (sessionKey (ID (iUser req)) (iPath req) (iSize req)) = Some ident"
    and "byID m ident = Some q" "heap m q = Some s"
  defines "same_file \<equiv> (\<forall>(t, v) \<in> set (sHashes s). map_of (iHashes req) t \<in> {None, Some v}) \<and>
    (\<exists>(t, v) \<in> set (sHashes s). map_of (iHashes req) t = Some v)"
  shows "if sstate s = StateFailedRetriable \<or> sstate s = StateReceiving \<and> same_file
    then Init m req r wr uuid ioErr now =
      Some (Inr (Some (snapshotLocked (update_session q (touch now) m) (touch now s)), True), update_session q (touch now) m)
    else Init m req r wr uuid ioErr now =
      (case Init_create (terminate m q supersededMsg) req r wr uuid ioErr now of
         None \<Rightarrow> None
       | Some (Inl e) \<Rightarrow> Some (Inl e, terminate m q supersededMsg)
       | Some (Inr m2) \<Rightarrow> Some (Inr (session_snapshot m2 r, False), Init_register m2 r))"
  using assms qualify_loop_spec [of "sHashes s" "iHashes req" False]
  by (auto simp: Init_def Init_lookup_def hashesQualifyResume_def session_snapshot_def update_session_def same_file_def Let_def)

theorem Init_resumes_iff_witness:
  "\<exists>snap m'. Init ((mgr sample_registered)\<lparr>heap := [0 \<mapsto> (sample_session 0)\<lparr>sHashes := [(''md5'', ''x'')]\<rparr>]\<rparr>)
     (sample_req\<lparr>iHashes := [(''sha1'', ''y''), (''md5'', ''x'')]\<rparr>) 7 7 ''other'' False 3 = Some (Inr (snap, True), m')"
  using Init_resumes_iff [of "sample_req\<lparr>iHashes := [(''sha1'', ''y''), (''md5'', ''x'')]\<rparr>"
      "(mgr sample_registered)\<lparr>heap := [0 \<mapsto> (sample_session 0)\<lparr>sHashes := [(''md5'', ''x'')]\<rparr>]\<rparr>" "''id''" 0
      "(sample_session 0)\<lparr>sHashes := [(''md5'', ''x'')]\<rparr>" 7 7 "''other''" False 3]
  by (simp add: Init_check_def sample_req_def sample_user_def sample_registered_def sample_created_def)

text \<open>The effective chunk size is at least one mebibyte and never above the administrator's ceiling (or one
  mebibyte, if the ceiling is below that), whatever a client suggests; and a suggestion is followed
  as far as these bounds allow.\<close>

lemma multipartChunkSize_bounds:
  "multipartMinChunkSize \<le> multipartChunkSize setting requested \<and>
   multipartChunkSize setting requested \<le> max multipartMinChunkSize (wrap64 (setting * 2 ^ 20)) \<and>
   (requested \<le> 0 \<or> multipartChunkSize setting requested =
      max multipartMinChunkSize (min requested (wrap64 (setting * 2 ^ 20))))"
  by (auto simp: multipartChunkSize_def Let_def)

end
