(* ===== verification/Go_Heap.thy ===== *)
theory Go_Heap
  imports Go_Prelude "HOL-Library.Multiset"
begin

text \<open>
  The binary heap of Go's \<open>container/heap\<close>, as far as the repository uses it.  Like the package,
  the functions see the collection only through its interface: \<open>Len\<close>, \<open>Less\<close>, \<open>Swap\<close>, \<open>Push\<close>
  and \<open>Pop\<close> on a state that holds it.  The locale states what an implementation of that
  interface promises, the lemmas in it what the functions then do.
\<close>

section \<open>The functions\<close>

fun heap_up :: "('s \<Rightarrow> nat \<Rightarrow> nat \<Rightarrow> bool) \<Rightarrow> ('s \<Rightarrow> nat \<Rightarrow> nat \<Rightarrow> 's) \<Rightarrow> 's \<Rightarrow> nat \<Rightarrow> 's" where
  "heap_up lt swap h j =
     (let i = (j - 1) div 2
      in if i = j \<or> \<not> lt h j i then h else heap_up lt swap (swap h i j) i)"

declare heap_up.simps [simp del]

text \<open>The result of \<open>down\<close> is the state and where the element ended up.\<close>

function heap_down :: "('s \<Rightarrow> nat \<Rightarrow> nat \<Rightarrow> bool) \<Rightarrow> ('s \<Rightarrow> nat \<Rightarrow> nat \<Rightarrow> 's) \<Rightarrow> 's \<Rightarrow> nat \<Rightarrow> nat \<Rightarrow> 's \<times> nat" where
  "heap_down lt swap h i n =
     (let j1 = 2 * i + 1
      in if n \<le> j1 then (h, i)
         else let j = (if j1 + 1 < n \<and> lt h (j1 + 1) j1 then j1 + 1 else j1)
              in if \<not> lt h j i then (h, i) else heap_down lt swap (swap h i j) j n)"
  by pat_completeness auto

termination
  by (relation "measure (\<lambda>(lt, swap, h, i, n). n - i)") (auto split: if_splits)

declare heap_down.simps [simp del]

definition heap_Push ::
  "('s \<Rightarrow> nat) \<Rightarrow> ('s \<Rightarrow> nat \<Rightarrow> nat \<Rightarrow> bool) \<Rightarrow> ('s \<Rightarrow> nat \<Rightarrow> nat \<Rightarrow> 's) \<Rightarrow> ('s \<Rightarrow> 'x \<Rightarrow> 's) \<Rightarrow> 's \<Rightarrow> 'x \<Rightarrow> 's" where
  "heap_Push len lt swap push h x = (let h1 = push h x in heap_up lt swap h1 (len h1 - 1))"

definition heap_Remove ::
  "('s \<Rightarrow> nat) \<Rightarrow> ('s \<Rightarrow> nat \<Rightarrow> nat \<Rightarrow> bool) \<Rightarrow> ('s \<Rightarrow> nat \<Rightarrow> nat \<Rightarrow> 's) \<Rightarrow> ('s \<Rightarrow> 's) \<Rightarrow> 's \<Rightarrow> nat \<Rightarrow> 's" where
  "heap_Remove len lt swap pop h i =
     (let n = len h - 1
      in pop (if n \<noteq> i
              then let (h2, i') = heap_down lt swap (swap h i n) i n
                   in if i' > i then h2 else heap_up lt swap h2 i
              else h))"

section \<open>Order\<close>

text \<open>
  The order is a property of edges, and an edge is named by its lower end.  \<open>ordered_except E\<close>
  says that every edge but those in \<open>E\<close> is in order; \<open>skips i\<close> that the children of \<open>i\<close> are in
  order with the parent of \<open>i\<close>.
\<close>

abbreviation parent :: "nat \<Rightarrow> nat" where "parent k \<equiv> (k - 1) div 2"

definition ordered_except :: "nat set \<Rightarrow> 'k::linorder list \<Rightarrow> nat \<Rightarrow> bool" where
  "ordered_except E ks n \<longleftrightarrow> (\<forall>k. 0 < k \<and> k < n \<and> k \<notin> E \<longrightarrow> ks ! parent k \<le> ks ! k)"

definition skips :: "nat \<Rightarrow> 'k::linorder list \<Rightarrow> nat \<Rightarrow> bool" where
  "skips i ks n \<longleftrightarrow> (\<forall>k. 0 < k \<and> k < n \<and> parent k = i \<and> 0 < i \<longrightarrow> ks ! parent i \<le> ks ! k)"

definition heap_ordered :: "'k::linorder list \<Rightarrow> bool" where
  "heap_ordered ks \<longleftrightarrow> ordered_except {} ks (length ks)"

definition children :: "nat \<Rightarrow> nat set" where
  "children i = {k. 0 < k \<and> parent k = i}"

lemma ordered_exceptD: "ordered_except E ks n \<Longrightarrow> 0 < k \<Longrightarrow> k < n \<Longrightarrow> k \<notin> E \<Longrightarrow> ks ! parent k \<le> ks ! k"
  by (simp add: ordered_except_def)

lemma skipsD: "skips i ks n \<Longrightarrow> 0 < k \<Longrightarrow> k < n \<Longrightarrow> parent k = i \<Longrightarrow> 0 < i \<Longrightarrow> ks ! parent i \<le> ks ! k"
  by (simp add: skips_def)

lemma parent_less: "0 < k \<Longrightarrow> parent k < k"
  by linarith

lemma parent_child: "0 < k \<Longrightarrow> parent k = i \<longleftrightarrow> k = 2 * i + 1 \<or> k = 2 * i + 2"
  by linarith

definition list_swap :: "'a list \<Rightarrow> nat \<Rightarrow> nat \<Rightarrow> 'a list" where
  "list_swap xs i j = xs[i := xs ! j, j := xs ! i]"

lemma length_list_swap [simp]: "length (list_swap xs i j) = length xs"
  by (simp add: list_swap_def)

lemma list_swap_nth:
  "i < length xs \<Longrightarrow> j < length xs \<Longrightarrow> k < length xs \<Longrightarrow>
   list_swap xs i j ! k = (if k = j then xs ! i else if k = i then xs ! j else xs ! k)"
  by (simp add: list_swap_def nth_list_update)

lemma mset_list_swap: "i < length xs \<Longrightarrow> j < length xs \<Longrightarrow> mset (list_swap xs i j) = mset xs"
  unfolding list_swap_def by (cases "i = j") (auto simp: mset_swap)

lemma drop_list_swap: "i < n \<Longrightarrow> j < n \<Longrightarrow> drop n (list_swap xs i j) = drop n xs"
  by (simp add: list_swap_def)

lemma heap_ordered_min:
  assumes "heap_ordered ks" "k < length ks"
  shows "ks ! 0 \<le> ks ! k"
  using assms(2)
proof (induction k rule: less_induct)
  case (less k)
  show ?case
  proof (cases "k = 0")
    case False
    then have "ks ! 0 \<le> ks ! parent k" using less by (auto intro!: less.IH)
    also have "\<dots> \<le> ks ! k" using assms(1) False less(2) by (simp add: heap_ordered_def ordered_except_def)
    finally show ?thesis .
  qed simp
qed

lemma up_swap:
  assumes "ordered_except {j} ks n" "skips j ks n" "0 < j" "j < n" "n \<le> length ks" "ks ! j < ks ! parent j"
  shows "ordered_except {parent j} (list_swap ks (parent j) j) n" "skips (parent j) (list_swap ks (parent j) j) n"
proof -
  let ?i = "parent j" and ?ks = "list_swap ks (parent j) j"
  have i: "?i < j" using parent_less [OF assms(3)] .
  have nth: "?ks ! k = (if k = j then ks ! ?i else if k = ?i then ks ! j else ks ! k)" if "k < n" for k
    using that i assms(4,5) by (simp add: list_swap_nth)
  have edge: "ks ! parent k \<le> ks ! k" if "0 < k" "k < n" "k \<noteq> j" for k using ordered_exceptD [OF assms(1)] that by simp
  show "ordered_except {?i} ?ks n" unfolding ordered_except_def
  proof (intro allI impI)
    fix k assume k: "0 < k \<and> k < n \<and> k \<notin> {?i}"
    then have p: "parent k < n" using parent_less [of k] by simp
    show "?ks ! parent k \<le> ?ks ! k"
      using nth [OF p] nth [of k] k edge [of k] skipsD [OF assms(2), of k] assms(3,6) i by auto
  qed
  show "skips ?i ?ks n" unfolding skips_def
  proof (intro allI impI)
    fix k assume k: "0 < k \<and> k < n \<and> parent k = ?i \<and> 0 < ?i"
    have q: "parent ?i < ?i" using k parent_less by blast
    have up: "ks ! parent ?i \<le> ks ! ?i" using edge [of ?i] k i assms(4) by simp
    have "ks ! ?i \<le> ks ! k" if "k \<noteq> j" using edge [of k] k that by simp
    then show "?ks ! parent ?i \<le> ?ks ! k"
      using nth [of "parent ?i"] nth [of k] k q i assms(4) up parent_less [of k] by auto
  qed
qed

lemma down_swap:
  assumes "ordered_except ({i} \<union> children i) ks n" "skips i ks n" "j \<in> children i" "j < n" "n \<le> length ks"
    and "\<And>k. k \<in> children i \<Longrightarrow> k < n \<Longrightarrow> ks ! j \<le> ks ! k" "ks ! j < ks ! i"
  shows "ordered_except (children j) (list_swap ks i j) n" "skips j (list_swap ks i j) n"
proof -
  let ?ks = "list_swap ks i j"
  have j: "0 < j" "parent j = i" using assms(3) by (auto simp: children_def)
  have i: "i < j" using parent_less [OF j(1)] j(2) by simp
  have nth: "?ks ! k = (if k = j then ks ! i else if k = i then ks ! j else ks ! k)" if "k < n" for k
    using that i assms(4,5) by (simp add: list_swap_nth)
  have edge: "ks ! parent k \<le> ks ! k" if "0 < k" "k < n" "k \<noteq> i" "parent k \<noteq> i" for k
    using ordered_exceptD [OF assms(1)] that by (simp add: children_def)
  show "ordered_except (children j) ?ks n" unfolding ordered_except_def
  proof (intro allI impI)
    fix k assume k: "0 < k \<and> k < n \<and> k \<notin> children j"
    then have p: "parent k < n" "parent k \<noteq> j" using parent_less [of k] by (auto simp: children_def)
    consider "k = i" | "parent k = i" "k \<noteq> i" | "k \<noteq> i" "parent k \<noteq> i" by blast
    then show "?ks ! parent k \<le> ?ks ! k"
    proof cases
      case 1
      then have "ks ! parent i \<le> ks ! j" using skipsD [OF assms(2) j(1) assms(4) j(2)] k by simp
      then show ?thesis using 1 nth [OF p(1)] nth [of k] k p(2) parent_less [of i] i by auto
    next
      case 2
      then have "ks ! j \<le> ks ! k" using assms(6) [of k] k by (simp add: children_def)
      then show ?thesis using 2 nth [OF p(1)] nth [of k] k i assms(7) by auto
    next
      case 3
      then show ?thesis using nth [OF p(1)] nth [of k] k p(2) edge [of k] j by auto
    qed
  qed
  show "skips j ?ks n" unfolding skips_def
  proof (intro allI impI)
    fix k assume k: "0 < k \<and> k < n \<and> parent k = j \<and> 0 < j"
    have "ks ! j \<le> ks ! k" using edge [of k] k i by (metis nat_neq_iff parent_less order.strict_trans)
    then show "?ks ! parent j \<le> ?ks ! k" using nth [of k] nth [of i] k i j assms(4) parent_less [of k] by auto
  qed
qed

lemma down_index_ge: "i \<le> snd (heap_down lt swap h i n)"
proof (induction lt swap h i n rule: heap_down.induct)
  case (1 lt swap h i n)
  show ?case
    using 1 by (subst heap_down.simps) (fastforce simp: Let_def split: if_splits)
qed

section \<open>The interface\<close>

text \<open>
  \<open>elems\<close> lists what the collection holds, \<open>key\<close> is what \<open>Less\<close> compares, \<open>ok\<close> the implementation's
  own consistency and \<open>rest\<close> whatever else the state has, which the heap leaves alone.
\<close>

locale heap_interface =
  fixes len :: "'s \<Rightarrow> nat" and lt :: "'s \<Rightarrow> nat \<Rightarrow> nat \<Rightarrow> bool" and swap :: "'s \<Rightarrow> nat \<Rightarrow> nat \<Rightarrow> 's"
    and push :: "'s \<Rightarrow> 'x \<Rightarrow> 's" and pop :: "'s \<Rightarrow> 's"
    and elems :: "'s \<Rightarrow> 'x list" and key :: "'s \<Rightarrow> 'x \<Rightarrow> 'k::linorder" and ok :: "'s \<Rightarrow> bool"
    and can_push :: "'s \<Rightarrow> 'x \<Rightarrow> bool" and rest :: "'s \<Rightarrow> 'r"
  assumes len_elems: "ok s \<Longrightarrow> len s = length (elems s)"
    and lt_key: "ok s \<Longrightarrow> i < length (elems s) \<Longrightarrow> j < length (elems s) \<Longrightarrow>
      lt s i j \<longleftrightarrow> key s (elems s ! i) < key s (elems s ! j)"
    and swap_ok: "ok s \<Longrightarrow> i < length (elems s) \<Longrightarrow> j < length (elems s) \<Longrightarrow> ok (swap s i j)"
    and swap_elems: "ok s \<Longrightarrow> i < length (elems s) \<Longrightarrow> j < length (elems s) \<Longrightarrow>
      elems (swap s i j) = list_swap (elems s) i j \<and> key (swap s i j) = key s \<and> rest (swap s i j) = rest s"
    and push_ok: "ok s \<Longrightarrow> can_push s x \<Longrightarrow> ok (push s x) \<and> elems (push s x) = elems s @ [x] \<and>
      key (push s x) = key s \<and> rest (push s x) = rest s"
    and pop_ok: "ok s \<Longrightarrow> elems s \<noteq> [] \<Longrightarrow> ok (pop s) \<and> elems (pop s) = butlast (elems s) \<and>
      key (pop s) = key s \<and> rest (pop s) = rest s"
begin

definition keys :: "'s \<Rightarrow> 'k list" where
  "keys s = map (key s) (elems s)"

lemma keys_swap:
  assumes "ok s" "i < length (elems s)" "j < length (elems s)"
  shows "keys (swap s i j) = list_swap (keys s) i j"
  using swap_elems [OF assms] assms by (simp add: keys_def list_swap_def map_update)

lemma keys_nth: "i < length (elems s) \<Longrightarrow> keys s ! i = key s (elems s ! i)"
  by (simp add: keys_def)

definition frame :: "nat \<Rightarrow> 's \<Rightarrow> 's \<Rightarrow> bool" where
  "frame n s t \<longleftrightarrow> ok t \<and> mset (elems t) = mset (elems s) \<and> drop n (elems t) = drop n (elems s) \<and>
     key t = key s \<and> rest t = rest s"

lemma frame_length: "frame n s t \<Longrightarrow> length (elems t) = length (elems s)"
  unfolding frame_def by (metis size_mset)

lemma frame_trans: "frame n s t \<Longrightarrow> frame n t u \<Longrightarrow> frame n s u"
  by (simp add: frame_def)

lemma frame_swap:
  assumes "ok s" "i < n" "j < n" "n \<le> length (elems s)"
  shows "frame n s (swap s i j)"
  using swap_elems [of s i j] swap_ok [of s i j] assms
  by (simp add: frame_def mset_list_swap drop_list_swap)

lemma up_spec:
  assumes "ok s" "j < n" "n \<le> length (elems s)" "ordered_except {j} (keys s) n" "skips j (keys s) n"
  shows "frame n s (heap_up lt swap s j) \<and> ordered_except {} (keys (heap_up lt swap s j)) n"
  using assms
proof (induction j arbitrary: s rule: less_induct)
  case (less j)
  note 1 = less(2-)
  let ?i = "parent j"
  have jl: "j < length (elems s)" using 1(2,3) by simp
  show ?case
  proof (cases "?i = j \<or> \<not> lt s j ?i")
    case True
    then have eq: "heap_up lt swap s j = s" by (subst heap_up.simps) (simp add: Let_def)
    have "keys s ! parent j \<le> keys s ! j" if "0 < j"
      using True that lt_key [OF 1(1) jl, of ?i] parent_less [OF that] jl by (auto simp: keys_nth)
    then have "ordered_except {} (keys s) n" using 1(4) by (auto simp: ordered_except_def)
    then show ?thesis using eq 1(1) by (simp add: frame_def)
  next
    case False
    then have j: "0 < j" by auto
    have i: "?i < n" "?i < length (elems s)" using parent_less [OF j] 1(2,3) by auto
    have "keys s ! j < keys s ! ?i" using False lt_key [OF 1(1) jl i(2)] jl i(2) by (simp add: keys_nth)
    then have sw: "ordered_except {?i} (list_swap (keys s) ?i j) n" "skips ?i (list_swap (keys s) ?i j) n"
      using up_swap [OF 1(4,5) j 1(2)] 1(3) by (auto simp: keys_def)
    have fr: "frame n s (swap s ?i j)" using frame_swap [OF 1(1) i(1) 1(2,3)] .
    have "frame n (swap s ?i j) (heap_up lt swap (swap s ?i j) ?i) \<and> ordered_except {} (keys (heap_up lt swap (swap s ?i j) ?i)) n"
      using less(1) [OF parent_less [OF j], of "swap s ?i j"] sw i 1(3) swap_ok [OF 1(1) i(2) jl] keys_swap [OF 1(1) i(2) jl] frame_length [OF fr]
      by simp
    moreover have "heap_up lt swap s j = heap_up lt swap (swap s ?i j) ?i"
      using False by (subst heap_up.simps) (simp add: Let_def)
    ultimately show ?thesis using frame_trans [OF fr] by simp
  qed
qed

lemma down_spec:
  assumes "ok s" "i < n" "n \<le> length (elems s)" "A \<subseteq> {i}"
    and "ordered_except (A \<union> children i) (keys s) n" "skips i (keys s) n"
  shows "case heap_down lt swap s i n of (t, i') \<Rightarrow> frame n s t \<and>
    (if i' > i then ordered_except {} (keys t) n else t = s \<and> ordered_except A (keys s) n)"
  using assms
proof (induction "n - i" arbitrary: s i A rule: less_induct)
  case less
  note 1 = less.prems
  let ?j1 = "2 * i + 1"
  define j where "j = (if ?j1 + 1 < n \<and> lt s (?j1 + 1) ?j1 then ?j1 + 1 else ?j1)"
  have unf: "heap_down lt swap s i n = (if n \<le> ?j1 then (s, i) else if \<not> lt s j i then (s, i)
      else heap_down lt swap (swap s i j) j n)"
    by (subst heap_down.simps) (simp only: Let_def j_def)
  have ch: "children i = {?j1, ?j1 + 1}" using parent_child by (auto simp: children_def)
  have ltk: "lt s a b \<longleftrightarrow> keys s ! a < keys s ! b" if "a < n" "b < n" for a b
    using that lt_key [OF 1(1), of a b] 1(3) by (simp add: keys_nth)
  consider "n \<le> ?j1" | "?j1 < n" "\<not> lt s j i" | "?j1 < n" "lt s j i" by linarith
  then show ?case
  proof cases
    case 1: 1
    then have "heap_down lt swap s i n = (s, i)" by (simp add: unf)
    moreover have "ordered_except A (keys s) n" using less.prems(5) 1 by (auto simp: ordered_except_def ch)
    ultimately show ?thesis using less.prems(1) by (simp add: frame_def)
  next
    case 2
    then have eq: "heap_down lt swap s i n = (s, i)" by (simp add: unf)
    have "keys s ! i \<le> keys s ! k" if "k \<in> children i" "k < n" for k
      using that 2 ltk [of j i] ltk [of "?j1 + 1" ?j1] 1(2) by (auto simp: ch j_def not_less split: if_splits)
    then have "ordered_except A (keys s) n"
      using 1(5) unfolding ordered_except_def by (auto simp: children_def)
    then show ?thesis using eq 1(1) by (simp add: frame_def)
  next
    case 3
    have j: "j < n" "j \<in> children i" "i < j" using 3(1) by (auto simp: ch j_def)
    have jlen: "j < length (elems s)" "i < length (elems s)" using j(1) 1(2,3) by auto
    have small: "keys s ! j \<le> keys s ! k" if "k \<in> children i" "k < n" for k
      using that 3(1) ltk [of "?j1 + 1" ?j1] by (auto simp: ch j_def not_less less_imp_le split: if_splits)
    have ex: "ordered_except ({i} \<union> children i) (keys s) n" using 1(4,5) by (auto simp: ordered_except_def)
    have lt: "keys s ! j < keys s ! i" using 3(2) ltk [of j i] j(1) 1(2) by simp
    have sw: "ordered_except (children j) (list_swap (keys s) i j) n" "skips j (list_swap (keys s) i j) n"
      using down_swap [OF ex 1(6) j(2,1)] small lt 1(3) by (auto simp: keys_def)
    have fr: "frame n s (swap s i j)" using frame_swap [OF 1(1,2) j(1) 1(3)] .
    let ?t = "swap s i j"
    have "case heap_down lt swap ?t j n of (t, i') \<Rightarrow> frame n ?t t \<and>
        (if i' > j then ordered_except {} (keys t) n else t = ?t \<and> ordered_except {} (keys ?t) n)"
      using less.hyps [of j ?t "{}"] j 1(2,3) swap_ok [OF 1(1) jlen(2,1)] keys_swap [OF 1(1) jlen(2,1)]
        sw frame_length [OF fr]
      by (simp add: keys_def diff_less_mono2)
    moreover have "heap_down lt swap s i n = heap_down lt swap ?t j n"
      using 3 by (simp add: unf)
    moreover have "i \<le> snd (heap_down lt swap ?t j n) \<and> j \<le> snd (heap_down lt swap ?t j n)"
      using down_index_ge [of j lt swap ?t n] j(3) by simp
    ultimately show ?thesis using frame_trans [OF fr] j(3) by (auto split: prod.splits if_splits)
  qed
qed

text \<open>The specification of the two operations: order and consistency are kept, and the contents change by the one element.\<close>

lemma Push_spec:
  assumes "ok s" "heap_ordered (keys s)" "can_push s x"
  defines "t \<equiv> heap_Push len lt swap push s x"
  shows "ok t" "heap_ordered (keys t)" "mset (elems t) = add_mset x (mset (elems s))" "key t = key s" "rest t = rest s"
proof -
  let ?s1 = "push s x" and ?n = "length (elems s)"
  have p: "ok ?s1" "elems ?s1 = elems s @ [x]" "key ?s1 = key s" "rest ?s1 = rest s" using push_ok [OF assms(1,3)] by auto
  have t: "t = heap_up lt swap ?s1 ?n" using len_elems [OF p(1)] p(2) by (simp add: t_def heap_Push_def Let_def)
  have k: "keys ?s1 = keys s @ [key s x]" using p by (simp add: keys_def)
  have "ordered_except {?n} (keys ?s1) (Suc ?n)"
    using assms(2) unfolding heap_ordered_def ordered_except_def k by (auto simp: nth_append keys_def)
  moreover have "skips ?n (keys ?s1) (Suc ?n)"
    unfolding skips_def using parent_less by (metis less_Suc_eq_le not_less)
  ultimately have "frame (Suc ?n) ?s1 t \<and> ordered_except {} (keys t) (Suc ?n)"
    using up_spec [OF p(1), of ?n "Suc ?n"] p(2) t by simp
  moreover from this have "length (keys t) = Suc ?n" using frame_length [of "Suc ?n" ?s1 t] p(2) by (simp add: keys_def)
  ultimately show "ok t" "heap_ordered (keys t)" "mset (elems t) = add_mset x (mset (elems s))" "key t = key s" "rest t = rest s"
    using p by (auto simp: frame_def heap_ordered_def)
qed

lemma pop_spec:
  assumes "ok s" "elems s \<noteq> []" "ordered_except {} (keys s) (length (elems s) - 1)"
  shows "ok (pop s)" "heap_ordered (keys (pop s))" "mset (elems (pop s)) = mset (elems s) - {#last (elems s)#}"
    "key (pop s) = key s" "rest (pop s) = rest s"
proof -
  note p = pop_ok [OF assms(1,2)]
  obtain xs x where s: "elems s = xs @ [x]" using assms(2) by (metis append_butlast_last_id)
  show "heap_ordered (keys (pop s))"
  proof -
    have "keys s = keys (pop s) @ [key s x]" using p s by (simp add: keys_def)
    moreover have "length (elems s) - 1 = length (keys (pop s))" using p s by (simp add: keys_def)
    ultimately have "keys (pop s) ! parent k \<le> keys (pop s) ! k" if "0 < k" "k < length (keys (pop s))" for k
      using ordered_exceptD [OF assms(3), of k] that parent_less [OF that(1)] by (simp add: nth_append)
    then show ?thesis by (simp add: heap_ordered_def ordered_except_def)
  qed
  show "mset (elems (pop s)) = mset (elems s) - {#last (elems s)#}" using p s by simp
qed (use pop_ok [OF assms(1,2)] in auto)

lemma swapped_out:
  assumes "ok s" "heap_ordered (keys s)" "i < length (elems s) - 1"
  defines "n \<equiv> length (elems s) - 1"
  shows "ordered_except ({i} \<union> children i) (keys (swap s i n)) n" "skips i (keys (swap s i n)) n"
proof -
  have n: "i < n" "n < length (elems s)" "i < length (elems s)" using assms(3) by (auto simp: n_def)
  have k: "keys (swap s i n) ! a = (if a = i then keys s ! n else keys s ! a)" if "a < n" for a
    using that n unfolding keys_swap [OF assms(1) n(3,2)] by (auto simp: list_swap_nth keys_def)
  have edge: "keys s ! parent a \<le> keys s ! a" if "0 < a" "a < n" for a
    using assms(2) that n(2) by (auto simp: heap_ordered_def ordered_except_def keys_def)
  show "ordered_except ({i} \<union> children i) (keys (swap s i n)) n"
    unfolding ordered_except_def using k edge parent_less by (auto simp: children_def)
  show "skips i (keys (swap s i n)) n" unfolding skips_def
  proof (intro allI impI)
    fix a assume a: "0 < a \<and> a < n \<and> parent a = i \<and> 0 < i"
    have "keys s ! parent i \<le> keys s ! i" using edge [of i] a n(1) by simp
    also have "\<dots> \<le> keys s ! a" using edge [of a] a by simp
    finally show "keys (swap s i n) ! parent i \<le> keys (swap s i n) ! a"
      using k [of a] k [of "parent i"] a parent_less [of a] parent_less [of i] n(1) by auto
  qed
qed

lemma Remove_spec:
  assumes "ok s" "heap_ordered (keys s)" "i < length (elems s)"
  defines "t \<equiv> heap_Remove len lt swap pop s i"
  shows "ok t \<and> heap_ordered (keys t) \<and> mset (elems t) = mset (elems s) - {#elems s ! i#} \<and> key t = key s \<and> rest t = rest s"
proof -
  define n where "n = length (elems s) - 1"
  have ln: "len s - 1 = n" using len_elems [OF assms(1)] by (simp add: n_def)
  have n: "n < length (elems s)" using assms(3) by (simp add: n_def)
  show ?thesis
  proof (cases "n = i")
    case True
    have "elems s \<noteq> []" using assms(3) by auto
    moreover from this have "last (elems s) = elems s ! i" using True by (simp add: n_def last_conv_nth)
    moreover have "ordered_except {} (keys s) n" using assms(2) by (auto simp: heap_ordered_def ordered_except_def keys_def n_def)
    ultimately show ?thesis using pop_spec [OF assms(1)] True ln by (simp add: t_def heap_Remove_def n_def)
  next
    case False
    then have i: "i < n" using assms(3) by (simp add: n_def)
    let ?s1 = "swap s i n"
    obtain s2 i' where d: "heap_down lt swap ?s1 i n = (s2, i')" by fastforce
    define s3 where "s3 = (if i' > i then s2 else heap_up lt swap s2 i)"
    have t: "t = pop s3" using False ln d by (simp add: t_def heap_Remove_def Let_def s3_def)
    have ok1: "ok ?s1" using swap_ok [OF assms(1,3) n] .
    have el: "elems ?s1 = list_swap (elems s) i n" "key ?s1 = key s" "rest ?s1 = rest s" using swap_elems [OF assms(1,3) n] by auto
    have n1: "n < length (elems ?s1)" using n el by simp
    have sw: "ordered_except ({i} \<union> children i) (keys ?s1) n" "skips i (keys ?s1) n"
      using swapped_out [OF assms(1,2), of i] i by (simp_all add: n_def)
    have "case heap_down lt swap ?s1 i n of (t, i') \<Rightarrow> frame n ?s1 t \<and>
        (if i' > i then ordered_except {} (keys t) n else t = ?s1 \<and> ordered_except {i} (keys ?s1) n)"
      using down_spec [OF ok1 i _ _ sw] n1 by simp
    then have "frame n ?s1 s3 \<and> ordered_except {} (keys s3) n"
      using up_spec [OF ok1 i _ _ sw(2)] n1 d by (auto simp: s3_def split: if_splits)
    then have fr: "frame n ?s1 s3" and o: "ordered_except {} (keys s3) n" by auto
    have len3: "length (elems s3) = Suc n" using frame_length [OF fr] el n by (simp add: n_def)
    have ms: "mset (elems s3) = mset (elems s)" using fr el assms(3) n by (simp add: frame_def mset_list_swap)
    have "last (elems s3) = elems s3 ! n" using len3 by (cases "elems s3 = []") (auto simp: last_conv_nth)
    also have "\<dots> = drop n (elems s3) ! 0" using len3 by simp
    also have "\<dots> = elems ?s1 ! n" using fr n1 by (simp add: frame_def)
    also have "\<dots> = elems s ! i" using el assms(3) n by (simp add: list_swap_nth)
    finally have "last (elems s3) = elems s ! i" .
    moreover have "elems s3 \<noteq> []" using len3 by auto
    ultimately show ?thesis using pop_spec [of s3] o fr ms el len3 unfolding t by (simp add: frame_def)
  qed
qed

end

end
