(* ===== verification/Webdav_Lock.thy ===== *)
theory Webdav_Lock
  imports Go_Path Go_Heap
begin

text \<open>
  The in-memory lock system of the WebDAV server: \<open>server/webdav/lock.go\<close>.  The nodes the code
  shares by pointer live in a heap addressed by numbers; \<open>byName\<close> and \<open>byToken\<close> map to addresses
  and \<open>byExpiry\<close> is the slice the binary heap of \<open>container/heap\<close> works on, with the position of
  each node kept in the node.  A panic of the code is \<open>None\<close>.
\<close>

section \<open>The model\<close>

datatype lock_error = ErrConfirmationFailed | ErrForbidden | ErrLocked | ErrNoSuchLock

record Condition =
  NotC :: bool
  Token :: string
  ETag :: string

record LockDetails =
  Root :: string
  Duration :: int
  OwnerXML :: string
  ZeroDepth :: bool

record memLSNode =
  details :: LockDetails
  token :: string
  refCount :: int
  expiry :: int
  byExpiryIndex :: int
  held :: bool

text \<open>\<open>gen\<close> is a 64-bit counter; \<open>nextAddr\<close> is the address the allocator hands out next.\<close>

record memLS =
  node :: "nat \<Rightarrow> memLSNode"
  byName :: "string \<Rightarrow> nat option"
  byToken :: "string \<Rightarrow> nat option"
  gen :: nat
  byExpiry :: "nat list"
  nextAddr :: nat

definition slashClean :: "string \<Rightarrow> string" where
  "slashClean name = Clean (if name = [] \<or> hd name \<noteq> slash then slash # name else name)"

definition new_node :: "string \<Rightarrow> memLSNode" where
  "new_node name = \<lparr>details = \<lparr>Root = name, Duration = 0, OwnerXML = [], ZeroDepth = False\<rparr>, token = [],
     refCount = 0, expiry = 0, byExpiryIndex = -1, held = False\<rparr>"

definition NewMemLS :: "nat \<Rightarrow> memLS" where
  "NewMemLS now = \<lparr>node = (\<lambda>_. new_node []), byName = Map.empty, byToken = Map.empty, gen = now mod 2 ^ 64,
     byExpiry = [], nextAddr = 0\<rparr>"

definition upd :: "nat \<Rightarrow> (memLSNode \<Rightarrow> memLSNode) \<Rightarrow> memLS \<Rightarrow> memLS" where
  "upd a f m = m\<lparr>node := (node m)(a := f (node m a))\<rparr>"

definition nextToken :: "memLS \<Rightarrow> string \<times> memLS" where
  "nextToken m = (let g = (gen m + 1) mod 2 ^ 64 in (format_nat g, m\<lparr>gen := g\<rparr>))"

subsection \<open>The heap of expiry times\<close>

definition exp_Len :: "memLS \<Rightarrow> nat" where
  "exp_Len m = length (byExpiry m)"

definition exp_Less :: "memLS \<Rightarrow> nat \<Rightarrow> nat \<Rightarrow> bool" where
  "exp_Less m i j \<longleftrightarrow> expiry (node m (byExpiry m ! i)) < expiry (node m (byExpiry m ! j))"

definition exp_Swap :: "memLS \<Rightarrow> nat \<Rightarrow> nat \<Rightarrow> memLS" where
  "exp_Swap m i j =
     (let m1 = m\<lparr>byExpiry := (byExpiry m)[i := byExpiry m ! j, j := byExpiry m ! i]\<rparr>;
          m2 = upd (byExpiry m1 ! i) (\<lambda>n. n\<lparr>byExpiryIndex := int i\<rparr>) m1
      in upd (byExpiry m2 ! j) (\<lambda>n. n\<lparr>byExpiryIndex := int j\<rparr>) m2)"

definition exp_Push :: "memLS \<Rightarrow> nat \<Rightarrow> memLS" where
  "exp_Push m a =
     (let m1 = upd a (\<lambda>n. n\<lparr>byExpiryIndex := int (length (byExpiry m))\<rparr>) m
      in m1\<lparr>byExpiry := byExpiry m1 @ [a]\<rparr>)"

definition exp_Pop :: "memLS \<Rightarrow> memLS" where
  "exp_Pop m =
     (let a = last (byExpiry m); m1 = upd a (\<lambda>n. n\<lparr>byExpiryIndex := -1\<rparr>) m
      in m1\<lparr>byExpiry := butlast (byExpiry m1)\<rparr>)"

definition expiry_push :: "memLS \<Rightarrow> nat \<Rightarrow> memLS" where
  "expiry_push = heap_Push exp_Len exp_Less exp_Swap exp_Push"

definition expiry_remove :: "memLS \<Rightarrow> nat \<Rightarrow> memLS" where
  "expiry_remove = heap_Remove exp_Len exp_Less exp_Swap exp_Pop"

subsection \<open>Walking to the root\<close>

lemma walk_shorter:
  assumes "name \<noteq> ''/''" "LastIndex name ''/'' = Some i"
  shows "length (if take i name = [] then ''/'' else take i name) < length name"
proof -
  have "HasPrefix (drop i name) ''/''" "i \<le> length name" using LastIndex_SomeD [OF assms(2)] by auto
  then obtain t where t: "drop i name = slash # t" by (auto simp: HasPrefix_iff prefix_def)
  then have "i < length name" by (cases "i < length name") auto
  moreover have "1 < length name" if "i = 0" using t assms(1) that by (cases t) auto
  ultimately show ?thesis by (auto simp: take_eq_Nil)
qed

text \<open>The callback returns whether to go on; the name must contain a slash, or slicing it panics.\<close>

function walkToRoot :: "string \<Rightarrow> bool \<Rightarrow> (string \<Rightarrow> bool \<Rightarrow> 's \<Rightarrow> (bool \<times> 's) may_panic) \<Rightarrow> 's \<Rightarrow> (bool \<times> 's) may_panic" where
  "walkToRoot name first f s =
     (case f name first s of
        None \<Rightarrow> None
      | Some (False, s1) \<Rightarrow> Some (False, s1)
      | Some (True, s1) \<Rightarrow>
          if name = ''/'' then Some (True, s1)
          else case LastIndex name ''/'' of
                 None \<Rightarrow> None
               | Some i \<Rightarrow> walkToRoot (if take i name = [] then ''/'' else take i name) False f s1)"
  by pat_completeness auto

termination walkToRoot
proof (relation "measure (\<lambda>(name, first, f, s). length name)")
  show "((if take i name = [] then ''/'' else take i name, False, f, s1), name, first, f, s)
      \<in> measure (\<lambda>(name, first, f, s). length name)"
    if "name \<noteq> ''/''" "LastIndex name ''/'' = Some i" for name first i f s s1
    using walk_shorter [OF that] by (simp only: in_measure prod.case)
qed simp

declare walkToRoot.simps [simp del]

definition canCreate_step :: "memLS \<Rightarrow> bool \<Rightarrow> string \<Rightarrow> bool \<Rightarrow> unit \<Rightarrow> (bool \<times> unit) may_panic" where
  "canCreate_step m zeroDepth name0 first s =
     (case byName m name0 of
        None \<Rightarrow> Some (True, s)
      | Some a \<Rightarrow>
          if first
          then if token (node m a) \<noteq> [] then Some (False, s)
               else if \<not> zeroDepth then Some (False, s) else Some (True, s)
          else if token (node m a) \<noteq> [] \<and> \<not> ZeroDepth (details (node m a)) then Some (False, s)
          else Some (True, s))"

definition canCreate :: "memLS \<Rightarrow> string \<Rightarrow> bool \<Rightarrow> bool may_panic" where
  "canCreate m name zeroDepth = map_option fst (walkToRoot name True (canCreate_step m zeroDepth) ())"

definition create_step :: "string \<Rightarrow> bool \<Rightarrow> memLS \<times> nat \<Rightarrow> (bool \<times> memLS \<times> nat) may_panic" where
  "create_step name0 first st =
     (let (m, ret) = st;
          (a, m1) = (case byName m name0 of
             Some a \<Rightarrow> (a, m)
           | None \<Rightarrow> (nextAddr m, m\<lparr>node := (node m)(nextAddr m := new_node name0),
                          byName := (byName m)(name0 \<mapsto> nextAddr m), nextAddr := nextAddr m + 1\<rparr>));
          m2 = upd a (\<lambda>n. n\<lparr>refCount := refCount n + 1\<rparr>) m1
      in Some (True, m2, if first then a else ret))"

definition ls_create :: "memLS \<Rightarrow> string \<Rightarrow> (memLS \<times> nat) may_panic" where
  "ls_create m name = map_option snd (walkToRoot name True create_step (m, 0))"

definition remove_step :: "string \<Rightarrow> bool \<Rightarrow> memLS \<Rightarrow> (bool \<times> memLS) may_panic" where
  "remove_step name0 first m =
     (case byName m name0 of
        None \<Rightarrow> None
      | Some x \<Rightarrow>
          let m1 = upd x (\<lambda>n. n\<lparr>refCount := refCount n - 1\<rparr>) m
          in Some (True, if refCount (node m1 x) = 0 then m1\<lparr>byName := (byName m1)(name0 := None)\<rparr> else m1))"

definition ls_remove :: "memLS \<Rightarrow> nat \<Rightarrow> memLS may_panic" where
  "ls_remove m a =
     (let m1 = m\<lparr>byToken := (byToken m)(token (node m a) := None)\<rparr>;
          m2 = upd a (\<lambda>n. n\<lparr>token := []\<rparr>) m1
      in case walkToRoot (Root (details (node m2 a))) True remove_step m2 of
           None \<Rightarrow> None
         | Some (_, m3) \<Rightarrow>
             Some (if byExpiryIndex (node m3 a) \<ge> 0 then expiry_remove m3 (nat (byExpiryIndex (node m3 a))) else m3))"

subsection \<open>The operations\<close>

text \<open>The loop removes one node per round, so it needs no more rounds than the heap has elements.\<close>

primrec collect_loop :: "nat \<Rightarrow> memLS \<Rightarrow> int \<Rightarrow> memLS may_panic" where
  "collect_loop 0 m now = Some m"
| "collect_loop (Suc k) m now =
     (if byExpiry m = [] then Some m
      else if now < expiry (node m (byExpiry m ! 0)) then Some m
      else case ls_remove m (byExpiry m ! 0) of None \<Rightarrow> None | Some m1 \<Rightarrow> collect_loop k m1 now)"

definition collectExpiredNodes :: "memLS \<Rightarrow> int \<Rightarrow> memLS may_panic" where
  "collectExpiredNodes m now = collect_loop (length (byExpiry m)) m now"

fun ls_lookup :: "memLS \<Rightarrow> string \<Rightarrow> Condition list \<Rightarrow> nat option" where
  "ls_lookup m name [] = None"
| "ls_lookup m name (c # cs) =
     (case byToken m (Token c) of
        None \<Rightarrow> ls_lookup m name cs
      | Some a \<Rightarrow>
          if held (node m a) then ls_lookup m name cs
          else if name = Root (details (node m a)) then Some a
          else if ZeroDepth (details (node m a)) then ls_lookup m name cs
          else if Root (details (node m a)) = ''/'' \<or> HasPrefix name (Root (details (node m a)) @ ''/'') then Some a
          else ls_lookup m name cs)"

definition ls_hold :: "memLS \<Rightarrow> nat \<Rightarrow> memLS may_panic" where
  "ls_hold m a =
     (if held (node m a) then None
      else let m1 = upd a (\<lambda>n. n\<lparr>held := True\<rparr>) m
           in Some (if Duration (details (node m1 a)) \<ge> 0 \<and> byExpiryIndex (node m1 a) \<ge> 0
                    then expiry_remove m1 (nat (byExpiryIndex (node m1 a))) else m1))"

definition ls_unhold :: "memLS \<Rightarrow> nat \<Rightarrow> memLS may_panic" where
  "ls_unhold m a =
     (if \<not> held (node m a) then None
      else let m1 = upd a (\<lambda>n. n\<lparr>held := False\<rparr>) m
           in Some (if Duration (details (node m1 a)) \<ge> 0 then expiry_push m1 a else m1))"

definition hold_opt :: "memLS \<Rightarrow> nat option \<Rightarrow> memLS may_panic" where
  "hold_opt m x = (case x of None \<Rightarrow> Some m | Some a \<Rightarrow> ls_hold m a)"

definition unhold_opt :: "memLS \<Rightarrow> nat option \<Rightarrow> memLS may_panic" where
  "unhold_opt m x = (case x of None \<Rightarrow> Some m | Some a \<Rightarrow> ls_unhold m a)"

text \<open>On success \<open>Confirm\<close> returns the nodes its release function will unhold.\<close>

definition Confirm ::
  "memLS \<Rightarrow> int \<Rightarrow> string \<Rightarrow> string \<Rightarrow> Condition list \<Rightarrow> ((lock_error + nat option \<times> nat option) \<times> memLS) may_panic" where
  "Confirm m now name0 name1 conditions =
     (case collectExpiredNodes m now of
        None \<Rightarrow> None
      | Some m1 \<Rightarrow>
          let n0 = (if name0 \<noteq> [] then ls_lookup m1 (slashClean name0) conditions else None);
              n1 = (if name1 \<noteq> [] then ls_lookup m1 (slashClean name1) conditions else None)
          in if name0 \<noteq> [] \<and> n0 = None then Some (Inl ErrConfirmationFailed, m1)
             else if name1 \<noteq> [] \<and> n1 = None then Some (Inl ErrConfirmationFailed, m1)
             else let n1' = (if n1 = n0 then None else n1)
                  in case hold_opt m1 n0 of
                       None \<Rightarrow> None
                     | Some m2 \<Rightarrow> map_option (\<lambda>m3. (Inr (n0, n1'), m3)) (hold_opt m2 n1'))"

definition Confirm_release :: "memLS \<Rightarrow> nat option \<times> nat option \<Rightarrow> memLS may_panic" where
  "Confirm_release m ns =
     (case unhold_opt m (snd ns) of None \<Rightarrow> None | Some m1 \<Rightarrow> unhold_opt m1 (fst ns))"

definition LockCreate :: "memLS \<Rightarrow> int \<Rightarrow> LockDetails \<Rightarrow> ((lock_error + string) \<times> memLS) may_panic" where
  "LockCreate m now d0 =
     (case collectExpiredNodes m now of
        None \<Rightarrow> None
      | Some m1 \<Rightarrow>
          let d = d0\<lparr>Root := slashClean (Root d0)\<rparr>
          in case canCreate m1 (Root d) (ZeroDepth d) of
               None \<Rightarrow> None
             | Some False \<Rightarrow> Some (Inl ErrLocked, m1)
             | Some True \<Rightarrow>
                 (case ls_create m1 (Root d) of
                    None \<Rightarrow> None
                  | Some (m2, a) \<Rightarrow>
                      let (t, m3) = nextToken m2;
                          m4 = upd a (\<lambda>n. n\<lparr>token := t\<rparr>) m3;
                          m5 = m4\<lparr>byToken := (byToken m4)(t \<mapsto> a)\<rparr>;
                          m6 = upd a (\<lambda>n. n\<lparr>details := d\<rparr>) m5
                      in Some (Inr t,
                           if Duration d \<ge> 0
                           then expiry_push (upd a (\<lambda>n. n\<lparr>expiry := now + Duration d\<rparr>) m6) a else m6)))"

definition LockRefresh :: "memLS \<Rightarrow> int \<Rightarrow> string \<Rightarrow> int \<Rightarrow> ((lock_error + LockDetails) \<times> memLS) may_panic" where
  "LockRefresh m now tok duration =
     (case collectExpiredNodes m now of
        None \<Rightarrow> None
      | Some m1 \<Rightarrow>
          (case byToken m1 tok of
             None \<Rightarrow> Some (Inl ErrNoSuchLock, m1)
           | Some a \<Rightarrow>
               if held (node m1 a) then Some (Inl ErrLocked, m1)
               else let m2 = (if byExpiryIndex (node m1 a) \<ge> 0
                              then expiry_remove m1 (nat (byExpiryIndex (node m1 a))) else m1);
                        m3 = upd a (\<lambda>n. n\<lparr>details := (details n)\<lparr>Duration := duration\<rparr>\<rparr>) m2;
                        m4 = (if duration \<ge> 0
                              then expiry_push (upd a (\<lambda>n. n\<lparr>expiry := now + duration\<rparr>) m3) a else m3)
                    in Some (Inr (details (node m4 a)), m4)))"

definition LockUnlock :: "memLS \<Rightarrow> int \<Rightarrow> string \<Rightarrow> (lock_error option \<times> memLS) may_panic" where
  "LockUnlock m now tok =
     (case collectExpiredNodes m now of
        None \<Rightarrow> None
      | Some m1 \<Rightarrow>
          (case byToken m1 tok of
             None \<Rightarrow> Some (Some ErrNoSuchLock, m1)
           | Some a \<Rightarrow>
               if held (node m1 a) then Some (Some ErrLocked, m1)
               else map_option (\<lambda>m2. (None, m2)) (ls_remove m1 a)))"

text \<open>The Timeout header; \<open>None\<close> as a duration stands for infinite.\<close>

definition infiniteTimeout :: int where "infiniteTimeout = -1"

definition parseTimeout :: "string \<Rightarrow> int option" where
  "parseTimeout s =
     (if s = [] then Some infiniteTimeout
      else let s1 = (case Index s '','' of Some i \<Rightarrow> take i s | None \<Rightarrow> s); s2 = TrimSpace s1
           in if s2 = ''Infinite'' then Some infiniteTimeout
              else if \<not> HasPrefix s2 ''Second-'' then None
              else let s3 = drop 7 s2
                   in if s3 = [] \<or> \<not> is_digit (hd s3) then None
                      else case ParseInt s3 of
                             (n, e) \<Rightarrow> if e \<noteq> None \<or> 2 ^ 32 - 1 < n then None else Some (n * 1000000000))"

section \<open>The expiry heap implements the interface\<close>

text \<open>Every node knows its place in the heap, or that it has none.\<close>

definition idx_ok :: "memLS \<Rightarrow> bool" where
  "idx_ok m \<longleftrightarrow> distinct (byExpiry m) \<and>
     (\<forall>i < length (byExpiry m). byExpiryIndex (node m (byExpiry m ! i)) = int i) \<and>
     (\<forall>a. a \<notin> set (byExpiry m) \<longrightarrow> byExpiryIndex (node m a) = -1)"

definition ls_rest :: "memLS \<Rightarrow> (nat \<Rightarrow> memLSNode) \<times> (string \<Rightarrow> nat option) \<times> (string \<Rightarrow> nat option) \<times> nat \<times> nat" where
  "ls_rest m = ((\<lambda>a. (node m a)\<lparr>byExpiryIndex := 0\<rparr>), byName m, byToken m, gen m, nextAddr m)"

definition exp_key :: "memLS \<Rightarrow> nat \<Rightarrow> int" where
  "exp_key m a = expiry (node m a)"

lemma upd_simps [simp]:
  "byName (upd a f m) = byName m" "byToken (upd a f m) = byToken m" "gen (upd a f m) = gen m"
  "byExpiry (upd a f m) = byExpiry m" "nextAddr (upd a f m) = nextAddr m"
  "node (upd a f m) b = (if b = a then f (node m a) else node m b)"
  by (simp_all add: upd_def)

lemma ls_rest_upd [simp]:
  "ls_rest (upd a (\<lambda>n. n\<lparr>byExpiryIndex := k\<rparr>) m) = ls_rest m" "ls_rest (m\<lparr>byExpiry := xs\<rparr>) = ls_rest m"
  by (auto simp: ls_rest_def upd_def fun_eq_iff)

lemma exp_key_rest: "ls_rest m' = ls_rest m \<Longrightarrow> exp_key m' = exp_key m"
proof
  fix a assume r: "ls_rest m' = ls_rest m"
  then have "(node m' a)\<lparr>byExpiryIndex := 0\<rparr> = (node m a)\<lparr>byExpiryIndex := 0\<rparr>" by (auto simp: ls_rest_def fun_eq_iff)
  from arg_cong [OF this, of expiry] show "exp_key m' a = exp_key m a" by (simp add: exp_key_def)
qed

lemma exp_Swap_eff:
  assumes "idx_ok m" "i < length (byExpiry m)" "j < length (byExpiry m)"
  shows "idx_ok (exp_Swap m i j)" "byExpiry (exp_Swap m i j) = list_swap (byExpiry m) i j" "ls_rest (exp_Swap m i j) = ls_rest m"
proof -
  let ?l = "byExpiry m" and ?m = "exp_Swap m i j"
  show l: "byExpiry ?m = list_swap ?l i j" "ls_rest ?m = ls_rest m"
    by (simp_all add: exp_Swap_def Let_def list_swap_def)
  have node: "node ?m b = (if b = ?l ! i then (node m b)\<lparr>byExpiryIndex := int j\<rparr>
      else if b = ?l ! j then (node m b)\<lparr>byExpiryIndex := int i\<rparr> else node m b)" for b
    using assms by (auto simp: exp_Swap_def Let_def nth_list_update)
  have d: "distinct ?l" using assms(1) by (simp add: idx_ok_def)
  have inj: "?l ! a = ?l ! b \<longleftrightarrow> a = b" if "a < length ?l" "b < length ?l" for a b
    using d that by (simp add: nth_eq_iff_index_eq)
  have "distinct (list_swap ?l i j)" "set (list_swap ?l i j) = set ?l"
    using d mset_list_swap [OF assms(2,3)] by (metis mset_eq_imp_distinct_iff, metis mset_eq_setD)
  then show "idx_ok ?m"
    using assms inj unfolding idx_ok_def l(1) node
    by (auto simp: list_swap_nth)
qed

interpretation exp: heap_interface exp_Len exp_Less exp_Swap exp_Push exp_Pop byExpiry exp_key idx_ok
  "\<lambda>m a. a \<notin> set (byExpiry m)" ls_rest
proof unfold_locales
  fix m :: memLS and a i j
  show "exp_Len m = length (byExpiry m)" by (simp add: exp_Len_def)
  show "exp_Less m i j \<longleftrightarrow> exp_key m (byExpiry m ! i) < exp_key m (byExpiry m ! j)"
    by (simp add: exp_Less_def exp_key_def)
  show "idx_ok (exp_Swap m i j)" if "idx_ok m" "i < length (byExpiry m)" "j < length (byExpiry m)"
    using exp_Swap_eff(1) [OF that] .
  show "byExpiry (exp_Swap m i j) = list_swap (byExpiry m) i j \<and> exp_key (exp_Swap m i j) = exp_key m \<and>
      ls_rest (exp_Swap m i j) = ls_rest m" if "idx_ok m" "i < length (byExpiry m)" "j < length (byExpiry m)"
    using exp_Swap_eff(2,3) [OF that] exp_key_rest by blast
  show "idx_ok (exp_Push m a) \<and> byExpiry (exp_Push m a) = byExpiry m @ [a] \<and> exp_key (exp_Push m a) = exp_key m \<and>
      ls_rest (exp_Push m a) = ls_rest m" if "idx_ok m" "a \<notin> set (byExpiry m)"
  proof -
    have r: "ls_rest (exp_Push m a) = ls_rest m" by (simp add: exp_Push_def Let_def)
    moreover have "idx_ok (exp_Push m a)"
      using that unfolding idx_ok_def by (auto simp: exp_Push_def Let_def nth_append less_Suc_eq split: if_splits)
    ultimately show ?thesis using exp_key_rest [OF r] by (simp add: exp_Push_def Let_def)
  qed
  show "idx_ok (exp_Pop m) \<and> byExpiry (exp_Pop m) = butlast (byExpiry m) \<and> exp_key (exp_Pop m) = exp_key m \<and>
      ls_rest (exp_Pop m) = ls_rest m" if h: "idx_ok m" "byExpiry m \<noteq> []"
  proof -
    obtain xs x where l: "byExpiry m = xs @ [x]" using h(2) by (metis append_butlast_last_id)
    have r: "ls_rest (exp_Pop m) = ls_rest m" by (simp add: exp_Pop_def Let_def)
    moreover have "byExpiryIndex (node m (xs ! i)) = int i" if "i < length xs" for i
      using h(1) that unfolding idx_ok_def l by (metis length_append_singleton less_SucI nth_append)
    then have "idx_ok (exp_Pop m)"
      using h(1) unfolding idx_ok_def by (auto simp: exp_Pop_def Let_def l)
    ultimately show ?thesis using exp_key_rest [OF r] by (simp add: exp_Pop_def Let_def)
  qed
qed

text \<open>What the two heap operations do to the lock system: only the heap and the positions kept in the nodes change.\<close>

definition heap_ok :: "memLS \<Rightarrow> bool" where
  "heap_ok m \<longleftrightarrow> idx_ok m \<and> heap_ordered (map (exp_key m) (byExpiry m))"

lemma idx_iff:
  assumes "idx_ok m"
  shows "a \<in> set (byExpiry m) \<longleftrightarrow> 0 \<le> byExpiryIndex (node m a)"
    and "a \<in> set (byExpiry m) \<Longrightarrow> nat (byExpiryIndex (node m a)) < length (byExpiry m) \<and> byExpiry m ! nat (byExpiryIndex (node m a)) = a"
proof -
  show "nat (byExpiryIndex (node m a)) < length (byExpiry m) \<and> byExpiry m ! nat (byExpiryIndex (node m a)) = a" if "a \<in> set (byExpiry m)"
    using that assms by (auto simp: idx_ok_def in_set_conv_nth)
  show "a \<in> set (byExpiry m) \<longleftrightarrow> 0 \<le> byExpiryIndex (node m a)"
    using assms by (auto simp: idx_ok_def in_set_conv_nth)
qed

lemma expiry_push_spec:
  assumes "heap_ok m" "a \<notin> set (byExpiry m)"
  shows "heap_ok (expiry_push m a)" "set (byExpiry (expiry_push m a)) = insert a (set (byExpiry m))"
    "ls_rest (expiry_push m a) = ls_rest m"
proof -
  note h = exp.Push_spec [of m a, folded expiry_push_def, unfolded exp.keys_def]
  show "heap_ok (expiry_push m a)" "ls_rest (expiry_push m a) = ls_rest m" using h assms by (auto simp: heap_ok_def)
  have "mset (byExpiry (expiry_push m a)) = mset (a # byExpiry m)" using h(3) assms by (simp add: heap_ok_def)
  then show "set (byExpiry (expiry_push m a)) = insert a (set (byExpiry m))" by (metis mset_eq_setD list.simps(15))
qed

lemma expiry_remove_spec:
  assumes "heap_ok m" "a \<in> set (byExpiry m)"
  defines "m' \<equiv> expiry_remove m (nat (byExpiryIndex (node m a)))"
  shows "heap_ok m'" "set (byExpiry m') = set (byExpiry m) - {a}" "ls_rest m' = ls_rest m"
    and "length (byExpiry m') = length (byExpiry m) - 1"
proof -
  let ?i = "nat (byExpiryIndex (node m a))"
  have i: "?i < length (byExpiry m)" "byExpiry m ! ?i = a" using idx_iff(2) [of m a] assms by (auto simp: heap_ok_def)
  have h: "idx_ok m' \<and> heap_ordered (map (exp_key m') (byExpiry m')) \<and>
      mset (byExpiry m') = mset (byExpiry m) - {#a#} \<and> exp_key m' = exp_key m \<and> ls_rest m' = ls_rest m"
    using exp.Remove_spec [of m ?i, folded expiry_remove_def, folded m'_def, unfolded exp.keys_def] assms(1) i
    by (auto simp: heap_ok_def)
  then show "heap_ok m'" "ls_rest m' = ls_rest m" by (auto simp: heap_ok_def)
  have d: "distinct (byExpiry m)" using assms(1) by (simp add: heap_ok_def idx_ok_def)
  have ms: "mset (byExpiry m') = mset (remove1 a (byExpiry m))" using h by simp
  from mset_eq_setD [OF ms] show "set (byExpiry m') = set (byExpiry m) - {a}" using d by simp
  from mset_eq_length [OF ms] show "length (byExpiry m') = length (byExpiry m) - 1" using assms(2) by (simp add: length_remove1)
qed

lemma ls_restD:
  assumes "ls_rest m' = ls_rest m"
  shows "byName m' = byName m" "byToken m' = byToken m" "gen m' = gen m" "nextAddr m' = nextAddr m"
    and "details (node m' a) = details (node m a)" "token (node m' a) = token (node m a)"
    and "refCount (node m' a) = refCount (node m a)" "expiry (node m' a) = expiry (node m a)"
    and "held (node m' a) = held (node m a)"
proof -
  have "(node m' a)\<lparr>byExpiryIndex := 0\<rparr> = (node m a)\<lparr>byExpiryIndex := 0\<rparr>" using assms by (auto simp: ls_rest_def fun_eq_iff)
  note e = arg_cong [OF this, of details] arg_cong [OF this, of token] arg_cong [OF this, of refCount]
    arg_cong [OF this, of expiry] arg_cong [OF this, of held]
  show "details (node m' a) = details (node m a)" "token (node m' a) = token (node m a)"
    "refCount (node m' a) = refCount (node m a)" "expiry (node m' a) = expiry (node m a)" "held (node m' a) = held (node m a)"
    using e by simp_all
qed (use assms in \<open>auto simp: ls_rest_def\<close>)

section \<open>Walks over the ancestors of a name\<close>

lemma LastIndex_append: "c \<notin> set t \<Longrightarrow> LastIndex (d @ c # t) [c] = Some (length d)"
proof (induction d)
  case Nil
  have "LastIndex t [c] = None" using Nil
    by (induction t) (auto simp: HasPrefix_iff)
  then show ?case by (simp add: HasPrefix_iff)
qed simp

fun walk_list :: "string list \<Rightarrow> bool \<Rightarrow> (string \<Rightarrow> bool \<Rightarrow> 's \<Rightarrow> (bool \<times> 's) may_panic) \<Rightarrow> 's \<Rightarrow> (bool \<times> 's) may_panic" where
  "walk_list [] first f s = Some (True, s)"
| "walk_list (n # ns) first f s =
     (case f n first s of
        None \<Rightarrow> None
      | Some (False, s1) \<Rightarrow> Some (False, s1)
      | Some (True, s1) \<Rightarrow> walk_list ns False f s1)"

definition ancestors :: "string list \<Rightarrow> string list" where
  "ancestors cs = map path_of (rev (prefixes cs))"

lemma ancestors_Nil [simp]: "ancestors [] = [''/'']"
  by (simp add: ancestors_def)

lemma ancestors_snoc: "ancestors (cs @ [c]) = path_of (cs @ [c]) # ancestors cs"
  by (simp add: ancestors_def prefixes_snoc)

lemma set_ancestors: "set (ancestors cs) = path_of ` {ds. prefix ds cs}"
  by (auto simp: ancestors_def)

lemma hd_ancestors: "hd (ancestors cs) = path_of cs \<and> ancestors cs \<noteq> []"
  by (cases cs rule: rev_cases) (simp_all add: ancestors_snoc)

lemma distinct_ancestors:
  assumes "valid_names cs"
  shows "distinct (ancestors cs)"
proof -
  have "inj_on path_of {ds. prefix ds cs}"
    using assms path_of_inject valid_names_prefix unfolding inj_on_def by blast
  moreover have "set (prefixes cs) = {ds. prefix ds cs}" by auto
  ultimately show ?thesis by (simp add: ancestors_def distinct_map distinct_prefixes)
qed

lemma walk_path: "valid_names cs \<Longrightarrow> walkToRoot (path_of cs) first f s = walk_list (ancestors cs) first f s"
proof (induction cs arbitrary: first s rule: rev_induct)
  case Nil
  show ?case by (subst walkToRoot.simps) (simp split: option.split bool.split prod.split)
next
  case (snoc c cs)
  have c: "slash \<notin> set c" "valid_names cs" using snoc.prems by (auto simp: valid_name_def)
  let ?d = "if cs = [] then [] else path_of cs"
  have p: "path_of (cs @ [c]) = ?d @ slash # c" by (rule path_of_snoc)
  have ne: "path_of (cs @ [c]) \<noteq> ''/''"
    using snoc.prems path_of_inject [of "cs @ [c]" "[]"] by simp
  have li: "LastIndex (path_of (cs @ [c])) ''/'' = Some (length ?d)" unfolding p by (rule LastIndex_append [OF c(1)])
  have up: "(if take (length ?d) (path_of (cs @ [c])) = [] then ''/'' else take (length ?d) (path_of (cs @ [c]))) = path_of cs"
    by (simp add: p)
  show ?case
    unfolding ancestors_snoc walk_list.simps
    by (subst walkToRoot.simps) (simp only: li ne option.case if_False up snoc.IH [OF c(2)])
qed

section \<open>The invariant\<close>

definition locked :: "memLS \<Rightarrow> nat \<Rightarrow> bool" where
  "locked m a \<longleftrightarrow> (\<exists>t. byToken m t = Some a)"

abbreviation root :: "memLS \<Rightarrow> nat \<Rightarrow> string" where
  "root m a \<equiv> Root (details (node m a))"

text \<open>The explicit locks at or below a place in the tree.\<close>

definition locks_below :: "memLS \<Rightarrow> string list \<Rightarrow> nat set" where
  "locks_below m cs = {b. locked m b \<and> prefix cs (comps_of (root m b))}"

definition names_ok :: "memLS \<Rightarrow> bool" where
  "names_ok m \<longleftrightarrow> (\<forall>n a. byName m n = Some a \<longrightarrow> abs_path n \<and> root m a = n \<and> a < nextAddr m)"

definition tokens_ok :: "memLS \<Rightarrow> bool" where
  "tokens_ok m \<longleftrightarrow>
     (\<forall>t a. byToken m t = Some a \<longrightarrow> t \<noteq> [] \<and> token (node m a) = t \<and> byName m (root m a) = Some a \<and>
        (\<exists>k \<le> gen m. t = format_nat k)) \<and>
     (\<forall>n a. byName m n = Some a \<longrightarrow> token (node m a) \<noteq> [] \<longrightarrow> locked m a) \<and>
     finite {a. locked m a} \<and> (\<forall>a. \<not> locked m a \<longrightarrow> \<not> held (node m a))"

definition counts_ok :: "memLS \<Rightarrow> bool" where
  "counts_ok m \<longleftrightarrow>
     (\<forall>n a. byName m n = Some a \<longrightarrow> refCount (node m a) = int (card (locks_below m (comps_of n))) \<and> locks_below m (comps_of n) \<noteq> {}) \<and>
     (\<forall>b ds. locked m b \<longrightarrow> prefix ds (comps_of (root m b)) \<longrightarrow> byName m (path_of ds) \<noteq> None)"

text \<open>Two locks conflict when one covers the root of the other.\<close>

definition covers_lock :: "LockDetails \<Rightarrow> LockDetails \<Rightarrow> bool" where
  "covers_lock d e \<longleftrightarrow> Root d = Root e \<or> \<not> ZeroDepth d \<and> prefix (comps_of (Root d)) (comps_of (Root e))"

definition exclusive :: "memLS \<Rightarrow> bool" where
  "exclusive m \<longleftrightarrow> (\<forall>a b. locked m a \<longrightarrow> locked m b \<longrightarrow> a \<noteq> b \<longrightarrow> \<not> covers_lock (details (node m a)) (details (node m b)))"

definition expiry_ok :: "memLS \<Rightarrow> bool" where
  "expiry_ok m \<longleftrightarrow> heap_ok m \<and> set (byExpiry m) = {a. locked m a \<and> \<not> held (node m a) \<and> 0 \<le> Duration (details (node m a))}"

definition ls_inv :: "memLS \<Rightarrow> bool" where
  "ls_inv m \<longleftrightarrow> names_ok m \<and> tokens_ok m \<and> counts_ok m \<and> exclusive m \<and> expiry_ok m"

lemma ls_invD:
  assumes "ls_inv m"
  shows "names_ok m" "tokens_ok m" "counts_ok m" "exclusive m" "expiry_ok m"
  using assms by (auto simp: ls_inv_def)

lemma names_okD: "names_ok m \<Longrightarrow> byName m n = Some a \<Longrightarrow> abs_path n \<and> root m a = n \<and> a < nextAddr m"
  by (simp add: names_ok_def)

lemma lockedD:
  assumes "tokens_ok m" "locked m a"
  shows "byToken m (token (node m a)) = Some a" "token (node m a) \<noteq> []" "byName m (root m a) = Some a"
  using assms unfolding tokens_ok_def locked_def by blast+

lemma locked_root:
  assumes "ls_inv m" "locked m b"
  shows "byName m (path_of (comps_of (root m b))) = Some b" "valid_names (comps_of (root m b))" "path_of (comps_of (root m b)) = root m b"
proof -
  have n: "byName m (root m b) = Some b" using lockedD(3) [OF ls_invD(2) [OF assms(1)] assms(2)] .
  have abs: "abs_path (root m b)" using names_okD [OF ls_invD(1) [OF assms(1)] n] by blast
  then show "valid_names (comps_of (root m b))" "path_of (comps_of (root m b)) = root m b"
    by (auto simp: abs_path_def)
  then show "byName m (path_of (comps_of (root m b))) = Some b" using n by simp
qed

lemma named_comps: "ls_inv m \<Longrightarrow> byName m (path_of ds) = Some a \<Longrightarrow> valid_names ds \<Longrightarrow> comps_of (root m a) = ds"
  using names_okD [OF ls_invD(1), of m "path_of ds" a] by simp

lemma NewMemLS_inv: "ls_inv (NewMemLS now)"
  by (simp add: ls_inv_def NewMemLS_def names_ok_def tokens_ok_def counts_ok_def exclusive_def expiry_ok_def heap_ok_def
      idx_ok_def locked_def heap_ordered_def ordered_except_def new_node_def)

text \<open>The heap operations touch none of it but the heap.\<close>

lemma rest_inv:
  assumes "ls_rest m' = ls_rest m"
  shows "names_ok m' = names_ok m" "tokens_ok m' = tokens_ok m" "counts_ok m' = counts_ok m" "exclusive m' = exclusive m"
    and "locked m' = locked m" "locks_below m' = locks_below m"
proof -
  note r = ls_restD [OF assms]
  show l: "locked m' = locked m" by (auto simp: locked_def fun_eq_iff r)
  show b: "locks_below m' = locks_below m" by (auto simp: locks_below_def fun_eq_iff r l)
  show "names_ok m' = names_ok m" "tokens_ok m' = tokens_ok m" "counts_ok m' = counts_ok m" "exclusive m' = exclusive m"
    by (simp_all add: names_ok_def tokens_ok_def counts_ok_def exclusive_def r l b)
qed

section \<open>When a lock can be created\<close>

lemma walk_all:
  assumes "\<And>n fr. f n fr () = Some (P n fr, ())"
  shows "walk_list ns first f () = Some (case ns of [] \<Rightarrow> True | n # rs \<Rightarrow> P n first \<and> list_all (\<lambda>n. P n False) rs, ())"
proof (induction ns arbitrary: first)
  case (Cons n ns)
  then show ?case by (cases ns) (auto simp: assms split: bool.split)
qed simp

lemma canCreate_iff:
  assumes "ls_inv m" "valid_names cs"
  shows "canCreate m (path_of cs) zd =
    Some (\<not> (\<exists>b. locked m b \<and> (comps_of (root m b) = cs \<or> \<not> zd \<and> prefix cs (comps_of (root m b)) \<or>
      \<not> ZeroDepth (details (node m b)) \<and> prefix (comps_of (root m b)) cs)))" (is "_ = Some (\<not> ?conflict)")
proof -
  note I = ls_invD [OF assms(1)]
  define P where "P n fr = (case byName m n of None \<Rightarrow> True
     | Some a \<Rightarrow> if fr then token (node m a) = [] \<and> zd else token (node m a) = [] \<or> ZeroDepth (details (node m a)))" for n fr
  have f: "canCreate_step m zd n fr () = Some (P n fr, ())" for n fr
    by (simp add: canCreate_step_def P_def split: option.split)
  obtain ns where ns: "ancestors cs = path_of cs # ns" using hd_ancestors [of cs] by (metis list.collapse)
  have "path_of ds \<noteq> path_of cs" if "strict_prefix ds cs" for ds
    using that path_of_inject [of ds cs] assms(2) valid_names_prefix [of ds cs] by (auto simp: strict_prefix_def)
  then have "set ns = path_of ` {ds. strict_prefix ds cs}"
    using distinct_ancestors [OF assms(2)] set_ancestors [of cs] ns by (auto simp: strict_prefix_def)
  then have can: "canCreate m (path_of cs) zd = Some (P (path_of cs) True \<and> (\<forall>ds. strict_prefix ds cs \<longrightarrow> P (path_of ds) False))"
    using walk_all [of "canCreate_step m zd" P "ancestors cs" True] f
    by (simp add: canCreate_def walk_path [OF assms(2)] ns list_all_iff)
  have tok: "locked m a" if "byName m n = Some a" "token (node m a) \<noteq> []" for n a
    using I(2) that unfolding tokens_ok_def by blast
  have here: "P (path_of cs) True \<longleftrightarrow> \<not> (\<exists>b. locked m b \<and> (comps_of (root m b) = cs \<or> \<not> zd \<and> prefix cs (comps_of (root m b))))"
  proof (cases "byName m (path_of cs)")
    case None
    then have "\<not> prefix cs (comps_of (root m b))" if "locked m b" for b
      using I(3) that unfolding counts_ok_def by blast
    then show ?thesis using None by (auto simp: P_def)
  next
    case (Some a)
    have a: "comps_of (root m a) = cs" using named_comps [OF assms(1) Some assms(2)] .
    have "locks_below m cs \<noteq> {}" using I(3) Some assms(2) unfolding counts_ok_def by force
    then obtain b where b: "locked m b" "prefix cs (comps_of (root m b))" by (auto simp: locks_below_def)
    have "b' = a" if "locked m b'" "comps_of (root m b') = cs" for b'
      using locked_root(1) [OF assms(1) that(1)] that(2) Some by simp
    then have only: "\<not> (\<exists>b. locked m b \<and> comps_of (root m b) = cs)" if "token (node m a) = []"
      using that lockedD(2) [OF I(2), of a] by blast
    have P: "P (path_of cs) True \<longleftrightarrow> token (node m a) = [] \<and> zd" using Some by (simp add: P_def)
    show ?thesis
    proof (cases "token (node m a) = []")
      case True
      then show ?thesis using P only b by blast
    next
      case False
      then show ?thesis using P a tok [OF Some] by blast
    qed
  qed
  have up: "(\<forall>ds. strict_prefix ds cs \<longrightarrow> P (path_of ds) False) \<longleftrightarrow>
      \<not> (\<exists>b. locked m b \<and> \<not> ZeroDepth (details (node m b)) \<and> strict_prefix (comps_of (root m b)) cs)" (is "?L \<longleftrightarrow> ?R")
  proof
    assume ?L
    then show ?R using locked_root(1) [OF assms(1)] lockedD(2) [OF I(2)] by (fastforce simp: P_def)
  next
    assume R: ?R
    have "P (path_of ds) False" if ds: "strict_prefix ds cs" for ds
    proof (cases "byName m (path_of ds)")
      case (Some a)
      have "valid_names ds" using ds assms(2) valid_names_prefix by (auto simp: strict_prefix_def)
      then show ?thesis using Some R ds named_comps [OF assms(1) Some] tok [OF Some] by (auto simp: P_def)
    qed (simp add: P_def)
    then show ?L by blast
  qed
  show ?thesis unfolding can here up by (auto simp: strict_prefix_def)
qed

section \<open>What the walks of create and remove do\<close>

definition names_inj :: "memLS \<Rightarrow> bool" where
  "names_inj m \<longleftrightarrow> (\<forall>n a. byName m n = Some a \<longrightarrow> a < nextAddr m) \<and>
     (\<forall>n k a. byName m n = Some a \<longrightarrow> byName m k = Some a \<longrightarrow> n = k)"

lemma names_inj: "names_ok m \<Longrightarrow> names_inj m"
  unfolding names_ok_def names_inj_def by blast

text \<open>Every name of \<open>ns\<close> gets a node if it has none, and one more reference.\<close>

definition bumped :: "memLS \<Rightarrow> string \<Rightarrow> nat \<Rightarrow> memLSNode" where
  "bumped m n a = (case byName m n of None \<Rightarrow> (new_node n)\<lparr>refCount := 1\<rparr> | Some _ \<Rightarrow> (node m a)\<lparr>refCount := refCount (node m a) + 1\<rparr>)"

definition created :: "string list \<Rightarrow> memLS \<Rightarrow> memLS \<Rightarrow> bool" where
  "created ns m m' \<longleftrightarrow> byToken m' = byToken m \<and> gen m' = gen m \<and> byExpiry m' = byExpiry m \<and> nextAddr m \<le> nextAddr m' \<and>
     names_inj m' \<and>
     (\<forall>n a. byName m n = Some a \<longrightarrow> byName m' n = Some a) \<and> (\<forall>n. n \<notin> set ns \<longrightarrow> byName m' n = byName m n) \<and>
     (\<forall>n. n \<in> set ns \<longrightarrow> byName m' n \<noteq> None) \<and>
     (\<forall>n a. byName m n = None \<longrightarrow> byName m' n = Some a \<longrightarrow> nextAddr m \<le> a) \<and>
     (\<forall>n a. n \<in> set ns \<longrightarrow> byName m' n = Some a \<longrightarrow> node m' a = bumped m n a) \<and>
     (\<forall>a. (\<forall>n \<in> set ns. byName m' n \<noteq> Some a) \<longrightarrow> node m' a = node m a)"

lemma createdD:
  assumes "created ns m m'"
  shows "byToken m' = byToken m" "gen m' = gen m" "byExpiry m' = byExpiry m" "nextAddr m \<le> nextAddr m'" "names_inj m'"
    and "byName m n = Some a \<Longrightarrow> byName m' n = Some a" "n \<notin> set ns \<Longrightarrow> byName m' n = byName m n"
    and "n \<in> set ns \<Longrightarrow> byName m' n \<noteq> None" "byName m n = None \<Longrightarrow> byName m' n = Some a \<Longrightarrow> nextAddr m \<le> a"
    and "n \<in> set ns \<Longrightarrow> byName m' n = Some a \<Longrightarrow> node m' a = bumped m n a"
    and "(\<And>n. n \<in> set ns \<Longrightarrow> byName m' n \<noteq> Some a) \<Longrightarrow> node m' a = node m a"
  using assms unfolding created_def by blast+

lemma create_step_created:
  assumes "names_inj m"
  shows "\<exists>m'. create_step n first (m, ret) = Some (True, m', if first then the (byName m' n) else ret) \<and> created [n] m m'"
proof (cases "byName m n")
  case None
  let ?m = "upd (nextAddr m) (\<lambda>n. n\<lparr>refCount := refCount n + 1\<rparr>) (m\<lparr>node := (node m)(nextAddr m := new_node n),
      byName := (byName m)(n \<mapsto> nextAddr m), nextAddr := nextAddr m + 1\<rparr>)"
  have "created [n] m ?m"
    using assms None unfolding created_def names_inj_def bumped_def
    by (auto simp: new_node_def less_Suc_eq split: if_splits)
  then show ?thesis using None by (simp add: create_step_def Let_def)
next
  case (Some a)
  have "created [n] m (upd a (\<lambda>n. n\<lparr>refCount := refCount n + 1\<rparr>) m)"
    using assms Some unfolding created_def names_inj_def bumped_def by auto
  then show ?thesis using Some by (simp add: create_step_def Let_def)
qed

lemma created_trans:
  assumes "created [n] m m1" "created ns m1 m2" "n \<notin> set ns"
  shows "created (n # ns) m m2"
proof -
  note a = createdD [OF assms(1)] and b = createdD [OF assms(2)]
  have keep: "byName m2 n = byName m1 n" using b(7) assms(3) by blast
  have inj2: "k = l" if "byName m2 k = Some x" "byName m2 l = Some x" for k l x
    using b(5) that unfolding names_inj_def by blast
  have other: "byName m1 k = byName m k" if "k \<noteq> n" for k using a(7) that by simp
  have new: "node m2 x = bumped m n x" if x: "byName m2 n = Some x" for x
  proof -
    have "node m2 x = node m1 x" using b(11) inj2 [OF x] assms(3) by blast
    then show ?thesis using a(10) x keep by simp
  qed
  have rest: "node m2 x = bumped m k x" if k: "k \<in> set ns" "byName m2 k = Some x" for k x
  proof -
    have kn: "k \<noteq> n" using k(1) assms(3) by auto
    show ?thesis
    proof (cases "byName m1 k")
      case None
      then show ?thesis using b(10) [OF k] other [OF kn] by (simp add: bumped_def)
    next
      case (Some y)
      have "y = x" using b(6) [OF Some] k(2) by simp
      moreover have "byName m1 n \<noteq> Some y" using Some kn b(6) inj2 by blast
      then have "node m1 y = node m y" using a(11) [of y] by simp
      ultimately show ?thesis using b(10) [OF k] other [OF kn] Some by (simp add: bumped_def split: option.split)
    qed
  qed
  have "node m2 x = node m x" if x: "\<forall>k \<in> set (n # ns). byName m2 k \<noteq> Some x" for x
    using a(11) [of x] b(11) [of x] x keep by simp
  moreover have "nextAddr m \<le> x" if "byName m k = None" "byName m2 k = Some x" for k x
    using a(4,9) b(6,9) that by (metis not_None_eq option.inject order_trans)
  ultimately show ?thesis unfolding created_def using a b keep new rest
    by (auto simp: created_def)
qed

lemma create_walk:
  assumes "names_inj m" "distinct ns"
  shows "\<exists>m' r. walk_list ns first create_step (m, ret) = Some (True, m', r) \<and> created ns m m' \<and>
    (ns \<noteq> [] \<longrightarrow> first \<longrightarrow> byName m' (hd ns) = Some r) \<and> (\<not> first \<longrightarrow> r = ret)"
  using assms
proof (induction ns arbitrary: m first ret)
  case Nil
  then show ?case by (simp add: created_def)
next
  case (Cons n ns)
  obtain m1 where m1: "create_step n first (m, ret) = Some (True, m1, if first then the (byName m1 n) else ret)" "created [n] m m1"
    using create_step_created [OF Cons.prems(1)] by blast
  let ?r = "if first then the (byName m1 n) else ret"
  obtain m2 where m2: "walk_list ns False create_step (m1, ?r) = Some (True, m2, ?r)" "created ns m1 m2"
    using Cons.IH [OF createdD(5) [OF m1(2)], of False ?r] Cons.prems(2) by auto
  have "byName m1 n \<noteq> None" using createdD(8) [OF m1(2)] by simp
  then have "byName m2 n = Some (the (byName m1 n))" using createdD(6) [OF m2(2)] by auto
  then show ?case using m1 m2 created_trans [OF m1(2) m2(2)] Cons.prems(2) by auto
qed

text \<open>Every name of \<open>ns\<close> loses one reference, and its node with the last one.\<close>

definition removed :: "string list \<Rightarrow> memLS \<Rightarrow> memLS \<Rightarrow> bool" where
  "removed ns m m' \<longleftrightarrow> byToken m' = byToken m \<and> gen m' = gen m \<and> byExpiry m' = byExpiry m \<and> nextAddr m' = nextAddr m \<and>
     (\<forall>a. node m' a = (if \<exists>n \<in> set ns. byName m n = Some a then (node m a)\<lparr>refCount := refCount (node m a) - 1\<rparr> else node m a)) \<and>
     (\<forall>n. byName m' n = (if n \<in> set ns \<and> (\<exists>a. byName m n = Some a \<and> refCount (node m a) = 1) then None else byName m n))"

lemma removedD:
  assumes "removed ns m m'"
  shows "byToken m' = byToken m" "gen m' = gen m" "byExpiry m' = byExpiry m" "nextAddr m' = nextAddr m"
    and "node m' a = (if \<exists>n \<in> set ns. byName m n = Some a then (node m a)\<lparr>refCount := refCount (node m a) - 1\<rparr> else node m a)"
    and "byName m' n = (if n \<in> set ns \<and> (\<exists>a. byName m n = Some a \<and> refCount (node m a) = 1) then None else byName m n)"
  using assms unfolding removed_def by blast+

lemma removed_trans:
  assumes "removed [n] m m1" "removed ns m1 m2" "n \<notin> set ns" "names_inj m" "byName m n = Some x"
  shows "removed (n # ns) m m2"
proof -
  note a = removedD [OF assms(1)] and b = removedD [OF assms(2)]
  have inj: "k = l" if "byName m k = Some y" "byName m l = Some y" for k l y
    using assms(4) that unfolding names_inj_def by blast
  have other: "byName m1 k = byName m k" if "k \<noteq> n" for k using a(6) that by simp
  have node1: "node m1 y = node m y" if "byName m k = Some y" "k \<noteq> n" for k y
    using a(5) [of y] inj that by auto
  have "node m2 y = (if \<exists>k \<in> set (n # ns). byName m k = Some y then (node m y)\<lparr>refCount := refCount (node m y) - 1\<rparr> else node m y)" for y
  proof (cases "\<exists>k \<in> set ns. byName m k = Some y")
    case True
    then obtain k where k: "k \<in> set ns" "byName m k = Some y" by blast
    then have "k \<noteq> n" using assms(3) by auto
    then show ?thesis using b(5) [of y] other [of k] node1 [OF k(2)] k by auto
  next
    case False
    then have "\<not> (\<exists>k \<in> set ns. byName m1 k = Some y)" using other assms(3) by metis
    then show ?thesis using b(5) [of y] a(5) [of y] False by simp
  qed
  moreover have "byName m2 k = (if k \<in> set (n # ns) \<and> (\<exists>a. byName m k = Some a \<and> refCount (node m a) = 1) then None else byName m k)" for k
  proof (cases "k = n")
    case True
    then show ?thesis using a(6) [of n] b(6) [of n] assms(3,5) by simp
  next
    case False
    then show ?thesis using b(6) [of k] other [of k] node1 [of k] by auto
  qed
  ultimately show ?thesis using a(1-4) b(1-4) unfolding removed_def by simp
qed

lemma remove_walk:
  assumes "names_inj m" "distinct ns" "\<And>n. n \<in> set ns \<Longrightarrow> byName m n \<noteq> None"
  shows "\<exists>m'. walk_list ns first remove_step m = Some (True, m') \<and> removed ns m m'"
  using assms
proof (induction ns arbitrary: m first)
  case Nil
  then show ?case by (simp add: removed_def)
next
  case (Cons n ns)
  obtain x where x: "byName m n = Some x" using Cons.prems(3) by force
  let ?u = "upd x (\<lambda>n. n\<lparr>refCount := refCount n - 1\<rparr>) m"
  define m1 where "m1 = (if refCount (node m x) = 1 then ?u\<lparr>byName := (byName m)(n := None)\<rparr> else ?u)"
  have m1: "remove_step n first m = Some (True, m1)" by (simp add: remove_step_def x Let_def m1_def)
  have node1: "node m1 a = (if a = x then (node m x)\<lparr>refCount := refCount (node m x) - 1\<rparr> else node m a)" for a
    by (simp add: m1_def)
  have r1: "removed [n] m m1"
    unfolding removed_def node1 by (auto simp: m1_def x)
  have inj1: "names_inj m1"
    using Cons.prems(1) removedD(4,6) [OF r1] unfolding names_inj_def by (metis option.distinct(1))
  have "byName m1 k \<noteq> None" if "k \<in> set ns" for k
    using removedD(6) [OF r1, of k] Cons.prems(2,3) that by auto
  then obtain m2 where m2: "walk_list ns False remove_step m1 = Some (True, m2)" "removed ns m1 m2"
    using Cons.IH [OF inj1, of False] Cons.prems(2) by auto
  then show ?case using m1 removed_trans [OF r1 m2(2) _ Cons.prems(1) x] Cons.prems(2) by simp
qed

section \<open>Removing a lock\<close>

lemma heap_ok_cong:
  assumes "byExpiry m' = byExpiry m" "\<And>a. a \<in> set (byExpiry m) \<Longrightarrow> expiry (node m' a) = expiry (node m a)"
    and "\<And>a. byExpiryIndex (node m' a) = byExpiryIndex (node m a)"
  shows "heap_ok m' = heap_ok m"
proof -
  have "map (exp_key m') (byExpiry m) = map (exp_key m) (byExpiry m)" using assms(2) by (simp add: exp_key_def)
  then show ?thesis unfolding heap_ok_def idx_ok_def assms(1,3) by (simp only:)
qed

text \<open>What stays of a lock when others come and go.\<close>

definition same_lock :: "memLS \<Rightarrow> memLS \<Rightarrow> nat \<Rightarrow> bool" where
  "same_lock m m' b \<longleftrightarrow> details (node m' b) = details (node m b) \<and> expiry (node m' b) = expiry (node m b) \<and>
     held (node m' b) = held (node m b) \<and> token (node m' b) = token (node m b)"

definition unlocked :: "nat \<Rightarrow> memLS \<Rightarrow> memLS" where
  "unlocked a m = upd a (\<lambda>n. n\<lparr>token := []\<rparr>) (m\<lparr>byToken := (byToken m)(token (node m a) := None)\<rparr>)"

lemma unlocked_locked:
  assumes "tokens_ok m" "locked m a"
  shows "locked (unlocked a m) b \<longleftrightarrow> locked m b \<and> b \<noteq> a"
proof -
  note t = lockedD(1) [OF assms]
  have u: "u = token (node m a)" if "byToken m u = Some a" for u using assms(1) that unfolding tokens_ok_def by blast
  have "locked (unlocked a m) b \<longleftrightarrow> (\<exists>v. v \<noteq> token (node m a) \<and> byToken m v = Some b)"
    by (simp add: locked_def unlocked_def) metis
  also have "\<dots> \<longleftrightarrow> locked m b \<and> b \<noteq> a" using t u unfolding locked_def by (metis option.inject)
  finally show ?thesis .
qed

lemma remove_counts:
  assumes "ls_inv m" "locked m a" "removed (ancestors (comps_of (root m a))) (unlocked a m) m3"
  shows "counts_ok m3" "\<And>ds. locks_below m3 ds = locks_below m ds - {a}" "\<And>b. locked m3 b \<longleftrightarrow> locked m b \<and> b \<noteq> a"
    "\<And>b. details (node m3 b) = details (node m b)"
proof -
  note I = ls_invD [OF assms(1)]
  let ?cs = "comps_of (root m a)" and ?m2 = "unlocked a m"
  note r = removedD [OF assms(3)]
  have n2: "byName ?m2 = byName m" "refCount (node ?m2 b) = refCount (node m b)" for b by (simp_all add: unlocked_def)
  have vs: "valid_names ?cs" using locked_root(2) [OF assms(1,2)] .
  show lock3: "locked m3 b \<longleftrightarrow> locked m b \<and> b \<noteq> a" for b
    using unlocked_locked [OF I(2) assms(2)] r(1) by (simp add: locked_def)
  show det: "details (node m3 b) = details (node m b)" for b by (simp add: r(5) unlocked_def)
  show below: "locks_below m3 ds = locks_below m ds - {a}" for ds by (auto simp: locks_below_def lock3 det)
  have fin: "finite (locks_below m ds)" for ds
    using I(2) unfolding tokens_ok_def by (auto simp: locks_below_def intro: rev_finite_subset)
  have inj: "names_inj m" by (rule names_inj [OF I(1)])
  have anc: "n \<in> set (ancestors ?cs) \<longleftrightarrow> prefix (comps_of n) ?cs" if "abs_path n" for n
  proof -
    have "n = path_of (comps_of n)" "valid_names (comps_of n)" using that by (auto simp: abs_path_def)
    then show ?thesis using vs path_of_inject valid_names_prefix unfolding set_ancestors by (metis (no_types, lifting) image_iff mem_Collect_eq)
  qed
  have first: "refCount (node m3 b) = int (card (locks_below m3 (comps_of n))) \<and> locks_below m3 (comps_of n) \<noteq> {}"
    if b: "byName m3 n = Some b" for n b
  proof -
    have bm: "byName m n = Some b" using b r(6) [of n] n2 by (auto split: if_splits)
    have abs: "abs_path n" using names_okD [OF I(1) bm] by blast
    have cnt: "refCount (node m b) = int (card (locks_below m (comps_of n)))" "locks_below m (comps_of n) \<noteq> {}"
      using I(3) bm unfolding counts_ok_def by blast+
    show ?thesis
    proof (cases "n \<in> set (ancestors ?cs)")
      case True
      then have mem: "a \<in> locks_below m (comps_of n)" using anc [OF abs] assms(2) by (simp add: locks_below_def)
      have "refCount (node m b) \<noteq> 1" using b r(6) [of n] True bm n2 by (auto split: if_splits)
      then have c: "card (locks_below m (comps_of n)) \<noteq> 1" using cnt by simp
      have "refCount (node m3 b) = refCount (node m b) - 1" using r(5) [of b] True bm n2 by auto
      moreover have "card (locks_below m (comps_of n) - {a}) = card (locks_below m (comps_of n)) - 1" using mem fin by simp
      moreover have "0 < card (locks_below m (comps_of n))" using mem fin by (auto simp: card_gt_0_iff)
      ultimately have "refCount (node m3 b) = int (card (locks_below m (comps_of n) - {a}))" "0 < card (locks_below m (comps_of n) - {a})"
        using cnt c by auto
      then show ?thesis unfolding below by (auto simp: card_gt_0_iff)
    next
      case False
      then have "a \<notin> locks_below m (comps_of n)" using anc [OF abs] by (simp add: locks_below_def)
      moreover have "refCount (node m3 b) = refCount (node m b)"
        using r(5) [of b] False bm inj n2 unfolding names_inj_def by (metis (no_types, lifting))
      ultimately show ?thesis using cnt unfolding below by simp
    qed
  qed
  have "byName m3 (path_of ds) \<noteq> None" if b: "locked m3 b" "prefix ds (comps_of (root m3 b))" for b ds
  proof -
    have bm: "locked m b" "b \<noteq> a" "prefix ds (comps_of (root m b))" using b lock3 det by auto
    have vds: "valid_names ds" using bm locked_root(2) [OF assms(1)] valid_names_prefix by blast
    obtain x where x: "byName m (path_of ds) = Some x" using I(3) bm unfolding counts_ok_def by blast
    have cnt: "refCount (node m x) = int (card (locks_below m ds))" using I(3) x vds unfolding counts_ok_def by force
    have "refCount (node m x) \<noteq> 1" if "path_of ds \<in> set (ancestors ?cs)"
    proof -
      have "prefix ds ?cs" using that anc [of "path_of ds"] vds by simp
      then have "{a, b} \<subseteq> locks_below m ds" using bm assms(2) by (auto simp: locks_below_def)
      then have "2 \<le> card (locks_below m ds)" using card_mono [OF fin, of "{a, b}" ds] bm(2) by simp
      then show ?thesis using cnt by simp
    qed
    then show ?thesis using r(6) [of "path_of ds"] x n2 by auto
  qed
  with first show "counts_ok m3" unfolding counts_ok_def by blast
qed

lemma ls_remove_spec:
  assumes "ls_inv m" "locked m a" "\<not> held (node m a)"
  shows "\<exists>m'. ls_remove m a = Some m' \<and> ls_inv m' \<and> (\<forall>b. locked m' b \<longleftrightarrow> locked m b \<and> b \<noteq> a) \<and>
    (\<forall>b. b \<noteq> a \<longrightarrow> same_lock m m' b) \<and> gen m' = gen m \<and>
    (a \<in> set (byExpiry m) \<longrightarrow> length (byExpiry m') = length (byExpiry m) - 1)"
proof -
  note I = ls_invD [OF assms(1)]
  let ?cs = "comps_of (root m a)" and ?m2 = "unlocked a m"
  have vs: "valid_names ?cs" "path_of ?cs = root m a" using locked_root [OF assms(1,2)] by auto
  have "byName ?m2 n \<noteq> None" if "n \<in> set (ancestors ?cs)" for n
    using I(3) that assms(2) unfolding counts_ok_def set_ancestors by (auto simp: unlocked_def)
  moreover have "names_inj ?m2" using names_inj [OF I(1)] by (simp add: names_inj_def unlocked_def)
  ultimately obtain m3 where m3: "walk_list (ancestors ?cs) True remove_step ?m2 = Some (True, m3)" "removed (ancestors ?cs) ?m2 m3"
    using remove_walk distinct_ancestors [OF vs(1)] by blast
  note c = remove_counts [OF assms(1,2) m3(2)] and r = removedD [OF m3(2)]
  have node3: "token (node m3 b) = (if b = a then [] else token (node m b))" "held (node m3 b) = held (node m b)"
    "expiry (node m3 b) = expiry (node m b)" "byExpiryIndex (node m3 b) = byExpiryIndex (node m b)" for b
    by (simp_all add: r(5) unlocked_def)
  have name3: "byName m3 n = Some b \<Longrightarrow> byName m n = Some b" for n b using r(6) [of n] by (auto simp: unlocked_def split: if_splits)
  have exp3: "byExpiry m3 = byExpiry m" "gen m3 = gen m" "nextAddr m3 = nextAddr m" using r(2-4) by (simp_all add: unlocked_def)
  have names: "names_ok m3" using I(1) name3 c(4) exp3(3) unfolding names_ok_def by metis
  have "byName m3 (root m3 b) = Some b" if b: "locked m3 b" for b
  proof -
    have bm: "locked m b" using b c(3) by simp
    note lr = locked_root [OF assms(1) bm]
    have "byName m3 (path_of (comps_of (root m3 b))) \<noteq> None" using c(1) b unfolding counts_ok_def by blast
    then obtain x where "byName m3 (root m b) = Some x" using lr(3) c(4) by auto
    then show ?thesis using name3 [of "root m b" x] lr(1,3) c(4) by simp
  qed
  moreover have "t \<noteq> [] \<and> token (node m3 b) = t \<and> (\<exists>k\<le>gen m3. t = format_nat k)" if t: "byToken m3 t = Some b" for t b
  proof -
    have "locked m3 b" using t by (auto simp: locked_def)
    then have "b \<noteq> a" using c(3) by blast
    moreover have "byToken m t = Some b" using t r(1) by (simp add: unlocked_def split: if_splits)
    ultimately show ?thesis using I(2) node3(1) exp3(2) unfolding tokens_ok_def by simp
  qed
  moreover have "locked m3 b" if "byName m3 n = Some b" "token (node m3 b) \<noteq> []" for n b
    using I(2) name3 [OF that(1)] that(2) node3(1) c(3) unfolding tokens_ok_def by (auto split: if_splits)
  moreover have "finite {b. locked m3 b}" using I(2) c(3) unfolding tokens_ok_def by (auto intro: rev_finite_subset)
  moreover have "\<not> held (node m3 b)" if "\<not> locked m3 b" for b
    using I(2) assms(3) that c(3) node3(2) unfolding tokens_ok_def by metis
  ultimately have toks: "tokens_ok m3" unfolding tokens_ok_def locked_def by blast
  have excl: "exclusive m3" using I(4) c(3,4) unfolding exclusive_def by simp
  have hp: "heap_ok m3" using I(5) heap_ok_cong [OF exp3(1)] node3 unfolding expiry_ok_def by simp
  have idx: "idx_ok m3" using hp by (simp add: heap_ok_def)
  define m' where "m' = (if byExpiryIndex (node m3 a) \<ge> 0 then expiry_remove m3 (nat (byExpiryIndex (node m3 a))) else m3)"
  have run: "ls_remove m a = Some m'"
    using m3(1) by (simp add: ls_remove_def Let_def m'_def unlocked_def [symmetric] walk_path [OF vs(1), unfolded vs(2)])
  have m': "heap_ok m' \<and> set (byExpiry m') = set (byExpiry m) - {a} \<and> ls_rest m' = ls_rest m3 \<and>
      (a \<in> set (byExpiry m) \<longrightarrow> length (byExpiry m') = length (byExpiry m) - 1)"
    using expiry_remove_spec [OF hp, of a] idx_iff(1) [OF idx, of a] hp exp3(1) by (auto simp: m'_def)
  have rest: "ls_rest m' = ls_rest m3" using m' by blast
  have "set (byExpiry m') = {b. locked m' b \<and> \<not> held (node m' b) \<and> 0 \<le> Duration (details (node m' b))}"
    using m' I(5) unfolding expiry_ok_def rest_inv(5) [OF rest] ls_restD(5,9) [OF rest] c(3,4) node3(2) by blast
  then have "ls_inv m'"
    using rest_inv [OF rest] names toks excl c(1) m' unfolding ls_inv_def expiry_ok_def by simp
  moreover have "same_lock m m' b" if "b \<noteq> a" for b
    using that ls_restD [OF rest] node3 c(4) by (simp add: same_lock_def)
  moreover have "locked m' b \<longleftrightarrow> locked m b \<and> b \<noteq> a" for b using rest_inv(5) [OF rest] c(3) by simp
  moreover have "gen m' = gen m" using ls_restD(3) [OF rest] exp3(2) by simp
  ultimately show ?thesis using run m' by (intro exI [of _ m']) simp
qed

section \<open>Expiry and holding\<close>

definition expired :: "memLS \<Rightarrow> int \<Rightarrow> nat \<Rightarrow> bool" where
  "expired m now b \<longleftrightarrow> \<not> held (node m b) \<and> 0 \<le> Duration (details (node m b)) \<and> expiry (node m b) \<le> now"

lemma same_lock_trans: "same_lock m m1 b \<Longrightarrow> same_lock m1 m2 b \<Longrightarrow> same_lock m m2 b"
  by (simp add: same_lock_def)

lemma expired_same: "same_lock m m' b \<Longrightarrow> expired m' now b = expired m now b"
  by (simp add: same_lock_def expired_def)

lemma collect_loop_spec:
  assumes "ls_inv m" "length (byExpiry m) \<le> k"
  shows "\<exists>m'. collect_loop k m now = Some m' \<and> ls_inv m' \<and> (\<forall>b. locked m' b \<longleftrightarrow> locked m b \<and> \<not> expired m now b) \<and>
    (\<forall>b. locked m' b \<longrightarrow> same_lock m m' b) \<and> gen m' = gen m"
  using assms
proof (induction k arbitrary: m)
  case 0
  then have "\<not> (locked m b \<and> expired m now b)" for b using ls_invD(5) [OF 0(1)] by (auto simp: expiry_ok_def expired_def)
  then show ?case using 0 by (auto simp: same_lock_def)
next
  case (Suc k)
  have ex: "set (byExpiry m) = {a. locked m a \<and> \<not> held (node m a) \<and> 0 \<le> Duration (details (node m a))}" "heap_ok m"
    using ls_invD(5) [OF Suc.prems(1)] by (auto simp: expiry_ok_def)
  show ?case
  proof (cases "byExpiry m = [] \<or> now < expiry (node m (byExpiry m ! 0))")
    case True
    have "now < expiry (node m b)" if mem: "b \<in> set (byExpiry m)" for b
    proof -
      obtain i where i: "i < length (byExpiry m)" "b = byExpiry m ! i" using mem by (auto simp: in_set_conv_nth)
      have z: "0 < length (byExpiry m)" using i(1) by linarith
      have "map (exp_key m) (byExpiry m) ! 0 \<le> map (exp_key m) (byExpiry m) ! i"
        using heap_ordered_min [of "map (exp_key m) (byExpiry m)" i] ex(2) i(1) by (simp add: heap_ok_def)
      then have "exp_key m (byExpiry m ! 0) \<le> exp_key m b" using i z by (simp only: nth_map)
      then show ?thesis using True mem by (auto simp: exp_key_def)
    qed
    then have "\<not> (locked m b \<and> expired m now b)" for b
      using ex(1) unfolding expired_def by (metis (no_types, lifting) mem_Collect_eq not_le)
    then show ?thesis using True Suc.prems by (auto simp: same_lock_def)
  next
    case False
    let ?a = "byExpiry m ! 0"
    have a: "?a \<in> set (byExpiry m)" using False by (auto simp: in_set_conv_nth intro: exI [of _ 0])
    then have la: "locked m ?a" "\<not> held (node m ?a)" "expired m now ?a" using ex(1) False by (auto simp: expired_def)
    obtain m1 where m1: "ls_remove m ?a = Some m1" "ls_inv m1" "\<And>b. locked m1 b \<longleftrightarrow> locked m b \<and> b \<noteq> ?a"
        "\<And>b. b \<noteq> ?a \<Longrightarrow> same_lock m m1 b" "gen m1 = gen m" "length (byExpiry m1) = length (byExpiry m) - 1"
      using ls_remove_spec [OF Suc.prems(1) la(1,2)] a by blast
    obtain m2 where m2: "collect_loop k m1 now = Some m2" "ls_inv m2" "\<And>b. locked m2 b \<longleftrightarrow> locked m1 b \<and> \<not> expired m1 now b"
        "\<And>b. locked m2 b \<Longrightarrow> same_lock m1 m2 b" "gen m2 = gen m1"
    proof -
      have "length (byExpiry m1) \<le> k" using m1(6) Suc.prems(2) by simp
      from Suc.IH [OF m1(2) this] show thesis using that by blast
    qed
    have "locked m2 b \<longleftrightarrow> locked m b \<and> \<not> expired m now b" for b
      using m2(3) m1(3) expired_same [OF m1(4)] la(3) by blast
    moreover have "same_lock m m2 b" if "locked m2 b" for b
    proof -
      have "b \<noteq> ?a" using that m2(3) m1(3) by blast
      then show ?thesis by (rule same_lock_trans [OF m1(4) m2(4) [OF that]])
    qed
    moreover have "collect_loop (Suc k) m now = Some m2" using m1(1) m2(1) False by simp
    ultimately show ?thesis using m1(5) m2(2,5) by (intro exI [of _ m2]) simp
  qed
qed

lemmas collect_spec = collect_loop_spec [OF _ order_refl, folded collectExpiredNodes_def]

lemma core_cong:
  assumes "byName m' = byName m" "byToken m' = byToken m" "gen m' = gen m" "nextAddr m' = nextAddr m"
    and "\<And>b. root m' b = root m b" "\<And>b. token (node m' b) = token (node m b)"
    and "\<And>b. refCount (node m' b) = refCount (node m b)" "\<And>b. \<not> locked m b \<Longrightarrow> held (node m' b) \<Longrightarrow> held (node m b)"
    and "\<And>b. ZeroDepth (details (node m' b)) = ZeroDepth (details (node m b))" "ls_inv m"
  shows "names_ok m'" "tokens_ok m'" "counts_ok m'" "exclusive m'" "locked m' = locked m"
proof -
  note I = ls_invD [OF assms(10)]
  show l: "locked m' = locked m" by (simp add: locked_def fun_eq_iff assms(2))
  have b: "locks_below m' = locks_below m" by (simp add: locks_below_def fun_eq_iff l assms(5))
  show "names_ok m'" "counts_ok m'" "exclusive m'"
    using I(1,3,4) by (simp_all add: names_ok_def counts_ok_def exclusive_def covers_lock_def assms l b)
  have "\<not> held (node m' b)" if "\<not> locked m b" for b using I(2) assms(8) that unfolding tokens_ok_def by blast
  then show "tokens_ok m'" using I(2) unfolding tokens_ok_def by (simp add: assms l)
qed

lemma core_upd:
  assumes "ls_inv m" "Root (details (f (node m a))) = root m a" "token (f (node m a)) = token (node m a)"
    and "refCount (f (node m a)) = refCount (node m a)" "\<not> locked m a \<Longrightarrow> held (f (node m a)) \<Longrightarrow> held (node m a)"
    and "ZeroDepth (details (f (node m a))) = ZeroDepth (details (node m a))"
  shows "names_ok (upd a f m)" "tokens_ok (upd a f m)" "counts_ok (upd a f m)" "exclusive (upd a f m)" "locked (upd a f m) = locked m"
proof -
  let ?m = "upd a f m"
  have h: "held (node m b)" if "\<not> locked m b" "held (node ?m b)" for b using that assms(5) by (cases "b = a") auto
  have e: "root ?m b = root m b" "token (node ?m b) = token (node m b)" "refCount (node ?m b) = refCount (node m b)"
    "ZeroDepth (details (node ?m b)) = ZeroDepth (details (node m b))" for b
    using assms(2-4,6) by auto
  note c = core_cong [OF _ _ _ _ e(1-3) h e(4) assms(1), simplified]
  show "names_ok ?m" "tokens_ok ?m" "counts_ok ?m" "exclusive ?m" "locked ?m = locked m" using c by auto
qed

lemma ls_hold_spec:
  assumes "ls_inv m" "locked m a" "\<not> held (node m a)"
  shows "\<exists>m'. ls_hold m a = Some m' \<and> ls_inv m' \<and> locked m' = locked m \<and> byToken m' = byToken m \<and> gen m' = gen m \<and>
    (\<forall>b. details (node m' b) = details (node m b) \<and> expiry (node m' b) = expiry (node m b) \<and>
         (held (node m' b) \<longleftrightarrow> held (node m b) \<or> b = a))"
proof -
  let ?m1 = "upd a (\<lambda>n. n\<lparr>held := True\<rparr>) m"
  have c: "names_ok ?m1" "tokens_ok ?m1" "counts_ok ?m1" "exclusive ?m1" "locked ?m1 = locked m"
    using core_upd [OF assms(1), of "\<lambda>n. n\<lparr>held := True\<rparr>" a] assms(2) by simp_all
  have ex: "set (byExpiry m) = {a. locked m a \<and> \<not> held (node m a) \<and> 0 \<le> Duration (details (node m a))}" "heap_ok m"
    using ls_invD(5) [OF assms(1)] by (auto simp: expiry_ok_def)
  have hp: "heap_ok ?m1" using ex(2) heap_ok_cong [of ?m1 m] by auto
  define m' where "m' = (if Duration (details (node ?m1 a)) \<ge> 0 \<and> byExpiryIndex (node ?m1 a) \<ge> 0
                    then expiry_remove ?m1 (nat (byExpiryIndex (node ?m1 a))) else ?m1)"
  have "a \<in> set (byExpiry m) \<longleftrightarrow> 0 \<le> Duration (details (node m a))" using ex(1) assms(2,3) by auto
  moreover have "a \<in> set (byExpiry ?m1) \<longleftrightarrow> 0 \<le> byExpiryIndex (node ?m1 a)" using idx_iff(1) [of ?m1 a] hp by (simp add: heap_ok_def)
  ultimately have m': "heap_ok m' \<and> set (byExpiry m') = set (byExpiry m) - {a} \<and> ls_rest m' = ls_rest ?m1"
    using expiry_remove_spec [OF hp, of a] hp by (auto simp: m'_def)
  then have rest: "ls_rest m' = ls_rest ?m1" by blast
  have "ls_inv m'" unfolding ls_inv_def expiry_ok_def
    using c rest_inv [OF rest] m' ex(1) ls_restD [OF rest] by auto
  moreover have "ls_hold m a = Some m'" using assms(3) unfolding ls_hold_def Let_def m'_def by simp
  ultimately show ?thesis using rest_inv(5) [OF rest] c(5) ls_restD [OF rest] by auto
qed

lemma ls_unhold_spec:
  assumes "ls_inv m" "locked m a" "held (node m a)"
  shows "\<exists>m'. ls_unhold m a = Some m' \<and> ls_inv m' \<and> locked m' = locked m \<and> byToken m' = byToken m \<and> gen m' = gen m \<and>
    (\<forall>b. details (node m' b) = details (node m b) \<and> expiry (node m' b) = expiry (node m b) \<and>
         (held (node m' b) \<longleftrightarrow> held (node m b) \<and> b \<noteq> a))"
proof -
  let ?m1 = "upd a (\<lambda>n. n\<lparr>held := False\<rparr>) m"
  have c: "names_ok ?m1" "tokens_ok ?m1" "counts_ok ?m1" "exclusive ?m1" "locked ?m1 = locked m"
    using core_upd [OF assms(1), of "\<lambda>n. n\<lparr>held := False\<rparr>" a] by simp_all
  have ex: "set (byExpiry m) = {a. locked m a \<and> \<not> held (node m a) \<and> 0 \<le> Duration (details (node m a))}" "heap_ok m"
    using ls_invD(5) [OF assms(1)] by (auto simp: expiry_ok_def)
  have hp: "heap_ok ?m1" using ex(2) heap_ok_cong [of ?m1 m] by auto
  define m' where "m' = (if Duration (details (node ?m1 a)) \<ge> 0 then expiry_push ?m1 a else ?m1)"
  have "a \<notin> set (byExpiry ?m1)" using ex(1) assms(3) by auto
  then have m': "heap_ok m' \<and> set (byExpiry m') = set (byExpiry m) \<union> (if Duration (details (node m a)) \<ge> 0 then {a} else {}) \<and> ls_rest m' = ls_rest ?m1"
    using expiry_push_spec [OF hp, of a] hp by (auto simp: m'_def)
  then have rest: "ls_rest m' = ls_rest ?m1" by blast
  have "ls_inv m'" unfolding ls_inv_def expiry_ok_def
    using c rest_inv [OF rest] m' ex(1) ls_restD [OF rest] assms(2,3) by (auto split: if_splits)
  moreover have "ls_unhold m a = Some m'" using assms(3) unfolding ls_unhold_def Let_def m'_def by simp
  ultimately show ?thesis using rest_inv(5) [OF rest] c(5) ls_restD [OF rest] by auto
qed

section \<open>Creating and refreshing a lock\<close>

text \<open>The node of the new lock, before it enters the heap.\<close>

definition granted :: "memLS \<Rightarrow> nat \<Rightarrow> string \<Rightarrow> LockDetails \<Rightarrow> int \<Rightarrow> memLS" where
  "granted m2 a t d ex = (upd a (\<lambda>n. n\<lparr>token := t, details := d, expiry := ex\<rparr>) m2)\<lparr>byToken := (byToken m2)(t \<mapsto> a), gen := gen m2 + 1\<rparr>"

definition no_conflict :: "memLS \<Rightarrow> LockDetails \<Rightarrow> bool" where
  "no_conflict m d \<longleftrightarrow> (\<forall>b. locked m b \<longrightarrow> \<not> covers_lock d (details (node m b)) \<and> \<not> covers_lock (details (node m b)) d)"

lemma canCreate_no_conflict:
  assumes "ls_inv m" "abs_path (Root d)"
  shows "canCreate m (Root d) (ZeroDepth d) = Some (no_conflict m d)"
proof -
  obtain cs where cs: "Root d = path_of cs" "valid_names cs" using assms(2) by (rule abs_pathE)
  have eq: "root m b = Root d \<longleftrightarrow> comps_of (root m b) = cs" if "locked m b" for b
    using locked_root(2,3) [OF assms(1) that] cs comps_of_path_of by metis
  have "no_conflict m d \<longleftrightarrow> \<not> (\<exists>b. locked m b \<and> (comps_of (root m b) = cs \<or> \<not> ZeroDepth d \<and> prefix cs (comps_of (root m b)) \<or>
      \<not> ZeroDepth (details (node m b)) \<and> prefix (comps_of (root m b)) cs))"
    unfolding no_conflict_def covers_lock_def using eq cs by (auto simp: eq_commute [of "path_of cs"])
  then show ?thesis using canCreate_iff [OF assms(1) cs(2), of "ZeroDepth d"] cs(1) by simp
qed

lemma fresh_token:
  assumes "tokens_ok m" "byToken m (format_nat (gen m + 1)) = Some a"
  shows False
proof -
  obtain k where "k \<le> gen m" "format_nat (gen m + 1) = format_nat k" using assms unfolding tokens_ok_def by blast
  then show False using format_nat_inj by fastforce
qed

lemma create_target:
  assumes "ls_inv m" "abs_path (Root d)" "no_conflict m d"
  obtains m2 a cs where "ls_create m (Root d) = Some (m2, a)" "Root d = path_of cs" "valid_names cs"
    "created (ancestors cs) m m2" "byName m2 (Root d) = Some a" "\<not> locked m a"
proof -
  obtain cs where cs: "Root d = path_of cs" "valid_names cs" using assms(2) by (rule abs_pathE)
  note inj = names_inj [OF ls_invD(1) [OF assms(1)]]
  obtain m2 a where w: "walk_list (ancestors cs) True create_step (m, 0) = Some (True, m2, a)" "created (ancestors cs) m m2"
      "byName m2 (path_of cs) = Some a"
    using create_walk [OF inj distinct_ancestors [OF cs(2)], of True 0] hd_ancestors [of cs] by auto
  have "\<not> locked m a"
  proof
    assume l: "locked m a"
    have n: "byName m (root m a) = Some a" using lockedD(3) [OF ls_invD(2) [OF assms(1)] l] .
    then have "byName m2 (root m a) = Some a" using createdD(6) [OF w(2)] by blast
    then have "root m a = Root d" using createdD(5) [OF w(2)] w(3) cs(1) unfolding names_inj_def by metis
    then show False using assms(3) l by (auto simp: no_conflict_def covers_lock_def)
  qed
  moreover have "ls_create m (Root d) = Some (m2, a)" using w(1) cs by (simp add: ls_create_def walk_path)
  ultimately show thesis using that cs w by simp
qed

lemma granted_inv:
  fixes ex :: int
  assumes "ls_inv m" "Root d = path_of cs" "valid_names cs" "no_conflict m d" "created (ancestors cs) m m2"
    and "byName m2 (Root d) = Some a" "\<not> locked m a"
  defines "g \<equiv> granted m2 a (format_nat (gen m + 1)) d ex"
  shows "names_ok g" "tokens_ok g" "counts_ok g" "exclusive g" "heap_ok g" "byExpiry g = byExpiry m"
    and "\<And>b. locked g b \<longleftrightarrow> locked m b \<or> b = a" "\<And>b. b \<noteq> a \<Longrightarrow> locked m b \<Longrightarrow> same_lock m g b" "\<not> held (node g a)"
proof -
  note I = ls_invD [OF assms(1)] and c = createdD [OF assms(5)]
  let ?t = "format_nat (gen m + 1)"
  have inj2: "n = k" if "byName m2 n = Some b" "byName m2 k = Some b" for n k b using c(5) that unfolding names_inj_def by blast
  have anc: "n \<in> set (ancestors cs) \<Longrightarrow> abs_path n \<and> prefix (comps_of n) cs" for n
    using assms(3) valid_names_prefix by (auto simp: set_ancestors)
  have fresh: "byToken m ?t = None" using fresh_token [OF I(2)] by (cases "byToken m ?t") auto
  have g: "byName g = byName m2" "byToken g = (byToken m)(?t \<mapsto> a)" "gen g = gen m + 1" "nextAddr g = nextAddr m2" "byExpiry g = byExpiry m"
    "node g b = (if b = a then (node m2 a)\<lparr>token := ?t, details := d, expiry := ex\<rparr> else node m2 b)" for b
    using c(1-3) by (simp_all add: g_def granted_def)
  show "byExpiry g = byExpiry m" by (rule g(5))
  have old: "node m2 b = node m b \<or> node m2 b = (node m b)\<lparr>refCount := refCount (node m b) + 1\<rparr>"
    if h: "\<And>n. byName m2 n = Some b \<Longrightarrow> byName m n \<noteq> None" for b
  proof (cases "\<exists>n \<in> set (ancestors cs). byName m2 n = Some b")
    case True
    then obtain n where "n \<in> set (ancestors cs)" "byName m2 n = Some b" by blast
    then show ?thesis using c(10) [of n b] h [of n] by (auto simp: bumped_def)
  next
    case False
    then show ?thesis using c(11) [of b] by blast
  qed
  have new: "node m2 b = (new_node n)\<lparr>refCount := 1\<rparr> \<and> nextAddr m \<le> b \<and> n \<in> set (ancestors cs)"
    if "byName m2 n = Some b" "byName m n = None" for n b
    using c(7,9,10) that unfolding bumped_def by (metis option.case(1) option.distinct(1))
  have lt: "b < nextAddr m" if "locked m b" for b
    using names_okD [OF I(1) lockedD(3) [OF I(2) that]] by blast
  have lockn: "byName m n \<noteq> None" if "locked m b" "byName m2 n = Some b" for b n
    using new [OF that(2)] lt [OF that(1)] by fastforce
  have keep: "node m2 b = node m b \<or> node m2 b = (node m b)\<lparr>refCount := refCount (node m b) + 1\<rparr>" if "locked m b" for b
    using old lockn that by blast
  show lg: "locked g b \<longleftrightarrow> locked m b \<or> b = a" for b
    using fresh by (auto simp: locked_def g(2) split: if_splits) (metis option.distinct(1))
  show same: "same_lock m g b" if "b \<noteq> a" "locked m b" for b
    using keep [OF that(2)] that(1) by (auto simp: same_lock_def g(6))
  show "names_ok g" unfolding names_ok_def g
  proof (intro allI impI)
    fix n b assume b: "byName m2 n = Some b"
    have "b < nextAddr m2" using c(5) b unfolding names_inj_def by blast
    moreover have "abs_path n \<and> Root (details (node m2 b)) = n"
    proof (cases "byName m n")
      case None
      then show ?thesis using new [OF b] anc by (simp add: new_node_def)
    next
      case (Some x)
      then have x: "x = b" using c(6) b by force
      have "node m2 b = node m b \<or> node m2 b = (node m b)\<lparr>refCount := refCount (node m b) + 1\<rparr>"
        using old Some inj2 [OF b] by (metis option.distinct(1))
      then show ?thesis using names_okD [OF I(1) Some] x by auto
    qed
    moreover have "n = Root d" if "b = a" using inj2 b assms(6) that by blast
    ultimately show "abs_path n \<and> Root (details (if b = a then (node m2 a)\<lparr>token := ?t, details := d, expiry := ex\<rparr> else node m2 b)) = n \<and> b < nextAddr m2"
      by auto
  qed
  have hld: "\<not> held (node m2 b)" if "\<not> locked m b" for b
  proof (cases "\<exists>n. byName m2 n = Some b \<and> byName m n = None")
    case True
    then show ?thesis using new by (auto simp: new_node_def)
  next
    case False
    then show ?thesis using old [of b] that I(2) unfolding tokens_ok_def by fastforce
  qed
  show "\<not> held (node g a)" using hld [OF assms(7)] by (simp add: g(6))
  have tok2: "locked m b" if b: "byName m2 n = Some b" "token (node m2 b) \<noteq> []" for n b
  proof (cases "byName m n")
    case None
    then show ?thesis using new [OF b(1)] b(2) by (simp add: new_node_def)
  next
    case (Some x)
    then have x: "x = b" using c(6) b(1) by force
    have "token (node m2 b) = token (node m b)" using old [of b] Some inj2 [OF b(1)] by (metis option.distinct(1) memLSNode.select_convs(2) memLSNode.surjective memLSNode.update_convs(3))
    then show ?thesis using I(2) Some x b(2) unfolding tokens_ok_def by simp
  qed
  show "tokens_ok g"
  proof -
    have "t \<noteq> [] \<and> token (node g b) = t \<and> byName g (root g b) = Some b \<and> (\<exists>k\<le>gen g. t = format_nat k)"
      if t: "byToken g t = Some b" for t b
    proof (cases "t = ?t")
      case True
      then have "b = a" using t by (simp add: g(2))
      then show ?thesis using True assms(6) by (auto simp: g)
    next
      case False
      then have bm: "byToken m t = Some b" using t by (simp add: g(2))
      then have l: "locked m b" by (auto simp: locked_def)
      then have "b \<noteq> a" using assms(7) by blast
      then have "same_lock m g b" using same l by blast
      moreover have "t \<noteq> [] \<and> token (node m b) = t \<and> byName m (root m b) = Some b \<and> (\<exists>k\<le>gen m. t = format_nat k)"
        using I(2) bm unfolding tokens_ok_def by blast
      moreover have "byName m2 (root m b) = Some b" using c(6) calculation(2) by blast
      ultimately show ?thesis by (auto simp: same_lock_def g(1,3) intro: le_SucI)
    qed
    moreover have "locked g b" if "byName g n = Some b" "token (node g b) \<noteq> []" for n b
      using tok2 [of n b] that by (auto simp: lg g(1,6) split: if_splits)
    moreover have "finite {b. locked g b}" using I(2) unfolding tokens_ok_def by (simp add: lg)
    moreover have "\<not> held (node g b)" if "\<not> locked g b" for b using hld that by (simp add: lg g(6))
    ultimately show ?thesis unfolding tokens_ok_def by blast
  qed
  have below: "locks_below g ds = locks_below m ds \<union> (if prefix ds cs then {a} else {})" for ds
  proof -
    have "root g b = root m b" if "locked m b" for b using same that assms(7) by (metis same_lock_def)
    moreover have "comps_of (root g a) = cs" using assms(2,3) by (simp add: g(6))
    ultimately show ?thesis by (auto simp: locks_below_def lg)
  qed
  have fin: "finite (locks_below m ds)" "a \<notin> locks_below m ds" for ds
    using I(2) assms(7) unfolding tokens_ok_def by (auto simp: locks_below_def intro: rev_finite_subset)
  show "counts_ok g"
  proof -
    have "refCount (node g b) = int (card (locks_below g (comps_of n))) \<and> locks_below g (comps_of n) \<noteq> {}" if b: "byName g n = Some b" for n b
    proof -
      have bm: "byName m2 n = Some b" using b by (simp add: g(1))
      have rc: "refCount (node g b) = refCount (node m2 b)" by (simp add: g(6))
      have ancn: "n \<in> set (ancestors cs) \<longleftrightarrow> prefix (comps_of n) cs" if "abs_path n"
        using that assms(3) anc path_of_inject valid_names_prefix unfolding set_ancestors
        by (metis (mono_tags, lifting) abs_path_def image_eqI mem_Collect_eq)
      show ?thesis
      proof (cases "byName m n")
        case None
        note nw = new [OF bm None]
        have pn: "path_of (comps_of n) = n" using anc [of n] nw by (auto simp: abs_path_def)
        have "locks_below m (comps_of n) = {}"
        proof (rule ccontr)
          assume "locks_below m (comps_of n) \<noteq> {}"
          then have "byName m (path_of (comps_of n)) \<noteq> None" using I(3) unfolding counts_ok_def locks_below_def by blast
          then show False using None pn by simp
        qed
        then show ?thesis using nw anc [of n] rc by (simp add: below)
      next
        case (Some x)
        have x: "x = b" using c(6) [OF Some] bm by simp
        have abs: "abs_path n" using names_okD [OF I(1) Some] by blast
        have cnt: "refCount (node m b) = int (card (locks_below m (comps_of n)))" "locks_below m (comps_of n) \<noteq> {}"
          using I(3) Some x unfolding counts_ok_def by blast+
        show ?thesis
        proof (cases "n \<in> set (ancestors cs)")
          case True
          then have "refCount (node m2 b) = refCount (node m b) + 1" using c(10) [OF True bm] Some by (simp add: bumped_def)
          then show ?thesis using rc cnt fin True ancn [OF abs] by (simp add: below)
        next
          case False
          then have "node m2 b = node m b" using c(11) [of b] inj2 [OF bm] by blast
          then show ?thesis using rc cnt False ancn [OF abs] by (simp add: below)
        qed
      qed
    qed
    moreover have "byName g (path_of ds) \<noteq> None" if h: "locked g b" "prefix ds (comps_of (root g b))" for b ds
    proof (cases "b = a")
      case True
      then have "prefix ds cs" using h(2) assms(2,3) by (simp add: g(6))
      then show ?thesis using c(8) [of "path_of ds"] by (simp add: g(1) set_ancestors)
    next
      case False
      then have l: "locked m b" "root g b = root m b" using h(1) lg same by (auto simp: same_lock_def)
      then obtain x where "byName m (path_of ds) = Some x" using I(3) h(2) unfolding counts_ok_def by fastforce
      then show ?thesis using c(6) by (simp add: g(1))
    qed
    ultimately show ?thesis unfolding counts_ok_def by blast
  qed
  show "exclusive g"
  proof -
    have d: "details (node g b) = details (node m b)" if "locked m b" for b using same that assms(7) by (metis same_lock_def)
    have "details (node g a) = d" by (simp add: g(6))
    then show ?thesis using I(4) assms(4) d unfolding exclusive_def no_conflict_def by (auto simp: lg)
  qed
  show "heap_ok g"
  proof -
    have mem: "locked m b" if "b \<in> set (byExpiry m)" for b using I(5) that by (auto simp: expiry_ok_def)
    have "byExpiryIndex (node g b) = byExpiryIndex (node m b)" for b
    proof (cases "\<exists>n. byName m2 n = Some b \<and> byName m n = None")
      case True
      then have "nextAddr m \<le> b" "byExpiryIndex (node m2 b) = -1" using new by (auto simp: new_node_def)
      moreover have "b \<notin> set (byExpiry m)" using mem lt calculation(1) by force
      ultimately show ?thesis using I(5) by (auto simp: g(6) expiry_ok_def heap_ok_def idx_ok_def)
    next
      case False
      then show ?thesis using old [of b] by (auto simp: g(6))
    qed
    moreover have "expiry (node g b) = expiry (node m b)" if "b \<in> set (byExpiry m)" for b
      using same [of b] mem [OF that] assms(7) by (auto simp: same_lock_def)
    ultimately show ?thesis using heap_ok_cong [of g m] I(5) by (simp add: g(5) expiry_ok_def)
  qed
qed

end
