(* ===== verification/Webdav_Lock_Spec.thy ===== *)
theory Webdav_Lock_Spec
  imports Webdav_Lock
begin

text \<open>
  The contract of the WebDAV lock system of \<open>server/webdav/lock.go\<close>: an abstract table of locks, the
  operations on it, the proof that the operations of Webdav_Lock refine them without a panic,
  and the properties that follow.
\<close>

section \<open>What the lock system promises\<close>

text \<open>
  The abstract lock table: a partial map from tokens to locks.  Names are compared by their
  components; a lock without an expiry lives until it is released.
\<close>

record Lock =
  lock_details :: LockDetails
  lock_expiry :: "int option"
  lock_held :: bool

type_synonym lock_table = "string \<Rightarrow> Lock option"

definition view :: "memLSNode \<Rightarrow> Lock" where
  "view n = \<lparr>lock_details = details n, lock_expiry = (if 0 \<le> Duration (details n) then Some (expiry n) else None),
     lock_held = held n\<rparr>"

definition table :: "memLS \<Rightarrow> lock_table" where
  "table m t = map_option (\<lambda>a. view (node m a)) (byToken m t)"

definition dead :: "int \<Rightarrow> Lock \<Rightarrow> bool" where
  "dead now L \<longleftrightarrow> \<not> lock_held L \<and> (case lock_expiry L of None \<Rightarrow> False | Some x \<Rightarrow> x \<le> now)"

definition live :: "int \<Rightarrow> lock_table \<Rightarrow> lock_table" where
  "live now T t = (case T t of None \<Rightarrow> None | Some L \<Rightarrow> if dead now L then None else Some L)"

definition timed :: "int \<Rightarrow> LockDetails \<Rightarrow> Lock" where
  "timed now d = \<lparr>lock_details = d, lock_expiry = (if 0 \<le> Duration d then Some (now + Duration d) else None), lock_held = False\<rparr>"

definition conflicting :: "lock_table \<Rightarrow> LockDetails \<Rightarrow> bool" where
  "conflicting T d \<longleftrightarrow> (\<exists>t L. T t = Some L \<and> (covers_lock d (lock_details L) \<or> covers_lock (lock_details L) d))"

definition spec_Create :: "lock_table \<Rightarrow> int \<Rightarrow> string \<Rightarrow> LockDetails \<Rightarrow> (lock_error + string) \<times> lock_table" where
  "spec_Create T now t d =
     (if conflicting (live now T) d then (Inl ErrLocked, live now T) else (Inr t, (live now T)(t \<mapsto> timed now d)))"

definition spec_Refresh :: "lock_table \<Rightarrow> int \<Rightarrow> string \<Rightarrow> int \<Rightarrow> (lock_error + LockDetails) \<times> lock_table" where
  "spec_Refresh T now t dur =
     (case live now T t of
        None \<Rightarrow> (Inl ErrNoSuchLock, live now T)
      | Some L \<Rightarrow>
          if lock_held L then (Inl ErrLocked, live now T)
          else let d = (lock_details L)\<lparr>Duration := dur\<rparr> in (Inr d, (live now T)(t \<mapsto> timed now d)))"

definition spec_Unlock :: "lock_table \<Rightarrow> int \<Rightarrow> string \<Rightarrow> lock_error option \<times> lock_table" where
  "spec_Unlock T now t =
     (case live now T t of
        None \<Rightarrow> (Some ErrNoSuchLock, live now T)
      | Some L \<Rightarrow> if lock_held L then (Some ErrLocked, live now T) else (None, (live now T)(t := None)))"

lemma view_simps [simp]: "lock_details (view n) = details n" "lock_held (view n) = held n"
  by (simp_all add: view_def)

lemma byToken_iff: "tokens_ok m \<Longrightarrow> byToken m t = Some a \<longleftrightarrow> locked m a \<and> token (node m a) = t"
  unfolding tokens_ok_def locked_def by blast

lemma table_Some: "tokens_ok m \<Longrightarrow> table m t = Some L \<longleftrightarrow> (\<exists>a. locked m a \<and> token (node m a) = t \<and> L = view (node m a))"
  by (auto simp: table_def byToken_iff)

lemma same_lock_view: "same_lock m m' b \<Longrightarrow> view (node m' b) = view (node m b) \<and> token (node m' b) = token (node m b)"
  by (simp add: same_lock_def view_def)

lemma dead_view: "dead now (view (node m b)) = expired m now b"
  by (auto simp: dead_def view_def expired_def)

lemma tableI:
  assumes "tokens_ok m'" "\<And>a. locked m' a \<Longrightarrow> T (token (node m' a)) = Some (view (node m' a))"
    and "\<And>t L. T t = Some L \<Longrightarrow> byToken m' t \<noteq> None"
  shows "table m' = T"
proof
  fix t
  show "table m' t = T t"
  proof (cases "byToken m' t")
    case None
    then show ?thesis using assms(3) [of t] by (cases "T t") (auto simp: table_def)
  next
    case (Some a)
    then have "locked m' a" "token (node m' a) = t" using byToken_iff [OF assms(1)] by auto
    then show ?thesis using assms(2) [of a] Some by (simp add: table_def)
  qed
qed

definition held_set :: "memLS \<Rightarrow> nat set" where
  "held_set m = {b. held (node m b)}"

lemma held_locked: "ls_inv m \<Longrightarrow> b \<in> held_set m \<Longrightarrow> locked m b"
  using ls_invD(2) [of m] unfolding tokens_ok_def held_set_def by blast

lemma collect_table:
  assumes "ls_inv m"
  shows "\<exists>m'. collectExpiredNodes m now = Some m' \<and> ls_inv m' \<and> table m' = live now (table m) \<and> gen m' = gen m \<and> held_set m' = held_set m"
proof -
  obtain m' where m': "collectExpiredNodes m now = Some m'" "ls_inv m'" "\<And>b. locked m' b \<longleftrightarrow> locked m b \<and> \<not> expired m now b"
      "\<And>b. locked m' b \<Longrightarrow> same_lock m m' b" "gen m' = gen m"
    using collect_spec [OF assms, of now] by blast
  have tk: "tokens_ok m" "tokens_ok m'" using ls_invD(2) assms m'(2) by auto
  have "table m' = live now (table m)"
  proof (rule tableI [OF tk(2)])
    fix a assume a: "locked m' a"
    have v: "view (node m' a) = view (node m a)" "token (node m' a) = token (node m a)" using same_lock_view [OF m'(4) [OF a]] by auto
    have "table m (token (node m a)) = Some (view (node m a))" using a m'(3) by (auto simp: table_Some [OF tk(1)])
    then show "live now (table m) (token (node m' a)) = Some (view (node m' a))"
      using a m'(3) by (simp add: v live_def dead_view)
  next
    fix t L assume "live now (table m) t = Some L"
    then have "table m t = Some L" "\<not> dead now L" by (auto simp: live_def split: option.splits if_splits)
    then obtain a where a: "locked m a" "token (node m a) = t" "\<not> expired m now a" by (auto simp: table_Some [OF tk(1)] dead_view)
    then have l: "locked m' a" using m'(3) by simp
    then have "byToken m' t = Some a" using a(2) same_lock_view [OF m'(4) [OF l]] by (simp add: byToken_iff [OF tk(2)])
    then show "byToken m' t \<noteq> None" by simp
  qed
  moreover have "held (node m' b) \<longleftrightarrow> held (node m b)" for b
  proof (cases "locked m' b")
    case True
    then show ?thesis using m'(4) by (simp add: same_lock_def)
  next
    case False
    then have "\<not> held (node m' b)" "\<not> (locked m b \<and> \<not> expired m now b)" using tk(2) m'(3) unfolding tokens_ok_def by blast+
    then show ?thesis using tk(1) unfolding tokens_ok_def by (auto simp: expired_def)
  qed
  ultimately show ?thesis using m' by (auto simp: held_set_def)
qed

section \<open>The operations refine the contract\<close>

lemma slashClean_abs [simp]: "abs_path (slashClean s)"
  by (simp add: slashClean_def Clean_abs)

lemma conflicting_table: "tokens_ok m \<Longrightarrow> conflicting (table m) d \<longleftrightarrow> \<not> no_conflict m d"
  unfolding conflicting_def no_conflict_def table_Some by (metis view_simps(1))

lemma granted_spec:
  fixes ex :: int
  assumes "ls_inv m" "Root d = path_of cs" "valid_names cs" "no_conflict m d" "created (ancestors cs) m m2"
    and "byName m2 (Root d) = Some a" "\<not> locked m a" "0 \<le> Duration d \<Longrightarrow> ex = now + Duration d"
  defines "g \<equiv> granted m2 a (format_nat (gen m + 1)) d ex"
  defines "g' \<equiv> if 0 \<le> Duration d then expiry_push g a else g"
  shows "ls_inv g'" "table g' = (table m)(format_nat (gen m + 1) \<mapsto> timed now d)" "held_set g' = held_set m"
proof -
  note G = granted_inv [OF assms(1-7), where ex = ex, folded g_def]
  note I = ls_invD [OF assms(1)]
  have ex: "set (byExpiry m) = {b. locked m b \<and> \<not> held (node m b) \<and> 0 \<le> Duration (details (node m b))}" using I(5) by (simp add: expiry_ok_def)
  have an: "a \<notin> set (byExpiry g)" using ex assms(7) G(6) by simp
  have na: "details (node g a) = d" "token (node g a) = format_nat (gen m + 1)" "expiry (node g a) = ex" by (simp_all add: g_def granted_def)
  have g': "heap_ok g'" "set (byExpiry g') = set (byExpiry m) \<union> (if 0 \<le> Duration d then {a} else {})" and rest: "ls_rest g' = ls_rest g"
    using expiry_push_spec [OF G(5) an] G(5,6) by (auto simp: g'_def)
  note r = ls_restD [OF rest] and ri = rest_inv [OF rest]
  have hv: "held (node g b) \<longleftrightarrow> held (node m b)" for b
  proof (cases "locked m b")
    case True
    then have "b \<noteq> a" using assms(7) by blast
    then show ?thesis using G(8) [OF _ True] by (simp add: same_lock_def)
  next
    case False
    then have "\<not> held (node m b)" "b \<noteq> a \<Longrightarrow> \<not> locked g b" using I(2) G(7) unfolding tokens_ok_def by blast+
    then show ?thesis using G(2,9) unfolding tokens_ok_def by blast
  qed
  then show "held_set g' = held_set m" by (simp add: held_set_def r(9))
  have "set (byExpiry g') = {b. locked g' b \<and> \<not> held (node g' b) \<and> 0 \<le> Duration (details (node g' b))}"
  proof -
    have "details (node g b) = details (node m b)" if "locked m b" for b using G(8) [OF _ that] assms(7) that by (metis same_lock_def)
    then show ?thesis unfolding g'(2) ex ri(5) r(5,9) using G(7,9) hv na(1) assms(7) by (auto split: if_splits)
  qed
  then show "ls_inv g'" unfolding ls_inv_def expiry_ok_def using G(1-4) ri g'(1) by simp
  have tg: "tokens_ok g'" using ri(2) G(2) by simp
  have vg: "view (node g' b) = view (node g b)" "token (node g' b) = token (node g b)" for b by (simp_all add: view_def r)
  have va: "view (node g a) = timed now d" using na assms(8) G(9) by (simp add: view_def timed_def)
  show "table g' = (table m)(format_nat (gen m + 1) \<mapsto> timed now d)"
  proof (rule tableI [OF tg])
    fix b assume "locked g' b"
    then have b: "locked m b \<or> b = a" using ri(5) G(7) by simp
    show "((table m)(format_nat (gen m + 1) \<mapsto> timed now d)) (token (node g' b)) = Some (view (node g' b))"
    proof (cases "b = a")
      case True
      then show ?thesis using va na by (simp add: vg)
    next
      case False
      then have l: "locked m b" using b by blast
      have v: "view (node g b) = view (node m b)" "token (node g b) = token (node m b)" using same_lock_view [OF G(8) [OF False l]] by auto
      have "byToken m (token (node m b)) = Some b" using lockedD(1) [OF I(2) l] .
      then have "token (node m b) \<noteq> format_nat (gen m + 1)" using fresh_token [OF I(2)] by metis
      then show ?thesis using table_Some [OF I(2)] l by (simp add: vg v) blast
    qed
  next
    fix t L assume "((table m)(format_nat (gen m + 1) \<mapsto> timed now d)) t = Some L"
    moreover have "byToken g' = byToken g" by (rule r(2))
    moreover have "byToken g = (byToken m)(format_nat (gen m + 1) \<mapsto> a)" using createdD(1) [OF assms(5)] by (simp add: g_def granted_def)
    ultimately show "byToken g' t \<noteq> None" by (auto simp: table_def split: if_splits)
  qed
qed

lemma LockCreate_sim:
  assumes "ls_inv m" "gen m + 1 < 2 ^ 64"
  shows "\<exists>r m'. LockCreate m now d = Some (r, m') \<and> ls_inv m' \<and> held_set m' = held_set m \<and>
    (r, table m') = spec_Create (table m) now (format_nat (gen m + 1)) (d\<lparr>Root := slashClean (Root d)\<rparr>)"
proof -
  let ?d = "d\<lparr>Root := slashClean (Root d)\<rparr>"
  obtain m1 where m1: "collectExpiredNodes m now = Some m1" "ls_inv m1" "table m1 = live now (table m)" "gen m1 = gen m" "held_set m1 = held_set m"
    using collect_table [OF assms(1)] by blast
  have can: "canCreate m1 (Root ?d) (ZeroDepth ?d) = Some (no_conflict m1 ?d)" by (rule canCreate_no_conflict [OF m1(2)]) simp
  note ct = conflicting_table [OF ls_invD(2) [OF m1(2)], of ?d]
  show ?thesis
  proof (cases "no_conflict m1 ?d")
    case False
    then show ?thesis using m1 can ct by (simp add: LockCreate_def spec_Create_def)
  next
    case True
    obtain m2 a cs where m2: "ls_create m1 (Root ?d) = Some (m2, a)" "Root ?d = path_of cs" "valid_names cs"
      "created (ancestors cs) m1 m2" "byName m2 (Root ?d) = Some a" "\<not> locked m1 a"
      by (rule create_target [OF m1(2) _ True]) simp
    let ?ex = "if 0 \<le> Duration d then now + Duration d else expiry (node m2 a)"
    let ?g = "granted m2 a (format_nat (gen m1 + 1)) ?d ?ex"
    let ?m = "if 0 \<le> Duration ?d then expiry_push ?g a else ?g"
    note G = granted_spec [OF m1(2) m2(2,3) True m2(4-6), of ?ex now]
    have "gen m2 + 1 < 2 ^ 64" using createdD(2) [OF m2(4)] m1(4) assms(2) by simp
    then have "LockCreate m now d = Some (Inr (format_nat (gen m1 + 1)), ?m)"
      using m1(1) can True m2(1) createdD(2) [OF m2(4)]
      by (cases m2) (simp add: LockCreate_def nextToken_def Let_def granted_def upd_def)
    then show ?thesis using G m1 True ct by (auto simp: spec_Create_def)
  qed
qed

lemma table_remove:
  assumes "ls_inv m" "byToken m t = Some a" "\<not> held (node m a)"
  shows "\<exists>m'. ls_remove m a = Some m' \<and> ls_inv m' \<and> table m' = (table m)(t := None) \<and> held_set m' = held_set m \<and> gen m' = gen m"
proof -
  note tk = ls_invD(2) [OF assms(1)]
  have a: "locked m a" "token (node m a) = t" using assms(2) byToken_iff [OF tk] by auto
  obtain m' where m': "ls_remove m a = Some m'" "ls_inv m'" "\<And>b. locked m' b \<longleftrightarrow> locked m b \<and> b \<noteq> a"
      "\<And>b. b \<noteq> a \<Longrightarrow> same_lock m m' b" "gen m' = gen m"
    using ls_remove_spec [OF assms(1) a(1) assms(3)] by blast
  note tk' = ls_invD(2) [OF m'(2)]
  have "table m' = (table m)(t := None)"
  proof (rule tableI [OF tk'])
    fix b assume "locked m' b"
    then have b: "locked m b" "b \<noteq> a" using m'(3) by auto
    have v: "view (node m' b) = view (node m b)" "token (node m' b) = token (node m b)" using same_lock_view [OF m'(4) [OF b(2)]] by auto
    have "byToken m (token (node m b)) = Some b" using lockedD(1) [OF tk b(1)] .
    then have "token (node m b) \<noteq> t" "table m (token (node m b)) = Some (view (node m b))" using assms(2) b(2) by (auto simp: table_def)
    then show "((table m)(t := None)) (token (node m' b)) = Some (view (node m' b))" by (simp add: v)
  next
    fix u L assume "((table m)(t := None)) u = Some L"
    then have "u \<noteq> t" "table m u = Some L" by (auto split: if_splits)
    then obtain b where b: "locked m b" "token (node m b) = u" "b \<noteq> a" using a(2) by (auto simp: table_Some [OF tk])
    then show "byToken m' u \<noteq> None" using byToken_iff [OF tk', of u b] m'(3) same_lock_view [OF m'(4) [OF b(3)]] by simp
  qed
  moreover have "held (node m' b) \<longleftrightarrow> held (node m b)" for b
  proof (cases "b = a")
    case True
    then show ?thesis using assms(3) tk' m'(3) unfolding tokens_ok_def by blast
  qed (use m'(4) in \<open>simp add: same_lock_def\<close>)
  ultimately show ?thesis using m' by (auto simp: held_set_def)
qed

lemma LockUnlock_sim:
  assumes "ls_inv m"
  shows "\<exists>r m'. LockUnlock m now t = Some (r, m') \<and> ls_inv m' \<and> held_set m' = held_set m \<and> (r, table m') = spec_Unlock (table m) now t"
proof -
  obtain m1 where m1: "collectExpiredNodes m now = Some m1" "ls_inv m1" "table m1 = live now (table m)" "held_set m1 = held_set m"
    using collect_table [OF assms(1)] by blast
  show ?thesis
  proof (cases "byToken m1 t")
    case None
    then show ?thesis using m1 by (simp add: LockUnlock_def spec_Unlock_def m1(3) [symmetric] table_def)
  next
    case (Some a)
    then show ?thesis using m1 table_remove [OF m1(2) Some]
      by (auto simp: LockUnlock_def spec_Unlock_def m1(3) [symmetric] table_def)
  qed
qed

lemma dequeue_spec:
  fixes a :: nat
  assumes "ls_inv m"
  defines "m' \<equiv> if byExpiryIndex (node m a) \<ge> 0 then expiry_remove m (nat (byExpiryIndex (node m a))) else m"
  shows "heap_ok m'" "set (byExpiry m') = set (byExpiry m) - {a}" "ls_rest m' = ls_rest m"
proof -
  have hp: "heap_ok m" using ls_invD(5) [OF assms(1)] by (simp add: expiry_ok_def)
  then have i: "a \<in> set (byExpiry m) \<longleftrightarrow> 0 \<le> byExpiryIndex (node m a)" using idx_iff(1) by (simp add: heap_ok_def)
  show "heap_ok m'" "set (byExpiry m') = set (byExpiry m) - {a}" "ls_rest m' = ls_rest m"
    using expiry_remove_spec [OF hp, of a] hp i by (auto simp: m'_def)
qed

lemma refreshed_spec:
  fixes ex :: int
  assumes "ls_inv m" "locked m a" "\<not> held (node m a)" "heap_ok m2" "set (byExpiry m2) = set (byExpiry m) - {a}" "ls_rest m2 = ls_rest m"
    and "0 \<le> dur \<Longrightarrow> ex = now + dur"
  defines "w \<equiv> upd a (\<lambda>n. n\<lparr>details := (details n)\<lparr>Duration := dur\<rparr>, expiry := ex\<rparr>) m2"
  defines "w' \<equiv> if 0 \<le> dur then expiry_push w a else w"
  shows "ls_inv w'" "table w' = (table m)(token (node m a) \<mapsto> timed now ((details (node m a))\<lparr>Duration := dur\<rparr>))"
    "held_set w' = held_set m" "details (node w' a) = (details (node m a))\<lparr>Duration := dur\<rparr>"
proof -
  note I = ls_invD [OF assms(1)] and r2 = ls_restD [OF assms(6)]
  have hw: "heap_ok w" using heap_ok_cong [of w m2] assms(4,5) by (auto simp: w_def)
  have an: "a \<notin> set (byExpiry w)" using assms(5) by (simp add: w_def)
  have w': "heap_ok w'" "set (byExpiry w') = set (byExpiry m) - {a} \<union> (if 0 \<le> dur then {a} else {})" and rest: "ls_rest w' = ls_rest w"
    using expiry_push_spec [OF hw an] hw assms(5) by (auto simp: w'_def w_def)
  note r = ls_restD [OF rest]
  have nd: "details (node w' b) = (if b = a then (details (node m a))\<lparr>Duration := dur\<rparr> else details (node m b))"
    "expiry (node w' b) = (if b = a then ex else expiry (node m b))" "held (node w' b) = held (node m b)"
    "token (node w' b) = token (node m b)" "refCount (node w' b) = refCount (node m b)" "byToken w' = byToken m" for b
    by (simp_all add: r w_def r2)
  have c: "names_ok w'" "tokens_ok w'" "counts_ok w'" "exclusive w'" "locked w' = locked m"
    by (rule core_cong [of w' m]; use assms(1) in \<open>simp add: nd r w_def r2\<close>)+
  have "set (byExpiry w') = {b. locked w' b \<and> \<not> held (node w' b) \<and> 0 \<le> Duration (details (node w' b))}"
    using I(5) assms(2,3) unfolding w'(2) c(5) nd by (auto simp: expiry_ok_def)
  then show "ls_inv w'" using c w'(1) by (simp add: ls_inv_def expiry_ok_def)
  show "held_set w' = held_set m" by (simp add: held_set_def nd)
  show "details (node w' a) = (details (node m a))\<lparr>Duration := dur\<rparr>" by (simp add: nd)
  have va: "view (node w' a) = timed now ((details (node m a))\<lparr>Duration := dur\<rparr>)" using assms(3,7) by (simp add: view_def timed_def nd)
  have vb: "view (node w' b) = view (node m b)" if "b \<noteq> a" for b using that by (simp add: view_def nd)
  have ta: "t = token (node m a) \<longleftrightarrow> b = a" if "byToken m t = Some b" for t b
    using that lockedD(1) [OF I(2) assms(2)] byToken_iff [OF I(2)] by (metis option.inject)
  show "table w' = (table m)(token (node m a) \<mapsto> timed now ((details (node m a))\<lparr>Duration := dur\<rparr>))"
  proof
    fix t show "table w' t = ((table m)(token (node m a) \<mapsto> timed now ((details (node m a))\<lparr>Duration := dur\<rparr>))) t"
      using ta [of t] lockedD(1) [OF I(2) assms(2)] va vb by (cases "byToken m t") (auto simp: table_def nd(6))
  qed
qed

lemma LockRefresh_sim:
  assumes "ls_inv m"
  shows "\<exists>r m'. LockRefresh m now t dur = Some (r, m') \<and> ls_inv m' \<and> held_set m' = held_set m \<and>
    (r, table m') = spec_Refresh (table m) now t dur"
proof -
  obtain m1 where m1: "collectExpiredNodes m now = Some m1" "ls_inv m1" "table m1 = live now (table m)" "held_set m1 = held_set m"
    using collect_table [OF assms(1)] by blast
  show ?thesis
  proof (cases "byToken m1 t")
    case None
    then show ?thesis using m1 by (simp add: LockRefresh_def spec_Refresh_def m1(3) [symmetric] table_def)
  next
    case (Some a)
    then have a: "locked m1 a" "token (node m1 a) = t" using byToken_iff [OF ls_invD(2) [OF m1(2)]] by auto
    show ?thesis
    proof (cases "held (node m1 a)")
      case True
      then show ?thesis using Some m1 by (simp add: LockRefresh_def spec_Refresh_def m1(3) [symmetric] table_def)
    next
      case False
      let ?m2 = "if byExpiryIndex (node m1 a) \<ge> 0 then expiry_remove m1 (nat (byExpiryIndex (node m1 a))) else m1"
      let ?ex = "if 0 \<le> dur then now + dur else expiry (node ?m2 a)"
      let ?w = "upd a (\<lambda>n. n\<lparr>details := (details n)\<lparr>Duration := dur\<rparr>, expiry := ?ex\<rparr>) ?m2"
      let ?w' = "if 0 \<le> dur then expiry_push ?w a else ?w"
      note R = refreshed_spec [OF m1(2) a(1) False dequeue_spec [OF m1(2)], of dur ?ex now]
      have eq: "LockRefresh m now t dur = Some (Inr (details (node ?w' a)), ?w')"
        using m1(1) Some False unfolding LockRefresh_def Let_def upd_def by simp
      have T: "live now (table m) t = Some (view (node m1 a))" unfolding m1(3) [symmetric] using Some by (simp add: table_def)
      show ?thesis
        unfolding eq using R m1(3,4) a(2) False
        by (simp add: spec_Refresh_def T Let_def)
    qed
  qed
qed

section \<open>Confirmation\<close>

definition guards :: "LockDetails \<Rightarrow> string \<Rightarrow> bool" where
  "guards d name \<longleftrightarrow> Root d = name \<or> \<not> ZeroDepth d \<and> prefix (comps_of (Root d)) (comps_of name)"

lemma guards_self: "guards d (Root d)"
  by (simp add: guards_def)

fun spec_lookup :: "lock_table \<Rightarrow> string \<Rightarrow> Condition list \<Rightarrow> string option" where
  "spec_lookup T name [] = None"
| "spec_lookup T name (c # cs) =
     (case T (Token c) of
        None \<Rightarrow> spec_lookup T name cs
      | Some L \<Rightarrow> if \<not> lock_held L \<and> guards (lock_details L) name then Some (Token c) else spec_lookup T name cs)"

definition set_held :: "bool \<Rightarrow> string option \<Rightarrow> lock_table \<Rightarrow> lock_table" where
  "set_held b x T = (case x of None \<Rightarrow> T | Some t \<Rightarrow> T(t := map_option (\<lambda>L. L\<lparr>lock_held := b\<rparr>) (T t)))"

definition spec_Confirm ::
  "lock_table \<Rightarrow> int \<Rightarrow> string \<Rightarrow> string \<Rightarrow> Condition list \<Rightarrow> (lock_error + string option \<times> string option) \<times> lock_table" where
  "spec_Confirm T now name0 name1 cs =
     (let T1 = live now T;
          t0 = (if name0 = [] then None else spec_lookup T1 (slashClean name0) cs);
          t1 = (if name1 = [] then None else spec_lookup T1 (slashClean name1) cs)
      in if name0 \<noteq> [] \<and> t0 = None \<or> name1 \<noteq> [] \<and> t1 = None then (Inl ErrConfirmationFailed, T1)
         else let t1' = (if t1 = t0 then None else t1) in (Inr (t0, t1'), set_held True t1' (set_held True t0 T1)))"

definition token_of :: "memLS \<Rightarrow> nat option \<Rightarrow> string option" where
  "token_of m = map_option (\<lambda>a. token (node m a))"

lemma lookup_refines:
  assumes "ls_inv m" "abs_path name"
  shows "token_of m (ls_lookup m name cs) = spec_lookup (table m) name cs"
    and "ls_lookup m name cs = Some a \<Longrightarrow> locked m a \<and> \<not> held (node m a) \<and> guards (details (node m a)) name"
proof -
  obtain ns where ns: "name = path_of ns" "valid_names ns" using assms(2) by (rule abs_pathE)
  have g: "guards (details (node m b)) name \<longleftrightarrow>
      name = root m b \<or> \<not> ZeroDepth (details (node m b)) \<and> (root m b = ''/'' \<or> HasPrefix name (root m b @ ''/''))"
    if b: "locked m b" for b
  proof -
    note lr = locked_root(2,3) [OF assms(1) b]
    have "prefix (comps_of (root m b)) ns \<longleftrightarrow> path_of (comps_of (root m b)) = path_of ns \<or> root m b = ''/'' \<or> HasPrefix name (root m b @ ''/'')"
    proof (cases "comps_of (root m b) = []")
      case True
      then have "root m b = ''/''" using lr(2) by simp
      then show ?thesis using True by simp
    next
      case False
      then have "root m b \<noteq> ''/''" using lr path_of_inject [of "comps_of (root m b)" "[]"] by auto
      then show ?thesis using prefix_path_of_iff [OF lr(1) ns(2) False] lr(2) ns(1) by (simp add: HasPrefix_iff)
    qed
    then show ?thesis using ns lr by (auto simp: guards_def)
  qed
  have lk: "locked m b \<and> token (node m b) = t" if "byToken m t = Some b" for t b
    using that byToken_iff [OF ls_invD(2) [OF assms(1)]] by blast
  show "token_of m (ls_lookup m name cs) = spec_lookup (table m) name cs"
    by (induction cs) (auto simp: token_of_def table_def lk g split: option.splits)
  show "locked m a \<and> \<not> held (node m a) \<and> guards (details (node m a)) name" if "ls_lookup m name cs = Some a"
    using that by (induction cs) (auto simp: lk g guards_self split: option.splits if_splits)
qed

lemma table_set_held:
  assumes "tokens_ok m" "locked m a" "byToken m' = byToken m"
    and "\<And>b. details (node m' b) = details (node m b) \<and> expiry (node m' b) = expiry (node m b) \<and>
           held (node m' b) = (if b = a then h else held (node m b))"
  shows "table m' = set_held h (Some (token (node m a))) (table m)"
proof
  fix t
  have "t = token (node m a) \<longleftrightarrow> b = a" if "byToken m t = Some b" for b
    using that lockedD(1) [OF assms(1,2)] byToken_iff [OF assms(1)] by (metis option.inject)
  then show "table m' t = set_held h (Some (token (node m a))) (table m) t"
    using assms(4) by (cases "byToken m t") (auto simp: table_def set_held_def assms(3) view_def)
qed

lemma token_kept: "tokens_ok m \<Longrightarrow> tokens_ok m' \<Longrightarrow> byToken m' = byToken m \<Longrightarrow> locked m a \<Longrightarrow> token (node m' a) = token (node m a)"
  using lockedD(1) byToken_iff by metis

definition free :: "memLS \<Rightarrow> nat option \<Rightarrow> bool" where
  "free m x \<longleftrightarrow> (\<forall>a \<in> set_option x. locked m a \<and> \<not> held (node m a))"

definition kept_by :: "memLS \<Rightarrow> nat option \<Rightarrow> bool" where
  "kept_by m x \<longleftrightarrow> set_option x \<subseteq> held_set m"

lemma hold_opt_sim:
  assumes "ls_inv m" "free m x"
  shows "\<exists>m'. hold_opt m x = Some m' \<and> ls_inv m' \<and> byToken m' = byToken m \<and> held_set m' = held_set m \<union> set_option x \<and>
    table m' = set_held True (token_of m x) (table m)"
proof (cases x)
  case None
  then show ?thesis using assms(1) by (simp add: hold_opt_def set_held_def token_of_def)
next
  case (Some a)
  then have a: "locked m a" "\<not> held (node m a)" using assms(2) by (auto simp: free_def)
  obtain m' where m': "ls_hold m a = Some m'" "ls_inv m'" "byToken m' = byToken m"
      "\<And>b. details (node m' b) = details (node m b) \<and> expiry (node m' b) = expiry (node m b) \<and> (held (node m' b) \<longleftrightarrow> held (node m b) \<or> b = a)"
    using ls_hold_spec [OF assms(1) a] by blast
  then show ?thesis using Some table_set_held [OF ls_invD(2) [OF assms(1)] a(1) m'(3), of True]
    by (auto simp: hold_opt_def held_set_def token_of_def)
qed

lemma unhold_opt_sim:
  assumes "ls_inv m" "kept_by m x"
  shows "\<exists>m'. unhold_opt m x = Some m' \<and> ls_inv m' \<and> byToken m' = byToken m \<and> held_set m' = held_set m - set_option x \<and>
    table m' = set_held False (token_of m x) (table m)"
proof (cases x)
  case None
  then show ?thesis using assms(1) by (simp add: unhold_opt_def set_held_def token_of_def)
next
  case (Some a)
  then have a: "held (node m a)" "a \<in> held_set m" using assms(2) by (auto simp: kept_by_def held_set_def)
  have l: "locked m a" using held_locked [OF assms(1) a(2)] .
  obtain m' where m': "ls_unhold m a = Some m'" "ls_inv m'" "byToken m' = byToken m"
      "\<And>b. details (node m' b) = details (node m b) \<and> expiry (node m' b) = expiry (node m b) \<and> (held (node m' b) \<longleftrightarrow> held (node m b) \<and> b \<noteq> a)"
    using ls_unhold_spec [OF assms(1) l a(1)] by blast
  then show ?thesis using Some table_set_held [OF ls_invD(2) [OF assms(1)] l m'(3), of False]
    by (auto simp: unhold_opt_def held_set_def token_of_def)
qed

definition holds :: "lock_error + nat option \<times> nat option \<Rightarrow> nat set" where
  "holds r = (case r of Inl _ \<Rightarrow> {} | Inr (x, y) \<Rightarrow> set_option x \<union> set_option y)"

definition token_result :: "memLS \<Rightarrow> lock_error + nat option \<times> nat option \<Rightarrow> lock_error + string option \<times> string option" where
  "token_result m = map_sum id (map_prod (token_of m) (token_of m))"

lemma token_of_kept:
  assumes "ls_inv m" "ls_inv m'" "byToken m' = byToken m" "free m x"
  shows "token_of m' x = token_of m x"
  using assms(4) token_kept [OF ls_invD(2) ls_invD(2), OF assms(1-3)] by (cases x) (auto simp: token_of_def free_def)

lemma token_inj: "ls_inv m \<Longrightarrow> locked m a \<Longrightarrow> locked m b \<Longrightarrow> token (node m a) = token (node m b) \<Longrightarrow> a = b"
  using lockedD(1) [OF ls_invD(2), of m] by (metis option.inject)

lemma token_of_inj: "ls_inv m \<Longrightarrow> free m x \<Longrightarrow> free m y \<Longrightarrow> token_of m x = token_of m y \<longleftrightarrow> x = y"
  using token_inj by (cases x; cases y) (auto simp: token_of_def free_def)

lemma Confirm_sim:
  assumes "ls_inv m"
  shows "\<exists>r m'. Confirm m now name0 name1 cs = Some (r, m') \<and> ls_inv m' \<and>
    (token_result m' r, table m') = spec_Confirm (table m) now name0 name1 cs \<and>
    held_set m' = held_set m \<union> holds r \<and> holds r \<inter> held_set m = {} \<and> (\<forall>x y. r = Inr (x, y) \<longrightarrow> set_option x \<inter> set_option y = {})"
proof -
  obtain m1 where m1: "collectExpiredNodes m now = Some m1" "ls_inv m1" "table m1 = live now (table m)" "held_set m1 = held_set m"
    using collect_table [OF assms(1)] by blast
  define x where "x = (if name0 \<noteq> [] then ls_lookup m1 (slashClean name0) cs else None)"
  define y where "y = (if name1 \<noteq> [] then ls_lookup m1 (slashClean name1) cs else None)"
  have unf: "Confirm m now name0 name1 cs =
      (if name0 \<noteq> [] \<and> x = None then Some (Inl ErrConfirmationFailed, m1)
       else if name1 \<noteq> [] \<and> y = None then Some (Inl ErrConfirmationFailed, m1)
       else case hold_opt m1 x of None \<Rightarrow> None
         | Some m2 \<Rightarrow> map_option (\<lambda>m3. (Inr (x, if y = x then None else y), m3)) (hold_opt m2 (if y = x then None else y)))"
    by (simp only: Confirm_def m1(1) option.case Let_def x_def y_def)
  note L = lookup_refines [OF m1(2) slashClean_abs]
  have tx: "token_of m1 x = (if name0 = [] then None else spec_lookup (live now (table m)) (slashClean name0) cs)"
    "token_of m1 y = (if name1 = [] then None else spec_lookup (live now (table m)) (slashClean name1) cs)"
    using L(1) by (simp_all add: x_def y_def m1(3) token_of_def)
  have fx: "free m1 x" "free m1 y" using L(2) by (auto simp: free_def x_def y_def)
  have nx: "token_of m1 x = None \<longleftrightarrow> x = None" "token_of m1 y = None \<longleftrightarrow> y = None" by (simp_all add: token_of_def)
  show ?thesis
  proof (cases "name0 \<noteq> [] \<and> x = None \<or> name1 \<noteq> [] \<and> y = None")
    case True
    have "Confirm m now name0 name1 cs = Some (Inl ErrConfirmationFailed, m1)"
      using True unf by auto
    moreover have "spec_Confirm (table m) now name0 name1 cs = (Inl ErrConfirmationFailed, live now (table m))"
      using True nx unfolding spec_Confirm_def Let_def tx [symmetric] by auto
    ultimately show ?thesis using m1 by (simp add: token_result_def holds_def)
  next
    case False
    define z where "z = (if y = x then None else y)"
    obtain m2 where m2: "hold_opt m1 x = Some m2" "ls_inv m2" "byToken m2 = byToken m1" "held_set m2 = held_set m1 \<union> set_option x"
        "table m2 = set_held True (token_of m1 x) (table m1)"
      using hold_opt_sim [OF m1(2) fx(1)] by blast
    have dj: "set_option x \<inter> set_option z = {}" by (cases x; cases y) (auto simp: z_def)
    have fz: "free m1 z" using fx(2) by (auto simp: z_def free_def)
    have lk: "locked m2 = locked m1" by (simp add: locked_def m2(3) fun_eq_iff)
    have "held (node m2 a) \<longleftrightarrow> held (node m1 a) \<or> a \<in> set_option x" for a using m2(4) unfolding held_set_def by blast
    then have fz2: "free m2 z" using fz dj lk by (auto simp: free_def)
    obtain m3 where m3: "hold_opt m2 z = Some m3" "ls_inv m3" "byToken m3 = byToken m2" "held_set m3 = held_set m2 \<union> set_option z"
        "table m3 = set_held True (token_of m2 z) (table m2)"
      using hold_opt_sim [OF m2(2) fz2] by blast
    have run: "Confirm m now name0 name1 cs = Some (Inr (x, z), m3)"
      using False m2(1) m3(1) unfolding unf z_def [symmetric] by auto
    have tk: "token_of m2 z = token_of m1 z" "token_of m3 x = token_of m1 x" "token_of m3 z = token_of m1 z"
      using token_of_kept [OF m1(2) m2(2) m2(3) fz] token_of_kept [OF m1(2) m3(2) _ fz] token_of_kept [OF m1(2) m3(2) _ fx(1)] m2(3) m3(3)
      by simp_all
    have tz: "token_of m1 z = (if token_of m1 y = token_of m1 x then None else token_of m1 y)"
      using token_of_inj [OF m1(2) fx(2,1)] by (simp add: z_def token_of_def)
    have "spec_Confirm (table m) now name0 name1 cs = (Inr (token_of m1 x, token_of m1 z), table m3)"
      using False nx unfolding spec_Confirm_def Let_def tx [symmetric] tz [symmetric] m3(5) m2(5) m1(3) tk by auto
    moreover have "holds (Inr (x, z)) \<inter> held_set m = {}" "held_set m3 = held_set m \<union> holds (Inr (x, z))"
      using fx fz m3(4) m2(4) m1(4) by (auto simp: holds_def free_def held_set_def)
    ultimately show ?thesis using run m3(2) tk dj by (simp add: token_result_def)
  qed
qed

lemma release_sim:
  assumes "ls_inv m" "holds (Inr (x, y)) \<subseteq> held_set m" "set_option x \<inter> set_option y = {}"
  shows "\<exists>m'. Confirm_release m (x, y) = Some m' \<and> ls_inv m' \<and> held_set m' = held_set m - holds (Inr (x, y)) \<and>
    table m' = set_held False (token_of m x) (set_held False (token_of m y) (table m))"
proof -
  have k: "kept_by m y" using assms(2) by (auto simp: kept_by_def holds_def)
  obtain m1 where m1: "unhold_opt m y = Some m1" "ls_inv m1" "byToken m1 = byToken m" "held_set m1 = held_set m - set_option y"
      "table m1 = set_held False (token_of m y) (table m)"
    using unhold_opt_sim [OF assms(1) k] by blast
  have k1: "kept_by m1 x" using assms(2,3) m1(4) by (auto simp: kept_by_def holds_def)
  obtain m2 where m2: "unhold_opt m1 x = Some m2" "ls_inv m2" "held_set m2 = held_set m1 - set_option x"
      "table m2 = set_held False (token_of m1 x) (table m1)"
    using unhold_opt_sim [OF m1(2) k1] by blast
  have "token_of m1 x = token_of m x"
  proof (cases x)
    case (Some a)
    then have "locked m a" using assms(2) held_locked [OF assms(1)] by (auto simp: holds_def)
    then show ?thesis using token_kept [OF ls_invD(2) ls_invD(2), OF assms(1) m1(2,3)] Some by (simp add: token_of_def)
  qed (simp add: token_of_def)
  then show ?thesis using m1 m2 by (auto simp: Confirm_release_def holds_def)
qed

section \<open>The lock system in use\<close>

text \<open>
  A run of the server: the requests call the operations in any order and at any time, and keep the
  release functions that \<open>Confirm\<close> gave them until they call them.  The token counter is assumed not
  to run through all 64 bits.
\<close>

type_synonym lock_state = "memLS \<times> (nat option \<times> nat option) list"

definition lock_start :: "lock_state \<Rightarrow> bool" where
  "lock_start s \<longleftrightarrow> (\<exists>now. s = (NewMemLS now, []))"

inductive lock_step :: "lock_state \<Rightarrow> lock_state \<Rightarrow> bool" where
  create: "gen m + 1 < 2 ^ 64 \<Longrightarrow> LockCreate m now d = Some (r, m') \<Longrightarrow> lock_step (m, out) (m', out)"
| refresh: "LockRefresh m now t dur = Some (r, m') \<Longrightarrow> lock_step (m, out) (m', out)"
| unlock: "LockUnlock m now t = Some (e, m') \<Longrightarrow> lock_step (m, out) (m', out)"
| confirmed: "Confirm m now name0 name1 cs = Some (Inr ns, m') \<Longrightarrow> lock_step (m, out) (m', ns # out)"
| refused: "Confirm m now name0 name1 cs = Some (Inl e, m') \<Longrightarrow> lock_step (m, out) (m', out)"
| released: "Confirm_release m ns = Some m' \<Longrightarrow> lock_step (m, us @ ns # vs) (m', us @ vs)"

definition pair_list :: "nat option \<times> nat option \<Rightarrow> nat list" where
  "pair_list ns = (case fst ns of None \<Rightarrow> [] | Some a \<Rightarrow> [a]) @ (case snd ns of None \<Rightarrow> [] | Some a \<Rightarrow> [a])"

definition taken :: "(nat option \<times> nat option) list \<Rightarrow> nat list" where
  "taken out = concat (map pair_list out)"

definition lock_inv :: "lock_state \<Rightarrow> bool" where
  "lock_inv s \<longleftrightarrow> ls_inv (fst s) \<and> distinct (taken (snd s)) \<and> set (taken (snd s)) = held_set (fst s)"

lemma set_pair_list: "set (pair_list ns) = holds (Inr ns)"
  by (cases ns) (auto simp: pair_list_def holds_def split: option.splits)

lemma distinct_pair_list: "distinct (pair_list (x, y)) \<longleftrightarrow> set_option x \<inter> set_option y = {}"
  by (auto simp: pair_list_def split: option.splits)

lemma taken_append [simp]: "taken (us @ vs) = taken us @ taken vs" "taken (ns # vs) = pair_list ns @ taken vs" "taken [] = []"
  by (simp_all add: taken_def)

lemma lock_step_inv: "lock_step s t \<Longrightarrow> lock_inv s \<Longrightarrow> lock_inv t"
proof (induction rule: lock_step.induct)
  case (create m now d r m' out)
  then show ?case using LockCreate_sim [of m now d] by (auto simp: lock_inv_def)
next
  case (refresh m now t dur r m' out)
  then show ?case using LockRefresh_sim [of m now t dur] by (auto simp: lock_inv_def)
next
  case (unlock m now t e m' out)
  then show ?case using LockUnlock_sim [of m now t] by (auto simp: lock_inv_def)
next
  case (confirmed m now name0 name1 cs ns m' out)
  obtain x y where ns: "ns = (x, y)" by (cases ns)
  then show ?case using confirmed Confirm_sim [of m now name0 name1 cs]
    by (auto simp: lock_inv_def set_pair_list distinct_pair_list)
next
  case (refused m now name0 name1 cs e m' out)
  then show ?case using Confirm_sim [of m now name0 name1 cs] by (auto simp: lock_inv_def holds_def)
next
  case (released m ns m' us vs)
  obtain x y where ns: "ns = (x, y)" by (cases ns)
  have d: "distinct (taken us @ pair_list ns @ taken vs)" "held_set m = set (taken us) \<union> holds (Inr ns) \<union> set (taken vs)"
    using released(2) by (auto simp: lock_inv_def set_pair_list)
  obtain m'' where "Confirm_release m (x, y) = Some m''" "ls_inv m''" "held_set m'' = held_set m - holds (Inr (x, y))"
    using release_sim [of m x y] released(2) d distinct_pair_list [of x y] ns by (auto simp: lock_inv_def)
  then show ?case using released(1) d ns set_pair_list [of ns] by (auto simp: lock_inv_def)
qed

interpretation locks: invariant_machine lock_start lock_step lock_inv
proof unfold_locales
  have "held_set (NewMemLS now) = {}" for now by (simp add: held_set_def NewMemLS_def new_node_def)
  then show "lock_inv s" if "lock_start s" for s using that by (auto simp: lock_start_def lock_inv_def NewMemLS_inv)
qed (rule lock_step_inv)

section \<open>Properties\<close>

lemma FormatInt_nonneg: "0 \<le> n \<Longrightarrow> FormatInt n = format_nat (nat n)"
  by (simp add: FormatInt_def)


lemma digit_graphic: "is_digit c \<Longrightarrow> graphic c"
  by (auto simp: is_digit_def graphic_def)

lemma ParseInt_unsigned: "is_digit (hd s) \<Longrightarrow> s \<noteq> [] \<Longrightarrow> 0 \<le> fst (ParseInt s)"
proof -
  assume s: "is_digit (hd s)" "s \<noteq> []"
  then have "\<not> HasPrefix s ''-''" "\<not> HasPrefix s ''+''" by (cases s; auto simp: HasPrefix_def is_digit_def)+
  then show ?thesis by (auto simp: ParseInt_def int64_defs dest: ParseUint_nonneg split: sum.splits num_error.splits)
qed

lemma parseTimeout_seconds:
  assumes "0 \<le> n" "n < 2 ^ 32" "rest = [] \<or> hd rest = CHR '',''"
  shows "parseTimeout (''Second-'' @ FormatInt n @ rest) = Some (n * 1000000000)"
proof -
  let ?f = "FormatInt n" and ?s = "''Second-'' @ FormatInt n"
  have f: "?f \<noteq> []" "\<And>c. c \<in> set ?f \<Longrightarrow> is_digit c" using format_nat_digits assms(1) by (auto simp: FormatInt_nonneg)
  then have "CHR '','' \<notin> set ?f" by (force simp: is_digit_def)
  then have nc: "CHR '','' \<notin> set ?s" by simp
  have cut: "(case Index (?s @ rest) '','' of Some i \<Rightarrow> take i (?s @ rest) | None \<Rightarrow> ?s @ rest) = ?s"
  proof (cases rest)
    case Nil
    then show ?thesis using nc by (simp add: Index_single)
  next
    case (Cons c r)
    then have r: "rest = CHR '','' # r" using assms(3) by simp
    have "takeWhile (\<lambda>x. x \<noteq> CHR '','') (?s @ CHR '','' # r) = ?s" using nc by (subst takeWhile_append2) auto
    then show ?thesis unfolding r Index_single by simp
  qed
  have "last ?s \<in> set ?f" using f(1) by simp
  then have "graphic (last ?s)" using digit_graphic f(2) by blast
  moreover have "graphic (hd ?s)" by (simp add: graphic_def)
  ultimately have trim: "TrimSpace ?s = ?s" by (intro TrimSpace_id) auto
  have "is_digit (hd ?f)" using f by simp
  moreover have "ParseInt ?f = (n, None)" using assms(1,2) by (intro ParseInt_FormatInt) (simp add: int64_defs)
  moreover have "?s \<noteq> ''Infinite''" by simp
  ultimately show ?thesis using f(1) cut trim assms(2) unfolding parseTimeout_def Let_def append_assoc [symmetric] cut trim
    by (simp add: HasPrefix_def)
qed

lemma parseTimeout_range:
  assumes "parseTimeout s = Some d"
  shows "d = infiniteTimeout \<or> 0 \<le> d \<and> d \<le> (2 ^ 32 - 1) * 1000000000"
proof -
  define t where "t = drop 7 (TrimSpace (case Index s '','' of Some i \<Rightarrow> take i s | None \<Rightarrow> s))"
  have "d = infiniteTimeout \<or> t \<noteq> [] \<and> is_digit (hd t) \<and> fst (ParseInt t) \<le> 2 ^ 32 - 1 \<and> d = fst (ParseInt t) * 1000000000"
    using assms unfolding parseTimeout_def Let_def t_def [symmetric] by (auto split: if_splits prod.splits)
  then show ?thesis using ParseInt_unsigned [of t] by auto
qed

text \<open>
  The Timeout header of a LOCK request.  Whatever the header holds, the parsed duration is either the
  infinite one or between zero and \<open>2^32 - 1\<close> seconds in nanoseconds, so the multiplication by
  \<open>time.Second\<close> never leaves 64 bits; and \<open>Second-n\<close>, alone or first in a comma-separated list, is
  read as \<open>n\<close> seconds for every \<open>n\<close> below \<open>2^32\<close>.
\<close>

theorem parseTimeout_correct:
  "(parseTimeout s = Some d \<longrightarrow> d = infiniteTimeout \<or> 0 \<le> d \<and> d \<le> (2 ^ 32 - 1) * 1000000000 \<and> in_int64 d) \<and>
   (0 \<le> n \<and> n < 2 ^ 32 \<and> (rest = [] \<or> hd rest = CHR '','') \<longrightarrow> parseTimeout (''Second-'' @ FormatInt n @ rest) = Some (n * 1000000000))"
proof (intro conjI impI)
  assume "parseTimeout s = Some d"
  then show "d = infiniteTimeout \<or> 0 \<le> d \<and> d \<le> (2 ^ 32 - 1) * 1000000000 \<and> in_int64 d"
    using parseTimeout_range by (fastforce simp: int64_defs)
qed (use parseTimeout_seconds in blast)

theorem parseTimeout_correct_witness:
  "parseTimeout (''Second-'' @ FormatInt 4100 @ '', Infinite'') = Some 4100000000000"
  using parseTimeout_correct [of "[]" "-1" 4100 "'', Infinite''"] by simp

text \<open>A lock on \<open>/a\<close> for ten units of time, and the state after it was granted at time 0.\<close>

definition sample_details :: LockDetails where
  "sample_details = \<lparr>Root = ''/a'', Duration = 10, OwnerXML = [], ZeroDepth = False\<rparr>"

definition sample_ls :: memLS where
  "sample_ls = snd (the (LockCreate (NewMemLS 0) 0 sample_details))"

lemma format_one: "format_nat (Suc 0) = ''1''"
  by code_simp

lemma lock_sample_run: "LockCreate (NewMemLS 0) 0 sample_details = Some (Inr ''1'', sample_ls) \<and> gen sample_ls = 1"
  by (simp add: sample_ls_def LockCreate_def collectExpiredNodes_def NewMemLS_def sample_details_def slashClean_def Clean_def
      clean_comps_def clean_step_def Join_Cons canCreate_def walkToRoot.simps canCreate_step_def HasPrefix_def ls_create_def
      create_step_def nextToken_def upd_def expiry_push_def heap_Push_def Let_def exp_Push_def exp_Len_def exp_Less_def
      exp_Swap_def heap_up.simps new_node_def format_one)

text \<open>The lock of the sample is held by a request on \<open>/a/b\<close>; \<open>sample_out\<close> is what that request has to release.\<close>

definition sample_conds :: "Condition list" where
  "sample_conds = [\<lparr>NotC = False, Token = ''1'', ETag = []\<rparr>]"

definition sample_held :: memLS where
  "sample_held = snd (the (Confirm sample_ls 5 ''/a/b'' [] sample_conds))"

lemma sample_table: "table sample_ls = [''1'' \<mapsto> timed 0 sample_details]"
proof -
  have e: "table (NewMemLS 0) = Map.empty" by (simp add: table_def NewMemLS_def fun_eq_iff)
  have "slashClean ''/a'' = ''/a''"
    by (simp add: slashClean_def Clean_def clean_comps_def clean_step_def)
  then have "(Inr ''1'', table sample_ls) = spec_Create Map.empty 0 (format_nat 1) sample_details"
    using LockCreate_sim [OF NewMemLS_inv, of 0 0 sample_details] lock_sample_run e
    by (auto simp: sample_details_def NewMemLS_def)
  then show ?thesis by (auto simp: spec_Create_def conflicting_def live_def fun_eq_iff split: if_splits)
qed

lemma sample_reachable: "reachable lock_start lock_step (sample_ls, [])"
proof (rule reachable_step [OF reachable_start])
  show "lock_start (NewMemLS 0, [])" by (auto simp: lock_start_def)
  show "lock_step (NewMemLS 0, []) (sample_ls, [])"
    using lock_sample_run by (intro lock_step.create [of _ 0 sample_details "Inr ''1''"]) (auto simp: NewMemLS_def)
qed

lemma sample_confirm:
  "\<exists>a. Confirm sample_ls 5 ''/a/b'' [] sample_conds = Some (Inr (Some a, None), sample_held) \<and>
     table sample_held = [''1'' \<mapsto> (timed 0 sample_details)\<lparr>lock_held := True\<rparr>] \<and> token (node sample_held a) = ''1''"
proof -
  have i: "ls_inv sample_ls" using locks.reachable_inv [OF sample_reachable] by (simp add: lock_inv_def)
  have c: "slashClean ''/a/b'' = ''/a/b''"
    by (simp add: slashClean_def Clean_def clean_comps_def clean_step_def)
  have live: "live 5 (table sample_ls) = [''1'' \<mapsto> timed 0 sample_details]"
    by (auto simp: sample_table live_def fun_eq_iff timed_def dead_def sample_details_def)
  have "guards (lock_details (timed 0 sample_details)) ''/a/b''"
    by (simp add: guards_def timed_def sample_details_def comps_of_def)
  then have sp: "spec_Confirm (table sample_ls) 5 ''/a/b'' [] sample_conds =
      (Inr (Some ''1'', None), [''1'' \<mapsto> (timed 0 sample_details)\<lparr>lock_held := True\<rparr>])"
    by (simp add: spec_Confirm_def c live sample_conds_def set_held_def Let_def timed_def)
  obtain r m' where r: "Confirm sample_ls 5 ''/a/b'' [] sample_conds = Some (r, m')"
      "(token_result m' r, table m') = spec_Confirm (table sample_ls) 5 ''/a/b'' [] sample_conds"
    using Confirm_sim [OF i, of 5 "''/a/b''" "[]" sample_conds] by (elim exE conjE) (rule that)
  have "m' = sample_held" by (simp add: sample_held_def r(1))
  moreover have "token_result m' r = Inr (Some ''1'', None)" "table m' = [''1'' \<mapsto> (timed 0 sample_details)\<lparr>lock_held := True\<rparr>]"
    using r(2) unfolding sp by (simp_all only: prod.inject)
  moreover obtain a where "r = Inr (Some a, None)" "token (node m' a) = ''1''"
    using calculation(2) by (cases r) (auto simp: token_result_def token_of_def)
  ultimately show ?thesis using r(1) by blast
qed

lemma sample_held_reachable:
  obtains a where "reachable lock_start lock_step (sample_held, [(Some a, None)])" "token (node sample_held a) = ''1''"
    "Confirm sample_ls 5 ''/a/b'' [] sample_conds = Some (Inr (Some a, None), sample_held)"
  using sample_confirm reachable_step [OF sample_reachable] lock_step.confirmed by metis

text \<open>C10:
  The lock system never panics and keeps its contract.  In every state the server can reach, for every
  request at any time: Create grants a lock, under a fresh token, exactly when no unexpired lock
  conflicts with it, and answers ErrLocked otherwise; Refresh and Unlock answer ErrNoSuchLock for an
  unknown or expired token, ErrLocked for a held lock, and otherwise replace or remove exactly that lock; Confirm holds
  exactly the locks the contract names; and the release function of a successful Confirm gives them back.
\<close>

theorem lock_system_refines:
  assumes "reachable lock_start lock_step (m, out)"
  shows "(gen m + 1 < 2 ^ 64 \<longrightarrow> (\<exists>r m'. LockCreate m now d = Some (r, m') \<and>
       (r, table m') = spec_Create (table m) now (format_nat (gen m + 1)) (d\<lparr>Root := slashClean (Root d)\<rparr>))) \<and>
     (\<exists>r m'. LockRefresh m now t dur = Some (r, m') \<and> (r, table m') = spec_Refresh (table m) now t dur) \<and>
     (\<exists>r m'. LockUnlock m now t = Some (r, m') \<and> (r, table m') = spec_Unlock (table m) now t) \<and>
     (\<exists>r m'. Confirm m now name0 name1 cs = Some (r, m') \<and>
       (token_result m' r, table m') = spec_Confirm (table m) now name0 name1 cs) \<and>
     ((x, y) \<in> set out \<longrightarrow> (\<exists>m'. Confirm_release m (x, y) = Some m' \<and>
       table m' = set_held False (token_of m x) (set_held False (token_of m y) (table m))))"
proof (intro conjI impI)
  have i: "ls_inv m" "distinct (taken out)" "set (taken out) = held_set m"
    using locks.reachable_inv [OF assms] by (auto simp: lock_inv_def)
  show "\<exists>r m'. LockCreate m now d = Some (r, m') \<and>
       (r, table m') = spec_Create (table m) now (format_nat (gen m + 1)) (d\<lparr>Root := slashClean (Root d)\<rparr>)" if "gen m + 1 < 2 ^ 64"
    using LockCreate_sim [OF i(1) that] by blast
  show "\<exists>r m'. LockRefresh m now t dur = Some (r, m') \<and> (r, table m') = spec_Refresh (table m) now t dur"
    using LockRefresh_sim [OF i(1)] by blast
  show "\<exists>r m'. LockUnlock m now t = Some (r, m') \<and> (r, table m') = spec_Unlock (table m) now t"
    using LockUnlock_sim [OF i(1)] by blast
  show "\<exists>r m'. Confirm m now name0 name1 cs = Some (r, m') \<and>
       (token_result m' r, table m') = spec_Confirm (table m) now name0 name1 cs"
    using Confirm_sim [OF i(1)] by blast
  assume "(x, y) \<in> set out"
  then obtain us vs where out: "out = us @ (x, y) # vs" by (meson split_list)
  have "holds (Inr (x, y)) \<subseteq> held_set m" "set_option x \<inter> set_option y = {}"
    using i(2,3) by (auto simp: out set_pair_list [symmetric] simp flip: distinct_pair_list)
  then show "\<exists>m'. Confirm_release m (x, y) = Some m' \<and>
       table m' = set_held False (token_of m x) (set_held False (token_of m y) (table m))"
    using release_sim [OF i(1)] by blast
qed

theorem lock_system_refines_witness:
  "(\<exists>r m'. LockUnlock sample_held 100 ''1'' = Some (r, m') \<and> r = Some ErrLocked \<and> table m' ''1'' \<noteq> None) \<and>
   (\<exists>r m'. LockUnlock sample_ls 5 ''1'' = Some (r, m') \<and> r = None \<and> table m' = Map.empty)"
proof
  obtain a where a: "reachable lock_start lock_step (sample_held, [(Some a, None)])" using sample_held_reachable by blast
  have T: "table sample_held = [''1'' \<mapsto> (timed 0 sample_details)\<lparr>lock_held := True\<rparr>]" using sample_confirm by blast
  show "\<exists>r m'. LockUnlock sample_held 100 ''1'' = Some (r, m') \<and> r = Some ErrLocked \<and> table m' ''1'' \<noteq> None"
    using lock_system_refines [OF a, of 100 sample_details "''1''" 0, THEN conjunct2, THEN conjunct2, THEN conjunct1] by (auto simp: T spec_Unlock_def live_def dead_def timed_def)
  show "\<exists>r m'. LockUnlock sample_ls 5 ''1'' = Some (r, m') \<and> r = None \<and> table m' = Map.empty"
    using lock_system_refines [OF sample_reachable, of 5 sample_details "''1''" 0, THEN conjunct2, THEN conjunct2, THEN conjunct1]
    by (auto simp: sample_table spec_Unlock_def live_def dead_def timed_def sample_details_def fun_eq_iff)
qed

text \<open>C31:
  Locks exclude each other.  In every state the server can reach, no two locks in the table conflict:
  neither is at the root of the other nor, being of infinite depth, at one of its ancestors.
\<close>

theorem locks_exclusive:
  assumes "reachable lock_start lock_step (m, out)" "table m t = Some L" "table m u = Some K" "t \<noteq> u"
  shows "\<not> covers_lock (lock_details L) (lock_details K) \<and> \<not> covers_lock (lock_details K) (lock_details L)"
proof -
  have i: "ls_inv m" using locks.reachable_inv [OF assms(1)] by (simp add: lock_inv_def)
  note tk = ls_invD(2) [OF i]
  obtain a b where a: "locked m a" "token (node m a) = t" "L = view (node m a)" and b: "locked m b" "token (node m b) = u" "K = view (node m b)"
    using assms(2,3) by (auto simp: table_Some [OF tk])
  then have "a \<noteq> b" using assms(4) by blast
  then show ?thesis using ls_invD(4) [OF i] a b unfolding exclusive_def by auto
qed

text \<open>The sample with a second lock, on \<open>/b\<close>.\<close>

definition second_details :: LockDetails where
  "second_details = \<lparr>Root = ''/b'', Duration = -1, OwnerXML = [], ZeroDepth = True\<rparr>"

definition sample_two :: memLS where
  "sample_two = snd (the (LockCreate sample_ls 5 second_details))"

lemma sample_two:
  "reachable lock_start lock_step (sample_two, []) \<and>
   table sample_two = [''1'' \<mapsto> timed 0 sample_details, ''2'' \<mapsto> timed 5 second_details]"
proof -
  have i: "ls_inv sample_ls" using locks.reachable_inv [OF sample_reachable] by (simp add: lock_inv_def)
  have g: "gen sample_ls = 1" using lock_sample_run by blast
  have c: "second_details\<lparr>Root := slashClean (Root second_details)\<rparr> = second_details"
    by (simp add: second_details_def slashClean_def Clean_def clean_comps_def clean_step_def)
  have live: "live 5 (table sample_ls) = [''1'' \<mapsto> timed 0 sample_details]"
    by (auto simp: sample_table live_def fun_eq_iff timed_def dead_def sample_details_def)
  have "\<not> conflicting (live 5 (table sample_ls)) second_details"
    by (auto simp: live conflicting_def covers_lock_def sample_details_def second_details_def timed_def comps_of_def split: if_splits)
  moreover have two: "format_nat (Suc (Suc 0)) = ''2''" by code_simp
  ultimately have sp: "spec_Create (table sample_ls) 5 (format_nat (gen sample_ls + 1)) second_details =
      (Inr ''2'', [''1'' \<mapsto> timed 0 sample_details, ''2'' \<mapsto> timed 5 second_details])"
    by (simp add: spec_Create_def live g)
  obtain r m' where r: "LockCreate sample_ls 5 second_details = Some (r, m')" "(r, table m') = spec_Create (table sample_ls) 5 (format_nat (gen sample_ls + 1)) second_details"
    using LockCreate_sim [OF i, of 5 second_details] g unfolding c by auto
  have "lock_step (sample_ls, []) (sample_two, [])"
    using r(1) g by (intro lock_step.create [of _ 5 second_details r]) (auto simp: sample_two_def)
  then show ?thesis using reachable_step [OF sample_reachable] r sp by (auto simp: sample_two_def)
qed

theorem locks_exclusive_witness: "\<not> covers_lock sample_details second_details \<and> \<not> covers_lock second_details sample_details"
  using locks_exclusive [OF sample_two [THEN conjunct1], of "''1''" "timed 0 sample_details" "''2''" "timed 5 second_details"]
  by (simp add: sample_two timed_def)

lemma spec_lookup_SomeD:
  "spec_lookup T name cs = Some t \<Longrightarrow>
   \<exists>c \<in> set cs. Token c = t \<and> (\<exists>L. T t = Some L \<and> \<not> lock_held L \<and> guards (lock_details L) name)"
  by (induction cs) (auto split: option.splits if_splits)

lemma set_held_both:
  "T t = Some L \<Longrightarrow> x = Some t \<or> y = Some t \<Longrightarrow>
   set_held True (if y = x then None else y) (set_held True x T) t = Some (L\<lparr>lock_held := True\<rparr>)"
  by (auto simp: set_held_def split: option.splits)

text \<open>C32:
  What a successful Confirm means.  For each resource the request names there is a token among the
  presented conditions whose unexpired, unheld lock covers the resource, at its root or, for a lock of infinite
  depth, at one of its ancestors; after the call that lock is held.
\<close>

theorem Confirm_authorises:
  assumes "reachable lock_start lock_step (m, out)" "Confirm m now name0 name1 cs = Some (Inr ns, m')"
    and "name \<noteq> []" "name = name0 \<or> name = name1"
  shows "\<exists>c L. c \<in> set cs \<and> live now (table m) (Token c) = Some L \<and> \<not> lock_held L \<and>
    guards (lock_details L) (slashClean name) \<and> table m' (Token c) = Some (L\<lparr>lock_held := True\<rparr>)"
proof -
  have i: "ls_inv m" using locks.reachable_inv [OF assms(1)] by (simp add: lock_inv_def)
  let ?T = "live now (table m)"
  let ?t = "\<lambda>n. if n = [] then None else spec_lookup ?T (slashClean n) cs"
  have sp: "(token_result m' (Inr ns), table m') = spec_Confirm (table m) now name0 name1 cs"
    using Confirm_sim [OF i, of now name0 name1 cs] assms(2) by auto
  then have ok: "?t name0 \<noteq> None \<or> name0 = []" "?t name1 \<noteq> None \<or> name1 = []"
    and T: "table m' = set_held True (if ?t name1 = ?t name0 then None else ?t name1) (set_held True (?t name0) ?T)"
    by (auto simp: spec_Confirm_def Let_def token_result_def split: if_splits)
  obtain t where t: "spec_lookup ?T (slashClean name) cs = Some t" using ok assms(3,4) by auto
  obtain c L where c: "c \<in> set cs" "Token c = t" "?T t = Some L" "\<not> lock_held L" "guards (lock_details L) (slashClean name)"
    using spec_lookup_SomeD [OF t] by blast
  have "?t name0 = Some t \<or> ?t name1 = Some t" using t assms(3,4) by auto
  then have "table m' t = Some (L\<lparr>lock_held := True\<rparr>)" unfolding T by (rule set_held_both [of ?T t L, OF c(3)])
  then show ?thesis using c by blast
qed

theorem Confirm_authorises_witness:
  "\<exists>c L. c \<in> set sample_conds \<and> live 5 (table sample_ls) (Token c) = Some L \<and> \<not> lock_held L \<and>
    guards (lock_details L) (slashClean ''/a/b'') \<and> table sample_held (Token c) = Some (L\<lparr>lock_held := True\<rparr>)"
proof -
  obtain a where "Confirm sample_ls 5 ''/a/b'' [] sample_conds = Some (Inr (Some a, None), sample_held)" using sample_confirm by blast
  then show ?thesis using Confirm_authorises [OF sample_reachable, of 5 "''/a/b''" "[]" sample_conds _ _ "''/a/b''"] by simp
qed

text \<open>A confirmed lock survives until its release.  As long as a release function is outstanding, the locks it
  will give back are in the table and held: whatever the time, collecting expired locks leaves them, and Unlock
  and Refresh of them answer ErrLocked.
\<close>

theorem held_locks_survive:
  assumes "reachable lock_start lock_step (m, out)" "ns \<in> set out" "a \<in> holds (Inr ns)"
  shows "\<exists>L. live now (table m) (token (node m a)) = Some L \<and> lock_held L \<and> table m (token (node m a)) = Some L \<and>
    (\<exists>m'. LockUnlock m now (token (node m a)) = Some (Some ErrLocked, m') \<and> table m' = live now (table m)) \<and>
    (\<exists>m'. LockRefresh m now (token (node m a)) dur = Some (Inl ErrLocked, m') \<and> table m' = live now (table m))"
proof -
  have i: "ls_inv m" "set (taken out) = held_set m" using locks.reachable_inv [OF assms(1)] by (auto simp: lock_inv_def)
  have "a \<in> held_set m" using assms(2,3) i(2) by (auto simp: taken_def simp flip: set_pair_list)
  then have a: "locked m a" "held (node m a)" using held_locked [OF i(1)] by (auto simp: held_set_def)
  let ?t = "token (node m a)" and ?L = "view (node m a)"
  have T: "table m ?t = Some ?L" using lockedD(1) [OF ls_invD(2) [OF i(1)] a(1)] by (simp add: table_def)
  then have l: "live now (table m) ?t = Some ?L" using a(2) by (simp add: live_def dead_def)
  have "\<exists>m'. LockUnlock m now ?t = Some (Some ErrLocked, m') \<and> table m' = live now (table m)"
    using LockUnlock_sim [OF i(1), of now ?t] l a(2) by (auto simp: spec_Unlock_def)
  moreover have "\<exists>m'. LockRefresh m now ?t dur = Some (Inl ErrLocked, m') \<and> table m' = live now (table m)"
    using LockRefresh_sim [OF i(1), of now ?t dur] l a(2) by (auto simp: spec_Refresh_def)
  ultimately show ?thesis using T l a(2) by auto
qed

theorem held_locks_survive_witness:
  "\<exists>m'. LockUnlock sample_held 1000 ''1'' = Some (Some ErrLocked, m') \<and> table m' = live 1000 (table sample_held)"
proof -
  obtain a where a: "reachable lock_start lock_step (sample_held, [(Some a, None)])" "token (node sample_held a) = ''1''"
    using sample_held_reachable by blast
  show ?thesis using held_locks_survive [OF a(1), of "(Some a, None)" a 1000 0] a(2) by (auto simp: holds_def)
qed

end
