(* ===== verification/Go_Map.thy ===== *)
theory Go_Map
  imports Main
begin

text \<open>
  Go maps whose number of entries matters, as association lists with distinct keys: assignment and
  deletion, and the laws the components use.  The order of the entries is not meant to be observed.
\<close>

fun dict_set :: "string \<Rightarrow> 'v \<Rightarrow> (string \<times> 'v) list \<Rightarrow> (string \<times> 'v) list" where
  "dict_set k v [] = [(k, v)]"
| "dict_set k v ((a, b) # d) = (if a = k then (k, v) # d else (a, b) # dict_set k v d)"

definition dict_del :: "string \<Rightarrow> (string \<times> 'v) list \<Rightarrow> (string \<times> 'v) list" where
  "dict_del k d = filter (\<lambda>e. fst e \<noteq> k) d"

lemma map_of_dict_set [simp]: "map_of (dict_set k v d) a = (if a = k then Some v else map_of d a)"
  by (induction k v d rule: dict_set.induct) auto

lemma fst_dict_set: "fst ` set (dict_set k v d) = insert k (fst ` set d)"
  by (induction k v d rule: dict_set.induct) auto

lemma distinct_dict_set [simp]: "distinct (map fst (dict_set k v d)) = distinct (map fst d)"
proof (induction k v d rule: dict_set.induct)
  case (2 k v a b d)
  then show ?case using fst_dict_set [of k v d] by auto
qed simp

lemma dict_set_new: "k \<notin> fst ` set d \<Longrightarrow> dict_set k v d = d @ [(k, v)]"
  by (induction k v d rule: dict_set.induct) auto

lemma map_of_dict_del [simp]: "map_of (dict_del k d) a = (if a = k then None else map_of d a)"
  by (induction d) (auto simp: dict_del_def)

lemma map_of_filter_key: "map_of (filter (\<lambda>e. P (fst e)) d) a = (if P a then map_of d a else None)"
  by (induction d) auto

lemma distinct_dict_del: "distinct (map fst d) \<Longrightarrow> distinct (map fst (dict_del k d))"
  by (simp add: dict_del_def distinct_map_filter)

lemma map_of_filter_distinct:
  "distinct (map fst d) \<Longrightarrow> map_of (filter (\<lambda>e. P (snd e)) d) a = (case map_of d a of None \<Rightarrow> None | Some v \<Rightarrow> if P v then Some v else None)"
proof (induction d)
  case (Cons e d)
  then show ?case by (cases e) (auto simp: map_of_eq_None_iff dest: map_of_SomeD split: option.splits)
qed simp

lemma length_dict_del: "length (dict_del k d) \<le> length d"
  by (simp add: dict_del_def)

lemma length_dict_del_less: "map_of d k = Some v \<Longrightarrow> length (dict_del k d) < length d"
  unfolding dict_del_def by (induction d) (auto simp: le_imp_less_Suc split: if_splits)

end
