(* ===== verification/Bencode.thy ===== *)
theory Bencode
  imports Go_Strings Go_Map "HOL-Library.Char_ord" "HOL-Library.List_Lexorder"
begin

text \<open>
  The bencode encoder and decoder of \<open>pkg/torrent/bencode.go\<close>.  A dynamically typed value is a
  datatype with one constructor for each case of the encoder's type switch; a Go map is an
  association list with distinct keys whose order nothing depends on.  The decoder's reader is the rest
  of the input, and its recursion runs on fuel: \<open>None\<close> is running out of it, which the last section excludes.
\<close>

section \<open>Values\<close>

datatype bval =
    BInt int64
  | BStr string
  | BBytes string
  | BList "bval list"
  | BDict "(string \<times> bval) list"
  | BOrdered "string list" "(string \<times> bval) list"
  | BOther

datatype bencode_error =
    ErrUnsupported
  | ErrEOF
  | ErrUnexpectedEOF
  | ErrUnexpectedByte char
  | ErrInt num_error
  | ErrLength num_error
  | ErrLengthBounds int64

section \<open>The encoder\<close>

definition bencodeEncodeInt :: "int64 \<Rightarrow> string" where
  "bencodeEncodeInt v = ''i'' @ FormatInt v @ ''e''"

definition bencodeEncodeString :: "string \<Rightarrow> string" where
  "bencodeEncodeString v = FormatInt (int (length v)) @ '':'' @ v"

definition bencodeEncodeBytes :: "string \<Rightarrow> string" where
  "bencodeEncodeBytes v = (FormatInt (int (length v)) @ '':'') @ v"

text \<open>The pieces a loop writes one after the other, up to the first error.\<close>

fun write_all :: "(bencode_error + string) list \<Rightarrow> bencode_error + string" where
  "write_all [] = Inr []"
| "write_all (Inl e # rs) = Inl e"
| "write_all (Inr s # rs) = (case write_all rs of Inl e \<Rightarrow> Inl e | Inr t \<Rightarrow> Inr (s @ t))"

definition framed :: "string \<Rightarrow> bencode_error + string \<Rightarrow> bencode_error + string" where
  "framed c r = (case r of Inl e \<Rightarrow> Inl e | Inr s \<Rightarrow> Inr (c @ s @ ''e''))"

definition bencodeEncodeList :: "('v \<Rightarrow> bencode_error + string) \<Rightarrow> 'v list \<Rightarrow> bencode_error + string" where
  "bencodeEncodeList enc v = framed ''l'' (write_all (map enc v))"

text \<open>One turn of the loop over the keys: a key without a value reads as \<open>nil\<close>, which is no supported type.\<close>

definition encode_entry :: "('v \<Rightarrow> bencode_error + string) \<Rightarrow> (string \<times> 'v) list \<Rightarrow> string \<Rightarrow> bencode_error + string" where
  "encode_entry enc v k =
     (case map_of v k of
        None \<Rightarrow> Inl ErrUnsupported
      | Some x \<Rightarrow> (case enc x of Inl e \<Rightarrow> Inl e | Inr s \<Rightarrow> Inr (bencodeEncodeString k @ s)))"

definition bencodeEncodeDict :: "('v \<Rightarrow> bencode_error + string) \<Rightarrow> (string \<times> 'v) list \<Rightarrow> bencode_error + string" where
  "bencodeEncodeDict enc v = framed ''d'' (write_all (map (encode_entry enc v) (sort (map fst v))))"

definition bencodeEncodeOrderedDict ::
  "('v \<Rightarrow> bencode_error + string) \<Rightarrow> string list \<Rightarrow> (string \<times> 'v) list \<Rightarrow> bencode_error + string" where
  "bencodeEncodeOrderedDict enc ks v = framed ''d'' (write_all (map (encode_entry enc v) (sort ks)))"

lemma bencodeEncodeList_cong [fundef_cong]:
  "xs = ys \<Longrightarrow> (\<And>x. x \<in> set ys \<Longrightarrow> f x = g x) \<Longrightarrow> bencodeEncodeList f xs = bencodeEncodeList g ys"
  by (simp add: bencodeEncodeList_def cong: map_cong)

lemma encode_entry_cong: "(\<And>x. x \<in> snd ` set d \<Longrightarrow> f x = g x) \<Longrightarrow> encode_entry f d k = encode_entry g d k"
  by (auto simp: encode_entry_def split: option.split dest!: map_of_SomeD intro!: arg_cong [where f = "case_sum _ _"])
    (metis snd_conv image_eqI)+

lemma bencodeEncodeDict_cong [fundef_cong]:
  "d = d' \<Longrightarrow> (\<And>x. x \<in> snd ` set d' \<Longrightarrow> f x = g x) \<Longrightarrow> bencodeEncodeDict f d = bencodeEncodeDict g d'"
  using encode_entry_cong [of d' f g] by (simp add: bencodeEncodeDict_def cong: map_cong)

lemma bencodeEncodeOrderedDict_cong [fundef_cong]:
  "ks = ks' \<Longrightarrow> d = d' \<Longrightarrow> (\<And>x. x \<in> snd ` set d' \<Longrightarrow> f x = g x) \<Longrightarrow>
   bencodeEncodeOrderedDict f ks d = bencodeEncodeOrderedDict g ks' d'"
  using encode_entry_cong [of d' f g] by (simp add: bencodeEncodeOrderedDict_def cong: map_cong)

lemma size_value: "x \<in> snd ` set d \<Longrightarrow> size x < size_list (size_prod f size) d"
  by (induction d) (force simp: image_iff)+

function bencodeEncodeValue :: "bval \<Rightarrow> bencode_error + string" where
  "bencodeEncodeValue (BInt v) = Inr (bencodeEncodeInt v)"
| "bencodeEncodeValue (BStr v) = Inr (bencodeEncodeString v)"
| "bencodeEncodeValue (BBytes v) = Inr (bencodeEncodeBytes v)"
| "bencodeEncodeValue (BList v) = bencodeEncodeList bencodeEncodeValue v"
| "bencodeEncodeValue (BDict v) = bencodeEncodeDict bencodeEncodeValue v"
| "bencodeEncodeValue (BOrdered ks v) = bencodeEncodeOrderedDict bencodeEncodeValue ks v"
| "bencodeEncodeValue BOther = Inl ErrUnsupported"
  by pat_completeness auto
termination bencodeEncodeValue
  by (relation "measure size") (auto simp: less_Suc_eq_le intro: size_list_estimation' dest: size_value)

definition BencodeEncode :: "bval \<Rightarrow> bencode_error + string" where
  "BencodeEncode v = bencodeEncodeValue v"

subsection \<open>Ordered dictionaries\<close>

record OrderedDict =
  Keys :: "string list"
  Values :: "(string \<times> bval) list"

definition NewOrderedDict :: OrderedDict where
  "NewOrderedDict = \<lparr>Keys = [], Values = []\<rparr>"

definition Set :: "OrderedDict \<Rightarrow> string \<Rightarrow> bval \<Rightarrow> OrderedDict" where
  "Set d key value =
     (let d1 = (if map_of (Values d) key = None then d\<lparr>Keys := Keys d @ [key]\<rparr> else d)
      in d1\<lparr>Values := dict_set key value (Values d1)\<rparr>)"

definition Get :: "OrderedDict \<Rightarrow> string \<Rightarrow> bval option" where
  "Get d key = map_of (Values d) key"

section \<open>The decoder\<close>

text \<open>Reading up to a delimiter, which is consumed.\<close>

fun read_until :: "char \<Rightarrow> string \<Rightarrow> (string \<times> string) option" where
  "read_until c [] = None"
| "read_until c (b # r) = (if b = c then Some ([], r) else map_option (apfst ((#) b)) (read_until c r))"

definition bencodeDecodeInt :: "string \<Rightarrow> bencode_error + int64 \<times> string" where
  "bencodeDecodeInt r =
     (case read_until (CHR ''e'') r of
        None \<Rightarrow> Inl ErrEOF
      | Some (buf, r1) \<Rightarrow>
          (case ParseInt buf of (n, Some e) \<Rightarrow> Inl (ErrInt e) | (n, None) \<Rightarrow> Inr (n, r1)))"

definition bencodeDecodeString :: "string \<Rightarrow> bencode_error + string \<times> string" where
  "bencodeDecodeString r =
     (case read_until (CHR '':'') r of
        None \<Rightarrow> Inl ErrEOF
      | Some (lenBuf, r1) \<Rightarrow>
          (case ParseInt lenBuf of
             (n, Some e) \<Rightarrow> Inl (ErrLength e)
           | (n, None) \<Rightarrow>
               if n < 0 \<or> n > 100 * 1024 * 1024 then Inl (ErrLengthBounds n)
               else if int (length r1) < n then Inl (if r1 = [] then ErrEOF else ErrUnexpectedEOF)
               else Inr (take (nat n) r1, drop (nat n) r1)))"

fun bencodeDecodeValue :: "nat \<Rightarrow> string \<Rightarrow> (bencode_error + bval \<times> string) option"
  and bencodeDecodeList :: "nat \<Rightarrow> bval list \<Rightarrow> string \<Rightarrow> (bencode_error + bval list \<times> string) option"
  and bencodeDecodeDict :: "nat \<Rightarrow> (string \<times> bval) list \<Rightarrow> string \<Rightarrow> (bencode_error + (string \<times> bval) list \<times> string) option"
where
  "bencodeDecodeValue 0 r = None"
| "bencodeDecodeValue (Suc k) r =
     (case r of
        [] \<Rightarrow> Some (Inl ErrEOF)
      | b # r1 \<Rightarrow>
          if b = CHR ''i'' then Some (map_sum id (apfst BInt) (bencodeDecodeInt r1))
          else if b = CHR ''l'' then map_option (map_sum id (apfst BList)) (bencodeDecodeList k [] r1)
          else if b = CHR ''d'' then map_option (map_sum id (apfst BDict)) (bencodeDecodeDict k [] r1)
          else if is_digit b then Some (map_sum id (apfst BBytes) (bencodeDecodeString r))
          else Some (Inl (ErrUnexpectedByte b)))"
| "bencodeDecodeList 0 xs r = None"
| "bencodeDecodeList (Suc k) xs r =
     (case r of
        [] \<Rightarrow> Some (Inl ErrEOF)
      | b # r1 \<Rightarrow>
          if b = CHR ''e'' then Some (Inr (xs, r1))
          else case bencodeDecodeValue k r of
                 None \<Rightarrow> None
               | Some (Inl e) \<Rightarrow> Some (Inl e)
               | Some (Inr (v, r2)) \<Rightarrow> bencodeDecodeList k (xs @ [v]) r2)"
| "bencodeDecodeDict 0 d r = None"
| "bencodeDecodeDict (Suc k) d r =
     (case r of
        [] \<Rightarrow> Some (Inl ErrEOF)
      | b # r1 \<Rightarrow>
          if b = CHR ''e'' then Some (Inr (d, r1))
          else case bencodeDecodeString r of
                 Inl e \<Rightarrow> Some (Inl e)
               | Inr (key, r2) \<Rightarrow>
                   (case bencodeDecodeValue k r2 of
                      None \<Rightarrow> None
                    | Some (Inl e) \<Rightarrow> Some (Inl e)
                    | Some (Inr (v, r3)) \<Rightarrow> bencodeDecodeDict k (dict_set key v d) r3))"

definition BencodeDecode :: "string \<Rightarrow> (bencode_error + bval) option" where
  "BencodeDecode data = map_option (map_sum id fst) (bencodeDecodeValue (2 * length data + 2) data)"

section \<open>Facts about maps\<close>

lemma map_of_key: "k \<in> fst ` set d \<Longrightarrow> \<exists>v. map_of d k = Some v \<and> v \<in> snd ` set d"
  by (induction d) auto

lemma sort_sort [simp]: "sort (sort xs) = sort xs"
  by (rule sorted_sort_id) simp

section \<open>Decoding never runs out of fuel\<close>

lemma read_until_shorter: "read_until c r = Some (buf, r1) \<Longrightarrow> length r1 < length r"
  by (induction c r arbitrary: buf r1 rule: read_until.induct) (force split: if_splits)+

lemma bencodeDecodeInt_shorter: "bencodeDecodeInt r = Inr (n, r1) \<Longrightarrow> length r1 < length r"
  by (auto simp: bencodeDecodeInt_def dest: read_until_shorter split: option.splits prod.splits)

lemma bencodeDecodeString_shorter: "bencodeDecodeString r = Inr (s, r1) \<Longrightarrow> length r1 < length r"
  by (auto simp: bencodeDecodeString_def dest!: read_until_shorter split: option.splits prod.splits if_splits)

lemma map_sum_Inr: "map_sum f g x = Inr z \<longleftrightarrow> (\<exists>y. x = Inr y \<and> z = g y)"
  by (cases x) auto

lemma decode_shorter:
  "bencodeDecodeValue k r = Some (Inr (v, r1)) \<Longrightarrow> length r1 < length r"
  "bencodeDecodeList k xs r = Some (Inr (ys, r1)) \<Longrightarrow> length r1 < length r"
  "bencodeDecodeDict k d r = Some (Inr (e, r1)) \<Longrightarrow> length r1 < length r"
proof (induction k r and k xs r and k d r arbitrary: v r1 and ys r1 and e r1
    rule: bencodeDecodeValue_bencodeDecodeList_bencodeDecodeDict.induct)
  case (2 k r)
  then show ?case
    by (auto simp: map_sum_Inr split: list.splits if_splits
        dest!: bencodeDecodeInt_shorter bencodeDecodeString_shorter) (meson less_SucI)+
next
  case (4 k xs r)
  then show ?case by (fastforce split: list.splits if_splits option.splits sum.splits)
next
  case (6 k d r)
  then show ?case
    by (fastforce split: list.splits if_splits option.splits sum.splits dest!: bencodeDecodeString_shorter)
qed auto

lemma decode_total:
  "2 * length r + 1 \<le> k \<Longrightarrow> bencodeDecodeValue k r \<noteq> None"
  "2 * length r + 2 \<le> k \<Longrightarrow> bencodeDecodeList k xs r \<noteq> None"
  "2 * length r + 2 \<le> k \<Longrightarrow> bencodeDecodeDict k d r \<noteq> None"
proof (induction k r and k xs r and k d r rule: bencodeDecodeValue_bencodeDecodeList_bencodeDecodeDict.induct)
  case (2 k r)
  then show ?case by (cases r) auto
next
  case (4 k xs r)
  then show ?case by (fastforce split: list.splits option.splits sum.splits dest: decode_shorter(1))
next
  case (6 k d r)
  then show ?case
    by (fastforce split: list.splits option.splits sum.splits dest: decode_shorter(1) bencodeDecodeString_shorter)
qed simp_all

section \<open>Round trip\<close>

text \<open>The largest string the decoder accepts; what a value looks like after decoding; the values this is about.\<close>

definition max_string :: nat where
  "max_string = 100 * 1024 * 1024"

lemma map_of_size: "map_of d k = Some v \<Longrightarrow> size v < size_list (size_prod f size) d"
  by (auto dest!: map_of_SomeD intro!: size_value image_eqI [where x = "(k, v)"])

function decoded :: "bval \<Rightarrow> bval" where
  "decoded (BInt i) = BInt i"
| "decoded (BStr s) = BBytes s"
| "decoded (BBytes s) = BBytes s"
| "decoded (BList vs) = BList (map decoded vs)"
| "decoded (BDict d) = BDict (map (\<lambda>k. (k, case map_of d k of None \<Rightarrow> BOther | Some v \<Rightarrow> decoded v)) (sort (map fst d)))"
| "decoded (BOrdered ks d) = BDict (map (\<lambda>k. (k, case map_of d k of None \<Rightarrow> BOther | Some v \<Rightarrow> decoded v)) (sort ks))"
| "decoded BOther = BOther"
  by pat_completeness auto
termination decoded
  by (relation "measure size") (auto simp: less_Suc_eq_le intro: size_list_estimation' map_of_size [THEN less_imp_le])

function bval_ok :: "bval \<Rightarrow> bool" where
  "bval_ok (BInt i) \<longleftrightarrow> in_int64 i"
| "bval_ok (BStr s) \<longleftrightarrow> length s \<le> max_string"
| "bval_ok (BBytes s) \<longleftrightarrow> length s \<le> max_string"
| "bval_ok (BList vs) \<longleftrightarrow> (\<forall>v \<in> set vs. bval_ok v)"
| "bval_ok (BDict d) \<longleftrightarrow> distinct (map fst d) \<and> (\<forall>k \<in> fst ` set d. length k \<le> max_string) \<and> (\<forall>v \<in> snd ` set d. bval_ok v)"
| "bval_ok (BOrdered ks d) \<longleftrightarrow> distinct ks \<and> set ks \<subseteq> fst ` set d \<and> (\<forall>k \<in> fst ` set d. length k \<le> max_string) \<and>
     (\<forall>v \<in> snd ` set d. bval_ok v)"
| "bval_ok BOther \<longleftrightarrow> False"
  by pat_completeness auto
termination bval_ok
  by (relation "measure size") (auto simp: less_Suc_eq_le intro: size_list_estimation' dest: size_value)

lemma read_until_append: "c \<notin> set s \<Longrightarrow> read_until c (s @ c # r) = Some (s, r)"
  by (induction s) auto

lemma FormatInt_not_in: "\<not> is_digit c \<Longrightarrow> c \<noteq> CHR ''-'' \<Longrightarrow> c \<notin> set (FormatInt i)"
  using FormatInt_chars by blast

lemma decode_int: "in_int64 i \<Longrightarrow> bencodeDecodeInt (FormatInt i @ CHR ''e'' # rest) = Inr (i, rest)"
  using FormatInt_not_in [of "CHR ''e''" i]
  by (simp add: bencodeDecodeInt_def read_until_append ParseInt_FormatInt is_digit_def)

lemma decode_string:
  assumes "length s \<le> max_string"
  shows "bencodeDecodeString (bencodeEncodeString s @ rest) = Inr (s, rest)"
proof -
  have "CHR '':'' \<notin> set (FormatInt (int (length s)))" by (rule FormatInt_not_in) (auto simp: is_digit_def)
  moreover have "in_int64 (int (length s))" using assms by (simp add: max_string_def int64_defs)
  ultimately show ?thesis using assms
    by (simp add: bencodeDecodeString_def bencodeEncodeString_def read_until_append ParseInt_FormatInt max_string_def)
qed

lemma encode_string_hd: "\<exists>c t. bencodeEncodeString s = c # t \<and> is_digit c"
proof -
  obtain c t where c: "FormatInt (int (length s)) = c # t" using FormatInt_neq_Nil by (meson neq_Nil_conv)
  have "is_digit c" using c format_nat_digits by (metis FormatInt_def list.set_intros(1) not_less of_nat_0_le_iff)
  then show ?thesis using c by (simp add: bencodeEncodeString_def)
qed

lemma encode_bytes_eq: "bencodeEncodeBytes s = bencodeEncodeString s"
  by (simp add: bencodeEncodeBytes_def bencodeEncodeString_def)

text \<open>Some bytes are read as a value: from their first byte on, whatever follows them.\<close>

definition reads :: "string \<Rightarrow> bval \<Rightarrow> bool" where
  "reads s w \<longleftrightarrow> s \<noteq> [] \<and> hd s \<noteq> CHR ''e'' \<and>
     (\<forall>k rest. 2 * length s + 1 \<le> k \<longrightarrow> bencodeDecodeValue k (s @ rest) = Some (Inr (w, rest)))"

lemma reads_int: "in_int64 i \<Longrightarrow> reads (bencodeEncodeInt i) (BInt i)"
  unfolding reads_def
proof (intro conjI allI impI)
  fix k rest assume i: "in_int64 i" and "2 * length (bencodeEncodeInt i) + 1 \<le> k"
  then obtain n where "k = Suc n" by (cases k) auto
  then show "bencodeDecodeValue k (bencodeEncodeInt i @ rest) = Some (Inr (BInt i, rest))"
    using decode_int [OF i] by (simp add: bencodeEncodeInt_def)
qed (simp_all add: bencodeEncodeInt_def)

lemma reads_string: "length s \<le> max_string \<Longrightarrow> reads (bencodeEncodeString s) (BBytes s)"
  unfolding reads_def
proof (intro conjI allI impI)
  assume s: "length s \<le> max_string"
  obtain c t where c: "bencodeEncodeString s = c # t" "is_digit c" using encode_string_hd by blast
  then show "bencodeEncodeString s \<noteq> []" "hd (bencodeEncodeString s) \<noteq> CHR ''e''" by (auto simp: is_digit_def)
  fix k rest assume "2 * length (bencodeEncodeString s) + 1 \<le> k"
  then obtain n where "k = Suc n" by (cases k) auto
  then show "bencodeDecodeValue k (bencodeEncodeString s @ rest) = Some (Inr (BBytes s, rest))"
    using decode_string [OF s, of rest] c by (auto simp: is_digit_def)
qed

lemma read_items:
  assumes "list_all2 reads ss ws" "2 * length (concat ss) + 2 \<le> k"
  shows "bencodeDecodeList k xs (concat ss @ CHR ''e'' # rest) = Some (Inr (xs @ ws, rest))"
  using assms
proof (induction ss ws arbitrary: k xs rule: list_all2_induct)
  case Nil
  then obtain n where "k = Suc n" by (cases k) auto
  then show ?case by simp
next
  case (Cons s ss w ws)
  then obtain n where k: "k = Suc n" by (cases k) auto
  obtain c t where s: "s = c # t" "c \<noteq> CHR ''e''" using Cons(1) by (cases s) (auto simp: reads_def)
  have "bencodeDecodeValue n (s @ concat ss @ CHR ''e'' # rest) = Some (Inr (w, concat ss @ CHR ''e'' # rest))"
    using Cons(1,4) k by (simp add: reads_def)
  moreover have "2 * length (concat ss) + 2 \<le> n" using Cons(4) k s by simp
  ultimately show ?case using Cons(3) [of n "xs @ [w]"] k s by simp
qed

lemma read_entries:
  assumes "list_all2 (\<lambda>k s. length k \<le> max_string \<and> reads s (f k)) ks ss" "distinct ks" "set ks \<inter> fst ` set d = {}"
    and "2 * length (concat (map2 (\<lambda>k s. bencodeEncodeString k @ s) ks ss)) + 2 \<le> n"
  shows "bencodeDecodeDict n d (concat (map2 (\<lambda>k s. bencodeEncodeString k @ s) ks ss) @ CHR ''e'' # rest) =
    Some (Inr (d @ map (\<lambda>k. (k, f k)) ks, rest))"
  using assms
proof (induction ks ss arbitrary: n d rule: list_all2_induct)
  case Nil
  then obtain m where "n = Suc m" by (cases n) auto
  then show ?case by simp
next
  case (Cons k ks s ss)
  then obtain m where n: "n = Suc m" by (cases n) auto
  obtain c t where c: "bencodeEncodeString k = c # t" "is_digit c" using encode_string_hd by blast
  let ?tl = "concat (map2 (\<lambda>k s. bencodeEncodeString k @ s) ks ss) @ CHR ''e'' # rest"
  have key: "bencodeDecodeString (bencodeEncodeString k @ s @ ?tl) = Inr (k, s @ ?tl)" using Cons(1) by (intro decode_string) simp
  have val: "bencodeDecodeValue m (s @ ?tl) = Some (Inr (f k, ?tl))" using Cons(1,6) n c by (simp add: reads_def)
  have "2 * length (concat (map2 (\<lambda>k s. bencodeEncodeString k @ s) ks ss)) + 2 \<le> m" using Cons(6) n c by simp
  moreover have "dict_set k (f k) d = d @ [(k, f k)]" using Cons(5) by (intro dict_set_new) auto
  moreover have "distinct ks" "set ks \<inter> fst ` set (d @ [(k, f k)]) = {}" using Cons(4,5) by auto
  ultimately have "bencodeDecodeDict m (dict_set k (f k) d) ?tl = Some (Inr (d @ map (\<lambda>k. (k, f k)) (k # ks), rest))"
    using Cons(3) [of "d @ [(k, f k)]" m] by simp
  moreover have "c \<noteq> CHR ''e''" using c(2) by (auto simp: is_digit_def)
  ultimately show ?case using key val c(1) n by simp
qed

lemma reads_list:
  assumes "list_all2 reads ss ws"
  shows "reads (''l'' @ concat ss @ ''e'') (BList ws)"
  unfolding reads_def
proof (intro conjI allI impI)
  fix k rest assume "2 * length (''l'' @ concat ss @ ''e'') + 1 \<le> k"
  then obtain n where "k = Suc n" "2 * length (concat ss) + 2 \<le> n" by (cases k) auto
  then show "bencodeDecodeValue k ((''l'' @ concat ss @ ''e'') @ rest) = Some (Inr (BList ws, rest))"
    using read_items [OF assms, of n "[]" rest] by simp
qed simp_all

lemma reads_dict:
  assumes "list_all2 (\<lambda>k s. length k \<le> max_string \<and> reads s (f k)) ks ss" "distinct ks"
  shows "reads (''d'' @ concat (map2 (\<lambda>k s. bencodeEncodeString k @ s) ks ss) @ ''e'') (BDict (map (\<lambda>k. (k, f k)) ks))"
  unfolding reads_def
proof (intro conjI allI impI)
  fix k rest
  let ?s = "concat (map2 (\<lambda>k s. bencodeEncodeString k @ s) ks ss)"
  assume "2 * length (''d'' @ ?s @ ''e'') + 1 \<le> k"
  then obtain n where "k = Suc n" "2 * length ?s + 2 \<le> n" by (cases k) auto
  then show "bencodeDecodeValue k ((''d'' @ ?s @ ''e'') @ rest) = Some (Inr (BDict (map (\<lambda>k. (k, f k)) ks), rest))"
    using read_entries [OF assms, of "[]" n rest] by simp
qed simp_all

lemma write_all_map: "(\<And>x. x \<in> set xs \<Longrightarrow> f x = Inr (g x)) \<Longrightarrow> write_all (map f xs) = Inr (concat (map g xs))"
  by (induction xs) auto

lemma encode_entries_reads:
  assumes "set ks \<subseteq> fst ` set d" "\<And>k. k \<in> set ks \<Longrightarrow> length k \<le> max_string"
    and "\<And>v. v \<in> snd ` set d \<Longrightarrow> bencodeEncodeValue v = Inr (e v) \<and> reads (e v) (decoded v)"
  defines "val \<equiv> \<lambda>k. the (map_of d k)"
  shows "write_all (map (encode_entry bencodeEncodeValue d) ks) =
      Inr (concat (map2 (\<lambda>k s. bencodeEncodeString k @ s) ks (map (e \<circ> val) ks)))"
    and "list_all2 (\<lambda>k s. length k \<le> max_string \<and> reads s (case map_of d k of None \<Rightarrow> BOther | Some v \<Rightarrow> decoded v)) ks (map (e \<circ> val) ks)"
proof -
  have look: "map_of d k = Some (val k)" "val k \<in> snd ` set d" if k: "k \<in> set ks" for k
  proof -
    obtain v where v: "map_of d k = Some v" "v \<in> snd ` set d" using map_of_key [of k d] assms(1) k by blast
    then show "map_of d k = Some (val k)" "val k \<in> snd ` set d" by (simp_all add: val_def)
  qed
  have "encode_entry bencodeEncodeValue d k = Inr (bencodeEncodeString k @ e (val k))" if "k \<in> set ks" for k
    using look [OF that] assms(3) by (simp add: encode_entry_def)
  then show "write_all (map (encode_entry bencodeEncodeValue d) ks) =
      Inr (concat (map2 (\<lambda>k s. bencodeEncodeString k @ s) ks (map (e \<circ> val) ks)))"
    by (subst write_all_map [of _ _ "\<lambda>k. bencodeEncodeString k @ e (val k)"]) (auto simp: zip_map2 zip_same_conv_map comp_def split_def)
  show "list_all2 (\<lambda>k s. length k \<le> max_string \<and> reads s (case map_of d k of None \<Rightarrow> BOther | Some v \<Rightarrow> decoded v)) ks (map (e \<circ> val) ks)"
    using look assms(2,3) by (auto simp: list_all2_conv_all_nth)
qed

lemma encode_reads: "bval_ok v \<Longrightarrow> \<exists>s. bencodeEncodeValue v = Inr s \<and> reads s (decoded v)"
proof (induction v rule: bencodeEncodeValue.induct)
  case (4 vs)
  let ?e = "\<lambda>v. projr (bencodeEncodeValue v)"
  have e: "bencodeEncodeValue v = Inr (?e v) \<and> reads (?e v) (decoded v)" if "v \<in> set vs" for v
    using 4 that by fastforce
  then have "write_all (map bencodeEncodeValue vs) = Inr (concat (map ?e vs))" by (intro write_all_map) blast
  then have "bencodeEncodeList bencodeEncodeValue vs = Inr (''l'' @ concat (map ?e vs) @ ''e'')"
    by (simp add: bencodeEncodeList_def framed_def)
  moreover have "list_all2 reads (map ?e vs) (map decoded vs)" using e by (simp add: list_all2_conv_all_nth)
  ultimately show ?case using reads_list by (metis bencodeEncodeValue.simps(4) decoded.simps(4))
next
  case (5 d)
  let ?e = "\<lambda>v. projr (bencodeEncodeValue v)"
  have e: "bencodeEncodeValue v = Inr (?e v) \<and> reads (?e v) (decoded v)" if "v \<in> snd ` set d" for v
    using 5 that by fastforce
  have d: "distinct (sort (map fst d))" "set (sort (map fst d)) \<subseteq> fst ` set d" "\<And>k. k \<in> set (sort (map fst d)) \<Longrightarrow> length k \<le> max_string"
    using 5(2) by auto
  note E = encode_entries_reads [OF d(2,3) e]
  then show ?case using reads_dict [OF E(2) d(1)] by (simp add: bencodeEncodeDict_def framed_def)
next
  case (6 ks d)
  let ?e = "\<lambda>v. projr (bencodeEncodeValue v)"
  have e: "bencodeEncodeValue v = Inr (?e v) \<and> reads (?e v) (decoded v)" if "v \<in> snd ` set d" for v
    using 6 that by fastforce
  have d: "distinct (sort ks)" "set (sort ks) \<subseteq> fst ` set d" "\<And>k. k \<in> set (sort ks) \<Longrightarrow> length k \<le> max_string"
    using 6(2) by auto
  note E = encode_entries_reads [OF d(2,3) e]
  then show ?case using reads_dict [OF E(2) d(1)] by (simp add: bencodeEncodeOrderedDict_def framed_def)
qed (auto simp: reads_int reads_string encode_bytes_eq)

text \<open>Encoding what was decoded gives the same bytes: the encoding of a value is canonical.\<close>

lemma encode_decoded: "bval_ok v \<Longrightarrow> bencodeEncodeValue (decoded v) = bencodeEncodeValue v"
proof (induction v rule: bencodeEncodeValue.induct)
  case (4 vs)
  then have "map (bencodeEncodeValue \<circ> decoded) vs = map bencodeEncodeValue vs" by simp
  then show ?case by (simp only: bencodeEncodeList_def decoded.simps bencodeEncodeValue.simps map_map)
next
  case (5 d)
  let ?g = "\<lambda>k. case map_of d k of None \<Rightarrow> BOther | Some v \<Rightarrow> decoded v"
  have "encode_entry bencodeEncodeValue (map (\<lambda>k. (k, ?g k)) (sort (map fst d))) k = encode_entry bencodeEncodeValue d k"
    if k: "k \<in> fst ` set d" for k
  proof -
    obtain v where v: "map_of d k = Some v" "v \<in> snd ` set d" using map_of_key [OF k] by blast
    moreover have "map_of (map (\<lambda>k. (k, ?g k)) (sort (map fst d))) k = Some (decoded v)" using v k by (simp add: map_of_map_restrict)
    moreover have "bval_ok v" using 5(2) v(2) unfolding bval_ok.simps by blast
    then have "bencodeEncodeValue (decoded v) = bencodeEncodeValue v" by (rule 5(1) [OF v(2)])
    ultimately show ?thesis using v by (simp add: encode_entry_def)
  qed
  then have "map (encode_entry bencodeEncodeValue (map (\<lambda>k. (k, ?g k)) (sort (map fst d)))) (sort (map fst d)) =
      map (encode_entry bencodeEncodeValue d) (sort (map fst d))" by simp
  then show ?case by (simp only: decoded.simps bencodeEncodeValue.simps bencodeEncodeDict_def map_map comp_def fst_conv map_ident sort_sort)
next
  case (6 ks d)
  let ?g = "\<lambda>k. case map_of d k of None \<Rightarrow> BOther | Some v \<Rightarrow> decoded v"
  have "encode_entry bencodeEncodeValue (map (\<lambda>k. (k, ?g k)) (sort ks)) k = encode_entry bencodeEncodeValue d k"
    if k: "k \<in> set ks" for k
  proof -
    have kd: "k \<in> fst ` set d" using k 6(2) by auto
    obtain v where v: "map_of d k = Some v" "v \<in> snd ` set d" using map_of_key [OF kd] by blast
    moreover have "map_of (map (\<lambda>k. (k, ?g k)) (sort ks)) k = Some (decoded v)" using v k by (simp add: map_of_map_restrict)
    moreover have "bval_ok v" using 6(2) v(2) unfolding bval_ok.simps by blast
    then have "bencodeEncodeValue (decoded v) = bencodeEncodeValue v" by (rule 6(1) [OF v(2)])
    ultimately show ?thesis using v by (simp add: encode_entry_def)
  qed
  then have "map (encode_entry bencodeEncodeValue (map (\<lambda>k. (k, ?g k)) (sort ks))) (sort ks) =
      map (encode_entry bencodeEncodeValue d) (sort ks)" by simp
  then show ?case
    by (simp only: decoded.simps bencodeEncodeValue.simps bencodeEncodeDict_def bencodeEncodeOrderedDict_def map_map comp_def
        fst_conv map_ident sort_sort)
qed (simp_all add: encode_bytes_eq)

section \<open>Properties\<close>

text \<open>Decoding always ends: on any input whatever, however malformed or deeply nested, the decoder comes to a value
  or an error, and no fuel beyond twice the length of the input is ever used.
\<close>

theorem BencodeDecode_returns: "\<exists>r. BencodeDecode data = Some r"
  using decode_total(1) [of data "2 * length data + 2"] by (auto simp: BencodeDecode_def)

text \<open>C29:
  Bencode round trip.  Every value built from 64-bit integers, strings and byte strings of at most 100 MiB,
  lists, maps and ordered dictionaries whose keys all have values is encoded without an error; decoding the bytes, with anything after them, gives
  the value back with strings as byte strings and dictionaries as maps; and encoding that again
  gives the same bytes, so the encoding is canonical.
\<close>

theorem bencode_roundtrip:
  assumes "bval_ok v"
  shows "\<exists>s. BencodeEncode v = Inr s \<and> BencodeDecode (s @ rest) = Some (Inr (decoded v)) \<and> BencodeEncode (decoded v) = Inr s"
proof -
  obtain s where s: "bencodeEncodeValue v = Inr s" "reads s (decoded v)" using encode_reads [OF assms] by blast
  have "bencodeDecodeValue (2 * length (s @ rest) + 2) (s @ rest) = Some (Inr (decoded v, rest))"
    using s(2) unfolding reads_def by (metis add_le_mono le_add1 length_append mult_le_mono2 one_le_numeral)
  then show ?thesis using s(1) encode_decoded [OF assms] unfolding BencodeEncode_def BencodeDecode_def by simp
qed

theorem bencode_roundtrip_witness:
  "\<exists>s. BencodeEncode (BDict [(''b'', BInt (-7)), (''a'', BList [BStr ''xy'', BInt 0])]) = Inr s \<and>
     BencodeDecode (s @ ''junk'') = Some (Inr (BDict [(''a'', BList [BBytes ''xy'', BInt 0]), (''b'', BInt (-7))])) \<and>
     BencodeEncode (BDict [(''a'', BList [BBytes ''xy'', BInt 0]), (''b'', BInt (-7))]) = Inr s"
  using bencode_roundtrip [of "BDict [(''b'', BInt (-7)), (''a'', BList [BStr ''xy'', BInt 0])]" "''junk''"]
  by (simp add: max_string_def int64_defs less_char_def)

end
