(* ===== verification/Hash_Writer.thy ===== *)
theory Hash_Writer
  imports Go_Strings
begin

text \<open>
  The hash writer of \<open>pkg/torrent/hash_writer.go\<close>, which computes in one pass over an upload the MD5 of the file, the MD5
  of every slice and the SHA-1 of every piece.  The two digests are parameters: a \<open>hash.Hash\<close> is the
  list of bytes written to it since its last reset, and \<open>Sum(nil)\<close> applies the digest to them.
  \<open>None\<close> stands for a panic of the code or a loop that does not end.
\<close>

section \<open>The model\<close>

type_synonym digest = "string \<Rightarrow> string"

definition hex_char :: "nat \<Rightarrow> char" where
  "hex_char d = (if d < 10 then char_of (48 + d) else char_of (87 + d))"

text \<open>\<open>hex.EncodeToString\<close>, and \<open>strings.ToUpper\<close> on the ASCII text it gives.\<close>

definition EncodeToString :: "string \<Rightarrow> string" where
  "EncodeToString s = concat (map (\<lambda>c. [hex_char (of_char c div 16), hex_char (of_char c mod 16)]) s)"

definition ToUpper :: "string \<Rightarrow> string" where
  "ToUpper s = map (\<lambda>c. if 97 \<le> (of_char c :: nat) \<and> (of_char c :: nat) \<le> 122 then char_of ((of_char c :: nat) - 32) else c) s"

definition DefaultPieceSize :: int64 where
  "DefaultPieceSize = 10 * 1024 * 1024"

record HashWriter =
  fileMD5 :: string
  sliceMD5 :: string
  pieceSHA1 :: string
  sliceSize :: int64
  pieceSize :: int64
  sliceWritten :: int64
  pieceWritten :: int64
  totalWritten :: int64
  sliceMD5Hexs :: "string list"
  pieceHashes :: string

definition NewHashWriter :: "int64 \<Rightarrow> int64 \<Rightarrow> HashWriter" where
  "NewHashWriter slice piece =
     \<lparr>fileMD5 = [], sliceMD5 = [], pieceSHA1 = [],
      sliceSize = (if slice \<le> 0 then DefaultPieceSize else slice),
      pieceSize = (if piece \<le> 0 then DefaultPieceSize else piece),
      sliceWritten = 0, pieceWritten = 0, totalWritten = 0, sliceMD5Hexs = [], pieceHashes = []\<rparr>"

definition NewDefaultHashWriter :: HashWriter where
  "NewDefaultHashWriter = NewHashWriter DefaultPieceSize DefaultPieceSize"

definition min64 :: "int64 \<Rightarrow> int64 \<Rightarrow> int64" where
  "min64 a b = (if a < b then a else b)"

definition finishSlice :: "digest \<Rightarrow> HashWriter \<Rightarrow> HashWriter" where
  "finishSlice md5 hw =
     hw\<lparr>sliceMD5Hexs := sliceMD5Hexs hw @ [ToUpper (EncodeToString (md5 (sliceMD5 hw)))], sliceMD5 := [], sliceWritten := 0\<rparr>"

definition finishPiece :: "digest \<Rightarrow> HashWriter \<Rightarrow> HashWriter" where
  "finishPiece sha1 hw = hw\<lparr>pieceHashes := pieceHashes hw @ sha1 (pieceSHA1 hw), pieceSHA1 := [], pieceWritten := 0\<rparr>"

text \<open>One turn of the loop of \<open>Write\<close> on what is left of its argument.\<close>

definition Write_step :: "digest \<Rightarrow> digest \<Rightarrow> HashWriter \<Rightarrow> string \<Rightarrow> (HashWriter \<times> string) option" where
  "Write_step md5 sha1 hw p =
     (let sliceRemain = sliceSize hw - sliceWritten hw;
          pieceRemain = pieceSize hw - pieceWritten hw;
          canWrite = min64 (min64 sliceRemain pieceRemain) (int (length p));
          chunk = take (nat canWrite) p;
          hw1 = hw\<lparr>fileMD5 := fileMD5 hw @ chunk, sliceMD5 := sliceMD5 hw @ chunk, pieceSHA1 := pieceSHA1 hw @ chunk,
                   sliceWritten := sliceWritten hw + canWrite, pieceWritten := pieceWritten hw + canWrite,
                   totalWritten := wrap64 (totalWritten hw + canWrite)\<rparr>;
          hw2 = (if sliceWritten hw1 \<ge> sliceSize hw1 then finishSlice md5 hw1 else hw1);
          hw3 = (if pieceWritten hw2 \<ge> pieceSize hw2 then finishPiece sha1 hw2 else hw2)
      in if canWrite < 0 then None else Some (hw3, drop (nat canWrite) p))"

text \<open>The loop, with the length of the argument as fuel: every turn that matters consumes a byte.\<close>

fun Write_loop :: "nat \<Rightarrow> digest \<Rightarrow> digest \<Rightarrow> HashWriter \<Rightarrow> string \<Rightarrow> HashWriter option" where
  "Write_loop k md5 sha1 hw [] = Some hw"
| "Write_loop 0 md5 sha1 hw p = None"
| "Write_loop (Suc k) md5 sha1 hw p =
     (case Write_step md5 sha1 hw p of None \<Rightarrow> None | Some (hw1, p1) \<Rightarrow> Write_loop k md5 sha1 hw1 p1)"

definition hw_Write :: "digest \<Rightarrow> digest \<Rightarrow> HashWriter \<Rightarrow> string \<Rightarrow> HashWriter option" where
  "hw_Write md5 sha1 hw p = Write_loop (length p) md5 sha1 hw p"

definition Finish :: "digest \<Rightarrow> digest \<Rightarrow> HashWriter \<Rightarrow> HashWriter" where
  "Finish md5 sha1 hw =
     (let hw1 = (if sliceWritten hw > 0 then finishSlice md5 hw else hw)
      in if pieceWritten hw1 > 0 then finishPiece sha1 hw1 else hw1)"

definition GetFileMD5 :: "digest \<Rightarrow> HashWriter \<Rightarrow> string" where
  "GetFileMD5 md5 hw = ToUpper (EncodeToString (md5 (fileMD5 hw)))"

definition GetSliceMD5s :: "HashWriter \<Rightarrow> string list" where
  "GetSliceMD5s hw = sliceMD5Hexs hw"

definition GetMD5Str :: "digest \<Rightarrow> string \<Rightarrow> string" where
  "GetMD5Str md5 data = ToUpper (EncodeToString (md5 data))"

definition newline :: string where
  "newline = [CHR 0x0A]"

definition GetSliceMD5 :: "digest \<Rightarrow> HashWriter \<Rightarrow> string \<Rightarrow> string" where
  "GetSliceMD5 md5 hw file =
     (if length (sliceMD5Hexs hw) \<le> 1 then file else ToUpper (GetMD5Str md5 (Join (sliceMD5Hexs hw) newline)))"

definition hw_GetPieceHashes :: "HashWriter \<Rightarrow> string" where
  "hw_GetPieceHashes hw = pieceHashes hw"

definition GetTotalWritten :: "HashWriter \<Rightarrow> int64" where
  "GetTotalWritten hw = totalWritten hw"

text \<open>
  \<open>CopyAndHash\<close>: the source is the list of what its reads give, bytes and perhaps an error (\<open>None\<close> for
  none); the destination, if there is one, is the list of what its writes answer, a count and perhaps an error.
\<close>

datatype io_error = EOF | ErrShortWrite | ErrInvalidWrite | IOErr string

definition copy_count :: "int \<Rightarrow> int \<times> io_error option \<Rightarrow> int \<times> io_error option" where
  "copy_count nr w =
     (let (nw, ew) = w
      in if nw < 0 \<or> nr < nw then (0, if ew = None then Some ErrInvalidWrite else ew) else (nw, ew))"

fun CopyAndHash ::
  "digest \<Rightarrow> digest \<Rightarrow> (int \<times> io_error option) list option \<Rightarrow> (string \<times> io_error option) list \<Rightarrow> HashWriter \<Rightarrow> int \<Rightarrow>
   (int \<times> io_error option \<times> HashWriter) option" where
  "CopyAndHash md5 sha1 dst [] hw written = None"
| "CopyAndHash md5 sha1 dst ((buf, er) # src) hw written =
     (let finish = (\<lambda>dst1 hw1 written1.
             case er of
               None \<Rightarrow> CopyAndHash md5 sha1 dst1 src hw1 written1
             | Some EOF \<Rightarrow> Some (written1, None, hw1)
             | Some e \<Rightarrow> Some (written1, Some e, hw1))
      in if buf = [] then finish dst hw written
         else case hw_Write md5 sha1 hw buf of
                None \<Rightarrow> None
              | Some hw1 \<Rightarrow>
                  (case dst of
                     None \<Rightarrow> finish None hw1 (wrap64 (written + int (length buf)))
                   | Some [] \<Rightarrow> None
                   | Some (w # ws) \<Rightarrow>
                       let (nw, ew) = copy_count (int (length buf)) w; written1 = wrap64 (written + nw)
                       in case ew of
                            Some e \<Rightarrow> Some (written1, Some e, hw1)
                          | None \<Rightarrow>
                              if int (length buf) \<noteq> nw then Some (written1, Some ErrShortWrite, hw1)
                              else finish (Some ws) hw1 written1))"

section \<open>Cutting a list into chunks\<close>

function chunks :: "nat \<Rightarrow> 'a list \<Rightarrow> 'a list list" where
  "chunks n xs = (if n = 0 \<or> xs = [] then [] else take n xs # chunks n (drop n xs))"
  by pat_completeness auto
termination chunks
  by (relation "measure (\<lambda>(n, xs). length xs)") auto

declare chunks.simps [simp del]

text \<open>How far the cutting has come: the chunks that are complete and the one in progress.\<close>

definition cut :: "nat \<Rightarrow> 'a list \<Rightarrow> 'a list list \<Rightarrow> 'a list \<Rightarrow> bool" where
  "cut n xs cs cur \<longleftrightarrow> xs = concat cs @ cur \<and> (\<forall>c \<in> set cs. length c = n) \<and> length cur < n"

lemma chunks_cut:
  assumes "cut n xs cs cur"
  shows "chunks n xs = cs @ (if cur = [] then [] else [cur])"
proof -
  have "chunks n (concat cs @ cur) = cs @ (if cur = [] then [] else [cur])" if "\<forall>c \<in> set cs. length c = n" "length cur < n"
    using that
  proof (induction cs)
    case Nil
    then show ?case by (auto simp: chunks.simps [of n cur] chunks.simps [of n "[]"])
  next
    case (Cons c cs)
    then show ?case by (subst chunks.simps) auto
  qed
  then show ?thesis using assms by (simp add: cut_def)
qed

lemma cut_extend:
  assumes "cut n xs cs cur" "length cur + length ys \<le> n"
  shows "if length cur + length ys = n then cut n (xs @ ys) (cs @ [cur @ ys]) [] else cut n (xs @ ys) cs (cur @ ys)"
  using assms by (auto simp: cut_def)

section \<open>The writer cuts its input into slices and pieces\<close>

lemma wrap64_add: "wrap64 (wrap64 a + b) = wrap64 (a + b)"
proof -
  have "(a + 2 ^ 63) mod 2 ^ 64 - 2 ^ 63 + b + 2 ^ 63 = (a + 2 ^ 63) mod 2 ^ 64 + b" by simp
  then show ?thesis unfolding wrap64_def by (simp only: mod_add_left_eq) (simp add: ac_simps)
qed

definition hw_inv :: "digest \<Rightarrow> digest \<Rightarrow> HashWriter \<Rightarrow> string \<Rightarrow> bool" where
  "hw_inv md5 sha1 hw data \<longleftrightarrow> 0 < sliceSize hw \<and> 0 < pieceSize hw \<and> fileMD5 hw = data \<and>
     totalWritten hw = wrap64 (int (length data)) \<and>
     sliceWritten hw = int (length (sliceMD5 hw)) \<and> pieceWritten hw = int (length (pieceSHA1 hw)) \<and>
     (\<exists>cs. cut (nat (sliceSize hw)) data cs (sliceMD5 hw) \<and> sliceMD5Hexs hw = map (GetMD5Str md5) cs) \<and>
     (\<exists>cs. cut (nat (pieceSize hw)) data cs (pieceSHA1 hw) \<and> pieceHashes hw = concat (map sha1 cs))"

lemma new_inv: "hw_inv md5 sha1 (NewHashWriter slice piece) []"
  unfolding hw_inv_def by (intro conjI exI [of _ "[]"]) (simp_all add: NewHashWriter_def cut_def DefaultPieceSize_def wrap64_def)

lemma cut_step:
  assumes "cut (nat n) data cs cur" "0 < n" "int (length cur) + int (length c) \<le> n"
  defines "full \<equiv> n \<le> int (length cur) + int (length c)"
  shows "cut (nat n) (data @ c) (if full then cs @ [cur @ c] else cs) (if full then [] else cur @ c)"
proof -
  have le: "length cur + length c \<le> nat n" using assms(2,3) by linarith
  moreover have "full \<longleftrightarrow> length cur + length c = nat n" using assms(2,3) by (auto simp: full_def)
  ultimately show ?thesis using cut_extend [OF assms(1) le] by (auto split: if_splits)
qed

lemma Write_step_inv:
  assumes "hw_inv md5 sha1 hw data" "p \<noteq> []"
  shows "\<exists>hw1 c p1. Write_step md5 sha1 hw p = Some (hw1, p1) \<and> p = c @ p1 \<and> c \<noteq> [] \<and> hw_inv md5 sha1 hw1 (data @ c) \<and>
    sliceSize hw1 = sliceSize hw \<and> pieceSize hw1 = pieceSize hw"
proof -
  let ?S = "sliceSize hw" and ?P = "pieceSize hw" and ?s = "sliceMD5 hw" and ?q = "pieceSHA1 hw"
  obtain cs ds where cs: "cut (nat ?S) data cs ?s" "sliceMD5Hexs hw = map (GetMD5Str md5) cs"
    and ds: "cut (nat ?P) data ds ?q" "pieceHashes hw = concat (map sha1 ds)"
    using assms(1) unfolding hw_inv_def by blast
  have hw: "0 < ?S" "0 < ?P" "fileMD5 hw = data" "totalWritten hw = wrap64 (int (length data))"
      "sliceWritten hw = int (length ?s)" "pieceWritten hw = int (length ?q)"
    using assms(1) by (auto simp: hw_inv_def)
  have room: "int (length ?s) < ?S" "int (length ?q) < ?P" using cs(1) ds(1) by (auto simp: cut_def)
  define n where "n = min64 (min64 (?S - sliceWritten hw) (?P - pieceWritten hw)) (int (length p))"
  have n: "0 < n" "n \<le> ?S - int (length ?s)" "n \<le> ?P - int (length ?q)" "n \<le> int (length p)"
    using room assms(2) hw(5,6) by (auto simp: n_def min64_def)
  define c where "c = take (nat n) p"
  have len: "int (length c) = n" using n by (simp add: c_def)
  define hw1 where "hw1 = hw\<lparr>fileMD5 := fileMD5 hw @ c, sliceMD5 := ?s @ c, pieceSHA1 := ?q @ c,
      sliceWritten := sliceWritten hw + n, pieceWritten := pieceWritten hw + n, totalWritten := wrap64 (totalWritten hw + n)\<rparr>"
  define hw2 where "hw2 = (if sliceWritten hw1 \<ge> sliceSize hw1 then finishSlice md5 hw1 else hw1)"
  define hw3 where "hw3 = (if pieceWritten hw2 \<ge> pieceSize hw2 then finishPiece sha1 hw2 else hw2)"
  have run: "Write_step md5 sha1 hw p = Some (hw3, drop (nat n) p)"
    using n(1) unfolding Write_step_def Let_def n_def [symmetric] c_def [symmetric] hw1_def [symmetric] hw2_def [symmetric] hw3_def [symmetric]
    by simp
  let ?fs = "?S \<le> int (length ?s) + int (length c)" and ?fp = "?P \<le> int (length ?q) + int (length c)"
  have h3: "sliceMD5 hw3 = (if ?fs then [] else ?s @ c)" "pieceSHA1 hw3 = (if ?fp then [] else ?q @ c)"
    "sliceMD5Hexs hw3 = map (GetMD5Str md5) (if ?fs then cs @ [?s @ c] else cs)" "pieceHashes hw3 = concat (map sha1 (if ?fp then ds @ [?q @ c] else ds))"
    "sliceWritten hw3 = int (length (sliceMD5 hw3))" "pieceWritten hw3 = int (length (pieceSHA1 hw3))"
    "fileMD5 hw3 = data @ c" "totalWritten hw3 = wrap64 (wrap64 (int (length data)) + int (length c))" "sliceSize hw3 = ?S" "pieceSize hw3 = ?P"
    using hw cs(2) ds(2) len
    by (auto simp: hw3_def hw2_def hw1_def finishSlice_def finishPiece_def GetMD5Str_def)
  have tot: "totalWritten hw3 = wrap64 (int (length (data @ c)))" using h3(8) by (simp add: wrap64_add)
  have "cut (nat ?S) (data @ c) (if ?fs then cs @ [?s @ c] else cs) (sliceMD5 hw3)"
    "cut (nat ?P) (data @ c) (if ?fp then ds @ [?q @ c] else ds) (pieceSHA1 hw3)"
    unfolding h3(1,2) using cut_step [OF cs(1) hw(1), of c] cut_step [OF ds(1) hw(2), of c] n len by simp_all
  then have "hw_inv md5 sha1 hw3 (data @ c)" unfolding hw_inv_def h3(3-7,9,10) tot using hw(1,2) by blast
  moreover have "p = c @ drop (nat n) p" by (simp add: c_def)
  moreover have "c \<noteq> []" using len n(1) by auto
  ultimately show ?thesis using run h3(9,10) by blast
qed

lemma Write_loop_Suc:
  "p \<noteq> [] \<Longrightarrow> Write_loop (Suc k) md5 sha1 hw p =
     (case Write_step md5 sha1 hw p of None \<Rightarrow> None | Some (hw1, p1) \<Rightarrow> Write_loop k md5 sha1 hw1 p1)"
  by (cases p) simp_all

lemma Write_loop_inv:
  assumes "hw_inv md5 sha1 hw data" "length p \<le> k"
  shows "\<exists>hw1. Write_loop k md5 sha1 hw p = Some hw1 \<and> hw_inv md5 sha1 hw1 (data @ p) \<and>
    sliceSize hw1 = sliceSize hw \<and> pieceSize hw1 = pieceSize hw"
  using assms
proof (induction k arbitrary: hw data p)
  case (Suc k)
  show ?case
  proof (cases "p = []")
    case False
    obtain hw1 c p1 where s: "Write_step md5 sha1 hw p = Some (hw1, p1)" "p = c @ p1" "c \<noteq> []" "hw_inv md5 sha1 hw1 (data @ c)"
        "sliceSize hw1 = sliceSize hw" "pieceSize hw1 = pieceSize hw"
      using Write_step_inv [OF Suc.prems(1) False] by blast
    have "length p1 \<le> k" using s(2,3) Suc.prems(2) by (cases c) auto
    moreover have "Write_loop (Suc k) md5 sha1 hw p = Write_loop k md5 sha1 hw1 p1" using s(1) by (simp add: Write_loop_Suc [OF False])
    ultimately show ?thesis using Suc.IH [OF s(4)] s(2,5,6) by auto
  qed (use Suc.prems in auto)
qed auto

lemmas hw_Write_inv = Write_loop_inv [OF _ order_refl, folded hw_Write_def]

text \<open>Closing the last slice and piece.\<close>

lemma Finish_spec:
  assumes "hw_inv md5 sha1 hw data"
  shows "sliceMD5Hexs (Finish md5 sha1 hw) = map (GetMD5Str md5) (chunks (nat (sliceSize hw)) data)"
    "pieceHashes (Finish md5 sha1 hw) = concat (map sha1 (chunks (nat (pieceSize hw)) data))"
    "fileMD5 (Finish md5 sha1 hw) = data" "totalWritten (Finish md5 sha1 hw) = wrap64 (int (length data))"
    "sliceSize (Finish md5 sha1 hw) = sliceSize hw"
proof -
  obtain cs ds where cs: "cut (nat (sliceSize hw)) data cs (sliceMD5 hw)" "sliceMD5Hexs hw = map (GetMD5Str md5) cs"
    and ds: "cut (nat (pieceSize hw)) data ds (pieceSHA1 hw)" "pieceHashes hw = concat (map sha1 ds)"
    using assms unfolding hw_inv_def by blast
  note h = assms [unfolded hw_inv_def]
  show "sliceMD5Hexs (Finish md5 sha1 hw) = map (GetMD5Str md5) (chunks (nat (sliceSize hw)) data)"
    "pieceHashes (Finish md5 sha1 hw) = concat (map sha1 (chunks (nat (pieceSize hw)) data))"
    "fileMD5 (Finish md5 sha1 hw) = data" "totalWritten (Finish md5 sha1 hw) = wrap64 (int (length data))"
    "sliceSize (Finish md5 sha1 hw) = sliceSize hw"
    using h cs(2) ds(2) unfolding chunks_cut [OF cs(1)] chunks_cut [OF ds(1)]
    by (auto simp: Finish_def Let_def finishSlice_def finishPiece_def GetMD5Str_def)
qed

text \<open>A sequence of calls of \<open>Write\<close>.\<close>

fun writes :: "digest \<Rightarrow> digest \<Rightarrow> HashWriter \<Rightarrow> string list \<Rightarrow> HashWriter option" where
  "writes md5 sha1 hw [] = Some hw"
| "writes md5 sha1 hw (p # ps) = (case hw_Write md5 sha1 hw p of None \<Rightarrow> None | Some hw1 \<Rightarrow> writes md5 sha1 hw1 ps)"

lemma writes_inv:
  "hw_inv md5 sha1 hw data \<Longrightarrow> \<exists>hw1. writes md5 sha1 hw ps = Some hw1 \<and> hw_inv md5 sha1 hw1 (data @ concat ps) \<and>
     sliceSize hw1 = sliceSize hw \<and> pieceSize hw1 = pieceSize hw"
proof (induction ps arbitrary: hw data)
  case (Cons p ps)
  obtain hw1 where w: "hw_Write md5 sha1 hw p = Some hw1" "hw_inv md5 sha1 hw1 (data @ p)"
      "sliceSize hw1 = sliceSize hw" "pieceSize hw1 = pieceSize hw"
    using hw_Write_inv [OF Cons.prems] by blast
  then show ?case using Cons.IH [OF w(2)] by auto
qed auto

text \<open>A copy that goes well: the destination takes every buffer, the source ends with EOF.\<close>

lemma CopyAndHash_all:
  assumes "hw_inv md5 sha1 hw data" "\<And>x. x \<in> set rs \<Longrightarrow> snd x = None" "dst = None \<or> dst = Some (map (\<lambda>r. (int (length (fst r)), None)) (filter (\<lambda>r. fst r \<noteq> []) (rs @ [(b, Some EOF)])))"
  shows "\<exists>hw1. CopyAndHash md5 sha1 dst (rs @ [(b, Some EOF)]) hw (wrap64 w) = Some (wrap64 (w + int (length (concat (map fst rs) @ b))), None, hw1) \<and>
    hw_inv md5 sha1 hw1 (data @ concat (map fst rs) @ b) \<and> sliceSize hw1 = sliceSize hw \<and> pieceSize hw1 = pieceSize hw"
  using assms
proof (induction rs arbitrary: hw data dst w)
  case Nil
  obtain hw1 where "hw_Write md5 sha1 hw b = Some hw1" "hw_inv md5 sha1 hw1 (data @ b)" "sliceSize hw1 = sliceSize hw" "pieceSize hw1 = pieceSize hw"
    using hw_Write_inv [OF Nil(1)] by blast
  then show ?case using Nil by (auto simp: copy_count_def wrap64_add split: option.splits)
next
  case (Cons r rs)
  obtain x where r: "r = (x, None)" using Cons.prems(2) [of r] by (cases r) auto
  show ?case
  proof (cases "x = []")
    case True
    then show ?thesis using Cons.IH [OF Cons.prems(1), of dst w] Cons.prems(2,3) r by auto
  next
    case False
    obtain hw1 where w1: "hw_Write md5 sha1 hw x = Some hw1" "hw_inv md5 sha1 hw1 (data @ x)" "sliceSize hw1 = sliceSize hw" "pieceSize hw1 = pieceSize hw"
      using hw_Write_inv [OF Cons.prems(1)] by blast
    let ?ok = "\<lambda>rs. map (\<lambda>r. (int (length (fst r)), None)) (filter (\<lambda>r. fst r \<noteq> []) (rs @ [(b, Some EOF)]))"
    have pre: "map_option tl dst = None \<or> map_option tl dst = Some (?ok rs)" using Cons.prems(3) r False by auto
    have "CopyAndHash md5 sha1 dst ((r # rs) @ [(b, Some EOF)]) hw (wrap64 w) =
        CopyAndHash md5 sha1 (map_option tl dst) (rs @ [(b, Some EOF)]) hw1 (wrap64 (w + int (length x)))"
      using Cons.prems(3) r False w1(1) by (auto simp: copy_count_def wrap64_add)
    then show ?thesis using Cons.IH [OF w1(2) _ pre, of "w + int (length x)"] Cons.prems(2) r w1(3,4) by (simp add: add.assoc)
  qed
qed

section \<open>Properties\<close>

text \<open>C30:
  The hash writer does not depend on how the upload is cut into writes.  Whatever the buffers, Write returns,
  and after Finish the file digest is that of all bytes written, the slice
  digests are those of the consecutive slices of the configured size (the last one possibly shorter, none
  empty), the piece hashes are those of the consecutive pieces, and the total is the number of bytes as a 64-bit count.
\<close>

theorem hash_writer_correct:
  "\<exists>hw. writes md5 sha1 (NewHashWriter slice piece) ps = Some hw \<and>
     (let F = Finish md5 sha1 hw; data = concat ps;
          S = (if slice \<le> 0 then DefaultPieceSize else slice); P = (if piece \<le> 0 then DefaultPieceSize else piece)
      in GetFileMD5 md5 F = GetMD5Str md5 data \<and>
         GetSliceMD5s F = map (GetMD5Str md5) (chunks (nat S) data) \<and>
         hw_GetPieceHashes F = concat (map sha1 (chunks (nat P) data)) \<and>
         GetTotalWritten F = wrap64 (int (length data)))"
proof -
  obtain hw where hw: "writes md5 sha1 (NewHashWriter slice piece) ps = Some hw" "hw_inv md5 sha1 hw (concat ps)"
      "sliceSize hw = sliceSize (NewHashWriter slice piece)" "pieceSize hw = pieceSize (NewHashWriter slice piece)"
    using writes_inv [OF new_inv, of md5 sha1 slice piece ps] by auto
  show ?thesis
    using hw(1) Finish_spec [OF hw(2)] hw(3,4)
    by (auto simp: GetFileMD5_def GetMD5Str_def GetSliceMD5s_def hw_GetPieceHashes_def GetTotalWritten_def NewHashWriter_def Let_def)
qed

end
