(* ===== verification/Torrent.thy ===== *)
theory Torrent
  imports Bencode Hash_Writer
begin

text \<open>
  Torrent files with the CAS extension: \<open>pkg/torrent/torrent.go\<close>, \<open>pkg/torrent/generate.go\<close> and the part
  of \<open>pkg/torrent/hash_writer.go\<close> that builds a torrent.  A value is written as a map and read back
  through type assertions; a missing field or one of the wrong type keeps its zero value.
\<close>

section \<open>The model\<close>

record CASInfo =
  FileMD5 :: string
  SliceMD5 :: string
  SliceMD5s :: "string list"
  SliceSize :: int64
  Cloud :: string

record TorrentFile =
  FileLength :: int64
  FilePath :: "string list"
  FileMD5Sum :: string

record TorrentInfo =
  PieceLength :: int64
  Pieces :: string
  TName :: string
  TLength :: int64
  Files :: "TorrentFile list"
  MD5Sum :: string

record Torrent =
  Info :: TorrentInfo
  InfoHash :: string
  Announce :: string
  AnnounceList :: "string list list"
  CreationDate :: int64
  Comment :: string
  CreatedBy :: string
  CAS :: "CASInfo option"

datatype torrent_error = ErrBencode bencode_error | ErrRootNotDict | ErrInfoNotDict | ErrEncodeInfo bencode_error

definition NewTorrent :: "int64 \<Rightarrow> string \<Rightarrow> int64 \<Rightarrow> string \<Rightarrow> Torrent" where
  "NewTorrent now name fileSize md5sum =
     \<lparr>Info = \<lparr>PieceLength = DefaultPieceSize, Pieces = [], TName = name, TLength = fileSize, Files = [], MD5Sum = md5sum\<rparr>,
      InfoHash = [], Announce = [], AnnounceList = [], CreationDate = now,
      Comment = ''Generated by OpenList with CAS extension'', CreatedBy = ''OpenList'', CAS = None\<rparr>"

definition SetPieces :: "Torrent \<Rightarrow> string \<Rightarrow> Torrent" where
  "SetPieces t pieces = t\<lparr>Info := (Info t)\<lparr>Pieces := pieces\<rparr>\<rparr>"

definition SetCASInfo :: "Torrent \<Rightarrow> CASInfo \<Rightarrow> Torrent" where
  "SetCASInfo t cas = t\<lparr>CAS := Some cas\<rparr>"

subsection \<open>Encoding\<close>

definition put_if :: "bool \<Rightarrow> string \<Rightarrow> bval \<Rightarrow> (string \<times> bval) list \<Rightarrow> (string \<times> bval) list" where
  "put_if b k v d = (if b then dict_set k v d else d)"

definition fileDict :: "TorrentFile \<Rightarrow> (string \<times> bval) list" where
  "fileDict f =
     (let d1 = dict_set ''length'' (BInt (FileLength f)) [];
          d2 = dict_set ''path'' (BList (map BStr (FilePath f))) d1
      in put_if (FileMD5Sum f \<noteq> []) ''md5sum'' (BStr (FileMD5Sum f)) d2)"

definition infoDict :: "TorrentInfo \<Rightarrow> (string \<times> bval) list" where
  "infoDict i =
     (let d1 = dict_set ''piece length'' (BInt (PieceLength i)) [];
          d2 = dict_set ''pieces'' (BBytes (Pieces i)) d1;
          d3 = dict_set ''name'' (BStr (TName i)) d2
      in if Files i \<noteq> [] then dict_set ''files'' (BList (map (BDict \<circ> fileDict) (Files i))) d3
         else put_if (MD5Sum i \<noteq> []) ''md5sum'' (BStr (MD5Sum i)) (dict_set ''length'' (BInt (TLength i)) d3))"

definition casDict :: "CASInfo \<Rightarrow> (string \<times> bval) list" where
  "casDict c =
     (let d1 = dict_set ''cloud'' (BStr (Cloud c)) [];
          d2 = dict_set ''file_md5'' (BStr (FileMD5 c)) d1;
          d3 = dict_set ''slice_md5'' (BStr (SliceMD5 c)) d2;
          d4 = dict_set ''slice_size'' (BInt (SliceSize c)) d3
      in put_if (SliceMD5s c \<noteq> []) ''slice_md5s'' (BList (map BStr (SliceMD5s c))) d4)"

definition rootDict :: "Torrent \<Rightarrow> (string \<times> bval) list" where
  "rootDict t =
     (let d1 = put_if (Announce t \<noteq> []) ''announce'' (BStr (Announce t)) [];
          d2 = put_if (AnnounceList t \<noteq> []) ''announce-list'' (BList (map (BList \<circ> map BStr) (AnnounceList t))) d1;
          d3 = put_if (Comment t \<noteq> []) ''comment'' (BStr (Comment t)) d2;
          d4 = put_if (CreatedBy t \<noteq> []) ''created by'' (BStr (CreatedBy t)) d3;
          d5 = put_if (CreationDate t > 0) ''creation date'' (BInt (CreationDate t)) d4;
          d6 = dict_set ''info'' (BDict (infoDict (Info t))) d5
      in case CAS t of None \<Rightarrow> d6 | Some c \<Rightarrow> dict_set ''x-cas'' (BDict (casDict c)) d6)"

definition Encode :: "digest \<Rightarrow> Torrent \<Rightarrow> (torrent_error + string) \<times> Torrent" where
  "Encode sha1 t =
     (case BencodeEncode (BDict (infoDict (Info t))) of
        Inl e \<Rightarrow> (Inl (ErrEncodeInfo e), t)
      | Inr infoBytes \<Rightarrow>
          let t1 = t\<lparr>InfoHash := sha1 infoBytes\<rparr>
          in (map_sum ErrBencode id (BencodeEncode (BDict (rootDict t1))), t1))"

subsection \<open>Decoding\<close>

definition as_bytes :: "bval \<Rightarrow> string option" where
  "as_bytes v = (case v of BBytes b \<Rightarrow> Some b | _ \<Rightarrow> None)"

definition get_bytes :: "(string \<times> bval) list \<Rightarrow> string \<Rightarrow> string" where
  "get_bytes d k = (case map_of d k of Some (BBytes b) \<Rightarrow> b | _ \<Rightarrow> [])"

definition get_int :: "(string \<times> bval) list \<Rightarrow> string \<Rightarrow> int64" where
  "get_int d k = (case map_of d k of Some (BInt n) \<Rightarrow> n | _ \<Rightarrow> 0)"

definition get_list :: "(string \<times> bval) list \<Rightarrow> string \<Rightarrow> bval list" where
  "get_list d k = (case map_of d k of Some (BList l) \<Rightarrow> l | _ \<Rightarrow> [])"

text \<open>The strings of a list, skipping what is not a string.\<close>

definition strings_of :: "bval list \<Rightarrow> string list" where
  "strings_of l = List.map_filter as_bytes l"

definition decodeTier :: "bval \<Rightarrow> string list option" where
  "decodeTier tier =
     (case tier of
        BList tierList \<Rightarrow> (let urls = strings_of tierList in if urls \<noteq> [] then Some urls else None)
      | _ \<Rightarrow> None)"

definition decodeAnnounceList :: "(string \<times> bval) list \<Rightarrow> string list list" where
  "decodeAnnounceList d = List.map_filter decodeTier (get_list d ''announce-list'')"

definition decodeFile :: "bval \<Rightarrow> TorrentFile option" where
  "decodeFile f =
     (case f of
        BDict d \<Rightarrow> Some \<lparr>FileLength = get_int d ''length'', FilePath = strings_of (get_list d ''path''), FileMD5Sum = get_bytes d ''md5sum''\<rparr>
      | _ \<Rightarrow> None)"

definition decodeInfo :: "(string \<times> bval) list \<Rightarrow> TorrentInfo" where
  "decodeInfo d =
     \<lparr>PieceLength = get_int d ''piece length'', Pieces = get_bytes d ''pieces'', TName = get_bytes d ''name'',
      TLength = get_int d ''length'', Files = List.map_filter decodeFile (get_list d ''files''), MD5Sum = get_bytes d ''md5sum''\<rparr>"

definition decodeCAS :: "(string \<times> bval) list \<Rightarrow> CASInfo" where
  "decodeCAS d =
     \<lparr>FileMD5 = get_bytes d ''file_md5'', SliceMD5 = get_bytes d ''slice_md5'', SliceMD5s = strings_of (get_list d ''slice_md5s''),
      SliceSize = get_int d ''slice_size'', Cloud = get_bytes d ''cloud''\<rparr>"

definition zeroInfo :: TorrentInfo where
  "zeroInfo = \<lparr>PieceLength = 0, Pieces = [], TName = [], TLength = 0, Files = [], MD5Sum = []\<rparr>"

definition Decode_root :: "digest \<Rightarrow> (string \<times> bval) list \<Rightarrow> torrent_error + Torrent" where
  "Decode_root sha1 root =
     (let t = \<lparr>Info = zeroInfo, InfoHash = [], Announce = get_bytes root ''announce'', AnnounceList = decodeAnnounceList root,
               CreationDate = get_int root ''creation date'', Comment = get_bytes root ''comment'',
               CreatedBy = get_bytes root ''created by'',
               CAS = (case map_of root ''x-cas'' of Some (BDict d) \<Rightarrow> Some (decodeCAS d) | _ \<Rightarrow> None)\<rparr>
      in case map_of root ''info'' of
           None \<Rightarrow> Inr t
         | Some (BDict d) \<Rightarrow>
             (case BencodeEncode (BDict d) of
                Inl e \<Rightarrow> Inl (ErrEncodeInfo e)
              | Inr infoBytes \<Rightarrow> Inr (t\<lparr>InfoHash := sha1 infoBytes, Info := decodeInfo d\<rparr>))
         | Some _ \<Rightarrow> Inl ErrInfoNotDict)"

definition Decode :: "digest \<Rightarrow> string \<Rightarrow> (torrent_error + Torrent) option" where
  "Decode sha1 data =
     (case BencodeDecode data of
        None \<Rightarrow> None
      | Some (Inl e) \<Rightarrow> Some (Inl (ErrBencode e))
      | Some (Inr (BDict root)) \<Rightarrow> Some (Decode_root sha1 root)
      | Some (Inr _) \<Rightarrow> Some (Inl ErrRootNotDict))"

subsection \<open>Accessors\<close>

definition GetInfoHashHex :: "Torrent \<Rightarrow> string" where
  "GetInfoHashHex t = EncodeToString (InfoHash t)"

definition GetPieceHashes :: "Torrent \<Rightarrow> string list" where
  "GetPieceHashes t = map (\<lambda>i. take 20 (drop (i * 20) (Pieces (Info t)))) [0..<length (Pieces (Info t)) div 20]"

definition GetTotalSize :: "Torrent \<Rightarrow> int64" where
  "GetTotalSize t =
     (if Files (Info t) \<noteq> [] then foldl (\<lambda>total f. wrap64 (total + FileLength f)) 0 (Files (Info t)) else TLength (Info t))"

definition HasCASInfo :: "Torrent \<Rightarrow> bool" where
  "HasCASInfo t = (case CAS t of None \<Rightarrow> False | Some c \<Rightarrow> FileMD5 c \<noteq> [] \<and> SliceMD5 c \<noteq> [])"

definition BuildCASInfoFromMD5s :: "digest \<Rightarrow> string \<Rightarrow> string list \<Rightarrow> int64 \<Rightarrow> CASInfo" where
  "BuildCASInfoFromMD5s md5 fmd5 smd5s slice =
     \<lparr>FileMD5 = fmd5,
      SliceMD5 = (if length smd5s > 1 then ToUpper (GetMD5Str md5 (Join smd5s newline)) else fmd5),
      SliceMD5s = smd5s, SliceSize = slice, Cloud = ''189''\<rparr>"

subsection \<open>Building a torrent from an upload\<close>

definition BuildTorrent :: "digest \<Rightarrow> int64 \<Rightarrow> HashWriter \<Rightarrow> string \<Rightarrow> int64 \<Rightarrow> Torrent" where
  "BuildTorrent md5 now hw fileName fileSize =
     (let fmd5 = GetFileMD5 md5 hw; smd5 = GetSliceMD5 md5 hw fmd5;
          t = SetPieces (NewTorrent now fileName fileSize fmd5) (hw_GetPieceHashes hw)
      in SetCASInfo t \<lparr>FileMD5 = fmd5, SliceMD5 = smd5, SliceMD5s = GetSliceMD5s hw,
           SliceSize = sliceSize hw, Cloud = ''189''\<rparr>)"

definition BuildTorrentBytes :: "digest \<Rightarrow> digest \<Rightarrow> int64 \<Rightarrow> HashWriter \<Rightarrow> string \<Rightarrow> int64 \<Rightarrow> torrent_error + string" where
  "BuildTorrentBytes md5 sha1 now hw fileName fileSize = fst (Encode sha1 (BuildTorrent md5 now hw fileName fileSize))"

text \<open>The read loop of the generators: what a read gives, and at last EOF or another error.\<close>

fun read_loop :: "digest \<Rightarrow> digest \<Rightarrow> (string \<times> io_error option) list \<Rightarrow> HashWriter \<Rightarrow> (io_error + HashWriter) option" where
  "read_loop md5 sha1 [] hw = None"
| "read_loop md5 sha1 ((buf, err) # rs) hw =
     (case (if buf \<noteq> [] then hw_Write md5 sha1 hw buf else Some hw) of
        None \<Rightarrow> None
      | Some hw1 \<Rightarrow>
          (case err of
             None \<Rightarrow> read_loop md5 sha1 rs hw1
           | Some EOF \<Rightarrow> Some (Inr hw1)
           | Some e \<Rightarrow> Some (Inl e)))"

definition GenerateFromReader ::
  "digest \<Rightarrow> digest \<Rightarrow> int64 \<Rightarrow> (string \<times> io_error option) list \<Rightarrow> string \<Rightarrow> int64 \<Rightarrow> int64 \<Rightarrow>
   (io_error + torrent_error + string) option" where
  "GenerateFromReader md5 sha1 now reader fileName fileSize piece0 =
     (let piece = (if piece0 \<le> 0 then DefaultPieceSize else piece0)
      in case read_loop md5 sha1 reader (NewHashWriter piece piece) of
           None \<Rightarrow> None
         | Some (Inl e) \<Rightarrow> Some (Inl e)
         | Some (Inr hw0) \<Rightarrow>
             let hw = Finish md5 sha1 hw0; fmd5 = GetFileMD5 md5 hw; pieces = hw_GetPieceHashes hw;
                 t0 = NewTorrent now fileName fileSize fmd5;
                 t = SetPieces (t0\<lparr>Info := (Info t0)\<lparr>PieceLength := piece\<rparr>\<rparr>) pieces
             in Some (Inr (fst (Encode sha1 t))))"

definition GenerateFromReaderWithCAS ::
  "digest \<Rightarrow> digest \<Rightarrow> int64 \<Rightarrow> (string \<times> io_error option) list \<Rightarrow> string \<Rightarrow> int64 \<Rightarrow> int64 \<Rightarrow>
   (io_error + torrent_error + string) option" where
  "GenerateFromReaderWithCAS md5 sha1 now reader fileName fileSize piece0 =
     (let piece = (if piece0 \<le> 0 then DefaultPieceSize else piece0)
      in case read_loop md5 sha1 reader (NewHashWriter piece piece) of
           None \<Rightarrow> None
         | Some (Inl e) \<Rightarrow> Some (Inl e)
         | Some (Inr hw0) \<Rightarrow>
             let hw = Finish md5 sha1 hw0; fmd5 = GetFileMD5 md5 hw; smd5s = GetSliceMD5s hw; pieces = hw_GetPieceHashes hw;
                 smd5 = (if length smd5s > 1 then ToUpper (GetMD5Str md5 (Join smd5s newline)) else fmd5);
                 t0 = NewTorrent now fileName fileSize fmd5;
                 t1 = SetPieces (t0\<lparr>Info := (Info t0)\<lparr>PieceLength := piece\<rparr>\<rparr>) pieces;
                 t = SetCASInfo t1 \<lparr>FileMD5 = fmd5, SliceMD5 = smd5, SliceMD5s = smd5s, SliceSize = piece, Cloud = ''189''\<rparr>
             in Some (Inr (fst (Encode sha1 t))))"

section \<open>Reading back what was written\<close>

definition decoded_dict :: "(string \<times> bval) list \<Rightarrow> (string \<times> bval) list" where
  "decoded_dict d = map (\<lambda>k. (k, case map_of d k of None \<Rightarrow> BOther | Some v \<Rightarrow> decoded v)) (sort (map fst d))"

lemma decoded_BDict: "decoded (BDict d) = BDict (decoded_dict d)"
  by (simp add: decoded_dict_def)

lemma map_of_decoded_dict [simp]: "map_of (decoded_dict d) k = map_option decoded (map_of d k)"
  by (auto simp: decoded_dict_def map_of_map_restrict restrict_map_def map_of_eq_None_iff split: option.split)

lemma map_filter_map_Some: "List.map_filter f (map g xs) = xs" if "\<And>x. x \<in> set xs \<Longrightarrow> f (g x) = Some x"
  using that by (induction xs) auto

lemma strings_of_BStr [simp]: "strings_of (map (decoded \<circ> BStr) ss) = ss"
  unfolding strings_of_def by (rule map_filter_map_Some) (simp add: as_bytes_def)

lemma get_simps:
  "get_bytes (decoded_dict d) k = (case map_of d k of Some (BStr s) \<Rightarrow> s | Some (BBytes s) \<Rightarrow> s | _ \<Rightarrow> [])"
  "get_int (decoded_dict d) k = (case map_of d k of Some (BInt n) \<Rightarrow> n | _ \<Rightarrow> 0)"
  "get_list (decoded_dict d) k = (case map_of d k of Some (BList l) \<Rightarrow> map decoded l | _ \<Rightarrow> [])"
  by (auto simp: get_bytes_def get_int_def get_list_def split: option.split bval.split)

lemma map_of_put_if [simp]: "map_of (put_if b k v d) a = (if b \<and> a = k then Some v else map_of d a)"
  by (simp add: put_if_def)

lemma decodeFile_fileDict: "decodeFile (decoded (BDict (fileDict f))) = Some f"
  unfolding decoded_BDict decodeFile_def by (simp add: get_simps fileDict_def Let_def)

text \<open>What a torrent keeps: with files the length and digest of the single file go, empty tiers go, and a date before 1970 goes.\<close>

definition stored_info :: "TorrentInfo \<Rightarrow> TorrentInfo" where
  "stored_info i = (if Files i \<noteq> [] then i\<lparr>TLength := 0, MD5Sum := []\<rparr> else i)"

definition stored :: "Torrent \<Rightarrow> Torrent" where
  "stored t = t\<lparr>Info := stored_info (Info t), AnnounceList := filter (\<lambda>u. u \<noteq> []) (AnnounceList t), CreationDate := max 0 (CreationDate t)\<rparr>"

lemma decodeInfo_infoDict: "decodeInfo (decoded_dict (infoDict i)) = stored_info i"
proof -
  have f: "List.map_filter decodeFile (map (decoded \<circ> (BDict \<circ> fileDict)) fs) = fs" for fs
    using decodeFile_fileDict by (intro map_filter_map_Some) simp
  show ?thesis by (simp add: decodeInfo_def get_simps infoDict_def Let_def stored_info_def f)
qed

lemma decodeCAS_casDict: "decodeCAS (decoded_dict (casDict c)) = c"
  by (simp add: decodeCAS_def get_simps casDict_def Let_def strings_of_def [of "[]"])

lemma decodeTier_BStr: "decodeTier (decoded (BList (map BStr us))) = (if us \<noteq> [] then Some us else None)"
  by (simp add: decodeTier_def Let_def)

lemma decodeAnnounceList_tiers:
  "List.map_filter decodeTier (map (decoded \<circ> (BList \<circ> map BStr)) tiers) = filter (\<lambda>u. u \<noteq> []) tiers"
proof (induction tiers)
  case (Cons u tiers)
  then show ?case using decodeTier_BStr [of u] by (simp add: comp_def)
qed simp

section \<open>Round trip\<close>

definition strs_ok :: "string list \<Rightarrow> bool" where
  "strs_ok ss \<longleftrightarrow> (\<forall>s \<in> set ss. length s \<le> max_string)"

definition file_ok :: "TorrentFile \<Rightarrow> bool" where
  "file_ok f \<longleftrightarrow> in_int64 (FileLength f) \<and> strs_ok (FileMD5Sum f # FilePath f)"

definition info_ok :: "TorrentInfo \<Rightarrow> bool" where
  "info_ok i \<longleftrightarrow> in_int64 (PieceLength i) \<and> in_int64 (TLength i) \<and> strs_ok [Pieces i, TName i, MD5Sum i] \<and> (\<forall>f \<in> set (Files i). file_ok f)"

definition cas_ok :: "CASInfo \<Rightarrow> bool" where
  "cas_ok c \<longleftrightarrow> in_int64 (SliceSize c) \<and> strs_ok (FileMD5 c # SliceMD5 c # Cloud c # SliceMD5s c)"

definition torrent_ok :: "Torrent \<Rightarrow> bool" where
  "torrent_ok t \<longleftrightarrow> info_ok (Info t) \<and> in_int64 (CreationDate t) \<and> strs_ok [Announce t, Comment t, CreatedBy t] \<and>
     (\<forall>us \<in> set (AnnounceList t). strs_ok us) \<and> (\<forall>c \<in> set_option (CAS t). cas_ok c)"

lemma snd_dict_set: "snd ` set (dict_set k v d) \<subseteq> insert v (snd ` set d)"
  by (induction k v d rule: dict_set.induct) auto

lemma bval_ok_dict_set [intro!]:
  assumes "length k \<le> max_string" "bval_ok v" "bval_ok (BDict d)"
  shows "bval_ok (BDict (dict_set k v d))"
  unfolding bval_ok.simps
proof (intro conjI ballI)
  show "distinct (map fst (dict_set k v d))" using assms(3) by simp
  show "length a \<le> max_string" if "a \<in> fst ` set (dict_set k v d)" for a
    using that assms unfolding fst_dict_set by auto
  show "bval_ok x" if "x \<in> snd ` set (dict_set k v d)" for x
    using that snd_dict_set [of k v d] assms(2,3) unfolding bval_ok.simps by blast
qed

lemma bval_ok_put_if [intro!]:
  "length k \<le> max_string \<Longrightarrow> bval_ok v \<Longrightarrow> bval_ok (BDict d) \<Longrightarrow> bval_ok (BDict (put_if b k v d))"
  by (cases b) (simp_all only: put_if_def if_True if_False bval_ok_dict_set)

lemma key_ok: "length k \<le> 1000 \<Longrightarrow> length k \<le> max_string"
  by (simp add: max_string_def)

lemma bval_ok_strs: "bval_ok (BList (map BStr ss)) = strs_ok ss"
  by (simp add: strs_ok_def)

lemma bval_ok_empty: "bval_ok (BDict [])"
  by simp

lemmas dict_ok = bval_ok_dict_set [OF key_ok] bval_ok_put_if [OF key_ok] bval_ok_empty

lemma fileDict_ok: "file_ok f \<Longrightarrow> bval_ok (BDict (fileDict f))"
  unfolding fileDict_def Let_def file_ok_def
  by (intro dict_ok) (auto simp: strs_ok_def)

lemma infoDict_ok: "info_ok i \<Longrightarrow> bval_ok (BDict (infoDict i))"
  unfolding infoDict_def Let_def info_ok_def if_split [of "\<lambda>d. bval_ok (BDict d)"]
  by (intro conjI impI dict_ok) (auto simp: strs_ok_def fileDict_ok simp del: bval_ok.simps(5))

lemma casDict_ok: "cas_ok c \<Longrightarrow> bval_ok (BDict (casDict c))"
  unfolding casDict_def Let_def cas_ok_def
  by (intro dict_ok) (auto simp: strs_ok_def)

lemma rootDict_ok:
  assumes "torrent_ok t"
  shows "bval_ok (BDict (rootDict t))"
proof -
  have i: "bval_ok (BDict (infoDict (Info t)))" using assms infoDict_ok unfolding torrent_ok_def by blast
  have c: "bval_ok (BDict (casDict c))" if "CAS t = Some c" for c using assms casDict_ok that unfolding torrent_ok_def by auto
  have l: "bval_ok (BList (map (BList \<circ> map BStr) (AnnounceList t)))" using assms by (auto simp: torrent_ok_def strs_ok_def)
  have s: "length (Announce t) \<le> max_string" "length (Comment t) \<le> max_string" "length (CreatedBy t) \<le> max_string" "in_int64 (CreationDate t)"
    using assms by (auto simp: torrent_ok_def strs_ok_def)
  show ?thesis
  proof (cases "CAS t")
    case None
    show ?thesis unfolding rootDict_def Let_def None option.case
      by (intro dict_ok i l) (simp_all add: s)
  next
    case (Some x)
    show ?thesis unfolding rootDict_def Let_def Some option.case
      by (intro dict_ok i l c [OF Some]) (simp_all add: s)
  qed
qed

text \<open>What the keys of the written root dictionary hold.\<close>

lemma rootDict_keys:
  "map_of (rootDict t) ''announce'' = (if Announce t = [] then None else Some (BStr (Announce t)))"
  "map_of (rootDict t) ''announce-list'' = (if AnnounceList t = [] then None else Some (BList (map (BList \<circ> map BStr) (AnnounceList t))))"
  "map_of (rootDict t) ''comment'' = (if Comment t = [] then None else Some (BStr (Comment t)))"
  "map_of (rootDict t) ''created by'' = (if CreatedBy t = [] then None else Some (BStr (CreatedBy t)))"
  "map_of (rootDict t) ''creation date'' = (if CreationDate t > 0 then Some (BInt (CreationDate t)) else None)"
  "map_of (rootDict t) ''info'' = Some (BDict (infoDict (Info t)))"
  "map_of (rootDict t) ''x-cas'' = map_option (BDict \<circ> casDict) (CAS t)"
  by (auto simp: rootDict_def Let_def split: option.split)

lemma Decode_root_rootDict:
  assumes "BencodeEncode (BDict (decoded_dict (infoDict (Info t)))) = Inr b"
  shows "Decode_root sha1 (decoded_dict (rootDict t)) = Inr (stored (t\<lparr>InfoHash := sha1 b\<rparr>))"
proof -
  have "(case map_of (decoded_dict (rootDict t)) ''x-cas'' of Some (BDict d) \<Rightarrow> Some (decodeCAS d) | _ \<Rightarrow> None) = CAS t"
    by (cases "CAS t") (simp_all add: rootDict_keys decoded_BDict decodeCAS_casDict del: decoded.simps(5))
  moreover have "decodeAnnounceList (decoded_dict (rootDict t)) = filter (\<lambda>u. u \<noteq> []) (AnnounceList t)"
    by (simp add: decodeAnnounceList_def get_simps rootDict_keys decodeAnnounceList_tiers)
  moreover have "map_of (decoded_dict (rootDict t)) ''info'' = Some (BDict (decoded_dict (infoDict (Info t))))"
    by (simp add: rootDict_keys decoded_BDict del: decoded.simps(5))
  ultimately show ?thesis using assms
    by (simp add: Decode_root_def Let_def stored_def decodeInfo_infoDict get_simps rootDict_keys)
qed

lemma Encode_Decode:
  assumes "torrent_ok t"
  shows "\<exists>bytes b. BencodeEncode (BDict (infoDict (Info t))) = Inr b \<and> Encode sha1 t = (Inr bytes, t\<lparr>InfoHash := sha1 b\<rparr>) \<and>
    Decode sha1 (bytes @ rest) = Some (Inr (stored (t\<lparr>InfoHash := sha1 b\<rparr>)))"
proof -
  have i: "bval_ok (BDict (infoDict (Info t)))" using assms infoDict_ok unfolding torrent_ok_def by blast
  obtain b where b: "bencodeEncodeValue (BDict (infoDict (Info t))) = Inr b" using encode_reads [OF i] by blast
  let ?t = "t\<lparr>InfoHash := sha1 b\<rparr>"
  have r: "bval_ok (BDict (rootDict ?t))" by (rule rootDict_ok) (use assms in \<open>simp add: torrent_ok_def\<close>)
  obtain s where s: "bencodeEncodeValue (BDict (rootDict ?t)) = Inr s" "reads s (decoded (BDict (rootDict ?t)))"
    using encode_reads [OF r] by blast
  have "Encode sha1 t = (Inr s, ?t)" using b s(1) by (simp add: Encode_def BencodeEncode_def Let_def del: bencodeEncodeValue.simps)
  moreover have "bencodeDecodeValue (2 * length (s @ rest) + 2) (s @ rest) = Some (Inr (decoded (BDict (rootDict ?t)), rest))"
    using s(2) unfolding reads_def by (metis add_le_mono le_add1 length_append mult_le_mono2 one_le_numeral)
  then have "Decode sha1 (s @ rest) = Some (Decode_root sha1 (decoded_dict (rootDict ?t)))"
    unfolding Decode_def BencodeDecode_def decoded_BDict by simp
  moreover have "BencodeEncode (BDict (decoded_dict (infoDict (Info ?t)))) = Inr b"
    using encode_decoded [OF i] b unfolding decoded_BDict BencodeEncode_def by simp
  ultimately show ?thesis using b Decode_root_rootDict [of ?t b sha1] unfolding BencodeEncode_def by auto
qed

section \<open>Generated torrents\<close>

lemma read_loop_all:
  assumes "hw_inv md5 sha1 hw data" "\<And>x. x \<in> set rs \<Longrightarrow> snd x = None"
  shows "\<exists>hw1. read_loop md5 sha1 (rs @ [(b, Some EOF)]) hw = Some (Inr hw1) \<and> hw_inv md5 sha1 hw1 (data @ concat (map fst rs) @ b) \<and>
    sliceSize hw1 = sliceSize hw \<and> pieceSize hw1 = pieceSize hw"
  using assms
proof (induction rs arbitrary: hw data)
  case Nil
  then show ?case using hw_Write_inv [OF Nil(1), of b] by (cases "b = []") auto
next
  case (Cons r rs)
  obtain x where r: "r = (x, None)" using Cons.prems(2) [of r] by (cases r) auto
  obtain hw1 where w: "(if x \<noteq> [] then hw_Write md5 sha1 hw x else Some hw) = Some hw1" "hw_inv md5 sha1 hw1 (data @ x)"
      "sliceSize hw1 = sliceSize hw" "pieceSize hw1 = pieceSize hw"
    using hw_Write_inv [OF Cons.prems(1), of x] Cons.prems(1) by (cases "x = []") auto
  show ?case using Cons.IH [OF w(2)] Cons.prems(2) w r by auto
qed

lemma concat_equal_length:
  assumes "\<And>x. x \<in> set xs \<Longrightarrow> length x = n" "0 < n"
  shows "length (concat xs) = n * length xs" "i < length xs \<Longrightarrow> take n (drop (i * n) (concat xs)) = xs ! i"
proof -
  show "length (concat xs) = n * length xs" using assms(1) by (induction xs) auto
  show "take n (drop (i * n) (concat xs)) = xs ! i" if "i < length xs"
    using assms(1) that
  proof (induction xs arbitrary: i)
    case (Cons x xs)
    then show ?case by (cases i) auto
  qed simp
qed

lemma GetPieceHashes_concat:
  assumes "\<And>x. length (sha1 x) = 20" "Pieces (Info t) = concat (map sha1 cs)"
  shows "GetPieceHashes t = map sha1 cs"
proof -
  have e: "length x = 20" if "x \<in> set (map sha1 cs)" for x using that assms(1) by auto
  have "take 20 (drop (i * 20) (concat (map sha1 cs))) = sha1 (cs ! i)" if "i < length cs" for i
    using concat_equal_length(2) [of "map sha1 cs" 20 i] e that by simp
  moreover have "length (concat (map sha1 cs)) = 20 * length cs" using concat_equal_length(1) [of "map sha1 cs" 20] e by simp
  ultimately show ?thesis by (auto simp: GetPieceHashes_def assms(2) intro!: nth_equalityI)
qed

lemma length_hex [simp]: "length (EncodeToString s) = 2 * length s"
  unfolding EncodeToString_def by (induction s) auto

lemma length_ToUpper [simp]: "length (ToUpper s) = length s"
  by (simp add: ToUpper_def)

lemma length_GetMD5Str: "(\<And>x. length (md5 x) = 16) \<Longrightarrow> length (GetMD5Str md5 s) = 32"
  by (simp add: GetMD5Str_def)

section \<open>Properties\<close>

text \<open>Torrent round trip.  A torrent whose numbers fit 64 bits and whose strings are at most 100 MiB long is encoded
  without an error, which also sets its info hash, and decoding the bytes gives the
  same torrent back, info hash included; only what the format does not hold is lost: the single-file length and
  digest of a torrent with files, empty announce tiers, and a creation date before 1970.
\<close>

theorem torrent_roundtrip:
  assumes "torrent_ok t"
  shows "\<exists>bytes t1. Encode sha1 t = (Inr bytes, t1) \<and> t1 = t\<lparr>InfoHash := InfoHash t1\<rparr> \<and> Decode sha1 (bytes @ rest) = Some (Inr (stored t1))"
  using Encode_Decode [OF assms, of sha1 rest] by (elim exE conjE) auto

theorem torrent_roundtrip_witness:
  "\<exists>bytes t1. Encode id (NewTorrent 5 ''a.bin'' 3 ''ABC'') = (Inr bytes, t1) \<and>
     t1 = (NewTorrent 5 ''a.bin'' 3 ''ABC'')\<lparr>InfoHash := InfoHash t1\<rparr> \<and> Decode id (bytes @ []) = Some (Inr (stored t1))"
  by (rule torrent_roundtrip)
    (simp add: NewTorrent_def torrent_ok_def info_ok_def strs_ok_def max_string_def int64_defs DefaultPieceSize_def)

text \<open>A generated torrent describes the file it was generated from.  For every reader that delivers its bytes in any
  portions and then EOF, the generator returns a torrent that decodes to: the given name and size, the
  effective piece length, the SHA-1 hashes of exactly the consecutive pieces of the data, the digest of all of it, and a CAS
  record with the digests of the slices and the summary digest that the rapid-upload protocol expects.
\<close>

theorem generated_torrent_correct:
  fixes b :: string and piece0 :: int64
  assumes "\<And>x. length (md5 x) = 16" "\<And>x. length (sha1 x) = 20" "\<forall>r \<in> set rs. snd r = None"
    and "in_int64 now" "in_int64 fileSize" "in_int64 piece0" "length fileName \<le> max_string"
  defines "data \<equiv> concat (map fst rs) @ b" and "piece \<equiv> (if piece0 \<le> 0 then DefaultPieceSize else piece0)"
  assumes "20 * length (chunks (nat piece) data) \<le> max_string"
  shows "\<exists>bytes t. GenerateFromReaderWithCAS md5 sha1 now (rs @ [(b, Some EOF)]) fileName fileSize piece0 = Some (Inr (Inr bytes)) \<and>
    Decode sha1 bytes = Some (Inr t) \<and> TName (Info t) = fileName \<and> TLength (Info t) = fileSize \<and> PieceLength (Info t) = piece \<and>
    GetPieceHashes t = map sha1 (chunks (nat piece) data) \<and> MD5Sum (Info t) = GetMD5Str md5 data \<and>
    CAS t = Some (BuildCASInfoFromMD5s md5 (GetMD5Str md5 data) (map (GetMD5Str md5) (chunks (nat piece) data)) piece)"
proof -
  let ?h = "NewHashWriter piece piece" and ?cs = "chunks (nat piece) data" and ?m = "GetMD5Str md5 data"
  have pos: "0 < piece" "in_int64 piece" using assms(6) by (auto simp: piece_def DefaultPieceSize_def int64_defs)
  obtain hw where hw: "read_loop md5 sha1 (rs @ [(b, Some EOF)]) ?h = Some (Inr hw)" "hw_inv md5 sha1 hw data"
      "sliceSize hw = piece" "pieceSize hw = piece"
    using read_loop_all [OF new_inv [of md5 sha1 piece piece], of rs b] assms(3) pos by (auto simp: data_def NewHashWriter_def)
  note F = Finish_spec [OF hw(2), unfolded hw(3,4)]
  define cas where "cas = BuildCASInfoFromMD5s md5 ?m (map (GetMD5Str md5) ?cs) piece"
  define t where "t = (NewTorrent now fileName fileSize ?m)\<lparr>Info := \<lparr>PieceLength = piece, Pieces = concat (map sha1 ?cs), TName = fileName,
      TLength = fileSize, Files = [], MD5Sum = ?m\<rparr>, CAS := Some cas\<rparr>"
  have gen: "GenerateFromReaderWithCAS md5 sha1 now (rs @ [(b, Some EOF)]) fileName fileSize piece0 = Some (Inr (fst (Encode sha1 t)))"
    using hw(1) F
    by (simp add: GenerateFromReaderWithCAS_def piece_def [symmetric] Let_def t_def cas_def BuildCASInfoFromMD5s_def SetCASInfo_def SetPieces_def
        NewTorrent_def GetFileMD5_def GetMD5Str_def GetSliceMD5s_def hw_GetPieceHashes_def)
  have len: "length (GetMD5Str md5 x) = 32" "length (concat (map sha1 ?cs)) \<le> max_string" for x
  proof -
    show "length (GetMD5Str md5 x) = 32" by (rule length_GetMD5Str [OF assms(1)])
    have "length (concat (map sha1 ?cs)) = 20 * length (map sha1 ?cs)"
      by (rule concat_equal_length(1)) (use assms(2) in auto)
    then show "length (concat (map sha1 ?cs)) \<le> max_string" using assms(10) by simp
  qed
  have "torrent_ok t" unfolding torrent_ok_def info_ok_def cas_ok_def strs_ok_def
    using len assms(4-7) pos(2)
    by (auto simp: t_def cas_def BuildCASInfoFromMD5s_def NewTorrent_def max_string_def)
  then obtain bytes h where e: "Encode sha1 t = (Inr bytes, t\<lparr>InfoHash := h\<rparr>)" "Decode sha1 bytes = Some (Inr (stored (t\<lparr>InfoHash := h\<rparr>)))"
    using Encode_Decode [of t sha1 "[]"] by auto
  have "GetPieceHashes (stored (t\<lparr>InfoHash := h\<rparr>)) = map sha1 ?cs"
    by (rule GetPieceHashes_concat [OF assms(2)]) (simp add: stored_def stored_info_def t_def)
  then show ?thesis using gen e by (auto simp: stored_def stored_info_def t_def cas_def)
qed

theorem generated_torrent_correct_witness:
  "\<exists>bytes t. GenerateFromReaderWithCAS (\<lambda>_. replicate 16 (CHR ''m'')) (\<lambda>x. replicate 20 (CHR ''s'')) 5 ([(''ab'', None)] @ [(''c'', Some EOF)]) ''f'' 3 2 =
      Some (Inr (Inr bytes)) \<and> Decode (\<lambda>x. replicate 20 (CHR ''s'')) bytes = Some (Inr t) \<and> TName (Info t) = ''f'' \<and>
    GetPieceHashes t = [replicate 20 (CHR ''s''), replicate 20 (CHR ''s'')]"
proof -
  have "chunks (nat 2) ''abc'' = [''ab'', ''c'']" by (simp add: chunks.simps)
  then show ?thesis
    using generated_torrent_correct [of "\<lambda>_. replicate 16 (CHR ''m'')" "\<lambda>x. replicate 20 (CHR ''s'')" "[(''ab'', None)]" 5 3 2 "''f''" "''c''"]
    by (auto simp: max_string_def int64_defs)
qed

end
