(* ===== verification/Webdav_If.thy ===== *)
theory Webdav_If
  imports Webdav_Lock
begin

text \<open>
  The parser of the WebDAV If header: \<open>server/webdav/if.go\<close>.  \<open>None\<close> is the result with \<open>ok\<close> false.
  Every loop consumes input, which is what its termination proof rests on.
\<close>

section \<open>The model\<close>

record ifList =
  resourceTag :: string
  conditions :: "Condition list"

datatype token_type = errToken | eofToken | strToken | notToken | angleToken | squareToken | charToken char

definition lex_stop :: "char \<Rightarrow> bool" where
  "lex_stop c \<longleftrightarrow> c = CHR 0x09 \<or> c \<in> set '' ()<>[]''"

definition lex_delimited :: "char \<Rightarrow> token_type \<Rightarrow> string \<Rightarrow> token_type \<times> string \<times> string" where
  "lex_delimited c ty s =
     (case Index s [c] of None \<Rightarrow> (errToken, [], []) | Some j \<Rightarrow> (ty, drop 1 (take j s), drop (j + 1) s))"

definition lex :: "string \<Rightarrow> token_type \<times> string \<times> string" where
  "lex s0 =
     (let s = dropWhile (\<lambda>c. c = CHR 0x09 \<or> c = CHR '' '') s0
      in if s = [] then (eofToken, [], [])
         else let i = length (takeWhile (\<lambda>c. \<not> lex_stop c) s)
              in if i \<noteq> 0
                 then if take i s = ''Not'' then (notToken, [], drop i s) else (strToken, take i s, drop i s)
                 else if hd s = CHR ''<'' then lex_delimited (CHR ''>'') angleToken s
                 else if hd s = CHR ''['' then lex_delimited (CHR '']'') squareToken s
                 else (charToken (hd s), [], drop 1 s))"

definition parseCondition :: "string \<Rightarrow> (Condition \<times> string) option" where
  "parseCondition s0 =
     (let (ty0, str0, s1) = lex s0;
          (neg, ty, str, s) = (if ty0 = notToken then (True, lex s1) else (False, ty0, str0, s1))
      in case ty of
           strToken \<Rightarrow> Some (\<lparr>NotC = neg, Token = str, ETag = []\<rparr>, s)
         | angleToken \<Rightarrow> Some (\<lparr>NotC = neg, Token = str, ETag = []\<rparr>, s)
         | squareToken \<Rightarrow> Some (\<lparr>NotC = neg, Token = [], ETag = str\<rparr>, s)
         | _ \<Rightarrow> None)"

lemma lex_shorter:
  assumes "lex s0 = (ty, str, r)" "ty \<noteq> eofToken" "ty \<noteq> errToken"
  shows "length r < length s0"
proof -
  define s where "s = dropWhile (\<lambda>c. c = CHR 0x09 \<or> c = CHR '' '') s0"
  have ne: "s \<noteq> []"
  proof
    assume "s = []"
    then have "lex s0 = (eofToken, [], [])" by (simp add: lex_def s_def)
    then show False using assms by simp
  qed
  have d: "length (drop (j + 1) s) < length s" for j using ne by (cases s) auto
  have "length r < length s"
    using assms(1) ne d [of 0] unfolding lex_def s_def [symmetric] Let_def lex_delimited_def
    by (auto split: if_splits option.splits simp: assms(3))
  then show ?thesis using length_dropWhile_le [of "\<lambda>c. c = CHR 0x09 \<or> c = CHR '' ''" s0] by (simp add: s_def)
qed

lemma parseCondition_shorter: "parseCondition s = Some (c, r) \<Longrightarrow> length r < length s"
  by (auto simp: parseCondition_def Let_def split: prod.splits if_splits token_type.splits dest!: lex_shorter)

text \<open>The loop of \<open>parseList\<close>, with the conditions collected so far.\<close>

function list_loop :: "Condition list \<Rightarrow> string \<Rightarrow> (Condition list \<times> string) option" where
  "list_loop acc s =
     (case lex s of
        (ty, _, remaining) \<Rightarrow>
          if ty = charToken (CHR '')'') then if acc = [] then None else Some (acc, remaining)
          else case parseCondition s of None \<Rightarrow> None | Some (c, rest) \<Rightarrow> list_loop (acc @ [c]) rest)"
  by pat_completeness auto
termination list_loop
  by (relation "measure (\<lambda>(acc, s). length s)") (auto dest: parseCondition_shorter)

declare list_loop.simps [simp del]

definition parseList :: "string \<Rightarrow> (ifList \<times> string) option" where
  "parseList s0 =
     (case lex s0 of
        (ty, _, s) \<Rightarrow>
          if ty \<noteq> charToken (CHR ''('') then None
          else case list_loop [] s of None \<Rightarrow> None | Some (cs, r) \<Rightarrow> Some (\<lparr>resourceTag = [], conditions = cs\<rparr>, r))"

lemma list_loop_shorter: "list_loop acc s = Some (cs, r) \<Longrightarrow> length r < length s"
proof (induction acc s rule: list_loop.induct)
  case (1 acc s)
  obtain ty u rem where l: "lex s = (ty, u, rem)" by (cases "lex s")
  show ?case
  proof (cases "ty = charToken (CHR '')'')")
    case True
    then show ?thesis using 1(2) l lex_shorter [OF l] by (auto simp: list_loop.simps [of acc s] split: if_splits)
  next
    case False
    then obtain c rest where c: "parseCondition s = Some (c, rest)" "list_loop (acc @ [c]) rest = Some (cs, r)"
      using 1(2) l by (auto simp: list_loop.simps [of acc s] split: option.splits)
    have "length r < length rest" using 1(1) [OF l [symmetric] refl False c(1) refl c(2)] .
    then show ?thesis using parseCondition_shorter [OF c(1)] by simp
  qed
qed

lemma parseList_shorter: "parseList s = Some (l, r) \<Longrightarrow> length r < length s"
  by (auto simp: parseList_def split: prod.splits if_splits option.splits dest!: list_loop_shorter lex_shorter)

function noTag_loop :: "ifList list \<Rightarrow> string \<Rightarrow> ifList list option" where
  "noTag_loop acc s =
     (case parseList s of
        None \<Rightarrow> None
      | Some (l, remaining) \<Rightarrow> if remaining = [] then Some (acc @ [l]) else noTag_loop (acc @ [l]) remaining)"
  by pat_completeness auto
termination noTag_loop
  by (relation "measure (\<lambda>(acc, s). length s)") (auto dest: parseList_shorter)

declare noTag_loop.simps [simp del]

definition parseNoTagLists :: "string \<Rightarrow> ifList list option" where
  "parseNoTagLists s = noTag_loop [] s"

function tagged_loop :: "bool \<Rightarrow> string \<Rightarrow> nat \<Rightarrow> ifList list \<Rightarrow> string \<Rightarrow> ifList list option" where
  "tagged_loop first tag n acc s =
     (case lex s of
        (ty, str, remaining) \<Rightarrow>
          if ty = angleToken
          then if \<not> first \<and> n = 0 then None else tagged_loop False str 0 acc remaining
          else if ty = charToken (CHR ''('')
          then case parseList s of
                 None \<Rightarrow> None
               | Some (l, rest) \<Rightarrow>
                   if rest = [] then Some (acc @ [l\<lparr>resourceTag := tag\<rparr>])
                   else tagged_loop False tag (n + 1) (acc @ [l\<lparr>resourceTag := tag\<rparr>]) rest
          else None)"
  by pat_completeness auto
termination tagged_loop
  by (relation "measure (\<lambda>(first, tag, n, acc, s). length s)") (auto dest: parseList_shorter lex_shorter [OF sym])

declare tagged_loop.simps [simp del]

definition parseTaggedLists :: "string \<Rightarrow> ifList list option" where
  "parseTaggedLists s = tagged_loop True [] 0 [] s"

definition parseIfHeader :: "string \<Rightarrow> ifList list option" where
  "parseIfHeader httpHeader =
     (let s = TrimSpace httpHeader
      in case lex s of
           (ty, _, _) \<Rightarrow>
             if ty = charToken (CHR ''('') then parseNoTagLists s
             else if ty = angleToken then parseTaggedLists s
             else None)"

section \<open>The grammar of the header\<close>

text \<open>
  The grammar of RFC 4918, section 10.4.2, as relations between what is said and the text: a header is one or more lists,
  or one or more resource tags with one or more lists each; a list is one or more conditions in parentheses; a condition is
  a state token or an entity tag, perhaps negated.  Blanks may stand in front of every token.  An entity tag with a
  closing bracket inside has no text here.
\<close>

definition blanks :: "string \<Rightarrow> bool" where
  "blanks b \<longleftrightarrow> list_all (\<lambda>c. c = CHR 0x09 \<or> c = CHR '' '') b"

inductive condition_text :: "Condition \<Rightarrow> string \<Rightarrow> bool" where
  state_token: "blanks b \<Longrightarrow> CHR ''>'' \<notin> set t \<Longrightarrow> condition_text \<lparr>NotC = False, Token = t, ETag = []\<rparr> (b @ ''<'' @ t @ ''>'')"
| entity_tag: "blanks b \<Longrightarrow> CHR '']'' \<notin> set e \<Longrightarrow> condition_text \<lparr>NotC = False, Token = [], ETag = e\<rparr> (b @ ''['' @ e @ '']'')"
| negated: "blanks b \<Longrightarrow> condition_text c s \<Longrightarrow> \<not> NotC c \<Longrightarrow> condition_text (c\<lparr>NotC := True\<rparr>) (b @ ''Not'' @ s)"

inductive conditions_text :: "Condition list \<Rightarrow> string \<Rightarrow> bool" where
  no_condition: "conditions_text [] []"
| condition: "condition_text c s \<Longrightarrow> conditions_text cs t \<Longrightarrow> conditions_text (c # cs) (s @ t)"

inductive list_text :: "ifList \<Rightarrow> string \<Rightarrow> bool" where
  list_text: "blanks b \<Longrightarrow> conditions_text (conditions l) s \<Longrightarrow> conditions l \<noteq> [] \<Longrightarrow> blanks b' \<Longrightarrow>
    list_text l (b @ ''('' @ s @ b' @ '')'')"

text \<open>Lists without resource tags, the lists that follow one resource tag, and the whole sequence of resource tags.\<close>

inductive no_tag_text :: "ifList list \<Rightarrow> string \<Rightarrow> bool" where
  one_list: "list_text l s \<Longrightarrow> resourceTag l = [] \<Longrightarrow> no_tag_text [l] s"
| more_lists: "list_text l s \<Longrightarrow> resourceTag l = [] \<Longrightarrow> no_tag_text ls t \<Longrightarrow> no_tag_text (l # ls) (s @ t)"

inductive lists_of_tag :: "string \<Rightarrow> ifList list \<Rightarrow> string \<Rightarrow> bool" where
  one_of_tag: "list_text l s \<Longrightarrow> resourceTag l = tag \<Longrightarrow> lists_of_tag tag [l] s"
| more_of_tag: "list_text l s \<Longrightarrow> resourceTag l = tag \<Longrightarrow> lists_of_tag tag ls t \<Longrightarrow> lists_of_tag tag (l # ls) (s @ t)"

inductive tagged_text :: "ifList list \<Rightarrow> string \<Rightarrow> bool" where
  one_tag: "blanks b \<Longrightarrow> CHR ''>'' \<notin> set tag \<Longrightarrow> lists_of_tag tag ls s \<Longrightarrow> tagged_text ls (b @ ''<'' @ tag @ ''>'' @ s)"
| more_tags: "blanks b \<Longrightarrow> CHR ''>'' \<notin> set tag \<Longrightarrow> lists_of_tag tag ls s \<Longrightarrow> tagged_text ls' t \<Longrightarrow>
    tagged_text (ls @ ls') (b @ ''<'' @ tag @ ''>'' @ s @ t)"

section \<open>What is written is read\<close>

lemma Index_delim: "c \<notin> set t \<Longrightarrow> a \<noteq> c \<Longrightarrow> Index (a # t @ c # r) [c] = Some (length t + 1)"
  by (induction t) (auto simp: Index_single)

lemma lex_angle: "CHR ''>'' \<notin> set t \<Longrightarrow> lex (CHR ''<'' # t @ CHR ''>'' # r) = (angleToken, t, r)"
  using Index_delim [of "CHR ''>''" t "CHR ''<''" r] by (simp add: lex_def lex_stop_def Let_def lex_delimited_def)

lemma lex_square: "CHR '']'' \<notin> set t \<Longrightarrow> lex (CHR ''['' # t @ CHR '']'' # r) = (squareToken, t, r)"
  using Index_delim [of "CHR '']''" t "CHR ''[''" r] by (simp add: lex_def lex_stop_def Let_def lex_delimited_def)

lemma lex_paren: "lex (CHR ''('' # r) = (charToken (CHR ''(''), [], r)" "lex (CHR '')'' # r) = (charToken (CHR '')''), [], r)"
  by (simp_all add: lex_def lex_stop_def Let_def)

lemma lex_blanks: "blanks b \<Longrightarrow> lex (b @ r) = lex r"
  by (induction b) (auto simp: lex_def blanks_def)

lemma lex_Not: "r \<noteq> [] \<Longrightarrow> lex_stop (hd r) \<Longrightarrow> lex (''Not'' @ r) = (notToken, [], r)"
  by (cases r) (auto simp: lex_def lex_stop_def Let_def)

text \<open>The parsers look at their input through \<open>lex\<close> alone, so blanks in front change nothing.\<close>

lemma parseCondition_blanks: "blanks b \<Longrightarrow> parseCondition (b @ s) = parseCondition s"
  by (simp add: parseCondition_def lex_blanks)

lemma list_loop_blanks: "blanks b \<Longrightarrow> list_loop acc (b @ s) = list_loop acc s"
  unfolding list_loop.simps [of acc "b @ s"] list_loop.simps [of acc s] by (simp only: lex_blanks parseCondition_blanks)

lemma parseList_blanks: "blanks b \<Longrightarrow> parseList (b @ s) = parseList s"
  by (simp add: parseList_def lex_blanks)

lemma noTag_loop_blanks: "blanks b \<Longrightarrow> noTag_loop acc (b @ s) = noTag_loop acc s"
  by (simp add: noTag_loop.simps [of acc "b @ s"] noTag_loop.simps [of acc s] parseList_blanks)

lemma tagged_loop_blanks: "blanks b \<Longrightarrow> tagged_loop first tag n acc (b @ s) = tagged_loop first tag n acc s"
  unfolding tagged_loop.simps [of first tag n acc "b @ s"] tagged_loop.simps [of first tag n acc s] by (simp only: lex_blanks parseList_blanks)

lemma blanks_stop: "blanks b \<Longrightarrow> lex_stop c \<Longrightarrow> lex_stop (hd (b @ c # r))"
  by (cases b) (auto simp: blanks_def lex_stop_def)

lemma condition_text_read:
  assumes "condition_text c s"
  shows "parseCondition (s @ r) = Some (c, r) \<and> fst (lex (s @ r)) \<in> {notToken, angleToken, squareToken} \<and>
    s \<noteq> [] \<and> (\<not> NotC c \<longrightarrow> lex_stop (hd (s @ r)) \<and> fst (lex (s @ r)) \<noteq> notToken)"
  using assms
proof (induction rule: condition_text.induct)
  case (state_token b t)
  then show ?case using blanks_stop [of b "CHR ''<''" "t @ ''>'' @ r"] by (simp add: lex_blanks lex_angle parseCondition_def Let_def lex_stop_def)
next
  case (entity_tag b e)
  then show ?case using blanks_stop [of b "CHR ''[''" "e @ '']'' @ r"] by (simp add: lex_blanks lex_square parseCondition_def Let_def lex_stop_def)
next
  case (negated b c s)
  have l: "lex ((b @ ''Not'' @ s) @ r) = (notToken, [], s @ r)"
    using negated lex_Not [of "s @ r"] lex_blanks [of b "''Not'' @ s @ r"] by (simp del: hd_append2)
  have p: "parseCondition (s @ r) = Some (c, r)" "fst (lex (s @ r)) \<noteq> notToken" using negated by simp_all
  then show ?case unfolding parseCondition_def l by (cases c) (auto simp: parseCondition_def Let_def split: prod.splits token_type.splits)
qed

lemma conditions_text_read:
  assumes "conditions_text cs s" "acc @ cs \<noteq> []" "blanks b"
  shows "list_loop acc (s @ b @ CHR '')'' # r) = Some (acc @ cs, r)"
  using assms
proof (induction arbitrary: acc rule: conditions_text.induct)
  case no_condition
  then show ?case by (simp add: list_loop_blanks list_loop.simps [of acc "CHR '')'' # r"] lex_paren)
next
  case (condition c s cs t)
  let ?r = "t @ b @ CHR '')'' # r"
  have "list_loop acc (s @ ?r) = list_loop (acc @ [c]) ?r"
    using condition_text_read [OF condition.hyps(1), of ?r] by (subst list_loop.simps) (auto split: prod.split)
  then show ?case using condition.IH [of "acc @ [c]"] condition.prems by simp
qed

lemma list_text_read: "list_text l s \<Longrightarrow> parseList (s @ r) = Some (l\<lparr>resourceTag := []\<rparr>, r)"
proof (induction rule: list_text.induct)
  case (list_text b l s b')
  then show ?case using conditions_text_read [OF list_text(2) _ list_text(4), of "[]" r]
    by (cases l) (simp add: parseList_def lex_blanks lex_paren)
qed

lemma list_text_shape: "list_text l s \<Longrightarrow> \<exists>b t. blanks b \<and> s = b @ ''('' @ t @ '')''"
  by (induction rule: list_text.induct) (metis append_assoc)

lemma list_text_lex: "list_text l s \<Longrightarrow> fst (lex (s @ r)) = charToken (CHR ''('')"
  by (induction rule: list_text.induct) (simp add: lex_blanks lex_paren)

lemma list_text_neq_Nil: "list_text l s \<Longrightarrow> s \<noteq> []"
  using list_text_shape by fastforce

lemma own_tag: "resourceTag l = t \<Longrightarrow> l\<lparr>resourceTag := t\<rparr> = l"
  by auto

lemma no_tag_text_read: "no_tag_text ls s \<Longrightarrow> s \<noteq> [] \<and> noTag_loop acc s = Some (acc @ ls)"
proof (induction arbitrary: acc rule: no_tag_text.induct)
  case (one_list l s)
  then show ?case using list_text_read [OF one_list(1), of "[]"] list_text_neq_Nil [OF one_list(1)] own_tag [OF one_list(2)]
    by (simp add: noTag_loop.simps [of acc s])
next
  case (more_lists l s ls t)
  then show ?case using list_text_read [OF more_lists(1), of t] own_tag [OF more_lists(2)] by (simp add: noTag_loop.simps [of acc "s @ t"])
qed

lemma lists_of_tag_read:
  assumes "lists_of_tag tag ls s"
  shows "s \<noteq> [] \<and> fst (lex (s @ r)) = charToken (CHR ''('') \<and>
    tagged_loop first tag n acc (s @ r) =
      (if r = [] then Some (acc @ ls) else tagged_loop False tag (n + length ls) (acc @ ls) r)"
  using assms
proof (induction arbitrary: first n acc rule: lists_of_tag.induct)
  case (one_of_tag l s tag)
  then show ?case using list_text_read [OF one_of_tag(1), of r] list_text_neq_Nil [OF one_of_tag(1)] list_text_lex [OF one_of_tag(1), of r]
    own_tag [OF one_of_tag(2)] by (auto simp: tagged_loop.simps [of first tag n acc "s @ r"] split: prod.split)
next
  case (more_of_tag l s tag ls t)
  have "tagged_loop first tag n acc (s @ t @ r) = tagged_loop False tag (n + 1) (acc @ [l]) (t @ r)"
    using list_text_read [OF more_of_tag(1), of "t @ r"] list_text_lex [OF more_of_tag(1), of "t @ r"] more_of_tag(2,4) own_tag [OF more_of_tag(2)]
    by (auto simp: tagged_loop.simps [of first tag n acc "s @ t @ r"] split: prod.split)
  then show ?case using more_of_tag.IH [of False "n + 1" "acc @ [l]"] more_of_tag list_text_lex [OF more_of_tag(1), of "t @ r"] by simp
qed

lemma tagged_loop_tag:
  assumes "blanks b" "CHR ''>'' \<notin> set tag" "first \<or> n \<noteq> 0"
  shows "tagged_loop first tag' n acc (b @ ''<'' @ tag @ ''>'' @ r) = tagged_loop False tag 0 acc r"
  using assms lex_angle [OF assms(2), of r] by (auto simp: tagged_loop_blanks tagged_loop.simps [of first tag' n acc "CHR ''<'' # tag @ CHR ''>'' # r"])

lemma lists_of_tag_neq_Nil: "lists_of_tag tag ls s \<Longrightarrow> ls \<noteq> []"
  by (induction rule: lists_of_tag.induct) simp_all

lemma tagged_text_read: "tagged_text ls s \<Longrightarrow> first \<or> n \<noteq> 0 \<Longrightarrow> s \<noteq> [] \<and> tagged_loop first tag n acc s = Some (acc @ ls)"
proof (induction arbitrary: first tag n acc rule: tagged_text.induct)
  case (one_tag b tag' ls s)
  then show ?case using tagged_loop_tag [OF one_tag(1,2,4), of tag acc s] lists_of_tag_read [OF one_tag(3), of "[]" False 0 acc] by simp
next
  case (more_tags b tag' ls s ls' t)
  have "tagged_loop first tag n acc (b @ ''<'' @ tag' @ ''>'' @ s @ t) = tagged_loop False tag' (length ls) (acc @ ls) t"
    using tagged_loop_tag [OF more_tags(1,2,6), of tag acc "s @ t"] lists_of_tag_read [OF more_tags(3), of t False 0 acc] more_tags.IH [of True 0] by simp
  then show ?case using more_tags.IH [of False "length ls" tag' "acc @ ls"] lists_of_tag_neq_Nil [OF more_tags(3)] by simp
qed

text \<open>A header begins with blanks and an opening character and ends with a parenthesis.\<close>

lemma no_tag_text_shape: "no_tag_text ls s \<Longrightarrow> \<exists>b t. blanks b \<and> s = b @ ''('' @ t @ '')''"
proof (induction rule: no_tag_text.induct)
  case (more_lists l s ls t)
  then show ?case using list_text_shape [OF more_lists(1)] by (metis append_assoc)
qed (rule list_text_shape)

lemma lists_of_tag_shape: "lists_of_tag tag ls s \<Longrightarrow> \<exists>t. s = t @ '')''"
proof (induction rule: lists_of_tag.induct)
  case (one_of_tag l s tag)
  then show ?case using list_text_shape [OF one_of_tag(1)] by (metis append_assoc)
qed (metis append_assoc)

lemma tagged_text_shape: "tagged_text ls s \<Longrightarrow> \<exists>b tag t. blanks b \<and> CHR ''>'' \<notin> set tag \<and> s = b @ ''<'' @ tag @ ''>'' @ t @ '')''"
proof (induction rule: tagged_text.induct)
  case (one_tag b tag ls s)
  then show ?case using lists_of_tag_shape [OF one_tag(3)] by metis
next
  case (more_tags b tag ls s ls' t)
  then obtain u where "t = u @ '')''" by (metis append_assoc)
  then show ?case using more_tags(1,2) by (metis append_assoc)
qed

section \<open>Parsed headers are well-formed\<close>

lemma list_loop_neq_Nil: "list_loop acc s = Some (cs, r) \<Longrightarrow> cs \<noteq> []"
proof (induction acc s rule: list_loop.induct)
  case (1 acc s)
  obtain ty u rem where l: "lex s = (ty, u, rem)" by (cases "lex s")
  show ?case
  proof (cases "ty = charToken (CHR '')'')")
    case True
    then show ?thesis using 1(2) l by (auto simp: list_loop.simps [of acc s] split: if_splits)
  next
    case False
    then obtain c rest where c: "parseCondition s = Some (c, rest)" "list_loop (acc @ [c]) rest = Some (cs, r)"
      using 1(2) l by (auto simp: list_loop.simps [of acc s] split: option.splits)
    show ?thesis using 1(1) [OF l [symmetric] refl False c(1) refl c(2)] .
  qed
qed

lemma parseList_neq_Nil: "parseList s = Some (l, r) \<Longrightarrow> conditions l \<noteq> []"
  by (auto simp: parseList_def split: prod.splits if_splits option.splits dest: list_loop_neq_Nil)

definition lists_ok :: "ifList list \<Rightarrow> bool" where
  "lists_ok h \<longleftrightarrow> h \<noteq> [] \<and> (\<forall>l \<in> set h. conditions l \<noteq> [])"

lemma lists_ok_snoc: "(\<forall>l \<in> set acc. conditions l \<noteq> []) \<Longrightarrow> conditions l \<noteq> [] \<Longrightarrow> lists_ok (acc @ [l])"
  by (auto simp: lists_ok_def)

lemma noTag_loop_ok: "noTag_loop acc s = Some h \<Longrightarrow> \<forall>l \<in> set acc. conditions l \<noteq> [] \<Longrightarrow> lists_ok h"
proof (induction acc s rule: noTag_loop.induct)
  case (1 acc s)
  then obtain l r where l: "parseList s = Some (l, r)" by (auto simp: noTag_loop.simps [of acc s] split: option.splits)
  note ne = parseList_neq_Nil [OF l]
  show ?case
  proof (cases "r = []")
    case True
    then show ?thesis using 1(2,3) l ne lists_ok_snoc by (auto simp: noTag_loop.simps [of acc s])
  next
    case False
    then show ?thesis using 1(1) [OF l refl False] 1(2,3) l ne by (auto simp: noTag_loop.simps [of acc s])
  qed
qed

lemma tagged_loop_ok: "tagged_loop first tag n acc s = Some h \<Longrightarrow> \<forall>l \<in> set acc. conditions l \<noteq> [] \<Longrightarrow> lists_ok h"
proof (induction first tag n acc s rule: tagged_loop.induct)
  case (1 first tag n acc s)
  obtain ty u rem where l: "lex s = (ty, u, rem)" by (cases "lex s")
  note step = 1(3) [unfolded tagged_loop.simps [of first tag n acc s] l prod.case]
  show ?case
  proof (cases "ty = angleToken")
    case True
    then show ?thesis using 1(1) [OF l [symmetric] refl True] step 1(4) by (auto split: if_splits)
  next
    case False
    then have p: "ty = charToken (CHR ''('')" using step by (auto split: if_splits)
    then obtain x r where x: "parseList s = Some (x, r)" using step False by (auto split: option.splits)
    note ne = parseList_neq_Nil [OF x]
    show ?thesis
    proof (cases "r = []")
      case True
      then show ?thesis using step False p x ne 1(4) lists_ok_snoc [of acc "x\<lparr>resourceTag := tag\<rparr>"] by auto
    next
      case False
      then show ?thesis using 1(2) [OF l [symmetric] refl \<open>ty \<noteq> angleToken\<close> p x refl False] step p x ne 1(4) by auto
    qed
  qed
qed

lemma TrimSpace_blanks:
  assumes "blanks b" "blanks b'" "graphic c"
  shows "TrimSpace (b @ (c # t @ '')'') @ b') = c # t @ '')''"
  using TrimSpace_around [of b b' "c # t @ '')''"] assms by (simp add: blanks_def graphic_def)

lemma parseIfHeader_no_tag:
  assumes "no_tag_text ls s" "blanks b"
  shows "parseIfHeader (s @ b) = Some ls"
proof -
  obtain b0 t where s: "blanks b0" "s = b0 @ ''('' @ t @ '')''" using no_tag_text_shape [OF assms(1)] by blast
  have "TrimSpace (s @ b) = CHR ''('' # t @ '')''" using TrimSpace_blanks [OF s(1) assms(2), of "CHR ''(''" t] s(2) by (simp add: graphic_def)
  moreover have "noTag_loop [] (CHR ''('' # t @ '')'') = Some ls" using no_tag_text_read [OF assms(1), of "[]"] noTag_loop_blanks [OF s(1), of "[]" "CHR ''('' # t @ '')''"] s(2) by simp
  ultimately show ?thesis by (simp add: parseIfHeader_def lex_paren parseNoTagLists_def)
qed

lemma parseIfHeader_tagged:
  assumes "tagged_text ls s" "blanks b"
  shows "parseIfHeader (s @ b) = Some ls"
proof -
  obtain b0 tag t where s: "blanks b0" "CHR ''>'' \<notin> set tag" "s = b0 @ ''<'' @ tag @ ''>'' @ t @ '')''"
    using tagged_text_shape [OF assms(1)] by blast
  let ?u = "CHR ''<'' # tag @ CHR ''>'' # t @ '')''"
  have "TrimSpace (s @ b) = ?u" using TrimSpace_blanks [OF s(1) assms(2), of "CHR ''<''" "tag @ CHR ''>'' # t"] s(3) by (simp add: graphic_def)
  moreover have "tagged_loop True [] 0 [] ?u = Some ls"
    using tagged_text_read [OF assms(1), of True 0 "[]" "[]"] tagged_loop_blanks [OF s(1), of True "[]" 0 "[]" ?u] s(3) by simp
  ultimately show ?thesis using lex_angle [OF s(2)] by (simp add: parseIfHeader_def parseTaggedLists_def)
qed

text \<open>An entity tag with a closing bracket inside is cut there, and the header is refused.\<close>

lemma bracket_in_etag_refused: "parseIfHeader ''([\"a]b\"])'' = None" "parseIfHeader ''([\"ab\"])'' \<noteq> None"
  by code_simp+

section \<open>Properties\<close>



end
