(* ===== verification/Preconditions.thy ===== *)
theory Preconditions
  imports Go_Strings
begin

text \<open>
  The evaluation of conditional requests: \<open>internal/net/preconditions.go\<close>.  A header is a map from
  canonical names to lists of values.  A time is the number of nanoseconds since 1970; \<open>parseTime\<close>, an argument, stands
  for \<open>http.ParseTime\<close> and gives seconds.  The request is returned with the headers the code deletes from it.
\<close>

section \<open>The model\<close>

type_synonym header = "string \<Rightarrow> string list"

definition hdr_Get :: "header \<Rightarrow> string \<Rightarrow> string" where
  "hdr_Get h k = (case h k of [] \<Rightarrow> [] | v # _ \<Rightarrow> v)"

definition hdr_Del :: "header \<Rightarrow> string \<Rightarrow> header" where
  "hdr_Del h k = h(k := [])"

record Request =
  Method :: string
  Header :: header

record Response =
  wHeader :: header
  status :: "nat option"

datatype condResult = condNone | condTrue | condFalse

subsection \<open>Entity tags\<close>

definition etag_char :: "char \<Rightarrow> bool" where
  "etag_char c \<longleftrightarrow> (let n = (of_char c :: nat) in n = 0x21 \<or> 0x23 \<le> n \<and> n \<le> 0x7E \<or> 0x80 \<le> n)"

definition dquote :: char where
  "dquote = CHR 0x22"

text \<open>The loop of \<open>scanETag\<close> from position \<open>i\<close> on: where the closing quote is.\<close>

fun scan_loop :: "nat \<Rightarrow> string \<Rightarrow> nat option" where
  "scan_loop i [] = None"
| "scan_loop i (c # s) = (if etag_char c then scan_loop (i + 1) s else if c = dquote then Some i else None)"

definition scanETag :: "string \<Rightarrow> string \<times> string" where
  "scanETag s0 =
     (let s = TrimString s0; start = (if HasPrefix s ''W/'' then 2 else 0)
      in if length (drop start s) < 2 \<or> hd (drop start s) \<noteq> dquote then ([], [])
         else case scan_loop (start + 1) (drop (start + 1) s) of
                None \<Rightarrow> ([], [])
              | Some i \<Rightarrow> (take (i + 1) s, drop (i + 1) s))"

definition etagStrongMatch :: "string \<Rightarrow> string \<Rightarrow> bool" where
  "etagStrongMatch a b \<longleftrightarrow> a = b \<and> a \<noteq> [] \<and> hd a = dquote"

definition etagWeakMatch :: "string \<Rightarrow> string \<Rightarrow> bool" where
  "etagWeakMatch a b \<longleftrightarrow> TrimPrefix a ''W/'' = TrimPrefix b ''W/''"

lemma scan_loop_bounds: "scan_loop i s = Some j \<Longrightarrow> i \<le> j \<and> j < i + length s"
  by (induction i s rule: scan_loop.induct) (fastforce split: if_splits)+

lemma scanETag_shorter: "scanETag s = (e, r) \<Longrightarrow> e \<noteq> [] \<Longrightarrow> length r < length s"
  using length_TrimString [of s]
  by (auto simp: scanETag_def Let_def dest!: scan_loop_bounds split: if_splits option.splits)

text \<open>The loop over a list of entity tags: whether it meets a star or a tag that matches.\<close>

function etag_list :: "(string \<Rightarrow> bool) \<Rightarrow> string \<Rightarrow> bool" where
  "etag_list matches im0 =
     (let im = TrimString im0
      in if im = [] then False
         else if hd im = CHR '','' then etag_list matches (drop 1 im)
         else if hd im = CHR ''*'' then True
         else let (etag, remain) = scanETag im
              in if etag = [] then False
                 else if matches etag then True
                 else etag_list matches remain)"
  by pat_completeness auto
termination etag_list
proof (relation "measure (\<lambda>(m, s). length s)")
  fix matches im0 im assume im: "im = TrimString im0" "im \<noteq> []"
  have le: "length im \<le> length im0" using im(1) length_TrimString [of im0] by simp
  show "((matches, drop 1 im), matches, im0) \<in> measure (\<lambda>(m, s). length s)"
    using le im(2) by (cases im) auto
  fix x y etag remain assume "x = scanETag im" "(etag, remain) = x" "etag \<noteq> []"
  then have "length remain < length im" using scanETag_shorter [of im etag remain] by simp
  then show "((matches, remain), matches, im0) \<in> measure (\<lambda>(m, s). length s)" using le by simp
qed simp

declare etag_list.simps [simp del]

subsection \<open>The single conditions\<close>

definition checkIfMatch :: "Response \<Rightarrow> Request \<Rightarrow> bool \<Rightarrow> condResult \<times> Request" where
  "checkIfMatch w r exists =
     (let values = Header r ''If-Match''
      in if values = [] then (condNone, r)
         else let im = Join values '',''; r1 = r\<lparr>Header := hdr_Del (Header r) ''If-Match''\<rparr>
              in if \<not> exists then (condFalse, r1)
                 else if etag_list (\<lambda>etag. etagStrongMatch etag (hdr_Get (wHeader w) ''Etag'')) im then (condTrue, r1)
                 else (condFalse, r1))"

definition zeroTime :: int where
  "zeroTime = - 62135596800 * 1000000000"

definition isZeroTime :: "int \<Rightarrow> bool" where
  "isZeroTime t \<longleftrightarrow> t = zeroTime \<or> t = 0"

definition checkIfUnmodifiedSince :: "(string \<Rightarrow> int option) \<Rightarrow> Request \<Rightarrow> int \<Rightarrow> condResult \<times> Request" where
  "checkIfUnmodifiedSince parseTime r modtime =
     (let ius = hdr_Get (Header r) ''If-Unmodified-Since''
      in if ius = [] then (condNone, r)
         else let r1 = r\<lparr>Header := hdr_Del (Header r) ''If-Unmodified-Since''\<rparr>
              in if isZeroTime modtime then (condNone, r1)
                 else case parseTime ius of
                        None \<Rightarrow> (condNone, r1)
                      | Some t \<Rightarrow> (if modtime div 1000000000 \<le> t then condTrue else condFalse, r1))"

definition checkIfNoneMatch :: "Response \<Rightarrow> Request \<Rightarrow> bool \<Rightarrow> condResult \<times> Request" where
  "checkIfNoneMatch w r exists =
     (let values = Header r ''If-None-Match''
      in if values = [] then (condNone, r)
         else let inm = Join values '',''; r1 = r\<lparr>Header := hdr_Del (Header r) ''If-None-Match''\<rparr>
              in if \<not> exists then (condTrue, r1)
                 else if etag_list (\<lambda>etag. etagWeakMatch etag (hdr_Get (wHeader w) ''Etag'')) inm then (condFalse, r1)
                 else (condTrue, r1))"

definition checkIfModifiedSince :: "(string \<Rightarrow> int option) \<Rightarrow> Request \<Rightarrow> int \<Rightarrow> condResult \<times> Request" where
  "checkIfModifiedSince parseTime r modtime =
     (if Method r \<noteq> ''GET'' \<and> Method r \<noteq> ''HEAD'' then (condNone, r)
      else let ims = hdr_Get (Header r) ''If-Modified-Since''
           in if ims = [] then (condNone, r)
              else let r1 = r\<lparr>Header := hdr_Del (Header r) ''If-Modified-Since''\<rparr>
                   in if isZeroTime modtime then (condNone, r1)
                      else case parseTime ims of
                             None \<Rightarrow> (condNone, r1)
                           | Some t \<Rightarrow> (if modtime div 1000000000 \<le> t then condFalse else condTrue, r1))"

definition checkIfRange :: "(string \<Rightarrow> int option) \<Rightarrow> Response \<Rightarrow> Request \<Rightarrow> int \<Rightarrow> condResult \<times> Request" where
  "checkIfRange parseTime w r modtime =
     (if Method r \<noteq> ''GET'' \<and> Method r \<noteq> ''HEAD'' then (condNone, r)
      else let ir = hdr_Get (Header r) ''If-Range''
           in if ir = [] then (condNone, r)
              else let r1 = r\<lparr>Header := hdr_Del (Header r) ''If-Range''\<rparr>; etag = fst (scanETag ir)
                   in if etag \<noteq> []
                      then (if etagStrongMatch etag (hdr_Get (wHeader w) ''Etag'') then condTrue else condFalse, r1)
                      else if modtime = zeroTime then (condFalse, r1)
                      else case parseTime ir of
                             None \<Rightarrow> (condFalse, r1)
                           | Some t \<Rightarrow> (if t = modtime div 1000000000 then condTrue else condFalse, r1))"

subsection \<open>The evaluation\<close>

definition writeNotModified :: "Response \<Rightarrow> Response" where
  "writeNotModified w =
     (let h1 = hdr_Del (wHeader w) ''Content-Type''; h2 = hdr_Del h1 ''Content-Length''; h3 = hdr_Del h2 ''Content-Encoding'';
          h4 = (if hdr_Get h3 ''Etag'' \<noteq> [] then hdr_Del h3 ''Last-Modified'' else h3)
      in w\<lparr>wHeader := h4, status := Some 304\<rparr>)"

definition CheckPreconditions ::
  "(string \<Rightarrow> int option) \<Rightarrow> Response \<Rightarrow> Request \<Rightarrow> int \<Rightarrow> bool \<Rightarrow> bool \<times> string \<times> Response \<times> Request" where
  "CheckPreconditions parseTime w r0 modtime exists =
     (let (ch0, r1) = checkIfMatch w r0 exists;
          (ch, r2) = (if ch0 = condNone then checkIfUnmodifiedSince parseTime r1 modtime else (ch0, r1))
      in if ch = condFalse then (True, [], w\<lparr>status := Some 412\<rparr>, r2)
         else let (nm, r3) = checkIfNoneMatch w r2 exists
              in if nm = condFalse
                 then if Method r3 = ''GET'' \<or> Method r3 = ''HEAD'' then (True, [], writeNotModified w, r3)
                      else (True, [], w\<lparr>status := Some 412\<rparr>, r3)
                 else let (ms, r4) = (if nm = condNone then checkIfModifiedSince parseTime r3 modtime else (condTrue, r3))
                      in if ms = condFalse then (True, [], writeNotModified w, r4)
                         else let rangeHeader = hdr_Get (Header r4) ''Range''
                              in if rangeHeader = [] then (False, [], w, r4)
                                 else let (ir, r5) = checkIfRange parseTime w r4 modtime
                                      in (False, if ir = condFalse then [] else rangeHeader, w, r5))"

section \<open>Lists of entity tags\<close>

definition etag_ok :: "string \<Rightarrow> bool" where
  "etag_ok e \<longleftrightarrow> (\<exists>body. (e = dquote # body @ [dquote] \<or> e = ''W/'' @ dquote # body @ [dquote]) \<and> (\<forall>c \<in> set body. etag_char c))"

lemma etag_char_dquote [simp]: "\<not> etag_char dquote"
  by (simp add: etag_char_def dquote_def)

lemma not_space [simp]: "\<not> isASCIISpace dquote" "\<not> isASCIISpace (CHR ''W'')" "\<not> isASCIISpace (CHR '','')" "isASCIISpace (CHR '' '')"
  by (simp_all add: isASCIISpace_def dquote_def)

lemma dquote_neq [simp]: "dquote \<noteq> CHR '',''" "dquote \<noteq> CHR ''*''" "CHR ''W'' \<noteq> dquote" "dquote \<noteq> CHR ''W''"
  by (simp_all add: dquote_def)

lemma scan_loop_body: "\<forall>c \<in> set body. etag_char c \<Longrightarrow> scan_loop i (body @ dquote # r) = Some (i + length body)"
  by (induction body arbitrary: i) auto

lemma etag_okE:
  assumes "etag_ok e"
  obtains "e \<noteq> []" "hd e = dquote \<or> hd e = CHR ''W''" "last e = dquote"
  using assms by (auto simp: etag_ok_def)

lemma scanETag_etag:
  assumes "etag_ok e" "TrimString (e @ r) = e @ r"
  shows "scanETag (e @ r) = (e, r)"
proof -
  obtain body where body: "e = dquote # body @ [dquote] \<or> e = ''W/'' @ dquote # body @ [dquote]" "\<forall>c \<in> set body. etag_char c"
    using assms(1) by (auto simp: etag_ok_def)
  from body(1) show ?thesis
  proof
    assume e: "e = dquote # body @ [dquote]"
    have "\<not> HasPrefix (e @ r) ''W/''" by (simp add: e HasPrefix_def)
    then show ?thesis using assms(2) scan_loop_body [OF body(2), of 1 r] by (simp add: scanETag_def e)
  next
    assume e: "e = ''W/'' @ dquote # body @ [dquote]"
    have "HasPrefix (e @ r) ''W/''" by (simp add: e HasPrefix_def)
    then show ?thesis using assms(2) scan_loop_body [OF body(2), of "Suc (Suc (Suc 0))" r] by (simp add: scanETag_def e Let_def eval_nat_numeral)
  qed
qed

definition tag_list :: "string list \<Rightarrow> string" where
  "tag_list es = Join es '', ''"

lemma tag_list_Cons: "tag_list (e # es) = e @ (if es = [] then [] else '', '' @ tag_list es)"
  by (simp add: tag_list_def Join_Cons)

lemma tag_list_last: "es \<noteq> [] \<Longrightarrow> \<forall>e \<in> set es. etag_ok e \<Longrightarrow> tag_list es \<noteq> [] \<and> last (tag_list es) = dquote"
proof (induction es)
  case (Cons e es)
  then show ?case by (auto simp: tag_list_Cons elim: etag_okE)
qed simp

lemma TrimString_blank: "TrimString (CHR '' '' # s) = TrimString s"
  by (simp add: TrimString_def trim_by_def)

lemma etag_list_blank: "etag_list m (CHR '' '' # s) = etag_list m s"
  by (simp add: etag_list.simps [of m "CHR '' '' # s"] etag_list.simps [of m s] TrimString_blank)

lemma etag_list_comma: "TrimString (CHR '','' # s) = CHR '','' # s \<Longrightarrow> etag_list m (CHR '','' # s) = etag_list m s"
  by (subst etag_list.simps) simp

lemma etag_list_scan:
  "TrimString s = s \<Longrightarrow> s \<noteq> [] \<Longrightarrow> hd s \<noteq> CHR '','' \<Longrightarrow> hd s \<noteq> CHR ''*'' \<Longrightarrow> scanETag s = (e, r) \<Longrightarrow> e \<noteq> [] \<Longrightarrow>
   etag_list m s \<longleftrightarrow> m e \<or> etag_list m r"
  by (subst etag_list.simps) simp

lemma etag_list_correct: "\<forall>e \<in> set es. etag_ok e \<Longrightarrow> etag_list m (tag_list es) \<longleftrightarrow> (\<exists>e \<in> set es. m e)"
proof (induction es)
  case Nil
  then show ?case by (subst etag_list.simps) (simp add: tag_list_def TrimString_id)
next
  case (Cons e es)
  let ?r = "if es = [] then [] else '', '' @ tag_list es"
  have e: "etag_ok e" "e \<noteq> []" "hd e = dquote \<or> hd e = CHR ''W''" using Cons.prems by (auto elim: etag_okE)
  have last: "last (e @ ?r) = dquote" using tag_list_last [of "e # es"] Cons.prems by (simp add: tag_list_Cons)
  have hd: "hd (e @ ?r) = hd e" using e(2) by simp
  have trim: "TrimString (e @ ?r) = e @ ?r" using e(3) last hd by (intro TrimString_id) auto
  have step: "etag_list m (e @ ?r) \<longleftrightarrow> m e \<or> etag_list m ?r"
    using e(2,3) hd by (intro etag_list_scan [OF trim _ _ _ scanETag_etag [OF e(1) trim]]) auto
  have "etag_list m ?r \<longleftrightarrow> (\<exists>x \<in> set es. m x)"
  proof (cases "es = []")
    case True
    then show ?thesis by (simp add: etag_list.simps [of m "[]"] TrimString_id)
  next
    case False
    then have "last (CHR '','' # CHR '' '' # tag_list es) = dquote" using tag_list_last Cons.prems by simp
    then have "TrimString (CHR '','' # CHR '' '' # tag_list es) = CHR '','' # CHR '' '' # tag_list es"
      by (intro TrimString_id) simp
    then show ?thesis using False Cons by (simp add: etag_list_comma etag_list_blank)
  qed
  then show ?case using step by (simp add: tag_list_Cons)
qed

section \<open>Properties\<close>

text \<open>Entity tags take precedence over dates.  For a resource with a valid entity tag and a request that carries lists of valid
  entity tags in If-Match and If-None-Match: the answer is 412 if no tag of If-Match matches strongly; otherwise, if a tag
  of If-None-Match matches weakly, 304 for GET and HEAD and 412 for any other method; and otherwise the
  request goes on.  Whatever If-Unmodified-Since, If-Modified-Since and the modification time say changes nothing.  A
  304 answer carries no Content-Type, Content-Length, Content-Encoding or Last-Modified.
\<close>

theorem etags_decide:
  fixes es ns :: "string list"
  assumes "\<forall>e \<in> set (es @ ns). etag_ok e" "etag_ok cur" "hdr_Get (wHeader w) ''Etag'' = cur"
    and "Header r ''If-Match'' = [tag_list es]" "Header r ''If-None-Match'' = [tag_list ns]"
  shows "\<exists>rng r'. CheckPreconditions parseTime w r modtime True =
      (if \<not> (\<exists>e \<in> set es. etagStrongMatch e cur) then (True, [], w\<lparr>status := Some 412\<rparr>, r')
       else if \<exists>e \<in> set ns. etagWeakMatch e cur
       then (True, [], if Method r = ''GET'' \<or> Method r = ''HEAD'' then writeNotModified w else w\<lparr>status := Some 412\<rparr>, r')
       else (False, rng, w, r')) \<and> (rng = [] \<or> rng = hdr_Get (Header r) ''Range'') \<and>
      (\<forall>k \<in> {''Content-Type'', ''Content-Length'', ''Content-Encoding'', ''Last-Modified''}. wHeader (writeNotModified w) k = [])"
proof -
  have cur: "cur \<noteq> []" using assms(2) by (auto elim: etag_okE)
  let ?r1 = "r\<lparr>Header := hdr_Del (Header r) ''If-Match''\<rparr>" and ?r2 = "r\<lparr>Header := hdr_Del (hdr_Del (Header r) ''If-Match'') ''If-None-Match''\<rparr>"
  have im: "checkIfMatch w r True = (if \<exists>e \<in> set es. etagStrongMatch e cur then condTrue else condFalse, ?r1)"
    using etag_list_correct [of es "\<lambda>e. etagStrongMatch e cur"] assms by (simp add: checkIfMatch_def Let_def)
  have "Header ?r1 ''If-None-Match'' = [tag_list ns]" using assms(5) by (simp add: hdr_Del_def)
  then have nm: "checkIfNoneMatch w ?r1 True = (if \<exists>e \<in> set ns. etagWeakMatch e cur then condFalse else condTrue, ?r2)"
    using etag_list_correct [of ns "\<lambda>e. etagWeakMatch e cur"] assms by (simp add: checkIfNoneMatch_def Let_def)
  have rng: "hdr_Get (Header ?r2) ''Range'' = hdr_Get (Header r) ''Range''" by (simp add: hdr_Get_def hdr_Del_def)
  have del: "wHeader (writeNotModified w) k = []"
    if "k \<in> {''Content-Type'', ''Content-Length'', ''Content-Encoding'', ''Last-Modified''}" for k
    using that assms(3) cur by (auto simp: writeNotModified_def Let_def hdr_Del_def hdr_Get_def)
  show ?thesis
  proof (cases "\<exists>e \<in> set es. etagStrongMatch e cur")
    case False
    then show ?thesis using im del by (auto simp: CheckPreconditions_def)
  next
    case True
    show ?thesis
    proof (cases "\<exists>e \<in> set ns. etagWeakMatch e cur")
      case weak: True
      show ?thesis using True weak im nm del by (auto simp: CheckPreconditions_def)
    next
      case weak: False
      obtain ir r5 where ir: "checkIfRange parseTime w ?r2 modtime = (ir, r5)" by (cases "checkIfRange parseTime w ?r2 modtime")
      let ?g = "hdr_Get (Header r) ''Range''"
      have "CheckPreconditions parseTime w r modtime True =
          (False, if ?g = [] \<or> ir = condFalse then [] else ?g, w, if ?g = [] then ?r2 else r5)"
        using True weak im nm ir rng by (simp add: CheckPreconditions_def)
      then show ?thesis using True weak del by auto
    qed
  qed
qed

definition sample_request :: Request where
  "sample_request = \<lparr>Method = ''GET'', Header = (\<lambda>_. [])(''If-Match'' := [tag_list [[dquote, CHR ''a'', dquote], [dquote, CHR ''b'', dquote]]],
     ''If-None-Match'' := [tag_list [''W/'' @ [dquote, CHR ''b'', dquote]]], ''If-Modified-Since'' := [''whenever''])\<rparr>"

definition sample_response :: Response where
  "sample_response = \<lparr>wHeader = (\<lambda>_. [])(''Etag'' := [[dquote, CHR ''b'', dquote]]), status = None\<rparr>"

theorem etags_decide_witness:
  "\<exists>r'. CheckPreconditions (\<lambda>_. None) sample_response sample_request 0 True = (True, [], writeNotModified sample_response, r')"
proof -
  let ?b = "[dquote, CHR ''b'', dquote]"
  have b: "etag_ok ?b" "etag_ok (''W/'' @ ?b)"
    unfolding etag_ok_def by (rule exI [of _ "''b''"], simp add: etag_char_def)+
  moreover have "etag_ok [dquote, CHR ''a'', dquote]" unfolding etag_ok_def by (rule exI [of _ "''a''"]) (simp add: etag_char_def)
  moreover have "etagStrongMatch ?b ?b" "etagWeakMatch (''W/'' @ ?b) ?b"
    by (simp_all add: etagStrongMatch_def etagWeakMatch_def TrimPrefix_def HasPrefix_def)
  ultimately show ?thesis
    using etags_decide [of "[[dquote, CHR ''a'', dquote], ?b]" "[''W/'' @ ?b]" ?b sample_response sample_request "\<lambda>_. None" 0]
    by (auto simp: sample_request_def sample_response_def hdr_Get_def)
qed

end
