(* ===== verification/Cache.thy ===== *)
theory Cache
  imports Go_Map
begin

text \<open>
  The expiring caches of \<open>internal/cache\<close>: \<open>keyed_cache.go\<close> and \<open>typed_cache.go\<close>.  An \<open>Expirable\<close> is
  the predicate of what is observed at the moments at which it counts as expired: the time alone, or the time and
  other state that only ever moves one way.  An entry carries the number of its allocation, which is
  what the code's pointer comparison compares; the inner maps of the typed cache, shared by pointer, live in a heap.
  The two critical sections of a lookup are separate functions.
\<close>

section \<open>The model\<close>

type_synonym 't expirable = "'t \<Rightarrow> bool"

definition ExpirationTime :: "int \<Rightarrow> int expirable" where
  "ExpirationTime t now \<longleftrightarrow> t < now"

record ('t, 'v) CacheEntry =
  entry_id :: nat
  entry_data :: 'v
  entry_exp :: "'t expirable"

type_synonym ('t, 'v) entry_map = "(string \<times> ('t, 'v) CacheEntry) list"

subsection \<open>KeyedCache\<close>

record ('t, 'v) KeyedCache =
  kEntries :: "('t, 'v) entry_map"
  kTtl :: int
  kNext :: nat

definition NewKeyedCache :: "int \<Rightarrow> ('t, 'v) KeyedCache" where
  "NewKeyedCache ttl = \<lparr>kEntries = [], kTtl = ttl, kNext = 0\<rparr>"

definition keyed_SetWithExpirable :: "('t, 'v) KeyedCache \<Rightarrow> string \<Rightarrow> 'v \<Rightarrow> 't expirable \<Rightarrow> ('t, 'v) KeyedCache" where
  "keyed_SetWithExpirable c key value e =
     c\<lparr>kEntries := dict_set key \<lparr>entry_id = kNext c, entry_data = value, entry_exp = e\<rparr> (kEntries c), kNext := kNext c + 1\<rparr>"

definition keyed_Set :: "(int, 'v) KeyedCache \<Rightarrow> int \<Rightarrow> string \<Rightarrow> 'v \<Rightarrow> (int, 'v) KeyedCache" where
  "keyed_Set c now key value = keyed_SetWithExpirable c key value (ExpirationTime (now + kTtl c))"

definition keyed_SetWithTTL :: "(int, 'v) KeyedCache \<Rightarrow> int \<Rightarrow> string \<Rightarrow> 'v \<Rightarrow> int \<Rightarrow> (int, 'v) KeyedCache" where
  "keyed_SetWithTTL c now key value ttl = keyed_SetWithExpirable c key value (ExpirationTime (now + ttl))"

definition keyed_Get_evict :: "('t, 'v) KeyedCache \<Rightarrow> string \<Rightarrow> nat \<Rightarrow> ('t, 'v) KeyedCache" where
  "keyed_Get_evict c key i =
     (case map_of (kEntries c) key of
        Some e \<Rightarrow> if entry_id e = i then c\<lparr>kEntries := dict_del key (kEntries c)\<rparr> else c
      | None \<Rightarrow> c)"

definition keyed_Get :: "('t, 'v) KeyedCache \<Rightarrow> 't \<Rightarrow> string \<Rightarrow> 'v option \<times> ('t, 'v) KeyedCache" where
  "keyed_Get c now key =
     (case map_of (kEntries c) key of
        None \<Rightarrow> (None, c)
      | Some e \<Rightarrow> if \<not> entry_exp e now then (Some (entry_data e), c) else (None, keyed_Get_evict c key (entry_id e)))"

definition keyed_Delete :: "('t, 'v) KeyedCache \<Rightarrow> string \<Rightarrow> ('t, 'v) KeyedCache" where
  "keyed_Delete c key = c\<lparr>kEntries := dict_del key (kEntries c)\<rparr>"

definition keyed_Pop :: "('t, 'v) KeyedCache \<Rightarrow> string \<Rightarrow> 'v option \<times> ('t, 'v) KeyedCache" where
  "keyed_Pop c key =
     (case map_of (kEntries c) key of
        Some e \<Rightarrow> (Some (entry_data e), c\<lparr>kEntries := dict_del key (kEntries c)\<rparr>)
      | None \<Rightarrow> (None, c))"

definition keyed_Clear :: "('t, 'v) KeyedCache \<Rightarrow> ('t, 'v) KeyedCache" where
  "keyed_Clear c = c\<lparr>kEntries := []\<rparr>"

definition drop_expired :: "'t \<Rightarrow> ('t, 'v) entry_map \<Rightarrow> ('t, 'v) entry_map" where
  "drop_expired now d = foldl (\<lambda>m k. dict_del k m) d (map fst (filter (\<lambda>e. entry_exp (snd e) now) d))"

definition keyed_GC :: "('t, 'v) KeyedCache \<Rightarrow> 't \<Rightarrow> ('t, 'v) KeyedCache" where
  "keyed_GC c now = c\<lparr>kEntries := drop_expired now (kEntries c)\<rparr>"

subsection \<open>TypedCache\<close>

record ('t, 'v) TypedCache =
  tEntries :: "(string \<times> nat) list"
  tInner :: "nat \<Rightarrow> ('t, 'v) entry_map"
  tTtl :: int
  tNext :: nat

definition NewTypedCache :: "int \<Rightarrow> ('t, 'v) TypedCache" where
  "NewTypedCache ttl = \<lparr>tEntries = [], tInner = (\<lambda>_. []), tTtl = ttl, tNext = 0\<rparr>"

definition SetTypeWithExpirable :: "('t, 'v) TypedCache \<Rightarrow> string \<Rightarrow> string \<Rightarrow> 'v \<Rightarrow> 't expirable \<Rightarrow> ('t, 'v) TypedCache" where
  "SetTypeWithExpirable c key typeKey value e =
     (let (a, c1) = (case map_of (tEntries c) key of
             Some a \<Rightarrow> (a, c)
           | None \<Rightarrow> (tNext c, c\<lparr>tInner := (tInner c)(tNext c := []), tEntries := dict_set key (tNext c) (tEntries c), tNext := tNext c + 1\<rparr>))
      in c1\<lparr>tInner := (tInner c1)(a := dict_set typeKey \<lparr>entry_id = tNext c1, entry_data = value, entry_exp = e\<rparr> (tInner c1 a)),
            tNext := tNext c1 + 1\<rparr>)"

definition SetType :: "(int, 'v) TypedCache \<Rightarrow> int \<Rightarrow> string \<Rightarrow> string \<Rightarrow> 'v \<Rightarrow> (int, 'v) TypedCache" where
  "SetType c now key typeKey value = SetTypeWithExpirable c key typeKey value (ExpirationTime (now + tTtl c))"

definition SetTypeWithTTL :: "(int, 'v) TypedCache \<Rightarrow> int \<Rightarrow> string \<Rightarrow> string \<Rightarrow> 'v \<Rightarrow> int \<Rightarrow> (int, 'v) TypedCache" where
  "SetTypeWithTTL c now key typeKey value ttl = SetTypeWithExpirable c key typeKey value (ExpirationTime (now + ttl))"

text \<open>The first critical section of \<open>GetType\<close>: the inner map and the entry it found.\<close>

definition GetType_read :: "('t, 'v) TypedCache \<Rightarrow> string \<Rightarrow> string \<Rightarrow> (nat \<times> ('t, 'v) CacheEntry) option" where
  "GetType_read c key typeKey =
     (case map_of (tEntries c) key of
        None \<Rightarrow> None
      | Some a \<Rightarrow> map_option (\<lambda>e. (a, e)) (map_of (tInner c a) typeKey))"

text \<open>The second one, on an expired entry.\<close>

definition GetType_evict :: "('t, 'v) TypedCache \<Rightarrow> string \<Rightarrow> string \<Rightarrow> nat \<Rightarrow> nat \<Rightarrow> ('t, 'v) TypedCache" where
  "GetType_evict c key typeKey a i =
     (case map_of (tInner c a) typeKey of
        None \<Rightarrow> c
      | Some e \<Rightarrow>
          if entry_id e \<noteq> i then c
          else let c1 = c\<lparr>tInner := (tInner c)(a := dict_del typeKey (tInner c a))\<rparr>
               in if tInner c1 a = [] then c1\<lparr>tEntries := dict_del key (tEntries c1)\<rparr> else c1)"

definition GetType :: "('t, 'v) TypedCache \<Rightarrow> 't \<Rightarrow> string \<Rightarrow> string \<Rightarrow> 'v option \<times> ('t, 'v) TypedCache" where
  "GetType c now key typeKey =
     (case GetType_read c key typeKey of
        None \<Rightarrow> (None, c)
      | Some (a, e) \<Rightarrow>
          if \<not> entry_exp e now then (Some (entry_data e), c) else (None, GetType_evict c key typeKey a (entry_id e)))"

definition DeleteKey :: "('t, 'v) TypedCache \<Rightarrow> string \<Rightarrow> ('t, 'v) TypedCache" where
  "DeleteKey c key = c\<lparr>tEntries := dict_del key (tEntries c)\<rparr>"

definition typed_Clear :: "('t, 'v) TypedCache \<Rightarrow> ('t, 'v) TypedCache" where
  "typed_Clear c = c\<lparr>tEntries := []\<rparr>"

text \<open>One turn of the second loop of \<open>GC\<close>, for an inner map that has expired entries.\<close>

definition typed_GC_step :: "'t \<Rightarrow> ('t, 'v) TypedCache \<Rightarrow> string \<times> nat \<Rightarrow> ('t, 'v) TypedCache" where
  "typed_GC_step now c ka =
     (let (key, a) = ka
      in if list_ex (\<lambda>e. entry_exp (snd e) now) (tInner c a)
         then let c1 = c\<lparr>tInner := (tInner c)(a := drop_expired now (tInner c a))\<rparr>
              in if tInner c1 a = [] then c1\<lparr>tEntries := dict_del key (tEntries c1)\<rparr> else c1
         else c)"

definition typed_GC :: "('t, 'v) TypedCache \<Rightarrow> 't \<Rightarrow> ('t, 'v) TypedCache" where
  "typed_GC c now = foldl (typed_GC_step now) c (tEntries c)"

section \<open>What a cache promises\<close>

definition lasting :: "'t::preorder expirable \<Rightarrow> bool" where
  "lasting e \<longleftrightarrow> (\<forall>t u. e t \<longrightarrow> t \<le> u \<longrightarrow> e u)"

lemma lasting_ExpirationTime: "lasting (ExpirationTime t)"
  by (auto simp: lasting_def ExpirationTime_def)

datatype ('t, 'k) cache_use = UseGet 't 'k | UseGC 't

primrec use_time :: "('t, 'k) cache_use \<Rightarrow> 't" where
  "use_time (UseGet t k) = t"
| "use_time (UseGC t) = t"

primrec use_cache :: "('c \<Rightarrow> 't \<Rightarrow> 'k \<Rightarrow> 'r \<times> 'c) \<Rightarrow> ('c \<Rightarrow> 't \<Rightarrow> 'c) \<Rightarrow> 'c \<Rightarrow> ('t, 'k) cache_use \<Rightarrow> 'c" where
  "use_cache fetch collect c (UseGet t k) = snd (fetch c t k)"
| "use_cache fetch collect c (UseGC t) = collect c t"

locale expiring_cache =
  fixes look :: "'c \<Rightarrow> 't::preorder \<Rightarrow> 'k \<Rightarrow> 'v option"
    and put :: "'c \<Rightarrow> 'k \<Rightarrow> 'v \<Rightarrow> 't expirable \<Rightarrow> 'c"
    and fetch :: "'c \<Rightarrow> 't \<Rightarrow> 'k \<Rightarrow> 'v option \<times> 'c"
    and collect :: "'c \<Rightarrow> 't \<Rightarrow> 'c"
    and cache_inv :: "'c \<Rightarrow> bool"
  assumes put_inv: "cache_inv c \<Longrightarrow> lasting e \<Longrightarrow> cache_inv (put c k v e)"
    and look_put: "cache_inv c \<Longrightarrow> look (put c k v e) t = (\<lambda>x. if x = k then (if e t then None else Some v) else look c t x)"
    and fetch_look: "cache_inv c \<Longrightarrow> fst (fetch c t k) = look c t k"
    and fetch_inv: "cache_inv c \<Longrightarrow> cache_inv (snd (fetch c t k))"
    and look_fetch: "cache_inv c \<Longrightarrow> t \<le> u \<Longrightarrow> look (snd (fetch c t k)) u = look c u"
    and collect_inv: "cache_inv c \<Longrightarrow> cache_inv (collect c t)"
    and look_collect: "cache_inv c \<Longrightarrow> t \<le> u \<Longrightarrow> look (collect c t) u = look c u"
begin

lemma uses_look:
  "cache_inv c \<Longrightarrow> \<forall>x \<in> set xs. use_time x \<le> u \<Longrightarrow> cache_inv (foldl (use_cache fetch collect) c xs) \<and> look (foldl (use_cache fetch collect) c xs) u = look c u"
proof (induction xs arbitrary: c)
  case (Cons x xs)
  then show ?case using Cons.IH [of "use_cache fetch collect c x"] by (cases x) (auto simp: fetch_inv collect_inv look_fetch look_collect)
qed simp

lemma fetch_after_put:
  assumes "cache_inv c" "lasting e" "\<forall>x \<in> set xs. use_time x \<le> u"
  shows "fst (fetch (foldl (use_cache fetch collect) (put c k v e) xs) u k) = (if e u then None else Some v)"
  using uses_look [OF put_inv [OF assms(1,2)] assms(3)] by (simp add: fetch_look look_put assms(1))

end

section \<open>The keyed cache keeps the promise\<close>

definition keyed_look :: "('t, 'v) KeyedCache \<Rightarrow> 't \<Rightarrow> string \<Rightarrow> 'v option" where
  "keyed_look c t k =
     (case map_of (kEntries c) k of None \<Rightarrow> None | Some e \<Rightarrow> if entry_exp e t then None else Some (entry_data e))"

definition map_ok :: "('t::preorder, 'v) entry_map \<Rightarrow> bool" where
  "map_ok d \<longleftrightarrow> distinct (map fst d) \<and> (\<forall>k e. map_of d k = Some e \<longrightarrow> lasting (entry_exp e))"

lemma map_ok_Nil [simp]: "map_ok []"
  by (simp add: map_ok_def)

lemma map_ok_set: "map_ok d \<Longrightarrow> lasting (entry_exp e) \<Longrightarrow> map_ok (dict_set k e d)"
  by (auto simp: map_ok_def)

lemma map_ok_del: "map_ok d \<Longrightarrow> map_ok (dict_del k d)"
  by (auto simp: map_ok_def distinct_dict_del split: if_splits)

lemma foldl_del: "map_of (foldl (\<lambda>m k. dict_del k m) d ks) a = (if a \<in> set ks then None else map_of d a)"
  by (induction ks arbitrary: d) auto

lemma map_ok_foldl_del: "map_ok d \<Longrightarrow> map_ok (foldl (\<lambda>m k. dict_del k m) d ks)"
  by (induction ks arbitrary: d) (auto simp: map_ok_del)

lemma map_ok_drop: "map_ok d \<Longrightarrow> map_ok (drop_expired now d)"
  by (simp add: drop_expired_def map_ok_foldl_del)

lemma map_of_drop:
  assumes "map_ok d"
  shows "map_of (drop_expired now d) k = (case map_of d k of None \<Rightarrow> None | Some e \<Rightarrow> if entry_exp e now then None else Some e)"
proof -
  have "k \<in> set (map fst (filter (\<lambda>e. entry_exp (snd e) now) d)) \<longleftrightarrow> (\<exists>e. map_of d k = Some e \<and> entry_exp e now)"
    using assms unfolding map_ok_def by (force simp: image_iff)
  then show ?thesis unfolding drop_expired_def foldl_del by (auto split: option.split)
qed

lemma lastingD: "lasting e \<Longrightarrow> e t \<Longrightarrow> t \<le> u \<Longrightarrow> e u"
  unfolding lasting_def by blast

interpretation kc: expiring_cache keyed_look keyed_SetWithExpirable keyed_Get keyed_GC "\<lambda>c. map_ok (kEntries c)"
proof unfold_locales
  fix c :: "('t::preorder, 'v) KeyedCache" and e :: "'t expirable" and k v t u
  assume c: "map_ok (kEntries c)"
  then have last: "lasting (entry_exp x)" if "map_of (kEntries c) k = Some x" for x k using that by (auto simp: map_ok_def)
  show "map_ok (kEntries (keyed_SetWithExpirable c k v e))" if "lasting e"
    using c that by (simp add: keyed_SetWithExpirable_def map_ok_set)
  show "keyed_look (keyed_SetWithExpirable c k v e) t = (\<lambda>x. if x = k then (if e t then None else Some v) else keyed_look c t x)"
    by (auto simp: keyed_look_def keyed_SetWithExpirable_def)
  show "fst (keyed_Get c t k) = keyed_look c t k" by (auto simp: keyed_Get_def keyed_look_def split: option.split)
  show "map_ok (kEntries (snd (keyed_Get c t k)))"
    using c by (auto simp: keyed_Get_def keyed_Get_evict_def map_ok_del split: option.split)
  show "map_ok (kEntries (keyed_GC c t))" using c by (simp add: keyed_GC_def map_ok_drop)
  show "keyed_look (snd (keyed_Get c t k)) u = keyed_look c u" if "t \<le> u"
    using last lastingD [OF _ _ that] by (fastforce simp: keyed_Get_def keyed_Get_evict_def keyed_look_def split: option.split)
  show "keyed_look (keyed_GC c t) u = keyed_look c u" if "t \<le> u"
    using last lastingD [OF _ _ that] by (fastforce simp: keyed_GC_def keyed_look_def map_of_drop [OF c] split: option.split)
qed

section \<open>The typed cache keeps the promise between calls\<close>

definition typed_look :: "('t, 'v) TypedCache \<Rightarrow> 't \<Rightarrow> string \<times> string \<Rightarrow> 'v option" where
  "typed_look c t k =
     (case map_of (tEntries c) (fst k) of
        None \<Rightarrow> None
      | Some a \<Rightarrow> (case map_of (tInner c a) (snd k) of None \<Rightarrow> None | Some e \<Rightarrow> if entry_exp e t then None else Some (entry_data e)))"

definition typed_inv :: "('t::preorder, 'v) TypedCache \<Rightarrow> bool" where
  "typed_inv c \<longleftrightarrow> distinct (map fst (tEntries c)) \<and> (\<forall>a. map_ok (tInner c a)) \<and> (\<forall>k a. map_of (tEntries c) k = Some a \<longrightarrow> a < tNext c) \<and>
     (\<forall>k l a. map_of (tEntries c) k = Some a \<longrightarrow> map_of (tEntries c) l = Some a \<longrightarrow> k = l)"

definition typed_put :: "('t, 'v) TypedCache \<Rightarrow> string \<times> string \<Rightarrow> 'v \<Rightarrow> 't expirable \<Rightarrow> ('t, 'v) TypedCache" where
  "typed_put c k v e = SetTypeWithExpirable c (fst k) (snd k) v e"

definition typed_fetch :: "('t, 'v) TypedCache \<Rightarrow> 't \<Rightarrow> string \<times> string \<Rightarrow> 'v option \<times> ('t, 'v) TypedCache" where
  "typed_fetch c t k = GetType c t (fst k) (snd k)"

text \<open>Only entries expired at time \<open>t\<close> are gone, and with them inner maps that have become empty.\<close>

definition pruned :: "'t::preorder \<Rightarrow> ('t, 'v) TypedCache \<Rightarrow> ('t, 'v) TypedCache \<Rightarrow> bool" where
  "pruned t c c' \<longleftrightarrow> tNext c' = tNext c \<and> (distinct (map fst (tEntries c)) \<longrightarrow> distinct (map fst (tEntries c'))) \<and> (\<forall>a. map_ok (tInner c a) \<longrightarrow> map_ok (tInner c' a)) \<and>
     (\<forall>a x. map_of (tInner c' a) x = map_of (tInner c a) x \<or>
        (\<exists>e. map_of (tInner c a) x = Some e \<and> entry_exp e t \<and> map_of (tInner c' a) x = None)) \<and>
     (\<forall>k. map_of (tEntries c') k = map_of (tEntries c) k \<or>
        (\<exists>a. map_of (tEntries c) k = Some a \<and> map_of (tEntries c') k = None \<and> (\<forall>x. map_of (tInner c' a) x = None)))"

lemma pruned_refl: "pruned t c c"
  by (simp add: pruned_def)

lemma pruned_trans: "pruned t c c1 \<Longrightarrow> pruned t c1 c2 \<Longrightarrow> pruned t c c2"
  unfolding pruned_def by (intro conjI allI; metis)

lemma pruned_inv: "pruned t c c' \<Longrightarrow> typed_inv c \<Longrightarrow> typed_inv c'"
  unfolding pruned_def typed_inv_def by (metis option.distinct(1))

lemma pruned_key:
  "pruned t c c' \<Longrightarrow> map_of (tEntries c') k = map_of (tEntries c) k \<or>
     (\<exists>a. map_of (tEntries c) k = Some a \<and> map_of (tEntries c') k = None \<and> (\<forall>x. map_of (tInner c' a) x = None))"
  unfolding pruned_def by (elim conjE) (erule spec)

lemma pruned_look:
  assumes p: "pruned t c c'" and i: "typed_inv c" and tu: "t \<le> u"
  shows "typed_look c' u k = typed_look c u k"
proof (cases "map_of (tEntries c) (fst k)")
  case None
  then show ?thesis using pruned_key [OF p, of "fst k"] by (simp add: typed_look_def)
next
  case (Some a)
  have inner: "(case map_of (tInner c' a) (snd k) of None \<Rightarrow> None | Some e \<Rightarrow> if entry_exp e u then None else Some (entry_data e)) = typed_look c u k"
  proof (cases "map_of (tInner c' a) (snd k) = map_of (tInner c a) (snd k)")
    case False
    then obtain e where e: "map_of (tInner c a) (snd k) = Some e" "entry_exp e t" "map_of (tInner c' a) (snd k) = None"
      using p unfolding pruned_def by metis
    moreover have "entry_exp e u" using i e(1,2) tu unfolding typed_inv_def map_ok_def lasting_def by metis
    ultimately show ?thesis using Some by (simp add: typed_look_def)
  qed (simp add: typed_look_def Some)
  from p have "map_of (tEntries c') (fst k) = Some a \<or> map_of (tEntries c') (fst k) = None \<and> (\<forall>x. map_of (tInner c' a) x = None)"
    using pruned_key [OF p, of "fst k"] Some by auto
  then show ?thesis unfolding inner [symmetric] by (auto simp: typed_look_def)
qed

lemma Nil_map_of: "d = [] \<Longrightarrow> map_of d x = None"
  by simp

lemma pruned_inner:
  assumes "\<And>x. map_of d x = map_of (tInner c a) x \<or> (\<exists>e. map_of (tInner c a) x = Some e \<and> entry_exp e t \<and> map_of d x = None)"
    and "map_ok (tInner c a) \<Longrightarrow> map_ok d"
  shows "pruned t c (c\<lparr>tInner := (tInner c)(a := d)\<rparr>)"
  using assms by (simp add: pruned_def)

lemma pruned_entries:
  assumes "tInner c a = []" "map_of (tEntries c) k = Some a \<or> map_of (tEntries c) k = None"
  shows "pruned t c (c\<lparr>tEntries := dict_del k (tEntries c)\<rparr>)"
  using assms by (auto simp: pruned_def distinct_dict_del)

lemma pruned_evict:
  assumes r: "GetType_read c key typeKey = Some (a, e)" and x: "entry_exp e t"
  shows "pruned t c (GetType_evict c key typeKey a (entry_id e))"
proof -
  from r have e: "map_of (tEntries c) key = Some a" "map_of (tInner c a) typeKey = Some e"
    by (auto simp: GetType_read_def split: option.splits)
  let ?c = "c\<lparr>tInner := (tInner c)(a := dict_del typeKey (tInner c a))\<rparr>"
  have p: "pruned t c ?c" by (rule pruned_inner) (auto simp: e x map_ok_del)
  show ?thesis
  proof (cases "dict_del typeKey (tInner c a) = []")
    case True
    have "pruned t ?c (?c\<lparr>tEntries := dict_del key (tEntries ?c)\<rparr>)" by (rule pruned_entries [of _ a]) (simp_all add: e True)
    from pruned_trans [OF p this] show ?thesis by (simp add: GetType_evict_def e True)
  qed (simp add: GetType_evict_def e p)
qed

lemma pruned_GC_step:
  assumes m: "map_ok (tInner c a)" and k: "map_of (tEntries c) key = Some a \<or> map_of (tEntries c) key = None"
  shows "pruned t c (typed_GC_step t c (key, a))"
proof -
  let ?c = "c\<lparr>tInner := (tInner c)(a := drop_expired t (tInner c a))\<rparr>"
  have p: "pruned t c ?c" by (rule pruned_inner) (auto simp: map_of_drop [OF m] map_ok_drop split: option.split)
  show ?thesis
  proof (cases "drop_expired t (tInner c a) = []")
    case True
    have "pruned t ?c (?c\<lparr>tEntries := dict_del key (tEntries ?c)\<rparr>)" by (rule pruned_entries [of _ a]) (use k in \<open>simp_all add: True\<close>)
    from pruned_trans [OF p this] show ?thesis by (simp add: typed_GC_step_def True pruned_refl)
  qed (simp add: typed_GC_step_def p pruned_refl)
qed

lemma pruned_GC_steps:
  assumes "typed_inv c" "\<forall>(k, a) \<in> set xs. map_of (tEntries c) k = Some a \<or> map_of (tEntries c) k = None"
  shows "pruned t c (foldl (typed_GC_step t) c xs)"
  using assms
proof (induction xs arbitrary: c)
  case (Cons x xs)
  obtain k a where x: "x = (k, a)" by (cases x)
  have p: "pruned t c (typed_GC_step t c x)" unfolding x
    by (rule pruned_GC_step) (use Cons.prems x in \<open>auto simp: typed_inv_def\<close>)
  have "\<forall>(k, a) \<in> set xs. map_of (tEntries (typed_GC_step t c x)) k = Some a \<or> map_of (tEntries (typed_GC_step t c x)) k = None"
  proof (intro ballI)
    fix e
    assume e: "e \<in> set xs"
    obtain l b where lb: "e = (l, b)" by (cases e)
    with Cons.prems(2) e have "map_of (tEntries c) l = Some b \<or> map_of (tEntries c) l = None" by auto
    then show "case e of (k, a) \<Rightarrow> map_of (tEntries (typed_GC_step t c x)) k = Some a \<or> map_of (tEntries (typed_GC_step t c x)) k = None"
      using pruned_key [OF p, of l] lb by auto
  qed
  from pruned_trans [OF p Cons.IH [OF pruned_inv [OF p Cons.prems(1)] this]] show ?case by simp
qed (simp add: pruned_refl)

lemma pruned_GC: "typed_inv c \<Longrightarrow> pruned t c (typed_GC c t)"
  unfolding typed_GC_def by (rule pruned_GC_steps) (auto simp: typed_inv_def)

lemma pruned_fetch: "pruned t c (snd (typed_fetch c t k))"
  by (auto simp: typed_fetch_def GetType_def pruned_refl pruned_evict split: option.split)


lemma typed_put_inv: "typed_inv c \<Longrightarrow> lasting e \<Longrightarrow> typed_inv (typed_put c k v e)"
  unfolding typed_inv_def
  by (auto simp: typed_put_def SetTypeWithExpirable_def map_ok_set map_ok_set [OF map_ok_Nil, simplified] less_Suc_eq
        simp del: map_of_eq_Some_iff Some_eq_map_of_iff split: option.splits if_splits)

lemma typed_look_put:
  assumes "typed_inv c"
  shows "typed_look (typed_put c k v e) t x = (if x = k then (if e t then None else Some v) else typed_look c t x)"
proof -
  from assms have fresh: "map_of (tEntries c) l \<noteq> Some (tNext c)" for l unfolding typed_inv_def by (metis less_irrefl)
  from assms have inj: "map_of (tEntries c) l = Some a \<Longrightarrow> map_of (tEntries c) m = Some a \<Longrightarrow> l = m" for l m a
    unfolding typed_inv_def by blast
  show ?thesis
    by (cases k; cases x)
       (auto simp: typed_look_def typed_put_def SetTypeWithExpirable_def fresh dest: inj split: option.split)
qed

interpretation tc: expiring_cache typed_look typed_put typed_fetch typed_GC typed_inv
proof unfold_locales
  fix c :: "('t::preorder, 'v) TypedCache" and e :: "'t expirable" and k v t u
  assume c: "typed_inv c"
  show "typed_inv (typed_put c k v e)" if "lasting e" by (rule typed_put_inv [OF c that])
  show "typed_look (typed_put c k v e) t = (\<lambda>x. if x = k then (if e t then None else Some v) else typed_look c t x)"
    by (rule ext) (rule typed_look_put [OF c])
  show "fst (typed_fetch c t k) = typed_look c t k"
    by (auto simp: typed_fetch_def GetType_def GetType_read_def typed_look_def split: option.split)
  show "typed_inv (snd (typed_fetch c t k))" by (rule pruned_inv [OF pruned_fetch c])
  show "typed_inv (typed_GC c t)" by (rule pruned_inv [OF pruned_GC [OF c] c])
  show "typed_look (snd (typed_fetch c t k)) u = typed_look c u" if "t \<le> u"
    by (rule ext) (rule pruned_look [OF pruned_fetch c that])
  show "typed_look (typed_GC c t) u = typed_look c u" if "t \<le> u"
    by (rule ext) (rule pruned_look [OF pruned_GC [OF c] c that])
qed

section \<open>Caches that the program can reach\<close>

text \<open>
  Any sequence of calls on a fresh cache.  A lookup that meets an expired entry contributes its second critical
  section as a step of its own, at any later point and with whatever map and entry it had read.
\<close>

inductive keyed_reach :: "(int, 'v) KeyedCache \<Rightarrow> bool" where
  "keyed_reach (NewKeyedCache ttl)"
| "keyed_reach c \<Longrightarrow> keyed_reach (keyed_Set c now key v)"
| "keyed_reach c \<Longrightarrow> keyed_reach (keyed_SetWithTTL c now key v ttl)"
| "keyed_reach c \<Longrightarrow> keyed_reach (keyed_Get_evict c key i)"
| "keyed_reach c \<Longrightarrow> keyed_reach (keyed_Delete c key)"
| "keyed_reach c \<Longrightarrow> keyed_reach (snd (keyed_Pop c key))"
| "keyed_reach c \<Longrightarrow> keyed_reach (keyed_Clear c)"
| "keyed_reach c \<Longrightarrow> keyed_reach (keyed_GC c now)"

inductive typed_reach :: "(int, 'v) TypedCache \<Rightarrow> bool" where
  "typed_reach (NewTypedCache ttl)"
| "typed_reach c \<Longrightarrow> typed_reach (SetType c now key typeKey v)"
| "typed_reach c \<Longrightarrow> typed_reach (SetTypeWithTTL c now key typeKey v ttl)"
| "typed_reach c \<Longrightarrow> typed_reach (GetType_evict c key typeKey a i)"
| "typed_reach c \<Longrightarrow> typed_reach (DeleteKey c key)"
| "typed_reach c \<Longrightarrow> typed_reach (typed_Clear c)"
| "typed_reach c \<Longrightarrow> typed_reach (typed_GC c now)"

lemma keyed_reach_inv: "keyed_reach c \<Longrightarrow> map_ok (kEntries c)"
proof (induction rule: keyed_reach.induct)
  case (2 c now key v)
  show ?case unfolding keyed_Set_def by (rule kc.put_inv [OF 2(2) lasting_ExpirationTime])
next
  case (3 c now key v ttl)
  show ?case unfolding keyed_SetWithTTL_def by (rule kc.put_inv [OF 3(2) lasting_ExpirationTime])
next
  case (8 c now)
  show ?case by (rule kc.collect_inv [OF 8(2)])
qed (auto simp: NewKeyedCache_def keyed_Get_evict_def keyed_Delete_def keyed_Pop_def keyed_Clear_def map_ok_del split: option.split)

lemma del_inv: "typed_inv c \<Longrightarrow> typed_inv (c\<lparr>tEntries := dict_del key (tEntries c)\<rparr>)"
  by (auto simp: typed_inv_def distinct_dict_del split: if_splits)

lemma inner_inv: "typed_inv c \<Longrightarrow> typed_inv (c\<lparr>tInner := (tInner c)(a := dict_del x (tInner c a))\<rparr>)"
  by (auto simp: typed_inv_def map_ok_del)

lemma SetTypeWithExpirable_inv: "typed_inv c \<Longrightarrow> typed_inv (SetTypeWithExpirable c key typeKey v (ExpirationTime t))"
  using typed_put_inv [OF _ lasting_ExpirationTime, of c "(key, typeKey)"] by (simp add: typed_put_def)

lemma typed_reach_inv: "typed_reach c \<Longrightarrow> typed_inv c"
proof (induction rule: typed_reach.induct)
  case (4 c key typeKey a i)
  show ?case using del_inv [OF inner_inv [OF 4(2), of a typeKey], of key] inner_inv [OF 4(2), of a typeKey] 4(2)
    by (auto simp: GetType_evict_def Let_def split: option.split)
next
  case (7 c now)
  show ?case by (rule tc.collect_inv [OF 7(2)])
qed (auto simp: NewTypedCache_def typed_inv_def [of "\<lparr>tEntries = _, tInner = _, tTtl = _, tNext = _\<rparr>"] SetType_def SetTypeWithTTL_def SetTypeWithExpirable_inv DeleteKey_def del_inv typed_Clear_def
   intro: del_inv, auto simp: typed_inv_def)

section \<open>Properties\<close>

text \<open>C35: In every cache that the operations can reach, interrupted lookups included, a value that was set is what a lookup returns until its
  time to live has passed and nothing afterwards, whatever complete lookups and garbage collections of the same cache, at
  times up to that of the lookup, came between; this holds of the keyed and of the typed cache.  A lookup of another goroutine that is
  between its two critical sections is not such a complete lookup: it can drop a fresh value (\<open>stale_lookup_loses_value\<close>).\<close>

theorem cached_until_expiry:
  assumes "keyed_reach c" "\<forall>x \<in> set xs. use_time x \<le> u" "typed_reach d" "\<forall>y \<in> set ys. use_time y \<le> u"
  shows "fst (keyed_Get (foldl (use_cache keyed_Get keyed_GC) (keyed_Set c now key v) xs) u key) = (if u \<le> now + kTtl c then Some v else None) \<and>
    fst (GetType (foldl (use_cache (\<lambda>c t (k, x). GetType c t k x) typed_GC) (SetType d now key typeKey w) ys) u key typeKey)
      = (if u \<le> now + tTtl d then Some w else None)"
proof
  show "fst (keyed_Get (foldl (use_cache keyed_Get keyed_GC) (keyed_Set c now key v) xs) u key) = (if u \<le> now + kTtl c then Some v else None)"
    using kc.fetch_after_put [OF keyed_reach_inv [OF assms(1)] lasting_ExpirationTime assms(2)]
    by (auto simp: keyed_Set_def ExpirationTime_def)
  have f: "typed_fetch = (\<lambda>c t (k, x). GetType c t k x)" by (simp add: typed_fetch_def fun_eq_iff)
  show "fst (GetType (foldl (use_cache (\<lambda>c t (k, x). GetType c t k x) typed_GC) (SetType d now key typeKey w) ys) u key typeKey)
      = (if u \<le> now + tTtl d then Some w else None)"
    using tc.fetch_after_put [OF typed_reach_inv [OF assms(3)] lasting_ExpirationTime assms(4), where k = "(key, typeKey)"]
    by (auto simp: SetType_def f typed_put_def ExpirationTime_def)
qed

theorem cached_until_expiry_witness:
  "fst (keyed_Get (foldl (use_cache keyed_Get keyed_GC) (keyed_Set (NewKeyedCache 60) 0 ''a'' (1::nat)) [UseGC 30, UseGet 50 ''a'']) 60 ''a'') = Some 1 \<and>
   fst (GetType (foldl (use_cache (\<lambda>c t (k, x). GetType c t k x) typed_GC) (SetType (NewTypedCache 10) 0 ''a'' ''b'' (2::nat)) [UseGC 11]) 60 ''a'' ''b'') = None"
proof -
  have "\<forall>x \<in> set [UseGC (30::int), UseGet 50 ''a'']. use_time x \<le> 60" "\<forall>x \<in> set [UseGC 11 :: (int, string \<times> string) cache_use]. use_time x \<le> 60"
    by simp_all
  from cached_until_expiry [OF keyed_reach.intros(1) this(1) typed_reach.intros(1) this(2), of 60 0 "''a''" "1::nat" 10 "''b''" "2::nat"]
  show ?thesis by (simp add: NewKeyedCache_def NewTypedCache_def)
qed

text \<open>A typed-cache lookup that finds an expired entry, and whose key is deleted and set again before it takes the
  lock a second time, removes the key from the cache because the map it still holds has become empty: the value just
  set is lost although it has not expired.\<close>

theorem stale_lookup_loses_value:
  "\<exists>c a e. typed_reach c \<and> GetType_read c key typeKey = Some (a, e) \<and> entry_exp e 2 \<and>
     (let c' = SetTypeWithTTL (DeleteKey c key) 2 key typeKey w 60
      in fst (GetType c' 3 key typeKey) = Some w \<and> fst (GetType (GetType_evict c' key typeKey a (entry_id e)) 3 key typeKey) = None)"
proof -
  define c where "c = SetTypeWithTTL (NewTypedCache 60) 0 key typeKey w 1"
  have "typed_reach c" unfolding c_def by (intro typed_reach.intros)
  moreover have "GetType_read c key typeKey = Some (0, \<lparr>entry_id = 1, entry_data = w, entry_exp = ExpirationTime 1\<rparr>)"
    by (simp add: c_def GetType_read_def SetTypeWithTTL_def SetTypeWithExpirable_def NewTypedCache_def)
  moreover have "ExpirationTime 1 2" by (simp add: ExpirationTime_def)
  moreover have "let c' = SetTypeWithTTL (DeleteKey c key) 2 key typeKey w 60
      in fst (GetType c' 3 key typeKey) = Some w \<and> fst (GetType (GetType_evict c' key typeKey 0 1) 3 key typeKey) = None"
    by (simp add: c_def GetType_read_def SetTypeWithTTL_def SetTypeWithExpirable_def NewTypedCache_def DeleteKey_def GetType_def GetType_evict_def ExpirationTime_def dict_del_def Let_def)
  ultimately show ?thesis by (metis CacheEntry.select_convs(1,3))
qed

end
