(* ===== verification/Mounts.thy ===== *)
theory Mounts
  imports Path_Utils "HOL-Library.Word" "HOL-Library.Multiset" "HOL-Library.Char_ord" "HOL-Library.List_Lexorder" "HOL-Library.Product_Lexorder"
begin

text \<open>
  The mount table, the heart of the virtual file system: which storage serves a request path and under which name
  (\<open>internal/op/path.go\<close>), the choice among balanced storages and the virtual folders that lead to the mounts
  (\<open>internal/op/storage.go\<close>).  The concurrent map \<open>storagesMap\<close> is the list of its entries in the order in which
  \<open>Range\<close> happens to visit them.  \<open>sort.Slice\<close> is \<open>sort_key\<close>: the keys sorted by are distinct, so there is only one
  sorted order.  The callbacks that \<open>getStorageVirtualFilesByPath\<close> runs in goroutines are steps of their own.
\<close>

section \<open>The model\<close>

record Storage =
  StorageID :: nat
  MountPath :: string
  Order :: int
  DriverName :: string
  CacheExpiration :: int
  CustomCachePolicies :: string
  Status :: string
  Addition :: string
  Remark :: string
  Modified :: int
  Disabled :: bool
  OrderBy :: string
  OrderDirection :: string
  SortExtractFolder :: string

text \<open>A driver as the mount table sees it: the address of the driver object, the name of its configuration and the storage it
  wraps.  The table of the program holds pointers; two entries with the same address are one driver under two keys.\<close>

record Driver =
  DriverAddr :: nat
  ConfigName :: string
  GetStorage :: Storage

definition WORK :: string where "WORK = ''work''"

definition DISABLED :: string where "DISABLED = ''disabled''"

type_synonym storages = "(string \<times> Driver) list"

record mount_state =
  storagesMap :: storages
  balanceMap :: "string \<Rightarrow> nat option"

datatype storage_error = StorageNotFound string | NoMountPath string

abbreviation drv_mount :: "Driver \<Rightarrow> string" where
  "drv_mount d \<equiv> MountPath (GetStorage d)"

definition HasStorage :: "mount_state \<Rightarrow> string \<Rightarrow> bool" where
  "HasStorage s mountPath \<longleftrightarrow> map_of (storagesMap s) (FixAndCleanPath mountPath) \<noteq> None"

definition GetStorageByMountPath :: "mount_state \<Rightarrow> string \<Rightarrow> storage_error + Driver" where
  "GetStorageByMountPath s mountPath0 =
     (let mountPath = FixAndCleanPath mountPath0
      in case map_of (storagesMap s) mountPath of None \<Rightarrow> Inl (NoMountPath mountPath) | Some d \<Rightarrow> Inr d)"

text \<open>The callback of \<open>Range\<close> in \<open>getStoragesByPath\<close>, on the storages collected so far and the number of slashes of
  their mount path.\<close>

definition range_step :: "string \<Rightarrow> Driver list \<times> nat \<Rightarrow> string \<times> Driver \<Rightarrow> Driver list \<times> nat" where
  "range_step path acc e =
     (let (storages, curSlashCount) = acc; mountPath = GetActualMountPath (fst e)
      in if IsSubPath mountPath path
         then let slashCount = count_list (PathAddSeparatorSuffix mountPath) slash;
                  (storages, curSlashCount) = (if slashCount > curSlashCount then ([], slashCount) else (storages, curSlashCount))
              in if slashCount = curSlashCount then (storages @ [snd e], curSlashCount) else (storages, curSlashCount)
         else acc)"

definition getStoragesByPath :: "storages \<Rightarrow> string \<Rightarrow> Driver list" where
  "getStoragesByPath m path = sort_key drv_mount (fst (foldl (range_step path) ([], 0) m))"

text \<open>
  The counter of a group of balanced storages is read and written by two accesses to the concurrent map, \<open>LoadOrStore\<close> and
  \<open>Store\<close>, with nothing that keeps other requests out in between: the call is its part up to the load and its part from
  the store on.
\<close>

record balance_turn =
  btStorages :: "Driver list"
  btPath :: string
  btSeen :: nat

definition GetBalancedStorage_load :: "mount_state \<Rightarrow> string \<Rightarrow> (Driver option + balance_turn) \<times> mount_state" where
  "GetBalancedStorage_load s path0 =
     (let path = FixAndCleanPath path0; storages = getStoragesByPath (storagesMap s) path; storageNum = length storages
      in if storageNum = 0 then (Inl None, s)
         else if storageNum = 1 then (Inl (Some (storages ! 0)), s)
         else let virtualPath = GetActualMountPath (drv_mount (storages ! 0));
                  i = (case balanceMap s virtualPath of None \<Rightarrow> 0 | Some i \<Rightarrow> i)
              in (Inr \<lparr>btStorages = storages, btPath = virtualPath, btSeen = i\<rparr>, s\<lparr>balanceMap := (balanceMap s)(virtualPath \<mapsto> i)\<rparr>))"

definition GetBalancedStorage_store :: "balance_turn \<Rightarrow> mount_state \<Rightarrow> Driver option \<times> mount_state" where
  "GetBalancedStorage_store t s =
     (let i = (btSeen t + 1) mod length (btStorages t)
      in (Some (btStorages t ! i), s\<lparr>balanceMap := (balanceMap s)(btPath t \<mapsto> i)\<rparr>))"

definition GetBalancedStorage :: "mount_state \<Rightarrow> string \<Rightarrow> Driver option \<times> mount_state" where
  "GetBalancedStorage s path =
     (case GetBalancedStorage_load s path of (Inl r, s1) \<Rightarrow> (r, s1) | (Inr t, s1) \<Rightarrow> GetBalancedStorage_store t s1)"

definition not_found :: "string \<Rightarrow> storage_error" where
  "not_found rawPath =
     (if rawPath = ''/'' then StorageNotFound ''please add a storage first'' else StorageNotFound (''rawPath: '' @ rawPath))"

definition GetStorageAndActualPath :: "mount_state \<Rightarrow> string \<Rightarrow> (storage_error + Driver \<times> string) \<times> mount_state" where
  "GetStorageAndActualPath s rawPath0 =
     (let rawPath = FixAndCleanPath rawPath0; (storage, s') = GetBalancedStorage s rawPath
      in case storage of
           None \<Rightarrow> (Inl (not_found rawPath), s')
         | Some d \<Rightarrow>
             let mountPath = GetActualMountPath (drv_mount d)
             in (Inr (d, FixAndCleanPath (TrimPrefix rawPath mountPath)), s'))"

definition GetStorageVirtualMountPath :: "mount_state \<Rightarrow> string \<Rightarrow> storage_error + string" where
  "GetStorageVirtualMountPath s rawPath0 =
     (let rawPath = FixAndCleanPath rawPath0
      in case getStoragesByPath (storagesMap s) rawPath of
           [] \<Rightarrow> Inl (not_found rawPath)
         | d # _ \<Rightarrow> Inr (FixAndCleanPath (GetActualMountPath (drv_mount d))))"

section \<open>The group of storages that serves a path\<close>

text \<open>A call that no other call interrupts.\<close>

lemma GetBalancedStorage_eq:
  "GetBalancedStorage s path =
     (let storages = getStoragesByPath (storagesMap s) (FixAndCleanPath path); virtualPath = GetActualMountPath (drv_mount (storages ! 0));
          i = ((case balanceMap s virtualPath of None \<Rightarrow> 0 | Some i \<Rightarrow> i) + 1) mod length storages
      in if length storages = 0 then (None, s)
         else if length storages = 1 then (Some (storages ! 0), s)
         else (Some (storages ! i), s\<lparr>balanceMap := (balanceMap s)(virtualPath \<mapsto> i)\<rparr>))"
  by (simp add: GetBalancedStorage_def GetBalancedStorage_load_def GetBalancedStorage_store_def Let_def)

text \<open>What a mount path stands for: its names without the balance suffix.\<close>

definition mount_comps :: "string \<Rightarrow> string list" where
  "mount_comps k = fix_comps (GetActualMountPath k)"

text \<open>
  The keys of the table are the mount paths of the drivers, and dropping the balance suffix leaves a cleaned path (which
  fails only for mounts such as \<open>/a/.balance\<close>, see below).
\<close>

definition cleaned_mount :: "string \<Rightarrow> bool" where
  "cleaned_mount k \<longleftrightarrow> FixAndCleanPath (GetActualMountPath k) = GetActualMountPath k"

definition mounts_ok :: "storages \<Rightarrow> bool" where
  "mounts_ok m \<longleftrightarrow> distinct (map fst m) \<and> list_all (\<lambda>(k, d). drv_mount d = k \<and> cleaned_mount k) m"

definition group_of :: "storages \<Rightarrow> string list \<Rightarrow> Driver list" where
  "group_of m cs = sort_key drv_mount (map snd (filter (\<lambda>e. mount_comps (fst e) = cs) m))"

lemma mounts_okD:
  assumes "mounts_ok m" "(k, d) \<in> set m"
  shows "drv_mount d = k" "GetActualMountPath k = path_of (mount_comps k)"
  using assms by (auto simp: mounts_ok_def cleaned_mount_def list_all_iff mount_comps_def FixAndCleanPath_eq)

lemma count_path_of:
  "valid_names cs \<Longrightarrow> count_list (PathAddSeparatorSuffix (path_of cs)) slash = length cs + 1"
proof -
  have "valid_names cs \<Longrightarrow> count_list (concat (map ((#) slash) cs)) slash = length cs"
    by (induction cs) (auto simp: valid_name_def count_list_0_iff)
  then show "valid_names cs \<Longrightarrow> ?thesis"
    by (auto simp: PathAddSeparatorSuffix_path_of path_of_concat)
qed

text \<open>The loop keeps the elements of the best score seen so far.\<close>

lemma foldl_best:
  fixes score :: "'a \<Rightarrow> nat"
  assumes step: "\<And>acc best x. f (acc, best) x =
      (if P x then (if score x > best then ([g x], score x) else if score x = best then (acc @ [g x], best) else (acc, best)) else (acc, best))"
  shows "foldl f ([], 0) xs =
     (let best = Max (insert 0 (score ` {x \<in> set xs. P x})) in (map g (filter (\<lambda>x. P x \<and> score x = best) xs), best))"
proof (induction xs rule: rev_induct)
  case (snoc x xs)
  let ?S = "score ` {x \<in> set xs. P x}" and ?b = "Max (insert 0 (score ` {x \<in> set xs. P x}))"
  have fin: "finite (insert 0 ?S)" by simp
  have le: "score y \<le> ?b" if "y \<in> set xs" "P y" for y using that by (intro Max_ge) auto
  show ?case
  proof (cases "P x")
    case True
    have "score ` {y \<in> set (xs @ [x]). P y} = insert (score x) ?S" using True by auto
    then have b: "Max (insert 0 (score ` {y \<in> set (xs @ [x]). P y})) = max (score x) ?b"
      by (simp add: insert_commute [of 0] del: Max_insert) (subst Max_insert, auto)
    have none: "filter (\<lambda>y. P y \<and> score y = score x) xs = []" if "score x > ?b"
      using le that by (auto simp: filter_empty_conv)
    obtain best where best: "best = ?b" by simp
    show ?thesis using none True unfolding foldl_append snoc.IH Let_def b best [symmetric] by (auto simp: step max_def)
  next
    case False
    then have "{y \<in> set (xs @ [x]). P y} = {y \<in> set xs. P y}" by auto
    then show ?thesis using False by (simp add: snoc.IH step Let_def)
  qed
qed simp


lemma range_best:
  "foldl (range_step path) ([], 0) m =
     (let best = Max (insert 0 ((\<lambda>e. count_list (PathAddSeparatorSuffix (GetActualMountPath (fst e))) slash) `
            {e \<in> set m. IsSubPath (GetActualMountPath (fst e)) path}))
      in (map snd (filter (\<lambda>e. IsSubPath (GetActualMountPath (fst e)) path \<and>
            count_list (PathAddSeparatorSuffix (GetActualMountPath (fst e))) slash = best) m), best))"
  by (rule foldl_best) (auto simp: range_step_def Let_def)

lemma covering_iff: "IsSubPath (GetActualMountPath k) path \<longleftrightarrow> prefix (mount_comps k) (fix_comps path)"
  by (simp add: IsSubPath_iff mount_comps_def)

lemma getStoragesByPath_none:
  assumes "\<And>k d. (k, d) \<in> set m \<Longrightarrow> \<not> prefix (mount_comps k) (fix_comps path)"
  shows "getStoragesByPath m path = []"
proof -
  have "filter (\<lambda>e. IsSubPath (GetActualMountPath (fst e)) path \<and> Q e) m = []" for Q
    using assms by (auto simp: filter_empty_conv covering_iff)
  then show ?thesis by (simp add: getStoragesByPath_def range_best Let_def)
qed

lemma prefix_length_eqI: "prefix xs zs \<Longrightarrow> prefix ys zs \<Longrightarrow> length xs = length ys \<Longrightarrow> xs = ys"
  by (metis append_eq_append_conv prefix_def)

text \<open>The storages a path is served by: those of the deepest mount point above it.\<close>

lemma getStoragesByPath_group:
  assumes ok: "mounts_ok m" and k: "(k, d) \<in> set m" "prefix (mount_comps k) (fix_comps path)"
    and deepest: "\<And>k' d'. (k', d') \<in> set m \<Longrightarrow> prefix (mount_comps k') (fix_comps path) \<Longrightarrow> length (mount_comps k') \<le> length (mount_comps k)"
  shows "getStoragesByPath m path = group_of m (mount_comps k)"
proof -
  let ?score = "\<lambda>e. count_list (PathAddSeparatorSuffix (GetActualMountPath (fst e))) slash"
  have sc: "?score e = length (mount_comps (fst e)) + 1" if "e \<in> set m" for e
    using mounts_okD(2) [OF ok, of "fst e" "snd e"] that count_path_of [of "mount_comps (fst e)"] by (simp add: mount_comps_def)
  have best: "Max (insert 0 (?score ` {e \<in> set m. IsSubPath (GetActualMountPath (fst e)) path})) = length (mount_comps k) + 1"
  proof (rule Max_eqI)
    show "length (mount_comps k) + 1 \<in> insert 0 (?score ` {e \<in> set m. IsSubPath (GetActualMountPath (fst e)) path})"
      using k sc [OF k(1)] by (auto simp: covering_iff intro!: image_eqI [of _ _ "(k, d)"])
  qed (use deepest sc in \<open>fastforce simp: covering_iff\<close>)+
  have "filter (\<lambda>e. IsSubPath (GetActualMountPath (fst e)) path \<and> ?score e = length (mount_comps k) + 1) m =
      filter (\<lambda>e. mount_comps (fst e) = mount_comps k) m"
  proof (rule filter_cong [OF refl])
    fix e
    assume "e \<in> set m"
    then show "IsSubPath (GetActualMountPath (fst e)) path \<and> ?score e = length (mount_comps k) + 1 \<longleftrightarrow> mount_comps (fst e) = mount_comps k"
      using sc [of e] k(2) by (auto simp: covering_iff) (metis prefix_length_eqI prefix_same_cases)
  qed
  then show ?thesis by (simp add: getStoragesByPath_def range_best best group_of_def)
qed

lemma deepest_mount:
  assumes "(k0, d0) \<in> set m" "prefix (mount_comps k0) cs"
  obtains k d where "(k, d) \<in> set m" "prefix (mount_comps k) cs"
    "\<And>k' d'. (k', d') \<in> set m \<Longrightarrow> prefix (mount_comps k') cs \<Longrightarrow> length (mount_comps k') \<le> length (mount_comps k)"
proof -
  let ?A = "{e \<in> set m. prefix (mount_comps (fst e)) cs}" and ?f = "\<lambda>e. length (mount_comps (fst e))"
  have "finite (?f ` ?A)" "?f ` ?A \<noteq> {}" using assms by auto
  from Max_in [OF this] obtain e where e: "e \<in> ?A" "?f e = Max (?f ` ?A)" by auto
  have "?f x \<le> ?f e" if "x \<in> ?A" for x unfolding e(2) using that by (intro Max_ge) auto
  then show thesis using that [of "fst e" "snd e"] e(1) by force
qed

lemma set_group_of: "set (group_of m cs) = snd ` {e \<in> set m. mount_comps (fst e) = cs}"
  by (simp add: group_of_def)

lemma getStoragesByPath_cases:
  assumes "mounts_ok m"
  obtains (none) "getStoragesByPath m path = []" "\<And>k d. (k, d) \<in> set m \<Longrightarrow> \<not> prefix (mount_comps k) (fix_comps path)"
  | (group) cs where "getStoragesByPath m path = group_of m cs" "group_of m cs \<noteq> []" "prefix cs (fix_comps path)"
      "\<And>k d. (k, d) \<in> set m \<Longrightarrow> prefix (mount_comps k) (fix_comps path) \<Longrightarrow> prefix (mount_comps k) cs"
proof (cases "\<exists>k d. (k, d) \<in> set m \<and> prefix (mount_comps k) (fix_comps path)")
  case True
  then obtain k d where k: "(k, d) \<in> set m" "prefix (mount_comps k) (fix_comps path)"
    "\<And>k' d'. (k', d') \<in> set m \<Longrightarrow> prefix (mount_comps k') (fix_comps path) \<Longrightarrow> length (mount_comps k') \<le> length (mount_comps k)"
    using deepest_mount by metis
  show thesis
  proof (rule group)
    show "getStoragesByPath m path = group_of m (mount_comps k)" by (rule getStoragesByPath_group [OF assms k])
    show "group_of m (mount_comps k) \<noteq> []" using k(1) set_group_of [of m "mount_comps k"] by force
    show "prefix (mount_comps k') (mount_comps k)" if "(k', d') \<in> set m" "prefix (mount_comps k') (fix_comps path)" for k' d'
      using k(2,3) that by (metis prefix_length_prefix)
  qed (rule k(2))
qed (use none getStoragesByPath_none in blast)

lemma group_mount:
  assumes "mounts_ok m" "d \<in> set (group_of m cs)"
  shows "(drv_mount d, d) \<in> set m" "GetActualMountPath (drv_mount d) = path_of cs" "mount_comps (drv_mount d) = cs" "valid_names cs"
proof -
  from assms(2) obtain k where k: "(k, d) \<in> set m" "mount_comps k = cs" by (auto simp: set_group_of)
  note e = mounts_okD [OF assms(1) k(1)]
  show "(drv_mount d, d) \<in> set m" "GetActualMountPath (drv_mount d) = path_of cs" "mount_comps (drv_mount d) = cs"
    using k e by auto
  show "valid_names cs" using k(2) by (auto simp: mount_comps_def)
qed

lemma sort_key_perm:
  assumes "mset xs = mset ys" "inj_on f (set xs)"
  shows "sort_key f xs = sort_key f ys"
proof (rule map_inj_on)
  have "sort (map f xs) = map f (sort_key f zs)" if "mset zs = mset xs" for zs
    by (rule properties_for_sort) (use that in \<open>simp_all add: mset_map\<close>)
  from this [OF refl] this [OF assms(1) [symmetric]] show "map f (sort_key f xs) = map f (sort_key f ys)" by simp
  show "inj_on f (set (sort_key f xs) \<union> set (sort_key f ys))" using assms mset_eq_setD by fastforce
qed

text \<open>The order in which \<open>Range\<close> visits the table does not matter.\<close>

lemma group_of_perm:
  assumes "mounts_ok m" "mset m = mset m'"
  shows "group_of m cs = group_of m' cs"
  unfolding group_of_def
proof (rule sort_key_perm)
  let ?d = "\<lambda>m. map snd (filter (\<lambda>e. mount_comps (fst e) = cs) m)"
  show "mset (?d m) = mset (?d m')" using assms(2) by (metis mset_filter mset_map)
  have "map drv_mount (?d m) = map fst (filter (\<lambda>e. mount_comps (fst e) = cs) m)"
    using mounts_okD(1) [OF assms(1)] by auto
  moreover have "distinct (map fst (filter (\<lambda>e. mount_comps (fst e) = cs) m))"
    using assms(1) by (simp add: mounts_ok_def distinct_map_filter)
  ultimately show "inj_on drv_mount (set (?d m))" by (metis distinct_map)
qed


lemma fix_comps_Cons_slash [simp]: "fix_comps (slash # p) = fix_comps p"
  by (simp add: fix_comps_def ReplaceAll1_def)

lemma fix_comps_Nil [simp]: "fix_comps [] = []"
  by (simp add: fix_comps_def ReplaceAll1_def clean_comps_def clean_step_def)

lemma path_of_append: "cs \<noteq> [] \<Longrightarrow> path_of (cs @ rest) = path_of cs @ (if rest = [] then [] else path_of rest)"
  by (simp add: path_of_concat)

lemma actual_path:
  assumes "fix_comps raw = cs @ rest"
  shows "FixAndCleanPath (TrimPrefix (FixAndCleanPath raw) (path_of cs)) = path_of rest"
proof -
  have "fix_comps (path_of rest) = rest"
    using assms fix_comps_valid [of raw] fix_comps_no_backslash [of _ raw] by (intro fix_comps_path_of) auto
  then have "fix_comps (TrimPrefix (path_of (cs @ rest)) (path_of cs)) = rest"
    by (cases "cs = []") (auto simp: TrimPrefix_def path_of_append HasPrefix_iff, auto simp: path_of_def)
  then show ?thesis by (simp add: FixAndCleanPath_eq assms)
qed

lemma getStoragesByPath_clean [simp]: "getStoragesByPath m (FixAndCleanPath path) = getStoragesByPath m path"
proof -
  have "range_step (FixAndCleanPath path) = range_step path" by (simp add: range_step_def covering_iff fun_eq_iff)
  then show ?thesis by (simp add: getStoragesByPath_def)
qed

lemma GetBalancedStorage_pick:
  "GetBalancedStorage s path = (r, s') \<Longrightarrow> storagesMap s' = storagesMap s \<and>
     (case r of None \<Rightarrow> getStoragesByPath (storagesMap s) path = [] | Some d \<Rightarrow> d \<in> set (getStoragesByPath (storagesMap s) path))"
proof -
  have "xs ! (i mod length xs) \<in> set xs" if "xs \<noteq> []" for i and xs :: "Driver list" using that by (auto intro: nth_mem)
  then show "GetBalancedStorage s path = (r, s') \<Longrightarrow> ?thesis"
    by (auto simp only: GetBalancedStorage_eq Let_def getStoragesByPath_clean length_0_conv nth_mem less_numeral_extra split: if_splits) (auto simp: nth_mem)
qed

section \<open>Round robin\<close>

primrec requests :: "mount_state \<Rightarrow> string list \<Rightarrow> Driver option list" where
  "requests s [] = []"
| "requests s (p # ps) = fst (GetBalancedStorage s p) # requests (snd (GetBalancedStorage s p)) ps"

text \<open>Where the counter of a group stands.\<close>

definition balance_pos :: "mount_state \<Rightarrow> Driver list \<Rightarrow> nat" where
  "balance_pos s G = (case balanceMap s (GetActualMountPath (drv_mount (hd G))) of None \<Rightarrow> 0 | Some i \<Rightarrow> i)"

lemma same_group:
  assumes "mounts_ok m" "getStoragesByPath m p = G" "getStoragesByPath m q = H" "G \<noteq> []" "H \<noteq> []"
    "GetActualMountPath (drv_mount (hd G)) = GetActualMountPath (drv_mount (hd H))"
  shows "G = H"
proof -
  from getStoragesByPath_cases [OF assms(1), of p] assms(2,4) obtain cs where c: "G = group_of m cs" by metis
  from getStoragesByPath_cases [OF assms(1), of q] assms(3,5) obtain ds where d: "H = group_of m ds" by metis
  have "hd G \<in> set (group_of m cs)" "hd H \<in> set (group_of m ds)" using c d assms(4,5) by auto
  from group_mount [OF assms(1) this(1)] group_mount [OF assms(1) this(2)] have "cs = ds"
    using assms(6) path_of_inject by metis
  then show ?thesis by (simp add: c d)
qed

lemma balance_step:
  assumes "mounts_ok (storagesMap s)" "getStoragesByPath (storagesMap s) g = G" "G \<noteq> []"
  shows "getStoragesByPath (storagesMap s) p = G \<Longrightarrow> fst (GetBalancedStorage s p) = Some (G ! ((balance_pos s G + 1) mod length G))"
    and "balance_pos (snd (GetBalancedStorage s p)) G mod length G =
       (if getStoragesByPath (storagesMap s) p = G then (balance_pos s G + 1) mod length G else balance_pos s G mod length G)"
proof -
  let ?H = "getStoragesByPath (storagesMap s) p"
  have hd: "xs ! 0 = hd xs" if "xs \<noteq> []" for xs :: "Driver list" using that by (cases xs) auto
  show "fst (GetBalancedStorage s p) = Some (G ! ((balance_pos s G + 1) mod length G))" if "?H = G"
    using that assms(3) hd [OF assms(3)] by (cases "length G = 1") (auto simp: GetBalancedStorage_eq Let_def balance_pos_def)
  show "balance_pos (snd (GetBalancedStorage s p)) G mod length G =
       (if ?H = G then (balance_pos s G + 1) mod length G else balance_pos s G mod length G)"
  proof (cases "length ?H > 1")
    case False
    then have "?H = [] \<or> length ?H = 1" by (cases ?H) auto
    then show ?thesis using assms(3) by (auto simp: GetBalancedStorage_eq Let_def)
  next
    case True
    then have "?H \<noteq> []" by auto
    then have "?H = G \<longleftrightarrow> GetActualMountPath (drv_mount (hd ?H)) = GetActualMountPath (drv_mount (hd G))"
      using same_group [OF assms(1) refl assms(2) _ assms(3)] by auto
    then show ?thesis using True hd [OF \<open>?H \<noteq> []\<close>] by (auto simp: GetBalancedStorage_eq Let_def balance_pos_def)
  qed
qed

lemma round_robin:
  assumes "mounts_ok (storagesMap s)" "getStoragesByPath (storagesMap s) g = G" "G \<noteq> []"
  shows "map snd (filter (\<lambda>e. getStoragesByPath (storagesMap s) (fst e) = G) (zip ps (requests s ps))) =
    map (\<lambda>i. Some (G ! ((balance_pos s G + 1 + i) mod length G))) [0..<length (filter (\<lambda>p. getStoragesByPath (storagesMap s) p = G) ps)]"
  using assms(1,2)
proof (induction ps arbitrary: s)
  case (Cons p ps)
  let ?s = "snd (GetBalancedStorage s p)" and ?k = "length (filter (\<lambda>p. getStoragesByPath (storagesMap s) p = G) ps)"
  have m: "storagesMap ?s = storagesMap s" using GetBalancedStorage_pick [of s p] by (metis prod.collapse)
  note IH = Cons.IH [of ?s, unfolded m, OF Cons.prems]
  note b = balance_step [OF Cons.prems assms(3)]
  have shift: "(balance_pos ?s G + 1 + i) mod length G = (balance_pos s G + 1 + (if getStoragesByPath (storagesMap s) p = G then Suc i else i)) mod length G" for i
    using b(2) [of p] by (auto simp: mod_add_left_eq [of "balance_pos ?s G" _ "1 + i", symmetric] add.assoc) (metis (no_types) add_Suc mod_Suc_eq mod_add_left_eq)+
  show ?case
  proof (cases "getStoragesByPath (storagesMap s) p = G")
    case True
    have "[0..<Suc ?k] = 0 # map Suc [0..<?k]" by (simp add: upt_conv_Cons map_Suc_upt del: upt_Suc)
    with True IH b(1) [OF True] shift show ?thesis by (simp add: comp_def del: upt_Suc)
  qed (use IH shift in simp)
qed simp


lemma getStoragesByPath_member:
  assumes "d \<in> set (getStoragesByPath m path)"
  obtains k where "(k, d) \<in> set m" "prefix (mount_comps k) (fix_comps path)"
    "\<And>k' d'. (k', d') \<in> set m \<Longrightarrow> prefix (mount_comps k') (fix_comps path) \<Longrightarrow>
       count_list (PathAddSeparatorSuffix (GetActualMountPath k')) slash \<le> count_list (PathAddSeparatorSuffix (GetActualMountPath k)) slash"
proof -
  let ?score = "\<lambda>e. count_list (PathAddSeparatorSuffix (GetActualMountPath (fst e))) slash"
  let ?A = "{e \<in> set m. IsSubPath (GetActualMountPath (fst e)) path}"
  from assms obtain e where e: "e \<in> ?A" "snd e = d" "?score e = Max (insert 0 (?score ` ?A))"
    by (auto simp: getStoragesByPath_def range_best Let_def)
  have "?score x \<le> ?score e" if "x \<in> ?A" for x unfolding e(3) using that by (intro Max_ge) auto
  then show thesis using that [of "fst e"] e(1,2) by (force simp: covering_iff)
qed

lemma getStoragesByPath_empty:
  assumes "getStoragesByPath m path = []" "(k, d) \<in> set m"
  shows "\<not> prefix (mount_comps k) (fix_comps path)"
proof
  assume "prefix (mount_comps k) (fix_comps path)"
  let ?score = "\<lambda>e. count_list (PathAddSeparatorSuffix (GetActualMountPath (fst e))) slash"
  let ?A = "{e \<in> set m. IsSubPath (GetActualMountPath (fst e)) path}"
  have "(k, d) \<in> ?A" using \<open>prefix _ _\<close> assms(2) by (simp add: covering_iff)
  then have n: "finite (?score ` ?A)" "?score ` ?A \<noteq> {}" by auto
  then have "Max (?score ` ?A) \<in> ?score ` ?A" "Max (insert 0 (?score ` ?A)) = Max (?score ` ?A)"
    using Max_in [OF n] Max_insert [OF n, of 0] by simp_all
  then obtain e where "e \<in> ?A" "?score e = Max (insert 0 (?score ` ?A))" by force
  then have "snd e \<in> set (getStoragesByPath m path)" by (auto simp: getStoragesByPath_def range_best Let_def)
  then show False by (simp add: assms(1))
qed

text \<open>Every table whose keys are the mount paths of the drivers.\<close>

lemma route_spec:
  assumes "list_all (\<lambda>(k, d). drv_mount d = k) (storagesMap s)"
  shows "case fst (GetStorageAndActualPath s raw) of
     Inl _ \<Rightarrow> list_all (\<lambda>(k, _). \<not> IsSubPath (GetActualMountPath k) raw) (storagesMap s)
   | Inr (d, actual) \<Rightarrow> (drv_mount d, d) \<in> set (storagesMap s) \<and> IsSubPath (GetActualMountPath (drv_mount d)) raw \<and>
       (cleaned_mount (drv_mount d) \<longrightarrow> GetFullPath (drv_mount d) actual = FixAndCleanPath raw \<and>
         list_all (\<lambda>(k, _). cleaned_mount k \<and> IsSubPath (GetActualMountPath k) raw \<longrightarrow>
           IsSubPath (GetActualMountPath k) (GetActualMountPath (drv_mount d))) (storagesMap s))"
proof -
  let ?m = "storagesMap s" and ?p = "FixAndCleanPath raw"
  obtain r s' where g: "GetBalancedStorage s ?p = (r, s')" by (cases "GetBalancedStorage s ?p")
  note pick = GetBalancedStorage_pick [OF g]
  show ?thesis
  proof (cases r)
    case None
    then have "getStoragesByPath ?m raw = []" using pick by simp
    from getStoragesByPath_empty [OF this] None show ?thesis by (auto simp: GetStorageAndActualPath_def g covering_iff list_all_iff)
  next
    case (Some d)
    let ?k = "drv_mount d"
    from Some pick have "d \<in> set (getStoragesByPath ?m raw)" by simp
    then obtain k where k: "(k, d) \<in> set ?m" "prefix (mount_comps k) (fix_comps raw)"
      "\<And>k' d'. (k', d') \<in> set ?m \<Longrightarrow> prefix (mount_comps k') (fix_comps raw) \<Longrightarrow>
         count_list (PathAddSeparatorSuffix (GetActualMountPath k')) slash \<le> count_list (PathAddSeparatorSuffix (GetActualMountPath k)) slash"
      by (elim getStoragesByPath_member) (rule that)
    then have kd: "k = ?k" using assms by (auto simp: list_all_iff)
    have clean: "GetActualMountPath k' = path_of (mount_comps k')" if "cleaned_mount k'" for k'
      using that by (simp add: cleaned_mount_def mount_comps_def FixAndCleanPath_eq)
    have slashes: "count_list (PathAddSeparatorSuffix (GetActualMountPath k')) slash = length (mount_comps k') + 1" if "cleaned_mount k'" for k'
      using clean [OF that] count_path_of [of "mount_comps k'"] by (simp add: mount_comps_def)
    have "GetFullPath ?k (FixAndCleanPath (TrimPrefix ?p (GetActualMountPath ?k))) = ?p" if "cleaned_mount ?k"
    proof -
      from k(2) kd obtain rest where rest: "fix_comps raw = mount_comps ?k @ rest" by (auto simp: prefix_def)
      have "valid_names (mount_comps ?k @ rest)" using fix_comps_valid [of raw] rest by simp
      then show ?thesis using rest actual_path [OF rest] clean [OF that] by (simp add: GetFullPath_def PathJoin_path_of FixAndCleanPath_eq)
    qed
    moreover have "prefix (mount_comps k') (mount_comps ?k)"
      if "cleaned_mount ?k" "(k', d') \<in> set ?m" "cleaned_mount k'" "prefix (mount_comps k') (fix_comps raw)" for k' d'
    proof -
      have "length (mount_comps k') \<le> length (mount_comps ?k)"
        using k(3) [OF that(2,4)] unfolding kd slashes [OF that(1)] slashes [OF that(3)] by simp
      then show ?thesis using that(4) k(2) unfolding kd by (rule prefix_length_prefix [rotated 2])
    qed
    then have "cleaned_mount ?k \<Longrightarrow> list_all (\<lambda>(k, _). cleaned_mount k \<and> IsSubPath (GetActualMountPath k) raw \<longrightarrow>
        IsSubPath (GetActualMountPath k) (GetActualMountPath ?k)) ?m"
      by (auto simp: list_all_iff covering_iff mount_comps_def [of ?k, symmetric])
    moreover have "IsSubPath (GetActualMountPath ?k) raw" using k(2) kd by (simp add: covering_iff)
    ultimately show ?thesis using k(1) kd unfolding GetStorageAndActualPath_def g Some Let_def by simp
  qed
qed

section \<open>Properties\<close>

text \<open>C1: In a table whose keys are the mount paths of the drivers, as every table is that the program reaches, a request path is
  served by a storage mounted at it or above it, and refused exactly when there is none.  If cutting the balance suffix from the mount path
  of that storage leaves a cleaned path, which it does not for a mount such as \<open>/a/.balance\<close>, the path handed to the
  driver is the rest of the request path, so that joining it to the mount path gives the request path back, and of all mounts with
  such paths at or above the request path none is mounted deeper.\<close>

theorem route_correct:
  assumes "list_all (\<lambda>(k, d). drv_mount d = k) (storagesMap s)"
  shows "case fst (GetStorageAndActualPath s raw) of
     Inl _ \<Rightarrow> list_all (\<lambda>(k, _). \<not> IsSubPath (GetActualMountPath k) raw) (storagesMap s)
   | Inr (d, actual) \<Rightarrow> (drv_mount d, d) \<in> set (storagesMap s) \<and> IsSubPath (GetActualMountPath (drv_mount d)) raw \<and>
       (cleaned_mount (drv_mount d) \<longrightarrow> GetFullPath (drv_mount d) actual = FixAndCleanPath raw \<and>
         list_all (\<lambda>(k, _). cleaned_mount k \<and> IsSubPath (GetActualMountPath k) raw \<longrightarrow>
           IsSubPath (GetActualMountPath k) (GetActualMountPath (drv_mount d))) (storagesMap s))"
  by (rule route_spec [OF assms])

definition sample_driver :: "nat \<Rightarrow> string \<Rightarrow> Driver" where
  "sample_driver i k = \<lparr>DriverAddr = i, ConfigName = ''Local'', GetStorage = \<lparr>StorageID = i, MountPath = k, Order = 0, DriverName = ''Local'',
     CacheExpiration = 30, CustomCachePolicies = [], Status = ''work'', Addition = [], Remark = [], Modified = 0, Disabled = False,
     OrderBy = [], OrderDirection = [], SortExtractFolder = []\<rparr>\<rparr>"

lemma sample_driver_inj [simp]: "sample_driver i k = sample_driver j l \<longleftrightarrow> i = j \<and> k = l"
  by (simp add: sample_driver_def)

definition sample_mounts :: mount_state where
  "sample_mounts = \<lparr>storagesMap = map (\<lambda>(i, k). (k, sample_driver i k)) [(1, ''/a''), (2, ''/a/b''), (3, ''/a/b.balance1'')],
     balanceMap = (\<lambda>_. None)\<rparr>"

lemma sample_mounts_ok: "mounts_ok (storagesMap sample_mounts)"
  by (simp add: mounts_ok_def cleaned_mount_def sample_mounts_def sample_driver_def, code_simp)

lemma sample_group:
  "getStoragesByPath (storagesMap sample_mounts) ''/a/b/c'' = [sample_driver 2 ''/a/b'', sample_driver 3 ''/a/b.balance1'']"
  "getStoragesByPath (storagesMap sample_mounts) ''/a/x'' = [sample_driver 1 ''/a'']"
  "getStoragesByPath (storagesMap sample_mounts) ''/b'' = []"
  by code_simp+

theorem route_correct_witness:
  "fst (GetStorageAndActualPath sample_mounts ''/a/b/c'') = Inr (sample_driver 3 ''/a/b.balance1'', ''/c'') \<and>
   GetFullPath ''/a/b.balance1'' ''/c'' = FixAndCleanPath ''/a/b/c''"
proof -
  have "fst (GetStorageAndActualPath sample_mounts ''/a/b/c'') = Inr (sample_driver 3 ''/a/b.balance1'', ''/c'')"
    by code_simp
  moreover have "drv_mount (sample_driver 3 ''/a/b.balance1'') = ''/a/b.balance1''" by (simp add: sample_driver_def)
  moreover have "cleaned_mount ''/a/b.balance1''" by code_simp
  moreover have "list_all (\<lambda>(k, d). drv_mount d = k) (storagesMap sample_mounts)"
    using sample_mounts_ok by (auto simp: mounts_ok_def list_all_iff)
  ultimately show ?thesis using route_correct [of sample_mounts "''/a/b/c''"] by simp
qed

text \<open>C22: In a table in which every driver stands under its own mount path and no balance suffix leaves an uncleaned path, the
  storages of a balanced mount point are used in turn by calls of \<open>GetBalancedStorage\<close> that do not overlap: whatever calls
  are made, for paths of this and of other mount points, those for paths of one group get its storages one after the other in the
  order of their mount paths, starting after the group's counter and wrapping around.  (A folder listing makes two such calls.)\<close>

theorem balance_round_robin:
  assumes "mounts_ok (storagesMap s)" "getStoragesByPath (storagesMap s) g = G" "G \<noteq> []"
  shows "map snd (filter (\<lambda>e. getStoragesByPath (storagesMap s) (fst e) = G) (zip ps (requests s ps))) =
    map (\<lambda>i. Some (G ! ((balance_pos s G + 1 + i) mod length G))) [0..<length (filter (\<lambda>p. getStoragesByPath (storagesMap s) p = G) ps)]"
  by (rule round_robin [OF assms])

theorem balance_round_robin_witness:
  "map snd (filter (\<lambda>e. getStoragesByPath (storagesMap sample_mounts) (fst e) = [sample_driver 2 ''/a/b'', sample_driver 3 ''/a/b.balance1''])
     (zip [''/a/b/c'', ''/a/x'', ''/a/b/c'', ''/a/b/c''] (requests sample_mounts [''/a/b/c'', ''/a/x'', ''/a/b/c'', ''/a/b/c'']))) =
   [Some (sample_driver 3 ''/a/b.balance1''), Some (sample_driver 2 ''/a/b''), Some (sample_driver 3 ''/a/b.balance1'')]"
proof -
  have "balance_pos sample_mounts [sample_driver 2 ''/a/b'', sample_driver 3 ''/a/b.balance1''] = 0"
    by (simp add: balance_pos_def sample_mounts_def)
  then show ?thesis
    by (subst balance_round_robin [OF sample_mounts_ok sample_group(1)]) (simp_all add: sample_group sample_driver_inj upt_rec mod_Suc)
qed

text \<open>Calls that overlap: two requests that both read the counter before either writes it take the same turn.\<close>

lemma overlapping_calls_share_turn:
  assumes "GetBalancedStorage_load s p = (Inr t, s1)" "GetBalancedStorage_load s1 p = (Inr t', s2)"
  shows "fst (GetBalancedStorage_store t' (snd (GetBalancedStorage_store t s2))) = fst (GetBalancedStorage_store t s2)"
proof -
  have "t' = t" using assms by (auto simp: GetBalancedStorage_load_def Let_def split: if_splits)
  then show ?thesis by (simp add: GetBalancedStorage_store_def Let_def)
qed

text \<open>
  Where a mount path is not cleaned by dropping its balance suffix the routing goes wrong: the storage mounted at
  \<open>/a/.balance\<close> is asked for \<open>/a\<close> when its root is meant.
\<close>

lemma route_uncleaned_mount:
  "fst (GetStorageAndActualPath \<lparr>storagesMap = [(''/a/.balance'', sample_driver 1 ''/a/.balance'')], balanceMap = (\<lambda>_. None)\<rparr> ''/a'') =
     Inr (sample_driver 1 ''/a/.balance'', ''/a'')"
  by code_simp

end
