(* ===== verification/Objects.thy ===== *)
theory Objects
  imports Main "HOL-Library.Word"
begin

unbundle bit_operations_syntax

text \<open>
  The objects a listing consists of: \<open>internal/model/obj.go\<close> and \<open>internal/model/object.go\<close>.  An \<open>Obj\<close> is one of the
  types these files declare; a type switch of the source is a case distinction on the constructor.  Times are numbers.
\<close>

section \<open>The model\<close>

type_synonym ObjMask = "8 word"

definition Virtual :: ObjMask where "Virtual = push_bit 0 1"

definition NoRename :: ObjMask where "NoRename = push_bit 1 1"

definition NoRemove :: ObjMask where "NoRemove = push_bit 2 1"

definition NoMove :: ObjMask where "NoMove = push_bit 3 1"

definition NoCopy :: ObjMask where "NoCopy = push_bit 4 1"

definition NoWrite :: ObjMask where "NoWrite = push_bit 5 1"

definition Temp :: ObjMask where "Temp = push_bit 6 1"

definition Locked :: ObjMask where "Locked = NoRename OR NoRemove OR NoMove"

definition ReadOnly :: ObjMask where "ReadOnly = Locked OR NoWrite"

record Object =
  oID :: string
  oPath :: string
  oName :: string
  oSize :: int
  oDuration :: int
  oModified :: int
  oCtime :: "int option"
  oIsFolder :: bool
  oMask :: ObjMask

text \<open>Disk usage as the driver reports it: total and used space.\<close>

record StorageDetails =
  TotalSpace :: int
  UsedSpace :: int

datatype Obj =
    Obj Object
  | ObjThumb Object string
  | ObjectURL Object string
  | ObjThumbURL Object string string
  | ObjectProvider Object string
  | ObjNamed Object string
  | ObjWrapName string Obj
  | ObjWrapMask Obj ObjMask
  | ObjStorageDetails Obj "StorageDetails option"

text \<open>\<open>ObjNamed\<close> stands for the types of drivers that implement \<open>ObjDisplayName\<close>, with the name to display.  The fields of the embedded
  \<open>Object\<close>:\<close>

fun object_of :: "Obj \<Rightarrow> Object" where
  "object_of (Obj x) = x"
| "object_of (ObjThumb x _) = x"
| "object_of (ObjectURL x _) = x"
| "object_of (ObjThumbURL x _ _) = x"
| "object_of (ObjectProvider x _) = x"
| "object_of (ObjNamed x _) = x"
| "object_of (ObjWrapName _ x) = object_of x"
| "object_of (ObjWrapMask x _) = object_of x"
| "object_of (ObjStorageDetails x _) = object_of x"

fun GetName :: "Obj \<Rightarrow> string" where
  "GetName (ObjWrapName name _) = name"
| "GetName (ObjWrapMask x _) = GetName x"
| "GetName (ObjStorageDetails x _) = GetName x"
| "GetName x = oName (object_of x)"

definition GetSize :: "Obj \<Rightarrow> int" where
  "GetSize x = oSize (object_of x)"

definition IsDir :: "Obj \<Rightarrow> bool" where
  "IsDir x = oIsFolder (object_of x)"

definition ModTime :: "Obj \<Rightarrow> int" where
  "ModTime x = oModified (object_of x)"

definition CreateTime :: "Obj \<Rightarrow> int" where
  "CreateTime x = (case oCtime (object_of x) of None \<Rightarrow> ModTime x | Some t \<Rightarrow> t)"

text \<open>The loops that look for a property through the wrappers.\<close>

fun GetThumb :: "Obj \<Rightarrow> string option" where
  "GetThumb (ObjThumb _ t) = Some t"
| "GetThumb (ObjThumbURL _ t _) = Some t"
| "GetThumb (ObjWrapName _ x) = GetThumb x"
| "GetThumb (ObjWrapMask x _) = GetThumb x"
| "GetThumb (ObjStorageDetails x _) = GetThumb x"
| "GetThumb _ = None"

fun GetUrl :: "Obj \<Rightarrow> string option" where
  "GetUrl (ObjectURL _ u) = Some u"
| "GetUrl (ObjThumbURL _ _ u) = Some u"
| "GetUrl (ObjWrapName _ x) = GetUrl x"
| "GetUrl (ObjWrapMask x _) = GetUrl x"
| "GetUrl (ObjStorageDetails x _) = GetUrl x"
| "GetUrl _ = None"

fun GetProvider :: "Obj \<Rightarrow> string \<times> bool" where
  "GetProvider (ObjectProvider _ p) = (p, True)"
| "GetProvider (ObjWrapName _ x) = GetProvider x"
| "GetProvider (ObjWrapMask x _) = GetProvider x"
| "GetProvider (ObjStorageDetails x _) = GetProvider x"
| "GetProvider _ = (''unknown'', False)"

fun GetObjMask :: "Obj \<Rightarrow> ObjMask" where
  "GetObjMask (ObjWrapMask _ m) = m"
| "GetObjMask (ObjWrapName _ x) = GetObjMask x"
| "GetObjMask (ObjStorageDetails x _) = GetObjMask x"
| "GetObjMask x = oMask (object_of x)"

definition ObjHasMask :: "Obj \<Rightarrow> ObjMask \<Rightarrow> bool" where
  "ObjHasMask x m \<longleftrightarrow> GetObjMask x AND m \<noteq> 0"

fun GetDisplayName :: "Obj \<Rightarrow> string option" where
  "GetDisplayName (ObjNamed _ n) = Some n"
| "GetDisplayName _ = None"

definition WrapObjName :: "(string \<Rightarrow> string) \<Rightarrow> Obj \<Rightarrow> Obj" where
  "WrapObjName MappingName x =
     (let name = (case GetDisplayName x of Some n \<Rightarrow> n | None \<Rightarrow> GetName x) in ObjWrapName (MappingName name) x)"

definition WrapObjsName :: "(string \<Rightarrow> string) \<Rightarrow> Obj list \<Rightarrow> Obj list" where
  "WrapObjsName MappingName objs = map (WrapObjName MappingName) objs"

fun UnwrapObjName :: "Obj \<Rightarrow> Obj" where
  "UnwrapObjName (ObjWrapName _ x) = x"
| "UnwrapObjName x = x"

text \<open>The comparison of \<open>SortFiles\<close>; \<open>natural.Less\<close> and \<open>sort.Slice\<close>, whose result on equal elements is not
  specified, are parameters.\<close>

definition files_less :: "(string \<Rightarrow> string \<Rightarrow> bool) \<Rightarrow> string \<Rightarrow> string \<Rightarrow> Obj \<Rightarrow> Obj \<Rightarrow> bool" where
  "files_less natural_Less orderBy orderDirection x y =
     (if orderBy = ''name'' then (let c = natural_Less (GetName x) (GetName y) in if orderDirection = ''desc'' then \<not> c else c)
      else if orderBy = ''size'' then (if orderDirection = ''desc'' then GetSize x \<ge> GetSize y else GetSize x \<le> GetSize y)
      else if orderBy = ''modified'' then (if orderDirection = ''desc'' then ModTime x > ModTime y else ModTime x < ModTime y)
      else False)"

definition SortFiles :: "((Obj \<Rightarrow> Obj \<Rightarrow> bool) \<Rightarrow> Obj list \<Rightarrow> Obj list) \<Rightarrow> (string \<Rightarrow> string \<Rightarrow> bool) \<Rightarrow> Obj list \<Rightarrow> string \<Rightarrow> string \<Rightarrow> Obj list" where
  "SortFiles sort_Slice natural_Less objs orderBy orderDirection =
     (if orderBy = [] then objs else sort_Slice (files_less natural_Less orderBy orderDirection) objs)"

text \<open>\<open>sort.SliceStable\<close> with the comparison of \<open>ExtractFolder\<close>, which is a stable sort by one bit.\<close>

definition ExtractFolder :: "Obj list \<Rightarrow> string \<Rightarrow> Obj list" where
  "ExtractFolder objs extractFolder =
     (if extractFolder = [] then objs
      else let front = (extractFolder = ''front'') in sort_key (\<lambda>x. if IsDir x = front then 0 else 1 :: nat) objs)"

subsection \<open>Merging lists of objects\<close>

record ObjMerge =
  omRegs :: "(string \<Rightarrow> bool) list"
  omSet :: "string set"

definition NewObjMerge :: ObjMerge where
  "NewObjMerge = \<lparr>omRegs = [], omSet = {}\<rparr>"

definition clickObj :: "ObjMerge \<Rightarrow> Obj \<Rightarrow> bool \<times> ObjMerge" where
  "clickObj om obj =
     (if list_ex (\<lambda>re. re (GetName obj)) (omRegs om) then (False, om)
      else (GetName obj \<notin> omSet om, om\<lparr>omSet := insert (GetName obj) (omSet om)\<rparr>))"

fun insertObjs :: "ObjMerge \<Rightarrow> Obj list \<Rightarrow> Obj list \<Rightarrow> Obj list \<times> ObjMerge" where
  "insertObjs om objs [] = (objs, om)"
| "insertObjs om objs (obj # rest) =
     (let (fresh, om') = clickObj om obj in insertObjs om' (if fresh then objs @ [obj] else objs) rest)"

definition Merge :: "ObjMerge \<Rightarrow> Obj list \<Rightarrow> Obj list \<Rightarrow> Obj list \<times> ObjMerge" where
  "Merge om objs objs' =
     (let (newObjs, om1) = insertObjs om [] objs in insertObjs om1 newObjs objs')"

text \<open>\<open>regexp2.MustCompile\<close> is the parameter \<open>compile\<close>; it panics (\<open>None\<close>) on a pattern that is not one.\<close>

fun compile_all :: "(string \<Rightarrow> (string \<Rightarrow> bool) option) \<Rightarrow> string list \<Rightarrow> (string \<Rightarrow> bool) list option" where
  "compile_all compile [] = Some []"
| "compile_all compile (r # rs) =
     (case compile r of
        None \<Rightarrow> None
      | Some re \<Rightarrow> (case compile_all compile rs of None \<Rightarrow> None | Some res \<Rightarrow> Some (re # res)))"

definition om_Reset :: "ObjMerge \<Rightarrow> ObjMerge" where
  "om_Reset om = om\<lparr>omSet := {}\<rparr>"

section \<open>Masks\<close>

lemmas mask_defs = Virtual_def NoRename_def NoRemove_def NoMove_def NoCopy_def NoWrite_def Temp_def Locked_def ReadOnly_def

lemma mask_values: "Locked OR Virtual = 15" "ReadOnly OR Virtual = 47"
  by (simp_all add: mask_defs push_bit_eq_mult)

section \<open>Merging\<close>

text \<open>Whether an object is let through by itself.\<close>

definition om_shows :: "ObjMerge \<Rightarrow> Obj \<Rightarrow> bool" where
  "om_shows om x \<longleftrightarrow> \<not> list_ex (\<lambda>re. re (GetName x)) (omRegs om)"

text \<open>The first object of every name not seen before.\<close>

fun first_of_name :: "string set \<Rightarrow> Obj list \<Rightarrow> Obj list" where
  "first_of_name seen [] = []"
| "first_of_name seen (x # xs) =
     (if GetName x \<in> seen then first_of_name seen xs else x # first_of_name (insert (GetName x) seen) xs)"

lemma insertObjs_eq:
  "insertObjs om objs xs =
     (objs @ first_of_name (omSet om) (filter (om_shows om) xs), om\<lparr>omSet := omSet om \<union> GetName ` {x \<in> set xs. om_shows om x}\<rparr>)"
proof (induction om objs xs rule: insertObjs.induct)
  case (2 om objs obj rest)
  have s: "om_shows (om\<lparr>omSet := S\<rparr>) = om_shows om" for S by (simp add: om_shows_def fun_eq_iff)
  show ?case
  proof (cases "om_shows om obj")
    case True
    then have "clickObj om obj = (GetName obj \<notin> omSet om, om\<lparr>omSet := insert (GetName obj) (omSet om)\<rparr>)"
      by (simp add: clickObj_def om_shows_def)
    then show ?thesis using 2 True by (auto simp: s insert_absorb intro!: arg_cong [where f = "\<lambda>S. om\<lparr>omSet := S\<rparr>"])
  next
    case False
    then have "clickObj om obj = (False, om)" by (simp add: clickObj_def om_shows_def)
    then show ?thesis using 2 False by (auto intro!: arg_cong [where f = "\<lambda>S. om\<lparr>omSet := S\<rparr>"])
  qed
qed simp

lemma first_of_name_append:
  "first_of_name seen (xs @ ys) = first_of_name seen xs @ first_of_name (seen \<union> GetName ` set xs) ys"
  by (induction seen xs rule: first_of_name.induct) (auto simp: insert_absorb)

lemma Merge_eq: "fst (Merge om xs ys) = first_of_name (omSet om) (filter (om_shows om) (xs @ ys))"
proof -
  have s: "om_shows (om\<lparr>omSet := S\<rparr>) = om_shows om" for S by (simp add: om_shows_def fun_eq_iff)
  have "GetName ` {x \<in> set xs. om_shows om x} = GetName ` set (filter (om_shows om) xs)" by auto
  then show ?thesis by (simp add: Merge_def insertObjs_eq s first_of_name_append)
qed

lemma first_of_name_distinct:
  "distinct (map GetName (first_of_name seen xs)) \<and> GetName ` set (first_of_name seen xs) = GetName ` set xs - seen"
  by (induction seen xs rule: first_of_name.induct) auto

lemma first_of_name_subset: "set (first_of_name seen xs) \<subseteq> set xs"
  by (induction seen xs rule: first_of_name.induct) auto

end
