(* ===== verification/Virtual_Files.thy ===== *)
theory Virtual_Files
  imports Mounts Objects
begin

text \<open>
  The folders that exist only because a storage is mounted below them: \<open>getStorageVirtualFilesByPath\<close> and its two
  callers in \<open>internal/op/storage.go\<close>.  The loop over the storages is one process; each call of the callback, which the
  code starts in a goroutine, is a later step that replaces one element of the result.
\<close>

section \<open>The model\<close>

record virtual_state =
  vFiles :: "Obj list"
  vSet :: "string \<Rightarrow> nat option"
  vPending :: "(Driver \<times> nat) list"

definition CutPrefix :: "string \<Rightarrow> string \<Rightarrow> string option" where
  "CutPrefix s p = (if HasPrefix s p then Some (drop (length p) s) else None)"

definition virtual_object :: "string \<Rightarrow> int \<Rightarrow> ObjMask \<Rightarrow> Object" where
  "virtual_object name modified m =
     \<lparr>oID = [], oPath = [], oName = name, oSize = 0, oDuration = 0, oModified = modified, oCtime = None, oIsFolder = True, oMask = m\<rparr>"

text \<open>One turn of the loop; \<open>None\<close> is the panic of the type assertion \<open>files[idx].(*model.Object)\<close>.\<close>

definition virtual_step :: "bool \<Rightarrow> string \<Rightarrow> string \<Rightarrow> virtual_state \<Rightarrow> Driver \<Rightarrow> virtual_state option" where
  "virtual_step callback pre filterByName st v =
     (case CutPrefix (GetActualMountPath (drv_mount v)) pre of
        None \<Rightarrow> Some st
      | Some p \<Rightarrow>
          if p = [] then Some st
          else let (name, _, found) = Cut p slash
               in if filterByName \<noteq> [] \<and> name \<noteq> filterByName then Some st
                  else case vSet st name of
                    Some idx \<Rightarrow>
                      if \<not> found
                      then (case vFiles st ! idx of
                              Obj x \<Rightarrow> Some (st\<lparr>vFiles := (vFiles st)[idx := Obj (x\<lparr>oMask := Locked OR Virtual\<rparr>)],
                                 vPending := (if callback then vPending st @ [(v, idx)] else vPending st)\<rparr>)
                            | _ \<Rightarrow> None)
                      else Some st
                  | None \<Rightarrow>
                      let idx = length (vFiles st); m = (if \<not> found then Locked OR Virtual else ReadOnly OR Virtual)
                      in Some (st\<lparr>vSet := (vSet st)(name \<mapsto> idx),
                           vFiles := vFiles st @ [Obj (virtual_object name (Modified (GetStorage v)) m)],
                           vPending := (if callback \<and> \<not> found then vPending st @ [(v, idx)] else vPending st)\<rparr>))"

primrec virtual_loop :: "bool \<Rightarrow> string \<Rightarrow> string \<Rightarrow> Driver list \<Rightarrow> virtual_state \<Rightarrow> virtual_state option" where
  "virtual_loop callback pre filterByName [] st = Some st"
| "virtual_loop callback pre filterByName (v # vs) st =
     (case virtual_step callback pre filterByName st v of None \<Rightarrow> None | Some st' \<Rightarrow> virtual_loop callback pre filterByName vs st')"

definition sorted_storages :: "storages \<Rightarrow> Driver list" where
  "sorted_storages m = sort_key (\<lambda>d. (Order (GetStorage d), drv_mount d)) (map snd m)"

definition virtual_start :: virtual_state where
  "virtual_start = \<lparr>vFiles = [], vSet = (\<lambda>_. None), vPending = []\<rparr>"

definition slash_suffix :: "string \<Rightarrow> string" where
  "slash_suffix pre = (if \<not> HasSuffix pre ''/'' then pre @ ''/'' else pre)"

text \<open>Without a callback the loop is all there is.\<close>

definition getStorageVirtualFilesByPath :: "storages \<Rightarrow> string \<Rightarrow> string \<Rightarrow> Obj list option" where
  "getStorageVirtualFilesByPath m pre filterByName =
     map_option vFiles (virtual_loop False (slash_suffix pre) filterByName (sorted_storages m) virtual_start)"

definition GetStorageVirtualFilesByPath :: "storages \<Rightarrow> string \<Rightarrow> Obj list option" where
  "GetStorageVirtualFilesByPath m pre = getStorageVirtualFilesByPath m pre []"

text \<open>The callback that fetches the storage's details; \<open>details\<close> is \<open>None\<close> for an error or a timeout.\<close>

definition details_callback :: "(Driver \<Rightarrow> StorageDetails option) \<Rightarrow> Driver \<Rightarrow> Obj \<Rightarrow> Obj" where
  "details_callback details d obj =
     (case obj of ObjStorageDetails _ _ \<Rightarrow> obj | _ \<Rightarrow> ObjStorageDetails obj (details d))"

text \<open>With a callback: the schedule says when the loop advances and when the \<open>i\<close>-th pending callback returns.\<close>

datatype virtual_event = Advance | Complete nat

fun virtual_run :: "(Driver \<Rightarrow> Obj \<Rightarrow> Obj) \<Rightarrow> string \<Rightarrow> string \<Rightarrow> virtual_event list \<Rightarrow> Driver list \<Rightarrow> virtual_state \<Rightarrow> (Driver list \<times> virtual_state) option" where
  "virtual_run cb pre filterByName [] vs st = Some (vs, st)"
| "virtual_run cb pre filterByName (Advance # es) [] st = virtual_run cb pre filterByName es [] st"
| "virtual_run cb pre filterByName (Advance # es) (v # vs) st =
     (case virtual_step True pre filterByName st v of None \<Rightarrow> None | Some st' \<Rightarrow> virtual_run cb pre filterByName es vs st')"
| "virtual_run cb pre filterByName (Complete i # es) vs st =
     (if i < length (vPending st)
      then let (v, idx) = vPending st ! i
           in virtual_run cb pre filterByName es vs
                (st\<lparr>vFiles := (vFiles st)[idx := cb v (vFiles st ! idx)],
                    vPending := take i (vPending st) @ drop (i + 1) (vPending st)\<rparr>)
      else virtual_run cb pre filterByName es vs st)"

definition GetStorageVirtualFilesWithDetailsByPath ::
  "storages \<Rightarrow> (Driver \<Rightarrow> StorageDetails option) \<Rightarrow> virtual_event list \<Rightarrow> string \<Rightarrow> bool \<Rightarrow> string \<Rightarrow> Obj list option" where
  "GetStorageVirtualFilesWithDetailsByPath m details schedule pre hideDetails filterByName =
     (if hideDetails then getStorageVirtualFilesByPath m pre filterByName
      else map_option (\<lambda>(_, st). vFiles st)
             (virtual_run (details_callback details) (slash_suffix pre) filterByName schedule (sorted_storages m) virtual_start))"

section \<open>What the loop computes\<close>

text \<open>The first name of a mount below the folder with names \<open>P\<close>, and what is below it.\<close>

lemma CutPrefix_mount:
  assumes P: "valid_names P" and C: "valid_names C"
  shows "CutPrefix (path_of C) (slash_suffix (path_of P)) =
     (if prefix P C \<and> (P = [] \<or> P \<noteq> C) then Some (Join (drop (length P) C) ''/'') else None)"
proof (cases "P = []")
  case True
  then show ?thesis by (simp add: CutPrefix_def slash_suffix_def path_of_def HasSuffix_def)
next
  case False
  have s: "slash_suffix (path_of P) = path_of P @ [slash]"
    using PathAddSeparatorSuffix_path_of [OF P] False by (simp add: slash_suffix_def PathAddSeparatorSuffix_def)
  show ?thesis
  proof (cases "prefix P C \<and> P \<noteq> C")
    case True
    then obtain rest where rest: "C = P @ rest" "rest \<noteq> []" by (auto simp: prefix_def)
    then have "path_of C = (path_of P @ [slash]) @ Join rest ''/''" using False by (simp add: path_of_append) (simp add: path_of_def)
    then show ?thesis using True rest False s by (simp add: CutPrefix_def HasPrefix_iff)
  next
    case no: False
    have "\<not> prefix (path_of P @ [slash]) (path_of C)"
    proof (cases "P = C")
      case False
      then show ?thesis using prefix_path_of_iff [OF P C \<open>P \<noteq> []\<close>] no by auto
    qed (auto simp: prefix_def)
    then show ?thesis using False no s by (auto simp: CutPrefix_def HasPrefix_iff)
  qed
qed

lemma Cut_Join: "slash \<notin> set n \<Longrightarrow> Cut (Join (n # rest) ''/'') slash = (n, Join rest ''/'', rest \<noteq> [])"
  by (cases rest) (simp_all add: Cut_no_sep Cut_append)

abbreviation drv_comps :: "Driver \<Rightarrow> string list" where
  "drv_comps v \<equiv> mount_comps (drv_mount v)"

text \<open>The names a listing must show, and the state of the loop after the storages \<open>vs\<close>.\<close>

definition leads_to :: "string list \<Rightarrow> string \<Rightarrow> string \<Rightarrow> Driver \<Rightarrow> bool" where
  "leads_to P filt n v \<longleftrightarrow> prefix (P @ [n]) (drv_comps v) \<and> (filt = [] \<or> n = filt)"

definition virtual_mask :: "string list \<Rightarrow> Driver list \<Rightarrow> string \<Rightarrow> ObjMask" where
  "virtual_mask P vs n = (if \<exists>v \<in> set vs. drv_comps v = P @ [n] then Locked OR Virtual else ReadOnly OR Virtual)"

definition virtual_inv :: "string list \<Rightarrow> string \<Rightarrow> Driver list \<Rightarrow> virtual_state \<Rightarrow> bool" where
  "virtual_inv P filt vs st \<longleftrightarrow>
     (\<forall>f \<in> set (vFiles st). \<exists>n t. f = Obj (virtual_object n t (virtual_mask P vs n))) \<and>
     distinct (map GetName (vFiles st)) \<and>
     (\<forall>n i. vSet st n = Some i \<longleftrightarrow> i < length (vFiles st) \<and> GetName (vFiles st ! i) = n) \<and>
     (\<forall>n. n \<in> GetName ` set (vFiles st) \<longleftrightarrow> (\<exists>v \<in> set vs. leads_to P filt n v))"


lemma virtual_invD:
  assumes "virtual_inv P filt vs st"
  shows "f \<in> set (vFiles st) \<Longrightarrow> \<exists>n t. f = Obj (virtual_object n t (virtual_mask P vs n))"
    "distinct (map GetName (vFiles st))"
    "vSet st n = Some i \<longleftrightarrow> i < length (vFiles st) \<and> GetName (vFiles st ! i) = n"
    "n \<in> GetName ` set (vFiles st) \<longleftrightarrow> (\<exists>v \<in> set vs. leads_to P filt n v)"
  using assms unfolding virtual_inv_def by blast+

lemma virtual_mask_snoc:
  "virtual_mask P (vs @ [v]) n = (if drv_comps v = P @ [n] then Locked OR Virtual else virtual_mask P vs n)"
  by (auto simp: virtual_mask_def)

lemma oName_virtual [simp]: "oName (virtual_object n t m) = n"
  by (simp add: virtual_object_def)

lemma GetName_virtual: "GetName (Obj (virtual_object n t m)) = n"
  by simp

lemma mask_virtual [simp]: "(virtual_object n t m)\<lparr>oMask := m'\<rparr> = virtual_object n t m'"
  by (simp add: virtual_object_def)

text \<open>A storage that adds nothing to the names leaves the state as it is.\<close>

lemma virtual_inv_skip:
  assumes "virtual_inv P filt vs st" "\<And>n. leads_to P filt n v \<Longrightarrow> n \<in> GetName ` set (vFiles st)"
    "\<And>n. drv_comps v = P @ [n] \<Longrightarrow> n \<notin> GetName ` set (vFiles st)"
  shows "virtual_inv P filt (vs @ [v]) st"
proof -
  have files: "\<exists>n t. f = Obj (virtual_object n t (virtual_mask P (vs @ [v]) n))" if "f \<in> set (vFiles st)" for f
  proof -
    from virtual_invD(1) [OF assms(1) that] obtain n t where f: "f = Obj (virtual_object n t (virtual_mask P vs n))" by blast
    have "GetName f = n" using f by simp
    then have "n \<in> GetName ` set (vFiles st)" using that by blast
    then have "virtual_mask P (vs @ [v]) n = virtual_mask P vs n" using assms(3) by (auto simp: virtual_mask_snoc)
    with f show ?thesis by metis
  qed
  have names: "n \<in> GetName ` set (vFiles st) \<longleftrightarrow> (\<exists>u \<in> set (vs @ [v]). leads_to P filt n u)" for n
    using virtual_invD(4) [OF assms(1), of n] assms(2) [of n] by auto
  show ?thesis unfolding virtual_inv_def by (intro conjI ballI allI files names virtual_invD(2,3) [OF assms(1)])
qed

lemma virtual_inv_mask:
  assumes inv: "virtual_inv P filt vs st" and v: "drv_comps v = P @ [n]" and i: "vSet st n = Some i" "vFiles st ! i = Obj x"
  shows "virtual_inv P filt (vs @ [v]) (st\<lparr>vFiles := (vFiles st)[i := Obj (x\<lparr>oMask := Locked OR Virtual\<rparr>)]\<rparr>)"
proof -
  from inv i(1) have il: "i < length (vFiles st)" "GetName (vFiles st ! i) = n" unfolding virtual_inv_def by auto
  with inv obtain t where x: "x = virtual_object n t (virtual_mask P vs n)" using i(2) unfolding virtual_inv_def by (metis GetName_virtual Obj.inject(1) nth_mem)
  let ?fs = "(vFiles st)[i := Obj (x\<lparr>oMask := Locked OR Virtual\<rparr>)]"
  have names: "map GetName ?fs = map GetName (vFiles st)"
    using il by (intro nth_equalityI) (auto simp: nth_list_update x)
  have d: "distinct (map GetName (vFiles st))" using inv unfolding virtual_inv_def by blast
  have "\<exists>m t. ?fs ! j = Obj (virtual_object m t (virtual_mask P (vs @ [v]) m))" if j: "j < length ?fs" for j
  proof (cases "j = i")
    case True
    then show ?thesis using j by (auto simp: x virtual_mask_snoc v)
  next
    case False
    then have "GetName (vFiles st ! j) \<noteq> n" using d il j nth_eq_iff_index_eq [OF d] by auto
    moreover obtain m t where "vFiles st ! j = Obj (virtual_object m t (virtual_mask P vs m))"
      using inv j unfolding virtual_inv_def by (metis length_list_update nth_mem)
    ultimately show ?thesis using False by (auto simp: virtual_mask_snoc v)
  qed
  then have "\<forall>f \<in> set ?fs. \<exists>m t. f = Obj (virtual_object m t (virtual_mask P (vs @ [v]) m))" by (metis in_set_conv_nth)
  moreover have "set (map GetName ?fs) = GetName ` set (vFiles st)" using names by simp
  then have "GetName ` set ?fs = GetName ` set (vFiles st)" by simp
  moreover have "GetName (?fs ! j) = GetName (vFiles st ! j)" if "j < length (vFiles st)" for j
    using names that by (metis length_list_update nth_map)
  moreover have "n \<in> GetName ` set (vFiles st)" using il by force
  then have "m \<in> GetName ` set (vFiles st) \<longleftrightarrow> (\<exists>u \<in> set (vs @ [v]). leads_to P filt m u)" for m
    using v virtual_invD(4) [OF inv, of m] by (auto simp: leads_to_def)
  moreover have "vSet st m = Some j \<longleftrightarrow> j < length (vFiles st) \<and> GetName (vFiles st ! j) = m" for m j
    using inv unfolding virtual_inv_def by blast
  ultimately show ?thesis unfolding virtual_inv_def using names d by (auto simp del: map_update)
qed

lemma virtual_inv_add:
  assumes inv: "virtual_inv P filt vs st" and v: "drv_comps v = P @ n # rest" "filt = [] \<or> n = filt" and new: "vSet st n = None"
    and st': "vFiles st' = vFiles st @ [Obj (virtual_object n t (if rest = [] then Locked OR Virtual else ReadOnly OR Virtual))]"
    "vSet st' = (vSet st)(n \<mapsto> length (vFiles st))"
  shows "virtual_inv P filt (vs @ [v]) st'"
proof -
  have nn: "n \<notin> GetName ` set (vFiles st)"
  proof
    assume "n \<in> GetName ` set (vFiles st)"
    then obtain i where "i < length (vFiles st)" "GetName (vFiles st ! i) = n" by (metis in_set_conv_nth imageE)
    then show False using inv new unfolding virtual_inv_def by (metis option.distinct(1))
  qed
  have "virtual_mask P vs n = ReadOnly OR Virtual"
  proof -
    have "drv_comps u \<noteq> P @ [n]" if "u \<in> set vs" for u
    proof
      assume "drv_comps u = P @ [n]"
      then have "leads_to P filt n u" using v(2) by (auto simp: leads_to_def)
      then show False using nn inv that unfolding virtual_inv_def by blast
    qed
    then show ?thesis by (auto simp: virtual_mask_def)
  qed
  then have m: "virtual_mask P (vs @ [v]) n = (if rest = [] then Locked OR Virtual else ReadOnly OR Virtual)"
    by (simp add: virtual_mask_snoc v)
  have old: "\<exists>m t. f = Obj (virtual_object m t (virtual_mask P (vs @ [v]) m))" if "f \<in> set (vFiles st)" for f
  proof -
    from virtual_invD(1) [OF inv that] obtain m t where f: "f = Obj (virtual_object m t (virtual_mask P vs m))" by blast
    then have "GetName f = m" by simp
    then have "m \<noteq> n" using nn that by blast
    then show ?thesis using f by (auto simp: virtual_mask_snoc v)
  qed
  have lead: "leads_to P filt k v \<longleftrightarrow> k = n" for k using v by (auto simp: leads_to_def prefix_def)
  have "vSet st' k = Some i \<longleftrightarrow> i < length (vFiles st') \<and> GetName (vFiles st' ! i) = k" for k i
  proof -
    note k = virtual_invD(3) [OF inv]
    have "GetName (vFiles st ! i) \<noteq> n" if "i < length (vFiles st)" using nn nth_mem [OF that] by blast
    then show ?thesis using k [of k i] by (auto simp: st' nth_append less_Suc_eq)
  qed
  moreover have "k \<in> GetName ` set (vFiles st') \<longleftrightarrow> (\<exists>u \<in> set (vs @ [v]). leads_to P filt k u)" for k
    using virtual_invD(4) [OF inv, of k] lead [of k] by (auto simp: st')
  moreover have "\<exists>m t. f = Obj (virtual_object m t (virtual_mask P (vs @ [v]) m))" if "f \<in> set (vFiles st')" for f
  proof (cases "f \<in> set (vFiles st)")
    case False
    then have "f = Obj (virtual_object n t (virtual_mask P (vs @ [v]) n))" using that by (simp add: st' m)
    then show ?thesis by blast
  qed (rule old)
  moreover have "distinct (map GetName (vFiles st'))" using virtual_invD(2) [OF inv] nn by (simp add: st')
  ultimately show ?thesis unfolding virtual_inv_def by blast
qed

lemma virtual_inv_pending [simp]: "virtual_inv P filt vs (st\<lparr>vPending := x\<rparr>) = virtual_inv P filt vs st"
  by (simp add: virtual_inv_def)

lemma drv_comps_valid: "valid_names (drv_comps v)"
  by (simp add: mount_comps_def)

lemma virtual_step_inv:
  assumes inv: "virtual_inv P filt vs st" and P: "valid_names P" and v: "GetActualMountPath (drv_mount v) = path_of (drv_comps v)"
  shows "\<exists>st'. virtual_step False (slash_suffix (path_of P)) filt st v = Some st' \<and> virtual_inv P filt (vs @ [v]) st'"
proof (cases "\<exists>n rest. drv_comps v = P @ n # rest")
  case False
  then have np: "\<not> (prefix P (drv_comps v) \<and> P \<noteq> drv_comps v)" by (auto simp: prefix_def neq_Nil_conv)
  then have "CutPrefix (path_of (drv_comps v)) (slash_suffix (path_of P)) \<in> {None, Some []}"
    by (auto simp: CutPrefix_mount [OF P drv_comps_valid])
  then have "virtual_step False (slash_suffix (path_of P)) filt st v = Some st" by (auto simp: virtual_step_def v)
  moreover have "virtual_inv P filt (vs @ [v]) st"
    by (rule virtual_inv_skip [OF inv]) (use False in \<open>auto simp: leads_to_def prefix_def\<close>)
  ultimately show ?thesis by blast
next
  case True
  then obtain n rest where C: "drv_comps v = P @ n # rest" by blast
  have "valid_names (P @ n # rest)" using drv_comps_valid [of v] by (simp add: C)
  then have n: "n \<noteq> []" "slash \<notin> set n" by (auto simp: valid_name_def)
  have cut: "CutPrefix (GetActualMountPath (drv_mount v)) (slash_suffix (path_of P)) = Some (Join (n # rest) ''/'')"
    using CutPrefix_mount [OF P drv_comps_valid, of v] by (simp add: v C)
  have ne: "Join (n # rest) ''/'' \<noteq> []" using n by (cases rest) auto
  have step: "virtual_step False (slash_suffix (path_of P)) filt st v =
    (if filt \<noteq> [] \<and> n \<noteq> filt then Some st
     else case vSet st n of
       Some idx \<Rightarrow> if rest = [] then (case vFiles st ! idx of
           Obj x \<Rightarrow> Some (st\<lparr>vFiles := (vFiles st)[idx := Obj (x\<lparr>oMask := Locked OR Virtual\<rparr>)], vPending := vPending st\<rparr>) | _ \<Rightarrow> None) else Some st
     | None \<Rightarrow> Some (st\<lparr>vSet := (vSet st)(n \<mapsto> length (vFiles st)),
         vFiles := vFiles st @ [Obj (virtual_object n (Modified (GetStorage v)) (if rest = [] then Locked OR Virtual else ReadOnly OR Virtual))], vPending := vPending st\<rparr>))"
    unfolding virtual_step_def cut using ne by (simp add: Cut_Join [OF n(2)] del: Join.simps split: option.split Obj.split)
  show ?thesis
  proof (cases "filt \<noteq> [] \<and> n \<noteq> filt")
    case True
    have "virtual_inv P filt (vs @ [v]) st"
      by (rule virtual_inv_skip [OF inv]) (use True C inv in \<open>auto simp: leads_to_def virtual_inv_def\<close>)
    then show ?thesis using True by (simp add: step)
  next
    case f: False
    show ?thesis
    proof (cases "vSet st n")
      case None
      let ?st = "st\<lparr>vSet := (vSet st)(n \<mapsto> length (vFiles st)), vFiles := vFiles st @ [Obj (virtual_object n (Modified (GetStorage v)) (if rest = [] then Locked OR Virtual else ReadOnly OR Virtual))], vPending := vPending st\<rparr>"
      have "virtual_inv P filt (vs @ [v]) ?st" by (rule virtual_inv_add [OF inv C _ None]) (use f in auto)
      then show ?thesis unfolding step if_not_P [OF f] using None by simp
    next
      case (Some i)
      then have i: "i < length (vFiles st)" "GetName (vFiles st ! i) = n" using virtual_invD(3) [OF inv] by blast+
      from virtual_invD(1) [OF inv nth_mem [OF i(1)]] obtain x where x: "vFiles st ! i = Obj x" by blast
      show ?thesis
      proof (cases "rest = []")
        case True
        then show ?thesis unfolding step if_not_P [OF f] using Some x virtual_inv_mask [OF inv _ Some x, of v] C by simp
      next
        case False
        have "virtual_inv P filt (vs @ [v]) st"
        proof (rule virtual_inv_skip [OF inv])
          show "m \<in> GetName ` set (vFiles st)" if "leads_to P filt m v" for m
            using that C i(2) nth_mem [OF i(1)] by (auto simp: leads_to_def prefix_def)
        qed (use C False in auto)
        then show ?thesis unfolding step if_not_P [OF f] using Some False by simp
      qed
    qed
  qed
qed


lemma virtual_loop_inv:
  assumes "virtual_inv P filt us st" "valid_names P" "\<And>v. v \<in> set vs \<Longrightarrow> GetActualMountPath (drv_mount v) = path_of (drv_comps v)"
  shows "\<exists>st'. virtual_loop False (slash_suffix (path_of P)) filt vs st = Some st' \<and> virtual_inv P filt (us @ vs) st'"
  using assms(1,3)
proof (induction vs arbitrary: us st)
  case (Cons v vs)
  from virtual_step_inv [OF Cons.prems(1) assms(2) Cons.prems(2)] obtain st1 where
    st1: "virtual_step False (slash_suffix (path_of P)) filt st v = Some st1" "virtual_inv P filt (us @ [v]) st1" by auto
  from Cons.IH [OF st1(2)] Cons.prems(2) show ?case by (simp add: st1(1))
qed simp

lemma virtual_inv_start: "virtual_inv P filt [] virtual_start"
  by (simp add: virtual_inv_def virtual_start_def)

lemma set_sorted_storages: "set (sorted_storages m) = snd ` set m"
  by (simp add: sorted_storages_def)

lemma sorted_storages_mounts:
  assumes "mounts_ok m" "v \<in> set (sorted_storages m)"
  shows "(drv_mount v, v) \<in> set m" "GetActualMountPath (drv_mount v) = path_of (drv_comps v)"
  using assms(2) mounts_okD [OF assms(1)] by (auto simp: set_sorted_storages)

lemma virtual_files_spec:
  assumes "mounts_ok m" "valid_names P"
  shows "\<exists>files. getStorageVirtualFilesByPath m (path_of P) filt = Some files \<and> distinct (map GetName files) \<and>
    set (map GetName files) = {n. (filt = [] \<or> n = filt) \<and> (\<exists>(k, d) \<in> set m. prefix (P @ [n]) (mount_comps k))} \<and>
    list_all (\<lambda>f. IsDir f \<and> GetObjMask f = (if \<exists>(k, d) \<in> set m. mount_comps k = P @ [GetName f] then Locked OR Virtual else ReadOnly OR Virtual)) files"
proof -
  from virtual_loop_inv [OF virtual_inv_start assms(2) sorted_storages_mounts(2) [OF assms(1)], where vs = "sorted_storages m"]
  obtain st where st: "virtual_loop False (slash_suffix (path_of P)) filt (sorted_storages m) virtual_start = Some st"
    and inv: "virtual_inv P filt (sorted_storages m) st" by auto
  have mounts: "(\<exists>v \<in> set (sorted_storages m). Q (drv_mount v)) \<longleftrightarrow> (\<exists>(k, d) \<in> set m. Q k)" for Q
  proof
    assume "\<exists>v \<in> set (sorted_storages m). Q (drv_mount v)"
    then show "\<exists>(k, d) \<in> set m. Q k" using sorted_storages_mounts(1) [OF assms(1)] by blast
  next
    assume "\<exists>(k, d) \<in> set m. Q k"
    then obtain k d where kd: "(k, d) \<in> set m" "Q k" by blast
    moreover have "d \<in> set (sorted_storages m)" using kd(1) by (force simp: set_sorted_storages)
    ultimately show "\<exists>v \<in> set (sorted_storages m). Q (drv_mount v)" using mounts_okD(1) [OF assms(1) kd(1)] by blast
  qed
  have "GetName ` set (vFiles st) = {n. (filt = [] \<or> n = filt) \<and> (\<exists>(k, d) \<in> set m. prefix (P @ [n]) (mount_comps k))}"
  proof (rule set_eqI)
    fix n
    show "n \<in> GetName ` set (vFiles st) \<longleftrightarrow> n \<in> {n. (filt = [] \<or> n = filt) \<and> (\<exists>(k, d) \<in> set m. prefix (P @ [n]) (mount_comps k))}"
      using mounts [of "\<lambda>k. prefix (P @ [n]) (mount_comps k)"] by (auto simp: virtual_invD(4) [OF inv] leads_to_def)
  qed
  moreover have "IsDir f \<and> GetObjMask f = (if \<exists>(k, d) \<in> set m. mount_comps k = P @ [GetName f] then Locked OR Virtual else ReadOnly OR Virtual)"
    if "f \<in> set (vFiles st)" for f
  proof -
    from virtual_invD(1) [OF inv that] obtain n t where "f = Obj (virtual_object n t (virtual_mask P (sorted_storages m) n))" by blast
    then show ?thesis using mounts [of "\<lambda>k. mount_comps k = P @ [n]"] by (simp add: IsDir_def virtual_object_def virtual_mask_def)
  qed
  ultimately show ?thesis using virtual_invD(2) [OF inv] by (auto simp: getStorageVirtualFilesByPath_def st list_all_iff)
qed

lemma sample_mount_comps: "mount_comps ''/a'' = [''a'']" "mount_comps ''/a/b'' = [''a'', ''b'']" "mount_comps ''/a/b.balance1'' = [''a'', ''b'']"
  by code_simp+

section \<open>Properties\<close>

text \<open>C15: When every mount point is cleaned, its balance suffix apart, listing the virtual files of a folder without asking for details
  never panics and shows, exactly once each, the names that lead from the folder to a mount point (only the one asked for, if a name is given); each is a folder,
  writable when a storage is mounted right there and read-only when it only leads further down, in either case virtual
  and protected from renaming, removal and moving.\<close>

theorem virtual_files_correct:
  assumes "mounts_ok m" "valid_names P"
  shows "\<exists>files. getStorageVirtualFilesByPath m (path_of P) filt = Some files \<and> distinct (map GetName files) \<and>
    set (map GetName files) = {n. (filt = [] \<or> n = filt) \<and> (\<exists>(k, d) \<in> set m. prefix (P @ [n]) (mount_comps k))} \<and>
    list_all (\<lambda>f. IsDir f \<and> GetObjMask f = (if \<exists>(k, d) \<in> set m. mount_comps k = P @ [GetName f] then Locked OR Virtual else ReadOnly OR Virtual)) files"
  by (rule virtual_files_spec [OF assms])

theorem virtual_files_correct_witness:
  "\<exists>files. getStorageVirtualFilesByPath (storagesMap sample_mounts) ''/a'' [] = Some files \<and> set (map GetName files) = {''b''}"
proof -
  have "valid_names [''a'']" by (simp add: valid_name_def)
  moreover have "{n. \<exists>(k, d) \<in> set (storagesMap sample_mounts). prefix ([''a''] @ [n]) (mount_comps k)} = {''b''}"
    using sample_mount_comps by (auto simp: sample_mounts_def)
  ultimately show ?thesis using virtual_files_correct [OF sample_mounts_ok, of "[''a'']" "[]"] by (auto simp: path_of_def)
qed

text \<open>When details are asked for, two storages balanced under one name can make the listing panic: if the details
  of the first arrive before the loop reaches the second, the loop finds the replaced object under the name and its type
  assertion fails; with the other schedule the listing succeeds.\<close>

theorem virtual_details_race:
  "GetStorageVirtualFilesWithDetailsByPath (storagesMap sample_mounts) details [Advance, Advance, Complete 0, Advance] ''/a'' False [] = None \<and>
   GetStorageVirtualFilesWithDetailsByPath (storagesMap sample_mounts) details [Advance, Advance, Advance, Complete 0, Complete 0] ''/a'' False [] =
     Some [ObjStorageDetails (Obj (virtual_object ''b'' 0 (Locked OR Virtual))) (details (sample_driver 2 ''/a/b''))]"
proof -
  have order: "sorted_storages (storagesMap sample_mounts) = [sample_driver 1 ''/a'', sample_driver 2 ''/a/b'', sample_driver 3 ''/a/b.balance1'']"
    by code_simp
  have mp: "GetActualMountPath ''/a'' = ''/a''" "GetActualMountPath ''/a/b'' = ''/a/b''" "GetActualMountPath ''/a/b.balance1'' = ''/a/b''"
    "drv_mount (sample_driver i k) = k" "Modified (GetStorage (sample_driver i k)) = 0" for i k
    by (code_simp, code_simp, code_simp, simp_all add: sample_driver_def)
  have cut: "slash_suffix ''/a'' = ''/a/''" "CutPrefix ''/a'' ''/a/'' = None" "CutPrefix ''/a/b'' ''/a/'' = Some ''b''" "Cut ''b'' slash = (''b'', [], False)"
    by code_simp+
  show ?thesis
    by (simp add: GetStorageVirtualFilesWithDetailsByPath_def order virtual_step_def mp cut virtual_start_def details_callback_def Let_def)
qed

end
