(* ===== verification/Meta_Store.thy ===== *)
theory Meta_Store
  imports Access
begin

text \<open>
  The metadata of paths and its two caches: \<open>internal/op/meta.go\<close>.  The state has the table of the database, the
  cache by path (where a cached \<open>nil\<close> remembers that there is no record) and the snapshot of the whole table.  A call to
  the database fails with the error it is given, if any.  The operations that change the table are cut at the point
  where the code has emptied the cache and has not yet changed the table: what happens between is the subject of
  the last property.
\<close>

section \<open>The model\<close>

datatype meta_error = MetaNotFound | DbError string | MultipleMetas string

record meta_state =
  metaCache :: "string \<Rightarrow> Meta option option"
  metaSnapshot :: "Meta list option"
  metaTable :: "Meta list"

type_synonym db_err = "string option"

text \<open>The statements of \<open>internal/db/meta.go\<close>.\<close>

definition db_GetMetaByPath :: "meta_state \<Rightarrow> string \<Rightarrow> Meta option" where
  "db_GetMetaByPath s path = find (\<lambda>m. Path m = path) (metaTable s)"

definition db_GetMetaById :: "meta_state \<Rightarrow> nat \<Rightarrow> Meta option" where
  "db_GetMetaById s i = find (\<lambda>m. MetaID m = i) (metaTable s)"

definition getMetaByPath :: "db_err \<Rightarrow> string \<Rightarrow> meta_state \<Rightarrow> (meta_error + Meta) \<times> meta_state" where
  "getMetaByPath e path s =
     (case metaCache s path of
        Some None \<Rightarrow> (Inl MetaNotFound, s)
      | Some (Some m) \<Rightarrow> (Inr m, s)
      | None \<Rightarrow>
          (case e of
             Some err \<Rightarrow> (Inl (DbError err), s)
           | None \<Rightarrow>
               (case db_GetMetaByPath s path of
                  None \<Rightarrow> (Inl MetaNotFound, s\<lparr>metaCache := (metaCache s)(path \<mapsto> None)\<rparr>)
                | Some m \<Rightarrow> (Inr m, s\<lparr>metaCache := (metaCache s)(path \<mapsto> Some m)\<rparr>))))"

definition GetMetaByPath :: "db_err \<Rightarrow> string \<Rightarrow> meta_state \<Rightarrow> (meta_error + Meta) \<times> meta_state" where
  "GetMetaByPath e path s = getMetaByPath e (FixAndCleanPath path) s"

definition getMetaSnapshot :: "db_err \<Rightarrow> meta_state \<Rightarrow> (meta_error + Meta list) \<times> meta_state" where
  "getMetaSnapshot e s =
     (case metaSnapshot s of
        Some metas \<Rightarrow> (Inr metas, s)
      | None \<Rightarrow>
          (case e of
             Some err \<Rightarrow> (Inl (DbError err), s)
           | None \<Rightarrow> (Inr (metaTable s), s\<lparr>metaSnapshot := Some (metaTable s)\<rparr>)))"

text \<open>The loop over the snapshot: the only record that matches the path without regard to case.\<close>

fun match_loop :: "equal_fold \<Rightarrow> string \<Rightarrow> Meta option \<Rightarrow> Meta list \<Rightarrow> meta_error + Meta option" where
  "match_loop EqualFold path matched [] = Inr matched"
| "match_loop EqualFold path matched (m # metas) =
     (if \<not> EqualFold (FixAndCleanPath (Path m)) path then match_loop EqualFold path matched metas
      else if matched \<noteq> None then Inl (MultipleMetas path)
      else match_loop EqualFold path (Some m) metas)"

text \<open>The upward loop; \<open>metas\<close> is the snapshot once it has been loaded.  \<open>None\<close> as a result is a loop that does not end.\<close>

partial_function (option) getNearestMeta ::
  "equal_fold \<Rightarrow> (string \<Rightarrow> db_err) \<Rightarrow> db_err \<Rightarrow> Meta list option \<Rightarrow> string \<Rightarrow> meta_state \<Rightarrow> ((meta_error + Meta) \<times> meta_state) option" where
  "getNearestMeta EqualFold pathErr snapErr metas path s =
     (case GetMetaByPath (pathErr path) path s of
        (Inr m, s1) \<Rightarrow> Some (Inr m, s1)
      | (Inl err, s1) \<Rightarrow>
          if err \<noteq> MetaNotFound then Some (Inl err, s1)
          else (case (case metas of Some ms \<Rightarrow> (Inr ms, s1) | None \<Rightarrow> getMetaSnapshot snapErr s1) of
                  (Inl err, s2) \<Rightarrow> Some (Inl err, s2)
                | (Inr ms, s2) \<Rightarrow>
                    (case match_loop EqualFold path None ms of
                       Inl err \<Rightarrow> Some (Inl err, s2)
                     | Inr (Some m) \<Rightarrow> Some (Inr m, s2)
                     | Inr None \<Rightarrow>
                         if path = ''/'' then Some (Inl MetaNotFound, s2)
                         else getNearestMeta EqualFold pathErr snapErr (Some ms) (Dir path) s2)))"

definition GetNearestMeta ::
  "equal_fold \<Rightarrow> (string \<Rightarrow> db_err) \<Rightarrow> db_err \<Rightarrow> string \<Rightarrow> meta_state \<Rightarrow> ((meta_error + Meta) \<times> meta_state) option" where
  "GetNearestMeta EqualFold pathErr snapErr path s = getNearestMeta EqualFold pathErr snapErr None (FixAndCleanPath path) s"

subsection \<open>Changing the table\<close>

definition cache_del :: "string \<Rightarrow> meta_state \<Rightarrow> meta_state" where
  "cache_del path s = s\<lparr>metaCache := (metaCache s)(path := None)\<rparr>"

text \<open>The locked section: the change of the table, if the database accepts it, and the end of the snapshot.\<close>

definition commit :: "db_err \<Rightarrow> (Meta list \<Rightarrow> Meta list) \<Rightarrow> meta_state \<Rightarrow> meta_error option \<times> meta_state" where
  "commit e change s =
     (case e of
        Some err \<Rightarrow> (Some (DbError err), s\<lparr>metaSnapshot := None\<rparr>)
      | None \<Rightarrow> (None, s\<lparr>metaTable := change (metaTable s), metaSnapshot := None\<rparr>))"

definition clean_meta :: "Meta \<Rightarrow> Meta" where
  "clean_meta u = u\<lparr>Path := FixAndCleanPath (Path u)\<rparr>"

text \<open>\<open>Save\<close> writes the row with the record's primary key.\<close>

definition db_save :: "Meta \<Rightarrow> Meta list \<Rightarrow> Meta list" where
  "db_save u ms = map (\<lambda>m. if MetaID m = MetaID u then u else m) ms"

definition CreateMeta_begin :: "Meta \<Rightarrow> meta_state \<Rightarrow> meta_state" where
  "CreateMeta_begin u s = cache_del (Path (clean_meta u)) s"

definition CreateMeta_commit :: "db_err \<Rightarrow> Meta \<Rightarrow> meta_state \<Rightarrow> meta_error option \<times> meta_state" where
  "CreateMeta_commit e u s = commit e (\<lambda>ms. ms @ [clean_meta u]) s"

definition CreateMeta :: "db_err \<Rightarrow> Meta \<Rightarrow> meta_state \<Rightarrow> meta_error option \<times> meta_state" where
  "CreateMeta e u s = CreateMeta_commit e u (CreateMeta_begin u s)"

definition UpdateMeta_begin :: "db_err \<Rightarrow> Meta \<Rightarrow> meta_state \<Rightarrow> meta_error + meta_state" where
  "UpdateMeta_begin e u s =
     (case e of
        Some err \<Rightarrow> Inl (DbError err)
      | None \<Rightarrow>
          (case db_GetMetaById s (MetaID u) of
             None \<Rightarrow> Inl (DbError ''record not found'')
           | Some old \<Rightarrow> Inr (cache_del (Path (clean_meta u)) (cache_del (Path old) s))))"

definition UpdateMeta_commit :: "db_err \<Rightarrow> Meta \<Rightarrow> meta_state \<Rightarrow> meta_error option \<times> meta_state" where
  "UpdateMeta_commit e u s = commit e (db_save (clean_meta u)) s"

definition UpdateMeta :: "db_err \<Rightarrow> db_err \<Rightarrow> Meta \<Rightarrow> meta_state \<Rightarrow> meta_error option \<times> meta_state" where
  "UpdateMeta e1 e2 u s =
     (case UpdateMeta_begin e1 u s of Inl err \<Rightarrow> (Some err, s) | Inr s1 \<Rightarrow> UpdateMeta_commit e2 u s1)"

definition DeleteMeta_begin :: "db_err \<Rightarrow> nat \<Rightarrow> meta_state \<Rightarrow> meta_error + meta_state" where
  "DeleteMeta_begin e i s =
     (case e of
        Some err \<Rightarrow> Inl (DbError err)
      | None \<Rightarrow>
          (case db_GetMetaById s i of None \<Rightarrow> Inl (DbError ''record not found'') | Some old \<Rightarrow> Inr (cache_del (Path old) s)))"

definition DeleteMeta_commit :: "db_err \<Rightarrow> nat \<Rightarrow> meta_state \<Rightarrow> meta_error option \<times> meta_state" where
  "DeleteMeta_commit e i s = commit e (filter (\<lambda>m. MetaID m \<noteq> i)) s"

definition DeleteMetaById :: "db_err \<Rightarrow> db_err \<Rightarrow> nat \<Rightarrow> meta_state \<Rightarrow> meta_error option \<times> meta_state" where
  "DeleteMetaById e1 e2 i s =
     (case DeleteMeta_begin e1 i s of Inl err \<Rightarrow> (Some err, s) | Inr s1 \<Rightarrow> DeleteMeta_commit e2 i s1)"

section \<open>The caches agree with the table\<close>

definition table_ok :: "Meta list \<Rightarrow> bool" where
  "table_ok ms \<longleftrightarrow> distinct (map MetaID ms) \<and> list_all (\<lambda>m. FixAndCleanPath (Path m) = Path m) ms"

definition coherent :: "meta_state \<Rightarrow> bool" where
  "coherent s \<longleftrightarrow> table_ok (metaTable s) \<and> (\<forall>ms. metaSnapshot s = Some ms \<longrightarrow> ms = metaTable s) \<and>
     (\<forall>p c. metaCache s p = Some c \<longrightarrow> c = db_GetMetaByPath s p)"

text \<open>Calls one after the other; a cache entry may expire at any time.  New records have a fresh key.\<close>

inductive meta_reach :: "meta_state \<Rightarrow> bool" where
  init: "table_ok ms \<Longrightarrow> meta_reach \<lparr>metaCache = (\<lambda>_. None), metaSnapshot = None, metaTable = ms\<rparr>"
| get: "meta_reach s \<Longrightarrow> meta_reach (snd (GetMetaByPath e p s))"
| snapshot: "meta_reach s \<Longrightarrow> meta_reach (snd (getMetaSnapshot e s))"
| expire: "meta_reach s \<Longrightarrow> meta_reach (cache_del p s)"
| create: "meta_reach s \<Longrightarrow> MetaID u \<notin> MetaID ` set (metaTable s) \<Longrightarrow> meta_reach (snd (CreateMeta e u s))"
| update: "meta_reach s \<Longrightarrow> meta_reach (snd (UpdateMeta e1 e2 u s))"
| delete: "meta_reach s \<Longrightarrow> meta_reach (snd (DeleteMetaById e1 e2 i s))"

lemma coherent_get:
  assumes "coherent s" "GetMetaByPath e p s = (r, s')"
  shows "coherent s'" "metaTable s' = metaTable s" "e = None \<Longrightarrow>
    r = (case find (\<lambda>m. Path m = FixAndCleanPath p) (metaTable s) of None \<Rightarrow> Inl MetaNotFound | Some m \<Rightarrow> Inr m)"
proof -
  have c: "c = db_GetMetaByPath s q" if "metaCache s q = Some c" for q c using assms(1) that unfolding coherent_def by blast
  note d = assms(2) [unfolded GetMetaByPath_def getMetaByPath_def]
  show "coherent s'" using d assms(1)
    by (auto simp: coherent_def db_GetMetaByPath_def split: option.splits if_splits)
  show "metaTable s' = metaTable s" using d by (auto split: option.splits)
  show "r = (case find (\<lambda>m. Path m = FixAndCleanPath p) (metaTable s) of None \<Rightarrow> Inl MetaNotFound | Some m \<Rightarrow> Inr m)" if "e = None"
    using d that c [of "FixAndCleanPath p"] by (auto simp: db_GetMetaByPath_def split: option.splits)
qed

lemma coherent_snapshot:
  assumes "coherent s" "getMetaSnapshot e s = (r, s')"
  shows "coherent s'" "metaTable s' = metaTable s" "e = None \<Longrightarrow> r = Inr (metaTable s)"
  using assms by (auto simp: getMetaSnapshot_def coherent_def db_GetMetaByPath_def split: option.splits)

text \<open>A change of the table that touches no row whose path is still cached.\<close>

lemma coherent_commit:
  assumes s: "coherent s" and ok: "table_ok (change (metaTable s))"
    and same: "\<And>p c. metaCache s p = Some c \<Longrightarrow> find (\<lambda>m. Path m = p) (change (metaTable s)) = find (\<lambda>m. Path m = p) (metaTable s)"
  shows "coherent (snd (commit e change s))"
  using s ok same unfolding coherent_def commit_def db_GetMetaByPath_def by (cases e) auto

lemma coherent_del: "coherent s \<Longrightarrow> coherent (cache_del p s)"
  by (auto simp: coherent_def cache_del_def db_GetMetaByPath_def split: if_splits)

lemma find_append: "find P (xs @ ys) = (case find P xs of Some x \<Rightarrow> Some x | None \<Rightarrow> find P ys)"
  by (induction xs) auto

lemma find_map_other:
  "(\<And>x. x \<in> set xs \<Longrightarrow> f x \<noteq> x \<Longrightarrow> \<not> P x \<and> \<not> P (f x)) \<Longrightarrow> find P (map f xs) = find P xs"
proof (induction xs)
  case (Cons x xs)
  then show ?case by (cases "f x = x") auto
qed simp

lemma find_filter_other: "(\<And>x. x \<in> set xs \<Longrightarrow> \<not> Q x \<Longrightarrow> \<not> P x) \<Longrightarrow> find P (filter Q xs) = find P xs"
  by (induction xs) auto

lemma table_row: "table_ok ms \<Longrightarrow> m \<in> set ms \<Longrightarrow> find (\<lambda>x. MetaID x = MetaID m) ms = Some m"
  unfolding table_ok_def by (induction ms) auto

lemma clean_meta_simps [simp]: "MetaID (clean_meta u) = MetaID u" "FixAndCleanPath (Path (clean_meta u)) = Path (clean_meta u)"
  by (simp_all add: clean_meta_def)

lemma table_ok_save: "table_ok ms \<Longrightarrow> table_ok (db_save (clean_meta u) ms)"
proof -
  have "map MetaID (db_save (clean_meta u) ms) = map MetaID ms" by (auto simp: db_save_def)
  moreover assume "table_ok ms"
  ultimately show ?thesis unfolding table_ok_def by (auto simp: list_all_iff) (auto simp: db_save_def)
qed

lemma coherent_update:
  assumes "coherent s"
  shows "coherent (snd (UpdateMeta e1 e2 u s))"
proof (cases "UpdateMeta_begin e1 u s")
  case (Inr s1)
  then obtain old where old: "db_GetMetaById s (MetaID u) = Some old" and s1: "s1 = cache_del (Path (clean_meta u)) (cache_del (Path old) s)"
    by (auto simp: UpdateMeta_begin_def split: option.splits)
  have t: "metaTable s1 = metaTable s" "table_ok (metaTable s)" using assms s1 by (auto simp: cache_del_def coherent_def)
  have c1: "coherent s1" using assms s1 by (simp add: coherent_del)
  have "coherent (snd (commit e2 (db_save (clean_meta u)) s1))"
  proof (rule coherent_commit [OF c1])
    show "table_ok (db_save (clean_meta u) (metaTable s1))" unfolding t(1) by (rule table_ok_save [OF t(2)])
    fix p c
    assume p: "metaCache s1 p = Some c"
    have "m = old" if "m \<in> set (metaTable s)" "MetaID m = MetaID u" for m
      using table_row [OF t(2) that(1)] old that(2) by (simp add: db_GetMetaById_def)
    then show "find (\<lambda>m. Path m = p) (db_save (clean_meta u) (metaTable s1)) = find (\<lambda>m. Path m = p) (metaTable s1)"
      unfolding db_save_def t(1) using p s1 by (intro find_map_other) (auto simp: cache_del_def split: if_splits)
  qed
  then show ?thesis using Inr by (simp add: UpdateMeta_def UpdateMeta_commit_def)
qed (use assms in \<open>simp add: UpdateMeta_def\<close>)

lemma coherent_delete:
  assumes "coherent s"
  shows "coherent (snd (DeleteMetaById e1 e2 i s))"
proof (cases "DeleteMeta_begin e1 i s")
  case (Inr s1)
  then obtain old where old: "db_GetMetaById s i = Some old" and s1: "s1 = cache_del (Path old) s"
    by (auto simp: DeleteMeta_begin_def split: option.splits)
  have t: "metaTable s1 = metaTable s" "table_ok (metaTable s)" using assms s1 by (auto simp: cache_del_def coherent_def)
  have c1: "coherent s1" using assms s1 by (simp add: coherent_del)
  have "coherent (snd (commit e2 (filter (\<lambda>m. MetaID m \<noteq> i)) s1))"
  proof (rule coherent_commit [OF c1])
    show "table_ok (filter (\<lambda>m. MetaID m \<noteq> i) (metaTable s1))" using t by (auto simp: table_ok_def list_all_iff distinct_map_filter)
    fix p c
    assume p: "metaCache s1 p = Some c"
    have "m = old" if "m \<in> set (metaTable s)" "MetaID m = i" for m
      using table_row [OF t(2) that(1)] old that(2) by (simp add: db_GetMetaById_def)
    then show "find (\<lambda>m. Path m = p) (filter (\<lambda>m. MetaID m \<noteq> i) (metaTable s1)) = find (\<lambda>m. Path m = p) (metaTable s1)"
      unfolding t(1) using p s1 by (intro find_filter_other) (auto simp: cache_del_def split: if_splits)
  qed
  then show ?thesis using Inr by (simp add: DeleteMetaById_def DeleteMeta_commit_def)
qed (use assms in \<open>simp add: DeleteMetaById_def\<close>)

lemma coherent_reach: "meta_reach s \<Longrightarrow> coherent s"
proof (induction rule: meta_reach.induct)
  case (init ms)
  then show ?case by (simp add: coherent_def)
next
  case (get s e p)
  then show ?case by (metis coherent_get(1) prod.collapse)
next
  case (snapshot s e)
  then show ?case by (metis coherent_snapshot(1) prod.collapse)
next
  case (create s u e)
  have "coherent (CreateMeta_begin u s)" using create by (simp add: CreateMeta_begin_def coherent_del)
  then show ?case unfolding CreateMeta_def CreateMeta_commit_def
  proof (rule coherent_commit)
    show "table_ok (metaTable (CreateMeta_begin u s) @ [clean_meta u])"
      using create by (auto simp: CreateMeta_begin_def cache_del_def coherent_def table_ok_def)
  qed (auto simp: CreateMeta_begin_def cache_del_def find_append split: if_splits option.split)
qed (simp_all add: coherent_del coherent_update coherent_delete)

section \<open>The nearest record\<close>

text \<open>What the search must find, on the table alone: going up from the path, the first folder that has a record of its
  own or one whose path differs only in case; two such records are an error.\<close>

fun nearest_spec :: "equal_fold \<Rightarrow> Meta list \<Rightarrow> string list \<Rightarrow> meta_error + Meta" where
  "nearest_spec EqualFold table [] = Inl MetaNotFound"
| "nearest_spec EqualFold table (p # ps) =
     (case find (\<lambda>m. Path m = p) table of
        Some m \<Rightarrow> Inr m
      | None \<Rightarrow>
          (case filter (\<lambda>m. EqualFold (Path m) p) table of
             [] \<Rightarrow> nearest_spec EqualFold table ps
           | [m] \<Rightarrow> Inr m
           | _ \<Rightarrow> Inl (MultipleMetas p)))"

lemma match_loop_eq:
  "match_loop E p acc ms =
     (case filter (\<lambda>m. E (FixAndCleanPath (Path m)) p) ms of
        [] \<Rightarrow> Inr acc
      | m # rest \<Rightarrow> if acc = None \<and> rest = [] then Inr (Some m) else Inl (MultipleMetas p))"
  by (induction E p acc ms rule: match_loop.induct) (auto split: list.splits)

lemma match_loop_table:
  assumes "table_ok ms"
  shows "match_loop E p None ms =
     (case filter (\<lambda>m. E (Path m) p) ms of [] \<Rightarrow> Inr None | [m] \<Rightarrow> Inr (Some m) | _ \<Rightarrow> Inl (MultipleMetas p))"
proof -
  have "filter (\<lambda>m. E (FixAndCleanPath (Path m)) p) ms = filter (\<lambda>m. E (Path m) p) ms"
    using assms by (auto simp: table_ok_def list_all_iff intro!: filter_cong)
  then show ?thesis by (auto simp: match_loop_eq split: list.split)
qed

text \<open>One turn of the loop on a cleaned path.\<close>

lemma nearest_turn:
  assumes s: "coherent s" "metas = None \<or> metas = Some (metaTable s)" and p: "FixAndCleanPath p = p"
  obtains s2 where "coherent s2" "metaTable s2 = metaTable s"
    "getNearestMeta E (\<lambda>_. None) None metas p s =
       (case find (\<lambda>m. Path m = p) (metaTable s) of
          Some m \<Rightarrow> Some (Inr m, s2)
        | None \<Rightarrow>
            (case filter (\<lambda>m. E (Path m) p) (metaTable s) of
               [] \<Rightarrow> if p = ''/'' then Some (Inl MetaNotFound, s2) else getNearestMeta E (\<lambda>_. None) None (Some (metaTable s)) (Dir p) s2
             | [m] \<Rightarrow> Some (Inr m, s2)
             | _ \<Rightarrow> Some (Inl (MultipleMetas p), s2)))"
proof -
  obtain r s1 where g: "GetMetaByPath None p s = (r, s1)" by (cases "GetMetaByPath None p s")
  note c = coherent_get [OF s(1) g, unfolded p]
  have t: "table_ok (metaTable s)" using s(1) by (simp add: coherent_def)
  show thesis
  proof (cases "find (\<lambda>m. Path m = p) (metaTable s)")
    case (Some m)
    then show thesis using that [OF c(1,2)] c(3) by (simp add: getNearestMeta.simps [of E _ _ metas p s] g)
  next
    case None
    define q where "q = (case metas of Some ms \<Rightarrow> (Inr ms, s1) | None \<Rightarrow> getMetaSnapshot None s1)"
    obtain r2 s2 where q: "q = (r2, s2)" by (cases q)
    have c2: "coherent s2" "metaTable s2 = metaTable s" "r2 = Inr (metaTable s)"
      using q s(2) c(1,2) coherent_snapshot [OF c(1), of None r2 s2] by (auto simp: q_def)
    show thesis
      by (rule that [OF c2(1,2)], subst getNearestMeta.simps)
         (use c(3) c2(3) q None in \<open>simp add: g q_def [symmetric] match_loop_table [OF t] split: list.split\<close>)
  qed
qed

lemma getNearestMeta_path_of:
  assumes "valid_names cs" "\<And>c. c \<in> set cs \<Longrightarrow> CHR 0x5C \<notin> set c" "coherent s" "metas = None \<or> metas = Some (metaTable s)"
  shows "\<exists>s'. getNearestMeta E (\<lambda>_. None) None metas (path_of cs) s =
      Some (nearest_spec E (metaTable s) (rev (map path_of (prefixes cs))), s') \<and> coherent s' \<and> metaTable s' = metaTable s"
  using assms
proof (induction cs arbitrary: s metas rule: rev_induct)
  case Nil
  have "FixAndCleanPath (path_of []) = path_of []" by (simp add: FixAndCleanPath_eq)
  from nearest_turn [OF Nil.prems(3,4) this, of E] show ?case
    by (rule) (auto split: option.split list.split)
next
  case (snoc c cs)
  have "FixAndCleanPath (path_of (cs @ [c])) = path_of (cs @ [c])"
    unfolding FixAndCleanPath_eq by (subst fix_comps_path_of) (use snoc.prems in auto)
  from nearest_turn [OF snoc.prems(3,4) this, of E] obtain s2 where s2: "coherent s2" "metaTable s2 = metaTable s"
    and turn: "getNearestMeta E (\<lambda>_. None) None metas (path_of (cs @ [c])) s =
       (case find (\<lambda>m. Path m = path_of (cs @ [c])) (metaTable s) of
          Some m \<Rightarrow> Some (Inr m, s2)
        | None \<Rightarrow>
            (case filter (\<lambda>m. E (Path m) (path_of (cs @ [c]))) (metaTable s) of
               [] \<Rightarrow> if path_of (cs @ [c]) = ''/'' then Some (Inl MetaNotFound, s2)
                 else getNearestMeta E (\<lambda>_. None) None (Some (metaTable s)) (Dir (path_of (cs @ [c]))) s2
             | [m] \<Rightarrow> Some (Inr m, s2)
             | _ \<Rightarrow> Some (Inl (MultipleMetas (path_of (cs @ [c]))), s2)))" by blast
  have "path_of (cs @ [c]) \<noteq> path_of []" using snoc.prems(1) by (subst path_of_inject) auto
  moreover have "Dir (path_of (cs @ [c])) = path_of cs" by (rule Dir_path_of_snoc [OF snoc.prems(1)])
  moreover have "\<exists>s'. getNearestMeta E (\<lambda>_. None) None (Some (metaTable s)) (path_of cs) s2 =
      Some (nearest_spec E (metaTable s) (rev (map path_of (prefixes cs))), s') \<and> coherent s' \<and> metaTable s' = metaTable s"
    using snoc.IH [OF _ _ s2(1), of "Some (metaTable s)"] snoc.prems(1,2) s2(2) by simp
  ultimately show ?case unfolding turn using s2 by (auto simp: prefixes_snoc split: option.split list.split)
qed

lemma GetNearestMeta_coherent:
  assumes "coherent s"
  shows "\<exists>s'. GetNearestMeta E (\<lambda>_. None) None path s =
      Some (nearest_spec E (metaTable s) (rev (GetPathHierarchy path)), s') \<and> coherent s' \<and> metaTable s' = metaTable s"
  unfolding GetNearestMeta_def FixAndCleanPath_eq GetPathHierarchy_eq
  by (rule getNearestMeta_path_of [OF fix_comps_valid _ assms]) (auto dest: fix_comps_no_backslash)

section \<open>Properties\<close>

text \<open>C14: In every state that calls one after the other can reach, and whatever the caches hold, the search for the
  nearest metadata record returns (the upward loop ends at the root) and finds what the database table says: going up
  from the cleaned path, the record of the first folder that has one, exactly or up to case, or the error that two
  records match, or that there is none.\<close>

theorem nearest_meta_correct:
  assumes "meta_reach s"
  shows "map_option fst (GetNearestMeta EqualFold (\<lambda>_. None) None path s) =
    Some (nearest_spec EqualFold (metaTable s) (rev (GetPathHierarchy path)))"
  using GetNearestMeta_coherent [OF coherent_reach [OF assms], of EqualFold path] by auto

definition sample_meta :: "string \<Rightarrow> Meta" where
  "sample_meta pw = \<lparr>MetaID = 1, Path = ''/a'', ReadUsers = [], ReadUsersSub = False, WriteUsers = [],
    WriteUsersSub = False, MetaPassword = pw, PSub = True, Write = False, WSub = False, Hide = [],
    HSub = True, Readme = [], RSub = False, Header = [], HeaderSub = False\<rparr>"

definition sample_store :: "string \<Rightarrow> meta_state" where
  "sample_store pw = \<lparr>metaCache = (\<lambda>_. None), metaSnapshot = None, metaTable = [sample_meta pw]\<rparr>"

lemma clean_a: "FixAndCleanPath ''/a'' = ''/a''"
  by code_simp

lemma sample_store_reach: "meta_reach (sample_store pw)"
  unfolding sample_store_def by (rule meta_reach.init) (simp add: table_ok_def sample_meta_def clean_a)

theorem nearest_meta_correct_witness:
  "map_option fst (GetNearestMeta (=) (\<lambda>_. None) None ''/a/b'' (sample_store ''pw'')) = Some (Inr (sample_meta ''pw''))"
proof -
  have "nearest_spec (=) (metaTable (sample_store ''pw'')) (rev (GetPathHierarchy ''/a/b'')) = Inr (sample_meta ''pw'')"
  proof -
    have "rev (GetPathHierarchy ''/a/b'') = [''/a/b'', ''/a'', ''/'']" by code_simp
    then show ?thesis by (simp add: sample_store_def sample_meta_def)
  qed
  then show ?thesis by (simp only: nearest_meta_correct [OF sample_store_reach])
qed

text \<open>Because an update empties the cache before it writes to the database, a lookup between the two puts the old
  record back: the update succeeds, the table has the new record, and the old one, with its old password, is what
  lookups return from then on until the cache entry expires.\<close>

theorem update_race_stale:
  "case UpdateMeta_begin None (sample_meta ''new'') (sample_store ''old'') of
     Inl _ \<Rightarrow> False
   | Inr s1 \<Rightarrow>
       (let s2 = snd (GetMetaByPath None ''/a'' s1); (err, s3) = UpdateMeta_commit None (sample_meta ''new'') s2
        in err = None \<and> metaTable s3 = [sample_meta ''new''] \<and> fst (GetMetaByPath None ''/a'' s3) = Inr (sample_meta ''old''))"
  by (simp add: UpdateMeta_begin_def UpdateMeta_commit_def sample_store_def sample_meta_def db_GetMetaById_def cache_del_def
      GetMetaByPath_def getMetaByPath_def db_GetMetaByPath_def commit_def db_save_def clean_meta_def clean_a)

end
