(* ===== verification/Fs_List.thy ===== *)
theory Fs_List
  imports Virtual_Files Meta_Store
begin

text \<open>
  Listing a folder and looking up an object of the virtual file system: \<open>internal/fs/list.go\<close> and
  \<open>internal/fs/get.go\<close>, which bring together the mount table, the virtual files, the merging of objects, the metadata
  and the permissions.  What a storage itself answers, \<open>op.List\<close> and \<open>op.Get\<close>, is an argument.  A result \<open>None\<close> is a
  panic.
\<close>

section \<open>The model\<close>

datatype fs_error = FailedGetStorage storage_error | FailedGetObjs string | FailedMeta meta_error

record list_env =
  envEqualFold :: equal_fold
  envCompile :: compile
  envUser :: "User option"
  envMeta :: "Meta option"

definition whetherHide :: "list_env \<Rightarrow> string \<Rightarrow> bool option" where
  "whetherHide env path =
     (case envUser env of
        None \<Rightarrow> Some False
      | Some u \<Rightarrow>
          if CanSeeHides (Permission u) then Some False
          else (case envMeta env of
                  None \<Rightarrow> Some False
                | Some m \<Rightarrow>
                    if Hide m = [] then Some False
                    else do {
                      covered \<leftarrow> MetaCoversPath (envEqualFold env) (Path m) path (HSub m);
                      Some covered
                    }))"

text \<open>\<open>acc\<close> is the result so far; it is returned with the error when the metadata cannot be read.\<close>

fun filterReadableObjs ::
  "list_env \<Rightarrow> (string \<Rightarrow> db_err) \<Rightarrow> db_err \<Rightarrow> string \<Rightarrow> Obj list \<Rightarrow> Obj list \<Rightarrow> meta_state \<Rightarrow> ((meta_error option \<times> Obj list) \<times> meta_state) option" where
  "filterReadableObjs env pathErr snapErr reqPath acc [] s = Some ((None, acc), s)"
| "filterReadableObjs env pathErr snapErr reqPath acc (obj # objs) s =
     (let objPath = PathJoin reqPath (GetName obj)
      in case (if IsDir obj
               then (case GetNearestMeta (envEqualFold env) pathErr snapErr objPath s of
                       None \<Rightarrow> None
                     | Some (Inr m, s1) \<Rightarrow> Some (Inr (Some m), s1)
                     | Some (Inl e, s1) \<Rightarrow> Some (if e \<noteq> MetaNotFound then Inl e else Inr None, s1))
               else Some (Inr (envMeta env), s)) of
           None \<Rightarrow> None
         | Some (Inl e, s1) \<Rightarrow> Some ((Some e, acc), s1)
         | Some (Inr meta, s1) \<Rightarrow>
             (case CanRead (envEqualFold env) (envUser env) meta objPath of
                None \<Rightarrow> None
              | Some readable \<Rightarrow> filterReadableObjs env pathErr snapErr reqPath (if readable then acc @ [obj] else acc) objs s1))"

definition InitHideReg :: "compile \<Rightarrow> string \<Rightarrow> ObjMerge \<Rightarrow> ObjMerge option" where
  "InitHideReg compile hides om =
     map_option (\<lambda>res. om\<lparr>omRegs := res\<rparr>) (compile_all compile (Split (CHR 0x0A) hides))"

definition fs_merge :: "list_env \<Rightarrow> string \<Rightarrow> Obj list \<Rightarrow> Obj list \<Rightarrow> Obj list option" where
  "fs_merge env path objs virtualFiles = do {
     hide \<leftarrow> whetherHide env path;
     om \<leftarrow> (if hide then InitHideReg (envCompile env) (case envMeta env of Some m \<Rightarrow> Hide m | None \<Rightarrow> []) NewObjMerge else Some NewObjMerge);
     Some (fst (Merge om objs virtualFiles))
   }"

text \<open>The end of \<open>list\<close>: merging and filtering.\<close>

definition fs_list_rest ::
  "list_env \<Rightarrow> (string \<Rightarrow> db_err) \<Rightarrow> db_err \<Rightarrow> string \<Rightarrow> Obj list \<Rightarrow> Obj list \<Rightarrow> mount_state \<Rightarrow> meta_state \<Rightarrow>
   ((fs_error option \<times> Obj list) \<times> mount_state \<times> meta_state) option" where
  "fs_list_rest env pathErr snapErr path objs virtualFiles s ms = do {
     merged \<leftarrow> fs_merge env path objs virtualFiles;
     ((err, result), ms1) \<leftarrow> filterReadableObjs env pathErr snapErr path [] merged ms;
     Some ((map_option FailedMeta err, result), s, ms1)
   }"

text \<open>The list of objects comes with an error when the metadata of one of them cannot be read.\<close>

definition fs_list ::
  "list_env \<Rightarrow> (Driver \<Rightarrow> string \<Rightarrow> string + Obj list) \<Rightarrow> (Driver \<Rightarrow> StorageDetails option) \<Rightarrow> virtual_event list \<Rightarrow> bool \<Rightarrow>
   (string \<Rightarrow> db_err) \<Rightarrow> db_err \<Rightarrow> string \<Rightarrow> mount_state \<Rightarrow> meta_state \<Rightarrow> ((fs_error option \<times> Obj list) \<times> mount_state \<times> meta_state) option" where
  "fs_list env opList details schedule withStorageDetails pathErr snapErr path s ms = do {
     virtualFiles \<leftarrow> GetStorageVirtualFilesWithDetailsByPath (storagesMap s) details schedule path (\<not> withStorageDetails) [];
     let (r, s1) = GetStorageAndActualPath s path;
     case r of
       Inl err \<Rightarrow> if virtualFiles = [] then Some ((Some (FailedGetStorage err), []), s1, ms) else fs_list_rest env pathErr snapErr path [] virtualFiles s1 ms
     | Inr (storage, actualPath) \<Rightarrow>
         (case opList storage actualPath of
            Inl err \<Rightarrow> if virtualFiles = [] then Some ((Some (FailedGetObjs err), []), s1, ms) else fs_list_rest env pathErr snapErr path [] virtualFiles s1 ms
          | Inr objs \<Rightarrow> fs_list_rest env pathErr snapErr path objs virtualFiles s1 ms)
   }"

text \<open>\<open>get\<close>: a virtual file first, then the storage.\<close>

definition root_object :: Object where
  "root_object = virtual_object ''root'' 0 (ReadOnly OR Virtual)"

definition fs_get ::
  "(Driver \<Rightarrow> string \<Rightarrow> string + Obj) \<Rightarrow> (Driver \<Rightarrow> StorageDetails option) \<Rightarrow> virtual_event list \<Rightarrow> bool \<Rightarrow> string \<Rightarrow> mount_state \<Rightarrow>
   ((fs_error + Obj) \<times> mount_state) option" where
  "fs_get opGet details schedule withStorageDetails path0 s =
     (let path = FixAndCleanPath path0; (dir, name) = PathSplit path
      in case (if path \<noteq> ''/''
               then map_option (find (\<lambda>f. GetName f = name))
                      (GetStorageVirtualFilesWithDetailsByPath (storagesMap s) details schedule dir (\<not> withStorageDetails) name)
               else Some None) of
           None \<Rightarrow> None
         | Some (Some f) \<Rightarrow> Some (Inr f, s)
         | Some None \<Rightarrow>
             (case GetStorageAndActualPath s path of
                (Inl err, s1) \<Rightarrow> Some (if path = ''/'' then Inr (Obj root_object) else Inl (FailedGetStorage err), s1)
              | (Inr (storage, actualPath), s1) \<Rightarrow>
                  Some (case opGet storage actualPath of Inl e \<Rightarrow> Inl (FailedGetObjs e) | Inr obj \<Rightarrow> Inr obj, s1)))"


section \<open>Who sees what\<close>

text \<open>The metadata record that decides on an object, on the table alone.\<close>

definition obj_nearest :: "list_env \<Rightarrow> Meta list \<Rightarrow> string \<Rightarrow> string \<Rightarrow> meta_error + Meta" where
  "obj_nearest env table reqPath n = nearest_spec (envEqualFold env) table (rev (GetPathHierarchy (PathJoin reqPath n)))"

definition obj_meta :: "list_env \<Rightarrow> Meta list \<Rightarrow> string \<Rightarrow> string \<Rightarrow> bool \<Rightarrow> Meta option" where
  "obj_meta env table reqPath n dir =
     (if dir then (case obj_nearest env table reqPath n of Inr m \<Rightarrow> Some m | Inl _ \<Rightarrow> None) else envMeta env)"

text \<open>Whether the user may read the object of a name: no reader list that covers it leaves the user out.\<close>

definition name_readable :: "list_env \<Rightarrow> Meta list \<Rightarrow> string \<Rightarrow> string \<Rightarrow> bool \<Rightarrow> bool" where
  "name_readable env table reqPath n dir \<longleftrightarrow>
     (case (envUser env, obj_meta env table reqPath n dir) of
        (Some u, Some m) \<Rightarrow> ReadUsers m = [] \<or> ID u \<in> set (ReadUsers m) \<or>
          \<not> covers (envEqualFold env) (Path m) (PathJoin reqPath n) (ReadUsersSub m)
      | _ \<Rightarrow> True)"

definition hidden_name :: "list_env \<Rightarrow> string \<Rightarrow> string \<Rightarrow> bool" where
  "hidden_name env path n \<longleftrightarrow>
     (case (envUser env, envMeta env) of
        (Some u, Some m) \<Rightarrow> \<not> CanSeeHides (Permission u) \<and> Hide m \<noteq> [] \<and>
          covers (envEqualFold env) (Path m) path (HSub m) \<and> hides_name (envCompile env) (Hide m) n
      | _ \<Rightarrow> False)"

definition patterns_compile :: "list_env \<Rightarrow> bool" where
  "patterns_compile env \<longleftrightarrow>
     (case envMeta env of None \<Rightarrow> True | Some m \<Rightarrow> list_all (\<lambda>h. envCompile env h \<noteq> None) (Split (CHR 0x0A) (Hide m)))"

text \<open>No two records that differ only in case decide on one path below the folder.\<close>

definition metas_unambiguous :: "list_env \<Rightarrow> Meta list \<Rightarrow> string \<Rightarrow> bool" where
  "metas_unambiguous env table reqPath \<longleftrightarrow> (\<forall>n e. obj_nearest env table reqPath n = Inl e \<longrightarrow> e = MetaNotFound)"

abbreviation obj_readable :: "list_env \<Rightarrow> Meta list \<Rightarrow> string \<Rightarrow> Obj \<Rightarrow> bool" where
  "obj_readable env table reqPath x \<equiv> name_readable env table reqPath (GetName x) (IsDir x)"

lemma CanRead_name:
  "CanRead (envEqualFold env) (envUser env) (obj_meta env table reqPath n dir) (PathJoin reqPath n) = Some (name_readable env table reqPath n dir)"
  by (auto simp: CanRead_def name_readable_def MetaCoversPath_Some split: option.split)

lemma filterReadable_eq:
  assumes "coherent s" "metas_unambiguous env (metaTable s) reqPath"
  shows "\<exists>s'. filterReadableObjs env (\<lambda>_. None) None reqPath acc objs s =
    Some ((None, acc @ filter (obj_readable env (metaTable s) reqPath) objs), s') \<and> coherent s' \<and> metaTable s' = metaTable s"
  using assms
proof (induction objs arbitrary: acc s)
  case (Cons obj objs)
  let ?n = "GetName obj" and ?p = "PathJoin reqPath (GetName obj)"
  have "\<exists>s1. (if IsDir obj
               then (case GetNearestMeta (envEqualFold env) (\<lambda>_. None) None ?p s of
                       None \<Rightarrow> None
                     | Some (Inr m, s1) \<Rightarrow> Some (Inr (Some m), s1)
                     | Some (Inl e, s1) \<Rightarrow> Some (if e \<noteq> MetaNotFound then Inl e else Inr None, s1))
               else Some (Inr (envMeta env), s)) = Some (Inr (obj_meta env (metaTable s) reqPath ?n (IsDir obj)), s1) \<and>
      coherent s1 \<and> metaTable s1 = metaTable s"
  proof (cases "IsDir obj")
    case True
    from GetNearestMeta_coherent [OF Cons.prems(1), of "envEqualFold env" ?p] Cons.prems(2) show ?thesis
      by (cases "obj_nearest env (metaTable s) reqPath ?n")
         (auto simp: True obj_meta_def metas_unambiguous_def obj_nearest_def)
  qed (simp add: obj_meta_def Cons.prems)
  then obtain s1 where s1: "(if IsDir obj
               then (case GetNearestMeta (envEqualFold env) (\<lambda>_. None) None ?p s of
                       None \<Rightarrow> None
                     | Some (Inr m, s1) \<Rightarrow> Some (Inr (Some m), s1)
                     | Some (Inl e, s1) \<Rightarrow> Some (if e \<noteq> MetaNotFound then Inl e else Inr None, s1))
               else Some (Inr (envMeta env), s)) = Some (Inr (obj_meta env (metaTable s) reqPath ?n (IsDir obj)), s1)"
    and c: "coherent s1" "metaTable s1 = metaTable s" by blast
  from Cons.IH [OF c(1), unfolded c(2), OF Cons.prems(2), of "if obj_readable env (metaTable s) reqPath obj then acc @ [obj] else acc"]
  show ?case unfolding filterReadableObjs.simps Let_def s1 by (auto simp: CanRead_name)
qed simp

lemma compile_all_Some:
  assumes "list_all (\<lambda>h. compile h \<noteq> None) hs"
  shows "\<exists>res. compile_all compile hs = Some res \<and> (\<forall>n. list_ex (\<lambda>re. re n) res \<longleftrightarrow> (\<exists>h \<in> set hs. \<exists>re. compile h = Some re \<and> re n))"
  using assms by (induction hs) (auto simp: list_ex_iff)

lemma fs_merge_eq:
  assumes "patterns_compile env"
  shows "fs_merge env path os vs = Some (first_of_name {} (filter (\<lambda>x. \<not> hidden_name env path (GetName x)) (os @ vs)))"
proof (cases "\<exists>u m. envUser env = Some u \<and> envMeta env = Some m \<and> \<not> CanSeeHides (Permission u) \<and> Hide m \<noteq> [] \<and>
    covers (envEqualFold env) (Path m) path (HSub m)")
  case True
  then obtain u m where um: "envUser env = Some u" "envMeta env = Some m" "\<not> CanSeeHides (Permission u)" "Hide m \<noteq> []"
    "covers (envEqualFold env) (Path m) path (HSub m)" by blast
  from assms um(2) have "list_all (\<lambda>h. envCompile env h \<noteq> None) (Split (CHR 0x0A) (Hide m))" by (simp add: patterns_compile_def)
  from compile_all_Some [OF this] obtain res where res: "compile_all (envCompile env) (Split (CHR 0x0A) (Hide m)) = Some res"
    "\<And>n. list_ex (\<lambda>re. re n) res \<longleftrightarrow> hides_name (envCompile env) (Hide m) n" by (auto simp: hides_name_def)
  have "om_shows \<lparr>omRegs = res, omSet = {}\<rparr> = (\<lambda>x. \<not> hidden_name env path (GetName x))"
    using um by (auto simp: om_shows_def res(2) hidden_name_def)
  then show ?thesis using um res(1)
    by (simp add: fs_merge_def whetherHide_def MetaCoversPath_Some InitHideReg_def NewObjMerge_def Merge_eq)
next
  case False
  then have "whetherHide env path = Some False" by (auto simp: whetherHide_def MetaCoversPath_Some split: option.split)
  moreover have "\<not> hidden_name env path n" for n using False by (auto simp: hidden_name_def split: option.split)
  moreover have "om_shows NewObjMerge = (\<lambda>x. True)" by (auto simp: om_shows_def NewObjMerge_def)
  ultimately show ?thesis by (simp add: fs_merge_def Merge_eq) (simp add: NewObjMerge_def)
qed

lemma first_of_name_mem:
  "x \<in> set (first_of_name seen xs) \<longleftrightarrow> GetName x \<notin> seen \<and> find (\<lambda>y. GetName y = GetName x) xs = Some x"
  by (induction seen xs rule: first_of_name.induct) auto

lemma find_filter_name:
  "(\<And>y. GetName y = n \<Longrightarrow> P y) \<Longrightarrow> find (\<lambda>y. GetName y = n) (filter P xs) = find (\<lambda>y. GetName y = n) xs"
  by (induction xs) auto


text \<open>What the storage that serves the path lists; \<open>None\<close> when there is none or it fails.\<close>

definition storage_objs :: "(Driver \<Rightarrow> string \<Rightarrow> string + Obj list) \<Rightarrow> mount_state \<Rightarrow> string \<Rightarrow> Obj list option" where
  "storage_objs opList s path =
     (case fst (GetStorageAndActualPath s path) of
        Inl _ \<Rightarrow> None
      | Inr (d, actual) \<Rightarrow> (case opList d actual of Inl _ \<Rightarrow> None | Inr os \<Rightarrow> Some os))"

lemma fs_list_cases:
  assumes "getStorageVirtualFilesByPath (storagesMap s) path [] = Some vs"
  shows "storage_objs opList s path = None \<Longrightarrow> vs = [] \<Longrightarrow>
      \<exists>e s'. fs_list env opList details schedule False pathErr snapErr path s ms = Some ((Some e, []), s', ms)"
    and "\<not> (storage_objs opList s path = None \<and> vs = []) \<Longrightarrow>
      \<exists>s'. fs_list env opList details schedule False pathErr snapErr path s ms =
        fs_list_rest env pathErr snapErr path (case storage_objs opList s path of None \<Rightarrow> [] | Some os \<Rightarrow> os) vs s' ms"
  using assms
  by (auto simp: fs_list_def storage_objs_def GetStorageVirtualFilesWithDetailsByPath_def split: prod.split sum.splits)

lemma GetStorageAndActualPath_clean: "GetStorageAndActualPath s (FixAndCleanPath path) = GetStorageAndActualPath s path"
  by (simp add: GetStorageAndActualPath_def)

lemma PathSplit_slash_suffix:
  assumes "valid_names P" "valid_name n"
  shows "PathSplit (path_of (P @ [n])) = (slash_suffix (path_of P), n)"
proof -
  have n: "slash \<notin> set n" using assms(2) by (simp add: valid_name_def)
  have "slash_suffix (path_of P) = (if P = [] then [] else path_of P) @ [slash]"
    using PathAddSeparatorSuffix_path_of [OF assms(1)] by (auto simp: slash_suffix_def PathAddSeparatorSuffix_def)
  then show ?thesis using PathSplit_append [OF n, of "if P = [] then [] else path_of P"] by (simp add: path_of_snoc)
qed

lemma slash_suffix_idem [simp]: "slash_suffix (slash_suffix p) = slash_suffix p"
  by (simp add: slash_suffix_def HasSuffix_def)

section \<open>Properties\<close>


definition sample_env :: list_env where
  "sample_env = \<lparr>envEqualFold = (=), envCompile = (\<lambda>p. Some ((=) p)), envUser = None, envMeta = None\<rparr>"

definition sample_file :: "string \<Rightarrow> Obj" where
  "sample_file n = Obj ((virtual_object n 0 0)\<lparr>oIsFolder := False\<rparr>)"

lemma sample_unambiguous: "metas_unambiguous sample_env (metaTable (sample_store pw)) path"
proof -
  have "nearest_spec (=) [m] ps = Inl e \<Longrightarrow> e = MetaNotFound" for m ps e
    by (induction ps) (auto split: if_splits)
  then show ?thesis by (simp add: metas_unambiguous_def obj_nearest_def sample_env_def sample_store_def)
qed



text \<open>Looking up an object by its path: if a storage is mounted at or below the path, the answer is the virtual
  folder of that name, and no storage is asked; otherwise the storage that serves the path is asked for the rest of the
  path, the root always exists, and any other path without a storage is refused.\<close>

theorem get_correct:
  assumes "mounts_ok (storagesMap s)"
  shows "if fix_comps path \<noteq> [] \<and> list_ex (\<lambda>(k, _). prefix (fix_comps path) (mount_comps k)) (storagesMap s)
    then \<exists>f. fs_get opGet details schedule False path s = Some (Inr f, s) \<and> GetName f = last (fix_comps path) \<and> IsDir f
    else fs_get opGet details schedule False path s =
      Some (case fst (GetStorageAndActualPath s path) of
              Inl err \<Rightarrow> if fix_comps path = [] then Inr (Obj root_object) else Inl (FailedGetStorage err)
            | Inr (d, actual) \<Rightarrow> (case opGet d actual of Inl e \<Rightarrow> Inl (FailedGetObjs e) | Inr x \<Rightarrow> Inr x),
            snd (GetStorageAndActualPath s path))"
proof (cases "fix_comps path" rule: rev_cases)
  case Nil
  then have clean: "FixAndCleanPath path = ''/''" by (simp add: FixAndCleanPath_eq)
  show ?thesis using Nil
    by (cases "GetStorageAndActualPath s path")
       (auto simp: fs_get_def clean Let_def GetStorageAndActualPath_clean [of s path, unfolded clean] split: prod.split sum.split)
next
  case (snoc P n)
  then have v: "valid_names P" "valid_name n" using fix_comps_valid [of path] by (simp_all add: snoc)
  have clean: "FixAndCleanPath path = path_of (P @ [n])" by (simp add: FixAndCleanPath_eq snoc)
  have ne: "path_of (P @ [n]) \<noteq> ''/''" using v path_of_inject [of "P @ [n]" "[]"] by auto
  have split: "PathSplit (path_of (P @ [n])) = (slash_suffix (path_of P), n)"
    by (rule PathSplit_slash_suffix [OF v])
  from virtual_files_spec [OF assms v(1), of n] obtain files where
    files: "getStorageVirtualFilesByPath (storagesMap s) (path_of P) n = Some files"
      "set (map GetName files) = {m. (n = [] \<or> m = n) \<and> (\<exists>(k, d) \<in> set (storagesMap s). prefix (P @ [m]) (mount_comps k))}"
      "list_all IsDir files" by (auto simp: list_all_iff)
  have nn: "n \<noteq> []" using v(2) by (simp add: valid_name_def)
  have fs: "GetStorageVirtualFilesWithDetailsByPath (storagesMap s) details schedule (slash_suffix (path_of P)) True n = Some files"
    using files(1) by (simp add: GetStorageVirtualFilesWithDetailsByPath_def getStorageVirtualFilesByPath_def)
  show ?thesis
  proof (cases "list_ex (\<lambda>(k, _). prefix (P @ [n]) (mount_comps k)) (storagesMap s)")
    case True
    then have "n \<in> GetName ` set files" using files(2) by (auto simp: list_ex_iff)
    then obtain f where f: "find (\<lambda>f. GetName f = n) files = Some f" by (cases "find (\<lambda>f. GetName f = n) files") (auto simp: find_None_iff)
    then have "GetName f = n" "f \<in> set files" by (auto simp: find_Some_iff)
    then show ?thesis using True f files(3) by (auto simp: fs_get_def clean split fs ne snoc list_all_iff)
  next
    case False
    then have "n \<notin> GetName ` set files" using files(2) nn by (auto simp: list_ex_iff)
    then have "find (\<lambda>f. GetName f = n) files = None" by (auto simp: find_None_iff)
    then show ?thesis using False
      by (auto simp: fs_get_def clean split fs ne snoc GetStorageAndActualPath_clean [of s path, unfolded clean] split: prod.split sum.split)
  qed
qed

theorem get_correct_witness:
  "\<exists>f. fs_get (\<lambda>_ _. Inl ''object not found'') (\<lambda>_. None) [] False ''a//b/'' sample_mounts = Some (Inr f, sample_mounts) \<and> GetName f = ''b''"
proof -
  have c: "fix_comps ''a//b/'' = [''a'', ''b'']" by code_simp
  have "list_ex (\<lambda>(k, _). prefix [''a'', ''b''] (mount_comps k)) (storagesMap sample_mounts)"
    using sample_mount_comps by (simp add: sample_mounts_def)
  with get_correct [OF sample_mounts_ok, of "''a//b/''" "\<lambda>_ _. Inl ''object not found''" "\<lambda>_. None" "[]"] show ?thesis by (auto simp: c)
qed

end
