(* ===== verification/Storage_Life.thy ===== *)
theory Storage_Life
  imports Mounts Go_Map
begin

text \<open>
  The life of a storage: creating, loading, enabling, disabling, updating and deleting it (\<open>internal/op/storage.go\<close>).
  The state is the mount table, the rows of the database and the trace of the calls that go to components outside this
  theory: the hooks, the directory cache and the driver's \<open>Drop\<close>.  The outcome of everything a driver or the database
  decides is given by an environment.  The code keeps drivers behind pointers: a new driver gets a fresh address, the table
  shows under each key the driver as it is now, and a change of a driver is seen under every key that leads to its address.
\<close>

section \<open>The model\<close>

datatype init_result = InitOk | InitErr string | InitPanic string

datatype life_event = Hook string string | CacheDropTree string | CacheDropDetails string | Dropped string

datatype life_error =
    NoDriver | DbFailed string | InitFailed string | AlreadyEnabled | AlreadyDisabled | NoStorageDriver storage_error
  | DropFailed string | DriverChanged

record life_env =
  knownDriver :: "string \<Rightarrow> bool"
  dbFail :: "string \<Rightarrow> string option"
  newID :: nat
  unmarshal :: "string \<Rightarrow> string option"
  isReference :: bool
  initReference :: "Driver \<Rightarrow> init_result"
  notSupported :: "string \<Rightarrow> bool"
  driverInit :: "Driver \<Rightarrow> init_result"
  driverDrop :: "Driver \<Rightarrow> string option"
  marshal :: "string + string"
  useOnlineAPI :: bool
  sanitize :: "string \<Rightarrow> string"
  clock :: int

record life =
  mounts :: mount_state
  nextAddr :: nat
  rows :: "Storage list"
  trace :: "life_event list"

subsection \<open>The database\<close>

definition db_row :: "life_env \<Rightarrow> nat \<Rightarrow> life \<Rightarrow> life_error + Storage" where
  "db_row env i s =
     (case dbFail env ''get'' of
        Some e \<Rightarrow> Inl (DbFailed e)
      | None \<Rightarrow> (case find (\<lambda>r. StorageID r = i) (rows s) of None \<Rightarrow> Inl (DbFailed ''record not found'') | Some r \<Rightarrow> Inr r))"

text \<open>A row whose mount path another row has is refused: the column is unique.\<close>

definition path_taken :: "Storage \<Rightarrow> Storage list \<Rightarrow> bool" where
  "path_taken r rs \<longleftrightarrow> list_ex (\<lambda>x. MountPath x = MountPath r \<and> StorageID x \<noteq> StorageID r) rs"

definition db_create :: "life_env \<Rightarrow> Storage \<Rightarrow> life \<Rightarrow> life_error option \<times> Storage \<times> life" where
  "db_create env r s =
     (case dbFail env ''create'' of
        Some e \<Rightarrow> (Some (DbFailed e), r, s)
      | None \<Rightarrow>
          let r' = r\<lparr>StorageID := newID env\<rparr>
          in if path_taken r' (rows s) then (Some (DbFailed ''UNIQUE constraint failed''), r, s)
             else (None, r', s\<lparr>rows := rows s @ [r']\<rparr>))"

text \<open>\<open>Save\<close> writes the row of the key, or a new one if there is none.\<close>

definition put_row :: "Storage \<Rightarrow> Storage list \<Rightarrow> Storage list" where
  "put_row r rs =
     (if list_ex (\<lambda>x. StorageID x = StorageID r) rs then map (\<lambda>x. if StorageID x = StorageID r then r else x) rs else rs @ [r])"

definition db_update :: "life_env \<Rightarrow> Storage \<Rightarrow> life \<Rightarrow> life_error option \<times> life" where
  "db_update env r s =
     (case dbFail env ''save'' of
        Some e \<Rightarrow> (Some (DbFailed e), s)
      | None \<Rightarrow>
          if path_taken r (rows s) then (Some (DbFailed ''UNIQUE constraint failed''), s)
          else (None, s\<lparr>rows := put_row r (rows s)\<rparr>))"

subsection \<open>Initialising a driver\<close>

text \<open>A write through the pointer: every entry of the table with the address of the driver shows it.\<close>

definition write_entry :: "Driver \<Rightarrow> string \<times> Driver \<Rightarrow> string \<times> Driver" where
  "write_entry d e = (fst e, if DriverAddr (snd e) = DriverAddr d then d else snd e)"

definition write_driver :: "Driver \<Rightarrow> life \<Rightarrow> life" where
  "write_driver d s = s\<lparr>mounts := (mounts s)\<lparr>storagesMap := map (write_entry d) (storagesMap (mounts s))\<rparr>\<rparr>"

definition store_driver :: "Driver \<Rightarrow> life \<Rightarrow> life" where
  "store_driver d s = s\<lparr>mounts := (mounts s)\<lparr>storagesMap := dict_set (drv_mount d) d (storagesMap (mounts s))\<rparr>\<rparr>"

definition delete_driver :: "string \<Rightarrow> life \<Rightarrow> life" where
  "delete_driver k s = s\<lparr>mounts := (mounts s)\<lparr>storagesMap := dict_del k (storagesMap (mounts s))\<rparr>\<rparr>"

definition emit :: "life_event \<Rightarrow> life \<Rightarrow> life" where
  "emit e s = s\<lparr>trace := trace s @ [e]\<rparr>"

definition set_storage :: "(Storage \<Rightarrow> Storage) \<Rightarrow> Driver \<Rightarrow> Driver" where
  "set_storage f d = d\<lparr>GetStorage := f (GetStorage d)\<rparr>"

text \<open>\<open>saveDriverStorage\<close>, whose error \<open>MustSaveDriverStorage\<close> only logs.\<close>

definition saveDriverStorage :: "life_env \<Rightarrow> Driver \<Rightarrow> life \<Rightarrow> life_error option \<times> Driver \<times> life" where
  "saveDriverStorage env d s =
     (case marshal env of
        Inl e \<Rightarrow> (Some (DbFailed e), d, s)
      | Inr str \<Rightarrow>
          let d' = set_storage (\<lambda>r. r\<lparr>Addition := str\<rparr>) d; (err, s') = db_update env (GetStorage d') s
          in (err, d', s'))"

definition MustSaveDriverStorage :: "life_env \<Rightarrow> Driver \<Rightarrow> life \<Rightarrow> Driver \<times> life" where
  "MustSaveDriverStorage env d s = snd (saveDriverStorage env d s)"

text \<open>What happens before the driver is stored: the addition, the reference to another storage, \<open>Init\<close>.\<close>

definition ref_path :: "string \<Rightarrow> string" where
  "ref_path remark =
     (case Index remark [CHR 0x0A] of Some i \<Rightarrow> if i > 0 then drop 4 (take i remark) else drop 4 remark | None \<Rightarrow> drop 4 remark)"

definition prepare_driver :: "life_env \<Rightarrow> Driver \<Rightarrow> life \<Rightarrow> init_result" where
  "prepare_driver env d s =
     (case unmarshal env (Addition (GetStorage d)) of
        Some e \<Rightarrow> InitErr e
      | None \<Rightarrow>
          let ref = (if isReference env \<and> HasPrefix (Remark (GetStorage d)) ''ref:/''
                     then case GetStorageByMountPath (mounts s) (ref_path (Remark (GetStorage d))) of
                            Inl _ \<Rightarrow> InitErr ''ref: no mount path''
                          | Inr refStorage \<Rightarrow>
                              (case initReference env refStorage of
                                 InitErr e \<Rightarrow> InitErr (if notSupported env e then ''ref: storage is not '' @ ConfigName d else e)
                               | r \<Rightarrow> r)
                     else InitOk)
          in if ref = InitOk then driverInit env d else ref)"

text \<open>A panic is recovered from: the driver is stored with the panic as its status, and the error returned is \<open>nil\<close>.\<close>

definition initStorage :: "life_env \<Rightarrow> Storage \<Rightarrow> Driver \<Rightarrow> life \<Rightarrow> life_error option \<times> life" where
  "initStorage env storage d0 s =
     (let d = set_storage (\<lambda>_. storage) d0; s0 = write_driver d s
      in case prepare_driver env d s0 of
           InitPanic p \<Rightarrow>
             let (d', s') = MustSaveDriverStorage env (set_storage (\<lambda>r. r\<lparr>Status := ''[panic] '' @ p\<rparr>) d) s0
             in (None, store_driver d' (write_driver d' s'))
         | InitErr e \<Rightarrow>
             let (d', s') = MustSaveDriverStorage env (set_storage (\<lambda>r. r\<lparr>Status := (if useOnlineAPI env then sanitize env e else e)\<rparr>) d) (store_driver d s0)
             in (Some (InitFailed e), write_driver d' s')
         | InitOk \<Rightarrow>
             let (d', s') = MustSaveDriverStorage env (set_storage (\<lambda>r. r\<lparr>Status := WORK\<rparr>) d) (store_driver d s0)
             in (None, write_driver d' s'))"

subsection \<open>The operations\<close>

text \<open>\<open>driverNew()\<close>: a fresh driver object of the kind; \<open>initStorage\<close> gives it its storage.\<close>

definition new_driver :: "Storage \<Rightarrow> life \<Rightarrow> Driver \<times> life" where
  "new_driver r s = (\<lparr>DriverAddr = nextAddr s, ConfigName = DriverName r, GetStorage = r\<rparr>, s\<lparr>nextAddr := nextAddr s + 1\<rparr>)"

definition clean_storage :: "Storage \<Rightarrow> Storage" where
  "clean_storage r = r\<lparr>MountPath := FixAndCleanPath (MountPath r)\<rparr>"

definition CreateStorage :: "life_env \<Rightarrow> Storage \<Rightarrow> life \<Rightarrow> life_error option \<times> life" where
  "CreateStorage env storage0 s =
     (let storage = clean_storage (storage0\<lparr>Modified := clock env\<rparr>)
      in if \<not> knownDriver env (DriverName storage) then (Some NoDriver, s)
         else let (storageDriver, s0) = new_driver storage s; (err, storage, s1) = db_create env storage s0
              in if err \<noteq> None then (err, s1)
                 else let (err, s2) = initStorage env storage storageDriver s1
                      in (err, emit (Hook ''add'' (MountPath storage)) s2))"

definition LoadStorage :: "life_env \<Rightarrow> Storage \<Rightarrow> life \<Rightarrow> life_error option \<times> life" where
  "LoadStorage env storage0 s =
     (let storage = clean_storage storage0
      in if \<not> knownDriver env (DriverName storage) then (Some NoDriver, s)
         else let (storageDriver, s0) = new_driver storage s; (err, s1) = initStorage env storage storageDriver s0
              in (err, emit (Hook ''add'' (MountPath storage)) s1))"

definition EnableStorage :: "life_env \<Rightarrow> nat \<Rightarrow> life \<Rightarrow> life_error option \<times> life" where
  "EnableStorage env i s =
     (case db_row env i s of
        Inl e \<Rightarrow> (Some e, s)
      | Inr storage \<Rightarrow>
          if \<not> Disabled storage then (Some AlreadyEnabled, s)
          else let storage' = storage\<lparr>Disabled := False\<rparr>; (err, s1) = db_update env storage' s
               in if err \<noteq> None then (err, s1) else LoadStorage env storage' s1)"

definition DisableStorage :: "life_env \<Rightarrow> nat \<Rightarrow> life \<Rightarrow> life_error option \<times> life" where
  "DisableStorage env i s =
     (case db_row env i s of
        Inl e \<Rightarrow> (Some e, s)
      | Inr storage \<Rightarrow>
          if Disabled storage then (Some AlreadyDisabled, s)
          else case GetStorageByMountPath (mounts s) (MountPath storage) of
                 Inl e \<Rightarrow> (Some (NoStorageDriver e), s)
               | Inr d \<Rightarrow>
                   let s1 = emit (Dropped (drv_mount d)) s
                   in case driverDrop env d of
                        Some e \<Rightarrow> (Some (DropFailed e), s1)
                      | None \<Rightarrow>
                          let (err, s2) = db_update env (storage\<lparr>Disabled := True, Status := DISABLED\<rparr>) s1
                          in if err \<noteq> None then (err, s2)
                             else (None, emit (Hook ''del'' (drv_mount d)) (delete_driver (MountPath storage) s2)))"

definition UpdateStorage :: "life_env \<Rightarrow> Storage \<Rightarrow> life \<Rightarrow> life_error option \<times> life" where
  "UpdateStorage env storage0 s =
     (case db_row env (StorageID storage0) s of
        Inl e \<Rightarrow> (Some e, s)
      | Inr oldStorage \<Rightarrow>
          if DriverName oldStorage \<noteq> DriverName storage0 then (Some DriverChanged, s)
          else let storage = clean_storage (storage0\<lparr>Modified := clock env\<rparr>); (err, s1) = db_update env storage s
               in if err \<noteq> None then (err, s1)
                  else if Disabled storage then (None, s1)
                  else case GetStorageByMountPath (mounts s1) (MountPath oldStorage) of
                         Inl e \<Rightarrow> (Some (NoStorageDriver e), s1)
                       | Inr d \<Rightarrow>
                           let s2 = emit (CacheDropDetails (drv_mount d)) (emit (CacheDropTree (drv_mount d)) s1);
                               s3 = (if MountPath oldStorage \<noteq> MountPath storage then delete_driver (MountPath oldStorage) s2 else s2);
                               s4 = emit (Dropped (drv_mount d)) s3
                           in case driverDrop env d of
                                Some e \<Rightarrow> (Some (DropFailed e), s4)
                              | None \<Rightarrow>
                                  let (err, s5) = initStorage env storage d s4
                                  in (err, emit (Hook ''update'' (MountPath storage)) s5))"

definition DeleteStorageById :: "life_env \<Rightarrow> nat \<Rightarrow> life \<Rightarrow> life_error option \<times> life" where
  "DeleteStorageById env i s =
     (let delete_row = (\<lambda>dropErr s.
            case dbFail env ''delete'' of
              Some e \<Rightarrow> (Some (DbFailed e), s)
            | None \<Rightarrow> (dropErr, s\<lparr>rows := filter (\<lambda>r. StorageID r \<noteq> i) (rows s)\<rparr>))
      in case db_row env i s of
           Inl e \<Rightarrow> (Some e, s)
         | Inr storage \<Rightarrow>
             if Disabled storage then delete_row None s
             else case GetStorageByMountPath (mounts s) (MountPath storage) of
                    Inl e \<Rightarrow> (Some (NoStorageDriver e), s)
                  | Inr d \<Rightarrow>
                      let s1 = delete_driver (MountPath storage) (emit (Dropped (drv_mount d)) s);
                          s2 = emit (CacheDropDetails (drv_mount d)) (emit (CacheDropTree (drv_mount d)) s1)
                      in delete_row (map_option DropFailed (driverDrop env d)) (emit (Hook ''del'' (drv_mount d)) s2))"

definition ReloadStorage :: "life_env \<Rightarrow> nat \<Rightarrow> life \<Rightarrow> life_error option \<times> life" where
  "ReloadStorage env i s =
     (case db_row env i s of Inl e \<Rightarrow> (Some e, s) | Inr storage \<Rightarrow> LoadStorage env storage s)"

section \<open>The invariant\<close>

text \<open>Every driver is in the table once, under its own cleaned mount path; keys and mount paths of the rows are unique.\<close>

definition table_inv :: "nat \<Rightarrow> storages \<Rightarrow> bool" where
  "table_inv n m \<longleftrightarrow> distinct (map fst m) \<and>
     (\<forall>k d. (k, d) \<in> set m \<longrightarrow> drv_mount d = k \<and> FixAndCleanPath k = k \<and> DriverAddr d < n) \<and>
     (\<forall>k d k' d'. (k, d) \<in> set m \<and> (k', d') \<in> set m \<and> DriverAddr d = DriverAddr d' \<longrightarrow> k = k')"

lemma table_inv_addr:
  assumes "table_inv n m" "(k, d) \<in> set m" "(k', d') \<in> set m" "DriverAddr d = DriverAddr d'"
  shows "k = k'"
  using assms unfolding table_inv_def by blast

definition rows_inv :: "Storage list \<Rightarrow> bool" where
  "rows_inv rs \<longleftrightarrow> distinct (map StorageID rs) \<and> distinct (map MountPath rs) \<and> (\<forall>r \<in> set rs. FixAndCleanPath (MountPath r) = MountPath r)"

definition life_inv :: "life \<Rightarrow> bool" where
  "life_inv s \<longleftrightarrow> table_inv (nextAddr s) (storagesMap (mounts s)) \<and> rows_inv (rows s)"

text \<open>A driver may be initialised with a storage when no other key of the table leads to it.\<close>

definition only_under :: "Driver \<Rightarrow> string \<Rightarrow> life \<Rightarrow> bool" where
  "only_under d p s \<longleftrightarrow> DriverAddr d < nextAddr s \<and> (\<forall>k d'. (k, d') \<in> set (storagesMap (mounts s)) \<and> DriverAddr d' = DriverAddr d \<longrightarrow> k = p)"

lemma set_dict_set: "(a, b) \<in> set (dict_set k v d) \<Longrightarrow> a = k \<and> b = v \<or> (a, b) \<in> set d"
  by (induction k v d rule: dict_set.induct) (auto split: if_splits)

lemma fst_write_entry [simp]: "map fst (map (write_entry d) m) = map fst m"
  by (simp add: write_entry_def comp_def)

lemma in_write_entry: "(k, x) \<in> set (map (write_entry d) m) \<longleftrightarrow>
    (\<exists>y. (k, y) \<in> set m \<and> x = (if DriverAddr y = DriverAddr d then d else y))"
  by (auto simp: write_entry_def image_iff) force+

lemma life_inv_write:
  assumes "life_inv s" "only_under d (drv_mount d) s"
  shows "life_inv (write_driver d s)"
proof -
  have "table_inv (nextAddr s) (map (write_entry d) (storagesMap (mounts s)))"
    using assms unfolding life_inv_def table_inv_def only_under_def in_write_entry fst_write_entry by (fastforce split: if_splits)
  then show ?thesis using assms(1) by (simp add: life_inv_def write_driver_def)
qed

lemma life_inv_store:
  assumes "life_inv s" "only_under d (drv_mount d) s" "FixAndCleanPath (drv_mount d) = drv_mount d"
  shows "life_inv (store_driver d s)"
proof -
  have "table_inv (nextAddr s) (dict_set (drv_mount d) d (storagesMap (mounts s)))"
    using assms unfolding life_inv_def table_inv_def only_under_def by (fastforce dest!: set_dict_set)
  then show ?thesis using assms(1) by (simp add: life_inv_def store_driver_def)
qed

lemma only_under_cong:
  "mounts s' = mounts s \<Longrightarrow> nextAddr s' = nextAddr s \<Longrightarrow> DriverAddr d' = DriverAddr d \<Longrightarrow> only_under d p s \<Longrightarrow> only_under d' p s'"
  by (simp add: only_under_def)

lemma only_under_write: "only_under d p s \<Longrightarrow> DriverAddr d' = DriverAddr d \<Longrightarrow> only_under d' p (write_driver d' s)"
  unfolding only_under_def write_driver_def by (auto simp del: set_map simp: in_write_entry split: if_splits)

lemma only_under_store: "only_under d p s \<Longrightarrow> drv_mount d = p \<Longrightarrow> only_under d p (store_driver d s)"
  unfolding only_under_def store_driver_def by (auto dest!: set_dict_set)

lemma life_inv_delete: "life_inv s \<Longrightarrow> life_inv (delete_driver k s)"
proof -
  have "set (dict_del k m) \<subseteq> set m" for m :: storages by (auto simp: dict_del_def)
  then show "life_inv s \<Longrightarrow> ?thesis"
    unfolding life_inv_def table_inv_def delete_driver_def by (simp add: distinct_dict_del) blast
qed

lemma life_inv_emit [simp]: "life_inv (emit e s) = life_inv s"
  by (simp add: life_inv_def emit_def)

lemma emit_simps [simp]: "mounts (emit e s) = mounts s" "rows (emit e s) = rows s" "nextAddr (emit e s) = nextAddr s"
  by (simp_all add: emit_def)

lemma path_taken_iff: "path_taken r rs \<longleftrightarrow> (\<exists>x \<in> set rs. MountPath x = MountPath r \<and> StorageID x \<noteq> StorageID r)"
  by (auto simp: path_taken_def list_ex_iff)

lemma rows_inv_put:
  assumes "rows_inv rs" "\<not> path_taken r rs" "FixAndCleanPath (MountPath r) = MountPath r"
  shows "rows_inv (put_row r rs)"
proof (cases "list_ex (\<lambda>x. StorageID x = StorageID r) rs")
  case True
  let ?f = "\<lambda>x. if StorageID x = StorageID r then r else x"
  from assms(1) have d: "distinct rs" "inj_on StorageID (set rs)" "inj_on MountPath (set rs)" by (auto simp: rows_inv_def distinct_map)
  have "inj_on (MountPath \<circ> ?f) (set rs)"
  proof (rule inj_onI)
    fix x y
    assume xy: "x \<in> set rs" "y \<in> set rs" "(MountPath \<circ> ?f) x = (MountPath \<circ> ?f) y"
    have other: "MountPath z \<noteq> MountPath r" if "z \<in> set rs" "StorageID z \<noteq> StorageID r" for z
      using assms(2) that unfolding path_taken_iff by blast
    show "x = y"
    proof (cases "StorageID x = StorageID y")
      case True
      then show ?thesis using d(2) xy(1,2) by (simp add: inj_onD)
    next
      case False
      then show ?thesis using d(3) xy other [OF xy(1)] other [OF xy(2)] by (auto dest: inj_onD split: if_splits)
    qed
  qed
  then have "distinct (map MountPath (map ?f rs))" using d(1) by (simp add: distinct_map)
  moreover have "map StorageID (map ?f rs) = map StorageID rs" by simp
  then have "distinct (map StorageID (map ?f rs))" using assms(1) unfolding rows_inv_def by metis
  moreover have "put_row r rs = map ?f rs" using True by (simp add: put_row_def)
  ultimately show ?thesis using assms(1,3) unfolding rows_inv_def by auto
next
  case False
  then show ?thesis using assms by (auto simp: put_row_def rows_inv_def list_ex_iff path_taken_iff)
qed


lemma db_update_inv:
  assumes "life_inv s" "FixAndCleanPath (MountPath r) = MountPath r" "db_update env r s = (err, s')"
  shows "life_inv s'" "mounts s' = mounts s" "nextAddr s' = nextAddr s"
  using assms rows_inv_put [of "rows s" r] by (auto simp: db_update_def life_inv_def split: option.splits if_splits)

lemma db_create_inv:
  assumes "life_inv s" "FixAndCleanPath (MountPath r) = MountPath r" "newID env \<notin> StorageID ` set (rows s)"
    "db_create env r s = (err, r', s')"
  shows "life_inv s'" "mounts s' = mounts s" "MountPath r' = MountPath r"
    "err = None \<Longrightarrow> StorageID r' = newID env \<and> r' \<in> set (rows s')" "nextAddr s' = nextAddr s"
proof -
  have "rows_inv (rows s @ [r\<lparr>StorageID := newID env\<rparr>])" if "\<not> path_taken (r\<lparr>StorageID := newID env\<rparr>) (rows s)"
    using assms(1-3) that by (force simp: life_inv_def rows_inv_def path_taken_iff)
  then show "life_inv s'" "mounts s' = mounts s" "MountPath r' = MountPath r" "err = None \<Longrightarrow> StorageID r' = newID env \<and> r' \<in> set (rows s')"
    "nextAddr s' = nextAddr s"
    using assms by (auto simp: db_create_def life_inv_def Let_def split: option.splits if_splits)
qed

lemma put_row_mem: "r \<in> set (put_row r rs)"
  by (auto simp: put_row_def list_ex_iff)

lemma put_row_keys: "StorageID r = i \<Longrightarrow> MountPath r = p \<Longrightarrow> \<exists>x \<in> set (put_row r rs). StorageID x = i \<and> MountPath x = p"
  using put_row_mem by blast

lemma MustSave_inv:
  assumes "life_inv s" "FixAndCleanPath (drv_mount d) = drv_mount d" "MustSaveDriverStorage env d s = (d', s')"
  shows "life_inv s'" "mounts s' = mounts s" "drv_mount d' = drv_mount d" "StorageID (GetStorage d') = StorageID (GetStorage d)"
    "Status (GetStorage d') = Status (GetStorage d)" "nextAddr s' = nextAddr s" "DriverAddr d' = DriverAddr d"
    "\<exists>x \<in> set (rows s). StorageID x = i \<and> MountPath x = drv_mount d \<Longrightarrow> StorageID (GetStorage d) = i \<Longrightarrow>
       \<exists>x \<in> set (rows s'). StorageID x = i \<and> MountPath x = drv_mount d"
proof -
  have c: "FixAndCleanPath (MountPath (GetStorage (set_storage (\<lambda>r. r\<lparr>Addition := str\<rparr>) d))) = MountPath (GetStorage (set_storage (\<lambda>r. r\<lparr>Addition := str\<rparr>) d))" for str
    using assms(2) by (simp add: set_storage_def)
  note u = db_update_inv [OF assms(1) c]
  show "life_inv s'" "mounts s' = mounts s" "nextAddr s' = nextAddr s"
    using assms(1,3) u by (auto simp: MustSaveDriverStorage_def saveDriverStorage_def Let_def split: sum.splits prod.splits)
  show "drv_mount d' = drv_mount d" "StorageID (GetStorage d') = StorageID (GetStorage d)" "Status (GetStorage d') = Status (GetStorage d)"
    "DriverAddr d' = DriverAddr d"
    using assms(3) by (auto simp: MustSaveDriverStorage_def saveDriverStorage_def set_storage_def Let_def split: sum.splits prod.splits)
  show "\<exists>x \<in> set (rows s'). StorageID x = i \<and> MountPath x = drv_mount d"
    if "\<exists>x \<in> set (rows s). StorageID x = i \<and> MountPath x = drv_mount d" "StorageID (GetStorage d) = i"
    using assms(3) that
    by (auto intro!: put_row_keys simp: MustSaveDriverStorage_def saveDriverStorage_def db_update_def set_storage_def Let_def
        split: sum.splits prod.splits option.splits if_splits)
qed

text \<open>Initialising stores the driver under the mount path of its storage, whatever the outcome.\<close>

definition init_status :: "life_env \<Rightarrow> Storage \<Rightarrow> Driver \<Rightarrow> life \<Rightarrow> string" where
  "init_status env r d s =
     (case prepare_driver env (set_storage (\<lambda>_. r) d) (write_driver (set_storage (\<lambda>_. r) d) s) of
        InitOk \<Rightarrow> WORK | InitErr e \<Rightarrow> if useOnlineAPI env then sanitize env e else e | InitPanic p \<Rightarrow> ''[panic] '' @ p)"

lemma map_of_write_entry: "map_of (map (write_entry d) m) k = map_option (\<lambda>y. if DriverAddr y = DriverAddr d then d else y) (map_of m k)"
  by (induction m) (auto simp: write_entry_def)

lemma map_of_write_driver:
  "map_of (storagesMap (mounts (write_driver d s))) k =
     map_option (\<lambda>y. if DriverAddr y = DriverAddr d then d else y) (map_of (storagesMap (mounts s)) k)"
  by (simp add: write_driver_def map_of_write_entry)

lemma store_write_simps [simp]:
  "rows (store_driver d s) = rows s" "rows (write_driver d s) = rows s" "nextAddr (store_driver d s) = nextAddr s" "nextAddr (write_driver d s) = nextAddr s"
  by (simp_all add: store_driver_def write_driver_def)

lemma set_storage_simps [simp]: "GetStorage (set_storage f d) = f (GetStorage d)" "DriverAddr (set_storage f d) = DriverAddr d"
  by (simp_all add: set_storage_def)

lemma initStorage_inv:
  assumes s: "life_inv s" and c: "FixAndCleanPath (MountPath r) = MountPath r" and o: "only_under d (MountPath r) s"
    and i: "initStorage env r d s = (err, s')"
  shows "life_inv s'"
    "\<exists>d'. map_of (storagesMap (mounts s')) (MountPath r) = Some d' \<and> Status (GetStorage d') = init_status env r d s"
    "\<exists>x \<in> set (rows s). StorageID x = StorageID r \<and> MountPath x = MountPath r \<Longrightarrow>
     \<exists>x \<in> set (rows s'). StorageID x = StorageID r \<and> MountPath x = MountPath r"
    "err = None \<longleftrightarrow> (\<forall>e. prepare_driver env (set_storage (\<lambda>_. r) d) (write_driver (set_storage (\<lambda>_. r) d) s) \<noteq> InitErr e)"
proof -
  define d0 where "d0 = set_storage (\<lambda>_. r) d"
  define d1 where "d1 = set_storage (\<lambda>r'. r'\<lparr>Status := init_status env r d s\<rparr>) d0"
  let ?s0 = "write_driver d0 s"
  have d0: "drv_mount d0 = MountPath r" "only_under d0 (MountPath r) s" using o by (auto simp: d0_def only_under_def)
  have d1: "drv_mount d1 = MountPath r" "FixAndCleanPath (drv_mount d1) = drv_mount d1" "DriverAddr d1 = DriverAddr d0"
    "StorageID (GetStorage d1) = StorageID r" "Status (GetStorage d1) = init_status env r d s"
    using c by (simp_all add: d1_def d0_def)
  have s0: "life_inv ?s0" "only_under d0 (MountPath r) ?s0"
    using life_inv_write [OF s, of d0] only_under_write [of d0 _ s d0] d0 by simp_all
  then have st: "life_inv (store_driver d0 ?s0)" "only_under d0 (MountPath r) (store_driver d0 ?s0)"
    using life_inv_store [of ?s0 d0] only_under_store [of d0 _ ?s0] d0 c by simp_all
  have save: "life_inv (write_driver d2 t2) \<and> only_under d2 (MountPath r) (write_driver d2 t2) \<and> drv_mount d2 = MountPath r \<and>
      mounts t2 = mounts t \<and> DriverAddr d2 = DriverAddr d0 \<and> Status (GetStorage d2) = init_status env r d s \<and>
      ((\<exists>x \<in> set (rows t). StorageID x = StorageID r \<and> MountPath x = MountPath r) \<longrightarrow>
       (\<exists>x \<in> set (rows t2). StorageID x = StorageID r \<and> MountPath x = MountPath r))"
    if m: "MustSaveDriverStorage env d1 t = (d2, t2)" and t: "life_inv t" "only_under d0 (MountPath r) t" for t d2 t2
  proof -
    note ms = MustSave_inv [OF t(1) d1(2) m]
    have "only_under d2 (MountPath r) t2" by (rule only_under_cong [OF ms(2,6) _ t(2)]) (simp add: ms(7) d1(3))
    then show ?thesis using life_inv_write [OF ms(1), of d2] only_under_write [of d2 _ t2 d2] ms d1 by simp
  qed
  have "life_inv s' \<and> (\<exists>d'. map_of (storagesMap (mounts s')) (MountPath r) = Some d' \<and> Status (GetStorage d') = init_status env r d s) \<and>
    ((\<exists>x \<in> set (rows s). StorageID x = StorageID r \<and> MountPath x = MountPath r) \<longrightarrow>
     (\<exists>x \<in> set (rows s'). StorageID x = StorageID r \<and> MountPath x = MountPath r))"
  proof (cases "\<exists>p. prepare_driver env d0 ?s0 = InitPanic p")
    case True
    obtain d2 t2 where m: "MustSaveDriverStorage env d1 ?s0 = (d2, t2)" by fastforce
    have "s' = store_driver d2 (write_driver d2 t2)"
      using i True m by (auto simp: initStorage_def Let_def d1_def d0_def init_status_def)
    then show ?thesis using save [OF m s0] life_inv_store [of "write_driver d2 t2" d2] c by (simp add: store_driver_def)
  next
    case False
    obtain d2 t2 where m: "MustSaveDriverStorage env d1 (store_driver d0 ?s0) = (d2, t2)" by fastforce
    have "s' = write_driver d2 t2"
      using i False m by (auto simp: initStorage_def Let_def d1_def d0_def init_status_def split: init_result.splits prod.splits)
    moreover have "map_of (storagesMap (mounts (store_driver d0 ?s0))) (MountPath r) = Some d0" by (simp add: store_driver_def d0(1))
    ultimately show ?thesis using save [OF m st] by (simp add: map_of_write_driver)
  qed
  then show "life_inv s'" "\<exists>d'. map_of (storagesMap (mounts s')) (MountPath r) = Some d' \<and> Status (GetStorage d') = init_status env r d s"
    "\<exists>x \<in> set (rows s). StorageID x = StorageID r \<and> MountPath x = MountPath r \<Longrightarrow>
     \<exists>x \<in> set (rows s'). StorageID x = StorageID r \<and> MountPath x = MountPath r"
    by blast+
  show "err = None \<longleftrightarrow> (\<forall>e. prepare_driver env (set_storage (\<lambda>_. r) d) (write_driver (set_storage (\<lambda>_. r) d) s) \<noteq> InitErr e)"
    using i by (auto simp: initStorage_def Let_def split: init_result.splits prod.splits)
qed

section \<open>The operations keep the invariant\<close>

lemma clean_storage_simps [simp]:
  "FixAndCleanPath (MountPath (clean_storage r)) = MountPath (clean_storage r)" "StorageID (clean_storage r) = StorageID r"
  "DriverName (clean_storage r) = DriverName r" "Disabled (clean_storage r) = Disabled r"
  by (simp_all add: clean_storage_def)

lemma db_row_mem: "db_row env i s = Inr r \<Longrightarrow> r \<in> set (rows s) \<and> StorageID r = i"
  by (auto simp: db_row_def find_Some_iff split: option.splits)

lemma rows_clean: "life_inv s \<Longrightarrow> r \<in> set (rows s) \<Longrightarrow> FixAndCleanPath (MountPath r) = MountPath r"
  by (simp add: life_inv_def rows_inv_def)

lemma new_driver_inv:
  assumes "life_inv s" "new_driver r s = (d, s')"
  shows "life_inv s'" "only_under d p s'" "mounts s' = mounts s" "rows s' = rows s"
proof -
  have "DriverAddr x < nextAddr s" if "(k, x) \<in> set (storagesMap (mounts s))" for k x using assms(1) that by (auto simp: life_inv_def table_inv_def)
  then show "only_under d p s'" using assms(2) by (fastforce simp: new_driver_def only_under_def)
  have "table_inv (Suc n) m" if "table_inv n m" for n m using that unfolding table_inv_def by (meson less_SucI)
  then show "life_inv s'" using assms by (auto simp: new_driver_def life_inv_def)
qed (use assms in \<open>auto simp: new_driver_def\<close>)

lemma CreateStorage_inv:
  assumes "life_inv s" "newID env \<notin> StorageID ` set (rows s)"
  shows "life_inv (snd (CreateStorage env r s))"
proof -
  let ?r = "clean_storage (r\<lparr>Modified := clock env\<rparr>)"
  obtain dr s0 where n: "new_driver ?r s = (dr, s0)" by fastforce
  note nd = new_driver_inv [OF assms(1) n]
  obtain err r' s1 where c: "db_create env ?r s0 = (err, r', s1)" by (cases "db_create env ?r s0")
  have "newID env \<notin> StorageID ` set (rows s0)" using assms(2) nd(4) by simp
  note d = db_create_inv [OF nd(1) clean_storage_simps(1) this c]
  obtain err2 s2 where i: "initStorage env r' dr s1 = (err2, s2)" by (cases "initStorage env r' dr s1")
  have "FixAndCleanPath (MountPath r') = MountPath r'" by (simp add: d(3))
  from initStorage_inv(1) [OF d(1) this only_under_cong [OF d(2,5) refl nd(2)] i] show ?thesis
    using assms(1) d(1) by (simp add: CreateStorage_def Let_def n c i)
qed

lemma LoadStorage_inv:
  assumes "life_inv s"
  shows "life_inv (snd (LoadStorage env r s))"
proof -
  obtain dr s0 where n: "new_driver (clean_storage r) s = (dr, s0)" by fastforce
  note nd = new_driver_inv [OF assms n]
  obtain err s1 where i: "initStorage env (clean_storage r) dr s0 = (err, s1)" by (cases "initStorage env (clean_storage r) dr s0")
  from initStorage_inv(1) [OF nd(1) clean_storage_simps(1) nd(2) i] show ?thesis using assms by (simp add: LoadStorage_def Let_def n i)
qed

lemma EnableStorage_inv:
  assumes "life_inv s"
  shows "life_inv (snd (EnableStorage env i s))"
proof (cases "db_row env i s")
  case (Inr r)
  obtain err s1 where u: "db_update env (r\<lparr>Disabled := False\<rparr>) s = (err, s1)" by (cases "db_update env (r\<lparr>Disabled := False\<rparr>) s")
  have "FixAndCleanPath (MountPath (r\<lparr>Disabled := False\<rparr>)) = MountPath (r\<lparr>Disabled := False\<rparr>)"
    using rows_clean [OF assms] db_row_mem [OF Inr] by simp
  note s1 = db_update_inv(1) [OF assms this u]
  show ?thesis using assms s1 LoadStorage_inv [OF s1] by (simp add: EnableStorage_def Inr Let_def u)
qed (use assms in \<open>simp add: EnableStorage_def\<close>)

lemma DisableStorage_inv:
  assumes "life_inv s"
  shows "life_inv (snd (DisableStorage env i s))"
proof (cases "db_row env i s")
  case (Inr r)
  let ?r = "r\<lparr>Disabled := True, Status := DISABLED\<rparr>"
  have c: "FixAndCleanPath (MountPath ?r) = MountPath ?r" using rows_clean [OF assms] db_row_mem [OF Inr] by simp
  have "life_inv s2" if "db_update env ?r (emit e s) = (err, s2)" for e err s2
    using db_update_inv(1) [OF _ c that] assms by simp
  then show ?thesis using assms by (auto simp: DisableStorage_def Inr Let_def life_inv_delete split: sum.split option.split prod.split)
qed (use assms in \<open>simp add: DisableStorage_def\<close>)

text \<open>The driver found under the old mount path is under no other key once that key is deleted or when it stays the same.\<close>

lemma update_only_under:
  assumes "life_inv s" "FixAndCleanPath old = old" "GetStorageByMountPath (mounts s) old = Inr d"
    "t = (if old \<noteq> new then delete_driver old s else s)"
  shows "only_under d new t"
proof -
  have "(old, d) \<in> set (storagesMap (mounts s))"
    using assms(2,3) by (auto simp: GetStorageByMountPath_def dest: map_of_SomeD split: option.splits)
  moreover have "table_inv (nextAddr s) (storagesMap (mounts s))" using assms(1) by (simp add: life_inv_def)
  ultimately have "k = old" if "(k, x) \<in> set (storagesMap (mounts s))" "DriverAddr x = DriverAddr d" for k x
    using that table_inv_addr by blast
  moreover have "DriverAddr d < nextAddr s"
    using \<open>(old, d) \<in> _\<close> \<open>table_inv _ _\<close> unfolding table_inv_def by blast
  ultimately show ?thesis
    using assms(4) by (auto simp: only_under_def delete_driver_def dict_del_def)
qed

lemma UpdateStorage_inv:
  assumes "life_inv s"
  shows "life_inv (snd (UpdateStorage env r s))"
proof (cases "db_row env (StorageID r) s")
  case (Inr old)
  let ?r = "clean_storage (r\<lparr>Modified := clock env\<rparr>)" and ?old = "MountPath old"
  obtain err s1 where u: "db_update env ?r s = (err, s1)" by (cases "db_update env ?r s")
  note s1 = db_update_inv [OF assms clean_storage_simps(1) u]
  have old: "FixAndCleanPath ?old = ?old" using rows_clean [OF assms] db_row_mem [OF Inr] by simp
  let ?t = "\<lambda>d. emit (Dropped (drv_mount d)) (if ?old \<noteq> MountPath ?r then delete_driver ?old (emit (CacheDropDetails (drv_mount d)) (emit (CacheDropTree (drv_mount d)) s1))
      else emit (CacheDropDetails (drv_mount d)) (emit (CacheDropTree (drv_mount d)) s1))"
  have t: "life_inv (?t d)" for d using s1(1) by (simp add: life_inv_delete)
  have "life_inv (snd (initStorage env ?r d (?t d)))" if "GetStorageByMountPath (mounts s1) ?old = Inr d" for d
  proof -
    have "only_under d (MountPath ?r) (?t d)"
      by (rule only_under_cong [OF _ _ refl update_only_under [OF s1(1) old that refl, of "MountPath ?r"]]) (simp_all add: delete_driver_def)
    from initStorage_inv(1) [OF t clean_storage_simps(1) this, of env "fst (initStorage env ?r d (?t d))"] show ?thesis by simp
  qed
  then show ?thesis using assms s1(1) t unfolding UpdateStorage_def Inr Let_def u
    by (auto split: sum.split option.split prod.split simp del: life_inv_emit) (metis snd_conv life_inv_emit)+
qed (use assms in \<open>simp add: UpdateStorage_def\<close>)

lemma DeleteStorage_inv:
  assumes "life_inv s"
  shows "life_inv (snd (DeleteStorageById env i s))"
proof -
  have f: "life_inv (t\<lparr>rows := filter (\<lambda>r. StorageID r \<noteq> i) rs\<rparr>)" if "life_inv t" "rows t = rs" for t rs
    using that by (auto simp: life_inv_def rows_inv_def distinct_map_filter)
  show ?thesis using assms
    by (auto simp: DeleteStorageById_def Let_def life_inv_delete split: sum.split option.split intro!: f)
qed


text \<open>Runs of the program: the rows are those found at start-up, the operations come in any order and with any outcome of
  what drivers and database do; a created row gets a key that is not in use.\<close>

inductive life_reach :: "life \<Rightarrow> bool" where
  start: "rows_inv rs \<Longrightarrow> life_reach \<lparr>mounts = \<lparr>storagesMap = [], balanceMap = (\<lambda>_. None)\<rparr>, nextAddr = 0, rows = rs, trace = []\<rparr>"
| create: "life_reach s \<Longrightarrow> newID env \<notin> StorageID ` set (rows s) \<Longrightarrow> life_reach (snd (CreateStorage env r s))"
| load: "life_reach s \<Longrightarrow> r \<in> set (rows s) \<Longrightarrow> life_reach (snd (LoadStorage env r s))"
| enable: "life_reach s \<Longrightarrow> life_reach (snd (EnableStorage env i s))"
| disable: "life_reach s \<Longrightarrow> life_reach (snd (DisableStorage env i s))"
| update: "life_reach s \<Longrightarrow> life_reach (snd (UpdateStorage env r s))"
| delete: "life_reach s \<Longrightarrow> life_reach (snd (DeleteStorageById env i s))"
| reload: "life_reach s \<Longrightarrow> life_reach (snd (ReloadStorage env i s))"
| route: "life_reach s \<Longrightarrow> life_reach (s\<lparr>mounts := snd (GetStorageAndActualPath (mounts s) path)\<rparr>)"

lemma GetStorageAndActualPath_table: "storagesMap (snd (GetStorageAndActualPath s path)) = storagesMap s"
  using GetBalancedStorage_pick [of s "FixAndCleanPath path"]
  by (cases "GetBalancedStorage s (FixAndCleanPath path)") (auto simp: GetStorageAndActualPath_def Let_def split: option.split)

lemma life_reach_inv: "life_reach s \<Longrightarrow> life_inv s"
proof (induction rule: life_reach.induct)
  case (start rs)
  then show ?case by (simp add: life_inv_def table_inv_def)
next
  case (reload s env i)
  then show ?case by (auto simp: ReloadStorage_def LoadStorage_inv split: sum.split)
next
  case (route s path)
  then show ?case by (simp add: life_inv_def GetStorageAndActualPath_table)
qed (simp_all add: CreateStorage_inv LoadStorage_inv EnableStorage_inv DisableStorage_inv UpdateStorage_inv DeleteStorage_inv)

lemma find_key: "inj_on f (set xs) \<Longrightarrow> x \<in> set xs \<Longrightarrow> find (\<lambda>y. f y = f x) xs = Some x"
  by (induction xs) (auto simp: inj_on_def)

lemma HasStorage_clean: "FixAndCleanPath p = p \<Longrightarrow> HasStorage s p \<longleftrightarrow> map_of (storagesMap s) p \<noteq> None"
  by (simp add: HasStorage_def)

lemma distinct_addr:
  assumes "distinct (map fst m)" "\<And>k d k' d'. (k, d) \<in> set m \<Longrightarrow> (k', d') \<in> set m \<Longrightarrow> f d = f d' \<Longrightarrow> k = k'"
  shows "distinct (map (f \<circ> snd) m)"
  using assms
proof (induction m)
  case (Cons e m)
  have "distinct (map (f \<circ> snd) m)" using Cons.prems by (intro Cons.IH) auto
  moreover have "f (snd e) \<noteq> f (snd x)" if "x \<in> set m" for x
    using Cons.prems(1) Cons.prems(2) [of "fst e" "snd e" "fst x" "snd x"] that by force
  ultimately show ?case by (simp add: image_iff comp_def)
qed simp

section \<open>Properties\<close>

text \<open>C5: In every state the program can reach, whatever drivers and database do, no key is in the mount table twice, each entry
  shows a driver under the mount path that this driver has now, which is cleaned, and no driver object is in the table
  under two keys; keys and mount paths of the stored configurations are unique and the mount paths cleaned; so the
  table is one in which routing works as specified as soon as no balance suffix leaves an uncleaned path.\<close>

theorem storage_table_inv:
  assumes "life_reach s"
  shows "distinct (map fst (storagesMap (mounts s))) \<and>
    list_all (\<lambda>(k, d). drv_mount d = k \<and> FixAndCleanPath k = k) (storagesMap (mounts s)) \<and>
    distinct (map (DriverAddr \<circ> snd) (storagesMap (mounts s))) \<and>
    distinct (map StorageID (rows s)) \<and> distinct (map MountPath (rows s)) \<and> list_all (\<lambda>r. FixAndCleanPath (MountPath r) = MountPath r) (rows s) \<and>
    (list_all (\<lambda>(k, _). cleaned_mount k) (storagesMap (mounts s)) \<longrightarrow> mounts_ok (storagesMap (mounts s)))"
proof -
  have i: "table_inv (nextAddr s) (storagesMap (mounts s))" "rows_inv (rows s)" using life_reach_inv [OF assms] by (auto simp: life_inv_def)
  have "distinct (map (DriverAddr \<circ> snd) (storagesMap (mounts s)))"
    by (rule distinct_addr) (use i(1) table_inv_addr [OF i(1)] in \<open>auto simp: table_inv_def\<close>)
  with i show ?thesis by (auto simp: table_inv_def rows_inv_def mounts_ok_def list_all_iff)
qed

definition sample_env_life :: life_env where
  "sample_env_life = \<lparr>knownDriver = (\<lambda>_. True), dbFail = (\<lambda>_. None), newID = 1, unmarshal = (\<lambda>_. None), isReference = False,
     initReference = (\<lambda>_. InitOk), notSupported = (\<lambda>_. False), driverInit = (\<lambda>_. InitOk), driverDrop = (\<lambda>_. None),
     marshal = Inr [], useOnlineAPI = False, sanitize = id, clock = 0\<rparr>"

definition sample_life :: life where
  "sample_life = \<lparr>mounts = \<lparr>storagesMap = [], balanceMap = (\<lambda>_. None)\<rparr>, nextAddr = 0, rows = [], trace = []\<rparr>"

lemma sample_life_reach: "life_reach sample_life"
  unfolding sample_life_def by (rule life_reach.start) (simp add: rows_inv_def)

lemma sample_created: "life_reach (snd (CreateStorage sample_env_life (GetStorage (sample_driver 0 ''/a'')) sample_life))"
  by (rule life_reach.create [OF sample_life_reach]) (simp add: sample_life_def)

lemma sample_created_eq:
  "map fst (storagesMap (mounts (snd (CreateStorage sample_env_life (GetStorage (sample_driver 0 ''/a'')) sample_life)))) = [''/a'']"
  by code_simp

theorem storage_table_inv_witness:
  "mounts_ok (storagesMap (mounts (snd (CreateStorage sample_env_life (GetStorage (sample_driver 0 ''/a'')) sample_life))))"
proof -
  have "cleaned_mount ''/a''" by code_simp
  then have "list_all (\<lambda>(k, _). cleaned_mount k)
      (storagesMap (mounts (snd (CreateStorage sample_env_life (GetStorage (sample_driver 0 ''/a'')) sample_life))))"
    using sample_created_eq by (force simp: list_all_iff map_eq_Cons_conv)
  then show ?thesis using storage_table_inv [OF sample_created] by blast
qed

text \<open>What the operations promise when they report success: after a creation the storage is loaded and its
  configuration stored; after a deletion the configuration is gone and, if the storage was enabled, it is no longer
  loaded; after disabling it is no longer loaded either.\<close>

theorem storage_operations_effect:
  assumes "life_reach s" "newID env \<notin> StorageID ` set (rows s)"
  shows "(fst (CreateStorage env r s) = None \<longrightarrow>
      HasStorage (mounts (snd (CreateStorage env r s))) (MountPath r) \<and>
      (\<exists>x \<in> set (rows (snd (CreateStorage env r s))). StorageID x = newID env \<and> MountPath x = FixAndCleanPath (MountPath r))) \<and>
    (fst (DeleteStorageById env i s) = None \<longrightarrow>
      i \<notin> StorageID ` set (rows (snd (DeleteStorageById env i s))) \<and>
      (\<forall>x \<in> set (rows s). StorageID x = i \<longrightarrow> Disabled x \<or> \<not> HasStorage (mounts (snd (DeleteStorageById env i s))) (MountPath x))) \<and>
    (fst (DisableStorage env i s) = None \<longrightarrow>
      (\<forall>x \<in> set (rows s). StorageID x = i \<longrightarrow> \<not> HasStorage (mounts (snd (DisableStorage env i s))) (MountPath x)))"
proof (intro conjI impI ballI)
  note inv = life_reach_inv [OF assms(1)]
  have row: "db_row env i s = Inr y \<Longrightarrow> x \<in> set (rows s) \<Longrightarrow> StorageID x = i \<Longrightarrow> y = x" for x y
    using inv db_row_mem [of env i s y] by (auto simp: life_inv_def rows_inv_def distinct_map dest: inj_onD)
  have gone: "\<not> HasStorage (mounts (delete_driver (MountPath x) t)) (MountPath x)" if "x \<in> set (rows s)" for x t
    using rows_clean [OF inv that] by (simp add: HasStorage_def delete_driver_def)
  {
    assume none: "fst (CreateStorage env r s) = None"
    let ?r = "clean_storage (r\<lparr>Modified := clock env\<rparr>)"
    obtain dr s0 where n: "new_driver ?r s = (dr, s0)" by fastforce
    note nd = new_driver_inv [OF inv n]
    obtain err r' s1 where c: "db_create env ?r s0 = (err, r', s1)" by (cases "db_create env ?r s0")
    have fresh: "newID env \<notin> StorageID ` set (rows s0)" using assms(2) nd(4) by simp
    note d = db_create_inv [OF nd(1) clean_storage_simps(1) fresh c]
    obtain err2 s2 where ini: "initStorage env r' dr s1 = (err2, s2)" by (cases "initStorage env r' dr s1")
    have cl: "FixAndCleanPath (MountPath r') = MountPath r'" by (simp add: d(3))
    have res: "err = None" "snd (CreateStorage env r s) = emit (Hook ''add'' (MountPath r')) s2"
      using none by (auto simp: CreateStorage_def Let_def n c ini split: if_splits)
    have p: "MountPath r' = FixAndCleanPath (MountPath r)" by (simp add: d(3)) (simp add: clean_storage_def)
    note i = initStorage_inv [OF d(1) cl only_under_cong [OF d(2,5) refl nd(2)] ini]
    show "HasStorage (mounts (snd (CreateStorage env r s))) (MountPath r)" using i(2) by (auto simp: HasStorage_def res p)
    show "\<exists>x \<in> set (rows (snd (CreateStorage env r s))). StorageID x = newID env \<and> MountPath x = FixAndCleanPath (MountPath r)"
      using i(3) [OF bexI [of _ r']] d(4) [OF res(1)] by (auto simp: res p)
  }
  {
    assume none: "fst (DeleteStorageById env i s) = None"
    then show "i \<notin> StorageID ` set (rows (snd (DeleteStorageById env i s)))"
      by (auto simp: DeleteStorageById_def Let_def split: sum.splits option.splits if_splits)
    fix x
    assume x: "x \<in> set (rows s)" "StorageID x = i"
    show "Disabled x \<or> \<not> HasStorage (mounts (snd (DeleteStorageById env i s))) (MountPath x)"
      using none row [OF _ x] gone [OF x(1)]
      by (auto simp: DeleteStorageById_def Let_def HasStorage_def delete_driver_def split: sum.splits option.splits if_splits)
  }
  {
    fix x
    assume none: "fst (DisableStorage env i s) = None" and x: "x \<in> set (rows s)" "StorageID x = i"
    show "\<not> HasStorage (mounts (snd (DisableStorage env i s))) (MountPath x)"
      using none row [OF _ x] gone [OF x(1)]
      by (auto simp: DisableStorage_def Let_def split: sum.splits option.splits if_splits prod.splits)
  }
qed


theorem storage_operations_effect_witness:
  "HasStorage (mounts (snd (CreateStorage sample_env_life (GetStorage (sample_driver 0 ''/a'')) sample_life))) ''/a''"
proof -
  have "fst (CreateStorage sample_env_life (GetStorage (sample_driver 0 ''/a'')) sample_life) = None" by code_simp
  moreover have "newID sample_env_life \<notin> StorageID ` set (rows sample_life)" by (simp add: sample_life_def)
  moreover have "drv_mount (sample_driver 0 ''/a'') = ''/a''" by (simp add: sample_driver_def)
  ultimately show ?thesis
    using storage_operations_effect [OF sample_life_reach, of sample_env_life "GetStorage (sample_driver 0 ''/a'')" 0] by simp
qed

text \<open>A driver that panics while it is initialised makes \<open>initStorage\<close> return no error, so that creating the storage
  is reported as a success; only the status of the loaded storage tells.\<close>

theorem init_panic_reported_as_success:
  assumes "life_inv s" "FixAndCleanPath (MountPath r) = MountPath r" "only_under d (MountPath r) s"
    "prepare_driver env (set_storage (\<lambda>_. r) d) (write_driver (set_storage (\<lambda>_. r) d) s) = InitPanic p"
  shows "fst (initStorage env r d s) = None \<and>
    (\<exists>d'. GetStorageByMountPath (mounts (snd (initStorage env r d s))) (MountPath r) = Inr d' \<and> Status (GetStorage d') = ''[panic] '' @ p)"
  using initStorage_inv(2,4) [OF assms(1-3), of env "fst (initStorage env r d s)" "snd (initStorage env r d s)"] assms(2,4)
  by (auto simp: GetStorageByMountPath_def init_status_def)

theorem init_panic_reported_as_success_witness:
  "fst (initStorage (sample_env_life\<lparr>driverInit := (\<lambda>_. InitPanic ''nil map'')\<rparr>) (GetStorage (sample_driver 1 ''/a'')) (sample_driver 0 ''/a'')
     (sample_life\<lparr>nextAddr := 1\<rparr>)) = None"
proof -
  have inv: "life_inv (sample_life\<lparr>nextAddr := 1\<rparr>)" by (simp add: life_inv_def table_inv_def rows_inv_def sample_life_def)
  have o: "only_under (sample_driver 0 ''/a'') p (sample_life\<lparr>nextAddr := 1\<rparr>)" for p by (simp add: only_under_def sample_driver_def sample_life_def)
  have "FixAndCleanPath (MountPath (GetStorage (sample_driver 1 ''/a''))) = MountPath (GetStorage (sample_driver 1 ''/a''))" by code_simp
  moreover have "prepare_driver (sample_env_life\<lparr>driverInit := (\<lambda>_. InitPanic ''nil map'')\<rparr>)
      (set_storage (\<lambda>_. GetStorage (sample_driver 1 ''/a'')) (sample_driver 0 ''/a''))
      (write_driver (set_storage (\<lambda>_. GetStorage (sample_driver 1 ''/a'')) (sample_driver 0 ''/a'')) (sample_life\<lparr>nextAddr := 1\<rparr>)) = InitPanic ''nil map''"
    by (simp add: prepare_driver_def sample_env_life_def)
  ultimately show ?thesis using init_panic_reported_as_success [OF inv _ o] by blast
qed

text \<open>Updating a disabled storage with a configuration that is not disabled stores it as enabled and then fails
  because there is no driver to re-initialise.  From then on it can be neither enabled (it counts as enabled) nor
  disabled nor deleted (no driver is loaded), until it is reloaded.\<close>

theorem update_enables_without_loading:
  assumes "life_inv s" "old \<in> set (rows s)" "StorageID r = StorageID old" "DriverName r = DriverName old"
    "MountPath r = MountPath old" "\<not> Disabled r" "\<not> HasStorage (mounts s) (MountPath old)" "\<And>x. dbFail env x = None"
  shows "let s' = snd (UpdateStorage env r s)
     in fst (UpdateStorage env r s) \<noteq> None \<and> fst (EnableStorage env (StorageID old) s') = Some AlreadyEnabled \<and>
       (\<exists>e. fst (DisableStorage env (StorageID old) s') = Some (NoStorageDriver e)) \<and>
       (\<exists>e. DeleteStorageById env (StorageID old) s' = (Some (NoStorageDriver e), s'))"
proof -
  let ?r = "clean_storage (r\<lparr>Modified := clock env\<rparr>)"
  from assms(1) have inj: "inj_on StorageID (set (rows s))" "inj_on MountPath (set (rows s))" by (auto simp: life_inv_def rows_inv_def distinct_map)
  have clean: "FixAndCleanPath (MountPath old) = MountPath old" by (rule rows_clean [OF assms(1,2)])
  have mp: "MountPath ?r = MountPath old" using assms(5) clean by (simp add: clean_storage_def)
  have "find (\<lambda>x. StorageID x = StorageID old) (rows s) = Some old" by (rule find_key [OF inj(1) assms(2)])
  then have row: "db_row env (StorageID r) s = Inr old" by (simp add: db_row_def assms(3,8))
  have "\<not> path_taken ?r (rows s)" using inj(2) assms(2,3) mp by (auto simp: path_taken_iff dest: inj_onD)
  then have up: "db_update env ?r s = (None, s\<lparr>rows := put_row ?r (rows s)\<rparr>)" by (simp add: db_update_def assms(8))
  have nd: "GetStorageByMountPath (mounts s) (MountPath old) = Inl (NoMountPath (MountPath old))"
    using assms(7) clean by (simp add: HasStorage_def GetStorageByMountPath_def)
  let ?s = "s\<lparr>rows := put_row ?r (rows s)\<rparr>"
  have u: "UpdateStorage env r s = (Some (NoStorageDriver (NoMountPath (MountPath old))), ?s)"
    using row up nd assms(4,6) by (simp add: UpdateStorage_def Let_def)
  have "life_inv ?s" using db_update_inv(1) [OF assms(1) clean_storage_simps(1) up] .
  then have "inj_on StorageID (set (rows ?s))" by (auto simp: life_inv_def rows_inv_def distinct_map)
  from find_key [OF this, of ?r] put_row_mem [of ?r "rows s"] have "find (\<lambda>x. StorageID x = StorageID old) (rows ?s) = Some ?r"
    by (simp add: assms(3))
  then have row': "db_row env (StorageID old) ?s = Inr ?r" by (simp add: db_row_def assms(8))
  show ?thesis using row' assms(6) nd mp
    by (simp add: u Let_def EnableStorage_def DisableStorage_def DeleteStorageById_def)
qed

definition sample_disabled :: life where
  "sample_disabled = sample_life\<lparr>rows := [(GetStorage (sample_driver 1 ''/a''))\<lparr>Disabled := True\<rparr>]\<rparr>"

theorem update_enables_without_loading_witness:
  "fst (EnableStorage sample_env_life 1 (snd (UpdateStorage sample_env_life (GetStorage (sample_driver 1 ''/a'')) sample_disabled))) = Some AlreadyEnabled"
proof -
  let ?old = "(GetStorage (sample_driver 1 ''/a''))\<lparr>Disabled := True\<rparr>" and ?r = "GetStorage (sample_driver 1 ''/a'')"
  have clean: "FixAndCleanPath ''/a'' = ''/a''" by code_simp
  have "life_inv sample_disabled" by (simp add: life_inv_def table_inv_def rows_inv_def sample_disabled_def sample_life_def sample_driver_def clean)
  moreover have "?old \<in> set (rows sample_disabled)" by (simp add: sample_disabled_def)
  moreover have "StorageID ?r = StorageID ?old" "DriverName ?r = DriverName ?old" "MountPath ?r = MountPath ?old" "\<not> Disabled ?r"
    by (simp_all add: sample_driver_def)
  moreover have "\<not> HasStorage (mounts sample_disabled) (MountPath ?old)" by (simp add: HasStorage_def sample_disabled_def sample_life_def)
  moreover have "dbFail sample_env_life x = None" for x by (simp add: sample_env_life_def)
  ultimately have "let s' = snd (UpdateStorage sample_env_life ?r sample_disabled) in fst (EnableStorage sample_env_life (StorageID ?old) s') = Some AlreadyEnabled"
    using update_enables_without_loading [of sample_disabled ?old ?r sample_env_life] by (simp add: Let_def)
  then show ?thesis by (simp add: sample_driver_def Let_def)
qed

end
