(* ===== verification/Sync_Closers.thy ===== *)
theory Sync_Closers
  imports Go_Prelude
begin

text \<open>
  The reference-counted resources of a link: \<open>SyncClosers\<close> of \<open>pkg/utils/io.go\<close>.  The counter is an atomic \<open>int32\<close>;
  every atomic access is a step of its own, and any number of goroutines take these steps in any order.  A closer is
  known by a number; \<open>closedLog\<close> lists the closers whose \<open>Close\<close> has been called, in the order of the calls.
\<close>

section \<open>The model\<close>

definition wrap32 :: "int \<Rightarrow> int" where
  "wrap32 x = (x + 2 ^ 31) mod 2 ^ 32 - 2 ^ 31"

definition closersClosed :: int where
  "closersClosed = - (2 ^ 31)"

record SyncClosers =
  closers :: "nat list"
  ref :: int
  closedLog :: "nat list"

definition NewSyncClosers :: "nat list \<Rightarrow> SyncClosers" where
  "NewSyncClosers c = \<lparr>closers = c, ref = 0, closedLog = []\<rparr>"

subsection \<open>The atomic accesses\<close>

definition ref_Add :: "SyncClosers \<Rightarrow> int \<times> SyncClosers" where
  "ref_Add sc = (let r = wrap32 (ref sc + 1) in (r, sc\<lparr>ref := r\<rparr>))"

definition ref_Store :: "int \<Rightarrow> SyncClosers \<Rightarrow> SyncClosers" where
  "ref_Store v sc = sc\<lparr>ref := v\<rparr>"

definition ref_CompareAndSwap :: "int \<Rightarrow> int \<Rightarrow> SyncClosers \<Rightarrow> bool \<times> SyncClosers" where
  "ref_CompareAndSwap old new sc = (if ref sc = old then (True, sc\<lparr>ref := new\<rparr>) else (False, sc))"

text \<open>The end of \<open>Close\<close>: the loop over the closers, which are then forgotten.\<close>

definition FinalClose :: "SyncClosers \<Rightarrow> SyncClosers" where
  "FinalClose sc = sc\<lparr>closedLog := closedLog sc @ closers sc, closers := []\<rparr>"

subsection \<open>The methods, called by one goroutine alone\<close>

definition AcquireReference :: "SyncClosers \<Rightarrow> bool \<times> SyncClosers" where
  "AcquireReference sc = (let (r, sc1) = ref_Add sc in if r > 0 then (True, sc1) else (False, ref_Store closersClosed sc1))"

definition closers_Close :: "SyncClosers \<Rightarrow> SyncClosers" where
  "closers_Close sc =
     (let r = ref sc
      in if r < 0 then sc
         else if r > 1 then snd (ref_CompareAndSwap r (r - 1) sc)
         else FinalClose (snd (ref_CompareAndSwap r closersClosed sc)))"

text \<open>A closer that is \<open>nil\<close> is not added; adding to closed ones is a panic.\<close>

definition closers_Add :: "nat option \<Rightarrow> SyncClosers \<Rightarrow> SyncClosers may_panic" where
  "closers_Add c sc =
     (case c of None \<Rightarrow> Some sc | Some k \<Rightarrow> if ref sc < 0 then None else Some (sc\<lparr>closers := closers sc @ [k]\<rparr>))"

definition closers_Expired :: "SyncClosers \<Rightarrow> bool" where
  "closers_Expired sc \<longleftrightarrow> ref sc < 0"

definition closers_Length :: "SyncClosers \<Rightarrow> nat" where
  "closers_Length sc = length (closers sc)"

subsection \<open>Goroutines\<close>

text \<open>Where a goroutine stands: outside; between the failed \<open>Add\<close> and the \<open>Store\<close> of \<open>AcquireReference\<close>; holding a
  reference; at the head of the loop of \<open>Close\<close>; with the value it loaded; before the final loop over the closers.\<close>

datatype closer_pc = Idle | Failing | Holding | Loading | Loaded int | Finalizing

type_synonym closers_system = "SyncClosers \<times> closer_pc list"

inductive closers_step :: "closers_system \<Rightarrow> closers_system \<Rightarrow> bool" where
  acquire: "i < length ps \<Longrightarrow> ps ! i = Idle \<Longrightarrow> ref_Add sc = (r, sc') \<Longrightarrow>
    closers_step (sc, ps) (sc', ps[i := if r > 0 then Holding else Failing])"
| acquire_fail: "i < length ps \<Longrightarrow> ps ! i = Failing \<Longrightarrow> closers_step (sc, ps) (ref_Store closersClosed sc, ps[i := Idle])"
| close: "i < length ps \<Longrightarrow> ps ! i = Holding \<Longrightarrow> closers_step (sc, ps) (sc, ps[i := Loading])"
| load: "i < length ps \<Longrightarrow> ps ! i = Loading \<Longrightarrow> closers_step (sc, ps) (sc, ps[i := if ref sc < 0 then Idle else Loaded (ref sc)])"
| release: "i < length ps \<Longrightarrow> ps ! i = Loaded r \<Longrightarrow> r > 1 \<Longrightarrow> ref_CompareAndSwap r (r - 1) sc = (ok, sc') \<Longrightarrow>
    closers_step (sc, ps) (sc', ps[i := if ok then Idle else Loading])"
| last_release: "i < length ps \<Longrightarrow> ps ! i = Loaded r \<Longrightarrow> r \<le> 1 \<Longrightarrow> ref_CompareAndSwap r closersClosed sc = (ok, sc') \<Longrightarrow>
    closers_step (sc, ps) (sc', ps[i := if ok then Finalizing else Loading])"
| final: "i < length ps \<Longrightarrow> ps ! i = Finalizing \<Longrightarrow> closers_step (sc, ps) (FinalClose sc, ps[i := Idle])"

definition closers_start :: "nat list \<Rightarrow> nat \<Rightarrow> closers_system" where
  "closers_start cs n = (NewSyncClosers cs, replicate n Idle)"

section \<open>The invariant\<close>

definition counted :: "closer_pc \<Rightarrow> bool" where
  "counted p \<longleftrightarrow> p = Holding \<or> p = Loading \<or> (\<exists>r. p = Loaded r)"

primrec how_many :: "('a \<Rightarrow> bool) \<Rightarrow> 'a list \<Rightarrow> int" where
  "how_many P [] = 0"
| "how_many P (x # xs) = (if P x then 1 else 0) + how_many P xs"

lemma how_many_update:
  "i < length xs \<Longrightarrow> how_many P (xs[i := y]) = how_many P xs - (if P (xs ! i) then 1 else 0) + (if P y then 1 else 0)"
  by (induction xs arbitrary: i) (auto simp: nth_Cons split: nat.split)

lemma how_many_nonneg [simp]: "0 \<le> how_many P xs"
  by (induction xs) auto

lemma how_many_pos: "i < length xs \<Longrightarrow> P (xs ! i) \<Longrightarrow> 1 \<le> how_many P xs"
  by (induction xs arbitrary: i) (auto simp: nth_Cons less_Suc_eq_0_disj add_increasing)

lemma how_many_zero: "how_many P xs = 0 \<longleftrightarrow> (\<forall>x \<in> set xs. \<not> P x)"
  using how_many_nonneg [of P] by (induction xs) (auto simp: add_nonneg_eq_0_iff)

lemma how_many_le: "how_many P xs \<le> int (length xs)"
  by (induction xs) auto

lemma how_many_less: "i < length xs \<Longrightarrow> \<not> P (xs ! i) \<Longrightarrow> how_many P xs < int (length xs)"
proof (induction xs arbitrary: i)
  case (Cons x xs)
  then show ?case using how_many_le [of P xs] Cons.IH [of "i - 1"] by (cases i) auto
qed simp

definition closers_open :: "nat list \<Rightarrow> closers_system \<Rightarrow> bool" where
  "closers_open cs s \<longleftrightarrow> ref (fst s) = how_many counted (snd s) \<and> closers (fst s) = cs \<and> closedLog (fst s) = [] \<and>
     how_many ((=) Failing) (snd s) = 0 \<and> how_many ((=) Finalizing) (snd s) = 0"

definition closers_done :: "nat list \<Rightarrow> closers_system \<Rightarrow> bool" where
  "closers_done cs s \<longleftrightarrow> how_many counted (snd s) = 0 \<and> closersClosed \<le> ref (fst s) \<and>
     ref (fst s) \<le> closersClosed + how_many ((=) Failing) (snd s) \<and>
     (how_many ((=) Finalizing) (snd s) = 1 \<and> closers (fst s) = cs \<and> closedLog (fst s) = [] \<or>
      how_many ((=) Finalizing) (snd s) = 0 \<and> closers (fst s) = [] \<and> closedLog (fst s) = cs)"

definition closers_inv :: "nat list \<Rightarrow> nat \<Rightarrow> closers_system \<Rightarrow> bool" where
  "closers_inv cs n s \<longleftrightarrow> length (snd s) = n \<and> (closers_open cs s \<or> closers_done cs s)"

lemma counted_simps [simp]:
  "counted Holding" "counted Loading" "counted (Loaded r)" "\<not> counted Idle" "\<not> counted Failing" "\<not> counted Finalizing"
  by (simp_all add: counted_def)

lemma closers_done_neg:
  "closers_done cs s \<Longrightarrow> length (snd s) < 2 ^ 31 \<Longrightarrow> ref (fst s) < 0"
  using how_many_le [of "(=) Failing" "snd s"] by (auto simp: closers_done_def closersClosed_def)

lemma wrap32_id: "- (2 ^ 31) \<le> x \<Longrightarrow> x < 2 ^ 31 \<Longrightarrow> wrap32 x = x"
  by (simp add: wrap32_def)

lemma Add_open:
  assumes "closers_open cs (sc, ps)" "i < length ps" "ps ! i = Idle" "length ps < 2 ^ 31"
  shows "ref_Add sc = (ref sc + 1, sc\<lparr>ref := ref sc + 1\<rparr>) \<and> 0 < ref sc + 1"
proof -
  have "how_many counted ps < 2 ^ 31 - 1" using how_many_less [OF assms(2), of counted] assms(3,4) by simp
  then show ?thesis using assms(1) how_many_nonneg [of counted ps] by (simp add: ref_Add_def closers_open_def wrap32_id Let_def)
qed

lemma Add_done:
  assumes "closers_done cs (sc, ps)" "i < length ps" "ps ! i = Idle" "length ps < 2 ^ 31"
  shows "ref_Add sc = (ref sc + 1, sc\<lparr>ref := ref sc + 1\<rparr>) \<and> ref sc + 1 \<le> 0"
proof -
  have "how_many ((=) Failing) ps < 2 ^ 31 - 1" using how_many_less [OF assms(2), of "(=) Failing"] assms(3,4) by simp
  then show ?thesis using assms(1) by (simp add: ref_Add_def closers_done_def closersClosed_def wrap32_id Let_def)
qed

lemma done_uncounted: "closers_done cs (sc, ps) \<Longrightarrow> i < length ps \<Longrightarrow> \<not> counted (ps ! i)"
  by (auto simp: closers_done_def how_many_zero)

lemma open_only_counted: "closers_open cs (sc, ps) \<Longrightarrow> i < length ps \<Longrightarrow> ps ! i \<noteq> Failing \<and> ps ! i \<noteq> Finalizing"
  using how_many_pos [of i ps "(=) Failing"] how_many_pos [of i ps "(=) Finalizing"] by (auto simp: closers_open_def)

lemma done_one_finalizer:
  "closers_done cs (sc, ps) \<Longrightarrow> i < length ps \<Longrightarrow> ps ! i = Finalizing \<Longrightarrow> how_many ((=) Finalizing) ps = 1 \<and> closers sc = cs \<and> closedLog sc = []"
  using how_many_pos [of i ps "(=) Finalizing"] by (auto simp: closers_done_def)

lemma closers_step_inv:
  assumes "closers_step s t" "closers_inv cs n s" "n < 2 ^ 31"
  shows "closers_inv cs n t"
  using assms
proof (induction rule: closers_step.induct)
  case (acquire i ps sc r sc')
  from acquire.prems have "closers_open cs (sc, ps) \<or> closers_done cs (sc, ps)" and n: "length ps < 2 ^ 31" by (auto simp: closers_inv_def)
  from this(1) show ?case
  proof
    assume o: "closers_open cs (sc, ps)"
    from Add_open [OF o acquire(1,2) n] acquire(3) have "r = ref sc + 1" "sc' = sc\<lparr>ref := ref sc + 1\<rparr>" "0 < r" by auto
    with o acquire show ?thesis by (simp add: closers_inv_def closers_open_def how_many_update)
  next
    assume d: "closers_done cs (sc, ps)"
    from Add_done [OF d acquire(1,2) n] acquire(3) have "r = ref sc + 1" "sc' = sc\<lparr>ref := ref sc + 1\<rparr>" "\<not> 0 < r" by auto
    with d acquire show ?thesis by (simp add: closers_inv_def closers_done_def how_many_update)
  qed
next
  case (acquire_fail i ps sc)
  with how_many_pos [of i ps "(=) Failing"] open_only_counted [of cs sc ps i] show ?case
    by (auto simp: closers_inv_def closers_done_def ref_Store_def how_many_update)
next
  case (close i ps sc)
  with done_uncounted [of cs sc ps i] show ?case
    by (auto simp: closers_inv_def closers_open_def how_many_update)
next
  case (load i ps sc)
  moreover have "\<not> how_many counted ps < 0" by (simp add: not_less)
  ultimately show ?case using done_uncounted [of cs sc ps i]
    by (auto simp: closers_inv_def closers_open_def how_many_update)
next
  case (release i ps r sc ok sc')
  with done_uncounted [of cs sc ps i] show ?case
    by (auto simp: closers_inv_def closers_open_def how_many_update ref_CompareAndSwap_def split: if_splits)
next
  case (last_release i ps r sc ok sc')
  from last_release.prems last_release(1,2) done_uncounted [of cs sc ps i] have o: "closers_open cs (sc, ps)" "length ps = n"
    by (auto simp: closers_inv_def)
  show ?case
  proof (cases ok)
    case True
    with last_release(4) have s: "ref sc = r" "sc' = sc\<lparr>ref := closersClosed\<rparr>" by (auto simp: ref_CompareAndSwap_def split: if_splits)
    have "1 \<le> how_many counted ps" using last_release(1,2) how_many_pos [of i ps counted] by simp
    with o s last_release(1-3) True show ?thesis by (simp add: closers_inv_def closers_open_def closers_done_def how_many_update closersClosed_def)
  next
    case False
    with last_release(4) have "sc' = sc" by (auto simp: ref_CompareAndSwap_def split: if_splits)
    with o last_release(1,2) False show ?thesis by (simp add: closers_inv_def closers_open_def how_many_update)
  qed
next
  case (final i ps sc)
  with open_only_counted [of cs sc ps i] have d: "closers_done cs (sc, ps)" "length ps = n" by (auto simp: closers_inv_def)
  with done_one_finalizer [OF d(1) final(1,2)] final show ?case
    by (auto simp: closers_inv_def closers_done_def FinalClose_def how_many_update)
qed

interpretation closers_m: invariant_machine "\<lambda>s. n < 2 ^ 31 \<and> s = closers_start cs n" closers_step "\<lambda>s. n < 2 ^ 31 \<and> closers_inv cs n s"
  for cs n
proof unfold_locales
  show "n < 2 ^ 31 \<and> closers_inv cs n s" if "n < 2 ^ 31 \<and> s = closers_start cs n" for s
    using that by (auto simp: closers_inv_def closers_start_def closers_open_def NewSyncClosers_def how_many_zero how_many_zero [THEN iffD2] dest!: sym [of 0])
  show "n < 2 ^ 31 \<and> closers_inv cs n t" if "n < 2 ^ 31 \<and> closers_inv cs n s" "closers_step s t" for s t
    using that closers_step_inv by blast
qed

section \<open>Properties\<close>

lemma closers_reach_inv:
  "closers_step\<^sup>*\<^sup>* (closers_start cs n) s \<Longrightarrow> n < 2 ^ 31 \<Longrightarrow> closers_inv cs n s"
  using closers_m.reachable_inv [of n cs s] by (auto simp: reachable_def)

text \<open>The only state without references that was not closed is the one nobody has used yet.\<close>

lemma unused_state:
  assumes "closers_open cs s" "length (snd s) = n" "\<forall>p \<in> set (snd s). p = Idle"
  shows "s = closers_start cs n"
proof -
  from assms(3) have "snd s = replicate n Idle" using assms(2) by (simp add: list_eq_iff_nth_eq)
  moreover have "how_many counted (snd s) = 0" using assms(3) by (auto simp: how_many_zero)
  ultimately show ?thesis using assms(1) by (cases s) (simp add: closers_open_def closers_start_def NewSyncClosers_def)
qed

text \<open>C24: The resources of a link are closed exactly when its last holder lets go, however the goroutines interleave at the
  level of single atomic accesses: while any goroutine holds a reference nothing has been closed; every closer is closed
  at most once; once closing has begun every attempt to acquire a reference fails; and when no call is in progress and
  nobody holds a reference, either all closers have been closed or nobody has ever acquired one.\<close>

theorem closers_closed_by_last_holder:
  assumes reach: "closers_step\<^sup>*\<^sup>* (closers_start cs n) (sc, ps)" and n: "n < 2 ^ 31"
  shows "(Holding \<in> set ps \<longrightarrow> closedLog sc = [] \<and> closers sc = cs) \<and>
    (closedLog sc = [] \<or> closedLog sc = cs) \<and>
    (closers_Expired sc \<longrightarrow> Idle \<in> set ps \<longrightarrow> \<not> fst (AcquireReference sc)) \<and>
    (set ps \<subseteq> {Idle} \<longrightarrow> closedLog sc = cs \<or> (sc, ps) = closers_start cs n)"
proof -
  have inv: "closers_inv cs n (sc, ps)" by (rule closers_reach_inv [OF reach n])
  then consider "closers_open cs (sc, ps)" "length ps = n" | "closers_done cs (sc, ps)" "length ps = n" by (auto simp: closers_inv_def)
  then show ?thesis
  proof cases
    case 1
    moreover have "\<not> closers_Expired sc" using 1 by (simp add: closers_open_def closers_Expired_def not_less)
    ultimately show ?thesis using unused_state [OF 1(1)] by (auto simp: closers_open_def)
  next
    case 2
    then have "Holding \<notin> set ps" by (auto simp: closers_done_def how_many_zero)
    moreover have "\<not> fst (AcquireReference sc)" if "Idle \<in> set ps"
    proof -
      from that obtain i where "i < length ps" "ps ! i = Idle" by (auto simp: in_set_conv_nth)
      from Add_done [OF 2(1) this] 2(2) n show ?thesis by (auto simp: AcquireReference_def)
    qed
    moreover have "set ps \<subseteq> {Idle} \<longrightarrow> how_many ((=) Finalizing) ps = 0" by (auto simp: how_many_zero)
    ultimately show ?thesis using 2 by (auto simp: closers_done_def)
  qed
qed

theorem closers_closed_by_last_holder_witness:
  "\<exists>sc ps. closers_step\<^sup>*\<^sup>* (closers_start [7, 8] 2) (sc, ps) \<and> Holding \<in> set ps \<and> closedLog sc = [] \<and> closers sc = [7, 8]"
proof -
  have "closers_step (closers_start [7, 8] 2) (\<lparr>closers = [7, 8], ref = 1, closedLog = []\<rparr>, [Holding, Idle])"
    using closers_step.acquire [of 0 "[Idle, Idle]" "NewSyncClosers [7, 8]"]
    by (simp add: closers_start_def ref_Add_def NewSyncClosers_def wrap32_def numeral_2_eq_2)
  then have "closers_step\<^sup>*\<^sup>* (closers_start [7, 8] 2) (\<lparr>closers = [7, 8], ref = 1, closedLog = []\<rparr>, [Holding, Idle])" by blast
  from closers_closed_by_last_holder [OF this] this show ?thesis by force
qed

lemma leaked_at_overflow:
  "ref sc = 2 ^ 31 - 1 \<Longrightarrow> AcquireReference sc = (False, sc\<lparr>ref := closersClosed\<rparr>) \<and> closers_Close (sc\<lparr>ref := closersClosed\<rparr>) = sc\<lparr>ref := closersClosed\<rparr>"
  by (simp add: AcquireReference_def ref_Add_def wrap32_def ref_Store_def closersClosed_def closers_Close_def)

end
