(* ===== verification/Links.thy ===== *)
theory Links
  imports Sync_Closers Cache Objects
begin

text \<open>
  Links to the contents of files and their life cycle: \<open>model.Link\<close> of \<open>internal/model/args.go\<close> and
  \<open>internal/op/link_lifecycle.go\<close>.  The reference-counted closers that a link embeds live in a heap, because a cached
  link is shared: \<open>lClosers\<close> is the address of the link.
\<close>

section \<open>The model\<close>

record LinkSource =
  srcURL :: string
  srcHeader :: "(string \<times> string list) list"

record Link =
  lURL :: string
  lHeader :: "(string \<times> string list) list"
  lRangeReader :: "nat option"
  lExpiration :: "int option"
  lConcurrency :: int
  lPartSize :: int
  lContentLength :: int
  lMultiSource :: "LinkSource list"
  lClosers :: nat
  lRequireReference :: bool

type_synonym closers_heap = "nat \<Rightarrow> SyncClosers"

record linkCachePolicy =
  expiration :: "int option"
  requireReference :: bool

record objWithLink =
  olLink :: Link
  olObj :: Obj
  olPolicy :: linkCachePolicy

text \<open>\<open>Clone\<close> puts the link among the closers of a fresh one, at address \<open>a\<close>.\<close>

definition Clone :: "Link \<Rightarrow> nat \<Rightarrow> closers_heap \<Rightarrow> Link \<times> closers_heap" where
  "Clone l a h = (l\<lparr>lExpiration := None, lClosers := a\<rparr>, h(a := NewSyncClosers [lClosers l]))"

text \<open>\<open>None\<close> for the result is the error \<open>errConflictingLinkLifecycle\<close>, after which the link has been closed.\<close>

definition admitLink :: "Link \<Rightarrow> Obj \<Rightarrow> closers_heap \<Rightarrow> objWithLink option \<times> closers_heap" where
  "admitLink l obj h =
     (if lExpiration l \<noteq> None \<and> (lRequireReference l \<or> closers_Length (h (lClosers l)) > 0)
      then (None, h(lClosers l := closers_Close (h (lClosers l))))
      else (Some \<lparr>olLink = l, olObj = obj, olPolicy = \<lparr>expiration = lExpiration l, requireReference = lRequireReference l\<rparr>\<rparr>, h))"

definition ol_acquire :: "objWithLink \<Rightarrow> closers_heap \<Rightarrow> bool \<times> closers_heap" where
  "ol_acquire ol h =
     (if expiration (olPolicy ol) \<noteq> None then (True, h)
      else let a = lClosers (olLink ol); (ok, sc) = AcquireReference (h a)
           in (ok \<or> \<not> requireReference (olPolicy ol), h(a := sc)))"

section \<open>What a lookup in the link cache observes\<close>

text \<open>The time, and which links have been closed for good.\<close>

datatype link_obs = LinkObs (obs_now: int) (obs_closed: "nat \<Rightarrow> bool")

instantiation link_obs :: preorder
begin

definition less_eq_link_obs :: "link_obs \<Rightarrow> link_obs \<Rightarrow> bool" where
  "less_eq_link_obs x y \<longleftrightarrow> obs_now x \<le> obs_now y \<and> (\<forall>a. obs_closed x a \<longrightarrow> obs_closed y a)"

definition less_link_obs :: "link_obs \<Rightarrow> link_obs \<Rightarrow> bool" where
  "less_link_obs x y \<longleftrightarrow> x \<le> y \<and> \<not> y \<le> (x :: link_obs)"

instance
  by standard (auto simp: less_eq_link_obs_def less_link_obs_def)

end

definition observe :: "int \<Rightarrow> closers_heap \<Rightarrow> link_obs" where
  "observe now h = LinkObs now (\<lambda>a. closers_Expired (h a))"

text \<open>The two kinds of expiry an entry of the link cache has.\<close>

definition ttl_expiry :: "int \<Rightarrow> link_obs expirable" where
  "ttl_expiry t ob = ExpirationTime t (obs_now ob)"

definition closers_expiry :: "nat \<Rightarrow> link_obs expirable" where
  "closers_expiry a ob = obs_closed ob a"

lemma lasting_link_expiry: "lasting (ttl_expiry t)" "lasting (closers_expiry a)"
  by (auto simp: lasting_def ttl_expiry_def closers_expiry_def ExpirationTime_def less_eq_link_obs_def)

type_synonym link_cache = "(link_obs, objWithLink) TypedCache"

text \<open>\<open>SetTypeWithTTL\<close> of the typed cache, on the link cache.\<close>

definition link_SetTypeWithTTL :: "link_cache \<Rightarrow> int \<Rightarrow> string \<Rightarrow> string \<Rightarrow> objWithLink \<Rightarrow> int \<Rightarrow> link_cache" where
  "link_SetTypeWithTTL c now key typeKey value ttl = SetTypeWithExpirable c key typeKey value (ttl_expiry (now + ttl))"

section \<open>Closed links stay closed\<close>

lemma closers_Close_expired: "closers_Expired sc \<Longrightarrow> closers_Close sc = sc"
  by (simp add: closers_Expired_def closers_Close_def)

lemma Acquire_expired: "ref sc = closersClosed \<Longrightarrow> AcquireReference sc = (False, sc)"
  by (simp add: AcquireReference_def ref_Add_def ref_Store_def closersClosed_def wrap32_def)

lemma Acquire_fresh: "ref sc = 0 \<Longrightarrow> AcquireReference sc = (True, sc\<lparr>ref := 1\<rparr>)"
  by (simp add: AcquireReference_def ref_Add_def wrap32_def)

end
