(* ===== verification/Op_Cache.thy ===== *)
theory Op_Cache
  imports Links Mounts User_Model
begin

text \<open>
  The caches around storage operations: \<open>internal/op/cache.go\<close>.  A cached directory is reached through its key only, so
  the cache holds its value and the methods that change it in place replace that value, keeping the entry's identity and
  expiry.  What a driver declares about itself (\<open>driver.Config\<close>) and the storage it serves form \<open>DriverMeta\<close>.
\<close>

unbundle bit_operations_syntax

section \<open>The model\<close>

record Config =
  cfgName :: string
  LocalSort :: bool
  OnlyProxy :: bool
  NoCache :: bool
  NoUpload :: bool
  NeedMs :: bool
  DefaultRoot :: string
  CheckStatus :: bool
  cfgAlert :: string
  NoOverwriteUpload :: bool
  ProxyRangeOption :: bool
  NoLinkURL :: bool
  LinkCacheMode :: "8 word"
  OnlyIndices :: bool
  PreferProxy :: bool

record DriverMeta =
  drv_Config :: Config
  drv_Storage :: Storage

record SettingItem =
  setKey :: string
  setValue :: string
  setMigrationValue :: string
  setHelp :: string
  setType :: string
  setOptions :: string
  setGroup :: int
  setFlag :: int
  setIndex :: nat

text \<open>What the settings cache holds; a type assertion of the source is a case distinction.\<close>

datatype setting_data = SettingOne SettingItem | SettingMany "SettingItem list"

text \<open>\<open>sort.Slice\<close> and \<open>natural.Less\<close>.\<close>

record sorting =
  sort_Slice :: "(Obj \<Rightarrow> Obj \<Rightarrow> bool) \<Rightarrow> Obj list \<Rightarrow> Obj list"
  natural_Less :: "string \<Rightarrow> string \<Rightarrow> bool"

subsection \<open>A cached directory\<close>

record directoryCache =
  dc_objs :: "Obj list"
  dc_sorted :: "Obj list"
  dirtyFlags :: "8 word"

definition dirtyRemove :: "8 word" where "dirtyRemove = push_bit 0 1"

definition dirtyUpdate :: "8 word" where "dirtyUpdate = push_bit 1 1"

definition newDirectoryCache :: "Obj list \<Rightarrow> directoryCache" where
  "newDirectoryCache objs = \<lparr>dc_objs = objs, dc_sorted = objs, dirtyFlags = 0\<rparr>"

text \<open>The loops of \<open>RemoveObject\<close> and \<open>UpdateObject\<close>; \<open>None\<close> when no object has the name.\<close>

fun remove_named :: "string \<Rightarrow> Obj list \<Rightarrow> Obj list option" where
  "remove_named name [] = None"
| "remove_named name (x # xs) = (if GetName x = name then Some xs else map_option ((#) x) (remove_named name xs))"

definition RemoveObject :: "string \<Rightarrow> directoryCache \<Rightarrow> directoryCache" where
  "RemoveObject name dc =
     (case remove_named name (dc_objs dc) of
        Some objs \<Rightarrow> dc\<lparr>dc_objs := objs, dirtyFlags := dirtyFlags dc OR dirtyRemove\<rparr>
      | None \<Rightarrow> dc)"

fun replace_named :: "string \<Rightarrow> Obj \<Rightarrow> Obj list \<Rightarrow> Obj list option" where
  "replace_named name y [] = None"
| "replace_named name y (x # xs) = (if GetName x = name then Some (y # xs) else map_option ((#) x) (replace_named name y xs))"

definition UpdateObject :: "string \<Rightarrow> Obj \<Rightarrow> directoryCache \<Rightarrow> directoryCache" where
  "UpdateObject oldName newObj dc =
     (case (if oldName \<noteq> [] then replace_named oldName newObj (dc_objs dc) else None) of
        Some objs \<Rightarrow> dc\<lparr>dc_objs := objs, dirtyFlags := dirtyFlags dc OR dirtyUpdate\<rparr>
      | None \<Rightarrow> dc\<lparr>dc_objs := dc_objs dc @ [newObj], dirtyFlags := dirtyFlags dc OR dirtyUpdate\<rparr>)"

text \<open>How a listing is put in order.\<close>

definition sort_objs :: "sorting \<Rightarrow> 'a DriverMeta_scheme \<Rightarrow> Obj list \<Rightarrow> Obj list" where
  "sort_objs so meta objs =
     (let storage = drv_Storage meta;
          sorted = (if LocalSort (drv_Config meta)
                    then SortFiles (sort_Slice so) (natural_Less so) objs (OrderBy storage) (OrderDirection storage) else objs)
      in ExtractFolder sorted (SortExtractFolder storage))"

definition GetSortedObjects :: "sorting \<Rightarrow> 'a DriverMeta_scheme \<Rightarrow> directoryCache \<Rightarrow> Obj list \<times> directoryCache" where
  "GetSortedObjects so meta dc =
     (if dirtyFlags dc = 0 then (dc_sorted dc, dc)
      else let sorted = (if dirtyFlags dc AND dirtyUpdate \<noteq> 0 then sort_objs so meta (dc_objs dc) else dc_objs dc)
           in (sorted, dc\<lparr>dc_sorted := sorted, dirtyFlags := 0\<rparr>))"

subsection \<open>The cache manager\<close>

type_synonym dir_cache = "(int, directoryCache) KeyedCache"

record CacheManager =
  dirCache :: dir_cache
  linkCache :: link_cache
  userCache :: "(int, User) KeyedCache"
  settingCache :: "(int, setting_data) KeyedCache"
  detailCache :: "(int, StorageDetails) KeyedCache"

text \<open>Durations are numbers of nanoseconds.\<close>

definition Minute :: int where
  "Minute = 60 * 1000000000"

definition NewCacheManager :: CacheManager where
  "NewCacheManager =
     \<lparr>dirCache = NewKeyedCache (5 * Minute), linkCache = NewTypedCache (30 * Minute), userCache = NewKeyedCache (60 * Minute),
      settingCache = NewKeyedCache (60 * Minute), detailCache = NewKeyedCache (30 * Minute)\<rparr>"

definition Key :: "'a DriverMeta_scheme \<Rightarrow> string \<Rightarrow> string" where
  "Key meta path = GetFullPath (MountPath (drv_Storage meta)) path"

text \<open>A method that changes a cached directory in place.\<close>

definition dir_modify :: "string \<Rightarrow> (directoryCache \<Rightarrow> directoryCache) \<Rightarrow> dir_cache \<Rightarrow> dir_cache" where
  "dir_modify key f c =
     (case map_of (kEntries c) key of
        None \<Rightarrow> c
      | Some e \<Rightarrow> c\<lparr>kEntries := dict_set key (e\<lparr>entry_data := f (entry_data e)\<rparr>) (kEntries c)\<rparr>)"

text \<open>\<open>Cache.dirCache.Get\<close>.\<close>

definition dir_Get :: "int \<Rightarrow> string \<Rightarrow> CacheManager \<Rightarrow> directoryCache option \<times> CacheManager" where
  "dir_Get now key cm = (let (r, c) = keyed_Get (dirCache cm) now key in (r, cm\<lparr>dirCache := c\<rparr>))"

definition dir_update :: "string \<Rightarrow> (directoryCache \<Rightarrow> directoryCache) \<Rightarrow> CacheManager \<Rightarrow> CacheManager" where
  "dir_update key f cm = cm\<lparr>dirCache := dir_modify key f (dirCache cm)\<rparr>"

definition link_DeleteKey :: "string \<Rightarrow> CacheManager \<Rightarrow> CacheManager" where
  "link_DeleteKey key cm = cm\<lparr>linkCache := DeleteKey (linkCache cm) key\<rparr>"

function (sequential) deleteDirectoryTree :: "string \<Rightarrow> CacheManager \<Rightarrow> CacheManager"
  and delete_children :: "string \<Rightarrow> Obj list \<Rightarrow> CacheManager \<Rightarrow> CacheManager" where
  "deleteDirectoryTree key cm =
     (case keyed_Pop (dirCache cm) key of
        (Some dc, c) \<Rightarrow> delete_children key (dc_objs dc) (cm\<lparr>dirCache := c\<rparr>)
      | (None, _) \<Rightarrow> cm)"
| "delete_children key [] cm = cm"
| "delete_children key (obj # objs) cm =
     delete_children key objs
       (if IsDir obj then deleteDirectoryTree (PathJoin key (GetName obj)) cm else link_DeleteKey (PathJoin key (GetName obj)) cm)"
  by pat_completeness auto

termination
proof (relation "measures [case_sum (\<lambda>(k, cm). length (kEntries (dirCache cm))) (\<lambda>(k, os, cm). length (kEntries (dirCache cm))),
    case_sum (\<lambda>(k, cm). 0) (\<lambda>(k, os, cm). Suc (length os))]", goal_cases)
  case (2 key cm x dc c)
  then show ?case by (auto simp: keyed_Pop_def length_dict_del_less split: option.splits)
next
  case (4 key obj objs cm)
  have shrink: "deleteDirectoryTree_delete_children_dom (Inl (k, m)) \<Longrightarrow> length (kEntries (dirCache (deleteDirectoryTree k m))) \<le> length (kEntries (dirCache m))"
    and "deleteDirectoryTree_delete_children_dom (Inr (l, os, n)) \<Longrightarrow> length (kEntries (dirCache (delete_children l os n))) \<le> length (kEntries (dirCache n))"
    for k m l os n
  proof (induction k m and l os n rule: deleteDirectoryTree_delete_children.pinduct)
    case (1 key cm)
    then show ?case using length_dict_del [of key "kEntries (dirCache cm)"]
      by (auto simp: deleteDirectoryTree.psimps keyed_Pop_def split: option.splits intro: order_trans)
  next
    case (3 key obj objs cm)
    then show ?case by (auto simp: delete_children.psimps link_DeleteKey_def intro: order_trans split: if_splits)
  qed (simp add: delete_children.psimps)
  from 4 show ?case by (auto simp: link_DeleteKey_def dest!: shrink)
qed auto

definition DeleteDirectoryTree :: "'a DriverMeta_scheme \<Rightarrow> string \<Rightarrow> CacheManager \<Rightarrow> CacheManager" where
  "DeleteDirectoryTree meta dirPath cm = (if NoCache (drv_Config meta) then cm else deleteDirectoryTree (Key meta dirPath) cm)"

definition DeleteDirectory :: "'a DriverMeta_scheme \<Rightarrow> string \<Rightarrow> CacheManager \<Rightarrow> CacheManager" where
  "DeleteDirectory meta dirPath cm =
     (if NoCache (drv_Config meta) then cm else cm\<lparr>dirCache := keyed_Delete (dirCache cm) (Key meta dirPath)\<rparr>)"

definition removeDirectoryObject :: "'a DriverMeta_scheme \<Rightarrow> int \<Rightarrow> string \<Rightarrow> Obj \<Rightarrow> CacheManager \<Rightarrow> CacheManager" where
  "removeDirectoryObject meta now dirPath obj cm0 =
     (let key = Key meta dirPath;
          cm = (if \<not> IsDir obj then link_DeleteKey (PathJoin key (GetName obj)) cm0 else cm0)
      in if NoCache (drv_Config meta) then cm
         else case dir_Get now key cm of
           (None, cm1) \<Rightarrow> cm1
         | (Some _, cm1) \<Rightarrow>
             let cm2 = (if IsDir obj then deleteDirectoryTree (PathJoin key (GetName obj)) cm1 else cm1)
             in dir_update key (RemoveObject (GetName obj)) cm2)"

definition SetUser :: "int \<Rightarrow> string \<Rightarrow> User \<Rightarrow> CacheManager \<Rightarrow> CacheManager" where
  "SetUser now username user cm = cm\<lparr>userCache := keyed_Set (userCache cm) now username user\<rparr>"

definition GetUser :: "int \<Rightarrow> string \<Rightarrow> CacheManager \<Rightarrow> User option \<times> CacheManager" where
  "GetUser now username cm = (let (r, c) = keyed_Get (userCache cm) now username in (r, cm\<lparr>userCache := c\<rparr>))"

definition DeleteUser :: "string \<Rightarrow> CacheManager \<Rightarrow> CacheManager" where
  "DeleteUser username cm = cm\<lparr>userCache := keyed_Delete (userCache cm) username\<rparr>"

definition SetSetting :: "int \<Rightarrow> string \<Rightarrow> SettingItem \<Rightarrow> CacheManager \<Rightarrow> CacheManager" where
  "SetSetting now key setting cm = cm\<lparr>settingCache := keyed_Set (settingCache cm) now key (SettingOne setting)\<rparr>"

definition GetSetting :: "int \<Rightarrow> string \<Rightarrow> CacheManager \<Rightarrow> SettingItem option \<times> CacheManager" where
  "GetSetting now key cm =
     (let (r, c) = keyed_Get (settingCache cm) now key
      in (case r of Some (SettingOne x) \<Rightarrow> Some x | _ \<Rightarrow> None, cm\<lparr>settingCache := c\<rparr>))"

definition SetSettingGroup :: "int \<Rightarrow> string \<Rightarrow> SettingItem list \<Rightarrow> CacheManager \<Rightarrow> CacheManager" where
  "SetSettingGroup now key settings cm = cm\<lparr>settingCache := keyed_Set (settingCache cm) now key (SettingMany settings)\<rparr>"

definition GetSettingGroup :: "int \<Rightarrow> string \<Rightarrow> CacheManager \<Rightarrow> SettingItem list option \<times> CacheManager" where
  "GetSettingGroup now key cm =
     (let (r, c) = keyed_Get (settingCache cm) now key
      in (case r of Some (SettingMany x) \<Rightarrow> Some x | _ \<Rightarrow> None, cm\<lparr>settingCache := c\<rparr>))"

definition SetStorageDetails :: "'a DriverMeta_scheme \<Rightarrow> int \<Rightarrow> StorageDetails \<Rightarrow> CacheManager \<Rightarrow> CacheManager" where
  "SetStorageDetails meta now details cm =
     (if NoCache (drv_Config meta) then cm
      else let expiration = wrap64 (Minute * CacheExpiration (drv_Storage meta))
           in cm\<lparr>detailCache := keyed_SetWithTTL (detailCache cm) now (GetActualMountPath (MountPath (drv_Storage meta))) details expiration\<rparr>)"

definition GetStorageDetails :: "'a DriverMeta_scheme \<Rightarrow> int \<Rightarrow> CacheManager \<Rightarrow> StorageDetails option \<times> CacheManager" where
  "GetStorageDetails meta now cm =
     (let (r, c) = keyed_Get (detailCache cm) now (GetActualMountPath (MountPath (drv_Storage meta))) in (r, cm\<lparr>detailCache := c\<rparr>))"

definition InvalidateStorageDetails :: "'a DriverMeta_scheme \<Rightarrow> CacheManager \<Rightarrow> CacheManager" where
  "InvalidateStorageDetails meta cm =
     cm\<lparr>detailCache := keyed_Delete (detailCache cm) (GetActualMountPath (MountPath (drv_Storage meta)))\<rparr>"

definition ClearAll :: "CacheManager \<Rightarrow> CacheManager" where
  "ClearAll cm =
     cm\<lparr>dirCache := keyed_Clear (dirCache cm), linkCache := typed_Clear (linkCache cm), userCache := keyed_Clear (userCache cm),
        settingCache := keyed_Clear (settingCache cm), detailCache := keyed_Clear (detailCache cm)\<rparr>"

section \<open>A cached directory shows the current objects\<close>

text \<open>What the calls of these methods can make of a directory freshly listed.\<close>

datatype dir_op = OpRemove string | OpUpdate string Obj | OpShow

fun dir_step :: "sorting \<Rightarrow> 'a DriverMeta_scheme \<Rightarrow> dir_op \<Rightarrow> directoryCache \<Rightarrow> directoryCache" where
  "dir_step so meta (OpRemove n) dc = RemoveObject n dc"
| "dir_step so meta (OpUpdate n x) dc = UpdateObject n x dc"
| "dir_step so meta OpShow dc = snd (GetSortedObjects so meta dc)"

definition dir_run :: "sorting \<Rightarrow> 'a DriverMeta_scheme \<Rightarrow> dir_op list \<Rightarrow> directoryCache \<Rightarrow> directoryCache" where
  "dir_run so meta ops dc = fold (dir_step so meta) ops dc"

text \<open>The objects as the same calls change them, with nothing cached.\<close>

fun plain_step :: "dir_op \<Rightarrow> Obj list \<Rightarrow> Obj list" where
  "plain_step (OpRemove n) xs = (case remove_named n xs of None \<Rightarrow> xs | Some ys \<Rightarrow> ys)"
| "plain_step (OpUpdate n x) xs = (case (if n \<noteq> [] then replace_named n x xs else None) of None \<Rightarrow> xs @ [x] | Some ys \<Rightarrow> ys)"
| "plain_step OpShow xs = xs"

definition sorts :: "sorting \<Rightarrow> bool" where
  "sorts so \<longleftrightarrow> (\<forall>less xs. mset (sort_Slice so less xs) = mset xs)"

definition dir_clean :: "directoryCache \<Rightarrow> bool" where
  "dir_clean dc \<longleftrightarrow> dirtyFlags dc = 0 \<longrightarrow> mset (dc_sorted dc) = mset (dc_objs dc)"

lemma mset_sort_objs: "sorts so \<Longrightarrow> mset (sort_objs so meta xs) = mset xs"
  by (simp add: sort_objs_def SortFiles_def ExtractFolder_def sorts_def Let_def)

lemma dirty_or: "x OR dirtyRemove \<noteq> 0" "x OR dirtyUpdate \<noteq> 0"
  by (simp_all add: or_eq_0_iff dirtyRemove_def dirtyUpdate_def)

lemma GetSortedObjects_mset:
  "sorts so \<Longrightarrow> dir_clean dc \<Longrightarrow> mset (fst (GetSortedObjects so meta dc)) = mset (dc_objs dc)"
  by (simp add: GetSortedObjects_def dir_clean_def mset_sort_objs Let_def)

lemma dir_step_clean: "sorts so \<Longrightarrow> dir_clean dc \<Longrightarrow> dir_clean (dir_step so meta a dc)"
  by (cases a)
     (auto simp: dir_clean_def RemoveObject_def UpdateObject_def GetSortedObjects_def mset_sort_objs dirty_or Let_def split: option.split)

lemma dir_step_objs: "dc_objs (dir_step so meta a dc) = plain_step a (dc_objs dc)"
  by (cases a) (auto simp: RemoveObject_def UpdateObject_def GetSortedObjects_def Let_def split: option.split)

lemma dir_run_spec:
  assumes "sorts so" "dir_clean dc"
  shows "dir_clean (dir_run so meta ops dc) \<and> dc_objs (dir_run so meta ops dc) = fold plain_step ops (dc_objs dc)"
  using assms(2) unfolding dir_run_def
proof (induction ops arbitrary: dc)
  case (Cons a ops)
  from Cons.IH [OF dir_step_clean [OF assms(1) Cons.prems]] show ?case by (simp add: dir_step_objs)
qed simp

lemma dir_clean_new [simp]: "dir_clean (newDirectoryCache objs)"
  by (simp add: dir_clean_def newDirectoryCache_def)

section \<open>Deleting a tree of directories\<close>

text \<open>The directories a deletion from \<open>key\<close> can reach: through listings that are in the cache.\<close>

definition cached_dir :: "CacheManager \<Rightarrow> string \<Rightarrow> directoryCache option" where
  "cached_dir cm key = map_option entry_data (map_of (kEntries (dirCache cm)) key)"

inductive_set cached_below :: "CacheManager \<Rightarrow> string \<Rightarrow> string set" for cm key where
  here: "cached_dir cm key \<noteq> None \<Longrightarrow> key \<in> cached_below cm key"
| child: "k \<in> cached_below cm key \<Longrightarrow> cached_dir cm k = Some dc \<Longrightarrow> obj \<in> set (dc_objs dc) \<Longrightarrow> IsDir obj \<Longrightarrow>
    cached_dir cm (PathJoin k (GetName obj)) \<noteq> None \<Longrightarrow> PathJoin k (GetName obj) \<in> cached_below cm key"

definition dir_entry :: "CacheManager \<Rightarrow> string \<Rightarrow> (int, directoryCache) CacheEntry option" where
  "dir_entry cm k = map_of (kEntries (dirCache cm)) k"

text \<open>Only entries of the directory cache are gone.\<close>

definition dirs_dropped :: "CacheManager \<Rightarrow> CacheManager \<Rightarrow> bool" where
  "dirs_dropped cm cm' \<longleftrightarrow> (\<forall>k. dir_entry cm' k = dir_entry cm k \<or> dir_entry cm' k = None)"

lemma dirs_dropped_refl [simp]: "dirs_dropped cm cm"
  by (simp add: dirs_dropped_def)

lemma dirs_dropped_trans: "dirs_dropped a b \<Longrightarrow> dirs_dropped b c \<Longrightarrow> dirs_dropped a c"
  unfolding dirs_dropped_def by metis

definition dir_drop :: "string \<Rightarrow> CacheManager \<Rightarrow> CacheManager" where
  "dir_drop key cm = cm\<lparr>dirCache := (dirCache cm)\<lparr>kEntries := dict_del key (kEntries (dirCache cm))\<rparr>\<rparr>"

lemma dir_entry_simps [simp]:
  "dir_entry (link_DeleteKey k cm) = dir_entry cm"
  "dir_entry (dir_drop key cm) k = (if k = key then None else dir_entry cm k)"
  by (simp_all add: dir_entry_def link_DeleteKey_def dir_drop_def fun_eq_iff)

lemma cached_dir_entry: "cached_dir cm k = map_option entry_data (dir_entry cm k)"
  by (simp add: cached_dir_def dir_entry_def)

lemma deleteDirectoryTree_eq:
  "deleteDirectoryTree key cm =
     (case dir_entry cm key of None \<Rightarrow> cm | Some e \<Rightarrow> delete_children key (dc_objs (entry_data e)) (dir_drop key cm))"
  by (auto simp: dir_entry_def keyed_Pop_def dir_drop_def split: option.split)

abbreviation delete_child :: "string \<Rightarrow> Obj \<Rightarrow> CacheManager \<Rightarrow> CacheManager" where
  "delete_child key obj cm \<equiv>
     (if IsDir obj then deleteDirectoryTree (PathJoin key (GetName obj)) cm else link_DeleteKey (PathJoin key (GetName obj)) cm)"

declare deleteDirectoryTree.simps [simp del]

lemma delete_tree_induct [case_names absent present Nil Cons]:
  assumes absent: "\<And>key cm. dir_entry cm key = None \<Longrightarrow> P key cm"
    and present: "\<And>key cm e. dir_entry cm key = Some e \<Longrightarrow> Q key (dc_objs (entry_data e)) (dir_drop key cm) \<Longrightarrow> P key cm"
    and Nil: "\<And>key cm. Q key [] cm"
    and Cons: "\<And>key obj objs cm. (IsDir obj \<Longrightarrow> P (PathJoin key (GetName obj)) cm) \<Longrightarrow> Q key objs (delete_child key obj cm) \<Longrightarrow> Q key (obj # objs) cm"
  shows "P key cm" and "Q k os cm'"
proof (induction key cm and k os cm' rule: deleteDirectoryTree_delete_children.induct)
  case (1 key cm)
  show ?case
  proof (cases "dir_entry cm key")
    case (Some e)
    then have "keyed_Pop (dirCache cm) key = (Some (entry_data e), (dirCache cm)\<lparr>kEntries := dict_del key (kEntries (dirCache cm))\<rparr>)"
      by (simp add: keyed_Pop_def dir_entry_def)
    from present [OF Some] 1 [OF this [symmetric] refl] show ?thesis by (simp add: dir_drop_def)
  qed (rule absent)
qed (auto intro: Nil Cons)

lemma dirs_dropped_link [simp]: "dirs_dropped (link_DeleteKey k cm) c = dirs_dropped cm c"
  by (simp add: dirs_dropped_def)

lemma dirs_dropped_drop [simp]: "dirs_dropped cm (dir_drop key cm)"
  by (simp add: dirs_dropped_def)

lemma dirs_droppedD: "dirs_dropped cm cm' \<Longrightarrow> dir_entry cm' k = Some e \<Longrightarrow> dir_entry cm k = Some e"
  by (metis dirs_dropped_def option.distinct(1))

lemma dirs_dropped_None: "dirs_dropped cm cm' \<Longrightarrow> dir_entry cm k = None \<Longrightarrow> dir_entry cm' k = None"
  by (metis dirs_dropped_def)

lemma delete_dropped: "dirs_dropped cm (deleteDirectoryTree key cm)"
  and delete_children_dropped: "dirs_dropped cm' (delete_children k os cm')"
proof (induction key cm and k os cm' rule: delete_tree_induct)
  case (present key cm e)
  then show ?case by (auto simp: deleteDirectoryTree_eq intro: dirs_dropped_trans [OF dirs_dropped_drop])
next
  case (Cons key obj objs cm)
  then show ?case by (auto intro: dirs_dropped_trans)
qed (simp_all add: deleteDirectoryTree_eq)

lemma deleted_key: "dir_entry (deleteDirectoryTree key cm) key = None"
proof (cases "dir_entry cm key")
  case (Some e)
  then show ?thesis using delete_children_dropped [of "dir_drop key cm" key "dc_objs (entry_data e)"]
    by (simp add: deleteDirectoryTree_eq dirs_dropped_None)
qed (simp add: deleteDirectoryTree_eq)

lemma delete_child_dropped: "dirs_dropped cm (delete_child key obj cm)"
  using dirs_dropped_link [of _ cm] by (simp add: delete_dropped) (simp add: dirs_dropped_def)

text \<open>Below a directory that went, nothing that it listed stays.\<close>

lemma deleted_closed:
  "\<lbrakk>dir_entry cm k = Some e; dir_entry (deleteDirectoryTree key cm) k = None; obj \<in> set (dc_objs (entry_data e)); IsDir obj\<rbrakk>
     \<Longrightarrow> dir_entry (deleteDirectoryTree key cm) (PathJoin k (GetName obj)) = None"
  and deleted_children_closed:
  "(\<forall>k e obj. dir_entry cm' k = Some e \<longrightarrow> dir_entry (delete_children l os cm') k = None \<longrightarrow> obj \<in> set (dc_objs (entry_data e)) \<longrightarrow>
      IsDir obj \<longrightarrow> dir_entry (delete_children l os cm') (PathJoin k (GetName obj)) = None) \<and>
    (\<forall>obj \<in> set os. IsDir obj \<longrightarrow> dir_entry (delete_children l os cm') (PathJoin l (GetName obj)) = None)"
proof (induction key cm and l os cm' arbitrary: k e obj rule: delete_tree_induct)
  case (present key cm e')
  then show ?case by (cases "k = key") (auto simp: deleteDirectoryTree_eq)
next
  case (Cons key obj objs cm)
  let ?c = "delete_child key obj cm"
  have d: "dirs_dropped cm ?c" "dirs_dropped ?c (delete_children key objs ?c)" by (rule delete_child_dropped, rule delete_children_dropped)
  have first: "dir_entry (delete_children key objs ?c) (PathJoin k (GetName x)) = None"
    if "dir_entry cm k = Some e" "dir_entry (delete_children key objs ?c) k = None" "x \<in> set (dc_objs (entry_data e))" "IsDir x" for k e x
  proof (cases "dir_entry ?c k")
    case None
    with Cons.IH(1) [of k e x] that have "dir_entry ?c (PathJoin k (GetName x)) = None" by (auto split: if_splits)
    with d(2) show ?thesis by (rule dirs_dropped_None)
  next
    case (Some e')
    with dirs_droppedD [OF d(1) Some] that Cons.IH(2) show ?thesis by auto
  qed
  have "dir_entry (delete_children key objs ?c) (PathJoin key (GetName obj)) = None" if "IsDir obj"
    using dirs_dropped_None [OF d(2)] that deleted_key by simp
  with first Cons.IH(2) show ?case by auto
qed (simp_all add: deleteDirectoryTree_eq)

text \<open>Nothing else goes.\<close>

lemma cached_below_root: "k \<in> cached_below cm key \<Longrightarrow> cached_dir cm key \<noteq> None"
  by (induction rule: cached_below.induct) auto

lemma cached_below_trans: "k \<in> cached_below cm a \<Longrightarrow> a \<in> cached_below cm key \<Longrightarrow> k \<in> cached_below cm key"
  by (induction rule: cached_below.induct) (auto intro: cached_below.child)

lemma cached_below_mono: "k \<in> cached_below cm' key \<Longrightarrow> dirs_dropped cm cm' \<Longrightarrow> k \<in> cached_below cm key"
proof (induction rule: cached_below.induct)
  case here
  then show ?case by (auto intro!: cached_below.here simp: cached_dir_entry dest: dirs_droppedD)
next
  case (child k dc obj)
  then show ?case by (intro cached_below.child [of k cm key dc obj]) (auto simp: cached_dir_entry dest: dirs_droppedD)
qed

lemma cached_below_child:
  assumes "dir_entry cm key = Some e" "obj \<in> set (dc_objs (entry_data e))" "IsDir obj" "k \<in> cached_below cm (PathJoin key (GetName obj))"
  shows "k \<in> cached_below cm key"
proof (rule cached_below_trans [OF assms(4)])
  have "key \<in> cached_below cm key" using assms(1) by (intro cached_below.here) (simp add: cached_dir_entry)
  then show "PathJoin key (GetName obj) \<in> cached_below cm key"
    by (rule cached_below.child) (use assms cached_below_root [OF assms(4)] in \<open>auto simp: cached_dir_entry\<close>)
qed

lemma deleted_below:
  "dir_entry cm k = Some e \<Longrightarrow> dir_entry (deleteDirectoryTree key cm) k = None \<Longrightarrow> k \<in> cached_below cm key"
  and deleted_children_below:
  "dir_entry cm' k = Some e \<Longrightarrow> dir_entry (delete_children l os cm') k = None \<Longrightarrow>
     \<exists>obj \<in> set os. IsDir obj \<and> k \<in> cached_below cm' (PathJoin l (GetName obj))"
proof (induction key cm and l os cm' arbitrary: k e and k e rule: delete_tree_induct)
  case (present key cm e')
  show ?case
  proof (cases "k = key")
    case True
    with present.prems show ?thesis by (auto intro!: cached_below.here simp: cached_dir_entry)
  next
    case False
    with present.hyps present.prems have "dir_entry (dir_drop key cm) k = Some e" "dir_entry (delete_children key (dc_objs (entry_data e')) (dir_drop key cm)) k = None"
      by (simp_all add: deleteDirectoryTree_eq)
    from present.IH [OF this] obtain x where "x \<in> set (dc_objs (entry_data e'))" "IsDir x" "k \<in> cached_below (dir_drop key cm) (PathJoin key (GetName x))"
      by auto
    from cached_below_child [OF present.hyps this(1,2) cached_below_mono [OF this(3) dirs_dropped_drop]] show ?thesis .
  qed
next
  case (Cons key obj objs cm)
  show ?case
  proof (cases "dir_entry (delete_child key obj cm) k")
    case None
    with Cons.IH(1) [of k e] Cons.prems show ?thesis by (auto split: if_splits)
  next
    case (Some e')
    with Cons.IH(2) [of k e'] Cons.prems obtain x where "x \<in> set objs" "IsDir x" "k \<in> cached_below (delete_child key obj cm) (PathJoin key (GetName x))"
      by auto
    with cached_below_mono [OF this(3) delete_child_dropped] show ?thesis by auto
  qed
qed (simp_all add: deleteDirectoryTree_eq)

lemma delete_tree_exact:
  "dir_entry (deleteDirectoryTree key cm) k = (if k \<in> cached_below cm key then None else dir_entry cm k)"
proof (cases "k \<in> cached_below cm key")
  case True
  then have "dir_entry (deleteDirectoryTree key cm) k = None"
  proof (induction rule: cached_below.induct)
    case here
    show ?case by (rule deleted_key)
  next
    case (child k dc obj)
    then show ?case by (auto simp: cached_dir_entry intro: deleted_closed)
  qed
  with True show ?thesis by simp
next
  case False
  with deleted_below [of cm k _ key] delete_dropped [of cm key] show ?thesis
    by (cases "dir_entry cm k") (auto simp: dirs_dropped_def dest: spec [of _ k])
qed

text \<open>The links that go with the directories: those of the files that the deleted listings show.\<close>

definition links_below :: "CacheManager \<Rightarrow> string \<Rightarrow> string set" where
  "links_below cm key = {PathJoin k (GetName obj) | k dc obj. k \<in> cached_below cm key \<and> cached_dir cm k = Some dc \<and> obj \<in> set (dc_objs dc) \<and> \<not> IsDir obj}"

definition link_entry :: "CacheManager \<Rightarrow> string \<Rightarrow> nat option" where
  "link_entry cm l = map_of (tEntries (linkCache cm)) l"

lemma link_entry_simps [simp]:
  "link_entry (link_DeleteKey k cm) l = (if l = k then None else link_entry cm l)"
  "link_entry (dir_drop key cm) = link_entry cm"
  by (simp_all add: link_entry_def link_DeleteKey_def DeleteKey_def dir_drop_def fun_eq_iff)

lemma links_below_mono: "l \<in> links_below cm' key \<Longrightarrow> dirs_dropped cm cm' \<Longrightarrow> l \<in> links_below cm key"
  unfolding links_below_def by (fastforce simp: cached_dir_entry dest: cached_below_mono dirs_droppedD)

lemma links_below_child:
  assumes "dir_entry cm key = Some e" "obj \<in> set (dc_objs (entry_data e))" "IsDir obj" "l \<in> links_below cm (PathJoin key (GetName obj))"
  shows "l \<in> links_below cm key"
  using assms(4) cached_below_child [OF assms(1-3)] unfolding links_below_def by blast

lemma deleted_links_below:
  "link_entry (deleteDirectoryTree key cm) l \<noteq> link_entry cm l \<Longrightarrow> l \<in> links_below cm key"
  and deleted_children_links_below:
  "link_entry (delete_children k os cm') l \<noteq> link_entry cm' l \<Longrightarrow>
     \<exists>obj \<in> set os. if IsDir obj then l \<in> links_below cm' (PathJoin k (GetName obj)) else l = PathJoin k (GetName obj)"
proof (induction key cm and k os cm' rule: delete_tree_induct)
  case (present key cm e)
  then obtain x where x: "x \<in> set (dc_objs (entry_data e))"
    "if IsDir x then l \<in> links_below (dir_drop key cm) (PathJoin key (GetName x)) else l = PathJoin key (GetName x)"
    by (auto simp: deleteDirectoryTree_eq)
  have "key \<in> cached_below cm key" using present.hyps by (intro cached_below.here) (simp add: cached_dir_entry)
  show ?case
  proof (cases "IsDir x")
    case True
    with x(2) have "l \<in> links_below cm (PathJoin key (GetName x))" by (auto intro: links_below_mono [OF _ dirs_dropped_drop])
    then show ?thesis by (rule links_below_child [OF present.hyps x(1) True])
  next
    case False
    with x \<open>key \<in> _\<close> present.hyps show ?thesis unfolding links_below_def
      by (auto simp: cached_dir_entry intro!: exI [of _ key] exI [of _ x])
  qed
next
  case (Cons key obj objs cm)
  show ?case
  proof (cases "link_entry (delete_child key obj cm) l = link_entry cm l")
    case True
    with Cons.IH(2) Cons.prems obtain x where x: "x \<in> set objs"
      "if IsDir x then l \<in> links_below (delete_child key obj cm) (PathJoin key (GetName x)) else l = PathJoin key (GetName x)" by auto
    with links_below_mono [OF _ delete_child_dropped [of cm obj key], of l "PathJoin key (GetName x)"] show ?thesis by (auto split: if_splits)
  next
    case False
    with Cons.IH(1) show ?thesis by (auto split: if_splits)
  qed
qed (simp_all add: deleteDirectoryTree_eq)

lemma deleted_links_stay:
  "link_entry cm l = None \<Longrightarrow> link_entry (deleteDirectoryTree key cm) l = None"
  and deleted_children_links_stay: "link_entry cm' l = None \<Longrightarrow> link_entry (delete_children k os cm') l = None"
  by (induction key cm and k os cm' rule: delete_tree_induct) (auto simp: deleteDirectoryTree_eq)

lemma deleted_links_closed:
  "\<lbrakk>dir_entry cm k = Some e; dir_entry (deleteDirectoryTree key cm) k = None; obj \<in> set (dc_objs (entry_data e)); \<not> IsDir obj\<rbrakk>
     \<Longrightarrow> link_entry (deleteDirectoryTree key cm) (PathJoin k (GetName obj)) = None"
  and deleted_children_links_closed:
  "(\<forall>k e obj. dir_entry cm' k = Some e \<longrightarrow> dir_entry (delete_children l os cm') k = None \<longrightarrow> obj \<in> set (dc_objs (entry_data e)) \<longrightarrow>
      \<not> IsDir obj \<longrightarrow> link_entry (delete_children l os cm') (PathJoin k (GetName obj)) = None) \<and>
    (\<forall>obj \<in> set os. \<not> IsDir obj \<longrightarrow> link_entry (delete_children l os cm') (PathJoin l (GetName obj)) = None)"
proof (induction key cm and l os cm' arbitrary: k e obj rule: delete_tree_induct)
  case (present key cm e')
  then show ?case by (cases "k = key") (auto simp: deleteDirectoryTree_eq)
next
  case (Cons key obj objs cm)
  let ?c = "delete_child key obj cm"
  have first: "link_entry (delete_children key objs ?c) (PathJoin k (GetName x)) = None"
    if "dir_entry cm k = Some e" "dir_entry (delete_children key objs ?c) k = None" "x \<in> set (dc_objs (entry_data e))" "\<not> IsDir x" for k e x
  proof (cases "dir_entry ?c k")
    case None
    with Cons.IH(1) [of k e x] that have "link_entry ?c (PathJoin k (GetName x)) = None" by (auto split: if_splits)
    then show ?thesis by (rule deleted_children_links_stay)
  next
    case (Some e')
    with dirs_droppedD [OF delete_child_dropped Some] that Cons.IH(2) show ?thesis by auto
  qed
  have "link_entry (delete_children key objs ?c) (PathJoin key (GetName obj)) = None" if "\<not> IsDir obj"
    by (rule deleted_children_links_stay) (use that in simp)
  with first Cons.IH(2) show ?case by auto
qed (simp_all add: deleteDirectoryTree_eq)

lemma delete_links_exact:
  "link_entry (deleteDirectoryTree key cm) l = (if l \<in> links_below cm key then None else link_entry cm l)"
proof (cases "l \<in> links_below cm key")
  case True
  then obtain k dc obj where k: "l = PathJoin k (GetName obj)" "k \<in> cached_below cm key" "cached_dir cm k = Some dc" "obj \<in> set (dc_objs dc)" "\<not> IsDir obj"
    by (auto simp: links_below_def)
  with delete_tree_exact [of key cm k] deleted_links_closed [of cm k _ key obj] True show ?thesis by (auto simp: cached_dir_entry)
qed (use deleted_links_below in auto)

text \<open>The caches apart from the entries for directories and links; deleting touches nothing else.\<close>

definition without_entries :: "CacheManager \<Rightarrow> CacheManager" where
  "without_entries cm = cm\<lparr>dirCache := (dirCache cm)\<lparr>kEntries := []\<rparr>, linkCache := (linkCache cm)\<lparr>tEntries := []\<rparr>\<rparr>"

lemma without_entries_simps [simp]:
  "without_entries (dir_drop key cm) = without_entries cm" "without_entries (link_DeleteKey key cm) = without_entries cm"
  by (simp_all add: without_entries_def dir_drop_def link_DeleteKey_def DeleteKey_def)

lemma delete_same: "without_entries (deleteDirectoryTree key cm) = without_entries cm"
  and delete_children_same: "without_entries (delete_children k os cm') = without_entries cm'"
  by (induction key cm and k os cm' rule: delete_tree_induct) (auto simp: deleteDirectoryTree_eq)

section \<open>Properties\<close>

text \<open>C23: However removals, updates and lookups of a cached directory follow one another, a listing served from the cache
  shows exactly the objects that the same changes make of the list that was cached (each as often as it occurs there),
  whatever the dirty flags and the sorted copy have gone through.\<close>

theorem cached_listing_current:
  assumes "sorts so"
  shows "mset (fst (GetSortedObjects so meta (dir_run so meta ops (newDirectoryCache objs)))) = mset (fold plain_step ops objs)"
  using dir_run_spec [OF assms dir_clean_new, of meta ops objs] GetSortedObjects_mset [OF assms, of _ meta]
  by (simp add: newDirectoryCache_def)

definition sample_object :: "string \<Rightarrow> bool \<Rightarrow> ObjMask \<Rightarrow> Object" where
  "sample_object name folder m =
     \<lparr>oID = [], oPath = [], oName = name, oSize = 0, oDuration = 0, oModified = 0, oCtime = None, oIsFolder = folder, oMask = m\<rparr>"

definition sample_sorting :: sorting where
  "sample_sorting = \<lparr>sort_Slice = (\<lambda>less objs. foldr (\<lambda>x xs. takeWhile (\<lambda>y. less y x) xs @ x # dropWhile (\<lambda>y. less y x) xs) objs []), natural_Less = (<)\<rparr>"

definition sample_config :: Config where
  "sample_config =
     \<lparr>cfgName = ''Local'', LocalSort = True, OnlyProxy = False, NoCache = False, NoUpload = False, NeedMs = False, DefaultRoot = ''/'', CheckStatus = True,
      cfgAlert = [], NoOverwriteUpload = False, ProxyRangeOption = False, NoLinkURL = False, LinkCacheMode = 0, OnlyIndices = False, PreferProxy = False\<rparr>"

definition sample_meta :: DriverMeta where
  "sample_meta = \<lparr>drv_Config = sample_config, drv_Storage = (GetStorage (sample_driver 0 ''/m''))\<lparr>OrderBy := ''name''\<rparr>\<rparr>"

lemma mset_insert_while: "mset (takeWhile P xs @ x # dropWhile P xs) = add_mset x (mset xs)"
  by (induction xs) auto

lemma sample_sorting_sorts: "sorts sample_sorting"
proof -
  have "mset (foldr (\<lambda>x xs. takeWhile (\<lambda>y. less y x) xs @ x # dropWhile (\<lambda>y. less y x) xs) xs []) = mset xs" for less :: "Obj \<Rightarrow> Obj \<Rightarrow> bool" and xs
    by (induction xs) (simp_all add: mset_insert_while del: mset_append)
  then show ?thesis by (simp add: sorts_def sample_sorting_def)
qed

theorem cached_listing_current_witness:
  "sorts sample_sorting \<and>
   mset (fst (GetSortedObjects sample_sorting sample_meta
     (dir_run sample_sorting sample_meta [OpUpdate [] (Obj (sample_object ''a'' False 0)), OpShow, OpRemove ''b'']
       (newDirectoryCache [Obj (sample_object ''b'' False 0), Obj (sample_object ''c'' False 0)]))))
   = mset [Obj (sample_object ''c'' False 0), Obj (sample_object ''a'' False 0)]"
  using cached_listing_current [OF sample_sorting_sorts, of sample_meta "[OpUpdate [] (Obj (sample_object ''a'' False 0)), OpShow, OpRemove ''b'']"
      "[Obj (sample_object ''b'' False 0), Obj (sample_object ''c'' False 0)]"] sample_sorting_sorts
  by (simp add: sample_object_def)

text \<open>A removal after an addition makes the cached listing lose the order the storage asks for: the object added last
  stays at the end of the next listings, wherever the sort order had put it before.\<close>

theorem removal_loses_order:
  assumes "remove_named n objs = Some ys"
  shows "fst (GetSortedObjects so meta (dir_run so meta [OpUpdate [] new, OpShow] (newDirectoryCache objs))) = sort_objs so meta (objs @ [new]) \<and>
    fst (GetSortedObjects so meta (dir_run so meta [OpUpdate [] new, OpShow, OpRemove n] (newDirectoryCache objs))) = ys @ [new]"
proof -
  have "remove_named n (xs @ [new]) = Some (zs @ [new])" if "remove_named n xs = Some zs" for xs zs
    using that by (induction n xs arbitrary: zs rule: remove_named.induct) (auto split: if_splits)
  from this [OF assms] show ?thesis
    by (simp add: dir_run_def newDirectoryCache_def UpdateObject_def GetSortedObjects_def RemoveObject_def Let_def dirtyUpdate_def dirtyRemove_def)
qed

theorem removal_loses_order_witness:
  "let b = Obj (sample_object ''b'' False 0); c = Obj (sample_object ''c'' False 0); a = Obj (sample_object ''a'' False 0);
       shown = \<lambda>ops. fst (GetSortedObjects sample_sorting sample_meta (dir_run sample_sorting sample_meta ops (newDirectoryCache [b, c])))
   in shown [OpUpdate [] a, OpShow] = [a, b, c] \<and> shown [OpUpdate [] a, OpShow, OpRemove ''c''] = [b, a]"
proof -
  have "remove_named ''c'' [Obj (sample_object ''b'' False 0), Obj (sample_object ''c'' False 0)] = Some [Obj (sample_object ''b'' False 0)]"
    by (simp add: sample_object_def)
  from removal_loses_order [OF this, of sample_sorting sample_meta "Obj (sample_object ''a'' False 0)"] show ?thesis
    by (simp add: Let_def sort_objs_def sample_meta_def sample_config_def sample_driver_def SortFiles_def ExtractFolder_def sample_sorting_def
        files_less_def sample_object_def)
qed

text \<open>C25: Deleting a directory from the cache terminates and removes exactly the cached directories that can be reached from it
  through cached listings, and exactly the cached links of the files that these listings show; every other entry of these and of the other
  caches stays as it is.\<close>

theorem deleteDirectoryTree_exact:
  "map_of (kEntries (dirCache (deleteDirectoryTree key cm))) k =
     (if k \<in> cached_below cm key then None else map_of (kEntries (dirCache cm)) k) \<and>
   map_of (tEntries (linkCache (deleteDirectoryTree key cm))) l =
     (if l \<in> links_below cm key then None else map_of (tEntries (linkCache cm)) l) \<and>
   without_entries (deleteDirectoryTree key cm) = without_entries cm"
  using delete_tree_exact [of key cm k] delete_links_exact [of key cm l] delete_same by (simp add: dir_entry_def link_entry_def)

text \<open>A directory whose own listing is no longer cached hides everything below it from the deletion: a listing cached for
  one of its descendants survives and is still served.\<close>

theorem deletion_misses_descendants:
  assumes "cached_dir cm key = None"
  shows "deleteDirectoryTree key cm = cm"
  using assms by (simp add: deleteDirectoryTree_eq cached_dir_entry split: option.split)

theorem deletion_misses_descendants_witness:
  "let cm = NewCacheManager\<lparr>dirCache := keyed_SetWithTTL (keyed_SetWithTTL (dirCache NewCacheManager) 0 ''/m/a'' (newDirectoryCache [Obj (sample_object ''b'' True 0)]) 10)
        5 ''/m/a/b'' (newDirectoryCache [Obj (sample_object ''f'' False 0)]) 10\<rparr>;
       cm1 = cm\<lparr>dirCache := keyed_GC (dirCache cm) 12\<rparr>
   in map_option dc_objs (fst (dir_Get 13 ''/m/a/b'' (deleteDirectoryTree ''/m/a'' cm1))) = Some [Obj (sample_object ''f'' False 0)]"
proof -
  define cm where "cm = NewCacheManager\<lparr>dirCache := keyed_SetWithTTL (keyed_SetWithTTL (dirCache NewCacheManager) 0 ''/m/a'' (newDirectoryCache [Obj (sample_object ''b'' True 0)]) 10)
        5 ''/m/a/b'' (newDirectoryCache [Obj (sample_object ''f'' False 0)]) 10\<rparr>"
  note defs = cm_def NewCacheManager_def NewKeyedCache_def keyed_SetWithTTL_def keyed_SetWithExpirable_def keyed_GC_def drop_expired_def ExpirationTime_def dict_del_def
  have "cached_dir (cm\<lparr>dirCache := keyed_GC (dirCache cm) 12\<rparr>) ''/m/a'' = None" by (simp add: cached_dir_def defs)
  from deletion_misses_descendants [OF this] show ?thesis
    by (simp add: Let_def cm_def [symmetric]) (simp add: dir_Get_def keyed_Get_def defs newDirectoryCache_def)
qed

end
