(* ===== verification/Storage_Ops.thy ===== *)
theory Storage_Ops
  imports Op_Cache
begin

text \<open>
  Operations on one storage: \<open>internal/op/fs.go\<close>.  The driver is a record of functions on a world of its own, an optional
  interface of the source being a function that may be absent.  The world also tells the time, which therefore passes
  whenever the driver works.  Wrapping an error in a message or a stack keeps its cause, so only the cause is modelled.
  A goroutine that the code starts is an entry of \<open>events\<close>.  A call of \<open>singleflight.Do\<close> runs its function, unless the
  same call is already in progress below it on the stack, which then waits for itself.  An operation that waits for
  itself or panics has the result \<open>None\<close>.
\<close>

unbundle bit_operations_syntax

section \<open>The model\<close>

datatype op_error =
    StorageNotInit string | ObjectNotFound | ObjectAlreadyExists | NotFolder | NotFile | PermissionDenied | NotImplement
  | NotSupport | ConflictingLinkLifecycle | OpMsg string

record ListArgs =
  laReqPath :: string
  laS3ShowPlaceholder :: bool
  laRefresh :: bool
  laWithStorageDetails :: bool
  laSkipHook :: bool

abbreviation list_args :: "bool \<Rightarrow> bool \<Rightarrow> ListArgs" where
  "list_args refresh skipHook \<equiv>
     \<lparr>laReqPath = [], laS3ShowPlaceholder = False, laRefresh = refresh, laWithStorageDetails = False, laSkipHook = skipHook\<rparr>"

record LinkArgs =
  linkIP :: string
  linkHeader :: "(string \<times> string list) list"
  linkType :: string
  linkRedirect :: bool

text \<open>What a file streamer tells about itself; \<open>fExist\<close> is the object it overwrites.\<close>

record FileStream =
  fName :: string
  fSize :: int
  fModTime :: int
  fCreateTime :: int
  fExist :: "Obj option"

datatype op_event = HookObjs string "Obj list" | HookDir string bool | FileClosed string

text \<open>A driver method in its two forms: returning the new object, or only an error.\<close>

datatype ('r, 'p) drv_method = WithResult 'r | Plain 'p | Missing

type_synonym ('w, 'a) call = "'w \<Rightarrow> (op_error + 'a) \<times> 'w"

type_synonym 'w result_call = "'w \<Rightarrow> (Obj option \<times> op_error option) \<times> 'w"

type_synonym 'w plain_call = "'w \<Rightarrow> op_error option \<times> 'w"

record 'w op_driver = DriverMeta +
  d_List :: "Obj \<Rightarrow> ListArgs \<Rightarrow> ('w, Obj list) call"
  d_GetRoot :: "('w, Obj) call option"
  d_RootId :: "string option"
  d_RootPath :: "string option"
  d_Get :: "(string \<Rightarrow> ('w, Obj) call) option"
  d_Link :: "Obj \<Rightarrow> LinkArgs \<Rightarrow> closers_heap \<Rightarrow> 'w \<Rightarrow> (op_error + Link option) \<times> closers_heap \<times> 'w"
  d_ResolveLinkCacheMode :: "(string \<Rightarrow> 8 word) option"
  d_MakeDir :: "(Obj \<Rightarrow> string \<Rightarrow> 'w result_call, Obj \<Rightarrow> string \<Rightarrow> 'w plain_call) drv_method"
  d_Move :: "(Obj \<Rightarrow> Obj \<Rightarrow> 'w result_call, Obj \<Rightarrow> Obj \<Rightarrow> 'w plain_call) drv_method"
  d_Rename :: "(Obj \<Rightarrow> string \<Rightarrow> 'w result_call, Obj \<Rightarrow> string \<Rightarrow> 'w plain_call) drv_method"
  d_Copy :: "(Obj \<Rightarrow> Obj \<Rightarrow> 'w result_call, Obj \<Rightarrow> Obj \<Rightarrow> 'w plain_call) drv_method"
  d_Remove :: "(Obj \<Rightarrow> 'w plain_call) option"
  d_Put :: "(Obj \<Rightarrow> FileStream \<Rightarrow> 'w result_call, Obj \<Rightarrow> FileStream \<Rightarrow> 'w plain_call) drv_method"
  d_PutURL :: "(Obj \<Rightarrow> string \<Rightarrow> string \<Rightarrow> 'w result_call, Obj \<Rightarrow> string \<Rightarrow> string \<Rightarrow> 'w plain_call) drv_method"
  d_Other :: "(Obj \<Rightarrow> string \<Rightarrow> string \<Rightarrow> ('w, string) call) option"
  d_DirectUploadTools :: "string list option"
  d_DirectUploadInfo :: "(string \<Rightarrow> Obj \<Rightarrow> string \<Rightarrow> int \<Rightarrow> ('w, string) call) option"

text \<open>The surroundings: the mapping of file names, glob patterns, the clock, buffering of a stream of unknown size, and
  whether hooks run after a write.\<close>

record 'w op_env =
  envSorting :: sorting
  envMappingName :: "string \<Rightarrow> string"
  envMatch :: "string \<Rightarrow> string \<Rightarrow> bool option"
  envNow :: "'w \<Rightarrow> int"
  envCacheFull :: "FileStream \<Rightarrow> FileStream"
  envSkipHook :: bool
  envNeedHook :: bool

record 'w op_state =
  world :: 'w
  caches :: CacheManager
  links :: closers_heap
  events :: "op_event list"

definition not_init :: "'a DriverMeta_scheme \<Rightarrow> bool" where
  "not_init drv \<longleftrightarrow> CheckStatus (drv_Config drv) \<and> Status (drv_Storage drv) \<noteq> WORK"

abbreviation init_error :: "'a DriverMeta_scheme \<Rightarrow> op_error" where
  "init_error drv \<equiv> StorageNotInit (Status (drv_Storage drv))"

definition on_world :: "('w, 'a) call \<Rightarrow> 'w op_state \<Rightarrow> (op_error + 'a) \<times> 'w op_state" where
  "on_world f st = (let (r, w) = f (world st) in (r, st\<lparr>world := w\<rparr>))"

definition on_caches :: "(CacheManager \<Rightarrow> CacheManager) \<Rightarrow> 'w op_state \<Rightarrow> 'w op_state" where
  "on_caches f st = st\<lparr>caches := f (caches st)\<rparr>"

definition op_emit :: "op_event \<Rightarrow> 'w op_state \<Rightarrow> 'w op_state" where
  "op_emit e st = st\<lparr>events := events st @ [e]\<rparr>"

subsection \<open>Names\<close>

definition wrapObjName :: "'w op_env \<Rightarrow> 'w op_driver \<Rightarrow> Obj \<Rightarrow> Obj" where
  "wrapObjName env drv obj = (if d_Get drv = None then WrapObjName (envMappingName env) obj else obj)"

definition wrapObjsName :: "'w op_env \<Rightarrow> 'w op_driver \<Rightarrow> Obj list \<Rightarrow> Obj list" where
  "wrapObjsName env drv objs = (if d_Get drv = None then WrapObjsName (envMappingName env) objs else objs)"

subsection \<open>List and Get\<close>

text \<open>A listing from the cache.\<close>

definition cached_list :: "'w op_env \<Rightarrow> 'w op_driver \<Rightarrow> string \<Rightarrow> 'w op_state \<Rightarrow> Obj list option \<times> 'w op_state" where
  "cached_list env drv key st =
     (case dir_Get (envNow env (world st)) key (caches st) of
        (None, c) \<Rightarrow> (None, st\<lparr>caches := c\<rparr>)
      | (Some dc, c) \<Rightarrow>
          let (objs, dc') = GetSortedObjects (envSorting env) drv dc
          in (Some objs, st\<lparr>caches := dir_update key (\<lambda>_. dc') c\<rparr>))"

text \<open>The loop over the custom cache policies.\<close>

fun policy_ttl :: "(string \<Rightarrow> string \<Rightarrow> bool option) \<Rightarrow> string \<Rightarrow> string list \<Rightarrow> int \<Rightarrow> int" where
  "policy_ttl glob path [] ttl = ttl"
| "policy_ttl glob path (configPolicy # rest) ttl =
     (let (pattern, ttlstr, ok) = Cut (TrimSpace configPolicy) CHR '':''
      in if \<not> ok then policy_ttl glob path rest ttl
         else case glob pattern path of
           Some True \<Rightarrow> (case ParseInt ttlstr of (configTtl, None) \<Rightarrow> configTtl | (_, Some _) \<Rightarrow> policy_ttl glob path rest ttl)
         | _ \<Rightarrow> policy_ttl glob path rest ttl)"

definition list_ttl :: "'w op_env \<Rightarrow> 'w op_driver \<Rightarrow> string \<Rightarrow> int" where
  "list_ttl env drv path =
     (let policies = CustomCachePolicies (drv_Storage drv); ttl = CacheExpiration (drv_Storage drv)
      in if policies \<noteq> [] then policy_ttl (envMatch env) path (Split (CHR 0x0A) policies) ttl else ttl)"

text \<open>The function that \<open>list\<close> runs under \<open>listG\<close>, once the directory has been found.\<close>

definition list_fetch :: "'w op_env \<Rightarrow> 'w op_driver \<Rightarrow> string \<Rightarrow> ListArgs \<Rightarrow> Obj \<Rightarrow> 'w op_state \<Rightarrow> (op_error + Obj list) \<times> 'w op_state" where
  "list_fetch env drv path args dir st =
     (if \<not> IsDir dir then (Inl NotFolder, st)
      else case on_world (d_List drv dir args) st of
        (Inl err, st1) \<Rightarrow> (Inl err, st1)
      | (Inr files0, st1) \<Rightarrow>
          let key = Key drv path;
              files = sort_objs (envSorting env) drv (wrapObjsName env drv files0);
              st2 = (if laSkipHook args then st1 else op_emit (HookObjs key files) st1);
              st3 = (if NoCache (drv_Config drv) then st2
                     else if files \<noteq> []
                     then on_caches (\<lambda>cm. cm\<lparr>dirCache := keyed_SetWithTTL (dirCache cm) (envNow env (world st2)) key (newDirectoryCache files)
                            (wrap64 (Minute * list_ttl env drv path))\<rparr>) st2
                     else on_caches (deleteDirectoryTree key) st2)
          in (Inr files, st3))"

definition RootName :: string where "RootName = ''root''"

definition root_obj :: "string \<Rightarrow> string \<Rightarrow> int \<Rightarrow> Obj" where
  "root_obj i p modified =
     Obj \<lparr>oID = i, oPath = p, oName = RootName, oSize = 0, oDuration = 0, oModified = modified, oCtime = None, oIsFolder = True, oMask = Locked\<rparr>"

definition get_root :: "'w op_driver \<Rightarrow> 'w op_state \<Rightarrow> (op_error + Obj) \<times> 'w op_state" where
  "get_root drv st =
     (case d_GetRoot drv of
        Some getRoot \<Rightarrow> on_world getRoot st
      | None \<Rightarrow>
          (case (d_RootId drv, d_RootPath drv) of
             (Some i, _) \<Rightarrow> (Inr (root_obj i [] (Modified (drv_Storage drv))), st)
           | (None, Some p) \<Rightarrow> (Inr (root_obj [] p (Modified (drv_Storage drv))), st)
           | (None, None) \<Rightarrow> (Inl (OpMsg ''please implement GetRooter or IRootPath or IRootId interface''), st)))"

text \<open>The driver's own lookup; \<open>None\<close> when the listing has to decide.\<close>

definition try_getter :: "'w op_driver \<Rightarrow> string \<Rightarrow> 'w op_state \<Rightarrow> (op_error + Obj) option \<times> 'w op_state" where
  "try_getter drv path st =
     (case d_Get drv of
        None \<Rightarrow> (None, st)
      | Some g \<Rightarrow>
          (case on_world (g path) st of
             (Inr obj, st1) \<Rightarrow> (Some (Inr obj), st1)
           | (Inl err, st1) \<Rightarrow> (if err \<noteq> NotImplement \<and> err \<noteq> NotSupport then Some (Inl err) else None, st1)))"

definition find_named :: "string \<Rightarrow> Obj list \<Rightarrow> Obj option" where
  "find_named name objs = find (\<lambda>f. GetName f = name) objs"

definition is_temp :: "bool \<Rightarrow> Obj \<Rightarrow> bool" where
  "is_temp excludeTemp f \<longleftrightarrow> excludeTemp \<and> ObjHasMask f Temp"

text \<open>The validator that \<open>Get\<close> hands to \<open>list\<close>; the object it finds in the list that it accepts is the result.\<close>

definition find_validator :: "string \<Rightarrow> bool \<Rightarrow> Obj list \<Rightarrow> op_error option" where
  "find_validator name excludeTemp objs =
     (case find_named name objs of Some f \<Rightarrow> if is_temp excludeTemp f then Some ObjectNotFound else None | None \<Rightarrow> None)"

definition accepts :: "(Obj list \<Rightarrow> op_error option) option \<Rightarrow> Obj list \<Rightarrow> op_error option" where
  "accepts validator objs = (case validator of None \<Rightarrow> None | Some v \<Rightarrow> v objs)"

definition served :: "(Obj list \<Rightarrow> op_error option) option \<Rightarrow> Obj list option \<Rightarrow> Obj list option" where
  "served validator hit = (case hit of Some objs \<Rightarrow> if accepts validator objs = None then Some objs else None | None \<Rightarrow> None)"

definition validated :: "(Obj list \<Rightarrow> op_error option) option \<Rightarrow> (op_error + Obj list) \<times> 'w op_state \<Rightarrow> (op_error + Obj list) \<times> 'w op_state" where
  "validated validator r =
     (case r of
        (Inl err, st) \<Rightarrow> (Inl err, st)
      | (Inr objs, st) \<Rightarrow> (case accepts validator objs of Some err \<Rightarrow> (Inl err, st) | None \<Rightarrow> (Inr objs, st)))"

function (sequential) op_list ::
  "'w op_env \<Rightarrow> 'w op_driver \<Rightarrow> string \<Rightarrow> ListArgs \<Rightarrow> (Obj list \<Rightarrow> op_error option) option \<Rightarrow> 'w op_state \<Rightarrow> (op_error + Obj list) \<times> 'w op_state"
  and op_Get :: "'w op_env \<Rightarrow> 'w op_driver \<Rightarrow> string \<Rightarrow> bool \<Rightarrow> 'w op_state \<Rightarrow> (op_error + Obj) \<times> 'w op_state" where
  "op_list env drv path0 args validator st =
     (if not_init drv then (Inl (init_error drv), st)
      else let path = FixAndCleanPath path0; key = Key drv path;
               (hit, st1) = (if laRefresh args then (None, st) else cached_list env drv key st)
           in case served validator hit of
             Some objs \<Rightarrow> (Inr objs, st1)
           | None \<Rightarrow>
               (case op_Get env drv path True st1 of
                  (Inl err, st2) \<Rightarrow> (Inl err, st2)
                | (Inr dir, st2) \<Rightarrow> validated validator (list_fetch env drv path args (UnwrapObjName dir) st2)))"
| "op_Get env drv path0 excludeTemp st =
     (if not_init drv then (Inl (init_error drv), st)
      else let path = FixAndCleanPath path0
           in if path = ''/'' then get_root drv st
              else let (dir, name) = PathSplit path;
                       (hit, st1) = cached_list env drv (Key drv dir) st;
                       found = (case hit of Some files \<Rightarrow> find_named name files | None \<Rightarrow> None);
                       refreshList = (found \<noteq> None)
                   in if refreshList \<and> \<not> is_temp excludeTemp (the found) then (Inr (the found), st1)
                      else case try_getter drv path st1 of
                        (Some r, st2) \<Rightarrow> (r, st2)
                      | (None, st2) \<Rightarrow>
                          if hit = None \<or> refreshList
                          then (case op_list env drv dir (list_args refreshList False) (Some (find_validator name excludeTemp)) st2 of
                                  (Inr objs, st3) \<Rightarrow> (case find_named name objs of Some f \<Rightarrow> (Inr f, st3) | None \<Rightarrow> (Inl ObjectNotFound, st3))
                                | (Inl _, st3) \<Rightarrow> (Inl ObjectNotFound, st3))
                          else (Inl ObjectNotFound, st2))"
  by pat_completeness auto

termination
proof (relation "measure (case_sum (\<lambda>(env, drv, path, args, v, st). 2 * length (fix_comps path) + 1) (\<lambda>(env, drv, path, x, st). 2 * length (fix_comps path)))", goal_cases)
  case (3 env drv path0 excludeTemp st path x dir name)
  then have "fix_comps dir = butlast (fix_comps path0)" "fix_comps path0 \<noteq> []"
    using fix_comps_split_dir [of path0 dir name] by (simp_all add: FixAndCleanPath_root)
  then show ?case by (cases "fix_comps path0" rule: rev_cases) auto
qed auto

definition op_List :: "'w op_env \<Rightarrow> 'w op_driver \<Rightarrow> string \<Rightarrow> ListArgs \<Rightarrow> 'w op_state \<Rightarrow> (op_error + Obj list) \<times> 'w op_state" where
  "op_List env drv path args st = op_list env drv path args None st"

definition GetUnwrap :: "'w op_env \<Rightarrow> 'w op_driver \<Rightarrow> string \<Rightarrow> 'w op_state \<Rightarrow> (op_error + Obj) \<times> 'w op_state" where
  "GetUnwrap env drv path st =
     (case op_Get env drv path True st of (Inl err, st1) \<Rightarrow> (Inl err, st1) | (Inr obj, st1) \<Rightarrow> (Inr (UnwrapObjName obj), st1))"

subsection \<open>Changing what a storage holds\<close>

text \<open>A driver method with its arguments; a missing one is \<open>NotImplement\<close>.\<close>

definition run_method :: "('w result_call, 'w plain_call) drv_method \<Rightarrow> 'w op_state \<Rightarrow> (Obj option \<times> op_error option) \<times> 'w op_state" where
  "run_method m st =
     (case m of
        WithResult f \<Rightarrow> (let (r, w) = f (world st) in (r, st\<lparr>world := w\<rparr>))
      | Plain f \<Rightarrow> (let (err, w) = f (world st) in ((None, err), st\<lparr>world := w\<rparr>))
      | Missing \<Rightarrow> ((None, Some NotImplement), st))"

definition temp_object :: "string \<Rightarrow> int \<Rightarrow> int \<Rightarrow> int \<Rightarrow> bool \<Rightarrow> Obj" where
  "temp_object name sz modified ctime folder =
     Obj \<lparr>oID = [], oPath = [], oName = name, oSize = sz, oDuration = 0, oModified = modified, oCtime = Some ctime, oIsFolder = folder, oMask = Temp\<rparr>"

text \<open>Putting an object into a directory if that is cached.\<close>

definition put_in_dir :: "int \<Rightarrow> string \<Rightarrow> string \<Rightarrow> Obj \<Rightarrow> CacheManager \<Rightarrow> CacheManager" where
  "put_in_dir now key oldName obj cm =
     (case dir_Get now key cm of (None, c) \<Rightarrow> c | (Some _, c) \<Rightarrow> dir_update key (UpdateObject oldName obj) c)"

definition write_hook :: "'w op_env \<Rightarrow> string \<Rightarrow> bool \<Rightarrow> 'w op_state \<Rightarrow> 'w op_state" where
  "write_hook env dirPath recursive st = (if envSkipHook env \<or> \<not> envNeedHook env then st else op_emit (HookDir dirPath recursive) st)"

text \<open>The end of \<open>MakeDir\<close>, when the parent exists.\<close>

definition make_in :: "'w op_env \<Rightarrow> 'w op_driver \<Rightarrow> string \<Rightarrow> string \<Rightarrow> 'w op_state \<Rightarrow> op_error option \<times> 'w op_state" where
  "make_in env drv parentPath dirName st =
     (case GetUnwrap env drv parentPath st of
        (Inl err, st1) \<Rightarrow> (Some err, st1)
      | (Inr parentDir, st1) \<Rightarrow>
          if \<not> IsDir parentDir then (Some NotFolder, st1)
          else if ObjHasMask parentDir NoWrite then (Some PermissionDenied, st1)
          else case run_method (map_drv_method (\<lambda>f. f parentDir dirName) (\<lambda>f. f parentDir dirName) (d_MakeDir drv)) st1 of
            ((newObj, err), st2) \<Rightarrow>
              if err \<noteq> None \<and> err \<noteq> Some ObjectAlreadyExists then (err, st2)
              else if NoCache (drv_Config drv) then (None, st2)
              else let t = envNow env (world st2);
                       obj = (case newObj of None \<Rightarrow> temp_object dirName 0 t t True | Some x \<Rightarrow> x)
                   in (None, on_caches (put_in_dir t (Key drv parentPath) [] (wrapObjName env drv obj)) st2))"

text \<open>\<open>flight\<close> is the list of the keys for which a call of \<open>mkdirG.Do\<close> is in progress on the stack.\<close>

function (sequential) MakeDir ::
  "'w op_env \<Rightarrow> 'w op_driver \<Rightarrow> string list \<Rightarrow> string \<Rightarrow> 'w op_state \<Rightarrow> (op_error option \<times> 'w op_state) option" where
  "MakeDir env drv flight path0 st =
     (if not_init drv then Some (Some (init_error drv), st)
      else let path = FixAndCleanPath path0; key = Key drv path
           in if key \<in> set flight then None
              else case op_Get env drv path False st of
                (Inr f, st1) \<Rightarrow> Some (if IsDir f then None else Some (OpMsg ''file exists''), st1)
              | (Inl err, st1) \<Rightarrow>
                  if err \<noteq> ObjectNotFound then Some (Some err, st1)
                  else let (parentPath, dirName) = PathSplit path
                       in case MakeDir env drv (key # flight) parentPath st1 of
                         None \<Rightarrow> None
                       | Some (Some err, st2) \<Rightarrow> Some (Some err, st2)
                       | Some (None, st2) \<Rightarrow> Some (make_in env drv parentPath dirName st2))"
  by pat_completeness auto

termination
proof (relation "measures [\<lambda>(env, drv, flight, path, st). length (fix_comps path),
    \<lambda>(env, drv, flight, path, st). if Key drv (FixAndCleanPath path) \<in> set flight then 0 else 1]", goal_cases)
  case (2 env drv flight path0 st path key r err st1 x parentPath dirName)
  then have p: "PathSplit (FixAndCleanPath path0) = (parentPath, dirName)" and k: "Key drv (FixAndCleanPath path0) \<notin> set flight"
    by simp_all
  show ?case
  proof (cases "fix_comps path0 = []")
    case True
    then have "parentPath = ''/''" "FixAndCleanPath path0 = ''/''" using p FixAndCleanPath_root [of path0] by (auto simp: PathSplit_def)
    then show ?thesis using k 2(2,3) True by (simp add: FixAndCleanPath_eq [of "''/''"])
  next
    case False
    then show ?thesis using fix_comps_split_dir [OF p] by (cases "fix_comps path0" rule: rev_cases) auto
  qed
qed auto

definition move_caches :: "'w op_env \<Rightarrow> 'w op_driver \<Rightarrow> int \<Rightarrow> string \<Rightarrow> string \<Rightarrow> Obj \<Rightarrow> Obj option \<Rightarrow> CacheManager \<Rightarrow> CacheManager" where
  "move_caches env drv now srcKey dstKey srcRawObj newObj cm0 =
     (let name = GetName srcRawObj;
          cm = (if \<not> IsDir srcRawObj then link_DeleteKey (PathJoin dstKey name) (link_DeleteKey (PathJoin srcKey name) cm0) else cm0)
      in if NoCache (drv_Config drv) then cm
         else let cm1 = (case dir_Get now srcKey cm of
                (None, c) \<Rightarrow> c
              | (Some _, c) \<Rightarrow> dir_update srcKey (RemoveObject name) (if IsDir srcRawObj then deleteDirectoryTree (PathJoin srcKey name) c else c))
              in put_in_dir now dstKey name (case newObj of None \<Rightarrow> ObjWrapMask srcRawObj Temp | Some x \<Rightarrow> wrapObjName env drv x) cm1)"

definition Move :: "'w op_env \<Rightarrow> 'w op_driver \<Rightarrow> string \<Rightarrow> string \<Rightarrow> 'w op_state \<Rightarrow> op_error option \<times> 'w op_state" where
  "Move env drv srcPath0 dstDirPath0 st =
     (if not_init drv then (Some (init_error drv), st)
      else let srcPath = FixAndCleanPath srcPath0
           in if PathEqual srcPath ''/'' then (Some (OpMsg ''move root folder is not allowed''), st)
              else let srcDirPath = Dir srcPath; dstDirPath = FixAndCleanPath dstDirPath0
                   in if dstDirPath = srcDirPath then (Some (OpMsg ''move in place''), st)
                      else case op_Get env drv srcPath True st of
                        (Inl err, st1) \<Rightarrow> (Some err, st1)
                      | (Inr srcRawObj, st1) \<Rightarrow>
                          if ObjHasMask srcRawObj NoMove then (Some PermissionDenied, st1)
                          else let srcObj = UnwrapObjName srcRawObj
                               in case GetUnwrap env drv dstDirPath st1 of
                                 (Inl err, st2) \<Rightarrow> (Some err, st2)
                               | (Inr dstDir, st2) \<Rightarrow>
                                   if ObjHasMask dstDir NoWrite then (Some PermissionDenied, st2)
                                   else case run_method (map_drv_method (\<lambda>f. f srcObj dstDir) (\<lambda>f. f srcObj dstDir) (d_Move drv)) st2 of
                                     ((newObj, Some err), st3) \<Rightarrow> (Some err, st3)
                                   | ((newObj, None), st3) \<Rightarrow>
                                       let st4 = on_caches (move_caches env drv (envNow env (world st3)) (Key drv srcDirPath) (Key drv dstDirPath) srcRawObj newObj) st3
                                       in (None, if \<not> IsDir srcObj then write_hook env dstDirPath False st4
                                                 else write_hook env (PathJoin dstDirPath (GetName srcObj)) True st4))"

definition rename_caches :: "'w op_env \<Rightarrow> 'w op_driver \<Rightarrow> int \<Rightarrow> string \<Rightarrow> Obj \<Rightarrow> string \<Rightarrow> Obj option \<Rightarrow> CacheManager \<Rightarrow> CacheManager" where
  "rename_caches env drv now dirKey srcRawObj dstName newObj cm0 =
     (let oldName = GetName srcRawObj;
          cm = (if \<not> IsDir srcRawObj then link_DeleteKey (PathJoin dirKey dstName) (link_DeleteKey (PathJoin dirKey oldName) cm0) else cm0)
      in if NoCache (drv_Config drv) then cm
         else case dir_Get now dirKey cm of
           (None, c) \<Rightarrow> c
         | (Some _, c) \<Rightarrow>
             let c1 = (if IsDir srcRawObj then deleteDirectoryTree (PathJoin dirKey oldName) c else c);
                 obj = (case newObj of None \<Rightarrow> ObjWrapMask (ObjWrapName dstName (UnwrapObjName srcRawObj)) Temp | Some x \<Rightarrow> x)
             in dir_update dirKey (UpdateObject oldName (wrapObjName env drv obj)) c1)"

definition Rename :: "'w op_env \<Rightarrow> 'w op_driver \<Rightarrow> string \<Rightarrow> string \<Rightarrow> 'w op_state \<Rightarrow> op_error option \<times> 'w op_state" where
  "Rename env drv srcPath0 dstName st =
     (if not_init drv then (Some (init_error drv), st)
      else let srcPath = FixAndCleanPath srcPath0
           in if PathEqual srcPath ''/'' then (Some (OpMsg ''rename root folder is not allowed''), st)
              else case op_Get env drv srcPath True st of
                (Inl err, st1) \<Rightarrow> (Some err, st1)
              | (Inr srcRawObj, st1) \<Rightarrow>
                  if ObjHasMask srcRawObj NoRename then (Some PermissionDenied, st1)
                  else let srcObj = UnwrapObjName srcRawObj
                       in case run_method (map_drv_method (\<lambda>f. f srcObj dstName) (\<lambda>f. f srcObj dstName) (d_Rename drv)) st1 of
                         ((newObj, Some err), st2) \<Rightarrow> (Some err, st2)
                       | ((newObj, None), st2) \<Rightarrow>
                           let st3 = on_caches (rename_caches env drv (envNow env (world st2)) (Key drv (Dir srcPath)) srcRawObj dstName newObj) st2;
                               dstDirPath = Dir srcPath
                           in (None, if \<not> IsDir srcObj then write_hook env dstDirPath False st3
                                     else write_hook env (PathJoin dstDirPath (GetName srcObj)) True st3))"

definition copy_caches :: "'w op_env \<Rightarrow> 'w op_driver \<Rightarrow> int \<Rightarrow> string \<Rightarrow> Obj \<Rightarrow> Obj option \<Rightarrow> CacheManager \<Rightarrow> CacheManager" where
  "copy_caches env drv now dstKey srcRawObj newObj cm0 =
     (let name = GetName srcRawObj;
          cm = (if \<not> IsDir srcRawObj then link_DeleteKey (PathJoin dstKey name) cm0 else cm0)
      in if NoCache (drv_Config drv) then cm
         else put_in_dir now dstKey name (case newObj of None \<Rightarrow> ObjWrapMask srcRawObj Temp | Some x \<Rightarrow> wrapObjName env drv x) cm)"

definition Copy :: "'w op_env \<Rightarrow> 'w op_driver \<Rightarrow> string \<Rightarrow> string \<Rightarrow> 'w op_state \<Rightarrow> op_error option \<times> 'w op_state" where
  "Copy env drv srcPath0 dstDirPath0 st =
     (if not_init drv then (Some (init_error drv), st)
      else let srcPath = FixAndCleanPath srcPath0; dstDirPath = FixAndCleanPath dstDirPath0
           in if dstDirPath = Dir srcPath then (Some (OpMsg ''copy in place''), st)
              else case op_Get env drv srcPath True st of
                (Inl err, st1) \<Rightarrow> (Some err, st1)
              | (Inr srcRawObj, st1) \<Rightarrow>
                  let srcObj = UnwrapObjName srcRawObj
                  in case GetUnwrap env drv dstDirPath st1 of
                    (Inl err, st2) \<Rightarrow> (Some err, st2)
                  | (Inr dstDir, st2) \<Rightarrow>
                      if ObjHasMask dstDir NoWrite then (Some PermissionDenied, st2)
                      else case run_method (map_drv_method (\<lambda>f. f srcObj dstDir) (\<lambda>f. f srcObj dstDir) (d_Copy drv)) st2 of
                        ((newObj, Some err), st3) \<Rightarrow> (Some err, st3)
                      | ((newObj, None), st3) \<Rightarrow>
                          let st4 = on_caches (copy_caches env drv (envNow env (world st3)) (Key drv dstDirPath) srcRawObj newObj) st3
                          in (None, if \<not> IsDir srcObj then write_hook env dstDirPath False st4
                                    else write_hook env (PathJoin dstDirPath (GetName srcObj)) True st4))"

definition Remove :: "'w op_env \<Rightarrow> 'w op_driver \<Rightarrow> string \<Rightarrow> 'w op_state \<Rightarrow> op_error option \<times> 'w op_state" where
  "Remove env drv path0 st =
     (if not_init drv then (Some (init_error drv), st)
      else let path = FixAndCleanPath path0
           in if PathEqual path ''/'' then (Some (OpMsg ''delete root folder is not allowed''), st)
              else case op_Get env drv path True st of
                (Inl err, st1) \<Rightarrow> (if err = ObjectNotFound then None else Some err, st1)
              | (Inr rawObj, st1) \<Rightarrow>
                  if ObjHasMask rawObj NoRemove then (Some PermissionDenied, st1)
                  else (case d_Remove drv of
                          None \<Rightarrow> (Some NotImplement, st1)
                        | Some rm \<Rightarrow>
                            (case rm (UnwrapObjName rawObj) (world st1) of
                               (Some err, w) \<Rightarrow> (Some err, st1\<lparr>world := w\<rparr>)
                             | (None, w) \<Rightarrow> (None, on_caches (removeDirectoryObject drv (envNow env w) (Dir path) rawObj) (st1\<lparr>world := w\<rparr>)))))"

subsection \<open>Uploads\<close>

text \<open>\<open>strings.Replace\<close> with a count of one.\<close>

definition ReplaceFirst :: "string \<Rightarrow> string \<Rightarrow> string \<Rightarrow> string" where
  "ReplaceFirst s old new = (case Index s old of None \<Rightarrow> s | Some i \<Rightarrow> take i s @ new @ drop (i + length old) s)"

text \<open>Slicing at the index -1 is a panic.\<close>

definition urlTreeSplitLineFormPath :: "string \<Rightarrow> (string \<times> string) may_panic" where
  "urlTreeSplitLineFormPath path0 =
     (let path = ReplaceFirst (ReplaceFirst path0 ''https:/'' ''https://'') ''http:/'' ''http://''
      in map_option (\<lambda>(pp, file). (if pp = [] then ''/'' else pp, file))
           (if Contains path '':https:/'' \<or> Contains path '':http:/''
            then let fPath = hd (Split (CHR '':'') path); pp = fst (PathSplit fPath) in Some (pp, drop (length pp) path)
            else if Contains path ''/https:/'' \<or> Contains path ''/http:/''
            then map_option (\<lambda>index. (take index path, drop (index + 1) path))
                   (case Index path ''/http://'' of Some i \<Rightarrow> Some i | None \<Rightarrow> Index path ''/https://'')
            else Some (PathSplit path)))"

definition zero_time :: int where
  "zero_time = - 62135596800 * 1000000000"

definition url_file :: "string \<Rightarrow> FileStream" where
  "url_file link = \<lparr>fName = link, fSize = 0, fModTime = zero_time, fCreateTime = zero_time, fExist = None\<rparr>"

definition put_caches :: "'w op_env \<Rightarrow> 'w op_driver \<Rightarrow> int \<Rightarrow> string \<Rightarrow> string \<Rightarrow> Obj \<Rightarrow> CacheManager \<Rightarrow> CacheManager" where
  "put_caches env drv now dstPath dstDirPath obj cm0 =
     (let cm = link_DeleteKey (Key drv dstPath) cm0; newObj = wrapObjName env drv obj
      in if NoCache (drv_Config drv) then cm else put_in_dir now (Key drv dstDirPath) (GetName newObj) newObj cm)"

text \<open>What happens to an object that is already there: removed when its size is 0, moved aside, or noted for overwriting.\<close>

definition temp_name :: "FileStream \<Rightarrow> string" where
  "temp_name file = fName file @ ''.openlist_to_delete''"

definition put_clear :: "'w op_env \<Rightarrow> 'w op_driver \<Rightarrow> string \<Rightarrow> FileStream \<Rightarrow> Obj option \<Rightarrow> 'w op_state \<Rightarrow> op_error option \<times> FileStream \<times> 'w op_state" where
  "put_clear env drv dstPath file fi st =
     (case fi of
        None \<Rightarrow> (None, file, st)
      | Some x \<Rightarrow>
          if GetSize x = 0 then (let (err, st1) = Remove env drv dstPath st in (err, file, st1))
          else if NoOverwriteUpload (drv_Config drv) then (let (err, st1) = Rename env drv dstPath (temp_name file) st in (err, file, st1))
          else (None, file\<lparr>fExist := Some x\<rparr>, st))"

text \<open>The upload itself and what follows it.\<close>

definition put_upload :: "'w op_env \<Rightarrow> 'w op_driver \<Rightarrow> string \<Rightarrow> FileStream \<Rightarrow> Obj option \<Rightarrow> Obj \<Rightarrow> 'w op_state \<Rightarrow> op_error option \<times> 'w op_state" where
  "put_upload env drv dstDirPath file fi parentDir st =
     (case run_method (map_drv_method (\<lambda>f. f parentDir file) (\<lambda>f. f parentDir file) (d_Put drv)) st of
        ((newObj, err), st1) \<Rightarrow>
          let dstPath = PathJoin dstDirPath (fName file); tempPath = PathJoin dstDirPath (temp_name file);
              st2 = (if err = None
                     then let obj = (case newObj of None \<Rightarrow> temp_object (fName file) (fSize file) (fModTime file) (fCreateTime file) False | Some x \<Rightarrow> x)
                          in write_hook env dstDirPath False (on_caches (put_caches env drv (envNow env (world st1)) dstPath dstDirPath obj) st1)
                     else st1)
          in if NoOverwriteUpload (drv_Config drv) \<and> (case fi of None \<Rightarrow> False | Some x \<Rightarrow> GetSize x > 0)
             then (if err \<noteq> None then (let (_, st3) = Rename env drv tempPath (fName file) st2 in (err, st3))
                   else Remove env drv tempPath st2)
             else (err, st2))"

text \<open>For storages that hold only indices the name carries a URL.\<close>

definition put_target :: "'w op_driver \<Rightarrow> string \<Rightarrow> FileStream \<Rightarrow> (string \<times> FileStream) may_panic" where
  "put_target drv dstDirPath file =
     (if OnlyIndices (drv_Config drv)
      then map_option (\<lambda>(d, link). (d, url_file link)) (urlTreeSplitLineFormPath (PathJoin dstDirPath (fName file)))
      else Some (dstDirPath, file))"

definition put_to ::
  "'w op_env \<Rightarrow> 'w op_driver \<Rightarrow> string \<Rightarrow> FileStream \<Rightarrow> 'w op_state \<Rightarrow> (op_error option \<times> 'w op_state) option" where
  "put_to env drv dstDirPath file1 st =
     (let dstPath = PathJoin dstDirPath (fName file1);
          (r, st1) = GetUnwrap env drv dstPath st; fi = (case r of Inl _ \<Rightarrow> None | Inr x \<Rightarrow> Some x)
      in case put_clear env drv dstPath file1 fi st1 of
        (Some err, _, st2) \<Rightarrow> Some (Some err, st2)
      | (None, file2, st2) \<Rightarrow>
          (case MakeDir env drv [] dstDirPath st2 of
             None \<Rightarrow> None
           | Some (err, st3) \<Rightarrow>
               if err \<noteq> None \<and> err \<noteq> Some ObjectAlreadyExists then Some (err, st3)
               else case GetUnwrap env drv dstDirPath st3 of
                 (Inl err, st4) \<Rightarrow> Some (Some err, st4)
               | (Inr parentDir, st4) \<Rightarrow>
                   if ObjHasMask parentDir NoWrite then Some (Some PermissionDenied, st4)
                   else let file = (if fSize file2 < 0 then envCacheFull env file2 else file2)
                        in (case d_Put drv of
                              Missing \<Rightarrow> Some (Some NotImplement, st4)
                            | _ \<Rightarrow> Some (put_upload env drv dstDirPath file fi parentDir st4))))"

definition put_body :: "'w op_env \<Rightarrow> 'w op_driver \<Rightarrow> string \<Rightarrow> FileStream \<Rightarrow> 'w op_state \<Rightarrow> (op_error option \<times> 'w op_state) option" where
  "put_body env drv dstDirPath0 file0 st =
     (if not_init drv then Some (Some (init_error drv), st)
      else case put_target drv dstDirPath0 file0 of
        None \<Rightarrow> None
      | Some (dstDirPath1, file1) \<Rightarrow> put_to env drv (FixAndCleanPath dstDirPath1) file1 st)"

text \<open>The deferred \<open>file.Close()\<close> happens on every way out.\<close>

definition Put :: "'w op_env \<Rightarrow> 'w op_driver \<Rightarrow> string \<Rightarrow> FileStream \<Rightarrow> 'w op_state \<Rightarrow> (op_error option \<times> 'w op_state) option" where
  "Put env drv dstDirPath file st =
     map_option (\<lambda>(err, st1). (err, op_emit (FileClosed (fName file)) st1)) (put_body env drv dstDirPath file st)"

definition PutURL :: "'w op_env \<Rightarrow> 'w op_driver \<Rightarrow> string \<Rightarrow> string \<Rightarrow> string \<Rightarrow> 'w op_state \<Rightarrow> (op_error option \<times> 'w op_state) option" where
  "PutURL env drv dstDirPath0 dstName url st =
     (if not_init drv then Some (Some (init_error drv), st)
      else let dstDirPath = FixAndCleanPath dstDirPath0; dstPath = PathJoin dstDirPath dstName
           in case op_Get env drv dstPath False st of
             (Inr _, st1) \<Rightarrow> Some (Some ObjectAlreadyExists, st1)
           | (Inl _, st1) \<Rightarrow>
               (case MakeDir env drv [] dstDirPath st1 of
                  None \<Rightarrow> None
                | Some (Some err, st2) \<Rightarrow> Some (Some err, st2)
                | Some (None, st2) \<Rightarrow>
                    (case GetUnwrap env drv dstDirPath st2 of
                       (Inl err, st3) \<Rightarrow> Some (Some err, st3)
                     | (Inr dstDir, st3) \<Rightarrow>
                         if ObjHasMask dstDir NoWrite then Some (Some PermissionDenied, st3)
                         else (case run_method (map_drv_method (\<lambda>f. f dstDir dstName url) (\<lambda>f. f dstDir dstName url) (d_PutURL drv)) st3 of
                                 ((newObj, Some err), st4) \<Rightarrow> Some (Some err, st4)
                               | ((newObj, None), st4) \<Rightarrow>
                                   let t = envNow env (world st4);
                                       obj = (case newObj of None \<Rightarrow> temp_object dstName 0 t t False | Some x \<Rightarrow> x);
                                       st5 = on_caches (put_caches env drv t dstPath dstDirPath obj) st4
                                   in Some (None, if NoCache (drv_Config drv) then st5 else write_hook env dstDirPath False st5)))))"

definition GetDirectUploadTools :: "'w op_driver \<Rightarrow> string list" where
  "GetDirectUploadTools drv =
     (case d_DirectUploadTools drv of None \<Rightarrow> [] | Some tools \<Rightarrow> if not_init drv then [] else tools)"

text \<open>The end of \<open>GetDirectUploadInfo\<close>: making the directory and asking the driver.\<close>

definition direct_info ::
  "'w op_env \<Rightarrow> 'w op_driver \<Rightarrow> (Obj \<Rightarrow> ('w, string) call) \<Rightarrow> string \<Rightarrow> 'w op_state \<Rightarrow> ((op_error + string) \<times> 'w op_state) option" where
  "direct_info env drv ask dstDirPath st =
     (case MakeDir env drv [] dstDirPath st of
        None \<Rightarrow> None
      | Some (Some err, st1) \<Rightarrow> Some (Inl err, st1)
      | Some (None, st1) \<Rightarrow>
          (case GetUnwrap env drv dstDirPath st1 of
             (Inl err, st2) \<Rightarrow> Some (Inl err, st2)
           | (Inr dstDir, st2) \<Rightarrow> Some (on_world (ask dstDir) st2)))"

definition GetDirectUploadInfo ::
  "'w op_env \<Rightarrow> 'w op_driver \<Rightarrow> string \<Rightarrow> string \<Rightarrow> string \<Rightarrow> int \<Rightarrow> bool \<Rightarrow> 'w op_state \<Rightarrow> ((op_error + string) \<times> 'w op_state) option" where
  "GetDirectUploadInfo env drv tool dstDirPath0 dstName fileSize overwrite st =
     (case d_DirectUploadInfo drv of
        None \<Rightarrow> Some (Inl NotImplement, st)
      | Some du \<Rightarrow>
          if not_init drv then Some (Inl (init_error drv), st)
          else let dstDirPath = FixAndCleanPath dstDirPath0; dstPath = PathJoin dstDirPath dstName;
                   ask = (\<lambda>dstDir. du tool dstDir dstName fileSize)
               in if overwrite then direct_info env drv ask dstDirPath st
                  else case op_Get env drv dstPath False st of
                    (Inr _, st1) \<Rightarrow> Some (Inl ObjectAlreadyExists, st1)
                  | (Inl err, st1) \<Rightarrow>
                      if err \<noteq> ObjectNotFound then Some (Inl err, st1) else direct_info env drv ask dstDirPath st1)"

definition op_Other :: "'w op_env \<Rightarrow> 'w op_driver \<Rightarrow> string \<Rightarrow> string \<Rightarrow> string \<Rightarrow> 'w op_state \<Rightarrow> (op_error + string) \<times> 'w op_state" where
  "op_Other env drv path mthd data st =
     (if not_init drv then (Inl (init_error drv), st)
      else case d_Other drv of
        None \<Rightarrow> (Inl NotImplement, st)
      | Some oth \<Rightarrow>
          (case GetUnwrap env drv path st of
             (Inl err, st1) \<Rightarrow> (Inl err, st1)
           | (Inr obj, st1) \<Rightarrow> on_world (oth obj mthd data) st1))"

subsection \<open>Links\<close>

text \<open>\<open>Header.Get\<close> for a key in canonical form.\<close>

definition header_Get :: "(string \<times> string list) list \<Rightarrow> string \<Rightarrow> string" where
  "header_Get h key = (case map_of h key of Some (v # _) \<Rightarrow> v | _ \<Rightarrow> [])"

definition LinkCacheIP :: "8 word" where "LinkCacheIP = push_bit 0 1"

definition LinkCacheUA :: "8 word" where "LinkCacheUA = push_bit 1 1"

text \<open>The mode is an \<open>int8\<close>; -1 asks the driver, whose type assertion panics when it has no such method.\<close>

definition link_mode :: "'w op_driver \<Rightarrow> string \<Rightarrow> (8 word) may_panic" where
  "link_mode drv path =
     (if LinkCacheMode (drv_Config drv) = - 1 then map_option (\<lambda>f. f path) (d_ResolveLinkCacheMode drv)
      else Some (LinkCacheMode (drv_Config drv)))"

definition type_key :: "8 word \<Rightarrow> LinkArgs \<Rightarrow> string" where
  "type_key mode args =
     (let k0 = (if linkRedirect args then ''redirect/'' @ linkType args else ''proxy/'' @ linkType args);
          k1 = (if mode AND LinkCacheIP \<noteq> 0 then k0 @ ''/'' @ linkIP args else k0)
      in if mode AND LinkCacheUA \<noteq> 0 then k1 @ ''/'' @ header_Get (linkHeader args) ''User-Agent'' else k1)"

text \<open>The function under \<open>linkG\<close>; \<open>Inr None\<close> when the driver returned neither a link nor an error.\<close>

definition link_fetch ::
  "'w op_env \<Rightarrow> 'w op_driver \<Rightarrow> string \<Rightarrow> LinkArgs \<Rightarrow> string \<Rightarrow> string \<Rightarrow> 'w op_state \<Rightarrow> (op_error + objWithLink option) \<times> 'w op_state" where
  "link_fetch env drv path args key typeKey st =
     (case GetUnwrap env drv path st of
        (Inl err, st1) \<Rightarrow> (Inl err, st1)
      | (Inr file, st1) \<Rightarrow>
          if IsDir file then (Inl NotFile, st1)
          else case d_Link drv file args (links st1) (world st1) of
            (Inl err, h, w) \<Rightarrow> (Inl err, st1\<lparr>links := h, world := w\<rparr>)
          | (Inr None, h, w) \<Rightarrow> (Inr None, st1\<lparr>links := h, world := w\<rparr>)
          | (Inr (Some l), h, w) \<Rightarrow>
              (case admitLink l file h of
                 (None, h1) \<Rightarrow> (Inl ConflictingLinkLifecycle, st1\<lparr>links := h1, world := w\<rparr>)
               | (Some ol, h1) \<Rightarrow>
                   (Inr (Some ol), on_caches (\<lambda>cm. cm\<lparr>linkCache :=
                      (case expiration (olPolicy ol) of
                         Some ttl \<Rightarrow> link_SetTypeWithTTL (linkCache cm) (envNow env w) key typeKey ol ttl
                       | None \<Rightarrow> SetTypeWithExpirable (linkCache cm) key typeKey ol (closers_expiry (lClosers l)))\<rparr>)
                      (st1\<lparr>links := h1, world := w\<rparr>))))"

definition acquire_in :: "objWithLink \<Rightarrow> 'w op_state \<Rightarrow> bool \<times> 'w op_state" where
  "acquire_in ol st = (let (ok, h) = ol_acquire ol (links st) in (ok, st\<lparr>links := h\<rparr>))"

text \<open>The loop at the end of \<open>Link\<close>, which may run forever.\<close>

partial_function (option) link_loop ::
  "('w op_state \<Rightarrow> (op_error + objWithLink option) \<times> 'w op_state) \<Rightarrow> 'w op_state \<Rightarrow> ((op_error + Link \<times> Obj) \<times> 'w op_state) option" where
  "link_loop fn st =
     (case fn st of
        (Inl err, st1) \<Rightarrow> Some (Inl err, st1)
      | (Inr None, st1) \<Rightarrow> Some (Inl ObjectNotFound, st1)
      | (Inr (Some ol), st1) \<Rightarrow>
          (case acquire_in ol st1 of (ok, st2) \<Rightarrow> if ok then Some (Inr (olLink ol, olObj ol), st2) else link_loop fn st2))"

definition cached_link :: "'w op_env \<Rightarrow> string \<Rightarrow> string \<Rightarrow> 'w op_state \<Rightarrow> objWithLink option \<times> 'w op_state" where
  "cached_link env key typeKey st =
     (let (r, c) = GetType (linkCache (caches st)) (observe (envNow env (world st)) (links st)) key typeKey
      in (r, st\<lparr>caches := (caches st)\<lparr>linkCache := c\<rparr>\<rparr>))"

definition op_Link ::
  "'w op_env \<Rightarrow> 'w op_driver \<Rightarrow> string \<Rightarrow> LinkArgs \<Rightarrow> 'w op_state \<Rightarrow> ((op_error + Link \<times> Obj) \<times> 'w op_state) option" where
  "op_Link env drv path args st =
     (if not_init drv then Some (Inl (init_error drv), st)
      else case link_mode drv path of
        None \<Rightarrow> None
      | Some mode \<Rightarrow>
          let typeKey = type_key mode args; key = Key drv path;
              fn = link_fetch env drv path args key typeKey;
              (hit, st1) = cached_link env key typeKey st
          in case hit of
            None \<Rightarrow> link_loop fn st1
          | Some ol \<Rightarrow>
              (case acquire_in ol st1 of (ok, st2) \<Rightarrow> if ok then Some (Inr (olLink ol, olObj ol), st2) else link_loop fn st2))"

end
