(* ===== verification/Storage_Ops_Spec.thy ===== *)
theory Storage_Ops_Spec
  imports Storage_Ops
begin

text \<open>
  What the operations on a storage promise.  The first part shows that a driver is only ever handed objects that it or a storage
  it is balanced with has made, and
  that the masks of objects are respected: the outcome of every operation is the same for two drivers that differ
  only outside these arguments.
\<close>

section \<open>Operations as data\<close>

datatype op_call =
    CList string ListArgs | CGet string bool | CMakeDir string | CMove string string | CRename string string | CCopy string string
  | CRemove string | CPut string FileStream | CPutURL string string string | COther string string string
  | CDirectUploadInfo string string string int bool | CLink string LinkArgs

datatype op_answer =
    AnObjs "op_error + Obj list" | AnObj "op_error + Obj" | AnErr "op_error option" | AnInfo "op_error + string" | AnLink "op_error + Link \<times> Obj"

definition answer :: "('r \<Rightarrow> op_answer) \<Rightarrow> 'r \<times> 'w op_state \<Rightarrow> op_answer \<times> 'w op_state" where
  "answer f r = (f (fst r), snd r)"

primrec run_op :: "'w op_env \<Rightarrow> 'w op_driver \<Rightarrow> op_call \<Rightarrow> 'w op_state \<Rightarrow> (op_answer \<times> 'w op_state) option" where
  "run_op env drv (CList path args) st = Some (answer AnObjs (op_List env drv path args st))"
| "run_op env drv (CGet path ex) st = Some (answer AnObj (op_Get env drv path ex st))"
| "run_op env drv (CMakeDir path) st = map_option (answer AnErr) (MakeDir env drv [] path st)"
| "run_op env drv (CMove src dst) st = Some (answer AnErr (Move env drv src dst st))"
| "run_op env drv (CRename src name) st = Some (answer AnErr (Rename env drv src name st))"
| "run_op env drv (CCopy src dst) st = Some (answer AnErr (Copy env drv src dst st))"
| "run_op env drv (CRemove path) st = Some (answer AnErr (Remove env drv path st))"
| "run_op env drv (CPut dir file) st = map_option (answer AnErr) (Put env drv dir file st)"
| "run_op env drv (CPutURL dir name url) st = map_option (answer AnErr) (PutURL env drv dir name url st)"
| "run_op env drv (COther path m data) st = Some (answer AnInfo (op_Other env drv path m data st))"
| "run_op env drv (CDirectUploadInfo tool dir name sz ow) st = map_option (answer AnInfo) (GetDirectUploadInfo env drv tool dir name sz ow st)"
| "run_op env drv (CLink path args) st = map_option (answer AnLink) (op_Link env drv path args st)"

text \<open>The states that operations on the storages of a set lead to, from empty caches; the world may change on its own.  Storages that are
  balanced against each other have the same keys in the caches, so one of them finds there what another has listed.\<close>

inductive ops_reach :: "'w op_env \<Rightarrow> 'w op_driver set \<Rightarrow> 'w op_state \<Rightarrow> bool" for env Ds where
  start: "caches st = NewCacheManager \<Longrightarrow> ops_reach env Ds st"
| op: "ops_reach env Ds st \<Longrightarrow> drv \<in> Ds \<Longrightarrow> run_op env drv c st = Some (a, st') \<Longrightarrow> ops_reach env Ds st'"
| world: "ops_reach env Ds st \<Longrightarrow> ops_reach env Ds (st\<lparr>world := w\<rparr>)"
| links: "ops_reach env Ds st \<Longrightarrow> ops_reach env Ds (st\<lparr>links := h\<rparr>)"
| collect: "ops_reach env Ds st \<Longrightarrow> ops_reach env Ds (on_caches (\<lambda>cm. cm\<lparr>dirCache := keyed_GC (dirCache cm) now\<rparr>) st)"
| drop_tree: "ops_reach env Ds st \<Longrightarrow> drv \<in> Ds \<Longrightarrow> ops_reach env Ds (on_caches (DeleteDirectoryTree drv path) st)"
| clear: "ops_reach env Ds st \<Longrightarrow> ops_reach env Ds (on_caches ClearAll st)"

section \<open>What a driver may assume\<close>

text \<open>The results of a method satisfy \<open>P\<close>.\<close>

definition gives :: "(Obj \<Rightarrow> bool) \<Rightarrow> ('w result_call, 'w plain_call) drv_method \<Rightarrow> bool" where
  "gives P m \<longleftrightarrow> (\<forall>f w x err w'. m = WithResult f \<longrightarrow> f w = ((Some x, err), w') \<longrightarrow> P x)"

text \<open>\<open>P\<close> holds of everything that the driver makes of objects that satisfy \<open>P\<close>.\<close>

definition owns :: "(Obj \<Rightarrow> bool) \<Rightarrow> 'w op_driver \<Rightarrow> bool" where
  "owns P drv \<longleftrightarrow>
     (\<forall>x. P x \<longrightarrow> P (UnwrapObjName x)) \<and>
     (\<forall>st x st'. get_root drv st = (Inr x, st') \<longrightarrow> P x) \<and>
     (\<forall>g p w x w'. d_Get drv = Some g \<longrightarrow> g p w = (Inr x, w') \<longrightarrow> P x) \<and>
     (\<forall>x a w ys w'. P x \<longrightarrow> d_List drv x a w = (Inr ys, w') \<longrightarrow> (\<forall>y \<in> set ys. P y)) \<and>
     (\<forall>x n. P x \<longrightarrow> gives P (map_drv_method (\<lambda>f. f x n) (\<lambda>f. f x n) (d_MakeDir drv))) \<and>
     (\<forall>x y. P x \<longrightarrow> P y \<longrightarrow> gives P (map_drv_method (\<lambda>f. f x y) (\<lambda>f. f x y) (d_Move drv))) \<and>
     (\<forall>x n. P x \<longrightarrow> gives P (map_drv_method (\<lambda>f. f x n) (\<lambda>f. f x n) (d_Rename drv))) \<and>
     (\<forall>x y. P x \<longrightarrow> P y \<longrightarrow> gives P (map_drv_method (\<lambda>f. f x y) (\<lambda>f. f x y) (d_Copy drv))) \<and>
     (\<forall>x f. P x \<longrightarrow> gives P (map_drv_method (\<lambda>g. g x f) (\<lambda>g. g x f) (d_Put drv))) \<and>
     (\<forall>x n u. P x \<longrightarrow> gives P (map_drv_method (\<lambda>f. f x n u) (\<lambda>f. f x n u) (d_PutURL drv)))"

text \<open>Two drivers that may differ only on objects that do not satisfy \<open>P\<close> or that carry a mask against the change.\<close>

definition writable :: "(Obj \<Rightarrow> bool) \<Rightarrow> Obj \<Rightarrow> bool" where
  "writable P x \<longleftrightarrow> P x \<and> \<not> ObjHasMask x NoWrite"

definition agree :: "(Obj \<Rightarrow> bool) \<Rightarrow> 'w op_driver \<Rightarrow> 'w op_driver \<Rightarrow> bool" where
  "agree P drv drv' \<longleftrightarrow>
     drv_Config drv' = drv_Config drv \<and> drv_Storage drv' = drv_Storage drv \<and> d_GetRoot drv' = d_GetRoot drv \<and>
     d_RootId drv' = d_RootId drv \<and> d_RootPath drv' = d_RootPath drv \<and> d_Get drv' = d_Get drv \<and>
     d_ResolveLinkCacheMode drv' = d_ResolveLinkCacheMode drv \<and>
     (\<forall>x. P x \<longrightarrow> d_List drv' x = d_List drv x) \<and>
     (\<forall>x. P x \<longrightarrow> d_Link drv' x = d_Link drv x) \<and>
     (\<forall>x n. writable P x \<longrightarrow> map_drv_method (\<lambda>f. f x n) (\<lambda>f. f x n) (d_MakeDir drv') = map_drv_method (\<lambda>f. f x n) (\<lambda>f. f x n) (d_MakeDir drv)) \<and>
     (\<forall>x y. P x \<longrightarrow> \<not> ObjHasMask x NoMove \<longrightarrow> writable P y \<longrightarrow>
        map_drv_method (\<lambda>f. f x y) (\<lambda>f. f x y) (d_Move drv') = map_drv_method (\<lambda>f. f x y) (\<lambda>f. f x y) (d_Move drv)) \<and>
     (\<forall>x n. P x \<longrightarrow> \<not> ObjHasMask x NoRename \<longrightarrow>
        map_drv_method (\<lambda>f. f x n) (\<lambda>f. f x n) (d_Rename drv') = map_drv_method (\<lambda>f. f x n) (\<lambda>f. f x n) (d_Rename drv)) \<and>
     (\<forall>x y. P x \<longrightarrow> writable P y \<longrightarrow>
        map_drv_method (\<lambda>f. f x y) (\<lambda>f. f x y) (d_Copy drv') = map_drv_method (\<lambda>f. f x y) (\<lambda>f. f x y) (d_Copy drv)) \<and>
     (\<forall>x. P x \<longrightarrow> \<not> ObjHasMask x NoRemove \<longrightarrow> map_option (\<lambda>f. f x) (d_Remove drv') = map_option (\<lambda>f. f x) (d_Remove drv)) \<and>
     (\<forall>x f. writable P x \<longrightarrow> map_drv_method (\<lambda>g. g x f) (\<lambda>g. g x f) (d_Put drv') = map_drv_method (\<lambda>g. g x f) (\<lambda>g. g x f) (d_Put drv)) \<and>
     (d_Put drv' = Missing \<longleftrightarrow> d_Put drv = Missing) \<and>
     (d_Other drv' = None \<longleftrightarrow> d_Other drv = None) \<and> (d_DirectUploadInfo drv' = None \<longleftrightarrow> d_DirectUploadInfo drv = None) \<and>
     (\<forall>x n u. writable P x \<longrightarrow>
        map_drv_method (\<lambda>f. f x n u) (\<lambda>f. f x n u) (d_PutURL drv') = map_drv_method (\<lambda>f. f x n u) (\<lambda>f. f x n u) (d_PutURL drv)) \<and>
     (\<forall>x. P x \<longrightarrow> map_option (\<lambda>f. f x) (d_Other drv') = map_option (\<lambda>f. f x) (d_Other drv)) \<and>
     (\<forall>x t n s. P x \<longrightarrow> map_option (\<lambda>f. f t x n s) (d_DirectUploadInfo drv') = map_option (\<lambda>f. f t x n s) (d_DirectUploadInfo drv))"

section \<open>The cached objects\<close>

definition obj_ok :: "(Obj \<Rightarrow> bool) \<Rightarrow> Obj \<Rightarrow> bool" where
  "obj_ok P x \<longleftrightarrow> P (UnwrapObjName x) \<or> ObjHasMask x Temp"

definition dir_ok :: "(Obj \<Rightarrow> bool) \<Rightarrow> directoryCache \<Rightarrow> bool" where
  "dir_ok P dc \<longleftrightarrow> dir_clean dc \<and> (\<forall>x \<in> set (dc_objs dc) \<union> set (dc_sorted dc). obj_ok P x)"

definition entries_ok :: "(Obj \<Rightarrow> bool) \<Rightarrow> (int, directoryCache) entry_map \<Rightarrow> bool" where
  "entries_ok P d \<longleftrightarrow> (\<forall>e \<in> set d. dir_ok P (entry_data (snd e)))"

definition caches_ok :: "(Obj \<Rightarrow> bool) \<Rightarrow> CacheManager \<Rightarrow> bool" where
  "caches_ok P cm \<longleftrightarrow> entries_ok P (kEntries (dirCache cm))"

abbreviation st_ok :: "(Obj \<Rightarrow> bool) \<Rightarrow> 'w op_state \<Rightarrow> bool" where
  "st_ok P st \<equiv> caches_ok P (caches st)"

lemma ObjHasMask_unwrap [simp]: "ObjHasMask (UnwrapObjName x) m = ObjHasMask x m"
  by (cases x) (simp_all add: ObjHasMask_def)

lemma set_dict_set_subset: "set (dict_set k v d) \<subseteq> insert (k, v) (set d)"
  by (induction k v d rule: dict_set.induct) auto

lemma entries_okD: "entries_ok P d \<Longrightarrow> map_of d k = Some e \<Longrightarrow> dir_ok P (entry_data e)"
  unfolding entries_ok_def by (metis map_of_SomeD snd_conv)

lemma entries_ok_set: "entries_ok P d \<Longrightarrow> dir_ok P (entry_data e) \<Longrightarrow> entries_ok P (dict_set k e d)"
  unfolding entries_ok_def using set_dict_set_subset [of k e d] by fastforce

lemma entries_ok_del: "entries_ok P d \<Longrightarrow> entries_ok P (dict_del k d)"
  by (auto simp: entries_ok_def dict_del_def)

lemma caches_ok_link [simp]: "caches_ok P (cm\<lparr>linkCache := l\<rparr>) = caches_ok P cm" "caches_ok P (link_DeleteKey k cm) = caches_ok P cm"
  by (simp_all add: caches_ok_def link_DeleteKey_def)

lemma dir_Get_ok:
  "caches_ok P cm \<Longrightarrow> dir_Get now key cm = (r, cm') \<Longrightarrow> caches_ok P cm' \<and> (\<forall>dc. r = Some dc \<longrightarrow> dir_ok P dc)"
  by (auto simp: caches_ok_def dir_Get_def keyed_Get_def keyed_Get_evict_def entries_ok_del intro: entries_okD split: option.splits if_splits)

lemma dir_update_ok:
  "caches_ok P cm \<Longrightarrow> (\<And>dc. dir_ok P dc \<Longrightarrow> dir_ok P (f dc)) \<Longrightarrow> caches_ok P (dir_update key f cm)"
  by (auto simp: caches_ok_def dir_update_def dir_modify_def intro!: entries_ok_set dest: entries_okD split: option.split)

lemma SetWithTTL_ok:
  "caches_ok P cm \<Longrightarrow> dir_ok P dc \<Longrightarrow> caches_ok P (cm\<lparr>dirCache := keyed_SetWithTTL (dirCache cm) now key dc ttl\<rparr>)"
  by (simp add: caches_ok_def keyed_SetWithTTL_def keyed_SetWithExpirable_def entries_ok_set)

lemma delete_tree_ok: "caches_ok P cm \<Longrightarrow> caches_ok P (deleteDirectoryTree key cm)"
  and delete_children_ok: "caches_ok P cm' \<Longrightarrow> caches_ok P (delete_children k os cm')"
proof (induction key cm and k os cm' rule: delete_tree_induct)
  case (present key cm e)
  then show ?case by (simp add: deleteDirectoryTree_eq caches_ok_def dir_drop_def entries_ok_del)
qed (auto simp: deleteDirectoryTree_eq)

lemma remove_named_subset: "remove_named n xs = Some ys \<Longrightarrow> set ys \<subseteq> set xs"
  by (induction n xs arbitrary: ys rule: remove_named.induct) (auto split: if_splits)

lemma replace_named_subset: "replace_named n y xs = Some ys \<Longrightarrow> set ys \<subseteq> insert y (set xs)"
  by (induction n y xs arbitrary: ys rule: replace_named.induct) (fastforce split: if_splits)+

lemma RemoveObject_ok: "dir_ok P dc \<Longrightarrow> dir_ok P (RemoveObject n dc)"
  by (auto simp: dir_ok_def dir_clean_def RemoveObject_def dirty_or dest: remove_named_subset split: option.split)

lemma UpdateObject_ok: "obj_ok P x \<Longrightarrow> dir_ok P dc \<Longrightarrow> dir_ok P (UpdateObject n x dc)"
  by (auto simp: dir_ok_def dir_clean_def UpdateObject_def dirty_or dest!: replace_named_subset split: option.split if_splits)

lemma set_sort_objs: "sorts so \<Longrightarrow> set (sort_objs so meta xs) = set xs"
  using mset_sort_objs [of so meta xs] by (metis set_mset_mset)

lemma GetSortedObjects_ok:
  "sorts so \<Longrightarrow> dir_ok P dc \<Longrightarrow> GetSortedObjects so meta dc = (xs, dc') \<Longrightarrow> dir_ok P dc' \<and> (\<forall>x \<in> set xs. obj_ok P x)"
  by (auto simp: dir_ok_def dir_clean_def GetSortedObjects_def Let_def set_sort_objs mset_sort_objs split: if_splits)

lemma newDirectoryCache_ok: "(\<forall>x \<in> set xs. obj_ok P x) \<Longrightarrow> dir_ok P (newDirectoryCache xs)"
  by (simp add: dir_ok_def dir_clean_def newDirectoryCache_def)

lemma put_in_dir_ok: "caches_ok P cm \<Longrightarrow> obj_ok P x \<Longrightarrow> caches_ok P (put_in_dir now key n x cm)"
  by (auto simp: put_in_dir_def dest: dir_Get_ok intro!: dir_update_ok UpdateObject_ok split: prod.split option.split)

lemma removeDirectoryObject_ok: "caches_ok P cm \<Longrightarrow> caches_ok P (removeDirectoryObject meta now path x cm)"
  by (auto simp: removeDirectoryObject_def Let_def dest: dir_Get_ok [rotated] intro!: dir_update_ok RemoveObject_ok delete_tree_ok split: prod.split option.split)

lemma obj_ok_temp: "obj_ok P (ObjWrapMask x Temp)" "obj_ok P (ObjWrapName n (ObjWrapMask x Temp))"
  "obj_ok P (temp_object n s m c d)" "obj_ok P (ObjWrapName k (temp_object n s m c d))"
  by (simp_all add: obj_ok_def ObjHasMask_def temp_object_def Temp_def)

section \<open>Lookup and listing\<close>

definition compat :: "(Obj \<Rightarrow> bool) \<Rightarrow> 'w op_env \<Rightarrow> 'w op_driver \<Rightarrow> 'w op_driver \<Rightarrow> bool" where
  "compat P env drv drv' \<longleftrightarrow> owns P drv \<and> sorts (envSorting env) \<and> agree P drv drv'"

lemma compat_meta:
  assumes "compat P env drv drv'"
  shows "Key drv' = Key drv" "not_init drv' = not_init drv" "drv_Config drv' = drv_Config drv" "drv_Storage drv' = drv_Storage drv"
    "GetSortedObjects so drv' = GetSortedObjects so drv" "sort_objs so drv' = sort_objs so drv" "list_ttl env drv' = list_ttl env drv"
    "wrapObjName env drv' = wrapObjName env drv" "wrapObjsName env drv' = wrapObjsName env drv" "get_root drv' = get_root drv"
    "try_getter drv' = try_getter drv" "cached_list env drv' = cached_list env drv"
proof -
  have f: "drv_Config drv' = drv_Config drv" "drv_Storage drv' = drv_Storage drv" "d_GetRoot drv' = d_GetRoot drv"
    "d_RootId drv' = d_RootId drv" "d_RootPath drv' = d_RootPath drv" "d_Get drv' = d_Get drv"
    using assms by (simp_all add: compat_def agree_def)
  show "Key drv' = Key drv" "not_init drv' = not_init drv" "drv_Config drv' = drv_Config drv" "drv_Storage drv' = drv_Storage drv"
    "GetSortedObjects so drv' = GetSortedObjects so drv" "sort_objs so drv' = sort_objs so drv" "list_ttl env drv' = list_ttl env drv"
    "wrapObjName env drv' = wrapObjName env drv" "wrapObjsName env drv' = wrapObjsName env drv" "get_root drv' = get_root drv"
    "try_getter drv' = try_getter drv" "cached_list env drv' = cached_list env drv"
    unfolding fun_eq_iff Key_def not_init_def GetSortedObjects_def sort_objs_def list_ttl_def wrapObjName_def wrapObjsName_def
      get_root_def try_getter_def cached_list_def f by simp_all
qed

lemma compat_own:
  assumes "compat P env drv drv'"
  shows "P x \<Longrightarrow> P (UnwrapObjName x)" "get_root drv st = (Inr x, st') \<Longrightarrow> P x" "d_Get drv = Some g \<Longrightarrow> g p w = (Inr x, w') \<Longrightarrow> P x"
    "P x \<Longrightarrow> d_List drv x a w = (Inr ys, w') \<Longrightarrow> y \<in> set ys \<Longrightarrow> P y" "sorts (envSorting env)" "P x \<Longrightarrow> d_List drv' x = d_List drv x"
proof -
  from assms have o: "owns P drv" and a: "agree P drv drv'" and s: "sorts (envSorting env)" by (simp_all add: compat_def)
  from o have "\<forall>x. P x \<longrightarrow> P (UnwrapObjName x)" unfolding owns_def by (elim conjE)
  moreover from o have "\<forall>st x st'. get_root drv st = (Inr x, st') \<longrightarrow> P x" unfolding owns_def by (elim conjE)
  moreover from o have "\<forall>g p w x w'. d_Get drv = Some g \<longrightarrow> g p w = (Inr x, w') \<longrightarrow> P x" unfolding owns_def by (elim conjE)
  moreover from o have "\<forall>x a w ys w'. P x \<longrightarrow> d_List drv x a w = (Inr ys, w') \<longrightarrow> (\<forall>y \<in> set ys. P y)" unfolding owns_def by (elim conjE)
  ultimately show "P x \<Longrightarrow> P (UnwrapObjName x)" "get_root drv st = (Inr x, st') \<Longrightarrow> P x" "d_Get drv = Some g \<Longrightarrow> g p w = (Inr x, w') \<Longrightarrow> P x"
    "P x \<Longrightarrow> d_List drv x a w = (Inr ys, w') \<Longrightarrow> y \<in> set ys \<Longrightarrow> P y" by blast+
  show "sorts (envSorting env)" by (rule s)
  from a have "\<forall>x. P x \<longrightarrow> d_List drv' x = d_List drv x" unfolding agree_def by (elim conjE)
  then show "P x \<Longrightarrow> d_List drv' x = d_List drv x" by blast
qed

lemma wrap_ok: "compat P env drv drv' \<Longrightarrow> P x \<Longrightarrow> obj_ok P (wrapObjName env drv x)"
  using compat_own(1) [of P env drv drv' x] by (auto simp: obj_ok_def wrapObjName_def WrapObjName_def)

lemma wrap_all_ok: "compat P env drv drv' \<Longrightarrow> \<forall>x \<in> set xs. P x \<Longrightarrow> \<forall>x \<in> set (wrapObjsName env drv xs). obj_ok P x"
  using wrap_ok [of P env drv drv'] by (auto simp: wrapObjsName_def WrapObjsName_def wrapObjName_def)

lemma cached_list_ok:
  assumes "sorts (envSorting env)" "st_ok P st" "cached_list env drv key st = (hit, st')"
  shows "st_ok P st' \<and> (\<forall>objs. hit = Some objs \<longrightarrow> (\<forall>x \<in> set objs. obj_ok P x))"
proof -
  obtain r c where g: "dir_Get (envNow env (world st)) key (caches st) = (r, c)" by (cases "dir_Get (envNow env (world st)) key (caches st)")
  from dir_Get_ok [OF assms(2) g] have c: "caches_ok P c" and d: "\<And>dc. r = Some dc \<Longrightarrow> dir_ok P dc" by auto
  show ?thesis
  proof (cases r)
    case None
    then show ?thesis using assms(3) g c by (auto simp: cached_list_def)
  next
    case (Some dc)
    obtain xs dc' where so: "GetSortedObjects (envSorting env) drv dc = (xs, dc')" by (cases "GetSortedObjects (envSorting env) drv dc")
    from GetSortedObjects_ok [OF assms(1) d [OF Some] so] have ok: "dir_ok P dc'" "\<forall>x \<in> set xs. obj_ok P x" by auto
    from assms(3) g Some so have "hit = Some xs" "st' = st\<lparr>caches := dir_update key (\<lambda>_. dc') c\<rparr>" by (auto simp: cached_list_def)
    then show ?thesis using ok dir_update_ok [OF c, of "\<lambda>_. dc'"] by simp
  qed
qed

lemma list_fetch_agree:
  assumes c: "compat P env drv drv'" and st: "st_ok P st" and dir: "P dir"
  shows "list_fetch env drv' path args dir st = list_fetch env drv path args dir st \<and> st_ok P (snd (list_fetch env drv path args dir st)) \<and>
    (\<forall>objs. fst (list_fetch env drv path args dir st) = Inr objs \<longrightarrow> (\<forall>x \<in> set objs. obj_ok P x))"
proof -
  have eq: "list_fetch env drv' path args dir st = list_fetch env drv path args dir st"
    unfolding list_fetch_def compat_meta [OF c] compat_own(6) [OF c dir] ..
  obtain r w where r: "d_List drv dir args (world st) = (r, w)" by (cases "d_List drv dir args (world st)")
  show ?thesis
  proof (cases r)
    case (Inl err)
    then show ?thesis using st eq by (simp add: list_fetch_def on_world_def r)
  next
    case (Inr files)
    let ?files = "sort_objs (envSorting env) drv (wrapObjsName env drv files)"
    have "\<forall>x \<in> set ?files. obj_ok P x"
      using wrap_all_ok [OF c, of files] compat_own(4) [OF c dir] r Inr compat_own(5) [OF c] by (auto simp: set_sort_objs)
    then show ?thesis using st eq
      by (auto simp: list_fetch_def on_world_def r Inr op_emit_def on_caches_def Let_def intro!: SetWithTTL_ok newDirectoryCache_ok delete_tree_ok)
  qed
qed

lemma try_getter_ok:
  assumes "compat P env drv drv'" "st_ok P st" "try_getter drv path st = (r, st')"
  shows "st_ok P st' \<and> (\<forall>x. r = Some (Inr x) \<longrightarrow> P x)"
  using assms(2,3) compat_own(3) [OF assms(1)]
  by (auto simp: try_getter_def on_world_def split: option.splits prod.splits sum.splits if_splits)

lemma get_root_ok:
  assumes "compat P env drv drv'" "st_ok P st" "get_root drv st = (r, st')"
  shows "st_ok P st' \<and> (\<forall>x. r = Inr x \<longrightarrow> P x)"
  using assms(2,3) compat_own(2) [OF assms(1), of st _ st']
  by (auto simp: get_root_def on_world_def split: option.splits prod.splits sum.splits if_splits)

text \<open>What agreement means for the two functions that call each other.\<close>

abbreviation list_agrees where
  "list_agrees P env drv drv' path args v st \<equiv>
     op_list env drv' path args v st = op_list env drv path args v st \<and> st_ok P (snd (op_list env drv path args v st)) \<and>
     (\<forall>objs. fst (op_list env drv path args v st) = Inr objs \<longrightarrow> (\<forall>x \<in> set objs. obj_ok P x) \<and> accepts v objs = None)"

abbreviation get_agrees where
  "get_agrees P env drv drv' path ex st \<equiv>
     op_Get env drv' path ex st = op_Get env drv path ex st \<and> st_ok P (snd (op_Get env drv path ex st)) \<and>
     (\<forall>x. fst (op_Get env drv path ex st) = Inr x \<longrightarrow> obj_ok P x \<and> (ex \<longrightarrow> P (UnwrapObjName x)))"

lemma validated_ok:
  "fst (validated v r) = Inr objs \<Longrightarrow> fst r = Inr objs \<and> accepts v objs = None" "snd (validated v r) = snd r"
  by (auto simp: validated_def split: prod.splits sum.splits option.splits)

lemma find_named_ok: "find_named n objs = Some f \<Longrightarrow> \<forall>x \<in> set objs. obj_ok P x \<Longrightarrow> obj_ok P f"
  by (auto simp: find_named_def find_Some_iff)

lemma not_temp_own: "obj_ok P f \<Longrightarrow> \<not> is_temp ex f \<Longrightarrow> ex \<longrightarrow> P (UnwrapObjName f)"
  by (auto simp: obj_ok_def is_temp_def)

lemma validator_ok: "accepts (Some (find_validator n ex)) objs = None \<Longrightarrow> find_named n objs = Some f \<Longrightarrow> \<not> is_temp ex f"
  by (auto simp: accepts_def find_validator_def split: if_splits)

declare op_list.simps [simp del] op_Get.simps [simp del] MakeDir.simps [simp del]

lemma op_list_eq:
  assumes "\<not> not_init drv" "(if laRefresh args then (None, st) else cached_list env drv (Key drv (FixAndCleanPath path)) st) = (hit, st1)"
  shows "op_list env drv path args v st =
     (case served v hit of
        Some objs \<Rightarrow> (Inr objs, st1)
      | None \<Rightarrow>
          (case op_Get env drv (FixAndCleanPath path) True st1 of
             (Inl err, st2) \<Rightarrow> (Inl err, st2)
           | (Inr dir, st2) \<Rightarrow> validated v (list_fetch env drv (FixAndCleanPath path) args (UnwrapObjName dir) st2)))"
  using assms by (simp add: op_list.simps Let_def)

definition found_in :: "string \<Rightarrow> Obj list option \<Rightarrow> Obj option" where
  "found_in name hit = (case hit of Some files \<Rightarrow> find_named name files | None \<Rightarrow> None)"

definition pick_named :: "string \<Rightarrow> (op_error + Obj list) \<times> 'w op_state \<Rightarrow> (op_error + Obj) \<times> 'w op_state" where
  "pick_named name r =
     (case r of
        (Inr objs, st) \<Rightarrow> (case find_named name objs of Some f \<Rightarrow> (Inr f, st) | None \<Rightarrow> (Inl ObjectNotFound, st))
      | (Inl _, st) \<Rightarrow> (Inl ObjectNotFound, st))"

lemma op_Get_eq:
  assumes "\<not> not_init drv" "FixAndCleanPath path \<noteq> ''/''" "PathSplit (FixAndCleanPath path) = (dir, name)"
    "cached_list env drv (Key drv dir) st = (hit, st1)" "try_getter drv (FixAndCleanPath path) st1 = (g, st2)"
  shows "op_Get env drv path ex st =
     (case found_in name hit of
        Some f \<Rightarrow>
          if \<not> is_temp ex f then (Inr f, st1)
          else (case g of
                  Some r \<Rightarrow> (r, st2)
                | None \<Rightarrow> pick_named name (op_list env drv dir (list_args True False) (Some (find_validator name ex)) st2))
      | None \<Rightarrow>
          (case g of
             Some r \<Rightarrow> (r, st2)
           | None \<Rightarrow>
               if hit = None then pick_named name (op_list env drv dir (list_args False False) (Some (find_validator name ex)) st2)
               else (Inl ObjectNotFound, st2)))"
  using assms by (simp add: op_Get.simps [of env drv path] Let_def found_in_def pick_named_def split: option.split)

lemma list_step:
  assumes c: "compat P env drv drv'" and st: "st_ok P st"
    and IH: "\<And>st. st_ok P st \<Longrightarrow> get_agrees P env drv drv' (FixAndCleanPath path) True st"
  shows "list_agrees P env drv drv' path args v st"
proof (cases "not_init drv")
  case False
  let ?path = "FixAndCleanPath path"
  obtain hit st1 where hit: "(if laRefresh args then (None, st) else cached_list env drv (Key drv ?path) st) = (hit, st1)" by (cases "if laRefresh args then (None, st) else cached_list env drv (Key drv ?path) st")
  have st1: "st_ok P st1" and objs: "\<And>objs. hit = Some objs \<Longrightarrow> \<forall>x \<in> set objs. obj_ok P x"
    using hit st cached_list_ok [OF compat_own(5) [OF c] st] by (auto split: if_splits)
  obtain r st2 where g: "op_Get env drv ?path True st1 = (r, st2)" by (cases "op_Get env drv ?path True st1")
  from IH [OF st1] g have g': "op_Get env drv' ?path True st1 = (r, st2)" and st2: "st_ok P st2" and dir: "\<And>x. r = Inr x \<Longrightarrow> P (UnwrapObjName x)" by auto
  note eqs = op_list_eq [OF False hit] op_list_eq [of drv' args st env path hit st1, unfolded compat_meta [OF c], OF False hit]
  show ?thesis
  proof (cases "served v hit")
    case (Some objs)
    then have "hit = Some objs" "accepts v objs = None" by (auto simp: served_def split: option.splits if_splits)
    then show ?thesis using Some st1 objs by (simp add: eqs)
  next
    case None
    show ?thesis
    proof (cases r)
      case (Inl err)
      then show ?thesis using None st2 by (simp add: eqs g g')
    next
      case (Inr x)
      from list_fetch_agree [OF c st2 dir [OF Inr]] show ?thesis using None Inr
        by (auto simp: eqs g g' validated_ok(2) dest: validated_ok(1))
    qed
  qed
qed (simp add: op_list.simps compat_meta [OF c] st)

lemma pick_ok:
  assumes "st_ok P (snd r)" "\<forall>objs. fst r = Inr objs \<longrightarrow> (\<forall>x \<in> set objs. obj_ok P x) \<and> accepts (Some (find_validator name ex)) objs = None"
  shows "st_ok P (snd (pick_named name r)) \<and> (\<forall>x. fst (pick_named name r) = Inr x \<longrightarrow> obj_ok P x \<and> (ex \<longrightarrow> P (UnwrapObjName x)))"
proof -
  obtain a st where r: "r = (a, st)" by (cases r)
  have "obj_ok P f \<and> (ex \<longrightarrow> P (UnwrapObjName f))" if "a = Inr objs" "find_named name objs = Some f" for objs f
    using assms(2) r that find_named_ok [OF that(2)] validator_ok [OF _ that(2)] not_temp_own [of P f ex] by simp
  then show ?thesis using assms(1) r by (auto simp: pick_named_def split: sum.split option.split)
qed

lemma get_step:
  assumes c: "compat P env drv drv'" and st: "st_ok P st"
    and IH: "\<And>dir args v st. FixAndCleanPath path \<noteq> ''/'' \<Longrightarrow> dir = fst (PathSplit (FixAndCleanPath path)) \<Longrightarrow> st_ok P st \<Longrightarrow> list_agrees P env drv drv' dir args v st"
  shows "get_agrees P env drv drv' path ex st"
proof (cases "not_init drv \<or> FixAndCleanPath path = ''/''")
  case True
  then show ?thesis using st get_root_ok [OF c st] compat_own(1) [OF c]
    by (cases "get_root drv st") (auto simp: op_Get.simps compat_meta [OF c] Let_def obj_ok_def)
next
  case False
  obtain dir name where p: "PathSplit (FixAndCleanPath path) = (dir, name)" by (cases "PathSplit (FixAndCleanPath path)")
  obtain hit st1 where hit: "cached_list env drv (Key drv dir) st = (hit, st1)" by (cases "cached_list env drv (Key drv dir) st")
  obtain g st2 where g: "try_getter drv (FixAndCleanPath path) st1 = (g, st2)" by (cases "try_getter drv (FixAndCleanPath path) st1")
  from False have n: "\<not> not_init drv" "FixAndCleanPath path \<noteq> ''/''" by auto
  note eqs = op_Get_eq [OF n p hit g] op_Get_eq [of drv' path dir name env st hit st1 g st2, unfolded compat_meta [OF c], OF n p hit g]
  from cached_list_ok [OF compat_own(5) [OF c] st hit] have st1: "st_ok P st1" and ok: "\<And>f. found_in name hit = Some f \<Longrightarrow> obj_ok P f"
    by (auto simp: found_in_def split: option.splits dest: find_named_ok)
  from try_getter_ok [OF c st1 g] have st2: "st_ok P st2" and gok: "\<And>x. g = Some (Inr x) \<Longrightarrow> P x" by auto
  have list: "list_agrees P env drv drv' dir args v st2" for args v using IH [OF n(2) _ st2, of dir] p by simp
  have pick: "st_ok P (snd (pick_named name (op_list env drv dir args (Some (find_validator name ex)) st2))) \<and>
      (\<forall>x. fst (pick_named name (op_list env drv dir args (Some (find_validator name ex)) st2)) = Inr x \<longrightarrow> obj_ok P x \<and> (ex \<longrightarrow> P (UnwrapObjName x)))" for args
    by (rule pick_ok) (use list in auto)
  have fok: "obj_ok P f \<and> (ex \<longrightarrow> P (UnwrapObjName f))" if "found_in name hit = Some f" "\<not> is_temp ex f" for f
    using ok [OF that(1)] not_temp_own [OF _ that(2)] by blast
  have gok': "obj_ok P x \<and> P (UnwrapObjName x)" if "g = Some (Inr x)" for x
    using compat_own(1) [OF c gok [OF that]] by (simp add: obj_ok_def)
  have leq: "op_list env drv' dir args v st2 = op_list env drv dir args v st2" for args v using list by blast
  show ?thesis using st1 st2 fok gok' pick unfolding eqs leq by (auto split: option.split)
qed


lemma lookup_agree:
  assumes c: "compat P env drv drv'"
  shows "length (fix_comps path) = n \<Longrightarrow> st_ok P st \<Longrightarrow> get_agrees P env drv drv' path ex st"
proof (induction n arbitrary: path ex st)
  case 0
  then show ?case by (intro get_step [OF c]) (simp_all add: FixAndCleanPath_root)
next
  case (Suc n)
  show ?case
  proof (rule get_step [OF c Suc.prems(2)])
    fix dir args v and st :: "'a op_state"
    assume d: "FixAndCleanPath path \<noteq> ''/''" "dir = fst (PathSplit (FixAndCleanPath path))" and st: "st_ok P st"
    then have "length (fix_comps (FixAndCleanPath dir)) = n"
      using fix_comps_split_dir [of path dir "snd (PathSplit (FixAndCleanPath path))"] Suc.prems(1) by simp
    from list_step [OF c st Suc.IH [OF this]] show "list_agrees P env drv drv' dir args v st" by simp
  qed
qed

lemma list_agree: "compat P env drv drv' \<Longrightarrow> st_ok P st \<Longrightarrow> list_agrees P env drv drv' path args v st"
  by (rule list_step) (auto dest: lookup_agree [OF _ refl])

lemma get_agree: "compat P env drv drv' \<Longrightarrow> st_ok P st \<Longrightarrow> get_agrees P env drv drv' path ex st"
  by (rule lookup_agree [OF _ refl])

section \<open>The operations that change a storage\<close>

lemma GetUnwrap_agree:
  assumes "compat P env drv drv'" "st_ok P st"
  shows "GetUnwrap env drv' path st = GetUnwrap env drv path st" "st_ok P (snd (GetUnwrap env drv path st))"
    "GetUnwrap env drv path st = (Inr x, st') \<Longrightarrow> P x"
  using get_agree [OF assms, of path True] by (auto simp: GetUnwrap_def split: prod.splits sum.splits)

lemma compat_methods:
  assumes "compat P env drv drv'"
  shows "writable P x \<Longrightarrow> map_drv_method (\<lambda>f. f x n) (\<lambda>f. f x n) (d_MakeDir drv') = map_drv_method (\<lambda>f. f x n) (\<lambda>f. f x n) (d_MakeDir drv)"
    and "P x \<Longrightarrow> \<not> ObjHasMask x NoMove \<Longrightarrow> writable P y \<Longrightarrow>
        map_drv_method (\<lambda>f. f x y) (\<lambda>f. f x y) (d_Move drv') = map_drv_method (\<lambda>f. f x y) (\<lambda>f. f x y) (d_Move drv)"
    and "P x \<Longrightarrow> \<not> ObjHasMask x NoRename \<Longrightarrow>
        map_drv_method (\<lambda>f. f x n) (\<lambda>f. f x n) (d_Rename drv') = map_drv_method (\<lambda>f. f x n) (\<lambda>f. f x n) (d_Rename drv)"
    and "P x \<Longrightarrow> writable P y \<Longrightarrow> map_drv_method (\<lambda>f. f x y) (\<lambda>f. f x y) (d_Copy drv') = map_drv_method (\<lambda>f. f x y) (\<lambda>f. f x y) (d_Copy drv)"
    and "P x \<Longrightarrow> \<not> ObjHasMask x NoRemove \<Longrightarrow> map_option (\<lambda>f. f x) (d_Remove drv') = map_option (\<lambda>f. f x) (d_Remove drv)"
    and "writable P x \<Longrightarrow> map_drv_method (\<lambda>g. g x file) (\<lambda>g. g x file) (d_Put drv') = map_drv_method (\<lambda>g. g x file) (\<lambda>g. g x file) (d_Put drv)"
    and "d_Put drv' = Missing \<longleftrightarrow> d_Put drv = Missing"
    and "writable P x \<Longrightarrow> map_drv_method (\<lambda>f. f x n u) (\<lambda>f. f x n u) (d_PutURL drv') = map_drv_method (\<lambda>f. f x n u) (\<lambda>f. f x n u) (d_PutURL drv)"
    and "P x \<Longrightarrow> map_option (\<lambda>f. f x) (d_Other drv') = map_option (\<lambda>f. f x) (d_Other drv)"
    and "P x \<Longrightarrow> map_option (\<lambda>f. f t x n s) (d_DirectUploadInfo drv') = map_option (\<lambda>f. f t x n s) (d_DirectUploadInfo drv)"
    and "P x \<Longrightarrow> d_Link drv' x = d_Link drv x" and "d_ResolveLinkCacheMode drv' = d_ResolveLinkCacheMode drv"
    and "d_Other drv' = None \<longleftrightarrow> d_Other drv = None" and "d_DirectUploadInfo drv' = None \<longleftrightarrow> d_DirectUploadInfo drv = None"
  using assms by (simp_all add: compat_def agree_def)

lemma compat_gives:
  assumes "compat P env drv drv'"
  shows "P x \<Longrightarrow> gives P (map_drv_method (\<lambda>f. f x n) (\<lambda>f. f x n) (d_MakeDir drv))"
    "P x \<Longrightarrow> P y \<Longrightarrow> gives P (map_drv_method (\<lambda>f. f x y) (\<lambda>f. f x y) (d_Move drv))"
    "P x \<Longrightarrow> gives P (map_drv_method (\<lambda>f. f x n) (\<lambda>f. f x n) (d_Rename drv))"
    "P x \<Longrightarrow> P y \<Longrightarrow> gives P (map_drv_method (\<lambda>f. f x y) (\<lambda>f. f x y) (d_Copy drv))"
    "P x \<Longrightarrow> gives P (map_drv_method (\<lambda>g. g x file) (\<lambda>g. g x file) (d_Put drv))"
    "P x \<Longrightarrow> gives P (map_drv_method (\<lambda>f. f x n u) (\<lambda>f. f x n u) (d_PutURL drv))"
  using assms by (simp_all add: compat_def owns_def)

lemma run_method_ok:
  "gives P m \<Longrightarrow> run_method m st = ((newObj, err), st') \<Longrightarrow> caches st' = caches st \<and> (\<forall>x. newObj = Some x \<longrightarrow> P x)"
  by (auto simp: run_method_def gives_def split: drv_method.splits prod.splits)

lemma on_caches_ok: "st_ok P st \<Longrightarrow> (\<And>cm. caches_ok P cm \<Longrightarrow> caches_ok P (f cm)) \<Longrightarrow> st_ok P (on_caches f st)"
  by (simp add: on_caches_def)

lemma emit_ok [simp]: "st_ok P (op_emit e st) = st_ok P st" "st_ok P (write_hook env d r st) = st_ok P st"
  by (simp_all add: op_emit_def write_hook_def)

text \<open>An object that goes into a cached directory: the driver's own, or a placeholder.\<close>

lemma placed_ok:
  assumes "compat P env drv drv'" "\<forall>x. newObj = Some x \<longrightarrow> P x" "obj_ok P t" "\<And>n. obj_ok P (ObjWrapName n t)"
  shows "obj_ok P (wrapObjName env drv (case newObj of None \<Rightarrow> t | Some x \<Rightarrow> x))"
    "obj_ok P (case newObj of None \<Rightarrow> t | Some x \<Rightarrow> wrapObjName env drv x)"
proof -
  have "obj_ok P (wrapObjName env drv t)" using assms(3,4) by (simp add: wrapObjName_def WrapObjName_def)
  then show "obj_ok P (wrapObjName env drv (case newObj of None \<Rightarrow> t | Some x \<Rightarrow> x))"
    "obj_ok P (case newObj of None \<Rightarrow> t | Some x \<Rightarrow> wrapObjName env drv x)"
    using assms wrap_ok [OF assms(1)] by (auto split: option.split)
qed

lemma make_in_agree:
  assumes c: "compat P env drv drv'" and st: "st_ok P st"
  shows "make_in env drv' parentPath dirName st = make_in env drv parentPath dirName st \<and> st_ok P (snd (make_in env drv parentPath dirName st))"
proof -
  note g = GetUnwrap_agree [OF c st, where path = parentPath]
  obtain r st1 where r: "GetUnwrap env drv parentPath st = (r, st1)" by (cases "GetUnwrap env drv parentPath st")
  have st1: "st_ok P st1" using g(2) r by simp
  show ?thesis
  proof (cases "\<exists>x. r = Inr x \<and> IsDir x \<and> \<not> ObjHasMask x NoWrite")
    case False
    then show ?thesis using st1 by (cases r) (auto simp: make_in_def g(1) r)
  next
    case True
    then obtain x where x: "r = Inr x" "IsDir x" "\<not> ObjHasMask x NoWrite" by blast
    have p: "P x" using g(3) r x(1) by blast
    then have m: "map_drv_method (\<lambda>f. f x dirName) (\<lambda>f. f x dirName) (d_MakeDir drv') = map_drv_method (\<lambda>f. f x dirName) (\<lambda>f. f x dirName) (d_MakeDir drv)"
      using x by (intro compat_methods [OF c]) (simp add: writable_def)
    obtain newObj err st2 where run: "run_method (map_drv_method (\<lambda>f. f x dirName) (\<lambda>f. f x dirName) (d_MakeDir drv)) st1 = ((newObj, err), st2)" by (metis surj_pair)
    from run_method_ok [OF compat_gives(1) [OF c p] run] st1 have st2: "st_ok P st2" "\<forall>y. newObj = Some y \<longrightarrow> P y" by auto
    show ?thesis using st2 x
      by (auto simp: make_in_def g(1) r m run compat_meta [OF c] Let_def intro!: on_caches_ok put_in_dir_ok placed_ok [OF c st2(2)] obj_ok_temp)
  qed
qed

lemma MakeDir_agree:
  "compat P env drv drv' \<Longrightarrow> st_ok P st \<Longrightarrow>
     MakeDir env drv' flight path st = MakeDir env drv flight path st \<and> (\<forall>r st'. MakeDir env drv flight path st = Some (r, st') \<longrightarrow> st_ok P st')"
proof (induction env drv flight path st rule: MakeDir.induct)
  case (1 env drv flight path st)
  note c = 1(2) and st = 1(3)
  let ?path = "FixAndCleanPath path"
  note eq = MakeDir.simps [of env drv flight path st] MakeDir.simps [of env drv' flight path st] compat_meta [OF c]
  note g = get_agree [OF c st, of ?path False]
  obtain r st1 where r: "op_Get env drv ?path False st = (r, st1)" by (cases "op_Get env drv ?path False st")
  with g have r': "op_Get env drv' ?path False st = (r, st1)" and st1: "st_ok P st1" by auto
  show ?case
  proof (cases "not_init drv \<or> Key drv ?path \<in> set flight \<or> r \<noteq> Inl ObjectNotFound")
    case True
    then show ?thesis using st st1 by (cases r) (auto simp: eq r r' Let_def)
  next
    case False
    obtain parent name where p: "PathSplit ?path = (parent, name)" by (cases "PathSplit ?path")
    have IH: "MakeDir env drv' (Key drv ?path # flight) parent st1 = MakeDir env drv (Key drv ?path # flight) parent st1 \<and>
        (\<forall>r st'. MakeDir env drv (Key drv ?path # flight) parent st1 = Some (r, st') \<longrightarrow> st_ok P st')"
      by (rule 1(1) [OF _ refl refl]) (use False r p c st1 in auto)
    have m: "make_in env drv' parent name st2 = make_in env drv parent name st2" "make_in env drv parent name st2 = (a, st3) \<Longrightarrow> st_ok P st3"
      if "st_ok P st2" for st2 a st3 using make_in_agree [OF c that, of parent name] by auto
    show ?thesis
    proof (cases "MakeDir env drv (Key drv ?path # flight) parent st1")
      case (Some q)
      obtain e st2 where q: "q = (e, st2)" by (cases q)
      with Some IH have "st_ok P st2" by blast
      from m [OF this] show ?thesis using False IH Some q by (cases e) (auto simp: eq r r' p Let_def)
    qed (use False IH in \<open>simp add: eq r r' p Let_def\<close>)
  qed
qed

lemma move_caches_ok:
  assumes "compat P env drv drv'" "caches_ok P cm" "\<forall>x. newObj = Some x \<longrightarrow> P x"
  shows "caches_ok P (move_caches env drv now srcKey dstKey src newObj cm)"
proof -
  have "caches_ok P (case dir_Get now srcKey c of
      (None, c) \<Rightarrow> c
    | (Some _, c) \<Rightarrow> dir_update srcKey (RemoveObject n) (if d then deleteDirectoryTree k c else c))" if "caches_ok P c" for c d n k
    using dir_Get_ok [OF that] by (auto intro!: dir_update_ok RemoveObject_ok delete_tree_ok split: prod.split option.split)
  then show ?thesis using assms(2) by (auto simp: move_caches_def Let_def intro!: put_in_dir_ok placed_ok(2) [OF assms(1,3)] obj_ok_temp)
qed

lemma rename_caches_ok:
  assumes "compat P env drv drv'" "caches_ok P cm" "\<forall>x. newObj = Some x \<longrightarrow> P x"
  shows "caches_ok P (rename_caches env drv now key src n newObj cm)"
proof -
  let ?obj = "wrapObjName env drv (case newObj of None \<Rightarrow> ObjWrapMask (ObjWrapName n (UnwrapObjName src)) Temp | Some x \<Rightarrow> x)"
  have o: "obj_ok P ?obj" by (intro placed_ok(1) [OF assms(1,3)] obj_ok_temp)
  have "caches_ok P (case dir_Get now key c of
      (None, c) \<Rightarrow> c
    | (Some _, c) \<Rightarrow> dir_update key (UpdateObject m ?obj) (if d then deleteDirectoryTree k c else c))" if "caches_ok P c" for c d m k
    using dir_Get_ok [OF that] o by (auto intro!: dir_update_ok UpdateObject_ok delete_tree_ok split: prod.split option.split)
  then show ?thesis using assms(2) unfolding rename_caches_def Let_def by simp
qed

lemma copy_caches_ok:
  assumes "compat P env drv drv'" "caches_ok P cm" "\<forall>x. newObj = Some x \<longrightarrow> P x"
  shows "caches_ok P (copy_caches env drv now key src newObj cm)"
  using assms(2) by (auto simp: copy_caches_def Let_def intro!: put_in_dir_ok placed_ok(2) [OF assms(1,3)] obj_ok_temp)

lemma put_caches_ok:
  assumes "compat P env drv drv'" "caches_ok P cm" "obj_ok P (wrapObjName env drv x)"
  shows "caches_ok P (put_caches env drv now p d x cm)"
  using assms(2,3) by (auto simp: put_caches_def Let_def intro!: put_in_dir_ok)

lemma caches_meta:
  assumes "compat P env drv drv'"
  shows "move_caches env drv' = move_caches env drv" "rename_caches env drv' = rename_caches env drv" "copy_caches env drv' = copy_caches env drv"
    "put_caches env drv' = put_caches env drv" "removeDirectoryObject drv' = removeDirectoryObject drv"
  unfolding fun_eq_iff move_caches_def rename_caches_def copy_caches_def put_caches_def removeDirectoryObject_def compat_meta [OF assms]
  by simp_all

lemma Remove_agree:
  assumes c: "compat P env drv drv'" and st: "st_ok P st"
  shows "Remove env drv' path st = Remove env drv path st \<and> st_ok P (snd (Remove env drv path st))"
proof -
  note g = get_agree [OF c st, of "FixAndCleanPath path" True]
  obtain r st1 where r: "op_Get env drv (FixAndCleanPath path) True st = (r, st1)" by (cases "op_Get env drv (FixAndCleanPath path) True st")
  with g have r': "op_Get env drv' (FixAndCleanPath path) True st = (r, st1)" and st1: "st_ok P st1" by auto
  show ?thesis
  proof (cases "\<exists>x. r = Inr x \<and> \<not> ObjHasMask x NoRemove")
    case False
    then show ?thesis using st st1 by (cases r) (auto simp: Remove_def r r' compat_meta [OF c] Let_def)
  next
    case True
    then obtain x where x: "r = Inr x" "\<not> ObjHasMask x NoRemove" by blast
    then have "P (UnwrapObjName x)" using g r by simp
    from compat_methods(5) [OF c this] x have m: "map_option (\<lambda>f. f (UnwrapObjName x)) (d_Remove drv') = map_option (\<lambda>f. f (UnwrapObjName x)) (d_Remove drv)" by simp
    have s: "st_ok P (st1\<lparr>world := w\<rparr>)" for w using st1 by simp
    show ?thesis
    proof (cases "d_Remove drv")
      case None
      then show ?thesis using m x st st1 by (auto simp: Remove_def r r' compat_meta [OF c] Let_def)
    next
      case (Some rm)
      with m obtain rm' where "d_Remove drv' = Some rm'" "rm' (UnwrapObjName x) = rm (UnwrapObjName x)" by auto
      then show ?thesis using Some x st s
        by (auto simp: Remove_def r r' compat_meta [OF c] caches_meta [OF c] Let_def intro!: on_caches_ok removeDirectoryObject_ok split: prod.split option.split)
    qed
  qed
qed

lemma Rename_agree:
  assumes c: "compat P env drv drv'" and st: "st_ok P st"
  shows "Rename env drv' path n st = Rename env drv path n st \<and> st_ok P (snd (Rename env drv path n st))"
proof -
  note g = get_agree [OF c st, of "FixAndCleanPath path" True]
  obtain r st1 where r: "op_Get env drv (FixAndCleanPath path) True st = (r, st1)" by (cases "op_Get env drv (FixAndCleanPath path) True st")
  with g have r': "op_Get env drv' (FixAndCleanPath path) True st = (r, st1)" and st1: "st_ok P st1" by auto
  show ?thesis
  proof (cases "\<exists>x. r = Inr x \<and> \<not> ObjHasMask x NoRename")
    case False
    then show ?thesis using st st1 by (cases r) (auto simp: Rename_def r r' compat_meta [OF c] Let_def)
  next
    case True
    then obtain x where x: "r = Inr x" "\<not> ObjHasMask x NoRename" by blast
    let ?m = "map_drv_method (\<lambda>f. f (UnwrapObjName x) n) (\<lambda>f. f (UnwrapObjName x) n)"
    have p: "P (UnwrapObjName x)" using g r x by simp
    then have m: "?m (d_Rename drv') = ?m (d_Rename drv)" using x by (intro compat_methods [OF c]) simp_all
    obtain newObj err st2 where run: "run_method (?m (d_Rename drv)) st1 = ((newObj, err), st2)" by (metis surj_pair)
    from run_method_ok [OF compat_gives(3) [OF c p] run] st1 have st2: "st_ok P st2" "\<forall>y. newObj = Some y \<longrightarrow> P y" by auto
    show ?thesis using st st2 x
      by (cases err) (auto simp: Rename_def r r' m run compat_meta [OF c] caches_meta [OF c] Let_def intro!: on_caches_ok rename_caches_ok [OF c])
  qed
qed

lemma Move_agree:
  assumes c: "compat P env drv drv'" and st: "st_ok P st"
  shows "Move env drv' src dst st = Move env drv src dst st \<and> st_ok P (snd (Move env drv src dst st))"
proof -
  note g = get_agree [OF c st, of "FixAndCleanPath src" True]
  obtain r st1 where r: "op_Get env drv (FixAndCleanPath src) True st = (r, st1)" by (cases "op_Get env drv (FixAndCleanPath src) True st")
  with g have r': "op_Get env drv' (FixAndCleanPath src) True st = (r, st1)" and st1: "st_ok P st1" by auto
  note u = GetUnwrap_agree [OF c st1, where path = "FixAndCleanPath dst"]
  obtain q st2 where q: "GetUnwrap env drv (FixAndCleanPath dst) st1 = (q, st2)" by (cases "GetUnwrap env drv (FixAndCleanPath dst) st1")
  have st2: "st_ok P st2" using u(2) q by simp
  show ?thesis
  proof (cases "\<exists>x y. r = Inr x \<and> \<not> ObjHasMask x NoMove \<and> q = Inr y \<and> \<not> ObjHasMask y NoWrite")
    case False
    then show ?thesis using st st1 st2 by (cases r; cases q) (auto simp: Move_def r r' u(1) q compat_meta [OF c] Let_def)
  next
    case True
    then obtain x y where x: "r = Inr x" "\<not> ObjHasMask x NoMove" and y: "q = Inr y" "\<not> ObjHasMask y NoWrite" by blast
    let ?m = "map_drv_method (\<lambda>f. f (UnwrapObjName x) y) (\<lambda>f. f (UnwrapObjName x) y)"
    have p: "P (UnwrapObjName x)" "P y" using g r x u(3) q y by auto
    then have m: "?m (d_Move drv') = ?m (d_Move drv)" using x y by (intro compat_methods [OF c]) (simp_all add: writable_def)
    obtain newObj err st3 where run: "run_method (?m (d_Move drv)) st2 = ((newObj, err), st3)" by (metis surj_pair)
    from run_method_ok [OF compat_gives(2) [OF c p] run] st2 have st3: "st_ok P st3" "\<forall>y. newObj = Some y \<longrightarrow> P y" by auto
    show ?thesis using st st3 x y
      by (cases err) (auto simp: Move_def r r' u(1) q m run compat_meta [OF c] caches_meta [OF c] Let_def intro!: on_caches_ok move_caches_ok [OF c])
  qed
qed

lemma Copy_agree:
  assumes c: "compat P env drv drv'" and st: "st_ok P st"
  shows "Copy env drv' src dst st = Copy env drv src dst st \<and> st_ok P (snd (Copy env drv src dst st))"
proof -
  note g = get_agree [OF c st, of "FixAndCleanPath src" True]
  obtain r st1 where r: "op_Get env drv (FixAndCleanPath src) True st = (r, st1)" by (cases "op_Get env drv (FixAndCleanPath src) True st")
  with g have r': "op_Get env drv' (FixAndCleanPath src) True st = (r, st1)" and st1: "st_ok P st1" by auto
  note u = GetUnwrap_agree [OF c st1, where path = "FixAndCleanPath dst"]
  obtain q st2 where q: "GetUnwrap env drv (FixAndCleanPath dst) st1 = (q, st2)" by (cases "GetUnwrap env drv (FixAndCleanPath dst) st1")
  have st2: "st_ok P st2" using u(2) q by simp
  show ?thesis
  proof (cases "\<exists>x y. r = Inr x \<and> q = Inr y \<and> \<not> ObjHasMask y NoWrite")
    case False
    then show ?thesis using st st1 st2 by (cases r; cases q) (auto simp: Copy_def r r' u(1) q compat_meta [OF c] Let_def)
  next
    case True
    then obtain x y where x: "r = Inr x" and y: "q = Inr y" "\<not> ObjHasMask y NoWrite" by blast
    let ?m = "map_drv_method (\<lambda>f. f (UnwrapObjName x) y) (\<lambda>f. f (UnwrapObjName x) y)"
    have p: "P (UnwrapObjName x)" "P y" using g r x u(3) q y by auto
    then have m: "?m (d_Copy drv') = ?m (d_Copy drv)" using x y by (intro compat_methods [OF c]) (simp_all add: writable_def)
    obtain newObj err st3 where run: "run_method (?m (d_Copy drv)) st2 = ((newObj, err), st3)" by (metis surj_pair)
    from run_method_ok [OF compat_gives(4) [OF c p] run] st2 have st3: "st_ok P st3" "\<forall>y. newObj = Some y \<longrightarrow> P y" by auto
    show ?thesis using st st3 x y
      by (cases err) (auto simp: Copy_def r r' u(1) q m run compat_meta [OF c] caches_meta [OF c] Let_def intro!: on_caches_ok copy_caches_ok [OF c])
  qed
qed

lemma put_clear_agree:
  assumes c: "compat P env drv drv'" and st: "st_ok P st"
  shows "put_clear env drv' dstPath file fi st = put_clear env drv dstPath file fi st \<and> st_ok P (snd (snd (put_clear env drv dstPath file fi st)))"
  using st Remove_agree [OF c st, of dstPath] Rename_agree [OF c st, of dstPath "temp_name file"]
  by (auto simp: put_clear_def compat_meta [OF c] split: option.split prod.split)

lemma put_upload_agree:
  assumes c: "compat P env drv drv'" and st: "st_ok P st" and p: "P parent" "\<not> ObjHasMask parent NoWrite"
  shows "put_upload env drv' d file fi parent st = put_upload env drv d file fi parent st \<and> st_ok P (snd (put_upload env drv d file fi parent st))"
proof -
  let ?m = "map_drv_method (\<lambda>f. f parent file) (\<lambda>f. f parent file)"
  have m: "?m (d_Put drv') = ?m (d_Put drv)" using p by (intro compat_methods [OF c]) (simp add: writable_def)
  obtain newObj err st1 where run: "run_method (?m (d_Put drv)) st = ((newObj, err), st1)" by (metis surj_pair)
  from run_method_ok [OF compat_gives(5) [OF c p(1)] run] st have st1: "st_ok P st1" "\<forall>y. newObj = Some y \<longrightarrow> P y" by auto
  define st2 where "st2 = (if err = None
      then let obj = (case newObj of None \<Rightarrow> temp_object (fName file) (fSize file) (fModTime file) (fCreateTime file) False | Some x \<Rightarrow> x)
           in write_hook env d False (on_caches (put_caches env drv (envNow env (world st1)) (PathJoin d (fName file)) d obj) st1)
      else st1)"
  have st2: "st_ok P st2" using st1
    by (auto simp: st2_def Let_def intro!: on_caches_ok put_caches_ok [OF c] placed_ok(1) [OF c st1(2)] obj_ok_temp)
  show ?thesis
    using st2 Remove_agree [OF c st2, of "PathJoin d (temp_name file)"] Rename_agree [OF c st2, of "PathJoin d (temp_name file)" "fName file"]
    unfolding put_upload_def m run Let_def prod.case caches_meta [OF c] compat_meta [OF c] st2_def [unfolded Let_def, symmetric]
    by (auto split: prod.split)
qed

lemma Put_agree:
  assumes c: "compat P env drv drv'" and st: "st_ok P st"
  shows "Put env drv' d file st = Put env drv d file st \<and> (\<forall>r st'. Put env drv d file st = Some (r, st') \<longrightarrow> st_ok P st')"
proof -
  have to: "put_to env drv' d fl st = put_to env drv d fl st \<and> (\<forall>r st'. put_to env drv d fl st = Some (r, st') \<longrightarrow> st_ok P st')" for d fl
  proof -
    let ?dst = "PathJoin d (fName fl)"
    note u = GetUnwrap_agree [OF c st, where path = ?dst]
    obtain q st1 where q: "GetUnwrap env drv ?dst st = (q, st1)" by (cases "GetUnwrap env drv ?dst st")
    define fi where "fi = (case q of Inl _ \<Rightarrow> None | Inr x \<Rightarrow> Some x)"
    have st1: "st_ok P st1" using u(2) q by simp
    note cl = put_clear_agree [OF c st1, of ?dst fl fi]
    obtain e file2 st2 where e: "put_clear env drv ?dst fl fi st1 = (e, file2, st2)" by (metis surj_pair)
    have st2: "st_ok P st2" using cl e by simp
    note mk = MakeDir_agree [OF c st2, of "[]" d]
    show ?thesis
    proof (cases "e = None \<and> (\<exists>err st3. MakeDir env drv [] d st2 = Some (err, st3) \<and> (err = None \<or> err = Some ObjectAlreadyExists))")
      case False
      then show ?thesis using st2 mk cl e
        by (cases e; cases "MakeDir env drv [] d st2") (auto simp: put_to_def u(1) q fi_def [symmetric])
    next
      case True
      then obtain err st3 where mk3: "MakeDir env drv [] d st2 = Some (err, st3)" "err = None \<or> err = Some ObjectAlreadyExists" by blast
      then have st3: "st_ok P st3" using mk by blast
      note v = GetUnwrap_agree [OF c st3, where path = d]
      obtain r st4 where r: "GetUnwrap env drv d st3 = (r, st4)" by (cases "GetUnwrap env drv d st3")
      have st4: "st_ok P st4" using v(2) r by simp
      have up: "put_upload env drv' d f fi x st4 = put_upload env drv d f fi x st4" "put_upload env drv d f fi x st4 = (a, st5) \<Longrightarrow> st_ok P st5"
        if "r = Inr x" "\<not> ObjHasMask x NoWrite" for x f a st5
        using put_upload_agree [OF c st4 v(3) [OF r [unfolded that(1)]] that(2), of d f fi] by auto
      show ?thesis using True mk3 mk cl e r st4 up
        by (cases r; cases "d_Put drv"; cases "d_Put drv'")
           (auto simp: put_to_def u(1) v(1) q fi_def [symmetric] Let_def compat_methods(7) [OF c, THEN iffD1] compat_methods(7) [OF c, THEN iffD2])
    qed
  qed
  have "put_target drv' d file = put_target drv d file" by (simp add: put_target_def compat_meta [OF c])
  then show ?thesis using to st by (auto simp: Put_def put_body_def compat_meta [OF c] split: option.splits prod.splits)
qed

lemma PutURL_agree:
  assumes c: "compat P env drv drv'" and st: "st_ok P st"
  shows "PutURL env drv' d n u st = PutURL env drv d n u st \<and> (\<forall>r st'. PutURL env drv d n u st = Some (r, st') \<longrightarrow> st_ok P st')"
proof -
  let ?d = "FixAndCleanPath d"
  note g = get_agree [OF c st, of "PathJoin ?d n" False]
  obtain r st1 where r: "op_Get env drv (PathJoin ?d n) False st = (r, st1)" by (cases "op_Get env drv (PathJoin ?d n) False st")
  with g have r': "op_Get env drv' (PathJoin ?d n) False st = (r, st1)" and st1: "st_ok P st1" by auto
  note mk = MakeDir_agree [OF c st1, of "[]" ?d]
  show ?thesis
  proof (cases "\<exists>e st2. r = Inl e \<and> MakeDir env drv [] ?d st1 = Some (None, st2)")
    case False
    then show ?thesis using st st1 mk
      by (cases r; cases "MakeDir env drv [] ?d st1") (auto simp: PutURL_def r r' compat_meta [OF c] Let_def split: option.splits)
  next
    case True
    then obtain e st2 where e: "r = Inl e" and m2: "MakeDir env drv [] ?d st1 = Some (None, st2)" by blast
    then have st2: "st_ok P st2" using mk by blast
    note v = GetUnwrap_agree [OF c st2, where path = ?d]
    obtain q st3 where q: "GetUnwrap env drv ?d st2 = (q, st3)" by (cases "GetUnwrap env drv ?d st2")
    have st3: "st_ok P st3" using v(2) q by simp
    show ?thesis
    proof (cases "\<exists>x. q = Inr x \<and> \<not> ObjHasMask x NoWrite")
      case False
      then show ?thesis using st st3 mk e m2 v(1) q by (cases q) (auto simp: PutURL_def r r' compat_meta [OF c] Let_def)
    next
      case True
      then obtain x where x: "q = Inr x" "\<not> ObjHasMask x NoWrite" by blast
      let ?m = "map_drv_method (\<lambda>f. f x n u) (\<lambda>f. f x n u)"
      have p: "P x" using v(3) q x by simp
      then have m: "?m (d_PutURL drv') = ?m (d_PutURL drv)" using x by (intro compat_methods [OF c]) (simp add: writable_def)
      obtain newObj err st4 where run: "run_method (?m (d_PutURL drv)) st3 = ((newObj, err), st4)" by (metis surj_pair)
      from run_method_ok [OF compat_gives(6) [OF c p] run] st3 have st4: "st_ok P st4" "\<forall>y. newObj = Some y \<longrightarrow> P y" by auto
      show ?thesis using st st4 mk e m2 v(1) q x
        by (cases err) (auto simp: PutURL_def r r' m run compat_meta [OF c] caches_meta [OF c] Let_def
            intro!: on_caches_ok put_caches_ok [OF c] placed_ok(1) [OF c st4(2)] obj_ok_temp)
    qed
  qed
qed

lemma on_world_ok: "st_ok P st \<Longrightarrow> st_ok P (snd (on_world f st))"
  by (simp add: on_world_def split: prod.split)

lemma Other_agree:
  assumes c: "compat P env drv drv'" and st: "st_ok P st"
  shows "op_Other env drv' p m d st = op_Other env drv p m d st \<and> st_ok P (snd (op_Other env drv p m d st))"
proof -
  note u = GetUnwrap_agree [OF c st, where path = p]
  obtain q st1 where q: "GetUnwrap env drv p st = (q, st1)" by (cases "GetUnwrap env drv p st")
  have st1: "st_ok P st1" using u(2) q by simp
  show ?thesis
  proof (cases q)
    case (Inl e)
    then show ?thesis using st st1 u(1) q compat_methods(13) [OF c]
      by (cases "d_Other drv"; cases "d_Other drv'") (auto simp: op_Other_def compat_meta [OF c])
  next
    case (Inr x)
    then have "P x" using u(3) q by simp
    from compat_methods(9) [OF c this] show ?thesis using st on_world_ok [OF st1] u(1) q Inr
      by (cases "d_Other drv"; cases "d_Other drv'") (auto simp: op_Other_def compat_meta [OF c])
  qed
qed

lemma direct_info_agree:
  assumes c: "compat P env drv drv'" and st: "st_ok P st" and ask: "\<And>x. P x \<Longrightarrow> ask' x = ask x"
  shows "direct_info env drv' ask' d st = direct_info env drv ask d st \<and> (\<forall>r st'. direct_info env drv ask d st = Some (r, st') \<longrightarrow> st_ok P st')"
proof -
  note mk = MakeDir_agree [OF c st, of "[]" d]
  show ?thesis
  proof (cases "\<exists>st1. MakeDir env drv [] d st = Some (None, st1)")
    case False
    then show ?thesis using mk by (cases "MakeDir env drv [] d st") (auto simp: direct_info_def split: option.splits)
  next
    case True
    then obtain st1 where m: "MakeDir env drv [] d st = Some (None, st1)" by blast
    then have st1: "st_ok P st1" using mk by blast
    note v = GetUnwrap_agree [OF c st1, where path = d]
    obtain q st2 where q: "GetUnwrap env drv d st1 = (q, st2)" by (cases "GetUnwrap env drv d st1")
    have st2: "st_ok P st2" using v(2) q by simp
    then show ?thesis using mk m v q ask on_world_ok [OF st2, of "ask _"] by (cases q) (auto simp: direct_info_def, metis snd_conv)
  qed
qed

lemma DirectUpload_agree:
  assumes c: "compat P env drv drv'" and st: "st_ok P st"
  shows "GetDirectUploadInfo env drv' t d n s ow st = GetDirectUploadInfo env drv t d n s ow st \<and>
    (\<forall>r st'. GetDirectUploadInfo env drv t d n s ow st = Some (r, st') \<longrightarrow> st_ok P st')"
proof (cases "d_DirectUploadInfo drv")
  case None
  then show ?thesis using st compat_methods(14) [OF c] by (auto simp: GetDirectUploadInfo_def)
next
  case (Some du)
  then obtain du' where du': "d_DirectUploadInfo drv' = Some du'" using compat_methods(14) [OF c] by auto
  have ask: "du' t x n s = du t x n s" if "P x" for x using compat_methods(10) [OF c that, of t n s] Some du' by simp
  note di = direct_info_agree [OF c _ ask, where d = "FixAndCleanPath d"]
  let ?p = "PathJoin (FixAndCleanPath d) n"
  note g = get_agree [OF c st, of ?p False]
  obtain r st1 where r: "op_Get env drv ?p False st = (r, st1)" by (cases "op_Get env drv ?p False st")
  with g have r': "op_Get env drv' ?p False st = (r, st1)" and st1: "st_ok P st1" by auto
  show ?thesis using Some du' st di [OF st] di [OF st1] st1
    by (cases r) (auto simp: GetDirectUploadInfo_def compat_meta [OF c] r r' Let_def split: if_splits)
qed

lemma link_fetch_agree:
  assumes c: "compat P env drv drv'" and st: "st_ok P st"
  shows "link_fetch env drv' p args k tk st = link_fetch env drv p args k tk st \<and> st_ok P (snd (link_fetch env drv p args k tk st))"
proof -
  note u = GetUnwrap_agree [OF c st, where path = p]
  obtain q st1 where q: "GetUnwrap env drv p st = (q, st1)" by (cases "GetUnwrap env drv p st")
  have st1: "st_ok P st1" using u(2) q by simp
  show ?thesis
  proof (cases q)
    case (Inr x)
    then have "P x" using u(3) q by simp
    from compat_methods(11) [OF c this] show ?thesis using u(1) q Inr st1
      by (auto simp: link_fetch_def on_caches_def split: prod.split sum.split option.split)
  qed (use u(1) q st1 in \<open>simp add: link_fetch_def\<close>)
qed

lemma acquire_ok: "st_ok P (snd (acquire_in ol st)) = st_ok P st"
  by (simp add: acquire_in_def split: prod.split)

lemma link_loop_ok:
  assumes "link_loop fn st = Some rs"
  shows "(\<forall>st. st_ok P st \<longrightarrow> fn' st = fn st \<and> st_ok P (snd (fn st))) \<longrightarrow> st_ok P st \<longrightarrow> link_loop fn' st = Some rs \<and> st_ok P (snd rs)"
proof (rule link_loop.raw_induct [OF _ assms], intro impI)
  fix loop fn st rs
  assume IH: "\<And>fn st rs. loop fn st = Some rs \<Longrightarrow>
      (\<forall>st. st_ok P st \<longrightarrow> fn' st = fn st \<and> st_ok P (snd (fn st))) \<longrightarrow> st_ok P st \<longrightarrow> link_loop fn' st = Some rs \<and> st_ok P (snd rs)"
    and step: "(case fn st of
        (Inl err, st1) \<Rightarrow> Some (Inl err, st1)
      | (Inr None, st1) \<Rightarrow> Some (Inl ObjectNotFound, st1)
      | (Inr (Some ol), st1) \<Rightarrow>
          (case acquire_in ol st1 of (ok, st2) \<Rightarrow> if ok then Some (Inr (olLink ol, olObj ol), st2) else loop fn st2)) = Some rs"
    and f: "\<forall>st. st_ok P st \<longrightarrow> fn' st = fn st \<and> st_ok P (snd (fn st))" and st: "st_ok P st"
  obtain r st1 where r: "fn st = (r, st1)" by (cases "fn st")
  with f st have r': "fn' st = (r, st1)" and st1: "st_ok P st1" by (simp_all, metis snd_conv)
  have aq: "st_ok P st2" if "acquire_in ol st1 = (ok, st2)" for ol ok st2 using acquire_ok [of P ol st1] st1 that by simp
  have again: "link_loop fn' st2 = Some rs \<and> st_ok P (snd rs)" if "loop fn st2 = Some rs" "st_ok P st2" for st2
    using IH [OF that(1)] f that(2) by blast
  show "link_loop fn' st = Some rs \<and> st_ok P (snd rs)"
    using step r r' st1 by (subst link_loop.simps) (auto split: sum.splits option.splits prod.splits if_splits dest: aq again)
qed

lemma link_loop_agree:
  assumes f: "\<And>st. st_ok P st \<Longrightarrow> fn' st = fn st \<and> st_ok P (snd (fn st))" and st: "st_ok P st"
  shows "link_loop fn' st = link_loop fn st \<and> (\<forall>r st'. link_loop fn st = Some (r, st') \<longrightarrow> st_ok P st')"
proof -
  have "\<forall>st. st_ok P st \<longrightarrow> fn st = fn' st \<and> st_ok P (snd (fn' st))" using f by metis
  then have a: "link_loop fn' st = Some rs \<Longrightarrow> link_loop fn st = Some rs" for rs using link_loop_ok [of fn' st rs P fn] st by blast
  have b: "link_loop fn st = Some rs \<Longrightarrow> link_loop fn' st = Some rs \<and> st_ok P (snd rs)" for rs using link_loop_ok [of fn st rs P fn'] st f by blast
  show ?thesis
  proof (cases "link_loop fn st")
    case None
    with a show ?thesis by (cases "link_loop fn' st") auto
  next
    case (Some rs)
    with b [OF Some] show ?thesis by auto
  qed
qed

lemma Link_agree:
  assumes c: "compat P env drv drv'" and st: "st_ok P st"
  shows "op_Link env drv' p args st = op_Link env drv p args st \<and> (\<forall>r st'. op_Link env drv p args st = Some (r, st') \<longrightarrow> st_ok P st')"
proof (cases "link_mode drv p")
  case None
  moreover have "link_mode drv' p = link_mode drv p" by (simp add: link_mode_def compat_meta [OF c] compat_methods(12) [OF c])
  ultimately show ?thesis using st by (auto simp: op_Link_def compat_meta [OF c])
next
  case (Some mode)
  have m: "link_mode drv' p = link_mode drv p" by (simp add: link_mode_def compat_meta [OF c] compat_methods(12) [OF c])
  let ?k = "Key drv p" and ?t = "type_key mode args"
  obtain hit st1 where hit: "cached_link env ?k ?t st = (hit, st1)" by (cases "cached_link env ?k ?t st")
  then have st1: "st_ok P st1" using st by (auto simp: cached_link_def split: prod.splits)
  have loop: "link_loop (link_fetch env drv' p args ?k ?t) st2 = link_loop (link_fetch env drv p args ?k ?t) st2"
    "link_loop (link_fetch env drv p args ?k ?t) st2 = Some (r, st') \<Longrightarrow> st_ok P st'" if "st_ok P st2" for st2 r st'
    using link_loop_agree [where fn = "link_fetch env drv p args ?k ?t" and fn' = "link_fetch env drv' p args ?k ?t", OF link_fetch_agree [OF c] that] by blast+
  have aq: "st_ok P (snd (acquire_in ol st1))" for ol using acquire_ok st1 by blast
  show ?thesis
  proof (cases hit)
    case None
    then show ?thesis using Some m hit st loop [OF st1] by (auto simp: op_Link_def compat_meta [OF c])
  next
    case hit': (Some ol)
    obtain ok st2 where a: "acquire_in ol st1 = (ok, st2)" by (cases "acquire_in ol st1")
    then have "st_ok P st2" using aq [of ol] by simp
    from loop [OF this] this show ?thesis using Some m hit hit' a st by (auto simp: op_Link_def compat_meta [OF c])
  qed
qed

section \<open>All operations\<close>

lemma run_op_agree:
  assumes "compat P env drv drv'" "st_ok P st"
  shows "run_op env drv' c st = run_op env drv c st \<and> (\<forall>a st'. run_op env drv c st = Some (a, st') \<longrightarrow> st_ok P st')"
proof (cases c)
  case (CList path args)
  then show ?thesis using list_agree [OF assms, of path args None] by (auto simp: op_List_def answer_def)
next
  case (CMakeDir path)
  then show ?thesis using MakeDir_agree [OF assms, of "[]" path] by (auto simp: answer_def)
next
  case (CPut d f)
  then show ?thesis using Put_agree [OF assms, of d f] by (auto simp: answer_def)
next
  case (CPutURL d n u)
  then show ?thesis using PutURL_agree [OF assms, of d n u] by (auto simp: answer_def)
next
  case (CDirectUploadInfo t d n s ow)
  then show ?thesis using DirectUpload_agree [OF assms, of t d n s ow] by (auto simp: answer_def)
next
  case (CLink p args)
  then show ?thesis using Link_agree [OF assms, of p args] by (auto simp: answer_def)
qed (use get_agree [OF assms] Move_agree [OF assms] Rename_agree [OF assms] Copy_agree [OF assms] Remove_agree [OF assms]
       Other_agree [OF assms] in \<open>auto simp: answer_def\<close>)

lemma agree_refl: "agree P drv drv"
  by (simp add: agree_def)

lemma GC_ok: "caches_ok P cm \<Longrightarrow> caches_ok P (cm\<lparr>dirCache := keyed_GC (dirCache cm) now\<rparr>)"
proof -
  have "entries_ok P (foldl (\<lambda>m k. dict_del k m) d ks)" if "entries_ok P d" for d ks
    using that by (induction ks arbitrary: d) (auto simp: entries_ok_del)
  then show "caches_ok P cm \<Longrightarrow> ?thesis" by (simp add: caches_ok_def keyed_GC_def drop_expired_def)
qed

lemma ops_reach_ok:
  assumes "ops_reach env Ds st" "\<forall>drv \<in> Ds. owns P drv" "sorts (envSorting env)"
  shows "st_ok P st"
  using assms(1)
proof (induction rule: ops_reach.induct)
  case (start st)
  then show ?case by (simp add: NewCacheManager_def NewKeyedCache_def caches_ok_def entries_ok_def)
next
  case (op st drv c a st')
  have "compat P env drv drv" using assms(2,3) op.hyps(2) by (simp add: compat_def agree_refl)
  from run_op_agree [OF this op.IH] op.hyps show ?case by blast
next
  case (drop_tree st drv path)
  then show ?case by (simp add: on_caches_def DeleteDirectoryTree_def delete_tree_ok)
next
  case (clear st)
  then show ?case by (simp add: on_caches_def ClearAll_def caches_ok_def keyed_Clear_def entries_ok_def)
qed (simp_all add: on_caches_def GC_ok)

text \<open>The listings in the cache are consistent.\<close>

lemma ops_reach_clean:
  assumes "ops_reach env Ds st" "sorts (envSorting env)" "dir_entry (caches st) key = Some e"
  shows "dir_clean (entry_data e)"
proof -
  have "\<forall>drv \<in> Ds. owns (\<lambda>_. True) drv" by (simp add: owns_def gives_def)
  from entries_okD [OF ops_reach_ok [OF assms(1) this assms(2), unfolded caches_ok_def]] assms(3) show ?thesis
    by (simp add: dir_entry_def dir_ok_def)
qed

lemma operations_agree:
  assumes "\<forall>d \<in> Ds. owns P d" "sorts (envSorting env)" "drv \<in> Ds" "agree P drv drv'" "ops_reach env Ds st"
  shows "run_op env drv' c st = run_op env drv c st"
  using run_op_agree [of P env drv drv' st c] ops_reach_ok [OF assms(5,1,2)] assms(1-4) by (simp add: compat_def)

end
