(* ===== verification/Storage_Ops_Props.thy ===== *)
theory Storage_Ops_Props
  imports Storage_Ops_Spec
begin

text \<open>
  Properties of the operations on a storage, and a small driver in memory on which they are evaluated.
\<close>

section \<open>A driver in memory\<close>

text \<open>The world is a list of paths, each with its size, \<open>None\<close> for a directory, and its mask.\<close>

type_synonym mem = "(string \<times> int option \<times> ObjMask) list"

definition mem_obj :: "string \<times> int option \<times> ObjMask \<Rightarrow> Obj" where
  "mem_obj e = (case e of (p, sz, m) \<Rightarrow>
     Obj \<lparr>oID = ''mem'', oPath = p, oName = Base p, oSize = (case sz of None \<Rightarrow> 0 | Some n \<Rightarrow> n), oDuration = 0, oModified = 0, oCtime = None,
          oIsFolder = (sz = None), oMask = m\<rparr>)"

definition mem_path :: "Obj \<Rightarrow> string" where
  "mem_path x = oPath (object_of x)"

definition mem_under :: "string \<Rightarrow> string \<Rightarrow> bool" where
  "mem_under q p \<longleftrightarrow> p = q \<or> HasPrefix p (q @ ''/'')"

definition mem_driver :: "Config \<Rightarrow> string \<Rightarrow> mem op_driver" where
  "mem_driver cfg mountPath =
     \<lparr>drv_Config = cfg, drv_Storage = GetStorage (sample_driver 0 mountPath),
      d_List = (\<lambda>dir args w. (Inr (map mem_obj (filter (\<lambda>e. Dir (fst e) = mem_path dir) w)), w)),
      d_GetRoot = Some (\<lambda>w. (Inr (mem_obj (''/'', None, 0)), w)), d_RootId = None, d_RootPath = None, d_Get = None,
      d_Link = (\<lambda>x args h w. (Inl NotSupport, h, w)), d_ResolveLinkCacheMode = None,
      d_MakeDir = Plain (\<lambda>dir n w. (None, w @ [(PathJoin (mem_path dir) n, None, 0)])), d_Move = Missing,
      d_Rename = Plain (\<lambda>x n w. (None, map (\<lambda>e. if fst e = mem_path x then (PathJoin (Dir (fst e)) n, snd e) else e) w)),
      d_Copy = Missing, d_Remove = Some (\<lambda>x w. (None, filter (\<lambda>e. \<not> mem_under (mem_path x) (fst e)) w)),
      d_Put = Plain (\<lambda>dir f w. (None, w @ [(PathJoin (mem_path dir) (fName f), Some (fSize f), 0)])), d_PutURL = Missing,
      d_Other = None, d_DirectUploadTools = None, d_DirectUploadInfo = None\<rparr>"

definition mem_config :: Config where
  "mem_config = sample_config\<lparr>LocalSort := False\<rparr>"

definition mem_env :: "mem op_env" where
  "mem_env =
     \<lparr>envSorting = sample_sorting, envMappingName = (\<lambda>n. n), envMatch = (\<lambda>_ _. Some False), envNow = (\<lambda>_. 0), envCacheFull = (\<lambda>f. f),
      envSkipHook = False, envNeedHook = True\<rparr>"

definition mem_state :: "mem \<Rightarrow> mem op_state" where
  "mem_state w = \<lparr>world = w, caches = NewCacheManager, links = (\<lambda>_. NewSyncClosers []), events = []\<rparr>"

definition mem_file :: "string \<Rightarrow> int \<Rightarrow> FileStream" where
  "mem_file n s = \<lparr>fName = n, fSize = s, fModTime = 0, fCreateTime = 0, fExist = None\<rparr>"

text \<open>The objects of this driver.\<close>

definition mem_own :: "Obj \<Rightarrow> bool" where
  "mem_own x \<longleftrightarrow> oID (object_of x) = ''mem''"

text \<open>The same driver, which fails on all other objects and on changes that a mask forbids.\<close>

definition mem_strict :: "mem op_driver \<Rightarrow> mem op_driver" where
  "mem_strict drv = drv
     \<lparr>d_List := (\<lambda>dir args w. if mem_own dir then d_List drv dir args w else (Inl (OpMsg ''not mine''), [])),
      d_Remove := map_option (\<lambda>rm x w. if mem_own x \<and> \<not> ObjHasMask x NoRemove then rm x w else (Some (OpMsg ''not mine''), [])) (d_Remove drv)\<rparr>"

lemma mem_owns: "owns mem_own (mem_driver cfg mp)"
proof -
  have "object_of (UnwrapObjName x) = object_of x" for x by (cases x) simp_all
  then show ?thesis by (auto simp: owns_def mem_driver_def mem_own_def get_root_def on_world_def mem_obj_def gives_def)
qed

lemma mem_strict_agree: "agree mem_own (mem_driver cfg mp) (mem_strict (mem_driver cfg mp))"
  by (auto simp: agree_def mem_strict_def mem_driver_def)

section \<open>Uploads over what is there\<close>

text \<open>The driver with a lookup of its own and without a cache, so that an operation only changes its world.\<close>

definition mem_lookup :: "string \<Rightarrow> (mem, Obj) call" where
  "mem_lookup p w = (case map_of w p of None \<Rightarrow> Inl ObjectNotFound | Some e \<Rightarrow> Inr (mem_obj (p, e)), w)"

definition mem_direct :: "bool \<Rightarrow> mem op_driver" where
  "mem_direct noOverwrite =
     (mem_driver (mem_config\<lparr>NoCache := True, NoOverwriteUpload := noOverwrite, OnlyIndices := False\<rparr>) ''/m'')\<lparr>d_Get := Some mem_lookup\<rparr>"

definition cold :: "mem op_state \<Rightarrow> bool" where
  "cold st \<longleftrightarrow> kEntries (dirCache (caches st)) = []"

lemma mem_direct_init [simp]: "\<not> not_init (mem_direct b)"
  by (simp add: not_init_def mem_direct_def mem_driver_def sample_driver_def WORK_def)

lemma cached_list_cold: "cold st \<Longrightarrow> cached_list env drv key st = (None, st)"
  by (simp add: cached_list_def cold_def dir_Get_def keyed_Get_def)

lemma mem_direct_Get:
  assumes "cold st" "FixAndCleanPath p = p" "p \<noteq> ''/''"
  shows "op_Get env (mem_direct b) p ex st = (fst (mem_lookup p (world st)), st)"
proof (cases "PathSplit p")
  case (Pair dir name)
  have "try_getter (mem_direct b) p st = (Some (fst (mem_lookup p (world st))), st)"
    by (auto simp: try_getter_def mem_direct_def on_world_def mem_lookup_def split: option.split)
  then show ?thesis using assms Pair by (simp add: op_Get_eq cached_list_cold found_in_def)
qed

lemma mem_direct_root:
  assumes "FixAndCleanPath p = ''/''"
  shows "op_Get env (mem_direct b) p ex st = (Inr (mem_obj (''/'', None, 0)), st)"
proof -
  have "get_root (mem_direct b) st = (Inr (mem_obj (''/'', None, 0)), st)"
    by (simp add: get_root_def mem_direct_def mem_driver_def on_world_def)
  with assms show ?thesis by (simp add: op_Get.simps)
qed

lemma mem_direct_GetUnwrap:
  assumes "cold st" "FixAndCleanPath p = p" "p \<noteq> ''/''" "map_of (world st) p = Some e"
  shows "GetUnwrap env (mem_direct b) p st = (Inr (mem_obj (p, e)), st)"
  using assms by (simp add: GetUnwrap_def mem_direct_Get mem_lookup_def mem_obj_def split_beta)

lemma cold_world [simp]: "cold (st\<lparr>world := w\<rparr>) = cold st"
  by (simp add: cold_def)

lemma mem_direct_fields [simp]:
  "drv_Config (mem_direct b) = mem_config\<lparr>NoCache := True, NoOverwriteUpload := b, OnlyIndices := False\<rparr>"
  "d_Remove (mem_direct b) = Some (\<lambda>x w. (None, filter (\<lambda>e. \<not> mem_under (mem_path x) (fst e)) w))"
  "d_Put (mem_direct b) = Plain (\<lambda>dir f w. (None, w @ [(PathJoin (mem_path dir) (fName f), Some (fSize f), 0)]))"
  "d_Rename (mem_direct b) = Plain (\<lambda>x n w. (None, map (\<lambda>e. if fst e = mem_path x then (PathJoin (Dir (fst e)) n, snd e) else e) w))"
  by (simp_all add: mem_direct_def mem_driver_def)

lemma mem_obj_simps [simp]:
  "mem_path (mem_obj (p, e)) = p" "GetSize (mem_obj (p, e)) = (case fst e of None \<Rightarrow> 0 | Some n \<Rightarrow> n)" "UnwrapObjName (mem_obj (p, e)) = mem_obj (p, e)"
  "ObjHasMask (mem_obj (p, e)) m \<longleftrightarrow> snd e AND m \<noteq> 0" "IsDir (mem_obj (p, e)) \<longleftrightarrow> fst e = None"
  by (auto simp: mem_path_def mem_obj_def ObjHasMask_def GetSize_def IsDir_def split: prod.split)

lemma mem_direct_Remove:
  assumes "cold st" "FixAndCleanPath p = p" "p \<noteq> ''/''" "map_of (world st) p = Some (sz, 0)" "\<not> PathEqual p ''/''"
  obtains c where "Remove env (mem_direct b) p st = (None, st\<lparr>world := filter (\<lambda>e. \<not> mem_under p (fst e)) (world st), caches := c\<rparr>)"
    and "kEntries (dirCache c) = []"
proof -
  let ?w = "filter (\<lambda>e. \<not> mem_under p (fst e)) (world st)"
  let ?c = "removeDirectoryObject (mem_direct b) (envNow env ?w) (Dir p) (mem_obj (p, sz, 0)) (caches st)"
  have "Remove env (mem_direct b) p st = (None, st\<lparr>world := ?w, caches := ?c\<rparr>)"
    using assms by (simp add: Remove_def mem_direct_Get mem_lookup_def on_caches_def)
  moreover have "kEntries (dirCache ?c) = []"
    using assms by (simp add: removeDirectoryObject_def cold_def link_DeleteKey_def)
  ultimately show ?thesis by (rule that)
qed

lemma mem_direct_MakeDir:
  assumes "GetUnwrap env (mem_direct b) p st = (Inr (mem_obj (q, None, m)), st)" "FixAndCleanPath p = p"
    "op_Get env (mem_direct b) p False st = (Inr (mem_obj (q, None, m)), st)"
  shows "MakeDir env (mem_direct b) [] p st = Some (None, st)"
  using assms by (simp add: MakeDir.simps)

definition mem_renamed :: "string \<Rightarrow> string \<Rightarrow> mem \<Rightarrow> mem" where
  "mem_renamed p n w = map (\<lambda>e. if fst e = p then (PathJoin (Dir (fst e)) n, snd e) else e) w"

lemma mem_renamed_other: "q \<noteq> p \<Longrightarrow> q \<noteq> PathJoin (Dir p) n \<Longrightarrow> map_of (mem_renamed p n w) q = map_of w q"
  by (induction w) (auto simp: mem_renamed_def)

lemma mem_direct_Rename:
  assumes "cold st" "FixAndCleanPath p = p" "p \<noteq> ''/''" "map_of (world st) p = Some (Some sz, 0)" "\<not> PathEqual p ''/''"
  obtains st' where "Rename env (mem_direct b) p n st = (None, st')" and "cold st'" and "world st' = mem_renamed p n (world st)"
proof -
  have "run_method (map_drv_method (\<lambda>f. f (mem_obj (p, Some sz, 0)) n) (\<lambda>f. f (mem_obj (p, Some sz, 0)) n) (d_Rename (mem_direct b))) st =
      ((None, None), st\<lparr>world := mem_renamed p n (world st)\<rparr>)"
    by (simp add: run_method_def mem_renamed_def)
  with assms have "Rename env (mem_direct b) p n st = (None, write_hook env (Dir p) False (on_caches (rename_caches env (mem_direct b)
      (envNow env (mem_renamed p n (world st))) (Key (mem_direct b) (Dir p)) (mem_obj (p, Some sz, 0)) n None) (st\<lparr>world := mem_renamed p n (world st)\<rparr>)))"
    by (simp add: Rename_def mem_direct_Get mem_lookup_def Let_def del: mem_direct_fields)
  then show ?thesis
    by (rule that) (use assms(1) in \<open>simp_all add: cold_def write_hook_def on_caches_def op_emit_def rename_caches_def link_DeleteKey_def\<close>)
qed

section \<open>Properties\<close>



text \<open>Uploading a file under the name of an existing directory that reports the size 0, as directories do, removes the
  directory with everything in it.\<close>

theorem upload_over_directory_deletes_it:
  assumes "kEntries (dirCache (caches st)) = []" "map_of (world st) ''/docs'' = Some (None, 0)" "0 \<le> s"
  shows "\<exists>st'. Put env (mem_direct b) ''/'' (mem_file ''docs'' s) st = Some (None, st')
     \<and> world st' = filter (\<lambda>e. \<not> mem_under ''/docs'' (fst e)) (world st) @ [(''/docs'', Some s, 0)]"
proof -
  have c: "cold st" using assms(1) by (simp add: cold_def)
  have p: "FixAndCleanPath ''/docs'' = ''/docs''" "PathJoin ''/'' ''docs'' = ''/docs''" "FixAndCleanPath ''/'' = ''/''" "\<not> PathEqual ''/docs'' ''/''"
    by code_simp+
  obtain k where r: "Remove env (mem_direct b) ''/docs'' st = (None, st\<lparr>world := filter (\<lambda>e. \<not> mem_under ''/docs'' (fst e)) (world st), caches := k\<rparr>)"
    by (rule mem_direct_Remove [OF c p(1) _ assms(2) p(4)]) simp
  show ?thesis
    using assms p r mem_direct_GetUnwrap [OF c p(1) _ assms(2)]
    by (simp add: Put_def put_body_def put_target_def put_to_def put_clear_def mem_file_def mem_direct_root MakeDir.simps [of _ _ _ "''/''"]
      GetUnwrap_def [of _ _ "''/''"] put_upload_def run_method_def write_hook_def op_emit_def on_caches_def Let_def)
qed

theorem upload_over_directory_deletes_it_witness:
  "\<exists>st'. Put mem_env (mem_direct False) ''/'' (mem_file ''docs'' 3) (mem_state [(''/docs'', None, 0), (''/docs/a'', Some 5, 0)]) = Some (None, st')
     \<and> world st' = [(''/docs'', Some 3, 0)]"
proof -
  have "kEntries (dirCache (caches (mem_state [(''/docs'', None, 0), (''/docs/a'', Some 5, 0)]))) = []"
    by code_simp
  from upload_over_directory_deletes_it [OF this, of 3 mem_env False] show ?thesis
    by (simp add: mem_state_def mem_under_def HasPrefix_def)
qed

text \<open>With a driver that cannot overwrite, an upload that is refused because the directory must not be written to leaves the
  file that was there under its temporary name.\<close>

theorem refused_upload_displaces_file:
  assumes "kEntries (dirCache (caches st)) = []" "map_of (world st) ''/ro'' = Some (None, m)" "m AND NoWrite \<noteq> 0"
    "map_of (world st) ''/ro/a'' = Some (Some n, 0)" "0 < n"
  shows "\<exists>st'. Put env (mem_direct True) ''/ro'' (mem_file ''a'' s) st = Some (Some PermissionDenied, st')
     \<and> world st' = map (\<lambda>e. if fst e = ''/ro/a'' then (''/ro/a.openlist_to_delete'', snd e) else e) (world st)"
proof -
  have c: "cold st" using assms(1) by (simp add: cold_def)
  have p: "FixAndCleanPath ''/ro/a'' = ''/ro/a''" "FixAndCleanPath ''/ro'' = ''/ro''" "PathJoin ''/ro'' ''a'' = ''/ro/a''" "\<not> PathEqual ''/ro/a'' ''/''"
    by code_simp+
  have j: "PathJoin (Dir ''/ro/a'') ''a.openlist_to_delete'' = ''/ro/a.openlist_to_delete''"
    using Dir_path_of [of "[''ro'', ''a'']"] PathJoin_name [of "[''ro'']" "''a.openlist_to_delete''"] by (simp add: path_of_Cons valid_name_def)
  obtain st1 where r: "Rename env (mem_direct True) ''/ro/a'' (temp_name (mem_file ''a'' s)) st = (None, st1)" and c1: "cold st1"
    and w: "world st1 = mem_renamed ''/ro/a'' ''a.openlist_to_delete'' (world st)"
    by (rule mem_direct_Rename [OF c p(1) _ assms(4) p(4)]) (simp_all add: temp_name_def mem_file_def)
  have m: "map_of (world st1) ''/ro'' = Some (None, m)"
    using assms(2) by (simp add: w mem_renamed_other j)
  have g: "op_Get env (mem_direct True) ''/ro'' ex st1 = (Inr (mem_obj (''/ro'', None, m)), st1)" for ex
    using mem_direct_Get [OF c1 p(2)] m by (simp add: mem_lookup_def)
  have "Put env (mem_direct True) ''/ro'' (mem_file ''a'' s) st = Some (Some PermissionDenied, op_emit (FileClosed ''a'') st1)"
    using assms(3,5) p r g mem_direct_GetUnwrap [OF c p(1) _ assms(4)]
    by (simp add: Put_def put_body_def put_target_def put_to_def put_clear_def MakeDir.simps [of _ _ _ "''/ro''"] GetUnwrap_def [of _ _ "''/ro''"]
      mem_file_def Let_def)
  moreover have "world st1 = map (\<lambda>e. if fst e = ''/ro/a'' then (''/ro/a.openlist_to_delete'', snd e) else e) (world st)"
    using j by (simp add: w mem_renamed_def cong: if_cong)
  ultimately show ?thesis by (simp add: op_emit_def)
qed

theorem refused_upload_displaces_file_witness:
  "\<exists>st'. Put mem_env (mem_direct True) ''/ro'' (mem_file ''a'' 3) (mem_state [(''/ro'', None, NoWrite), (''/ro/a'', Some 5, 0)]) = Some (Some PermissionDenied, st')
     \<and> world st' = [(''/ro'', None, NoWrite), (''/ro/a.openlist_to_delete'', Some 5, 0)]"
proof -
  have "kEntries (dirCache (caches (mem_state [(''/ro'', None, NoWrite), (''/ro/a'', Some 5, 0)]))) = []" "NoWrite AND NoWrite \<noteq> 0"
    by code_simp+
  from refused_upload_displaces_file [OF this(1) _ this(2), of 5 mem_env 3] show ?thesis
    by (simp add: mem_state_def)
qed

section \<open>Making directories ends\<close>

text \<open>The key of a path below an absolute mount path determines the components of the path.\<close>

lemma Key_path_of:
  assumes "GetActualMountPath (MountPath (drv_Storage drv)) = path_of ms" "valid_names ms" "valid_names cs"
  shows "Key drv (path_of cs) = path_of (ms @ cs)"
  using assms by (simp add: Key_def GetFullPath_def PathJoin_path_of)

lemma op_Get_root:
  assumes "\<not> not_init drv"
  shows "op_Get env drv ''/'' ex st = get_root drv st"
proof -
  have "FixAndCleanPath ''/'' = ''/''" by code_simp
  with assms show ?thesis by (simp add: op_Get.simps)
qed

lemma MakeDir_flight:
  assumes m: "GetActualMountPath (MountPath (drv_Storage drv)) = path_of ms" "valid_names ms"
    and r: "\<And>st. fst (get_root drv st) \<noteq> Inl ObjectNotFound"
    and f: "set flight \<subseteq> {path_of (ms @ cs) |cs. valid_names cs \<and> length (fix_comps path) < length cs}"
  shows "MakeDir env drv flight path st \<noteq> None"
  using f
proof (induction "length (fix_comps path)" arbitrary: path flight st rule: less_induct)
  case less
  let ?p = "FixAndCleanPath path"
  obtain dir name where sp: "PathSplit ?p = (dir, name)" by fastforce
  have k: "Key drv ?p = path_of (ms @ fix_comps path)" using m by (simp add: FixAndCleanPath_eq Key_path_of)
  then have free: "Key drv ?p \<notin> set flight"
    using less.prems m(2) by (auto simp: path_of_inject)
  obtain r1 st1 where g: "op_Get env drv ?p False st = (r1, st1)" by fastforce
  show ?case
  proof (cases "fix_comps path = []")
    case True
    then have "?p = ''/''" by (simp add: FixAndCleanPath_root)
    then have "r1 \<noteq> Inl ObjectNotFound \<or> not_init drv"
      using g r [of st] op_Get_root [of drv env False st] by (metis fst_conv)
    then show ?thesis using g free by (auto simp: MakeDir.simps [of env drv flight path] Let_def split: sum.split)
  next
    case False
    then have d: "length (fix_comps dir) < length (fix_comps path)" using fix_comps_split_dir [OF sp] by simp
    have "set (Key drv ?p # flight) \<subseteq> {path_of (ms @ cs) |cs. valid_names cs \<and> length (fix_comps dir) < length cs}"
      using less.prems d by (fastforce simp: k)
    then have "MakeDir env drv (Key drv ?p # flight) dir st1 \<noteq> None"
      by (rule less.hyps [OF d])
    then show ?thesis using g free sp
      by (auto simp: MakeDir.simps [of env drv flight path] Let_def split: sum.split option.splits)
  qed
qed

text \<open>C26: Making a directory returns: the recursion of \<open>MakeDir\<close> towards the root never waits for a call of itself that is still in
  progress, unless the lookup of the root reports that there is no such object.\<close>

theorem MakeDir_returns:
  assumes "abs_path (GetActualMountPath (MountPath (drv_Storage drv)))" "\<forall>st. fst (get_root drv st) \<noteq> Inl ObjectNotFound"
  shows "\<exists>err st'. MakeDir env drv [] path st = Some (err, st')"
proof -
  obtain ms where "GetActualMountPath (MountPath (drv_Storage drv)) = path_of ms" "valid_names ms"
    using assms(1) by (elim abs_pathE) simp
  then have "MakeDir env drv [] path st \<noteq> None" by (rule MakeDir_flight) (use assms(2) in simp_all)
  then show ?thesis by auto
qed

theorem MakeDir_returns_witness:
  "\<exists>err st'. MakeDir mem_env (mem_driver mem_config ''/m'') [] ''/a/b'' (mem_state []) = Some (err, st')"
proof -
  have "abs_path (GetActualMountPath (MountPath (drv_Storage (mem_driver mem_config ''/m''))))"
    by (simp add: mem_driver_def sample_driver_def) code_simp
  moreover have "\<forall>st. fst (get_root (mem_driver mem_config ''/m'') st) \<noteq> Inl ObjectNotFound"
    by (simp add: get_root_def mem_driver_def on_world_def)
  ultimately show ?thesis by (rule MakeDir_returns)
qed

lemma MakeDir_waits_for_itself:
  assumes "\<not> not_init drv" "fst (get_root drv st) = Inl ObjectNotFound"
  shows "MakeDir env drv [] ''/'' st = None"
proof -
  have "op_Get env drv ''/'' False st = (Inl ObjectNotFound, snd (get_root drv st))"
    using assms by (cases "get_root drv st") (simp add: op_Get_root)
  moreover have "PathSplit ''/'' = (''/'', [])" "FixAndCleanPath ''/'' = ''/''" by code_simp+
  ultimately show ?thesis
    using assms(1) by (simp add: MakeDir.simps [of env drv "[]"] MakeDir.simps [of env drv "[Key drv ''/'']"])
qed

section \<open>Removing shows at once\<close>

lemma cached_list_hit:
  assumes "dir_entry (caches st) key = Some e" "\<not> entry_exp e (envNow env (world st))" "GetSortedObjects (envSorting env) drv (entry_data e) = (objs, dc)"
  shows "cached_list env drv key st = (Some objs, st\<lparr>caches := dir_update key (\<lambda>_. dc) (caches st)\<rparr>)"
  using assms by (simp add: cached_list_def dir_Get_def keyed_Get_def dir_entry_def)

lemma dir_entry_update: "dir_entry cm key = Some e \<Longrightarrow> dir_entry (dir_update key f cm) key = Some (e\<lparr>entry_data := f (entry_data e)\<rparr>)"
  by (simp add: dir_entry_def dir_update_def dir_modify_def)

text \<open>The directory part of a path, with its slash, has the key of the parent.\<close>

lemma Key_dir_slash:
  assumes "abs_path (GetActualMountPath (MountPath (drv_Storage drv)))" "PathSplit (path_of (cs @ [n])) = (dir, name)" "valid_names (cs @ [n])"
  shows "Key drv dir = Key drv (path_of cs)"
proof -
  obtain ms where m: "GetActualMountPath (MountPath (drv_Storage drv)) = path_of ms" "valid_names ms"
    using assms(1) by (elim abs_pathE) simp
  have "PathJoin (path_of ms) (path_of cs @ [slash]) = PathJoin (path_of ms) (path_of cs)"
  proof -
    have "Split slash (path_of ms @ slash # path_of cs @ [slash]) = Split slash (path_of ms @ slash # path_of cs) @ [[]]"
      using Split_append_slash [of slash "path_of ms @ slash # path_of cs" "[]"] by simp
    then show ?thesis
      using clean_comps_filter [of True "Split slash (path_of ms @ slash # path_of cs) @ [[]]"]
        clean_comps_filter [of True "Split slash (path_of ms @ slash # path_of cs)"]
      by (simp add: PathJoin_def Clean_rooted)
  qed
  then show ?thesis using assms(2,3) m by (auto simp: PathSplit_path_of Key_def GetFullPath_def split: if_splits)
qed

lemma remove_named_mset: "x \<in> set xs \<Longrightarrow> \<exists>y ys. remove_named (GetName x) xs = Some ys \<and> GetName y = GetName x \<and> mset xs = add_mset y (mset ys)"
proof (induction xs)
  case (Cons a xs)
  show ?case
  proof (cases "GetName a = GetName x")
    case True
    then show ?thesis by (intro exI [of _ a] exI [of _ xs]) simp
  next
    case False
    with Cons obtain y ys where "remove_named (GetName x) xs = Some ys" "GetName y = GetName x" "mset xs = add_mset y (mset ys)" by auto
    with False show ?thesis by (intro exI [of _ y] exI [of _ "a # ys"]) simp
  qed
qed simp

lemma RemoveObject_listing:
  assumes "sorts so" "dir_clean dc" "x \<in># mset (dc_objs dc)"
  shows "\<exists>y. GetName y = GetName x \<and> mset (dc_objs dc) = add_mset y (mset (fst (GetSortedObjects so meta (RemoveObject (GetName x) dc))))"
proof -
  obtain y ys where y: "remove_named (GetName x) (dc_objs dc) = Some ys" "GetName y = GetName x" "mset (dc_objs dc) = add_mset y (mset ys)"
    using remove_named_mset [of x "dc_objs dc"] assms(3) by auto
  have "dir_clean (RemoveObject (GetName x) dc)" using dir_step_clean [OF assms(1,2), of _ "OpRemove (GetName x)"] by simp
  from GetSortedObjects_mset [OF assms(1) this, of meta] y have "mset (dc_objs dc) = add_mset y (mset (fst (GetSortedObjects so meta (RemoveObject (GetName x) dc))))"
    by (simp add: RemoveObject_def)
  with y(2) show ?thesis by blast
qed

lemma Remove_cached:
  assumes i: "\<not> not_init drv" "\<not> NoCache (drv_Config drv)" "abs_path (GetActualMountPath (MountPath (drv_Storage drv)))" "fix_comps path = cs @ [n]"
    and e: "dir_entry (caches st) (Key drv (path_of cs)) = Some e" "\<not> entry_exp e (envNow env (world st))"
    and l: "GetSortedObjects (envSorting env) drv (entry_data e) = (objs, dc)" "find_named n objs = Some x"
    and x: "\<not> ObjHasMask x Temp" "\<not> ObjHasMask x NoRemove" "\<not> IsDir x"
    and d: "d_Remove drv = Some rm" "rm (UnwrapObjName x) (world st) = (None, w)" "\<not> entry_exp e (envNow env w)"
  shows "\<exists>st'. Remove env drv path st = (None, st') \<and> world st' = w \<and>
     dir_entry (caches st') (Key drv (path_of cs)) = Some (e\<lparr>entry_data := RemoveObject (GetName x) dc\<rparr>)"
proof -
  let ?k = "Key drv (path_of cs)" and ?p = "path_of (cs @ [n])"
  have v: "valid_names (cs @ [n])" using fix_comps_valid [of path] i(4) by simp
  have p: "FixAndCleanPath path = ?p" using i(4) by (simp add: FixAndCleanPath_eq)
  then have fp: "FixAndCleanPath ?p = ?p" by (metis FixAndCleanPath_eq fix_comps_FixAndCleanPath)
  obtain dir name where sp: "PathSplit ?p = (dir, name)" by fastforce
  then have n: "name = n" using PathSplit_path_of [OF v] by simp
  have kd: "Key drv dir = ?k" using Key_dir_slash [OF i(3) sp v] .
  let ?st1 = "st\<lparr>caches := dir_update ?k (\<lambda>_. dc) (caches st)\<rparr>"
  have c: "cached_list env drv (Key drv dir) st = (Some objs, ?st1)" using cached_list_hit [OF e l(1)] by (simp add: kd)
  have nr: "?p \<noteq> ''/''" "\<not> PathEqual ?p ''/''"
    using v fp FixAndCleanPath_root [of ?p] by (auto simp: PathEqual_def path_of_inject [of "cs @ [n]" "[]", simplified])
  obtain g st2 where "try_getter drv ?p ?st1 = (g, st2)" by fastforce
  from op_Get_eq [OF i(1) _ _ c, of ?p _ g st2] fp nr(1) sp n this l(2) x(1) have g: "op_Get env drv ?p True st = (Inr x, ?st1)"
    by (simp add: found_in_def is_temp_def)
  show ?thesis
    using i(1,2) p nr(2) g x d fp e(1) v
    by (simp add: Remove_def removeDirectoryObject_def on_caches_def dir_Get_def keyed_Get_def dir_entry_def Dir_path_of
      Let_def link_DeleteKey_def dir_update_def dir_modify_def)
qed

text \<open>C7: After the removal of a file that the unexpired cached listing of its directory shows, and that is neither a placeholder nor protected
  from removal, succeeded in a driver that supports it, the listing, as long as it has not expired, is given without asking the driver again and
  has lost exactly one object: one with the name of the file, and the file itself if the names of the listing are distinct.\<close>

theorem removed_file_leaves_listing:
  assumes r: "ops_reach env Ds st" "sorts (envSorting env)"
    and i: "\<not> not_init drv" "\<not> NoCache (drv_Config drv)" "abs_path (GetActualMountPath (MountPath (drv_Storage drv)))" "fix_comps path = cs @ [n]"
    and e: "dir_entry (caches st) (Key drv (path_of cs)) = Some e" "\<not> entry_exp e (envNow env (world st))"
    and l: "fst (GetSortedObjects (envSorting env) drv (entry_data e)) = objs" "find_named n objs = Some x"
    and x: "\<not> ObjHasMask x Temp" "\<not> ObjHasMask x NoRemove" "\<not> IsDir x"
    and d: "d_Remove drv = Some rm" "rm (UnwrapObjName x) (world st) = (None, w)" "\<not> entry_exp e (envNow env w)"
  shows "\<exists>st1 objs' st2 y. Remove env drv path st = (None, st1) \<and>
     op_List env drv (path_of cs) (list_args False s) st1 = (Inr objs', st2) \<and> world st2 = w \<and>
     GetName y = n \<and> mset objs = add_mset y (mset objs') \<and> (distinct (map GetName objs) \<longrightarrow> y = x)"
proof -
  obtain dc where so: "GetSortedObjects (envSorting env) drv (entry_data e) = (objs, dc)" using l(1) by (metis prod.collapse)
  from Remove_cached [OF i e so l(2) x d] obtain st1 where
    rm: "Remove env drv path st = (None, st1)" "world st1 = w" "dir_entry (caches st1) (Key drv (path_of cs)) = Some (e\<lparr>entry_data := RemoveObject (GetName x) dc\<rparr>)"
    by blast
  obtain objs' dc' where so': "GetSortedObjects (envSorting env) drv (RemoveObject (GetName x) dc) = (objs', dc')" by fastforce
  have fp: "FixAndCleanPath (path_of cs) = path_of cs"
    using i(4) fix_comps_path_of [of cs] fix_comps_valid [of path] fix_comps_no_backslash [of _ path] by (simp add: FixAndCleanPath_eq)
  have "cached_list env drv (Key drv (path_of cs)) st1 = (Some objs', st1\<lparr>caches := dir_update (Key drv (path_of cs)) (\<lambda>_. dc') (caches st1)\<rparr>)"
    by (rule cached_list_hit [OF rm(3)]) (use rm(2) d(3) so' in simp_all)
  then have list: "op_List env drv (path_of cs) (list_args False s) st1 =
      (Inr objs', st1\<lparr>caches := dir_update (Key drv (path_of cs)) (\<lambda>_. dc') (caches st1)\<rparr>)"
    using op_list_eq [OF i(1), of "list_args False s" st1 env "path_of cs" _ _ None]
    by (simp add: op_List_def fp served_def accepts_def)
  have clean: "dir_clean (entry_data e)" by (rule ops_reach_clean [OF r e(1)])
  then have dc: "dir_clean dc" "dc_objs dc = dc_objs (entry_data e)" "mset objs = mset (dc_objs dc)"
    using dir_step_clean [OF r(2) clean, of drv OpShow] dir_step_objs [of "envSorting env" drv OpShow "entry_data e"] GetSortedObjects_mset [OF r(2) clean, of drv] so by simp_all
  have "x \<in> set objs" "GetName x = n" using l(2) by (auto simp: find_named_def find_Some_iff)
  then have "x \<in># mset (dc_objs dc)" by (simp add: dc(3) [symmetric])
  from RemoveObject_listing [OF r(2) dc(1) this, of drv] obtain y where "GetName y = n" "mset objs = add_mset y (mset objs')"
    using so' dc(3) \<open>GetName x = n\<close> by auto
  moreover from this(2) have "y \<in> set objs" by (metis union_single_eq_member set_mset_mset)
  then have "y = x" if "distinct (map GetName objs)"
    using that \<open>x \<in> set objs\<close> \<open>GetName x = n\<close> \<open>GetName y = n\<close> by (auto simp: distinct_map dest: inj_onD)
  ultimately show ?thesis using rm(1,2) list by fastforce
qed

theorem removed_file_leaves_listing_witness:
  "let drv = mem_driver mem_config ''/m''; st = snd (op_List mem_env drv ''/'' (list_args False False) (mem_state [(''/a'', Some 5, 0)]));
       x = ObjWrapName ''a'' (mem_obj (''/a'', Some 5, 0))
   in \<exists>st1 objs' st2 y. Remove mem_env drv ''/a'' st = (None, st1) \<and>
     op_List mem_env drv (path_of []) (list_args False True) st1 = (Inr objs', st2) \<and> world st2 = [] \<and>
     GetName y = ''a'' \<and> mset [x] = add_mset y (mset objs') \<and> y = x"
proof -
  let ?drv = "mem_driver mem_config ''/m''" and ?a = "list_args False False" and ?x = "ObjWrapName ''a'' (mem_obj (''/a'', Some 5, 0))"
  let ?st = "snd (op_List mem_env ?drv ''/'' ?a (mem_state [(''/a'', Some 5, 0)]))"
  have st: "map_option (\<lambda>e. (fst (GetSortedObjects sample_sorting ?drv (entry_data e)), entry_exp e 0)) (dir_entry (caches ?st) (Key ?drv (path_of [])))
      = Some ([?x], False)" "world ?st = [(''/a'', Some 5, 0)]"
    by code_simp+
  then obtain e where e: "dir_entry (caches ?st) (Key ?drv (path_of [])) = Some e" "\<not> entry_exp e 0" "fst (GetSortedObjects sample_sorting ?drv (entry_data e)) = [?x]"
    by auto
  have "ops_reach mem_env {?drv} (mem_state [(''/a'', Some 5, 0)])" by (rule ops_reach.start) (simp add: mem_state_def)
  then have reach: "ops_reach mem_env {?drv} ?st" by (rule ops_reach.op [where drv = ?drv and c = "CList ''/'' ?a"]) (simp_all add: answer_def)
  have c: "\<not> not_init ?drv" "\<not> NoCache (drv_Config ?drv)" "abs_path (GetActualMountPath (MountPath (drv_Storage ?drv)))" "fix_comps ''/a'' = [] @ [''a'']"
    "find_named ''a'' [?x] = Some ?x" "\<not> ObjHasMask ?x Temp" "\<not> ObjHasMask ?x NoRemove" "\<not> IsDir ?x"
    by code_simp+
  have d: "d_Remove ?drv = Some (\<lambda>x w. (None, filter (\<lambda>e. \<not> mem_under (mem_path x) (fst e)) w))" by (simp add: mem_driver_def)
  have "filter (\<lambda>e. \<not> mem_under (mem_path (UnwrapObjName ?x)) (fst e)) [(''/a'', Some (5::int), 0 :: ObjMask)] = []"
    by code_simp
  then have rm: "(None, filter (\<lambda>e. \<not> mem_under (mem_path (UnwrapObjName ?x)) (fst e)) (world ?st)) = (None, [])"
    unfolding st(2) by simp
  from removed_file_leaves_listing [OF reach _ c(1-4) e(1) _ _ c(5-8) d rm, where s = True] e(2,3) st(2) show ?thesis
    by (simp add: mem_env_def sample_sorting_sorts Let_def)
qed

section \<open>Storages with the same keys\<close>

text \<open>A refreshed listing that is not empty is in the cache afterwards.\<close>

lemma refreshed_listing_cached:
  assumes "op_List env drv path (list_args True s) st = (Inr objs, st1)" "objs \<noteq> []" "\<not> NoCache (drv_Config drv)"
  shows "\<exists>i t. dir_entry (caches st1) (Key drv (FixAndCleanPath path)) =
     Some \<lparr>entry_id = i, entry_data = newDirectoryCache objs, entry_exp = ExpirationTime (envNow env (world st1) + wrap64 (Minute * list_ttl env drv (FixAndCleanPath path)))\<rparr>"
proof -
  let ?p = "FixAndCleanPath path" and ?a = "list_args True s"
  have ni: "\<not> not_init drv" using assms(1) by (auto simp: op_List_def op_list.simps)
  obtain r st0 where g: "op_Get env drv ?p True st = (r, st0)" by fastforce
  have "op_list env drv path ?a None st = (case (r, st0) of (Inl err, st2) \<Rightarrow> (Inl err, st2)
      | (Inr dir, st2) \<Rightarrow> validated None (list_fetch env drv ?p ?a (UnwrapObjName dir) st2))"
    using op_list_eq [OF ni, of ?a st env path None st None] g by (simp add: served_def)
  then obtain dir where f: "validated None (list_fetch env drv ?p ?a (UnwrapObjName dir) st0) = (Inr objs, st1)"
    using assms(1) by (auto simp: op_List_def split: sum.splits)
  then have f: "list_fetch env drv ?p ?a (UnwrapObjName dir) st0 = (Inr objs, st1)"
    by (auto simp: validated_def accepts_def split: prod.splits sum.splits)
  obtain r2 st2 where w: "on_world (d_List drv (UnwrapObjName dir) ?a) st0 = (r2, st2)" by fastforce
  from f w assms(2,3) show ?thesis
    by (cases r2) (auto simp: list_fetch_def Let_def on_caches_def op_emit_def dir_entry_def keyed_SetWithTTL_def keyed_SetWithExpirable_def split: if_splits)
qed

text \<open>Two storages whose mount paths differ only in the suffix for balancing share their cached listings: once one of them
  has listed a directory, the lookup of a name in it on the other returns the object of the first, without asking a driver,
  and the operations of the second storage hand this object to its own driver.\<close>

theorem balanced_storages_share_objects:
  assumes "op_List env d1 (path_of cs) (list_args True s) st = (Inr objs, st1)" "\<not> NoCache (drv_Config d1)"
    "0 \<le> wrap64 (Minute * list_ttl env d1 (FixAndCleanPath (path_of cs)))"
    "\<not> not_init d2" "GetActualMountPath (MountPath (drv_Storage d2)) = GetActualMountPath (MountPath (drv_Storage d1))"
    "abs_path (GetActualMountPath (MountPath (drv_Storage d1)))" "fix_comps path = cs @ [n]" "find_named n objs = Some x" "\<not> ObjHasMask x Temp"
  shows "\<exists>st2. op_Get env d2 path True st1 = (Inr x, st2) \<and> world st2 = world st1"
proof -
  have v: "valid_names (cs @ [n])" using fix_comps_valid [of path] assms(7) by simp
  have p: "FixAndCleanPath path = path_of (cs @ [n])" using assms(7) by (simp add: FixAndCleanPath_eq)
  have fp: "FixAndCleanPath (path_of cs) = path_of cs"
    using assms(7) v fix_comps_path_of [of cs] fix_comps_no_backslash [of _ path] by (simp add: FixAndCleanPath_eq)
  have "objs \<noteq> []" using assms(8) by (auto simp: find_named_def)
  with refreshed_listing_cached [OF assms(1) _ assms(2)] fp obtain i where e: "dir_entry (caches st1) (Key d1 (path_of cs)) =
      Some \<lparr>entry_id = i, entry_data = newDirectoryCache objs, entry_exp = ExpirationTime (envNow env (world st1) + wrap64 (Minute * list_ttl env d1 (path_of cs)))\<rparr>"
    by auto
  obtain dir name where sp: "PathSplit (path_of (cs @ [n])) = (dir, name)" by fastforce
  have k: "Key d2 dir = Key d1 (path_of cs)"
    using Key_dir_slash [of d2, OF _ sp v] assms(5,6) by (simp add: Key_def GetFullPath_def)
  have so: "GetSortedObjects (envSorting env) d2 (newDirectoryCache objs) = (objs, newDirectoryCache objs)"
    by (simp add: GetSortedObjects_def newDirectoryCache_def)
  obtain st2 where c: "cached_list env d2 (Key d2 dir) st1 = (Some objs, st2)" "world st2 = world st1"
    using cached_list_hit [OF e, of env d2] so assms(3) fp by (simp add: k ExpirationTime_def)
  have nr: "path_of (cs @ [n]) \<noteq> ''/''" using v path_of_inject [of "cs @ [n]" "[]"] by simp
  obtain g st3 where "try_getter d2 (FixAndCleanPath path) st2 = (g, st3)" by fastforce
  from op_Get_eq [OF assms(4) _ _ c(1) this, of name] p nr sp PathSplit_path_of [OF v] assms(8,9) c(2) show ?thesis
    by (simp add: found_in_def is_temp_def)
qed

theorem balanced_storages_share_objects_witness:
  "let d1 = mem_driver mem_config ''/m''; d2 = mem_driver mem_config ''/m.balance1'';
       st1 = snd (op_List mem_env d1 (path_of []) (list_args True False) (mem_state [(''/a'', Some 5, 0)]))
   in \<exists>st2. op_Get mem_env d2 ''/a'' True st1 = (Inr (ObjWrapName ''a'' (mem_obj (''/a'', Some 5, 0))), st2) \<and> world st2 = world st1"
proof -
  let ?d1 = "mem_driver mem_config ''/m''" and ?d2 = "mem_driver mem_config ''/m.balance1''" and ?x = "ObjWrapName ''a'' (mem_obj (''/a'', Some 5, 0))"
  let ?l = "op_List mem_env ?d1 (path_of []) (list_args True False) (mem_state [(''/a'', Some 5, 0)])"
  have "fst ?l = Inr [?x]" by code_simp
  then have l: "?l = (Inr [?x], snd ?l)" by (metis prod.collapse)
  have c: "\<not> NoCache (drv_Config ?d1)" "0 \<le> wrap64 (Minute * list_ttl mem_env ?d1 (FixAndCleanPath (path_of [])))" "\<not> not_init ?d2"
    "GetActualMountPath (MountPath (drv_Storage ?d2)) = GetActualMountPath (MountPath (drv_Storage ?d1))"
    "abs_path (GetActualMountPath (MountPath (drv_Storage ?d1)))" "fix_comps ''/a'' = [] @ [''a'']" "find_named ''a'' [?x] = Some ?x" "\<not> ObjHasMask ?x Temp"
    by code_simp+
  show ?thesis unfolding Let_def by (rule balanced_storages_share_objects [OF l c])
qed

end
