(* ===== verification/Settings.thy ===== *)
theory Settings
  imports Op_Cache
begin

text \<open>
  The settings of the server and their cache: \<open>internal/op/setting.go\<close>, the hooks of \<open>internal/op/hook.go\<close> that run when a
  setting is saved, \<open>internal/db/settingitem.go\<close> and \<open>internal/setting/setting.go\<close>; and the state of the server that
  these share with accounts and sharings.  The tables of the database are part of the state.  A call of the database fails
  when the environment says so, under a name for each kind of call.
\<close>

section \<open>The state of the server\<close>

record SharingDB =
  sh_ID :: string
  sh_FilesRaw :: string
  sh_Expires :: "int option"
  sh_Pwd :: string
  sh_Accessed :: int
  sh_MaxAccessed :: int
  sh_CreatorId :: nat
  sh_Disabled :: bool
  sh_Remark :: string
  sh_Readme :: string
  sh_Header :: string
  sh_OrderBy :: string
  sh_OrderDirection :: string
  sh_ExtractFolder :: string

record Sharing =
  sh_DB :: SharingDB
  sh_Files :: "string list"
  sh_Creator :: "User option"

text \<open>The variables of the package \<open>conf\<close> that hooks set.\<close>

record conf_vars =
  SlicesMap :: "string \<Rightarrow> string list option"
  FilenameCharMap :: "string \<Rightarrow> string option"
  PrivacyReg :: "string list"

record server =
  svCaches :: CacheManager
  svConf :: conf_vars
  svSettings :: "SettingItem list"
  svUsers :: "User list"
  svSharings :: "SharingDB list"
  adminUser :: "User option"
  guestUser :: "User option"
  sharingCache :: "string \<Rightarrow> Sharing option"
  validTokenCache :: "string set"
  LoginCache :: "string \<Rightarrow> (int \<times> int option) option"
  AccessCache :: "string \<Rightarrow> int option"
  callbackRuns :: nat

text \<open>What the surroundings decide: the clock, failures of the database, the key of a new row, regular expressions, JSON, the
  callbacks for changed settings, and the hooks that other packages have registered for a key, which look at the value only.\<close>

record sv_env =
  svNow :: int
  svFail :: "string \<Rightarrow> string option"
  svNewID :: nat
  svCompile :: "string \<Rightarrow> string option"
  svJsonMap :: "string \<Rightarrow> string + (string \<times> string) list"
  Migration :: "string \<Rightarrow> (string \<times> string) option"
  svCallbacks :: nat
  svRegistered :: "string \<Rightarrow> (string \<Rightarrow> string option) option"

datatype sv_error = SvDB string | SvHook string | NotDeprecated string

definition on_svCaches :: "(CacheManager \<Rightarrow> CacheManager) \<Rightarrow> server \<Rightarrow> server" where
  "on_svCaches f s = s\<lparr>svCaches := f (svCaches s)\<rparr>"

definition db_call :: "sv_env \<Rightarrow> string \<Rightarrow> (sv_error + 'a) \<Rightarrow> sv_error + 'a" where
  "db_call env op r = (case svFail env op of Some e \<Rightarrow> Inl (SvDB e) | None \<Rightarrow> r)"

section \<open>Settings\<close>

definition PUBLIC :: int where "PUBLIC = 0"

definition PRIVATE :: int where "PRIVATE = 1"

definition READONLY :: int where "READONLY = 2"

definition DEPRECATED :: int where "DEPRECATED = 3"

definition IsDeprecated :: "SettingItem \<Rightarrow> bool" where
  "IsDeprecated x \<longleftrightarrow> setFlag x = DEPRECATED"

subsection \<open>The table\<close>

definition db_GetSettingItems :: "sv_env \<Rightarrow> server \<Rightarrow> sv_error + SettingItem list" where
  "db_GetSettingItems env s = db_call env ''setting items'' (Inr (svSettings s))"

definition db_GetSettingItemByKey :: "sv_env \<Rightarrow> string \<Rightarrow> server \<Rightarrow> sv_error + SettingItem" where
  "db_GetSettingItemByKey env key s =
     db_call env ''setting''
       (case find (\<lambda>r. setKey r = key) (svSettings s) of None \<Rightarrow> Inl (SvDB ''record not found'') | Some r \<Rightarrow> Inr r)"

definition db_GetPublicSettingItems :: "sv_env \<Rightarrow> server \<Rightarrow> sv_error + SettingItem list" where
  "db_GetPublicSettingItems env s = db_call env ''public settings'' (Inr (filter (\<lambda>r. setFlag r \<in> {PUBLIC, READONLY}) (svSettings s)))"

definition db_GetSettingItemsByGroup :: "sv_env \<Rightarrow> int \<Rightarrow> server \<Rightarrow> sv_error + SettingItem list" where
  "db_GetSettingItemsByGroup env g s = db_call env ''settings by group'' (Inr (filter (\<lambda>r. setGroup r = g) (svSettings s)))"

definition db_GetSettingItemsInGroups :: "sv_env \<Rightarrow> int list \<Rightarrow> server \<Rightarrow> sv_error + SettingItem list" where
  "db_GetSettingItemsInGroups env gs s =
     db_call env ''settings in groups'' (Inr (sort_key setIndex (filter (\<lambda>r. setGroup r \<in> set gs) (svSettings s))))"

text \<open>\<open>Save\<close> overwrites the row with the same key or adds one.\<close>

definition save_row :: "SettingItem \<Rightarrow> SettingItem list \<Rightarrow> SettingItem list" where
  "save_row r rs =
     (if list_ex (\<lambda>x. setKey x = setKey r) rs then map (\<lambda>x. if setKey x = setKey r then r else x) rs else rs @ [r])"

definition db_SaveSettingItems :: "sv_env \<Rightarrow> SettingItem list \<Rightarrow> server \<Rightarrow> sv_error option \<times> server" where
  "db_SaveSettingItems env items s =
     (case svFail env ''save settings'' of
        Some e \<Rightarrow> (Some (SvDB e), s)
      | None \<Rightarrow> (None, s\<lparr>svSettings := fold save_row items (svSettings s)\<rparr>))"

definition db_DeleteSettingItemByKey :: "sv_env \<Rightarrow> string \<Rightarrow> server \<Rightarrow> sv_error option \<times> server" where
  "db_DeleteSettingItemByKey env key s =
     (case svFail env ''delete setting'' of
        Some e \<Rightarrow> (Some (SvDB e), s)
      | None \<Rightarrow> (None, s\<lparr>svSettings := filter (\<lambda>r. setKey r \<noteq> key) (svSettings s)\<rparr>))"

subsection \<open>Hooks\<close>

definition set_slice :: "string \<Rightarrow> string \<Rightarrow> server \<Rightarrow> server" where
  "set_slice key value s = s\<lparr>svConf := (svConf s)\<lparr>SlicesMap := (SlicesMap (svConf s))(key \<mapsto> Split (CHR '','') value)\<rparr>\<rparr>"

definition slice_settings :: "string list" where
  "slice_settings =
     [''video_types'', ''audio_types'', ''image_types'', ''text_types'', ''proxy_types'', ''proxy_ignore_headers'', ''ignore_direct_link_params'']"

text \<open>The loop over the expressions; the first that does not compile is the error.\<close>

fun compile_regs :: "(string \<Rightarrow> string option) \<Rightarrow> string list \<Rightarrow> string option" where
  "compile_regs compile [] = None"
| "compile_regs compile (r # rs) = (case compile r of Some e \<Rightarrow> Some e | None \<Rightarrow> compile_regs compile rs)"

text \<open>The hook of a key, if there is one.  Decoding JSON into a map that exists adds to it and removes nothing.  The hook for the chunk
  size changes the value that is saved.\<close>

definition HandleSettingItemHook :: "sv_env \<Rightarrow> SettingItem \<Rightarrow> server \<Rightarrow> bool \<times> string option \<times> SettingItem \<times> server" where
  "HandleSettingItemHook env x s =
     (if svRegistered env (setKey x) \<noteq> None then (True, the (svRegistered env (setKey x)) (setValue x), x, s)
      else if setKey x \<in> set slice_settings then (True, None, x, set_slice (setKey x) (setValue x) s)
      else if setKey x = ''privacy_regs'' then
        let regStrs = Split (CHR 0x0A) (setValue x)
        in (case compile_regs (svCompile env) regStrs of
              Some e \<Rightarrow> (True, Some e, x, s)
            | None \<Rightarrow> (True, None, x, s\<lparr>svConf := (svConf s)\<lparr>PrivacyReg := regStrs\<rparr>\<rparr>))
      else if setKey x = ''filename_char_mapping'' then
        (case svJsonMap env (setValue x) of
           Inl e \<Rightarrow> (True, Some e, x, s)
         | Inr m \<Rightarrow> (True, None, x, s\<lparr>svConf := (svConf s)\<lparr>FilenameCharMap := FilenameCharMap (svConf s) ++ map_of m\<rparr>\<rparr>))
      else if setKey x = ''multipart_chunk_size'' then
        (case ParseInt (TrimSpace (setValue x)) of
           (sz, None) \<Rightarrow>
             if sz < 1 then (True, Some ''multipart chunk size must be a positive integer'', x, s)
             else (True, None, x\<lparr>setValue := FormatInt sz\<rparr>, s)
         | (_, Some _) \<Rightarrow> (True, Some ''multipart chunk size must be a positive integer'', x, s))
      else (False, None, x, s))"

subsection \<open>Reading\<close>

definition SettingCacheUpdate :: "sv_env \<Rightarrow> server \<Rightarrow> server" where
  "SettingCacheUpdate env s = (on_svCaches ClearAll s)\<lparr>callbackRuns := callbackRuns s + svCallbacks env\<rparr>"

text \<open>Reading a group of settings through the cache.\<close>

definition cached_group :: "sv_env \<Rightarrow> string \<Rightarrow> (server \<Rightarrow> sv_error + SettingItem list) \<Rightarrow> server \<Rightarrow> (sv_error + SettingItem list) \<times> server" where
  "cached_group env key query s =
     (case GetSettingGroup (svNow env) key (svCaches s) of
        (Some items, c) \<Rightarrow> (Inr items, s\<lparr>svCaches := c\<rparr>)
      | (None, c) \<Rightarrow>
          let s1 = s\<lparr>svCaches := c\<rparr>
          in (case query s1 of
                Inl e \<Rightarrow> (Inl e, s1)
              | Inr items \<Rightarrow> (Inr items, on_svCaches (SetSettingGroup (svNow env) key items) s1)))"

definition GetSettingItems :: "sv_env \<Rightarrow> server \<Rightarrow> (sv_error + SettingItem list) \<times> server" where
  "GetSettingItems env s = cached_group env ''ALL_SETTING_ITEMS'' (db_GetSettingItems env) s"

definition GetPublicSettingItems :: "sv_env \<Rightarrow> server \<Rightarrow> (sv_error + SettingItem list) \<times> server" where
  "GetPublicSettingItems env s = cached_group env ''ALL_PUBLIC_SETTING_ITEMS'' (db_GetPublicSettingItems env) s"

definition GetSettingItemByKey :: "sv_env \<Rightarrow> string \<Rightarrow> server \<Rightarrow> (sv_error + SettingItem) \<times> server" where
  "GetSettingItemByKey env key s =
     (case GetSetting (svNow env) key (svCaches s) of
        (Some x, c) \<Rightarrow> (Inr x, s\<lparr>svCaches := c\<rparr>)
      | (None, c) \<Rightarrow>
          let s1 = s\<lparr>svCaches := c\<rparr>
          in (case db_GetSettingItemByKey env key s1 of
                Inl e \<Rightarrow> (Inl e, s1)
              | Inr x \<Rightarrow> (Inr x, on_svCaches (SetSetting (svNow env) (setKey x) x) s1)))"

fun GetSettingItemInKeys :: "sv_env \<Rightarrow> string list \<Rightarrow> server \<Rightarrow> (sv_error + SettingItem list) \<times> server" where
  "GetSettingItemInKeys env [] s = (Inr [], s)"
| "GetSettingItemInKeys env (key # keys) s =
     (case GetSettingItemByKey env key s of
        (Inl e, s1) \<Rightarrow> (Inl e, s1)
      | (Inr x, s1) \<Rightarrow>
          (case GetSettingItemInKeys env keys s1 of
             (Inl e, s2) \<Rightarrow> (Inl e, s2)
           | (Inr xs, s2) \<Rightarrow> (Inr (x # xs), s2)))"

definition GetSettingItemsByGroup :: "sv_env \<Rightarrow> int \<Rightarrow> server \<Rightarrow> (sv_error + SettingItem list) \<times> server" where
  "GetSettingItemsByGroup env g s = cached_group env (''GROUP_'' @ FormatInt g) (db_GetSettingItemsByGroup env g) s"

definition GetSettingItemsInGroups :: "sv_env \<Rightarrow> int list \<Rightarrow> server \<Rightarrow> (sv_error + SettingItem list) \<times> server" where
  "GetSettingItemsInGroups env groups0 s =
     (let groups = sort groups0
      in cached_group env (''GROUPS_'' @ Join (map FormatInt groups) ''_'') (db_GetSettingItemsInGroups env groups) s)"

definition settings_map :: "SettingItem list \<Rightarrow> string \<Rightarrow> string option" where
  "settings_map items = fold (\<lambda>x m. m(setKey x \<mapsto> setValue x)) items (\<lambda>_. None)"

definition GetPublicSettingsMap :: "sv_env \<Rightarrow> server \<Rightarrow> (string \<Rightarrow> string option) \<times> server" where
  "GetPublicSettingsMap env s =
     (case GetPublicSettingItems env s of (r, s1) \<Rightarrow> (settings_map (case r of Inl _ \<Rightarrow> [] | Inr items \<Rightarrow> items), s1))"

definition GetSettingsMap :: "sv_env \<Rightarrow> server \<Rightarrow> (string \<Rightarrow> string option) \<times> server" where
  "GetSettingsMap env s =
     (case GetSettingItems env s of (r, s1) \<Rightarrow> (settings_map (case r of Inl _ \<Rightarrow> [] | Inr items \<Rightarrow> items), s1))"

definition GetStr :: "sv_env \<Rightarrow> string \<Rightarrow> string \<Rightarrow> server \<Rightarrow> string \<times> server" where
  "GetStr env key defaultValue s =
     (case GetSettingItemByKey env key s of (Inl _, s1) \<Rightarrow> (defaultValue, s1) | (Inr x, s1) \<Rightarrow> (setValue x, s1))"

definition GetInt :: "sv_env \<Rightarrow> string \<Rightarrow> int \<Rightarrow> server \<Rightarrow> int \<times> server" where
  "GetInt env key defaultVal s =
     (case GetStr env key [] s of (v, s1) \<Rightarrow> (case ParseInt v of (i, None) \<Rightarrow> i | (_, Some _) \<Rightarrow> defaultVal, s1))"

definition GetBool :: "sv_env \<Rightarrow> string \<Rightarrow> server \<Rightarrow> bool \<times> server" where
  "GetBool env key s =
     (case GetStr env key [] s of
        (v, s1) \<Rightarrow> if v = ''true'' then (True, s1) else (case GetStr env key [] s1 of (v2, s2) \<Rightarrow> (v2 = ''1'', s2)))"

subsection \<open>Writing\<close>

definition migrate :: "sv_env \<Rightarrow> SettingItem \<Rightarrow> SettingItem" where
  "migrate env x =
     (case Migration env (setKey x) of
        Some (old, new) \<Rightarrow> if setValue x = old then x\<lparr>setValue := new\<rparr> else x
      | None \<Rightarrow> x)"

text \<open>The loop of \<open>SaveSettingItems\<close> over the items, which changes them in place.\<close>

fun prepare_items :: "sv_env \<Rightarrow> SettingItem list \<Rightarrow> server \<Rightarrow> (sv_error + SettingItem list) \<times> server" where
  "prepare_items env [] s = (Inr [], s)"
| "prepare_items env (x0 # xs) s =
     (case HandleSettingItemHook env (migrate env x0) s of
        (True, Some e, x, s1) \<Rightarrow> (Inl (SvHook e), s1)
      | (_, _, x, s1) \<Rightarrow>
          (case prepare_items env xs s1 of
             (Inl e, s2) \<Rightarrow> (Inl e, s2)
           | (Inr ys, s2) \<Rightarrow> (Inr (x # ys), s2)))"

definition SaveSettingItems :: "sv_env \<Rightarrow> SettingItem list \<Rightarrow> server \<Rightarrow> sv_error option \<times> server" where
  "SaveSettingItems env items s =
     (case prepare_items env items s of
        (Inl e, s1) \<Rightarrow> (Some e, s1)
      | (Inr items', s1) \<Rightarrow>
          (case db_SaveSettingItems env items' s1 of
             (Some e, s2) \<Rightarrow> (Some e, s2)
           | (None, s2) \<Rightarrow> (None, SettingCacheUpdate env s2)))"

definition SaveSettingItem :: "sv_env \<Rightarrow> SettingItem \<Rightarrow> server \<Rightarrow> sv_error option \<times> server" where
  "SaveSettingItem env x0 s =
     (case HandleSettingItemHook env (migrate env x0) s of
        (_, Some e, x, s1) \<Rightarrow> (Some (SvHook e), s1)
      | (_, None, x, s1) \<Rightarrow>
          (case db_SaveSettingItems env [x] s1 of
             (Some e, s2) \<Rightarrow> (Some e, s2)
           | (None, s2) \<Rightarrow> (None, SettingCacheUpdate env s2)))"

text \<open>Deleting clears the caches first and the row afterwards.\<close>

definition DeleteSetting_begin :: "sv_env \<Rightarrow> string \<Rightarrow> server \<Rightarrow> sv_error option \<times> server" where
  "DeleteSetting_begin env key s =
     (case GetSettingItemByKey env key s of
        (Inl e, s1) \<Rightarrow> (Some e, s1)
      | (Inr old, s1) \<Rightarrow> if \<not> IsDeprecated old then (Some (NotDeprecated key), s1) else (None, SettingCacheUpdate env s1))"

definition DeleteSettingItemByKey :: "sv_env \<Rightarrow> string \<Rightarrow> server \<Rightarrow> sv_error option \<times> server" where
  "DeleteSettingItemByKey env key s =
     (case DeleteSetting_begin env key s of
        (Some e, s1) \<Rightarrow> (Some e, s1)
      | (None, s1) \<Rightarrow> db_DeleteSettingItemByKey env key s1)"

section \<open>What the caches hold\<close>

text \<open>Every entry of a cache satisfies a relation between its key and its value.\<close>

definition cache_agrees :: "(string \<Rightarrow> 'v \<Rightarrow> bool) \<Rightarrow> ('t, 'v) KeyedCache \<Rightarrow> bool" where
  "cache_agrees A c \<longleftrightarrow> (\<forall>k e. map_of (kEntries c) k = Some e \<longrightarrow> A k (entry_data e))"

lemma agrees_Get:
  assumes "cache_agrees A c" "keyed_Get c now key = (r, c')"
  shows "cache_agrees A c' \<and> (\<forall>v. r = Some v \<longrightarrow> A key v)"
  using assms by (auto simp: cache_agrees_def keyed_Get_def keyed_Get_evict_def split: option.splits if_splits)

lemma agrees_Set: "cache_agrees A c \<Longrightarrow> A key v \<Longrightarrow> cache_agrees A (keyed_Set c now key v)"
  by (auto simp: cache_agrees_def keyed_Set_def keyed_SetWithExpirable_def)

lemma agrees_Delete:
  "(\<And>k v. k \<noteq> key \<Longrightarrow> A k v \<Longrightarrow> B k v) \<Longrightarrow> cache_agrees A c \<Longrightarrow> cache_agrees B (keyed_Delete c key)"
  by (auto simp: cache_agrees_def keyed_Delete_def)

lemma agrees_Clear [simp]: "cache_agrees A (keyed_Clear c)"
  by (simp add: cache_agrees_def keyed_Clear_def)

lemma agrees_New [simp]: "cache_agrees A (NewKeyedCache ttl)"
  by (simp add: cache_agrees_def NewKeyedCache_def)

text \<open>The answer of the table to a group key.\<close>

inductive group_answer :: "SettingItem list \<Rightarrow> string \<Rightarrow> SettingItem list \<Rightarrow> bool" for rows where
  all: "group_answer rows ''ALL_SETTING_ITEMS'' rows"
| public: "group_answer rows ''ALL_PUBLIC_SETTING_ITEMS'' (filter (\<lambda>r. setFlag r \<in> {PUBLIC, READONLY}) rows)"
| one: "group_answer rows (''GROUP_'' @ FormatInt g) (filter (\<lambda>r. setGroup r = g) rows)"
| many: "sorted gs \<Longrightarrow> group_answer rows (''GROUPS_'' @ Join (map FormatInt gs) ''_'') (sort_key setIndex (filter (\<lambda>r. setGroup r \<in> set gs) rows))"

definition setting_agrees :: "SettingItem list \<Rightarrow> string \<Rightarrow> setting_data \<Rightarrow> bool" where
  "setting_agrees rows k d =
     (case d of SettingOne x \<Rightarrow> find (\<lambda>r. setKey r = k) rows = Some x | SettingMany xs \<Rightarrow> group_answer rows k xs)"

definition settings_ok :: "server \<Rightarrow> bool" where
  "settings_ok s \<longleftrightarrow> cache_agrees (setting_agrees (svSettings s)) (settingCache (svCaches s))"

lemma find_setKey: "find (\<lambda>r. setKey r = k) rows = Some x \<Longrightarrow> setKey x = k"
  by (auto simp: find_Some_iff)

lemma db_setting_key: "db_GetSettingItemByKey env key s = Inr x \<Longrightarrow> setKey x = key \<and> find (\<lambda>r. setKey r = key) (svSettings s) = Some x"
  by (auto simp: db_GetSettingItemByKey_def db_call_def dest: find_setKey split: option.splits)

lemma cached_group_ok:
  assumes "settings_ok s" "\<And>s1 items. svSettings s1 = svSettings s \<Longrightarrow> query s1 = Inr items \<Longrightarrow> group_answer (svSettings s) key items"
    "cached_group env key query s = (r, s')"
  shows "settings_ok s' \<and> svSettings s' = svSettings s \<and> (\<forall>items. r = Inr items \<longrightarrow> group_answer (svSettings s) key items)"
proof -
  obtain g c where g: "keyed_Get (settingCache (svCaches s)) (svNow env) key = (g, c)" by fastforce
  from agrees_Get [OF assms(1) [unfolded settings_ok_def] g] have ok: "cache_agrees (setting_agrees (svSettings s)) c"
    and hit: "\<And>v. g = Some v \<Longrightarrow> setting_agrees (svSettings s) key v" by auto
  from assms(3) assms(2) [of "s\<lparr>svCaches := (svCaches s)\<lparr>settingCache := c\<rparr>\<rparr>"] ok hit show ?thesis
    by (auto simp: cached_group_def GetSettingGroup_def g on_svCaches_def SetSettingGroup_def settings_ok_def setting_agrees_def Let_def
      intro!: agrees_Set split: option.splits setting_data.splits sum.splits)
qed

lemma Join_FormatInt_inj: "Join (map FormatInt gs) ''_'' = Join (map FormatInt hs) ''_'' \<Longrightarrow> gs = hs"
proof -
  assume eq: "Join (map FormatInt gs) ''_'' = Join (map FormatInt hs) ''_''"
  have no: "CHR ''_'' \<notin> set x" if "x \<in> set (map FormatInt ks)" for x ks
    using that by (auto dest!: FormatInt_chars simp: is_digit_def)
  have "Join (map FormatInt ks) ''_'' = [] \<longleftrightarrow> ks = []" for ks
    by (cases ks) (auto simp: Join_Cons)
  then have "gs = [] \<longleftrightarrow> hs = []" using eq by metis
  then have "map FormatInt gs = map FormatInt hs"
    using Split_Join [of "map FormatInt gs" "CHR ''_''"] Split_Join [of "map FormatInt hs" "CHR ''_''"] eq no by (cases "gs = []") (simp, metis map_is_Nil_conv)
  then show "gs = hs" by (rule map_injective) (auto intro: injI FormatInt_inj)
qed

lemma group_answer_unique: "group_answer rows k xs \<Longrightarrow> group_answer rows k ys \<Longrightarrow> xs = ys"
  by (auto elim!: group_answer.cases dest: FormatInt_inj Join_FormatInt_inj)

lemma GetSettingItemByKey_ok:
  assumes "settings_ok s" "GetSettingItemByKey env key s = (r, s')"
  shows "settings_ok s' \<and> svSettings s' = svSettings s \<and> (\<forall>x. r = Inr x \<longrightarrow> find (\<lambda>r. setKey r = key) (svSettings s) = Some x)"
proof -
  obtain g c where g: "keyed_Get (settingCache (svCaches s)) (svNow env) key = (g, c)" by fastforce
  from agrees_Get [OF assms(1) [unfolded settings_ok_def] g] have ok: "cache_agrees (setting_agrees (svSettings s)) c"
    and hit: "\<And>v. g = Some v \<Longrightarrow> setting_agrees (svSettings s) key v" by auto
  let ?s1 = "s\<lparr>svCaches := (svCaches s)\<lparr>settingCache := c\<rparr>\<rparr>"
  show ?thesis
  proof (cases "GetSetting (svNow env) key (svCaches s)")
    case (Pair h c1)
    then have c1: "c1 = (svCaches s)\<lparr>settingCache := c\<rparr>" and h: "\<And>x. h = Some x \<Longrightarrow> setting_agrees (svSettings s) key (SettingOne x)"
      using g hit by (auto simp: GetSetting_def split: option.splits setting_data.splits)
    show ?thesis
    proof (cases h)
      case None
      show ?thesis
      proof (cases "db_GetSettingItemByKey env key ?s1")
        case (Inr x)
        with None Pair c1 assms(2) ok db_setting_key [OF Inr] show ?thesis
          by (auto simp: GetSettingItemByKey_def Let_def settings_ok_def on_svCaches_def SetSetting_def setting_agrees_def intro!: agrees_Set)
      qed (use None Pair c1 assms(2) ok in \<open>auto simp: GetSettingItemByKey_def Let_def settings_ok_def\<close>)
    next
      case (Some x)
      with Pair c1 h assms(2) ok show ?thesis by (auto simp: GetSettingItemByKey_def settings_ok_def setting_agrees_def)
    qed
  qed
qed

lemma settings_ok_update: "settings_ok (SettingCacheUpdate env s)"
  by (simp add: settings_ok_def SettingCacheUpdate_def on_svCaches_def ClearAll_def)

lemma settings_ok_cong:
  "svSettings s' = svSettings s \<Longrightarrow> settingCache (svCaches s') = settingCache (svCaches s) \<Longrightarrow> settings_ok s' = settings_ok s"
  by (simp add: settings_ok_def)

lemma hook_keeps:
  "HandleSettingItemHook env x s = (h, e, y, s') \<Longrightarrow> svSettings s' = svSettings s \<and> svCaches s' = svCaches s"
  by (auto simp: HandleSettingItemHook_def set_slice_def Let_def split: if_splits option.splits sum.splits prod.splits)

lemma prepare_Cons:
  assumes "HandleSettingItemHook env (migrate env x0) s = (h, e, x, s1)"
  shows "prepare_items env (x0 # xs) s =
     (if h \<and> e \<noteq> None then (Inl (SvHook (the e)), s1)
      else case prepare_items env xs s1 of (Inl err, s2) \<Rightarrow> (Inl err, s2) | (Inr ys, s2) \<Rightarrow> (Inr (x # ys), s2))"
  using assms by (cases h; cases e) simp_all

lemma prepare_keeps:
  "prepare_items env xs s = (r, s') \<Longrightarrow> svSettings s' = svSettings s \<and> svCaches s' = svCaches s"
proof (induction xs arbitrary: s r s')
  case (Cons x0 xs)
  obtain h e x s1 where hk: "HandleSettingItemHook env (migrate env x0) s = (h, e, x, s1)" by (metis prod_cases4)
  obtain r2 s2 where p: "prepare_items env xs s1 = (r2, s2)" by fastforce
  from Cons.prems Cons.IH [OF p] p hook_keeps [OF hk] show ?case
    unfolding prepare_Cons [OF hk] by (cases r2) (auto split: if_splits)
qed simp

lemma SaveSettingItems_ok: "settings_ok s \<Longrightarrow> settings_ok (snd (SaveSettingItems env items s))"
proof -
  assume ok: "settings_ok s"
  obtain r s1 where p: "prepare_items env items s = (r, s1)" by fastforce
  from prepare_keeps [OF p] ok have ok1: "settings_ok s1" by (simp add: settings_ok_def)
  show ?thesis
  proof (cases r)
    case (Inr items')
    then show ?thesis using p ok1 by (simp add: SaveSettingItems_def db_SaveSettingItems_def settings_ok_update split: option.split)
  qed (use p ok1 in \<open>simp add: SaveSettingItems_def\<close>)
qed

lemma SaveSettingItem_ok: "settings_ok s \<Longrightarrow> settings_ok (snd (SaveSettingItem env x s))"
proof -
  assume ok: "settings_ok s"
  obtain h e y s1 where hk: "HandleSettingItemHook env (migrate env x) s = (h, e, y, s1)" by (metis prod_cases4)
  from hook_keeps [OF hk] ok have "settings_ok s1" by (simp add: settings_ok_def)
  with hk show ?thesis by (cases e) (simp_all add: SaveSettingItem_def db_SaveSettingItems_def settings_ok_update split: option.split)
qed

text \<open>A cleared cache agrees with any table.\<close>

lemma DeleteSettingItemByKey_ok: "settings_ok s \<Longrightarrow> settings_ok (snd (DeleteSettingItemByKey env key s))"
proof -
  assume ok: "settings_ok s"
  obtain r s1 where g: "GetSettingItemByKey env key s = (r, s1)" by fastforce
  have "settings_ok s1" using GetSettingItemByKey_ok [OF ok g] by simp
  moreover have "settings_ok ((SettingCacheUpdate env s1)\<lparr>svSettings := rows\<rparr>)" for rows
    by (simp add: settings_ok_def SettingCacheUpdate_def on_svCaches_def ClearAll_def)
  ultimately show ?thesis using g
    by (cases r) (auto simp: DeleteSettingItemByKey_def DeleteSetting_begin_def db_DeleteSettingItemByKey_def settings_ok_update split: option.split)
qed

lemma group_query:
  assumes "settings_ok s" "group_answer (svSettings s) key ans" "\<And>s1. svSettings s1 = svSettings s \<Longrightarrow> query s1 = db_call env n (Inr ans)"
    "cached_group env key query s = (r, s')"
  shows "settings_ok s' \<and> svSettings s' = svSettings s \<and> (\<forall>xs. r = Inr xs \<longrightarrow> xs = ans)"
proof -
  have "settings_ok s' \<and> svSettings s' = svSettings s \<and> (\<forall>items. r = Inr items \<longrightarrow> group_answer (svSettings s) key items)"
    by (rule cached_group_ok [OF assms(1) _ assms(4)]) (use assms(2,3) in \<open>auto simp: db_call_def split: option.splits\<close>)
  with group_answer_unique [OF assms(2)] show ?thesis by blast
qed

lemma GetSettingItems_ok:
  assumes "settings_ok s" "GetSettingItems env s = (r, s')"
  shows "settings_ok s' \<and> svSettings s' = svSettings s \<and> (\<forall>xs. r = Inr xs \<longrightarrow> xs = svSettings s)"
  by (rule group_query [OF assms(1) group_answer.all _ assms(2) [unfolded GetSettingItems_def]]) (simp add: db_GetSettingItems_def)

lemma GetPublicSettingItems_ok:
  assumes "settings_ok s" "GetPublicSettingItems env s = (r, s')"
  shows "settings_ok s' \<and> svSettings s' = svSettings s \<and> (\<forall>xs. r = Inr xs \<longrightarrow> xs = filter (\<lambda>r. setFlag r \<in> {PUBLIC, READONLY}) (svSettings s))"
  by (rule group_query [OF assms(1) group_answer.public _ assms(2) [unfolded GetPublicSettingItems_def]]) (simp add: db_GetPublicSettingItems_def)

lemma GetSettingItemsByGroup_ok:
  assumes "settings_ok s" "GetSettingItemsByGroup env g s = (r, s')"
  shows "settings_ok s' \<and> svSettings s' = svSettings s \<and> (\<forall>xs. r = Inr xs \<longrightarrow> xs = filter (\<lambda>r. setGroup r = g) (svSettings s))"
  by (rule group_query [OF assms(1) group_answer.one _ assms(2) [unfolded GetSettingItemsByGroup_def]]) (simp add: db_GetSettingItemsByGroup_def)

lemma GetSettingItemsInGroups_ok:
  assumes "settings_ok s" "GetSettingItemsInGroups env gs s = (r, s')"
  shows "settings_ok s' \<and> svSettings s' = svSettings s \<and>
     (\<forall>xs. r = Inr xs \<longrightarrow> xs = sort_key setIndex (filter (\<lambda>r. setGroup r \<in> set gs) (svSettings s)))"
proof -
  have "settings_ok s' \<and> svSettings s' = svSettings s \<and>
     (\<forall>xs. r = Inr xs \<longrightarrow> xs = sort_key setIndex (filter (\<lambda>r. setGroup r \<in> set (sort gs)) (svSettings s)))"
    by (rule group_query [OF assms(1) group_answer.many _ assms(2) [unfolded GetSettingItemsInGroups_def Let_def]])
      (simp_all add: db_GetSettingItemsInGroups_def)
  then show ?thesis by simp
qed

end
