(* ===== verification/Accounts.thy ===== *)
theory Accounts
  imports Settings
begin

text \<open>
  Accounts and their caches: \<open>internal/op/user.go\<close> over \<open>internal/db/user.go\<close>.  A row saved without a key gets a new one;
  the name of a user is unique.  A condition built from a struct ignores fields that have their zero value, so asking for the
  empty name would match every row.  \<open>UpdateUser\<close> and \<open>DeleteUserById\<close> drop the cached user before they write the table; the two
  parts are functions of their own, as are the two parts of a lookup that misses the cache.
\<close>

section \<open>The table\<close>

datatype user_op_error = EmptyUsername | DeleteAdminOrGuest | UserDB string

definition user_call :: "sv_env \<Rightarrow> string \<Rightarrow> (user_op_error + 'a) \<Rightarrow> user_op_error + 'a" where
  "user_call env op r = (case svFail env op of Some e \<Rightarrow> Inl (UserDB e) | None \<Rightarrow> r)"

definition first_row :: "('a \<Rightarrow> bool) \<Rightarrow> 'a list \<Rightarrow> user_op_error + 'a" where
  "first_row P rows = (case find P rows of None \<Rightarrow> Inl (UserDB ''record not found'') | Some r \<Rightarrow> Inr r)"

definition db_GetUserByRole :: "sv_env \<Rightarrow> int \<Rightarrow> server \<Rightarrow> user_op_error + User" where
  "db_GetUserByRole env role s = user_call env ''user by role'' (first_row (\<lambda>u. role = 0 \<or> Role u = role) (svUsers s))"

definition db_GetUserByName :: "sv_env \<Rightarrow> string \<Rightarrow> server \<Rightarrow> user_op_error + User" where
  "db_GetUserByName env name s = user_call env ''user by name'' (first_row (\<lambda>u. name = [] \<or> Username u = name) (svUsers s))"

definition db_GetUserById :: "sv_env \<Rightarrow> nat \<Rightarrow> server \<Rightarrow> user_op_error + User" where
  "db_GetUserById env i s = user_call env ''user by id'' (first_row (\<lambda>u. ID u = i) (svUsers s))"

text \<open>The column \<open>allow_ldap\<close> has a default, which replaces the value \<open>false\<close> when a row is created.\<close>

definition db_CreateUser :: "sv_env \<Rightarrow> User \<Rightarrow> server \<Rightarrow> user_op_error option \<times> server" where
  "db_CreateUser env u s =
     (case svFail env ''create user'' of
        Some e \<Rightarrow> (Some (UserDB e), s)
      | None \<Rightarrow>
          let u' = u\<lparr>ID := (if ID u = 0 then svNewID env else ID u), AllowLdap := True\<rparr>
          in if list_ex (\<lambda>r. ID r = ID u' \<or> Username r = Username u') (svUsers s) then (Some (UserDB ''UNIQUE constraint failed''), s)
             else (None, s\<lparr>svUsers := svUsers s @ [u']\<rparr>))"

definition db_UpdateUser :: "sv_env \<Rightarrow> User \<Rightarrow> server \<Rightarrow> user_op_error option \<times> server" where
  "db_UpdateUser env u s =
     (if \<not> list_ex (\<lambda>r. ID r = ID u) (svUsers s) then db_CreateUser env u s
      else case svFail env ''save user'' of
        Some e \<Rightarrow> (Some (UserDB e), s)
      | None \<Rightarrow>
          if list_ex (\<lambda>r. Username r = Username u \<and> ID r \<noteq> ID u) (svUsers s) then (Some (UserDB ''UNIQUE constraint failed''), s)
          else (None, s\<lparr>svUsers := map (\<lambda>r. if ID r = ID u then u else r) (svUsers s)\<rparr>))"

definition db_DeleteUserById :: "sv_env \<Rightarrow> nat \<Rightarrow> server \<Rightarrow> user_op_error option \<times> server" where
  "db_DeleteUserById env i s =
     (case svFail env ''delete user'' of
        Some e \<Rightarrow> (Some (UserDB e), s)
      | None \<Rightarrow> (None, s\<lparr>svUsers := filter (\<lambda>r. ID r \<noteq> i) (svUsers s)\<rparr>))"

definition db_DeleteSharingsByCreatorId :: "sv_env \<Rightarrow> nat \<Rightarrow> server \<Rightarrow> user_op_error option \<times> server" where
  "db_DeleteSharingsByCreatorId env creatorId s =
     (case svFail env ''delete sharings of user'' of
        Some e \<Rightarrow> (Some (UserDB e), s)
      | None \<Rightarrow> (None, s\<lparr>svSharings := filter (\<lambda>r. sh_CreatorId r \<noteq> creatorId) (svSharings s)\<rparr>))"

text \<open>A page of the users; sizes and offsets are 64-bit.\<close>

definition db_page :: "int \<Rightarrow> int \<Rightarrow> 'a list \<Rightarrow> 'a list" where
  "db_page pageIndex pageSize rows = take (nat pageSize) (drop (nat (wrap64 ((pageIndex - 1) * pageSize))) rows)"

definition GetUsers :: "sv_env \<Rightarrow> int \<Rightarrow> int \<Rightarrow> server \<Rightarrow> user_op_error + User list \<times> nat" where
  "GetUsers env pageIndex pageSize s = user_call env ''users'' (Inr (db_page pageIndex pageSize (svUsers s), length (svUsers s)))"

section \<open>Operations\<close>

definition GetAdmin :: "sv_env \<Rightarrow> server \<Rightarrow> (user_op_error + User) \<times> server" where
  "GetAdmin env s =
     (case adminUser s of
        Some u \<Rightarrow> (Inr u, s)
      | None \<Rightarrow> (case db_GetUserByRole env ADMIN s of Inl e \<Rightarrow> (Inl e, s) | Inr u \<Rightarrow> (Inr u, s\<lparr>adminUser := Some u\<rparr>)))"

definition GetGuest :: "sv_env \<Rightarrow> server \<Rightarrow> (user_op_error + User) \<times> server" where
  "GetGuest env s =
     (case guestUser s of
        Some u \<Rightarrow> (Inr u, s)
      | None \<Rightarrow> (case db_GetUserByRole env GUEST s of Inl e \<Rightarrow> (Inl e, s) | Inr u \<Rightarrow> (Inr u, s\<lparr>guestUser := Some u\<rparr>)))"

text \<open>The end of \<open>GetUserByName\<close>, which caches what the table answered.\<close>

definition GetUserByName_fill :: "sv_env \<Rightarrow> string \<Rightarrow> User \<Rightarrow> server \<Rightarrow> server" where
  "GetUserByName_fill env username u s = on_svCaches (SetUser (svNow env) username u) s"

definition GetUserByName :: "sv_env \<Rightarrow> string \<Rightarrow> server \<Rightarrow> (user_op_error + User) \<times> server" where
  "GetUserByName env username s =
     (if username = [] then (Inl EmptyUsername, s)
      else case GetUser (svNow env) username (svCaches s) of
        (Some u, c) \<Rightarrow> (Inr u, s\<lparr>svCaches := c\<rparr>)
      | (None, c) \<Rightarrow>
          let s1 = s\<lparr>svCaches := c\<rparr>
          in (case db_GetUserByName env username s1 of
                Inl e \<Rightarrow> (Inl e, s1)
              | Inr u \<Rightarrow> (Inr u, GetUserByName_fill env username u s1)))"

definition CreateUser :: "sv_env \<Rightarrow> User \<Rightarrow> server \<Rightarrow> user_op_error option \<times> server" where
  "CreateUser env u s = db_CreateUser env (u\<lparr>BasePath := FixAndCleanPath (BasePath u)\<rparr>) s"

definition DeleteUser_begin :: "sv_env \<Rightarrow> nat \<Rightarrow> server \<Rightarrow> user_op_error option \<times> server" where
  "DeleteUser_begin env i s =
     (case db_GetUserById env i s of
        Inl e \<Rightarrow> (Some e, s)
      | Inr old \<Rightarrow>
          if IsAdmin old \<or> IsGuest old then (Some DeleteAdminOrGuest, s)
          else db_DeleteSharingsByCreatorId env i (on_svCaches (DeleteUser (Username old)) s))"

definition DeleteUserById :: "sv_env \<Rightarrow> nat \<Rightarrow> server \<Rightarrow> user_op_error option \<times> server" where
  "DeleteUserById env i s =
     (case DeleteUser_begin env i s of (Some e, s1) \<Rightarrow> (Some e, s1) | (None, s1) \<Rightarrow> db_DeleteUserById env i s1)"

definition UpdateUser_begin :: "sv_env \<Rightarrow> User \<Rightarrow> server \<Rightarrow> user_op_error option \<times> server" where
  "UpdateUser_begin env u s =
     (case db_GetUserById env (ID u) s of
        Inl e \<Rightarrow> (Some e, s)
      | Inr old \<Rightarrow>
          let s1 = (if IsAdmin u then s\<lparr>adminUser := None\<rparr> else s);
              s2 = (if IsGuest u then s1\<lparr>guestUser := None\<rparr> else s1)
          in (None, on_svCaches (DeleteUser (Username old)) s2))"

definition UpdateUser_commit :: "sv_env \<Rightarrow> User \<Rightarrow> server \<Rightarrow> user_op_error option \<times> server" where
  "UpdateUser_commit env u s = db_UpdateUser env (u\<lparr>BasePath := FixAndCleanPath (BasePath u)\<rparr>) s"

definition UpdateUser :: "sv_env \<Rightarrow> User \<Rightarrow> server \<Rightarrow> user_op_error option \<times> server" where
  "UpdateUser env u s =
     (case UpdateUser_begin env u s of (Some e, s1) \<Rightarrow> (Some e, s1) | (None, s1) \<Rightarrow> UpdateUser_commit env u s1)"

definition Cancel2FAByUser :: "sv_env \<Rightarrow> User \<Rightarrow> server \<Rightarrow> user_op_error option \<times> server" where
  "Cancel2FAByUser env u s = UpdateUser env (u\<lparr>OtpSecret := []\<rparr>) s"

definition Cancel2FAById :: "sv_env \<Rightarrow> nat \<Rightarrow> server \<Rightarrow> user_op_error option \<times> server" where
  "Cancel2FAById env i s = (case db_GetUserById env i s of Inl e \<Rightarrow> (Some e, s) | Inr u \<Rightarrow> Cancel2FAByUser env u s)"

definition DelUserCache :: "sv_env \<Rightarrow> string \<Rightarrow> server \<Rightarrow> user_op_error option \<times> server" where
  "DelUserCache env username s =
     (case GetUserByName env username s of
        (Inl e, s1) \<Rightarrow> (Some e, s1)
      | (Inr u, s1) \<Rightarrow>
          let s2 = (if IsAdmin u then s1\<lparr>adminUser := None\<rparr> else s1);
              s3 = (if IsGuest u then s2\<lparr>guestUser := None\<rparr> else s2)
          in (None, on_svCaches (DeleteUser username) s3))"

section \<open>The caches agree with the table\<close>

definition named :: "User list \<Rightarrow> string \<Rightarrow> User \<Rightarrow> bool" where
  "named us n u \<longleftrightarrow> u \<in> set us \<and> Username u = n"

definition users_ok :: "server \<Rightarrow> bool" where
  "users_ok s \<longleftrightarrow>
     distinct (map ID (svUsers s)) \<and> distinct (map Username (svUsers s)) \<and>
     cache_agrees (named (svUsers s)) (userCache (svCaches s)) \<and>
     (\<forall>u. adminUser s = Some u \<longrightarrow> u \<in> set (svUsers s) \<and> IsAdmin u) \<and>
     (\<forall>u. guestUser s = Some u \<longrightarrow> u \<in> set (svUsers s) \<and> IsGuest u)"

lemma first_rowD: "first_row P rows = Inr r \<Longrightarrow> r \<in> set rows \<and> P r"
  by (auto simp: first_row_def find_Some_iff split: option.splits)

lemma user_callD: "user_call env op r = Inr x \<Longrightarrow> r = Inr x"
  by (simp add: user_call_def split: option.splits)

lemma cache_agrees_mono: "cache_agrees A c \<Longrightarrow> (\<And>k v. A k v \<Longrightarrow> B k v) \<Longrightarrow> cache_agrees B c"
  by (auto simp: cache_agrees_def)

lemma userCache_simps [simp]:
  "userCache (SetUser now n u cm) = keyed_Set (userCache cm) now n u" "userCache (DeleteUser n cm) = keyed_Delete (userCache cm) n"
  "userCache (SetSetting now k x cm) = userCache cm" "userCache (SetSettingGroup now k xs cm) = userCache cm"
  "settingCache (SetUser now n u cm) = settingCache cm" "settingCache (DeleteUser n cm) = settingCache cm"
  by (simp_all add: SetUser_def DeleteUser_def SetSetting_def SetSettingGroup_def)

lemma GetUserByName_ok:
  assumes ok: "users_ok s" and g: "GetUserByName env n s = (r, s')"
  shows "users_ok s' \<and> svUsers s' = svUsers s \<and> (\<forall>u. r = Inr u \<longrightarrow> named (svUsers s) n u)"
proof (cases "n = []")
  case False
  obtain h c where k: "keyed_Get (userCache (svCaches s)) (svNow env) n = (h, c)" by fastforce
  from agrees_Get [OF _ k] ok have a: "cache_agrees (named (svUsers s)) c" and h: "\<And>u. h = Some u \<Longrightarrow> named (svUsers s) n u"
    by (auto simp: users_ok_def)
  show ?thesis
  proof (cases h)
    case None
    let ?s1 = "s\<lparr>svCaches := (svCaches s)\<lparr>userCache := c\<rparr>\<rparr>"
    show ?thesis
    proof (cases "db_GetUserByName env n ?s1")
      case (Inr u)
      then have u: "named (svUsers s) n u"
        using False by (auto simp: db_GetUserByName_def named_def dest!: user_callD first_rowD)
      with Inr None k False g ok a show ?thesis
        by (auto simp: GetUserByName_def GetUser_def GetUserByName_fill_def on_svCaches_def users_ok_def Let_def intro!: agrees_Set)
    qed (use None k False g ok a in \<open>auto simp: GetUserByName_def GetUser_def users_ok_def Let_def\<close>)
  next
    case (Some u)
    with k False g ok a h show ?thesis by (auto simp: GetUserByName_def GetUser_def users_ok_def)
  qed
qed (use assms in \<open>auto simp: GetUserByName_def\<close>)

lemma db_GetUserByRoleD: "db_GetUserByRole env role s = Inr u \<Longrightarrow> role \<noteq> 0 \<Longrightarrow> u \<in> set (svUsers s) \<and> Role u = role"
  by (auto simp: db_GetUserByRole_def dest!: user_callD first_rowD)

lemma GetAdmin_ok:
  assumes "users_ok s" "GetAdmin env s = (r, s')"
  shows "users_ok s' \<and> svUsers s' = svUsers s \<and> (\<forall>u. r = Inr u \<longrightarrow> u \<in> set (svUsers s) \<and> IsAdmin u)"
  using assms db_GetUserByRoleD [of env ADMIN s]
  by (auto simp: GetAdmin_def users_ok_def IsAdmin_def ADMIN_def split: option.splits sum.splits)

lemma GetGuest_ok:
  assumes "users_ok s" "GetGuest env s = (r, s')"
  shows "users_ok s' \<and> svUsers s' = svUsers s \<and> (\<forall>u. r = Inr u \<longrightarrow> u \<in> set (svUsers s) \<and> IsGuest u)"
  using assms db_GetUserByRoleD [of env GUEST s]
  by (auto simp: GetGuest_def users_ok_def IsGuest_def GUEST_def split: option.splits sum.splits)

lemma db_CreateUser_ok: "users_ok s \<Longrightarrow> users_ok (snd (db_CreateUser env u s))"
  by (auto simp: db_CreateUser_def users_ok_def named_def Let_def list_ex_iff split: option.split elim: cache_agrees_mono)

lemma CreateUser_ok: "users_ok s \<Longrightarrow> users_ok (snd (CreateUser env u s))"
  unfolding CreateUser_def by (rule db_CreateUser_ok)

lemma db_GetUserByIdD: "db_GetUserById env i s = Inr u \<Longrightarrow> u \<in> set (svUsers s) \<and> ID u = i"
  by (auto simp: db_GetUserById_def dest!: user_callD first_rowD)

lemma users_id: "users_ok s \<Longrightarrow> r \<in> set (svUsers s) \<Longrightarrow> q \<in> set (svUsers s) \<Longrightarrow> ID r = ID q \<Longrightarrow> r = q"
  unfolding users_ok_def distinct_map by (metis inj_onD)

text \<open>Dropping a row keeps the caches in agreement once its own entries are gone.\<close>

lemma DeleteUserById_ok:
  assumes ok: "users_ok s"
  shows "users_ok (snd (DeleteUserById env i s))"
proof (cases "db_GetUserById env i s")
  case (Inr old)
  from db_GetUserByIdD [OF Inr] have old: "old \<in> set (svUsers s)" "ID old = i" by auto
  let ?c = "on_svCaches (DeleteUser (Username old)) s"
  have c: "users_ok (?c\<lparr>svSharings := sh\<rparr>)" for sh
    using ok by (auto simp: users_ok_def on_svCaches_def intro!: agrees_Delete)
  have "users_ok (?c\<lparr>svSharings := sh, svUsers := filter (\<lambda>r. ID r \<noteq> i) (svUsers s)\<rparr>)" if "\<not> IsAdmin old" "\<not> IsGuest old" for sh
  proof -
    have other: "ID r \<noteq> i" if "r \<in> set (svUsers s)" "r \<noteq> old" for r
      using ok old that by (auto simp: users_ok_def distinct_map dest: inj_onD)
    have "cache_agrees (named (filter (\<lambda>r. ID r \<noteq> i) (svUsers s))) (keyed_Delete (userCache (svCaches s)) (Username old))"
      by (rule agrees_Delete [where A = "named (svUsers s)"]) (use ok other in \<open>auto simp: users_ok_def named_def\<close>)
    then show ?thesis using ok that other by (auto simp: users_ok_def on_svCaches_def distinct_map_filter)
  qed
  then show ?thesis using Inr ok c [of "svSharings s"] c
    by (auto simp: DeleteUserById_def DeleteUser_begin_def db_DeleteSharingsByCreatorId_def db_DeleteUserById_def on_svCaches_def split: option.splits)
qed (use ok in \<open>simp add: DeleteUserById_def DeleteUser_begin_def\<close>)

text \<open>Replacing a row with one of the same role.\<close>

lemma replaced_row:
  assumes ok: "users_ok s" and old: "old \<in> set (svUsers s)" "ID old = ID u" "Role u = Role old"
    and free: "\<not> list_ex (\<lambda>r. Username r = Username u \<and> ID r \<noteq> ID u) (svUsers s)"
    and drop: "svCaches s' = DeleteUser (Username old) (svCaches s)" "svUsers s' = map (\<lambda>r. if ID r = ID u then u else r) (svUsers s)"
    "adminUser s' = (if IsAdmin u then None else adminUser s)" "guestUser s' = (if IsGuest u then None else guestUser s)"
  shows "users_ok s'"
proof -
  have other: "ID r \<noteq> ID u" if "r \<in> set (svUsers s)" "r \<noteq> old" for r
    using users_id [OF ok old(1), of r] old(2) that by auto
  then have same: "map (\<lambda>r. if ID r = ID u then u else r) (svUsers s) = map (\<lambda>r. if r = old then u else r) (svUsers s)"
    using old by auto
  have kept: "r \<in> set (svUsers s')" if "r \<in> set (svUsers s)" "r \<noteq> old" for r
    unfolding drop(2) same using that by force
  have "cache_agrees (named (svUsers s')) (keyed_Delete (userCache (svCaches s)) (Username old))"
    by (rule agrees_Delete [where A = "named (svUsers s)"]) (use ok kept in \<open>auto simp: users_ok_def named_def\<close>)
  moreover have "distinct (map ID (svUsers s'))"
  proof -
    have "map ID (svUsers s') = map ID (svUsers s)" by (simp add: drop(2))
    then show ?thesis using ok by (simp add: users_ok_def)
  qed
  moreover have "distinct (map Username (svUsers s'))"
  proof -
    have "inj_on Username (set (svUsers s'))"
      using ok free other unfolding drop(2) by (auto simp: users_ok_def inj_on_def distinct_map list_ex_iff split: if_splits)
    moreover have "distinct (svUsers s')"
      using \<open>distinct (map ID (svUsers s'))\<close> by (simp add: distinct_map)
    ultimately show ?thesis by (simp add: distinct_map)
  qed
  moreover have "r \<in> set (svUsers s') \<and> IsAdmin r" if "adminUser s' = Some r" for r
    using ok kept that drop(3) old(3) by (auto simp: users_ok_def IsAdmin_def split: if_splits)
  moreover have "r \<in> set (svUsers s') \<and> IsGuest r" if "guestUser s' = Some r" for r
    using ok kept that drop(4) old(3) by (auto simp: users_ok_def IsGuest_def split: if_splits)
  ultimately show ?thesis by (simp add: users_ok_def drop(1))
qed

lemma UpdateUser_ok:
  assumes ok: "users_ok s" and role: "\<And>old. old \<in> set (svUsers s) \<Longrightarrow> ID old = ID u \<Longrightarrow> Role u = Role old"
  shows "users_ok (snd (UpdateUser env u s))"
proof (cases "db_GetUserById env (ID u) s")
  case (Inr old)
  from db_GetUserByIdD [OF Inr] have old: "old \<in> set (svUsers s)" "ID old = ID u" by auto
  let ?u = "u\<lparr>BasePath := FixAndCleanPath (BasePath u)\<rparr>"
  obtain s1 where b: "UpdateUser_begin env u s = (None, s1)" "svCaches s1 = DeleteUser (Username old) (svCaches s)" "svUsers s1 = svUsers s"
    "adminUser s1 = (if IsAdmin u then None else adminUser s)" "guestUser s1 = (if IsGuest u then None else guestUser s)"
    using Inr by (auto simp: UpdateUser_begin_def on_svCaches_def Let_def)
  have "users_ok s1"
    using ok b by (auto simp: users_ok_def intro: agrees_Delete)
  moreover have "users_ok (s1\<lparr>svUsers := map (\<lambda>r. if ID r = ID ?u then ?u else r) (svUsers s)\<rparr>)"
    if "\<not> list_ex (\<lambda>r. Username r = Username ?u \<and> ID r \<noteq> ID ?u) (svUsers s)"
    by (rule replaced_row [OF ok old(1) _ _ that]) (use old b role [OF old] in \<open>auto simp: IsAdmin_def IsGuest_def\<close>)
  moreover have "list_ex (\<lambda>r. ID r = ID ?u) (svUsers s)" using old by (auto simp: list_ex_iff)
  ultimately show ?thesis
    using b(1,3) by (auto simp: UpdateUser_def UpdateUser_commit_def db_UpdateUser_def split: option.splits)
qed (use ok in \<open>simp add: UpdateUser_def UpdateUser_begin_def\<close>)

lemma DelUserCache_ok:
  assumes "users_ok s"
  shows "users_ok (snd (DelUserCache env n s))"
proof -
  obtain r s1 where g: "GetUserByName env n s = (r, s1)" by fastforce
  from GetUserByName_ok [OF assms g] g show ?thesis
    by (cases r) (auto simp: DelUserCache_def users_ok_def on_svCaches_def Let_def intro: agrees_Delete)
qed

lemma Cancel2FAById_ok:
  assumes "users_ok s"
  shows "users_ok (snd (Cancel2FAById env i s))"
proof (cases "db_GetUserById env i s")
  case (Inr u)
  from db_GetUserByIdD [OF Inr] assms have "Role (u\<lparr>OtpSecret := []\<rparr>) = Role old" if "old \<in> set (svUsers s)" "ID old = ID (u\<lparr>OtpSecret := []\<rparr>)" for old
    using that by (auto simp: users_ok_def distinct_map dest: inj_onD)
  from UpdateUser_ok [OF assms this] Inr show ?thesis by (simp add: Cancel2FAById_def Cancel2FAByUser_def)
qed (use assms in \<open>simp add: Cancel2FAById_def\<close>)

end
