(* ===== verification/Auth.thy ===== *)
theory Auth
  imports Accounts
begin

text \<open>
  Who a request is made for: the tokens of \<open>server/common/auth.go\<close>, the middlewares of \<open>server/middlewares/auth.go\<close>, the
  handlers for accounts of \<open>server/handles/user.go\<close> and those of \<open>server/handles/auth.go\<close> that change the user of the request.
  Signing and reading JSON web tokens, one-time passwords, the digest and random strings are parameters.

  A request carries a pointer to the user that the caches hold.  \<open>UpdateCurrent\<close> and \<open>Verify2FA\<close> write through that pointer, so
  the middleware also says which variable or cache entry the user was taken from.
\<close>

section \<open>The surroundings\<close>

record UserClaims =
  clUsername :: string
  clPwdTS :: int64
  clExpiresAt :: int
  clIssuedAt :: int
  clNotBefore :: int

text \<open>What the library says of a token: its claims, or which of the errors malformed, expired and not valid yet it found.\<close>

datatype jwt_result = JwtOk UserClaims | JwtError bool bool bool

record auth_env =
  aBase :: sv_env
  aSha256 :: "string \<Rightarrow> string"
  aSalt :: string
  aPassword :: string
  aUnix :: int64
  aSign :: "UserClaims \<Rightarrow> string + string"
  aParse :: "string \<Rightarrow> jwt_result"
  aTotp :: "string \<Rightarrow> string \<Rightarrow> bool"
  TokenExpiresIn :: int64

definition Hour :: int where "Hour = 60 * Minute"

section \<open>Tokens\<close>

datatype token_error = TokenInvalidated | NotEvenAToken | TokenExpired | TokenNotActive | TokenUnhandled

definition GenerateToken :: "auth_env \<Rightarrow> User \<Rightarrow> server \<Rightarrow> (string + string) \<times> server" where
  "GenerateToken env user s =
     (let now = svNow (aBase env);
          claim = \<lparr>clUsername = Username user, clPwdTS = PwdTS user, clExpiresAt = now + wrap64 (TokenExpiresIn env * Hour),
                   clIssuedAt = now, clNotBefore = now\<rparr>
      in (case aSign env claim of
            Inl e \<Rightarrow> (Inl e, s)
          | Inr tok \<Rightarrow> (Inr tok, s\<lparr>validTokenCache := insert tok (validTokenCache s)\<rparr>)))"

definition IsTokenInvalidated :: "string \<Rightarrow> server \<Rightarrow> bool" where
  "IsTokenInvalidated tok s \<longleftrightarrow> tok \<notin> validTokenCache s"

definition ParseToken :: "auth_env \<Rightarrow> string \<Rightarrow> server \<Rightarrow> token_error + UserClaims" where
  "ParseToken env tok s =
     (if IsTokenInvalidated tok s then Inl TokenInvalidated
      else case aParse env tok of
        JwtError malformed expired notYet \<Rightarrow>
          Inl (if malformed then NotEvenAToken else if expired then TokenExpired else if notYet then TokenNotActive else TokenUnhandled)
      | JwtOk claims \<Rightarrow> Inr claims)"

definition InvalidateToken :: "string \<Rightarrow> server \<Rightarrow> server" where
  "InvalidateToken tok s = (if tok = [] then s else s\<lparr>validTokenCache := validTokenCache s - {tok}\<rparr>)"

section \<open>Middlewares\<close>

text \<open>Where the user of a request lives.\<close>

datatype user_slot = AdminSlot | GuestSlot | NameSlot string

datatype auth_answer = Next user_slot User | Abort int

text \<open>The part that \<open>Auth\<close> and \<open>Authn\<close> share, from the point where the header is neither the token of the administrator nor empty.\<close>

definition token_user :: "auth_env \<Rightarrow> string \<Rightarrow> server \<Rightarrow> auth_answer \<times> server" where
  "token_user env tok s =
     (case ParseToken env tok s of
        Inl e \<Rightarrow> (Abort 401, s)
      | Inr claims \<Rightarrow>
          (case GetUserByName (aBase env) (clUsername claims) s of
             (Inl e, s1) \<Rightarrow> (Abort 401, s1)
           | (Inr user, s1) \<Rightarrow>
               if clPwdTS claims \<noteq> PwdTS user then (Abort 401, s1)
               else if Disabled user then (Abort 401, s1)
               else (Next (NameSlot (clUsername claims)) user, s1)))"

definition Auth :: "auth_env \<Rightarrow> bool \<Rightarrow> string \<Rightarrow> server \<Rightarrow> auth_answer \<times> server" where
  "Auth env allowDisabledGuest tok s =
     (case GetStr (aBase env) ''token'' [] s of
        (t, s1) \<Rightarrow>
          if tok = t then
            (case GetAdmin (aBase env) s1 of (Inl e, s2) \<Rightarrow> (Abort 500, s2) | (Inr admin, s2) \<Rightarrow> (Next AdminSlot admin, s2))
          else if tok = [] then
            (case GetGuest (aBase env) s1 of
               (Inl e, s2) \<Rightarrow> (Abort 500, s2)
             | (Inr guest, s2) \<Rightarrow>
                 if \<not> allowDisabledGuest \<and> Disabled guest then (Abort 401, s2) else (Next GuestSlot guest, s2))
          else token_user env tok s1)"

definition Authn_mw :: "auth_env \<Rightarrow> string \<Rightarrow> server \<Rightarrow> auth_answer \<times> server" where
  "Authn_mw env tok s =
     (case GetStr (aBase env) ''token'' [] s of
        (t, s1) \<Rightarrow>
          if tok = t then
            (case GetAdmin (aBase env) s1 of (Inl e, s2) \<Rightarrow> (Abort 500, s2) | (Inr admin, s2) \<Rightarrow> (Next AdminSlot admin, s2))
          else if tok = [] then
            (case GetGuest (aBase env) s1 of (Inl e, s2) \<Rightarrow> (Abort 500, s2) | (Inr guest, s2) \<Rightarrow> (Next GuestSlot guest, s2))
          else token_user env tok s1)"

definition AuthNotGuest :: "User \<Rightarrow> int option" where
  "AuthNotGuest user = (if IsGuest user then Some 403 else None)"

definition AuthAdmin :: "User \<Rightarrow> int option" where
  "AuthAdmin user = (if \<not> IsAdmin user then Some 403 else None)"

section \<open>Handlers for accounts\<close>

text \<open>Reading a user from the JSON of a request leaves the fields that are not exchanged at their zero values; the name is
  required.  Handlers answer with a code, 200 for success.\<close>

definition bind_User :: "User \<Rightarrow> User option" where
  "bind_User u = (if Username u = [] then None else Some (u\<lparr>PwdHash := [], PwdTS := 0, Salt := [], OtpSecret := [], Authn := []\<rparr>))"

definition set_password :: "auth_env \<Rightarrow> User \<Rightarrow> string \<Rightarrow> User" where
  "set_password env u pwd = SetPassword (aSha256 env) (aSalt env) (aUnix env) u pwd"

definition code_of :: "user_op_error option \<times> server \<Rightarrow> int \<times> server" where
  "code_of r = (case r of (Some e, s) \<Rightarrow> (500, s) | (None, s) \<Rightarrow> (200, s))"

definition handle_CreateUser :: "auth_env \<Rightarrow> User \<Rightarrow> server \<Rightarrow> int \<times> server" where
  "handle_CreateUser env body s =
     (case bind_User body of
        None \<Rightarrow> (400, s)
      | Some req \<Rightarrow>
          if IsAdmin req \<or> IsGuest req then (400, s)
          else code_of (CreateUser (aBase env) ((set_password env req (Password req))\<lparr>Password := [], Authn := ''[]''\<rparr>) s))"

definition handle_UpdateUser :: "auth_env \<Rightarrow> User \<Rightarrow> server \<Rightarrow> int \<times> server" where
  "handle_UpdateUser env body s =
     (case bind_User body of
        None \<Rightarrow> (400, s)
      | Some req \<Rightarrow>
          (case db_GetUserById (aBase env) (ID req) s of
             Inl e \<Rightarrow> (500, s)
           | Inr user \<Rightarrow>
               if Role user \<noteq> Role req then (400, s)
               else
                 let req1 = (if Password req = [] then req\<lparr>PwdHash := PwdHash user, Salt := Salt user\<rparr>
                             else (set_password env req (Password req))\<lparr>Password := []\<rparr>);
                     req2 = (if OtpSecret req1 = [] then req1\<lparr>OtpSecret := OtpSecret user\<rparr> else req1)
                 in if Disabled req2 \<and> IsAdmin req2 then (400, s)
                    else code_of (UpdateUser (aBase env) req2 s)))"

text \<open>The identifier is read as an \<open>int\<close> and converted to an unsigned word.\<close>

definition query_id :: "string \<Rightarrow> nat option" where
  "query_id str = (case ParseInt str of (i, None) \<Rightarrow> Some (nat (i mod 2 ^ 64)) | (_, Some _) \<Rightarrow> None)"

definition handle_DeleteUser :: "auth_env \<Rightarrow> string \<Rightarrow> server \<Rightarrow> int \<times> server" where
  "handle_DeleteUser env idStr s =
     (case query_id idStr of None \<Rightarrow> (400, s) | Some i \<Rightarrow> code_of (DeleteUserById (aBase env) i s))"

definition handle_Cancel2FAById :: "auth_env \<Rightarrow> string \<Rightarrow> server \<Rightarrow> int \<times> server" where
  "handle_Cancel2FAById env idStr s =
     (case query_id idStr of None \<Rightarrow> (400, s) | Some i \<Rightarrow> code_of (Cancel2FAById (aBase env) i s))"

definition handle_DelUserCache :: "auth_env \<Rightarrow> string \<Rightarrow> server \<Rightarrow> int \<times> server" where
  "handle_DelUserCache env username s = code_of (DelUserCache (aBase env) username s)"

definition LogOut :: "string \<Rightarrow> server \<Rightarrow> int \<times> server" where
  "LogOut tok s = (200, InvalidateToken tok s)"

section \<open>Handlers that change the user of the request\<close>

text \<open>A write through the pointer of the request is seen by the variable or cache entry that holds it.\<close>

definition write_slot :: "user_slot \<Rightarrow> User \<Rightarrow> server \<Rightarrow> server" where
  "write_slot slot u s =
     (case slot of
        AdminSlot \<Rightarrow> s\<lparr>adminUser := Some u\<rparr>
      | GuestSlot \<Rightarrow> s\<lparr>guestUser := Some u\<rparr>
      | NameSlot n \<Rightarrow>
          on_svCaches (\<lambda>cm. cm\<lparr>userCache := (userCache cm)\<lparr>kEntries :=
            map (\<lambda>(k, e). if k = n then (k, e\<lparr>entry_data := u\<rparr>) else (k, e)) (kEntries (userCache cm))\<rparr>\<rparr>) s)"

definition db_GetUserBySSOID :: "sv_env \<Rightarrow> string \<Rightarrow> server \<Rightarrow> user_op_error + User" where
  "db_GetUserBySSOID env ssoID s = user_call env ''user by sso id'' (first_row (\<lambda>u. ssoID = [] \<or> SsoID u = ssoID) (svUsers s))"

text \<open>The proof of a binding is checked by \<open>sso\<close>, which gives the identifier it proves.\<close>

definition UpdateCurrent :: "auth_env \<Rightarrow> (string \<Rightarrow> string option) \<Rightarrow> user_slot \<Rightarrow> User \<Rightarrow> User \<Rightarrow> server \<Rightarrow> int \<times> server" where
  "UpdateCurrent env sso slot user body s =
     (case bind_User body of
        None \<Rightarrow> (400, s)
      | Some req \<Rightarrow>
          if IsGuest user then (403, s)
          else
            let bound = (if SsoID req \<noteq> [] \<and> SsoID req \<noteq> SsoID user then
                           (case sso (SsoID req) of
                              None \<Rightarrow> Inl 400
                            | Some i \<Rightarrow>
                                (case db_GetUserBySSOID (aBase env) i s of
                                   Inr b \<Rightarrow> if ID b \<noteq> ID user then Inl 409 else Inr i
                                 | Inl e \<Rightarrow> if e = UserDB ''record not found'' then Inr i else Inl 500))
                         else Inr (SsoID req))
            in (case bound of
                  Inl code \<Rightarrow> (code, s)
                | Inr ssoID \<Rightarrow>
                    let user1 = user\<lparr>Username := Username req\<rparr>;
                        user2 = (if Password req \<noteq> [] then set_password env user1 (Password req) else user1);
                        user3 = user2\<lparr>SsoID := ssoID\<rparr>
                    in code_of (UpdateUser (aBase env) user3 (write_slot slot user3 s))))"

definition Verify2FA :: "auth_env \<Rightarrow> user_slot \<Rightarrow> User \<Rightarrow> string \<Rightarrow> string \<Rightarrow> server \<Rightarrow> int \<times> server" where
  "Verify2FA env slot user code secret s =
     (if code = [] \<or> secret = [] then (400, s)
      else if IsGuest user then (403, s)
      else if \<not> aTotp env code secret then (400, s)
      else let user' = user\<lparr>OtpSecret := secret\<rparr> in code_of (UpdateUser (aBase env) user' (write_slot slot user' s)))"

end
