(* ===== verification/Auth_Props.thy ===== *)
theory Auth_Props
  imports Auth
begin

text \<open>
  What the middlewares guarantee.  The settings, the accounts and the tokens form a machine whose steps are the operations and
  handlers of \<open>Settings\<close>, \<open>Accounts\<close> and \<open>Auth\<close>; in every state it reaches, the caches agree with the tables, and so a request that is let
  through is made for a row of the table of users.
\<close>

section \<open>Frames\<close>

text \<open>What an operation on settings leaves alone.\<close>

definition same_users :: "server \<Rightarrow> server \<Rightarrow> bool" where
  "same_users s s' \<longleftrightarrow>
     svUsers s' = svUsers s \<and> adminUser s' = adminUser s \<and> guestUser s' = guestUser s \<and> validTokenCache s' = validTokenCache s \<and>
     LoginCache s' = LoginCache s \<and> svSharings s' = svSharings s \<and>
     (userCache (svCaches s') = userCache (svCaches s) \<or> userCache (svCaches s') = keyed_Clear (userCache (svCaches s)))"

lemma keyed_Clear_idem [simp]: "keyed_Clear (keyed_Clear c) = keyed_Clear c"
  by (simp add: keyed_Clear_def)

lemma same_users_refl [simp]: "same_users s s"
  by (simp add: same_users_def)

lemma same_users_trans: "same_users s t \<Longrightarrow> same_users t u \<Longrightarrow> same_users s u"
  by (auto simp: same_users_def)

lemma same_users_ok: "same_users s s' \<Longrightarrow> users_ok s \<Longrightarrow> users_ok s'"
  by (auto simp: same_users_def users_ok_def)

lemma GetSettingItemByKey_frame:
  assumes "GetSettingItemByKey env key s = (r, s')"
  shows "\<exists>c. s' = s\<lparr>svCaches := (svCaches s)\<lparr>settingCache := c\<rparr>\<rparr>"
  using assms
  by (auto simp: GetSettingItemByKey_def GetSetting_def on_svCaches_def SetSetting_def Let_def split: option.splits prod.splits sum.splits setting_data.splits)

lemma GetStr_frame: "GetStr env key d s = (v, s') \<Longrightarrow> \<exists>c. s' = s\<lparr>svCaches := (svCaches s)\<lparr>settingCache := c\<rparr>\<rparr>"
  by (auto simp: GetStr_def split: prod.splits sum.splits dest: GetSettingItemByKey_frame)

lemma GetSettingItemByKey_same: "GetSettingItemByKey env key s = (r, s') \<Longrightarrow> same_users s s'"
  by (drule GetSettingItemByKey_frame) (auto simp: same_users_def)

lemma GetStr_same: "GetStr env key d s = (v, s') \<Longrightarrow> same_users s s'"
  by (drule GetStr_frame) (auto simp: same_users_def)

lemma cached_group_same: "cached_group env key q s = (r, s') \<Longrightarrow> same_users s s'"
  by (auto simp: cached_group_def GetSettingGroup_def on_svCaches_def SetSettingGroup_def Let_def same_users_def
    split: option.splits prod.splits sum.splits setting_data.splits)

lemma hook_same: "HandleSettingItemHook env x s = (h, e, y, s') \<Longrightarrow> same_users s s'"
  by (auto simp: HandleSettingItemHook_def set_slice_def Let_def same_users_def split: if_splits option.splits sum.splits prod.splits)

lemma prepare_same: "prepare_items env xs s = (r, s') \<Longrightarrow> same_users s s'"
proof (induction xs arbitrary: s r s')
  case (Cons x0 xs)
  obtain h e x s1 where hk: "HandleSettingItemHook env (migrate env x0) s = (h, e, x, s1)" by (metis prod_cases4)
  obtain r2 s2 where p: "prepare_items env xs s1 = (r2, s2)" by fastforce
  from Cons.prems same_users_trans [OF hook_same [OF hk] Cons.IH [OF p]] p hook_same [OF hk] show ?case
    unfolding prepare_Cons [OF hk] by (cases r2) (auto split: if_splits)
qed simp

lemma update_same: "same_users s (SettingCacheUpdate env (s\<lparr>svSettings := rows\<rparr>))" "same_users s (SettingCacheUpdate env s)"
  by (simp_all add: same_users_def SettingCacheUpdate_def on_svCaches_def ClearAll_def)

lemma SaveSettingItems_same: "same_users s (snd (SaveSettingItems env items s))"
proof -
  obtain r s1 where p: "prepare_items env items s = (r, s1)" by fastforce
  with prepare_same [OF p] same_users_trans [OF prepare_same [OF p] update_same(1)] show ?thesis
    by (cases r) (auto simp: SaveSettingItems_def db_SaveSettingItems_def split: option.split)
qed

lemma SaveSettingItem_same: "same_users s (snd (SaveSettingItem env x s))"
proof -
  obtain h e y s1 where hk: "HandleSettingItemHook env (migrate env x) s = (h, e, y, s1)" by (metis prod_cases4)
  with hook_same [OF hk] same_users_trans [OF hook_same [OF hk] update_same(1)] show ?thesis
    by (cases e) (auto simp: SaveSettingItem_def db_SaveSettingItems_def split: option.split)
qed

lemma DeleteSettingItemByKey_same: "same_users s (snd (DeleteSettingItemByKey env key s))"
proof -
  obtain r s1 where g: "GetSettingItemByKey env key s = (r, s1)" by fastforce
  have "same_users s (SettingCacheUpdate env s1\<lparr>svSettings := rows\<rparr>)" for rows
    using GetSettingItemByKey_same [OF g] by (auto simp: same_users_def SettingCacheUpdate_def on_svCaches_def ClearAll_def)
  with g GetSettingItemByKey_same [OF g] same_users_trans [OF GetSettingItemByKey_same [OF g] update_same(2)] show ?thesis
    by (cases r) (auto simp: DeleteSettingItemByKey_def DeleteSetting_begin_def db_DeleteSettingItemByKey_def split: option.split)
qed

text \<open>What an operation on accounts leaves alone.\<close>

definition same_settings :: "server \<Rightarrow> server \<Rightarrow> bool" where
  "same_settings s s' \<longleftrightarrow> svSettings s' = svSettings s \<and> settingCache (svCaches s') = settingCache (svCaches s)"

lemma same_settings_ok: "same_settings s s' \<Longrightarrow> settings_ok s \<Longrightarrow> settings_ok s'"
  by (simp add: same_settings_def settings_ok_def)

lemma GetUserByName_same: "GetUserByName env n s = (r, s') \<Longrightarrow> same_settings s s' \<and> validTokenCache s' = validTokenCache s \<and> LoginCache s' = LoginCache s"
  by (auto simp: GetUserByName_def GetUser_def GetUserByName_fill_def on_svCaches_def same_settings_def Let_def
    split: if_splits option.splits prod.splits sum.splits)

lemma GetAdmin_same: "GetAdmin env s = (r, s') \<Longrightarrow> same_settings s s' \<and> validTokenCache s' = validTokenCache s \<and> LoginCache s' = LoginCache s"
  by (auto simp: GetAdmin_def same_settings_def split: option.splits sum.splits)

lemma GetGuest_same: "GetGuest env s = (r, s') \<Longrightarrow> same_settings s s' \<and> validTokenCache s' = validTokenCache s \<and> LoginCache s' = LoginCache s"
  by (auto simp: GetGuest_def same_settings_def split: option.splits sum.splits)

lemma CreateUser_same: "same_settings s (snd (CreateUser env u s))"
  by (simp add: CreateUser_def db_CreateUser_def same_settings_def Let_def split: option.split)

lemma UpdateUser_begin_same: "same_settings s (snd (UpdateUser_begin env u s))"
  by (auto simp: UpdateUser_begin_def same_settings_def on_svCaches_def Let_def split: sum.split)

lemma UpdateUser_commit_same: "same_settings s (snd (UpdateUser_commit env u s))"
  by (auto simp: UpdateUser_commit_def db_UpdateUser_def db_CreateUser_def same_settings_def Let_def split: option.split)

lemma UpdateUser_same: "same_settings s (snd (UpdateUser env u s))"
proof -
  obtain r s1 where b: "UpdateUser_begin env u s = (r, s1)" by fastforce
  with UpdateUser_begin_same [of s env u] UpdateUser_commit_same [of s1 env u] show ?thesis
    by (cases r) (auto simp: UpdateUser_def same_settings_def)
qed

lemma DeleteUserById_same: "same_settings s (snd (DeleteUserById env i s))"
  by (auto simp: DeleteUserById_def DeleteUser_begin_def db_DeleteSharingsByCreatorId_def db_DeleteUserById_def same_settings_def on_svCaches_def
    split: sum.split option.split)

lemma Cancel2FAById_same: "same_settings s (snd (Cancel2FAById env i s))"
  using UpdateUser_same by (auto simp: Cancel2FAById_def Cancel2FAByUser_def same_settings_def split: sum.split)

lemma DelUserCache_same: "same_settings s (snd (DelUserCache env n s))"
proof -
  obtain r s1 where g: "GetUserByName env n s = (r, s1)" by fastforce
  with GetUserByName_same [OF g] show ?thesis by (cases r) (auto simp: DelUserCache_def same_settings_def on_svCaches_def Let_def)
qed

lemma write_slot_same: "same_settings s (write_slot slot u s)"
  by (simp add: write_slot_def same_settings_def on_svCaches_def split: user_slot.split)

section \<open>Who is let through\<close>

definition server_ok :: "server \<Rightarrow> bool" where
  "server_ok s \<longleftrightarrow> settings_ok s \<and> users_ok s"

text \<open>The value of a setting in the table; a setting that is not there reads as the empty string.\<close>

definition setting_str :: "server \<Rightarrow> string \<Rightarrow> string" where
  "setting_str s key = (case find (\<lambda>r. setKey r = key) (svSettings s) of None \<Rightarrow> [] | Some x \<Rightarrow> setValue x)"

lemma GetStr_value:
  assumes "settings_ok s" "GetStr env key [] s = (v, s')"
  shows "v = setting_str s key \<or> v = [] \<and> svFail env ''setting'' \<noteq> None"
proof -
  obtain r s1 where g: "GetSettingItemByKey env key s = (r, s1)" by fastforce
  show ?thesis
  proof (cases r)
    case (Inl e)
    have "find (\<lambda>r. setKey r = key) (svSettings s) = None \<or> svFail env ''setting'' \<noteq> None"
      using g Inl by (auto simp: GetSettingItemByKey_def GetSetting_def db_GetSettingItemByKey_def db_call_def Let_def
        split: option.splits prod.splits setting_data.splits)
    with Inl g assms(2) show ?thesis by (auto simp: GetStr_def setting_str_def)
  next
    case (Inr x)
    with GetSettingItemByKey_ok [OF assms(1) g] g assms(2) show ?thesis by (auto simp: GetStr_def setting_str_def)
  qed
qed

lemma GetStr_server_ok:
  assumes "server_ok s" "GetStr env key d s = (v, s')"
  shows "server_ok s' \<and> same_users s s'"
proof -
  obtain r where g: "GetSettingItemByKey env key s = (r, s')"
    using assms(2) by (auto simp: GetStr_def split: prod.splits sum.splits)
  with assms GetSettingItemByKey_ok [OF _ g] GetSettingItemByKey_same [OF g] same_users_ok show ?thesis
    by (auto simp: server_ok_def)
qed

text \<open>The ways in which a request with a header can be let through.\<close>

definition let_through :: "auth_env \<Rightarrow> bool \<Rightarrow> string \<Rightarrow> server \<Rightarrow> user_slot \<Rightarrow> User \<Rightarrow> bool" where
  "let_through env allowDisabledGuest tok s slot u \<longleftrightarrow>
     (case slot of
        AdminSlot \<Rightarrow> IsAdmin u \<and> (tok = setting_str s ''token'' \<or> tok = [] \<and> svFail (aBase env) ''setting'' \<noteq> None)
      | GuestSlot \<Rightarrow> IsGuest u \<and> tok = [] \<and> (allowDisabledGuest \<or> \<not> Disabled u)
      | NameSlot n \<Rightarrow>
          tok \<in> validTokenCache s \<and> Username u = n \<and> \<not> Disabled u \<and>
          (\<exists>claims. aParse env tok = JwtOk claims \<and> clUsername claims = n \<and> clPwdTS claims = PwdTS u))"

lemma token_user_ok:
  assumes "server_ok s" "token_user env tok s = (a, s')"
  shows "server_ok s' \<and> svUsers s' = svUsers s \<and> validTokenCache s' = validTokenCache s \<and>
     (\<forall>slot u. a = Next slot u \<longrightarrow> u \<in> set (svUsers s) \<and> let_through env b tok s slot u)"
proof (cases "ParseToken env tok s")
  case (Inr claims)
  then have p: "tok \<in> validTokenCache s" "aParse env tok = JwtOk claims"
    by (auto simp: ParseToken_def IsTokenInvalidated_def split: if_splits jwt_result.splits)
  obtain r s1 where g: "GetUserByName (aBase env) (clUsername claims) s = (r, s1)" by fastforce
  have ok: "server_ok s1" "svUsers s1 = svUsers s" "validTokenCache s1 = validTokenCache s" "\<And>u. r = Inr u \<Longrightarrow> named (svUsers s) (clUsername claims) u"
    using GetUserByName_ok [OF _ g] GetUserByName_same [OF g] same_settings_ok [of s s1] assms(1) by (auto simp: server_ok_def)
  show ?thesis
  proof (cases r)
    case (Inr u)
    with ok(4) [OF Inr] ok g p \<open>ParseToken env tok s = Inr claims\<close> assms(2) show ?thesis
      by (auto simp: token_user_def let_through_def named_def split: if_splits)
  qed (use ok g Inr assms(2) in \<open>auto simp: token_user_def\<close>)
qed (use assms in \<open>auto simp: token_user_def\<close>)

lemma Auth_ok:
  assumes ok: "server_ok s" and a: "Auth env b tok s = (a, s')"
  shows "server_ok s' \<and> svUsers s' = svUsers s \<and> validTokenCache s' = validTokenCache s \<and>
     (\<forall>slot u. a = Next slot u \<longrightarrow> u \<in> set (svUsers s) \<and> let_through env b tok s slot u)"
proof -
  obtain t s1 where t: "GetStr (aBase env) ''token'' [] s = (t, s1)" by fastforce
  have v: "t = setting_str s ''token'' \<or> t = [] \<and> svFail (aBase env) ''setting'' \<noteq> None"
    using GetStr_value [OF _ t] ok by (simp add: server_ok_def)
  have ok1: "server_ok s1" "svUsers s1 = svUsers s" "validTokenCache s1 = validTokenCache s"
    using GetStr_server_ok [OF ok t] by (auto simp: same_users_def)
  have "svSettings s1 = svSettings s" using GetStr_frame [OF t] by auto
  then have lt: "let_through env b tok s1 = let_through env b tok s"
    by (simp add: let_through_def setting_str_def ok1(3) fun_eq_iff split: user_slot.split)
  consider (admin) "tok = t" | (guest) "tok \<noteq> t" "tok = []" | (login) "tok \<noteq> t" "tok \<noteq> []" by blast
  then show ?thesis
  proof cases
    case admin
    obtain r s2 where g: "GetAdmin (aBase env) s1 = (r, s2)" by fastforce
    from GetAdmin_ok [OF _ g] GetAdmin_same [OF g] same_settings_ok [of s1 s2] ok1 have
      "server_ok s2 \<and> svUsers s2 = svUsers s \<and> validTokenCache s2 = validTokenCache s \<and> (\<forall>u. r = Inr u \<longrightarrow> u \<in> set (svUsers s) \<and> IsAdmin u)"
      by (auto simp: server_ok_def)
    with admin a t g v show ?thesis by (cases r) (auto simp: Auth_def let_through_def)
  next
    case guest
    obtain r s2 where g: "GetGuest (aBase env) s1 = (r, s2)" by fastforce
    from GetGuest_ok [OF _ g] GetGuest_same [OF g] same_settings_ok [of s1 s2] ok1 have
      "server_ok s2 \<and> svUsers s2 = svUsers s \<and> validTokenCache s2 = validTokenCache s \<and> (\<forall>u. r = Inr u \<longrightarrow> u \<in> set (svUsers s) \<and> IsGuest u)"
      by (auto simp: server_ok_def)
    with guest a t g show ?thesis by (cases r) (auto simp: Auth_def let_through_def split: if_splits)
  next
    case login
    with a t have "token_user env tok s1 = (a, s')" by (simp add: Auth_def)
    from token_user_ok [OF ok1(1) this, of b] ok1 lt show ?thesis by simp
  qed
qed

text \<open>The second middleware is the first one with disabled guests allowed.\<close>

lemma Authn_mw_is_Auth: "Authn_mw env tok s = Auth env True tok s"
  by (simp add: Authn_mw_def Auth_def split: prod.split sum.split)

section \<open>Writing through the pointer of a request\<close>

text \<open>The slot of a request holds its user.\<close>

definition slot_holds :: "user_slot \<Rightarrow> User \<Rightarrow> bool" where
  "slot_holds slot u = (case slot of AdminSlot \<Rightarrow> IsAdmin u | GuestSlot \<Rightarrow> IsGuest u | NameSlot n \<Rightarrow> Username u = n)"

lemma let_through_holds: "let_through env b tok s slot u \<Longrightarrow> slot_holds slot u"
  by (auto simp: let_through_def slot_holds_def split: user_slot.splits)

lemma dict_del_rewritten: "dict_del n (map (\<lambda>(k, e). if k = n then (k, f e) else (k, e)) d) = dict_del n d"
  by (induction d) (auto simp: dict_del_def split: if_splits)

text \<open>When the row can be read, the update drops what the write changed.\<close>

lemma UpdateUser_write_slot:
  assumes ok: "users_ok s" and u: "u \<in> set (svUsers s)" "slot_holds slot u" and same: "ID u' = ID u" "Role u' = Role u"
    and reads: "svFail env ''user by id'' = None"
  shows "UpdateUser env u' (write_slot slot u' s) = UpdateUser env u' s"
proof -
  have "svUsers (write_slot slot u' s) = svUsers s" by (simp add: write_slot_def on_svCaches_def split: user_slot.split)
  moreover have row: "first_row (\<lambda>r. ID r = ID u') (svUsers s) = Inr u"
  proof (cases "find (\<lambda>r. ID r = ID u') (svUsers s)")
    case (Some r)
    then have "r \<in> set (svUsers s)" "ID r = ID u'" by (auto simp: find_Some_iff)
    with users_id [OF ok u(1), of r] same Some show ?thesis by (simp add: first_row_def)
  qed (use u same in \<open>auto simp: find_None_iff\<close>)
  ultimately have "UpdateUser_begin env u' (write_slot slot u' s) = UpdateUser_begin env u' s"
    using u(2) same(2) reads
    by (cases slot) (auto simp: UpdateUser_begin_def db_GetUserById_def user_call_def write_slot_def slot_holds_def on_svCaches_def Let_def
      DeleteUser_def keyed_Delete_def dict_del_rewritten IsAdmin_def IsGuest_def)
  then show ?thesis by (simp add: UpdateUser_def)
qed

lemma UpdateUser_server_ok:
  assumes ok: "server_ok s" and u: "u \<in> set (svUsers s)" "ID u' = ID u" "Role u' = Role u"
  shows "server_ok (snd (UpdateUser env u' s))"
proof -
  have "Role u' = Role old" if "old \<in> set (svUsers s)" "ID old = ID u'" for old
    using users_id [of s old u] ok u that by (auto simp: server_ok_def)
  with UpdateUser_ok [of s u' env] same_settings_ok [OF UpdateUser_same] ok show ?thesis by (simp add: server_ok_def)
qed

lemma code_of_snd [simp]: "snd (code_of r) = snd r"
  by (auto simp: code_of_def split: prod.split option.split)

lemma set_password_keeps [simp]:
  "ID (set_password env u p) = ID u" "Role (set_password env u p) = Role u" "Username (set_password env u p) = Username u"
  by (simp_all add: set_password_def SetPassword_def Let_def)

lemma UpdateCurrent_ok:
  assumes ok: "server_ok s" and u: "u \<in> set (svUsers s)" "slot_holds slot u" and reads: "svFail (aBase env) ''user by id'' = None"
  shows "server_ok (snd (UpdateCurrent env sso slot u body s))"
proof -
  have "server_ok (snd (UpdateUser (aBase env) u' (write_slot slot u' s)))" if "ID u' = ID u" "Role u' = Role u" for u'
    using UpdateUser_write_slot [OF _ u that reads] UpdateUser_server_ok [OF ok u(1) that] ok by (simp add: server_ok_def)
  then show ?thesis using ok
    by (simp add: UpdateCurrent_def Let_def split: option.split sum.split)
qed

lemma Verify2FA_ok:
  assumes ok: "server_ok s" and u: "u \<in> set (svUsers s)" "slot_holds slot u" and reads: "svFail (aBase env) ''user by id'' = None"
  shows "server_ok (snd (Verify2FA env slot u code secret s))"
proof -
  have "server_ok (snd (UpdateUser (aBase env) u' (write_slot slot u' s)))" if "ID u' = ID u" "Role u' = Role u" for u'
    using UpdateUser_write_slot [OF _ u that reads] UpdateUser_server_ok [OF ok u(1) that] ok by (simp add: server_ok_def)
  then show ?thesis using ok by (simp add: Verify2FA_def Let_def)
qed

lemma handle_UpdateUser_ok: "server_ok s \<Longrightarrow> server_ok (snd (handle_UpdateUser env body s))"
proof (cases "bind_User body")
  case (Some req)
  assume ok: "server_ok s"
  show ?thesis
  proof (cases "db_GetUserById (aBase env) (ID req) s")
    case (Inr user)
    from db_GetUserByIdD [OF Inr] have user: "user \<in> set (svUsers s)" "ID user = ID req" by auto
    show ?thesis
      using Some Inr ok user by (auto simp: handle_UpdateUser_def Let_def intro!: UpdateUser_server_ok [OF ok user(1)])
  qed (use Some ok in \<open>simp add: handle_UpdateUser_def\<close>)
qed (simp add: handle_UpdateUser_def)

end
