(* ===== verification/Login.thy ===== *)
theory Login
  imports Auth_Props
begin

text \<open>
  The five ways to log in: with a password over the REST interface (\<open>server/handles/auth.go\<close>), through a directory service
  (\<open>server/handles/ldap_login.go\<close>, \<open>server/common/ldap.go\<close>), over WebDAV (\<open>server/webdav.go\<close>), over FTP (\<open>server/ftp.go\<close>) and over SFTP
  (\<open>server/sftp.go\<close>).  All of them count failures in one cache and refuse at five; a refused attempt gives the counter five
  minutes to live.  The key of the counter is the client's address over HTTP, and the address with the port of the connection over FTP and SFTP.  The directory service is a parameter, as is formatting a filter with a name.
\<close>

section \<open>The counter of failures\<close>

definition DefaultLockDuration :: int where "DefaultLockDuration = 5 * Minute"

definition DefaultMaxAuthRetries :: int where "DefaultMaxAuthRetries = 5"

text \<open>The cache keeps an entry until its deadline, if it has one.\<close>

definition login_Get :: "int \<Rightarrow> string \<Rightarrow> server \<Rightarrow> int option" where
  "login_Get now ip s =
     (case LoginCache s ip of None \<Rightarrow> None | Some (cnt, None) \<Rightarrow> Some cnt | Some (cnt, Some t) \<Rightarrow> if now < t then Some cnt else None)"

definition login_Set :: "string \<Rightarrow> int \<Rightarrow> server \<Rightarrow> server" where
  "login_Set ip cnt s = s\<lparr>LoginCache := (LoginCache s)(ip \<mapsto> (cnt, None))\<rparr>"

definition login_Expire :: "int \<Rightarrow> string \<Rightarrow> server \<Rightarrow> server" where
  "login_Expire now ip s =
     (case login_Get now ip s of None \<Rightarrow> s | Some cnt \<Rightarrow> s\<lparr>LoginCache := (LoginCache s)(ip \<mapsto> (cnt, Some (now + DefaultLockDuration)))\<rparr>)"

definition login_Del :: "string \<Rightarrow> server \<Rightarrow> server" where
  "login_Del ip s = s\<lparr>LoginCache := (LoginCache s)(ip := None)\<rparr>"

text \<open>A missing counter reads as zero.\<close>

definition login_count :: "int \<Rightarrow> string \<Rightarrow> server \<Rightarrow> int" where
  "login_count now ip s = (case login_Get now ip s of None \<Rightarrow> 0 | Some cnt \<Rightarrow> cnt)"

definition login_locked :: "int \<Rightarrow> string \<Rightarrow> server \<Rightarrow> bool" where
  "login_locked now ip s = (case login_Get now ip s of None \<Rightarrow> False | Some cnt \<Rightarrow> cnt \<ge> DefaultMaxAuthRetries)"

section \<open>The directory service\<close>

record ldap_env =
  ldDial :: "string \<Rightarrow> bool \<Rightarrow> bool \<Rightarrow> bool"
  ldBind :: "string \<Rightarrow> string \<Rightarrow> bool"
  ldSearch :: "string \<Rightarrow> string \<Rightarrow> string list option"
  ldFilter :: "string \<Rightarrow> string \<Rightarrow> string"

datatype ldap_error = LdapConnect | LdapBindManager | LdapSearch | LdapNoEntry | ErrFailedLdapAuth

text \<open>The scheme of the address decides whether the connection is encrypted.\<close>

definition ldap_dial :: "ldap_env \<Rightarrow> string \<Rightarrow> bool \<Rightarrow> bool" where
  "ldap_dial ld ldapServer skipTlsVerify =
     (if HasPrefix ldapServer ''ldaps://'' then ldDial ld (TrimPrefix ldapServer ''ldaps://'') True skipTlsVerify
      else if HasPrefix ldapServer ''ldap://'' then ldDial ld (TrimPrefix ldapServer ''ldap://'') False False
      else ldDial ld ldapServer False False)"

definition HandleLdapLogin :: "auth_env \<Rightarrow> ldap_env \<Rightarrow> string \<Rightarrow> string \<Rightarrow> server \<Rightarrow> ldap_error option \<times> server" where
  "HandleLdapLogin env ld username password s0 =
     (let (ldapServer, s1) = GetStr (aBase env) ''ldap_server'' [] s0;
          (skipTlsVerify, s2) = GetBool (aBase env) ''ldap_skip_tls_verify'' s1;
          (managerDN, s3) = GetStr (aBase env) ''ldap_manager_dn'' [] s2;
          (managerPassword, s4) = GetStr (aBase env) ''ldap_manager_password'' [] s3;
          (searchBase, s5) = GetStr (aBase env) ''ldap_user_search_base'' [] s4;
          (searchFilter, s6) = GetStr (aBase env) ''ldap_user_search_filter'' [] s5
      in (if \<not> ldap_dial ld ldapServer skipTlsVerify then Some LdapConnect
          else if managerDN \<noteq> [] \<and> managerPassword \<noteq> [] \<and> \<not> ldBind ld managerDN managerPassword then Some LdapBindManager
          else case ldSearch ld searchBase (ldFilter ld searchFilter username) of
            None \<Rightarrow> Some LdapSearch
          | Some [userDN] \<Rightarrow> if ldBind ld userDN password then None else Some ErrFailedLdapAuth
          | Some _ \<Rightarrow> Some LdapNoEntry, s6))"

text \<open>The row that creating a user adds, which the caller's struct holds afterwards.\<close>

definition created_row :: "sv_env \<Rightarrow> User \<Rightarrow> User" where
  "created_row env u = u\<lparr>BasePath := FixAndCleanPath (BasePath u), ID := (if ID u = 0 then svNewID env else ID u), AllowLdap := True\<rparr>"

definition LdapRegister :: "auth_env \<Rightarrow> string \<Rightarrow> server \<Rightarrow> User option \<times> server" where
  "LdapRegister env username s =
     (if username = [] then (None, s)
      else
        let (permission, s1) = GetInt (aBase env) ''ldap_default_permission'' 0 s;
            (dir, s2) = GetStr (aBase env) ''ldap_default_dir'' [] s1;
            user = \<lparr>ID = 0, Username = username, PwdHash = [], PwdTS = 0, Salt = [], Password = [], BasePath = dir, Role = 0, Disabled = False,
                    Permission = word_of_int permission, OtpSecret = [], SsoID = [], Authn = ''[]'', AllowLdap = True\<rparr>;
            user1 = set_password env user (aPassword env)
        in (case CreateUser (aBase env) user1 s2 of
              (Some e, s3) \<Rightarrow> (None, s3)
            | (None, s3) \<Rightarrow> (Some (created_row (aBase env) user1), s3)))"

definition tryLdapLoginAndRegister :: "auth_env \<Rightarrow> ldap_env \<Rightarrow> string \<Rightarrow> string \<Rightarrow> server \<Rightarrow> User option \<times> server" where
  "tryLdapLoginAndRegister env ld user pass s =
     (case HandleLdapLogin env ld user pass s of (Some e, s1) \<Rightarrow> (None, s1) | (None, s1) \<Rightarrow> LdapRegister env user s1)"

text \<open>Finding the user for a name and a password, as WebDAV, FTP and SFTP do it; they differ in the permission that a new user
  must get.\<close>

definition check_user :: "auth_env \<Rightarrow> ldap_env \<Rightarrow> (32 word \<Rightarrow> bool) \<Rightarrow> string \<Rightarrow> string \<Rightarrow> server \<Rightarrow> User option \<times> server" where
  "check_user env ld allowed username password s =
     (case GetUserByName (aBase env) username s of
        (Inr user, s1) \<Rightarrow>
          if ValidateRawPassword (aSha256 env) user password = None then (Some user, s1)
          else (case GetBool (aBase env) ''ldap_login_enabled'' s1 of
                  (enabled, s2) \<Rightarrow>
                    if enabled \<and> AllowLdap user then
                      (case HandleLdapLogin env ld username password s2 of (Some e, s3) \<Rightarrow> (None, s3) | (None, s3) \<Rightarrow> (Some user, s3))
                    else (None, s2))
      | (Inl e, s1) \<Rightarrow>
          (case GetBool (aBase env) ''ldap_login_enabled'' s1 of
             (False, s2) \<Rightarrow> (None, s2)
           | (True, s2) \<Rightarrow>
               (case GetInt (aBase env) ''ldap_default_permission'' 0 s2 of
                  (p, s3) \<Rightarrow>
                    if allowed (word_of_int p) then tryLdapLoginAndRegister env ld username password s3 else (None, s3))))"

section \<open>REST\<close>

record LoginReq =
  lrUsername :: string
  lrPassword :: string
  lrOtpCode :: string

datatype login_answer =
  LoginToken string | TooManyAttempts | InvalidUsernameOrPassword | Invalid2FACode | LdapAuthFailed | RegisterFailed | LoginCode int

definition loginHash :: "auth_env \<Rightarrow> string \<Rightarrow> LoginReq \<Rightarrow> server \<Rightarrow> login_answer \<times> server" where
  "loginHash env ip req s =
     (let now = svNow (aBase env); cnt = login_count now ip s
      in if login_locked now ip s then (TooManyAttempts, login_Expire now ip s)
         else case GetUserByName (aBase env) (lrUsername req) s of
           (Inl e, s1) \<Rightarrow> (InvalidUsernameOrPassword, login_Set ip (cnt + 1) s1)
         | (Inr user, s1) \<Rightarrow>
             if ValidatePwdStaticHash (aSha256 env) user (lrPassword req) \<noteq> None then (InvalidUsernameOrPassword, login_Set ip (cnt + 1) s1)
             else if OtpSecret user \<noteq> [] \<and> \<not> aTotp env (lrOtpCode req) (OtpSecret user) then (Invalid2FACode, login_Set ip (cnt + 1) s1)
             else (case GenerateToken env user s1 of
                     (Inl e, s2) \<Rightarrow> (LoginCode 500, s2)
                   | (Inr tok, s2) \<Rightarrow> (LoginToken tok, login_Del ip s2)))"

definition LoginHash :: "auth_env \<Rightarrow> string \<Rightarrow> LoginReq \<Rightarrow> server \<Rightarrow> login_answer \<times> server" where
  "LoginHash env ip req s = (if lrUsername req = [] then (LoginCode 400, s) else loginHash env ip req s)"

definition Login_raw :: "auth_env \<Rightarrow> string \<Rightarrow> LoginReq \<Rightarrow> server \<Rightarrow> login_answer \<times> server" where
  "Login_raw env ip req s =
     (if lrUsername req = [] then (LoginCode 400, s)
      else loginHash env ip (req\<lparr>lrPassword := StaticHash (aSha256 env) (lrPassword req)\<rparr>) s)"

definition LoginLdap :: "auth_env \<Rightarrow> ldap_env \<Rightarrow> string \<Rightarrow> LoginReq \<Rightarrow> server \<Rightarrow> login_answer \<times> server" where
  "LoginLdap env ld ip req s0 =
     (if lrUsername req = [] then (LoginCode 400, s0)
      else case GetBool (aBase env) ''ldap_login_enabled'' s0 of
        (False, s) \<Rightarrow> (LoginCode 403, s)
      | (True, s) \<Rightarrow>
          (case GetUserByName (aBase env) (lrUsername req) s of
             (found, s1) \<Rightarrow>
               let user = (case found of Inl e \<Rightarrow> None | Inr u \<Rightarrow> Some u); now = svNow (aBase env); cnt = login_count now ip s1
               in if (case user of Some u \<Rightarrow> \<not> AllowLdap u | None \<Rightarrow> False) then (LoginCode 403, s1)
                  else if login_locked now ip s1 then (TooManyAttempts, login_Expire now ip s1)
                  else (case HandleLdapLogin env ld (lrUsername req) (lrPassword req) s1 of
                          (Some ErrFailedLdapAuth, s2) \<Rightarrow> (LdapAuthFailed, login_Set ip (cnt + 1) s2)
                        | (Some e, s2) \<Rightarrow> (LoginCode 500, s2)
                        | (None, s2) \<Rightarrow>
                            (case (case user of Some u \<Rightarrow> (Some u, s2) | None \<Rightarrow> LdapRegister env (lrUsername req) s2) of
                               (None, s3) \<Rightarrow> (RegisterFailed, login_Set ip (cnt + 1) s3)
                             | (Some u, s3) \<Rightarrow>
                                 (case GenerateToken env u s3 of
                                    (Inl e, s4) \<Rightarrow> (LoginCode 400, s4)
                                  | (Inr tok, s4) \<Rightarrow> (LoginToken tok, login_Del ip s4))))))"

section \<open>WebDAV\<close>

record dav_request =
  davMethod :: string
  davPath :: string
  davBasic :: "(string \<times> string) option"
  davAuthorization :: string

text \<open>The user and the password for folders that the request gets, or the status it is refused with.\<close>

datatype dav_answer = DavNext "User option" "string option" | DavStatus int

definition isIndex115WebDAVPath :: "string \<Rightarrow> string \<Rightarrow> bool" where
  "isIndex115WebDAVPath davPrefix p \<longleftrightarrow> p = davPrefix \<or> HasPrefix p (davPrefix @ ''/'')"

definition index115WebDAVAuthForServe :: "auth_env \<Rightarrow> dav_request \<Rightarrow> server \<Rightarrow> bool \<times> server" where
  "index115WebDAVAuthForServe env r s =
     (if davMethod r = ''OPTIONS'' then (True, s)
      else case GetStr (aBase env) ''token'' [] s of
        (tok, s1) \<Rightarrow>
          (tok = [] \<or> HasPrefix (davAuthorization r) ''Bearer '' \<and> TrimPrefix (davAuthorization r) ''Bearer '' = tok, s1))"

definition dav_write_methods :: "string list" where
  "dav_write_methods = [''PUT'', ''MKCOL'', ''MOVE'', ''COPY'', ''DELETE'', ''PROPPATCH'']"

text \<open>A request for the options of the server gets the guest instead of a refusal.\<close>

definition dav_refuse :: "dav_request \<Rightarrow> User option \<Rightarrow> int \<Rightarrow> dav_answer" where
  "dav_refuse r guest code = (if davMethod r = ''OPTIONS'' then DavNext guest None else DavStatus code)"

definition WebDAVAuth :: "auth_env \<Rightarrow> ldap_env \<Rightarrow> string \<Rightarrow> string \<Rightarrow> dav_request \<Rightarrow> server \<Rightarrow> dav_answer \<times> server" where
  "WebDAVAuth env ld davPrefix ip r s0 =
     (if isIndex115WebDAVPath davPrefix (davPath r) then
        (case index115WebDAVAuthForServe env r s0 of (ok, s1) \<Rightarrow> (if ok then DavNext None None else DavStatus 401, s1))
      else case GetGuest (aBase env) s0 of
        (g, s) \<Rightarrow>
          let guest = (case g of Inl e \<Rightarrow> None | Inr u \<Rightarrow> Some u); now = svNow (aBase env); cnt = login_count now ip s
          in if login_locked now ip s then
               (dav_refuse r guest 429, if davMethod r = ''OPTIONS'' then s else login_Expire now ip s)
             else (case davBasic r of
                     None \<Rightarrow>
                       if HasPrefix (davAuthorization r) ''Bearer'' then
                         (case GetStr (aBase env) ''token'' [] s of
                            (tok, s1) \<Rightarrow>
                              if tok \<noteq> [] \<and> TrimPrefix (davAuthorization r) ''Bearer '' = tok then
                                (case GetAdmin (aBase env) s1 of
                                   (Inl e, s2) \<Rightarrow> (DavStatus 500, s2)
                                 | (Inr admin, s2) \<Rightarrow> (DavNext (Some admin) None, s2))
                              else (dav_refuse r guest 401, s1))
                       else (dav_refuse r guest 401, s)
                   | Some (username, password) \<Rightarrow>
                       (case check_user env ld CanWebdavRead username password s of
                          (None, s1) \<Rightarrow>
                            (dav_refuse r guest 401, if davMethod r = ''OPTIONS'' then s1 else login_Set ip (cnt + 1) s1)
                        | (Some user, s1) \<Rightarrow>
                            (if Disabled user \<or> \<not> CanWebdavRead (Permission user) then dav_refuse r guest 403
                             else if davMethod r \<in> set dav_write_methods \<and> \<not> CanWebdavManage (Permission user) then DavStatus 403
                             else DavNext (Some user) (Some (if IsGuest user then password else [])), login_Del ip s1))))"

section \<open>FTP and SFTP\<close>

datatype ftp_answer = FtpUser User string | FtpTooMany | FtpRefused | FtpError

definition AuthUser :: "auth_env \<Rightarrow> ldap_env \<Rightarrow> string \<Rightarrow> string \<Rightarrow> string \<Rightarrow> server \<Rightarrow> ftp_answer \<times> server" where
  "AuthUser env ld remoteAddr user pass s =
     (let now = svNow (aBase env); cnt = login_count now remoteAddr s; anonymous = (user = ''anonymous'' \<or> user = ''guest'')
      in if login_locked now remoteAddr s then (FtpTooMany, login_Expire now remoteAddr s)
         else case (if anonymous then (case GetGuest (aBase env) s of (Inl e, s1) \<Rightarrow> (None, s1) | (Inr u, s1) \<Rightarrow> (Some u, s1))
                    else check_user env ld CanFTPAccess user pass s) of
           (None, s1) \<Rightarrow> if anonymous then (FtpError, s1) else (FtpRefused, login_Set remoteAddr (cnt + 1) s1)
         | (Some u, s1) \<Rightarrow>
             if Disabled u \<or> \<not> CanFTPAccess (Permission u) then (FtpRefused, login_Set remoteAddr (cnt + 1) s1)
             else (FtpUser u (if anonymous then pass else []), login_Del remoteAddr s1))"

definition NoClientAuth :: "auth_env \<Rightarrow> string \<Rightarrow> server \<Rightarrow> bool \<times> server" where
  "NoClientAuth env user s =
     (if user \<noteq> ''guest'' then (False, s)
      else case GetGuest (aBase env) s of
        (Inl e, s1) \<Rightarrow> (False, s1)
      | (Inr guest, s1) \<Rightarrow> (\<not> (Disabled guest \<or> \<not> CanFTPAccess (Permission guest)), s1))"

definition PasswordAuth :: "auth_env \<Rightarrow> ldap_env \<Rightarrow> string \<Rightarrow> string \<Rightarrow> string \<Rightarrow> server \<Rightarrow> ftp_answer \<times> server" where
  "PasswordAuth env ld remoteAddr user pass s =
     (let now = svNow (aBase env); cnt = login_count now remoteAddr s
      in if login_locked now remoteAddr s then (FtpTooMany, login_Expire now remoteAddr s)
         else case check_user env ld CanFTPAccess user pass s of
           (None, s1) \<Rightarrow> (FtpRefused, login_Set remoteAddr (cnt + 1) s1)
         | (Some u, s1) \<Rightarrow>
             if Disabled u \<or> \<not> CanFTPAccess (Permission u) then (FtpRefused, login_Set remoteAddr (cnt + 1) s1)
             else (FtpUser u [], login_Del remoteAddr s1))"

text \<open>After the password of an SFTP connection the user is looked up again.\<close>

definition GetFileSystem :: "auth_env \<Rightarrow> string \<Rightarrow> server \<Rightarrow> User option \<times> server" where
  "GetFileSystem env user s = (case GetUserByName (aBase env) user s of (Inl e, s1) \<Rightarrow> (None, s1) | (Inr u, s1) \<Rightarrow> (Some u, s1))"

end
