(* ===== verification/Login_Props.thy ===== *)
theory Login_Props
  imports Login
begin

text \<open>
  The contract that the ways to log in share, as a locale: an attempt from a locked address is refused, an attempt that fails adds
  one to the counter of its address, one that passes removes it.  Clients of the contract learn that guessing is cut off after five
  failures.  All entry points together are one instance.
\<close>

section \<open>The contract\<close>

datatype attempt_kind = Locked | Failed | Passed | Uncounted

text \<open>Attempts one after another.\<close>

fun attempts :: "('e \<Rightarrow> 'q \<Rightarrow> server \<Rightarrow> 'a \<times> server) \<Rightarrow> ('e \<times> 'q) list \<Rightarrow> server \<Rightarrow> 'a list" where
  "attempts f [] s = []"
| "attempts f ((e, q) # rest) s = (case f e q s of (a, s') \<Rightarrow> a # attempts f rest s')"

text \<open>No time in the list is as late as the lock duration after the one before it.\<close>

fun no_pause :: "int list \<Rightarrow> bool" where
  "no_pause (t # u # ts) \<longleftrightarrow> u < t + DefaultLockDuration \<and> no_pause (u # ts)"
| "no_pause ts \<longleftrightarrow> True"

lemma no_pause_tl: "no_pause (t # ts) \<Longrightarrow> no_pause ts"
  by (cases ts) auto

definition counted_as :: "int \<Rightarrow> string \<Rightarrow> server \<Rightarrow> attempt_kind \<Rightarrow> server \<Rightarrow> bool" where
  "counted_as now ip s k s' \<longleftrightarrow>
     (case k of
        Locked \<Rightarrow> False
      | Failed \<Rightarrow> LoginCache s' = (LoginCache s)(ip \<mapsto> (login_count now ip s + 1, None))
      | Passed \<Rightarrow> LoginCache s' = (LoginCache s)(ip := None)
      | Uncounted \<Rightarrow> LoginCache s' = LoginCache s)"

locale limited_login =
  fixes attempt :: "'e \<Rightarrow> 'q \<Rightarrow> server \<Rightarrow> 'a \<times> server"
    and clock :: "'e \<Rightarrow> int" and subject :: "'e \<Rightarrow> 'q \<Rightarrow> bool" and addr :: "'q \<Rightarrow> string" and kind :: "'a \<Rightarrow> attempt_kind"
  assumes refused: "\<lbrakk>subject e q; attempt e q s = (a, s'); login_locked (clock e) (addr q) s; kind a \<noteq> Uncounted\<rbrakk> \<Longrightarrow>
      kind a = Locked \<and> LoginCache s' = LoginCache (login_Expire (clock e) (addr q) s)"
    and counted: "\<lbrakk>subject e q; attempt e q s = (a, s'); \<not> login_locked (clock e) (addr q) s\<rbrakk> \<Longrightarrow> counted_as (clock e) (addr q) s (kind a) s'"
begin

text \<open>From a locked address nothing passes as long as the attempts do not pause.\<close>

lemma locked_stays:
  assumes "\<forall>(e, q) \<in> set eqs. subject e q \<and> addr q = ip" "no_pause (map (clock \<circ> fst) eqs)"
    "\<forall>a \<in> set (attempts attempt eqs s). kind a \<noteq> Uncounted" "eqs \<noteq> [] \<Longrightarrow> login_locked (clock (fst (hd eqs))) ip s"
  shows "\<forall>a \<in> set (attempts attempt eqs s). kind a = Locked"
  using assms
proof (induction eqs arbitrary: s)
  case (Cons eq eqs)
  obtain e q where eq: "eq = (e, q)" by fastforce
  obtain a s' where a: "attempt e q s = (a, s')" by fastforce
  have lk: "login_locked (clock e) ip s" and q: "subject e q" "addr q = ip" and ka: "kind a \<noteq> Uncounted" using Cons.prems eq a by auto
  then have r: "kind a = Locked" "LoginCache s' = LoginCache (login_Expire (clock e) ip s)" using refused [OF q(1) a] by auto
  obtain n where n: "login_Get (clock e) ip s = Some n" "n \<ge> DefaultMaxAuthRetries" using lk by (auto simp: login_locked_def split: option.splits)
  then have "LoginCache s' ip = Some (n, Some (clock e + DefaultLockDuration))" using r(2) by (simp add: login_Expire_def)
  moreover have "clock (fst (hd eqs)) < clock e + DefaultLockDuration" if "eqs \<noteq> []"
    using Cons.prems(2) eq that by (cases eqs) auto
  ultimately have "login_locked (clock (fst (hd eqs))) ip s'" if "eqs \<noteq> []"
    using n(2) that by (simp add: login_locked_def login_Get_def)
  then have "\<forall>a \<in> set (attempts attempt eqs s'). kind a = Locked"
    using Cons.prems eq a by (intro Cons.IH) (auto, cases eqs, auto)
  then show ?case using eq a r(1) by simp
qed simp

text \<open>Failures add up.\<close>

lemma failures_lock:
  assumes "\<forall>(e, q) \<in> set eqs. subject e q \<and> addr q = ip" "no_pause (map (clock \<circ> fst) eqs)"
    "\<forall>a \<in> set (attempts attempt eqs s). kind a \<noteq> Uncounted"
    "take n (map kind (attempts attempt eqs s)) = replicate n Failed"
    "LoginCache s ip = (if n = 5 then None else Some (5 - int n, None))" "n \<le> 5"
  shows "\<forall>k \<in> set (drop n (map kind (attempts attempt eqs s))). k = Locked"
  using assms
proof (induction n arbitrary: eqs s)
  case 0
  then have "login_locked t ip s" for t by (simp add: login_locked_def login_Get_def DefaultMaxAuthRetries_def)
  with locked_stays [of eqs ip s] 0 show ?case by simp
next
  case (Suc n)
  obtain e q rest where eqs: "eqs = (e, q) # rest"
    using Suc.prems(4) by (cases eqs) auto
  obtain a s' where a: "attempt e q s = (a, s')" by fastforce
  have ka: "kind a = Failed" and rest: "take n (map kind (attempts attempt rest s')) = replicate n Failed"
    using Suc.prems(4) eqs a by auto
  have q: "subject e q" "addr q = ip" using Suc.prems(1) eqs by auto
  have cnt: "login_count (clock e) ip s = 5 - int (Suc n)" "\<not> login_locked (clock e) ip s"
    using Suc.prems(5,6) by (auto simp: login_count_def login_locked_def login_Get_def DefaultMaxAuthRetries_def)
  from counted [OF q(1) a] cnt q(2) ka have "LoginCache s' ip = Some (5 - int n, None)" by (simp add: counted_as_def)
  moreover have "n \<noteq> 5" "n \<le> 5" using Suc.prems(6) by auto
  moreover have "no_pause (map (clock \<circ> fst) rest)" using Suc.prems(2) eqs by (auto simp: comp_def dest: no_pause_tl)
  ultimately have "\<forall>k \<in> set (drop n (map kind (attempts attempt rest s'))). k = Locked"
    using Suc.prems(1,3) eqs a rest by (intro Suc.IH) (auto simp: comp_def)
  then show ?case using eqs a by simp
qed

lemma five_failures_lock:
  assumes "\<forall>(e, q) \<in> set eqs. subject e q \<and> addr q = ip" "no_pause (map (clock \<circ> fst) eqs)"
    "\<forall>a \<in> set (attempts attempt eqs s). kind a \<noteq> Uncounted"
    "take 5 (map kind (attempts attempt eqs s)) = replicate 5 Failed" "LoginCache s ip = None"
  shows "\<forall>k \<in> set (drop 5 (map kind (attempts attempt eqs s))). k = Locked"
  using failures_lock [of eqs ip s 5] assms by simp

end

section \<open>What the entry points share\<close>

text \<open>Reading settings and users does not touch the counters.\<close>

lemma GetBool_server_ok:
  assumes "server_ok s" "GetBool env key s = (v, s')"
  shows "server_ok s' \<and> same_users s s'"
proof -
  obtain v1 s1 where g: "GetStr env key [] s = (v1, s1)" by fastforce
  obtain v2 s2 where g2: "GetStr env key [] s1 = (v2, s2)" by fastforce
  from GetStr_server_ok [OF assms(1) g] GetStr_server_ok [OF _ g2] assms(2) g g2 same_users_trans [of s s1 s2] show ?thesis
    by (auto simp: GetBool_def split: if_splits)
qed

lemma GetInt_server_ok:
  assumes "server_ok s" "GetInt env key d s = (v, s')"
  shows "server_ok s' \<and> same_users s s'"
proof -
  obtain v1 s1 where g: "GetStr env key [] s = (v1, s1)" by fastforce
  with GetStr_server_ok [OF assms(1) g] assms(2) show ?thesis by (simp add: GetInt_def)
qed

lemma GetBool_same: "GetBool env key s = (v, s') \<Longrightarrow> same_users s s'"
  by (auto simp: GetBool_def split: prod.splits if_splits dest!: GetStr_same intro: same_users_trans)

lemma GetInt_same: "GetInt env key d s = (v, s') \<Longrightarrow> same_users s s'"
  by (auto simp: GetInt_def split: prod.splits dest!: GetStr_same)

lemma HandleLdapLogin_ok:
  assumes "HandleLdapLogin env ld u p s0 = (r, s')"
  shows "same_users s0 s' \<and> (server_ok s0 \<longrightarrow> server_ok s')"
proof -
  obtain v1 s1 where 1: "GetStr (aBase env) ''ldap_server'' [] s0 = (v1, s1)" by fastforce
  obtain v2 s2 where 2: "GetBool (aBase env) ''ldap_skip_tls_verify'' s1 = (v2, s2)" by fastforce
  obtain v3 s3 where 3: "GetStr (aBase env) ''ldap_manager_dn'' [] s2 = (v3, s3)" by fastforce
  obtain v4 s4 where 4: "GetStr (aBase env) ''ldap_manager_password'' [] s3 = (v4, s4)" by fastforce
  obtain v5 s5 where 5: "GetStr (aBase env) ''ldap_user_search_base'' [] s4 = (v5, s5)" by fastforce
  obtain v6 s6 where 6: "GetStr (aBase env) ''ldap_user_search_filter'' [] s5 = (v6, s6)" by fastforce
  have "s' = s6" using assms by (simp add: HandleLdapLogin_def 1 2 3 4 5 6)
  moreover have "same_users s0 s6"
    by (intro same_users_trans [OF GetStr_same [OF 1]] same_users_trans [OF GetBool_same [OF 2]] same_users_trans [OF GetStr_same [OF 3]]
      same_users_trans [OF GetStr_same [OF 4]] same_users_trans [OF GetStr_same [OF 5]] GetStr_same [OF 6])
  moreover have "server_ok s0 \<Longrightarrow> server_ok s6"
    using GetStr_server_ok [OF _ 1] GetBool_server_ok [OF _ 2] GetStr_server_ok [OF _ 3] GetStr_server_ok [OF _ 4]
      GetStr_server_ok [OF _ 5] GetStr_server_ok [OF _ 6] by blast
  ultimately show ?thesis by blast
qed

lemma CreateUser_row:
  assumes "CreateUser env u s = (None, s')"
  shows "svUsers s' = svUsers s @ [created_row env u] \<and> LoginCache s' = LoginCache s"
  using assms by (auto simp: CreateUser_def db_CreateUser_def created_row_def Let_def split: option.splits if_splits)

lemma CreateUser_server_ok: "server_ok s \<Longrightarrow> server_ok (snd (CreateUser env u s))"
  using same_settings_ok [OF CreateUser_same] CreateUser_ok by (auto simp: server_ok_def)

lemma CreateUser_fails: "CreateUser env u s = (Some e, s') \<Longrightarrow> s' = s"
  by (auto simp: CreateUser_def db_CreateUser_def Let_def split: option.splits if_splits)

lemma LdapRegister_ok:
  assumes "LdapRegister env n s = (r, s')"
  shows "LoginCache s' = LoginCache s \<and> (server_ok s \<longrightarrow> server_ok s') \<and> (\<forall>u. r = Some u \<longrightarrow> u \<in> set (svUsers s') \<and> Username u = n) \<and>
    set (svUsers s) \<subseteq> set (svUsers s') \<and> validTokenCache s' = validTokenCache s"
proof (cases "n = []")
  case False
  obtain p s1 where 1: "GetInt (aBase env) ''ldap_default_permission'' 0 s = (p, s1)" by fastforce
  obtain d s2 where 2: "GetStr (aBase env) ''ldap_default_dir'' [] s1 = (d, s2)" by fastforce
  let ?u = "set_password env \<lparr>ID = 0, Username = n, PwdHash = [], PwdTS = 0, Salt = [], Password = [], BasePath = d, Role = 0, Disabled = False,
    Permission = word_of_int p, OtpSecret = [], SsoID = [], Authn = ''[]'', AllowLdap = True\<rparr> (aPassword env)"
  have sm: "same_users s s2" using GetInt_same [OF 1] GetStr_same [OF 2] by (rule same_users_trans)
  have ok: "server_ok s \<Longrightarrow> server_ok s2" using GetInt_server_ok [OF _ 1] GetStr_server_ok [OF _ 2] by blast
  obtain e s3 where 3: "CreateUser (aBase env) ?u s2 = (e, s3)" by fastforce
  have "validTokenCache s3 = validTokenCache s2"
    using 3 by (auto simp: CreateUser_def db_CreateUser_def Let_def split: option.splits if_splits)
  moreover have "server_ok s2 \<Longrightarrow> server_ok s3" using CreateUser_server_ok [of s2 "aBase env" ?u] 3 by simp
  ultimately show ?thesis
    using False assms sm ok CreateUser_row [of "aBase env" ?u s2 s3] CreateUser_fails [of "aBase env" ?u s2 _ s3]
    by (cases e) (auto simp: LdapRegister_def 1 2 3 same_users_def created_row_def Let_def)
qed (use assms in \<open>auto simp: LdapRegister_def\<close>)

lemma tryLdap_ok:
  assumes "tryLdapLoginAndRegister env ld n p s = (r, s')"
  shows "LoginCache s' = LoginCache s \<and> (server_ok s \<longrightarrow> server_ok s') \<and> (\<forall>u. r = Some u \<longrightarrow> u \<in> set (svUsers s') \<and> Username u = n) \<and>
    set (svUsers s) \<subseteq> set (svUsers s') \<and> validTokenCache s' = validTokenCache s"
proof -
  obtain e s1 where h: "HandleLdapLogin env ld n p s = (e, s1)" by fastforce
  from HandleLdapLogin_ok [OF h] LdapRegister_ok [of env n s1 r s'] h assms show ?thesis
    by (cases e) (auto simp: tryLdapLoginAndRegister_def same_users_def)
qed

lemma check_user_ok:
  assumes "check_user env ld allowed n p s = (r, s')"
  shows "LoginCache s' = LoginCache s \<and> (server_ok s \<longrightarrow> server_ok s' \<and> (\<forall>u. r = Some u \<longrightarrow> u \<in> set (svUsers s') \<and> Username u = n)) \<and>
    validTokenCache s' = validTokenCache s"
proof -
  obtain f s1 where g: "GetUserByName (aBase env) n s = (f, s1)" by fastforce
  obtain en s2 where b: "GetBool (aBase env) ''ldap_login_enabled'' s1 = (en, s2)" by fastforce
  have l1: "LoginCache s1 = LoginCache s" "validTokenCache s1 = validTokenCache s" using GetUserByName_same [OF g] by auto
  have ok1: "server_ok s1 \<and> svUsers s1 = svUsers s \<and> (\<forall>u. f = Inr u \<longrightarrow> u \<in> set (svUsers s) \<and> Username u = n)" if "server_ok s"
    using GetUserByName_ok [OF _ g] GetUserByName_same [OF g] same_settings_ok [of s s1] that by (auto simp: server_ok_def named_def)
  have l2: "LoginCache s2 = LoginCache s" "validTokenCache s2 = validTokenCache s" "svUsers s2 = svUsers s1"
    using GetBool_same [OF b] l1 by (auto simp: same_users_def)
  have ok2: "server_ok s \<Longrightarrow> server_ok s2" using ok1 GetBool_server_ok [OF _ b] by blast
  show ?thesis
  proof (cases f)
    case (Inr u)
    obtain e s3 where h: "HandleLdapLogin env ld n p s2 = (e, s3)" by fastforce
    from HandleLdapLogin_ok [OF h] Inr assms g b h l1 l2 ok1 ok2 show ?thesis
      by (cases e) (auto simp: check_user_def same_users_def split: if_splits)
  next
    case (Inl err)
    obtain v s3 where i: "GetInt (aBase env) ''ldap_default_permission'' 0 s2 = (v, s3)" by fastforce
    obtain r4 s4 where t: "tryLdapLoginAndRegister env ld n p s3 = (r4, s4)" by fastforce
    have "LoginCache s3 = LoginCache s" "validTokenCache s3 = validTokenCache s" using GetInt_same [OF i] l2 by (auto simp: same_users_def)
    moreover have "server_ok s \<Longrightarrow> server_ok s3" using ok2 GetInt_server_ok [OF _ i] by blast
    ultimately show ?thesis
      using tryLdap_ok [OF t] Inl assms g b i t l2 ok2 by (cases en) (auto simp: check_user_def split: if_splits)
  qed
qed

lemma GenerateToken_keeps: "GenerateToken env u s = (r, s') \<Longrightarrow> LoginCache s' = LoginCache s \<and> (server_ok s' \<longleftrightarrow> server_ok s) \<and> svUsers s' = svUsers s"
  by (auto simp: GenerateToken_def server_ok_def settings_ok_def users_ok_def Let_def split: sum.splits)

section \<open>The entry points together\<close>

datatype login_entry =
  ByPassword LoginReq | ByHash LoginReq | ByLdap LoginReq | ByDav dav_request | ByFtp string string | BySftp string string

datatype entry_answer = RestAnswer login_answer | DavAnswer dav_answer | FtpAnswer ftp_answer

text \<open>Where an attempt comes from: what \<open>ClientIP\<close> makes of the headers of an HTTP request, and the address and port of the connection.\<close>

record login_client =
  clientIP :: string
  peerIP :: string
  peerPort :: int

text \<open>\<open>RemoteAddr().String()\<close> of a connection: an address with a colon is put into brackets, and the port follows.\<close>

definition RemoteAddr :: "login_client \<Rightarrow> string" where
  "RemoteAddr c = (if CHR '':'' \<in> set (peerIP c) then ''['' @ peerIP c @ '']'' else peerIP c) @ '':'' @ FormatInt (peerPort c)"

text \<open>The key under which an entry point counts: the handlers of HTTP requests use the client's address, FTP and SFTP the address and the port.\<close>

definition login_key :: "login_client \<times> login_entry \<Rightarrow> string" where
  "login_key q = (case snd q of ByFtp u p \<Rightarrow> RemoteAddr (fst q) | BySftp u p \<Rightarrow> RemoteAddr (fst q) | _ \<Rightarrow> clientIP (fst q))"

text \<open>The environment of an attempt: clock and database, directory service, and the path below which WebDAV serves its index.\<close>

definition serve_login :: "auth_env \<times> ldap_env \<times> string \<Rightarrow> login_client \<times> login_entry \<Rightarrow> server \<Rightarrow> entry_answer \<times> server" where
  "serve_login e q s =
     (case e of (env, ld, davPrefix) \<Rightarrow>
      case q of
        (c, ByPassword req) \<Rightarrow> map_prod RestAnswer id (Login_raw env (clientIP c) req s)
      | (c, ByHash req) \<Rightarrow> map_prod RestAnswer id (LoginHash env (clientIP c) req s)
      | (c, ByLdap req) \<Rightarrow> map_prod RestAnswer id (LoginLdap env ld (clientIP c) req s)
      | (c, ByDav r) \<Rightarrow> map_prod DavAnswer id (WebDAVAuth env ld davPrefix (clientIP c) r s)
      | (c, ByFtp u p) \<Rightarrow> map_prod FtpAnswer id (AuthUser env ld (RemoteAddr c) u p s)
      | (c, BySftp u p) \<Rightarrow> map_prod FtpAnswer id (PasswordAuth env ld (RemoteAddr c) u p s))"

definition login_clock :: "auth_env \<times> ldap_env \<times> string \<Rightarrow> int" where
  "login_clock e = svNow (aBase (fst e))"

text \<open>Attempts with a name and a password; WebDAV requests for the options of the server are not among them.\<close>

definition subject_to_limit :: "auth_env \<times> ldap_env \<times> string \<Rightarrow> login_client \<times> login_entry \<Rightarrow> bool" where
  "subject_to_limit e q =
     (case snd q of
        ByDav r \<Rightarrow> davMethod r \<noteq> ''OPTIONS'' \<and> davBasic r \<noteq> None \<and> \<not> isIndex115WebDAVPath (snd (snd e)) (davPath r)
      | _ \<Rightarrow> True)"

fun answer_kind :: "entry_answer \<Rightarrow> attempt_kind" where
  "answer_kind (RestAnswer (LoginToken tok)) = Passed"
| "answer_kind (RestAnswer TooManyAttempts) = Locked"
| "answer_kind (RestAnswer (LoginCode c)) = Uncounted"
| "answer_kind (RestAnswer a) = Failed"
| "answer_kind (DavAnswer (DavStatus c)) = (if c = 429 then Locked else if c = 401 then Failed else Passed)"
| "answer_kind (DavAnswer (DavNext u p)) = Passed"
| "answer_kind (FtpAnswer (FtpUser u p)) = Passed"
| "answer_kind (FtpAnswer FtpTooMany) = Locked"
| "answer_kind (FtpAnswer FtpRefused) = Failed"
| "answer_kind (FtpAnswer FtpError) = Uncounted"

lemma LoginCache_simps [simp]:
  "LoginCache (login_Set ip n s) = (LoginCache s)(ip \<mapsto> (n, None))" "LoginCache (login_Del ip s) = (LoginCache s)(ip := None)"
  by (simp_all add: login_Set_def login_Del_def)

lemma login_cong:
  "LoginCache s1 = LoginCache s \<Longrightarrow> login_locked now ip s1 = login_locked now ip s"
  "LoginCache s1 = LoginCache s \<Longrightarrow> login_count now ip s1 = login_count now ip s"
  "LoginCache s1 = LoginCache s \<Longrightarrow> LoginCache (login_Expire now ip s1) = LoginCache (login_Expire now ip s)"
  by (simp_all add: login_locked_def login_count_def login_Get_def login_Expire_def split: option.split)

text \<open>An attempt respects the limit: it is refused when its address is locked and counted otherwise.\<close>

definition respects_limit :: "int \<Rightarrow> string \<Rightarrow> server \<Rightarrow> attempt_kind \<Rightarrow> server \<Rightarrow> bool" where
  "respects_limit now ip s k s' \<longleftrightarrow>
     (if login_locked now ip s then k = Locked \<and> LoginCache s' = LoginCache (login_Expire now ip s) \<or> k = Uncounted
      else counted_as now ip s k s')"

lemma loginHash_limit:
  assumes "loginHash env ip req s = (a, s')"
  shows "respects_limit (svNow (aBase env)) ip s (answer_kind (RestAnswer a)) s'"
proof -
  obtain f s1 where g: "GetUserByName (aBase env) (lrUsername req) s = (f, s1)" by fastforce
  have l: "LoginCache s1 = LoginCache s" using GetUserByName_same [OF g] by simp
  show ?thesis
  proof (cases f)
    case (Inr u)
    obtain t s2 where tk: "GenerateToken env u s1 = (t, s2)" by fastforce
    from GenerateToken_keeps [OF tk] l Inr assms g tk show ?thesis
      by (cases t) (auto simp: loginHash_def respects_limit_def counted_as_def Let_def split: if_splits)
  qed (use l assms g in \<open>auto simp: loginHash_def respects_limit_def counted_as_def Let_def split: if_splits\<close>)
qed

lemma AuthUser_limit:
  assumes "AuthUser env ld ip u p s = (a, s')"
  shows "respects_limit (svNow (aBase env)) ip s (answer_kind (FtpAnswer a)) s'"
proof -
  let ?anon = "u = ''anonymous'' \<or> u = ''guest''"
  obtain r s1 where c: "(if ?anon then (case GetGuest (aBase env) s of (Inl e, s1) \<Rightarrow> (None, s1) | (Inr u, s1) \<Rightarrow> (Some u, s1))
     else check_user env ld CanFTPAccess u p s) = (r, s1)" by fastforce
  then have "LoginCache s1 = LoginCache s"
    by (auto dest: check_user_ok GetGuest_same split: if_splits prod.splits sum.splits)
  with assms c show ?thesis
    by (cases r) (auto simp: AuthUser_def respects_limit_def counted_as_def Let_def split: if_splits)
qed

lemma PasswordAuth_limit:
  assumes "PasswordAuth env ld ip u p s = (a, s')"
  shows "respects_limit (svNow (aBase env)) ip s (answer_kind (FtpAnswer a)) s'"
proof -
  obtain r s1 where c: "check_user env ld CanFTPAccess u p s = (r, s1)" by fastforce
  from check_user_ok [OF c] assms c show ?thesis
    by (cases r) (auto simp: PasswordAuth_def respects_limit_def counted_as_def Let_def split: if_splits)
qed

lemma WebDAVAuth_limit:
  assumes "WebDAVAuth env ld px ip r s = (a, s')" "davMethod r \<noteq> ''OPTIONS''" "davBasic r = Some (u, p)" "\<not> isIndex115WebDAVPath px (davPath r)"
  shows "respects_limit (svNow (aBase env)) ip s (answer_kind (DavAnswer a)) s'"
proof -
  obtain g s0 where gg: "GetGuest (aBase env) s = (g, s0)" by fastforce
  obtain f s1 where c: "check_user env ld CanWebdavRead u p s0 = (f, s1)" by fastforce
  have l0: "LoginCache s0 = LoginCache s" using GetGuest_same [OF gg] by simp
  have l1: "LoginCache s1 = LoginCache s" using check_user_ok [OF c] l0 by simp
  show ?thesis
  proof (cases "login_locked (svNow (aBase env)) ip s")
    case True
    with assms gg l0 show ?thesis by (auto simp: WebDAVAuth_def dav_refuse_def respects_limit_def login_cong [OF l0] Let_def)
  next
    case False
    with assms gg c l1 show ?thesis
      by (cases f) (auto simp: WebDAVAuth_def dav_refuse_def respects_limit_def counted_as_def login_cong [OF l0] Let_def split: if_splits)
  qed
qed

lemma LoginLdap_limit:
  assumes "LoginLdap env ld ip req s0 = (a, s')"
  shows "respects_limit (svNow (aBase env)) ip s0 (answer_kind (RestAnswer a)) s'"
proof -
  obtain en s where b: "GetBool (aBase env) ''ldap_login_enabled'' s0 = (en, s)" by fastforce
  obtain f s1 where g: "GetUserByName (aBase env) (lrUsername req) s = (f, s1)" by fastforce
  obtain e s2 where h: "HandleLdapLogin env ld (lrUsername req) (lrPassword req) s1 = (e, s2)" by fastforce
  define user where "user = (case f of Inl e \<Rightarrow> None | Inr u \<Rightarrow> Some u)"
  obtain u3 s3 where r: "(case user of Some u \<Rightarrow> (Some u, s2) | None \<Rightarrow> LdapRegister env (lrUsername req) s2) = (u3, s3)" by fastforce
  have l: "LoginCache s = LoginCache s0" using GetBool_same [OF b] by (simp add: same_users_def)
  have l1: "LoginCache s1 = LoginCache s0" using GetUserByName_same [OF g] l by simp
  have l2: "LoginCache s2 = LoginCache s0" using HandleLdapLogin_ok [OF h] l1 by (simp add: same_users_def)
  have l3: "LoginCache s3 = LoginCache s0" using r l2 by (auto split: option.splits dest: LdapRegister_ok)
  note defs = LoginLdap_def b g h user_def [symmetric] r respects_limit_def counted_as_def login_cong [OF l1] Let_def
  show ?thesis
  proof (cases "lrUsername req = [] \<or> \<not> en \<or> (case user of Some u \<Rightarrow> \<not> AllowLdap u | None \<Rightarrow> False) \<or> login_locked (svNow (aBase env)) ip s0")
    case True
    with assms l l1 show ?thesis by (cases "lrUsername req = []"; cases en) (auto simp: defs split: if_splits)
  next
    case False
    then have free: "lrUsername req \<noteq> []" "en" "\<not> (case user of Some u \<Rightarrow> \<not> AllowLdap u | None \<Rightarrow> False)" "\<not> login_locked (svNow (aBase env)) ip s0" by auto
    show ?thesis
    proof (cases e)
      case None
      show ?thesis
      proof (cases u3)
        case (Some u)
        obtain t s4 where tk: "GenerateToken env u s3 = (t, s4)" by fastforce
        from GenerateToken_keeps [OF tk] None Some free assms tk show ?thesis by (cases t) (auto simp: defs l3)
      qed (use None free assms in \<open>auto simp: defs l3\<close>)
    next
      case (Some err)
      with free assms show ?thesis using l2 by (cases err) (auto simp: defs)
    qed
  qed
qed

lemma served: "map_prod f id x = (a, s') \<longleftrightarrow> (\<exists>b. x = (b, s') \<and> a = f b)"
  by (cases x) auto

lemma unchanged_respects [simp]: "respects_limit now ip s Uncounted s"
  by (simp add: respects_limit_def counted_as_def)

lemma serve_login_limit:
  assumes "subject_to_limit e q" "serve_login e q s = (a, s')"
  shows "respects_limit (login_clock e) (login_key q) s (answer_kind a) s'"
proof -
  obtain env ld px where e: "e = (env, ld, px)" by (metis prod_cases3)
  obtain c ent where q: "q = (c, ent)" by fastforce
  show ?thesis
    using assms unfolding e q serve_login_def login_clock_def subject_to_limit_def login_key_def
    by (cases ent) (auto simp: Login_raw_def LoginHash_def served intro: loginHash_limit LoginLdap_limit WebDAVAuth_limit AuthUser_limit PasswordAuth_limit
      split: if_splits)
qed

interpretation logins: limited_login serve_login login_clock subject_to_limit login_key answer_kind
proof
  show "answer_kind a = Locked \<and> LoginCache s' = LoginCache (login_Expire (login_clock e) (login_key q) s)"
    if "subject_to_limit e q" "serve_login e q s = (a, s')" "login_locked (login_clock e) (login_key q) s" "answer_kind a \<noteq> Uncounted" for e q s a s'
    using serve_login_limit [OF that(1,2)] that(3,4) by (simp add: respects_limit_def)
  show "counted_as (login_clock e) (login_key q) s (answer_kind a) s'"
    if "subject_to_limit e q" "serve_login e q s = (a, s')" "\<not> login_locked (login_clock e) (login_key q) s" for e q s a s'
    using serve_login_limit [OF that(1,2)] that(3) by (simp add: respects_limit_def)
qed

end
