(* ===== verification/Sessions.thy ===== *)
theory Sessions
  imports Login_Props
begin

text \<open>
  The machine of settings, accounts, logins and requests, and what holds in every state it reaches.
\<close>

section \<open>The machine\<close>

text \<open>A step is an operation or a handler with any arguments.  A handler that writes through the pointer of its request runs after the
  middleware that found the user; its step asks that the row can be read.\<close>

inductive server_step :: "server \<Rightarrow> server \<Rightarrow> bool" where
  save_all: "server_step s (snd (SaveSettingItems env items s))"
| save_one: "server_step s (snd (SaveSettingItem env x s))"
| delete_setting: "server_step s (snd (DeleteSettingItemByKey env key s))"
| read_setting: "server_step s (snd (GetSettingItemByKey env key s))"
| create_user: "server_step s (snd (handle_CreateUser aenv body s))"
| update_user: "server_step s (snd (handle_UpdateUser aenv body s))"
| delete_user: "server_step s (snd (handle_DeleteUser aenv idStr s))"
| cancel_2fa: "server_step s (snd (handle_Cancel2FAById aenv idStr s))"
| drop_cached: "server_step s (snd (handle_DelUserCache aenv username s))"
| request: "server_step s (snd (Auth aenv allow tok s))"
| log_out: "server_step s (snd (LogOut tok s))"
| log_in: "server_step s (snd (serve_login e q s))"
| sftp_guest: "server_step s (snd (NoClientAuth aenv username s))"
| sftp_open: "server_step s (snd (GetFileSystem aenv username s))"
| update_current: "Auth aenv allow tok s = (Next slot u, s1) \<Longrightarrow> svFail (aBase aenv) ''user by id'' = None \<Longrightarrow>
    server_step s (snd (UpdateCurrent aenv sso slot u body s1))"
| verify_2fa: "Auth aenv allow tok s = (Next slot u, s1) \<Longrightarrow> svFail (aBase aenv) ''user by id'' = None \<Longrightarrow>
    server_step s (snd (Verify2FA aenv slot u code secret s1))"

text \<open>A server starts with empty caches over any tables in which identifiers and names are unique.\<close>

definition server_start :: "server \<Rightarrow> bool" where
  "server_start s \<longleftrightarrow>
     distinct (map ID (svUsers s)) \<and> distinct (map Username (svUsers s)) \<and> svCaches s = NewCacheManager \<and>
     adminUser s = None \<and> guestUser s = None \<and> validTokenCache s = {} \<and> LoginCache s = (\<lambda>_. None)"

lemma settings_server_ok: "settings_ok s' \<Longrightarrow> same_users s s' \<Longrightarrow> server_ok s \<Longrightarrow> server_ok s'"
  using same_users_ok by (auto simp: server_ok_def)

lemma users_server_ok: "users_ok s' \<Longrightarrow> same_settings s s' \<Longrightarrow> server_ok s \<Longrightarrow> server_ok s'"
  using same_settings_ok by (auto simp: server_ok_def)

text \<open>The counters and the tokens are not part of the invariant.\<close>

lemma server_ok_simps [simp]:
  "server_ok (login_Set ip n s) = server_ok s" "server_ok (login_Del ip s) = server_ok s" "server_ok (login_Expire now ip s) = server_ok s"
  "server_ok (InvalidateToken tok s) = server_ok s"
  by (simp_all add: login_Set_def login_Del_def login_Expire_def InvalidateToken_def server_ok_def settings_ok_def users_ok_def split: option.split)

lemma GetGuest_server_ok: "server_ok s \<Longrightarrow> GetGuest env s = (r, s') \<Longrightarrow> server_ok s'"
  using GetGuest_ok [of s env r s'] GetGuest_same [of env s r s'] users_server_ok by (auto simp: server_ok_def)

lemma GetAdmin_server_ok: "server_ok s \<Longrightarrow> GetAdmin env s = (r, s') \<Longrightarrow> server_ok s'"
  using GetAdmin_ok [of s env r s'] GetAdmin_same [of env s r s'] users_server_ok by (auto simp: server_ok_def)

lemma GetUserByName_server_ok: "server_ok s \<Longrightarrow> GetUserByName env n s = (r, s') \<Longrightarrow> server_ok s'"
  using GetUserByName_ok [of s env n r s'] GetUserByName_same [of env n s r s'] users_server_ok by (auto simp: server_ok_def)

lemma loginHash_server_ok: "server_ok s \<Longrightarrow> server_ok (snd (loginHash env ip req s))"
proof -
  assume ok: "server_ok s"
  obtain f s1 where g: "GetUserByName (aBase env) (lrUsername req) s = (f, s1)" by fastforce
  have ok1: "server_ok s1" by (rule GetUserByName_server_ok [OF ok g])
  show ?thesis
  proof (cases f)
    case (Inr u)
    obtain t s2 where tk: "GenerateToken env u s1 = (t, s2)" by fastforce
    from GenerateToken_keeps [OF tk] ok ok1 Inr g tk show ?thesis by (cases t) (auto simp: loginHash_def Let_def)
  qed (use ok ok1 g in \<open>auto simp: loginHash_def Let_def\<close>)
qed

lemma AuthUser_server_ok: "server_ok s \<Longrightarrow> server_ok (snd (AuthUser env ld ip u p s))"
proof -
  assume ok: "server_ok s"
  let ?anon = "u = ''anonymous'' \<or> u = ''guest''"
  obtain r s1 where c: "(if ?anon then (case GetGuest (aBase env) s of (Inl e, s1) \<Rightarrow> (None, s1) | (Inr u, s1) \<Rightarrow> (Some u, s1))
     else check_user env ld CanFTPAccess u p s) = (r, s1)" by fastforce
  then have "server_ok s1"
    using ok by (auto dest: check_user_ok GetGuest_server_ok split: if_splits prod.splits sum.splits)
  with ok c show ?thesis by (cases r) (auto simp: AuthUser_def Let_def)
qed

lemma PasswordAuth_server_ok: "server_ok s \<Longrightarrow> server_ok (snd (PasswordAuth env ld ip u p s))"
proof -
  assume ok: "server_ok s"
  obtain r s1 where c: "check_user env ld CanFTPAccess u p s = (r, s1)" by fastforce
  from check_user_ok [OF c] ok c show ?thesis by (cases r) (auto simp: PasswordAuth_def Let_def)
qed

lemma WebDAVAuth_server_ok: "server_ok s0 \<Longrightarrow> server_ok (snd (WebDAVAuth env ld px ip r s0))"
proof -
  assume ok: "server_ok s0"
  obtain g s where gg: "GetGuest (aBase env) s0 = (g, s)" by fastforce
  obtain t s1 where t: "GetStr (aBase env) ''token'' [] s = (t, s1)" by fastforce
  obtain a s2 where a: "GetAdmin (aBase env) s1 = (a, s2)" by fastforce
  obtain v s3 where i: "index115WebDAVAuthForServe env r s0 = (v, s3)" by fastforce
  have oks: "server_ok s" "server_ok s1" "server_ok s2"
    using GetGuest_server_ok [OF ok gg] GetStr_server_ok [OF _ t] GetAdmin_server_ok [OF _ a] by auto
  have ok3: "server_ok s3" using i ok by (auto simp: index115WebDAVAuthForServe_def split: if_splits prod.splits dest: GetStr_server_ok)
  show ?thesis
  proof (cases "davBasic r")
    case None
    with oks ok3 show ?thesis by (cases a) (auto simp: WebDAVAuth_def gg t a i Let_def)
  next
    case (Some up)
    obtain n p where up: "up = (n, p)" by fastforce
    obtain f s4 where c: "check_user env ld CanWebdavRead n p s = (f, s4)" by fastforce
    have "server_ok s4" using check_user_ok [OF c] oks by simp
    with oks ok3 Some up show ?thesis by (cases f) (auto simp: WebDAVAuth_def gg i c Let_def)
  qed
qed

lemma LoginLdap_server_ok: "server_ok s0 \<Longrightarrow> server_ok (snd (LoginLdap env ld ip req s0))"
proof -
  assume ok: "server_ok s0"
  obtain en s where b: "GetBool (aBase env) ''ldap_login_enabled'' s0 = (en, s)" by fastforce
  obtain f s1 where g: "GetUserByName (aBase env) (lrUsername req) s = (f, s1)" by fastforce
  obtain e s2 where h: "HandleLdapLogin env ld (lrUsername req) (lrPassword req) s1 = (e, s2)" by fastforce
  define user where "user = (case f of Inl e \<Rightarrow> None | Inr u \<Rightarrow> Some u)"
  obtain u3 s3 where r: "(case user of Some u \<Rightarrow> (Some u, s2) | None \<Rightarrow> LdapRegister env (lrUsername req) s2) = (u3, s3)" by fastforce
  have oks: "server_ok s" "server_ok s1" "server_ok s2"
    using GetBool_server_ok [OF ok b] GetUserByName_server_ok [OF _ g] HandleLdapLogin_ok [OF h] by auto
  then have ok3: "server_ok s3" using r by (auto split: option.splits dest: LdapRegister_ok)
  note defs = LoginLdap_def b g h user_def [symmetric] r Let_def
  show ?thesis
  proof (cases "e = None \<and> u3 \<noteq> None")
    case True
    then obtain u where u: "u3 = Some u" by auto
    obtain t s4 where tk: "GenerateToken env u s3 = (t, s4)" by fastforce
    from GenerateToken_keeps [OF tk] True u tk ok oks ok3 show ?thesis
      by (cases en; cases t) (auto simp: defs)
  next
    case False
    then consider "e = None" "u3 = None" | err where "e = Some err" by (cases e) auto
    then show ?thesis
    proof cases
      case 1
      with ok oks ok3 show ?thesis by (cases en) (auto simp: defs)
    next
      case 2
      with ok oks ok3 show ?thesis by (cases en; cases err) (auto simp: defs)
    qed
  qed
qed

lemma serve_login_server_ok: "server_ok s \<Longrightarrow> server_ok (snd (serve_login e q s))"
proof -
  assume ok: "server_ok s"
  obtain env ld px where e: "e = (env, ld, px)" by (metis prod_cases3)
  obtain ip ent where q: "q = (ip, ent)" by fastforce
  show ?thesis
    unfolding e q serve_login_def using ok
    by (cases ent) (auto simp: Login_raw_def LoginHash_def
      intro: loginHash_server_ok LoginLdap_server_ok WebDAVAuth_server_ok AuthUser_server_ok PasswordAuth_server_ok)
qed

lemma Auth_server_ok: "server_ok s \<Longrightarrow> server_ok (snd (Auth env b tok s))"
  using Auth_ok [of s env b tok "fst (Auth env b tok s)" "snd (Auth env b tok s)"] by simp

lemma handlers_server_ok:
  assumes "server_ok s"
  shows "server_ok (snd (handle_CreateUser env body s))" "server_ok (snd (handle_DeleteUser env idStr s))"
    "server_ok (snd (handle_Cancel2FAById env idStr s))" "server_ok (snd (handle_DelUserCache env n s))"
    "server_ok (snd (NoClientAuth env n s))" "server_ok (snd (GetFileSystem env n s))"
proof -
  have u: "users_ok s" using assms by (simp add: server_ok_def)
  show "server_ok (snd (handle_CreateUser env body s))"
    using assms CreateUser_server_ok [OF assms] by (simp add: handle_CreateUser_def split: option.split)
  show "server_ok (snd (handle_DeleteUser env idStr s))"
    using assms users_server_ok [OF DeleteUserById_ok [OF u] DeleteUserById_same assms] by (simp add: handle_DeleteUser_def split: option.split)
  show "server_ok (snd (handle_Cancel2FAById env idStr s))"
    using assms users_server_ok [OF Cancel2FAById_ok [OF u] Cancel2FAById_same assms] by (simp add: handle_Cancel2FAById_def split: option.split)
  show "server_ok (snd (handle_DelUserCache env n s))"
    using users_server_ok [OF DelUserCache_ok [OF u] DelUserCache_same assms] by (simp add: handle_DelUserCache_def)
  show "server_ok (snd (NoClientAuth env n s))"
    using assms by (auto simp: NoClientAuth_def split: prod.split sum.split dest: GetGuest_server_ok)
  show "server_ok (snd (GetFileSystem env n s))"
    using assms by (auto simp: GetFileSystem_def split: prod.split sum.split dest: GetUserByName_server_ok)
qed

lemma settings_steps_ok:
  assumes "server_ok s"
  shows "server_ok (snd (SaveSettingItems env items s))" "server_ok (snd (SaveSettingItem env x s))"
    "server_ok (snd (DeleteSettingItemByKey env key s))" "server_ok (snd (GetSettingItemByKey env key s))"
proof -
  have ok: "settings_ok s" using assms by (simp add: server_ok_def)
  show "server_ok (snd (SaveSettingItems env items s))" by (rule settings_server_ok [OF SaveSettingItems_ok [OF ok] SaveSettingItems_same assms])
  show "server_ok (snd (SaveSettingItem env x s))" by (rule settings_server_ok [OF SaveSettingItem_ok [OF ok] SaveSettingItem_same assms])
  show "server_ok (snd (DeleteSettingItemByKey env key s))"
    by (rule settings_server_ok [OF DeleteSettingItemByKey_ok [OF ok] DeleteSettingItemByKey_same assms])
  show "server_ok (snd (GetSettingItemByKey env key s))"
    by (rule settings_server_ok [OF _ _ assms])
      (use GetSettingItemByKey_ok [OF ok, of env key] GetSettingItemByKey_same [of env key s] in \<open>cases "GetSettingItemByKey env key s"; simp\<close>)+
qed

interpretation server_machine: invariant_machine server_start server_step server_ok
proof
  show "server_ok s" if "server_start s" for s
    using that by (simp add: server_start_def server_ok_def settings_ok_def users_ok_def NewCacheManager_def)
  show "server_ok t" if "server_ok s" "server_step s t" for s t
    using that(2,1)
  proof cases
    case (update_current aenv allow tok slot u s1 sso body)
    with Auth_ok [OF that(1) update_current(2)] UpdateCurrent_ok [of s1 u slot aenv sso body] show ?thesis by (auto dest: let_through_holds)
  next
    case (verify_2fa aenv allow tok slot u s1 code secret)
    with Auth_ok [OF that(1) verify_2fa(2)] Verify2FA_ok [of s1 u slot aenv code secret] show ?thesis by (auto dest: let_through_holds)
  qed (use settings_steps_ok handlers_server_ok handle_UpdateUser_ok Auth_server_ok serve_login_server_ok in \<open>auto simp: LogOut_def\<close>)
qed

end
