(* ===== verification/Session_Props.thy ===== *)
theory Session_Props
  imports Sessions
begin

text \<open>
  The properties of logins and requests: who a request is made for, how long a token lasts, how guessing is limited, and where the code
  falls short of that.
\<close>

section \<open>Facts about accounts\<close>

text \<open>A lookup of a name that the table has succeeds when the database answers.\<close>

lemma GetUserByName_found:
  assumes ok: "users_ok s" and u: "u \<in> set (svUsers s)" "Username u = n" "n \<noteq> []" and reads: "svFail env ''user by name'' = None"
  shows "fst (GetUserByName env n s) = Inr u"
proof -
  obtain r s' where g: "GetUserByName env n s = (r, s')" by fastforce
  have uniq: "v = u" if "named (svUsers s) n v" for v
    using ok u that by (auto simp: users_ok_def named_def distinct_map dest: inj_onD)
  have "r \<noteq> Inl e" for e
  proof
    assume "r = Inl e"
    with g u(3) have "db_GetUserByName env n (s\<lparr>svCaches := snd (GetUser (svNow env) n (svCaches s))\<rparr>) = Inl e"
      by (auto simp: GetUserByName_def Let_def split: option.splits prod.splits sum.splits)
    with u reads show False by (auto simp: db_GetUserByName_def user_call_def first_row_def find_None_iff split: option.splits)
  qed
  then obtain v where "r = Inr v" by (cases r) auto
  with GetUserByName_ok [OF ok g] uniq g show ?thesis by simp
qed

lemma UpdateUser_rows:
  assumes ok: "users_ok s" and up: "UpdateUser env u s = (None, s')"
  shows "\<exists>old \<in> set (svUsers s). ID old = ID u \<and>
    svUsers s' = map (\<lambda>r. if r = old then u\<lparr>BasePath := FixAndCleanPath (BasePath u)\<rparr> else r) (svUsers s) \<and> validTokenCache s' = validTokenCache s"
proof -
  from up obtain s1 where b: "UpdateUser_begin env u s = (None, s1)" and c: "UpdateUser_commit env u s1 = (None, s')"
    by (auto simp: UpdateUser_def split: prod.splits option.splits)
  then obtain old where old: "db_GetUserById env (ID u) s = Inr old" by (auto simp: UpdateUser_begin_def split: sum.splits)
  from db_GetUserByIdD [OF old] have o: "old \<in> set (svUsers s)" "ID old = ID u" by auto
  have s1: "svUsers s1 = svUsers s" "validTokenCache s1 = validTokenCache s"
    using b old by (auto simp: UpdateUser_begin_def on_svCaches_def Let_def split: if_splits)
  have "list_ex (\<lambda>r. ID r = ID u) (svUsers s)" using o by (auto simp: list_ex_iff)
  with c s1(1) have s': "s1\<lparr>svUsers := map (\<lambda>r. if ID r = ID u then u\<lparr>BasePath := FixAndCleanPath (BasePath u)\<rparr> else r) (svUsers s)\<rparr> = s'"
    by (simp add: UpdateUser_commit_def db_UpdateUser_def split: option.splits if_split_asm)
  then have "svUsers s' = map (\<lambda>r. if ID r = ID u then u\<lparr>BasePath := FixAndCleanPath (BasePath u)\<rparr> else r) (svUsers s)"
      "validTokenCache s' = validTokenCache s"
    using s1(2) by (simp_all add: s' [symmetric])
  moreover have "ID r = ID u \<longleftrightarrow> r = old" if "r \<in> set (svUsers s)" for r
    using users_id [OF ok that o(1)] o(2) by auto
  ultimately show ?thesis using o by (intro bexI [of _ old]) auto
qed

text \<open>What the handler writes.\<close>

definition edited :: "auth_env \<Rightarrow> User \<Rightarrow> User \<Rightarrow> User" where
  "edited env body old =
     (let req = body\<lparr>PwdHash := [], PwdTS := 0, Salt := [], OtpSecret := [], Authn := []\<rparr>;
          req1 = (if Password body = [] then req\<lparr>PwdHash := PwdHash old, Salt := Salt old\<rparr> else (set_password env req (Password body))\<lparr>Password := []\<rparr>)
      in req1\<lparr>OtpSecret := OtpSecret old, BasePath := FixAndCleanPath (BasePath body)\<rparr>)"

lemma set_password_fields [simp]:
  "OtpSecret (set_password env u p) = OtpSecret u" "BasePath (set_password env u p) = BasePath u" "PwdTS (set_password env u p) = aUnix env"
  "Disabled (set_password env u p) = Disabled u" "Authn (set_password env u p) = Authn u"
  by (simp_all add: set_password_def SetPassword_def Let_def)

lemma edited_fields:
  "Username (edited env body old) = Username body" "Disabled (edited env body old) = Disabled body"
  "PwdTS (edited env body old) = (if Password body = [] then 0 else aUnix env)" "Authn (edited env body old) = []"
  by (simp_all add: edited_def Let_def)

lemma handle_UpdateUser_rows:
  assumes ok: "server_ok s" and h: "handle_UpdateUser env body s = (200, s')"
  shows "\<exists>old \<in> set (svUsers s). ID old = ID body \<and> Username body \<noteq> [] \<and>
    svUsers s' = map (\<lambda>r. if r = old then edited env body old else r) (svUsers s) \<and> validTokenCache s' = validTokenCache s"
proof -
  define req where "req = body\<lparr>PwdHash := [], PwdTS := 0, Salt := [], OtpSecret := [], Authn := []\<rparr>"
  have n: "Username body \<noteq> []" using h by (auto simp: handle_UpdateUser_def bind_User_def split: if_splits)
  then have bd: "bind_User body = Some req" by (simp add: bind_User_def req_def)
  obtain user where user: "db_GetUserById (aBase env) (ID body) s = Inr user"
    using h bd by (cases "db_GetUserById (aBase env) (ID body) s") (auto simp: handle_UpdateUser_def req_def)
  define req1 where "req1 = (if Password req = [] then req\<lparr>PwdHash := PwdHash user, Salt := Salt user\<rparr>
    else (set_password env req (Password req))\<lparr>Password := []\<rparr>)"
  have otp: "OtpSecret req1 = []" by (simp add: req1_def req_def)
  have "code_of (UpdateUser (aBase env) (req1\<lparr>OtpSecret := OtpSecret user\<rparr>) s) = (200, s')"
    using h bd user otp unfolding handle_UpdateUser_def req1_def by (auto simp: Let_def req_def split: if_splits)
  then have "UpdateUser (aBase env) (req1\<lparr>OtpSecret := OtpSecret user\<rparr>) s = (None, s')"
    by (auto simp: code_of_def split: prod.splits option.splits)
  from UpdateUser_rows [OF _ this] ok obtain old where old: "old \<in> set (svUsers s)" "ID old = ID (req1\<lparr>OtpSecret := OtpSecret user\<rparr>)"
    and rows: "svUsers s' = map (\<lambda>r. if r = old then req1\<lparr>OtpSecret := OtpSecret user, BasePath := FixAndCleanPath (BasePath req1)\<rparr> else r) (svUsers s)"
      "validTokenCache s' = validTokenCache s"
    by (auto simp: server_ok_def)
  have id1: "ID req1 = ID body" by (simp add: req1_def req_def)
  have "old = user" using users_id [of s old user] ok old(1,2) db_GetUserByIdD [OF user] id1 by (auto simp: server_ok_def)
  moreover have "req1\<lparr>OtpSecret := OtpSecret user, BasePath := FixAndCleanPath (BasePath req1)\<rparr> = edited env body user"
    by (simp add: edited_def req1_def req_def Let_def)
  ultimately show ?thesis using old rows id1 n by (intro bexI [of _ old]) auto
qed

section \<open>Logging in and making requests\<close>

lemma setting_str_cong: "svSettings s' = svSettings s \<Longrightarrow> setting_str s' key = setting_str s key"
  by (simp add: setting_str_def)

text \<open>The middleware on a token of a login.\<close>

lemma Auth_login_token:
  assumes ok: "server_ok s" and u: "u \<in> set (svUsers s)" "Username u = n" "n \<noteq> []"
    and tok: "tok \<in> validTokenCache s" "tok \<noteq> []" "tok \<noteq> setting_str s ''token''"
    and claims: "aParse env tok = JwtOk c" "clUsername c = n" "clPwdTS c = PwdTS u" and reads: "svFail (aBase env) ''user by name'' = None"
  shows "fst (Auth env b tok s) = (if Disabled u then Abort 401 else Next (NameSlot n) u)"
proof -
  obtain t s1 where t: "GetStr (aBase env) ''token'' [] s = (t, s1)" by fastforce
  have "tok \<noteq> t" using GetStr_value [OF _ t] ok tok by (auto simp: server_ok_def)
  then have a: "Auth env b tok s = token_user env tok s1" using t tok(2) by (simp add: Auth_def)
  have ok1: "server_ok s1" "svUsers s1 = svUsers s" "validTokenCache s1 = validTokenCache s"
    using GetStr_server_ok [OF ok t] by (auto simp: same_users_def)
  then have "ParseToken env tok s1 = Inr c" using tok claims by (simp add: ParseToken_def IsTokenInvalidated_def)
  moreover have "fst (GetUserByName (aBase env) n s1) = Inr u"
    by (rule GetUserByName_found) (use ok1 u reads in \<open>auto simp: server_ok_def\<close>)
  ultimately show ?thesis using a claims by (cases "GetUserByName (aBase env) n s1") (simp add: token_user_def)
qed

lemma loginHash_token:
  assumes ok: "server_ok s" and l: "loginHash env ip req s = (LoginToken tok, s')"
  shows "\<exists>u \<in> set (svUsers s). Username u = lrUsername req \<and> lrUsername req \<noteq> [] \<and>
     ValidatePwdStaticHash (aSha256 env) u (lrPassword req) = None \<and> (OtpSecret u = [] \<or> aTotp env (lrOtpCode req) (OtpSecret u)) \<and>
     svUsers s' = svUsers s \<and> svSettings s' = svSettings s \<and> tok \<in> validTokenCache s' \<and>
     (\<exists>c. aSign env c = Inr tok \<and> clUsername c = lrUsername req \<and> clPwdTS c = PwdTS u)"
proof -
  obtain f s1 where g: "GetUserByName (aBase env) (lrUsername req) s = (f, s1)" by fastforce
  obtain u where f: "f = Inr u" using l g by (cases f) (auto simp: loginHash_def Let_def split: if_splits)
  have u: "named (svUsers s) (lrUsername req) u" "svUsers s1 = svUsers s" "svSettings s1 = svSettings s"
    using GetUserByName_ok [OF _ g] ok f GetUserByName_same [OF g] by (auto simp: server_ok_def same_settings_def)
  have "lrUsername req \<noteq> []" using g f by (auto simp: GetUserByName_def)
  obtain t s2 where tk: "GenerateToken env u s1 = (t, s2)" by fastforce
  with l g f have lg: "t = Inr tok" "s' = login_Del ip s2" "ValidatePwdStaticHash (aSha256 env) u (lrPassword req) = None"
    "OtpSecret u = [] \<or> aTotp env (lrOtpCode req) (OtpSecret u)"
    by (auto simp: loginHash_def Let_def split: if_splits sum.splits)
  from tk lg(1) have "\<exists>c. aSign env c = Inr tok \<and> clUsername c = Username u \<and> clPwdTS c = PwdTS u" "tok \<in> validTokenCache s2"
      "svUsers s2 = svUsers s1" "svSettings s2 = svSettings s1"
    by (auto simp: GenerateToken_def Let_def split: sum.splits intro!: exI)
  with lg u \<open>lrUsername req \<noteq> []\<close> show ?thesis by (intro bexI [of _ u]) (auto simp: named_def login_Del_def)
qed

lemma login_Auth:
  assumes r: "reachable server_start server_step s" and l: "loginHash env ip req s = (LoginToken tok, s')"
    and jwt: "\<And>c. aSign env c = Inr tok \<Longrightarrow> aParse env2 tok = JwtOk c"
    and tok: "tok \<noteq> []" "tok \<noteq> setting_str s ''token''" and reads: "svFail (aBase env2) ''user by name'' = None"
  shows "\<exists>u \<in> set (svUsers s). Username u = lrUsername req \<and> ValidatePwdStaticHash (aSha256 env) u (lrPassword req) = None \<and>
     (OtpSecret u = [] \<or> aTotp env (lrOtpCode req) (OtpSecret u)) \<and>
     fst (Auth env2 b tok s') = (if Disabled u then Abort 401 else Next (NameSlot (lrUsername req)) u)"
proof -
  have ok: "server_ok s" by (rule server_machine.reachable_inv [OF r])
  from loginHash_token [OF ok l] obtain u c where u: "u \<in> set (svUsers s)" "Username u = lrUsername req" "lrUsername req \<noteq> []"
    "ValidatePwdStaticHash (aSha256 env) u (lrPassword req) = None" "OtpSecret u = [] \<or> aTotp env (lrOtpCode req) (OtpSecret u)"
    and s': "svUsers s' = svUsers s" "svSettings s' = svSettings s" "tok \<in> validTokenCache s'"
    and c: "aSign env c = Inr tok" "clUsername c = lrUsername req" "clPwdTS c = PwdTS u" by blast
  have "server_ok s'" using loginHash_server_ok [OF ok, of env ip req] l by simp
  from Auth_login_token [OF this _ u(2,3) s'(3) tok(1) _ jwt [OF c(1)] c(2,3) reads] u s' tok setting_str_cong [OF s'(2)]
  show ?thesis by (intro bexI [of _ u]) auto
qed

lemma reachable_later: "reachable start step s \<Longrightarrow> step\<^sup>*\<^sup>* s t \<Longrightarrow> reachable start step t"
  unfolding reachable_def by (meson rtranclp_trans)

text \<open>An edit of an account takes effect on the tokens of the account until the rows under the name in the token change again.\<close>

lemma edit_revokes:
  assumes r: "reachable server_start server_step s" and h: "handle_UpdateUser env body s = (200, s')"
    and later: "server_step\<^sup>*\<^sup>* s' t" "\<forall>u \<in> set (svUsers t). Username u = clUsername c \<longrightarrow> u \<in> set (svUsers s')"
    and tok: "tok \<noteq> []" "aParse env2 tok = JwtOk c" and old: "old \<in> set (svUsers s)" "ID old = ID body" "clUsername c = Username old"
    and change: "Disabled body \<or> Password body \<noteq> [] \<and> clPwdTS c \<noteq> aUnix env" and a: "Auth env2 b tok t = (Next slot u, s'')"
  shows "slot = AdminSlot \<and> tok = setting_str t ''token''"
proof -
  have ok: "server_ok s" by (rule server_machine.reachable_inv [OF r])
  have "server_step s s'" using server_step.update_user [of s env body] h by simp
  then have "reachable server_start server_step t" by (intro reachable_later [OF reachable_step [OF r] later(1)])
  then have ok': "server_ok t" by (rule server_machine.reachable_inv)
  from handle_UpdateUser_rows [OF ok h] obtain row where row: "row \<in> set (svUsers s)" "ID row = ID body"
    "svUsers s' = map (\<lambda>r. if r = row then edited env body row else r) (svUsers s)" by blast
  have "row = old" using users_id [OF _ row(1) old(1)] row(2) old(2) ok by (simp add: server_ok_def)
  with row(3) have rows: "svUsers s' = map (\<lambda>r. if r = old then edited env body old else r) (svUsers s)" by simp
  from Auth_ok [OF ok' a] have u: "u \<in> set (svUsers t)" "let_through env2 b tok t slot u" by auto
  show ?thesis
  proof (cases slot)
    case (NameSlot n)
    with u tok old have u': "Username u = Username old" "\<not> Disabled u" "clPwdTS c = PwdTS u" by (auto simp: let_through_def)
    with u(1) later(2) old(3) have "u \<in> set (svUsers s')" by simp
    with rows consider "u = edited env body old" | "u \<in> set (svUsers s)" "u \<noteq> old" by auto
    then have False
    proof cases
      case 1
      with u' change show False by (auto simp: edited_fields split: if_splits)
    next
      case 2
      with u'(1) old(1) ok show False by (auto simp: server_ok_def users_ok_def distinct_map dest: inj_onD)
    qed
    then show ?thesis ..
  qed (use u tok in \<open>auto simp: let_through_def\<close>)
qed

text \<open>An edit without a password sets the time stamp of the password to zero.\<close>

lemma edit_revives:
  assumes r: "reachable server_start server_step s" and h: "handle_UpdateUser env body s = (200, s')"
    and body: "Password body = []" "\<not> Disabled body"
    and tok: "tok \<in> validTokenCache s" "tok \<noteq> []" "tok \<noteq> setting_str s' ''token''"
    and claims: "aParse env2 tok = JwtOk c" "clUsername c = Username body" "clPwdTS c = 0" and reads: "svFail (aBase env2) ''user by name'' = None"
  shows "\<exists>u. fst (Auth env2 b tok s') = Next (NameSlot (Username body)) u \<and> PwdTS u = 0 \<and> Authn u = []"
proof -
  have ok: "server_ok s" by (rule server_machine.reachable_inv [OF r])
  have ok': "server_ok s'" using handle_UpdateUser_ok [OF ok, of env body] h by simp
  from handle_UpdateUser_rows [OF ok h] obtain old where old: "old \<in> set (svUsers s)" "Username body \<noteq> []"
    "svUsers s' = map (\<lambda>r. if r = old then edited env body old else r) (svUsers s)" "validTokenCache s' = validTokenCache s" by blast
  then have "edited env body old \<in> set (svUsers s')" by auto
  from Auth_login_token [OF ok' this _ old(2) _ tok(2,3) claims(1,2) _ reads] show ?thesis
    using tok(1) old(4) claims(3) body by (auto simp: edited_fields)
qed

section \<open>The properties\<close>

definition sample_row :: "nat \<Rightarrow> string \<Rightarrow> int \<Rightarrow> User" where
  "sample_row i n role = \<lparr>ID = i, Username = n, PwdHash = ''pw-'', PwdTS = 0, Salt = [], Password = [], BasePath = ''/'', Role = role, Disabled = False,
     Permission = 0, OtpSecret = [], SsoID = [], Authn = [], AllowLdap = True\<rparr>"

definition sample_token_item :: SettingItem where
  "sample_token_item = \<lparr>setKey = ''token'', setValue = ''T'', setMigrationValue = [], setHelp = [], setType = [], setOptions = [], setGroup = 0, setFlag = 1, setIndex = 0\<rparr>"

definition sample_server :: server where
  "sample_server = \<lparr>svCaches = NewCacheManager, svConf = \<lparr>SlicesMap = (\<lambda>_. None), FilenameCharMap = (\<lambda>_. None), PrivacyReg = []\<rparr>,
     svSettings = [sample_token_item], svUsers = [sample_row 1 ''admin'' 2, sample_row 2 ''guest'' 1, sample_row 3 ''u'' 0], svSharings = [],
     adminUser = None, guestUser = None, sharingCache = (\<lambda>_. None), validTokenCache = {}, LoginCache = (\<lambda>_. None), AccessCache = (\<lambda>_. None), callbackRuns = 0\<rparr>"

definition sample_claims :: UserClaims where
  "sample_claims = \<lparr>clUsername = ''u'', clPwdTS = 0, clExpiresAt = 0, clIssuedAt = 0, clNotBefore = 0\<rparr>"

definition sample_auth :: auth_env where
  "sample_auth = \<lparr>aBase = \<lparr>svNow = 0, svFail = (\<lambda>_. None), svNewID = 9, svCompile = (\<lambda>_. None), svJsonMap = (\<lambda>_. Inr []), Migration = (\<lambda>_. None), svCallbacks = 0, svRegistered = (\<lambda>_. None)\<rparr>,
     aSha256 = (\<lambda>x. x), aSalt = [], aPassword = [], aUnix = 7, aSign = (\<lambda>c. if c = sample_claims then Inr ''jwt'' else Inl []),
     aParse = (\<lambda>t. if t = ''jwt'' then JwtOk sample_claims else JwtError True False False), aTotp = (\<lambda>_ _. False), TokenExpiresIn = 0\<rparr>"

definition sample_ldap :: ldap_env where
  "sample_ldap = \<lparr>ldDial = (\<lambda>_ _ _. False), ldBind = (\<lambda>_ _. False), ldSearch = (\<lambda>_ _. None), ldFilter = (\<lambda>_ n. n)\<rparr>"

lemma sample_start: "server_start sample_server"
  by (simp add: server_start_def sample_server_def sample_row_def)

lemma sample_server_reachable: "reachable server_start server_step sample_server"
  by (rule reachable_start, rule sample_start)



text \<open>C11: Take attempts to log in that are counted under one key: over REST, LDAP and WebDAV the client's address, over FTP and SFTP the
  address and port of the connection.  WebDAV requests for options, without a name and password or for the index are none, and no attempt is
  answered with an error that is not counted, such as a bad request or a failure of database or directory.  If the key has no failures
  and the first five attempts fail, every further attempt is refused, right password or not, as long as attempts do not pause for five minutes.\<close>

theorem guessing_locks_out:
  assumes "\<forall>(e, q) \<in> set eqs. subject_to_limit e q \<and> login_key q = key" "no_pause (map (login_clock \<circ> fst) eqs)"
    "\<forall>a \<in> set (attempts serve_login eqs s). answer_kind a \<noteq> Uncounted"
    "take 5 (map answer_kind (attempts serve_login eqs s)) = replicate 5 Failed" "LoginCache s key = None"
  shows "\<forall>k \<in> set (drop 5 (map answer_kind (attempts serve_login eqs s))). k = Locked"
  using assms by (rule logins.five_failures_lock)

definition sample_client :: "int \<Rightarrow> login_client" where
  "sample_client port = \<lparr>clientIP = ''a'', peerIP = ''1.2.3.4'', peerPort = port\<rparr>"

definition sample_guesses :: "((auth_env \<times> ldap_env \<times> string) \<times> login_client \<times> login_entry) list" where
  "sample_guesses = replicate 5 ((sample_auth, sample_ldap, ''/i''), sample_client 1, ByHash \<lparr>lrUsername = ''u'', lrPassword = ''no'', lrOtpCode = []\<rparr>) @
     [((sample_auth, sample_ldap, ''/i''), sample_client 2, ByHash \<lparr>lrUsername = ''u'', lrPassword = ''pw'', lrOtpCode = []\<rparr>)]"

lemma sample_guesses_kinds: "map answer_kind (attempts serve_login sample_guesses sample_server) = replicate 5 Failed @ [Locked]"
  by code_simp

theorem guessing_locks_out_witness:
  "length sample_guesses = 6 \<and> last (map answer_kind (attempts serve_login sample_guesses sample_server)) = Locked"
proof -
  have "\<forall>(e, q) \<in> set sample_guesses. subject_to_limit e q \<and> login_key q = ''a''"
    by (simp add: sample_guesses_def subject_to_limit_def login_key_def sample_client_def)
  moreover have "no_pause (map (login_clock \<circ> fst) sample_guesses)"
    by (simp add: sample_guesses_def numeral_eq_Suc DefaultLockDuration_def Minute_def)
  moreover have "\<forall>a \<in> set (attempts serve_login sample_guesses sample_server). answer_kind a \<noteq> Uncounted"
  proof -
    have "Uncounted \<notin> set (map answer_kind (attempts serve_login sample_guesses sample_server))" by (simp add: sample_guesses_kinds)
    then show ?thesis by (metis imageI list.set_map)
  qed
  moreover have "LoginCache sample_server ''a'' = None" by (simp add: sample_server_def)
  ultimately have "\<forall>k \<in> set (drop 5 (map answer_kind (attempts serve_login sample_guesses sample_server))). k = Locked"
    by (intro guessing_locks_out) (simp_all add: sample_guesses_kinds)
  moreover have "last (map answer_kind (attempts serve_login sample_guesses sample_server)) \<in> set (drop 5 (map answer_kind (attempts serve_login sample_guesses sample_server)))"
    by (simp add: sample_guesses_kinds)
  ultimately show ?thesis by (simp add: sample_guesses_def)
qed


definition sample_login :: LoginReq where
  "sample_login = \<lparr>lrUsername = ''u'', lrPassword = ''pw'', lrOtpCode = []\<rparr>"


text \<open>The state after that login.\<close>

definition sample_session_state :: server where
  "sample_session_state = snd (serve_login (sample_auth, sample_ldap, ''/i'') (sample_client 1, ByHash sample_login) sample_server)"

lemma sample_session_reachable: "reachable server_start server_step sample_session_state"
  unfolding sample_session_state_def by (rule reachable_step [OF sample_server_reachable log_in])



text \<open>C37: An edit of an account without a new password sets the time stamp of the password to zero and drops the registered keys, so a token
  issued while the time stamp was zero is accepted again, even if the password was changed in between.\<close>

theorem edit_revives_token:
  assumes "reachable server_start server_step s" "handle_UpdateUser env body s = (200, s')" "Password body = []" "\<not> Disabled body"
    "tok \<in> validTokenCache s" "tok \<noteq> []" "tok \<noteq> setting_str s' ''token''"
    "aParse env2 tok = JwtOk c" "clUsername c = Username body" "clPwdTS c = 0" "svFail (aBase env2) ''user by name'' = None"
  shows "\<exists>u. fst (Auth env2 b tok s') = Next (NameSlot (Username body)) u \<and> PwdTS u = 0 \<and> Authn u = []"
  using assms by (rule edit_revives)

theorem edit_revives_token_witness:
  "\<exists>u. fst (Auth sample_auth False ''jwt'' (snd (handle_UpdateUser sample_auth (sample_row 3 ''u'' 0) sample_session_state))) = Next (NameSlot ''u'') u \<and>
     PwdTS u = 0 \<and> Authn u = []"
proof -
  have "fst (handle_UpdateUser sample_auth (sample_row 3 ''u'' 0) sample_session_state) = 200" by code_simp
  then have h: "handle_UpdateUser sample_auth (sample_row 3 ''u'' 0) sample_session_state = (200, snd (handle_UpdateUser sample_auth (sample_row 3 ''u'' 0) sample_session_state))"
    by (metis prod.collapse)
  have "''jwt'' \<in> validTokenCache sample_session_state" by code_simp
  moreover have "''jwt'' \<noteq> setting_str (snd (handle_UpdateUser sample_auth (sample_row 3 ''u'' 0) sample_session_state)) ''token''" by code_simp
  moreover have "svFail (aBase sample_auth) ''user by name'' = None" "aParse sample_auth ''jwt'' = JwtOk sample_claims" by (simp_all add: sample_auth_def)
  moreover have "Password (sample_row 3 ''u'' 0) = []" "\<not> Disabled (sample_row 3 ''u'' 0)" "Username (sample_row 3 ''u'' 0) = ''u''"
    by (simp_all add: sample_row_def)
  moreover have "clUsername sample_claims = ''u''" "clPwdTS sample_claims = 0" by (simp_all add: sample_claims_def)
  ultimately show ?thesis using edit_revives_token [OF sample_session_reachable h, of "''jwt''" sample_auth sample_claims False] by simp
qed

section \<open>Where the code falls short\<close>

text \<open>C38: In every reachable state an empty header is compared with the token of the administrator before anything else, so a request without
  credentials is made for an administrator when that setting is empty or missing, or when it is not cached and the table of settings cannot be read
  at that moment, provided there is an administrator and the user is cached or can be read.\<close>

theorem missing_token_admits_admin:
  assumes "reachable server_start server_step s"
    "setting_str s ''token'' = [] \<or> fst (GetSetting (svNow (aBase env)) ''token'' (svCaches s)) = None \<and> svFail (aBase env) ''setting'' \<noteq> None"
    "list_ex IsAdmin (svUsers s)" "adminUser s \<noteq> None \<or> svFail (aBase env) ''user by role'' = None"
  shows "\<exists>v. fst (Auth env b [] s) = Next AdminSlot v \<and> v \<in> set (svUsers s) \<and> IsAdmin v"
proof -
  have ok: "server_ok s" by (rule server_machine.reachable_inv [OF assms(1)])
  obtain t s1 where t: "GetStr (aBase env) ''token'' [] s = (t, s1)" by fastforce
  have "t = []"
  proof (cases "setting_str s ''token'' = []")
    case True
    with GetStr_value [OF _ t] ok show ?thesis by (auto simp: server_ok_def)
  next
    case False
    with assms(2) t show ?thesis
      by (auto simp: GetStr_def GetSettingItemByKey_def db_GetSettingItemByKey_def db_call_def Let_def split: option.splits prod.splits)
  qed
  moreover have s1: "svUsers s1 = svUsers s" "adminUser s1 = adminUser s"
    using GetStr_same [OF t] by (auto simp: same_users_def)
  moreover have "\<exists>v s2. GetAdmin (aBase env) s1 = (Inr v, s2)"
  proof (cases "adminUser s")
    case None
    have "find (\<lambda>u. ADMIN = 0 \<or> Role u = ADMIN) (svUsers s) \<noteq> None"
      using assms(3) by (auto simp: find_None_iff IsAdmin_def list_ex_iff)
    with None assms(4) s1 show ?thesis by (auto simp: GetAdmin_def db_GetUserByRole_def user_call_def first_row_def)
  qed (use s1 in \<open>simp add: GetAdmin_def\<close>)
  ultimately obtain v s2 where a: "Auth env b [] s = (Next AdminSlot v, s2)" using t by (auto simp: Auth_def)
  from Auth_ok [OF ok a] a show ?thesis by (auto simp: let_through_def)
qed

theorem missing_token_admits_admin_witness:
  "\<exists>v. fst (Auth sample_auth False [] (sample_server\<lparr>svSettings := []\<rparr>)) = Next AdminSlot v \<and> v \<in> set (svUsers (sample_server\<lparr>svSettings := []\<rparr>)) \<and> IsAdmin v"
  by (rule missing_token_admits_admin, rule reachable_start)
    (simp_all add: server_start_def sample_server_def sample_row_def setting_str_def IsAdmin_def ADMIN_def sample_auth_def)

text \<open>A change of the own profile writes through the pointer that the cache holds before the row is read; when reading fails, the request is
  answered with an error and the table keeps the old row, but the cache goes on answering with the changed user.\<close>

theorem failed_profile_change_stays:
  assumes "bind_User body = Some req" "\<not> IsGuest user" "SsoID req = []" "Password req = []" "svFail (aBase env) ''user by id'' = Some err"
    "map_of (kEntries (userCache (svCaches s))) n = Some e" "\<not> entry_exp e (svNow env2)" "n \<noteq> []"
    "UpdateCurrent env sso (NameSlot n) user body s = (code, s')"
  shows "code = 500 \<and> svUsers s' = svUsers s \<and> fst (GetUserByName env2 n s') = Inr (user\<lparr>Username := Username req, SsoID := []\<rparr>)"
proof -
  let ?u = "user\<lparr>Username := Username req, SsoID := []\<rparr>"
  have "map_of (map (\<lambda>(k, e). if k = n then (k, e\<lparr>entry_data := ?u\<rparr>) else (k, e)) d) n = map_option (\<lambda>e. e\<lparr>entry_data := ?u\<rparr>) (map_of d n)" for d :: "(int, User) entry_map"
    by (induction d) auto
  moreover have "UpdateCurrent env sso (NameSlot n) user body s = (500, write_slot (NameSlot n) ?u s)"
    using assms(1-5) by (simp add: UpdateCurrent_def Let_def UpdateUser_def UpdateUser_begin_def db_GetUserById_def user_call_def code_of_def)
  ultimately show ?thesis
    using assms(6-9) by (auto simp: write_slot_def on_svCaches_def GetUserByName_def GetUser_def keyed_Get_def)
qed

text \<open>Attempts whose keys all differ are never refused.  FTP and SFTP count under the address with the port of the connection, so a client that
  opens a new connection for each attempt is not limited.\<close>

lemma new_addresses:
  assumes "distinct (map (login_key \<circ> snd) eqs)" "\<forall>(e, q) \<in> set eqs. subject_to_limit e q \<and> LoginCache s (login_key q) = None"
  shows "\<forall>a \<in> set (attempts serve_login eqs s). answer_kind a \<noteq> Locked"
  using assms
proof (induction eqs arbitrary: s)
  case (Cons eq eqs)
  obtain e q where eq: "eq = (e, q)" by (metis surj_pair)
  obtain a s' where a: "serve_login e q s = (a, s')" by fastforce
  have "\<not> login_locked (login_clock e) (login_key q) s" using Cons.prems(2) eq by (auto simp: login_locked_def login_Get_def)
  with logins.counted [OF _ a] Cons.prems(2) eq have c: "counted_as (login_clock e) (login_key q) s (answer_kind a) s'" by auto
  have "LoginCache s' (login_key q') = None" if "(e', q') \<in> set eqs" for e' q'
  proof -
    have "login_key q' \<noteq> login_key q" using Cons.prems(1) that eq by force
    with c Cons.prems(2) that eq show ?thesis by (auto simp: counted_as_def split: attempt_kind.splits)
  qed
  with Cons.prems eq have "\<forall>a \<in> set (attempts serve_login eqs s'). answer_kind a \<noteq> Locked" by (intro Cons.IH) auto
  with c eq a show ?case by (auto simp: counted_as_def split: attempt_kind.splits)
qed simp

theorem new_connections_escape_lock:
  assumes "distinct (map (login_key \<circ> snd) eqs)" "\<forall>(e, q) \<in> set eqs. subject_to_limit e q \<and> LoginCache s (login_key q) = None"
  shows "\<forall>a \<in> set (attempts serve_login eqs s). answer_kind a \<noteq> Locked"
  using assms by (rule new_addresses)

theorem new_connections_escape_lock_witness:
  "\<forall>a \<in> set (attempts serve_login (map (\<lambda>i. ((sample_auth, sample_ldap, ''/i''), sample_client i, ByFtp ''u'' ''no'')) [1, 2, 3, 4, 5, 6, 7]) sample_server).
     answer_kind a \<noteq> Locked"
proof (rule new_connections_escape_lock)
  show "distinct (map (login_key \<circ> snd) (map (\<lambda>i. ((sample_auth, sample_ldap, ''/i''), sample_client i, ByFtp ''u'' ''no'')) [1, 2, 3, 4, 5, 6, 7]))"
    by (simp add: login_key_def RemoteAddr_def sample_client_def inj_eq [OF injI [OF FormatInt_inj]])
qed (simp add: subject_to_limit_def sample_server_def)

lemma UpdateUser_commit_caches: "svCaches (snd (UpdateUser_commit env u s)) = svCaches s"
  by (simp add: UpdateUser_commit_def db_UpdateUser_def db_CreateUser_def Let_def split: option.split)

text \<open>A lookup between the two parts of an update fills the cache with the row as it was, and until the entry expires requests are made
  for the user as it was, disabled or not.\<close>

theorem update_race_keeps_old_user:
  assumes "users_ok s" "old \<in> set (svUsers s)" "ID old = ID u" "Username old = n" "n \<noteq> []"
    "UpdateUser_begin env u s = (None, s1)" "svFail env2 ''user by name'' = None" "GetUserByName env2 n s1 = (r, s2)"
    "UpdateUser_commit env u s2 = (None, s3)" "svNow env3 < svNow env2 + kTtl (userCache (svCaches s))"
  shows "fst (GetUserByName env3 n s3) = Inr old"
proof -
  have "db_GetUserById env (ID u) s \<noteq> Inl e" for e using assms(6) by (auto simp: UpdateUser_begin_def)
  then obtain row where row: "db_GetUserById env (ID u) s = Inr row" by (cases "db_GetUserById env (ID u) s") auto
  have "row = old" using users_id [OF assms(1) _ assms(2)] db_GetUserByIdD [OF row] assms(3) by simp
  with row assms(4,6) have s1: "svUsers s1 = svUsers s" "userCache (svCaches s1) = keyed_Delete (userCache (svCaches s)) n"
    by (auto simp: UpdateUser_begin_def on_svCaches_def Let_def split: if_splits)
  have miss: "GetUser (svNow env2) n (svCaches s1) = (None, svCaches s1)"
    using s1(2) by (simp add: GetUser_def keyed_Get_def keyed_Delete_def)
  have "find (\<lambda>v. n = [] \<or> Username v = n) (svUsers s) = Some old"
  proof (cases "find (\<lambda>v. n = [] \<or> Username v = n) (svUsers s)")
    case (Some v)
    then have "v \<in> set (svUsers s)" "Username v = n" using assms(5) by (auto simp: find_Some_iff)
    with assms(1,2,4) Some show ?thesis by (auto simp: users_ok_def distinct_map dest: inj_onD)
  qed (use assms(2,4) in \<open>auto simp: find_None_iff\<close>)
  then have s2: "s2 = GetUserByName_fill env2 n old s1"
    using assms(5,7,8) miss s1(1) by (simp add: GetUserByName_def Let_def db_GetUserByName_def user_call_def first_row_def)
  have "svCaches s3 = svCaches s2"
    using UpdateUser_commit_caches [of env u s2] assms(9) by simp
  then show ?thesis
    using assms(5,10) s1(2) unfolding s2 GetUserByName_fill_def
    by (simp add: GetUserByName_def GetUser_def on_svCaches_def keyed_Get_def keyed_Set_def keyed_SetWithExpirable_def keyed_Delete_def ExpirationTime_def)
qed

end
