(* ===== verification/Sharing.thy ===== *)
theory Sharing
  imports Sessions Storage_Ops Virtual_Files "HOL-Library.List_Lexorder" "HOL-Library.Char_ord"
begin

text \<open>
  Shared links: \<open>internal/model/sharing.go\<close>, the table of \<open>internal/db/sharing.go\<close>, the operations of \<open>internal/op/sharing.go\<close> and the
  access of visitors in \<open>internal/sharing\<close>.  The table is a list in the order of its key.  Reading and writing the list of files as
  JSON and random characters are parameters; what a storage answers is a record of functions on a state of its own, so that the
  operations of \<open>Storage_Ops\<close> are one instance.
\<close>

section \<open>The surroundings\<close>

record share_env =
  shBase :: sv_env
  shMarshal :: "string list \<Rightarrow> string + string"
  shUnmarshal :: "string \<Rightarrow> string list option"
  shRandom :: string
  shRandomChar :: "nat \<Rightarrow> char"

datatype share_error =
    ShareDB string | ShareUser user_op_error | ShareJson string | ShareExists | NoValidId | MissingWhere
  | InvalidFiles | OutsideBase string | RootPath | NoChild string string
  | SharingNotFound | InvalidSharing | WrongShareCode | ShareStorage storage_error | ShareOp op_error | ShareRoot

section \<open>A shared link\<close>

definition Valid :: "int \<Rightarrow> Sharing \<Rightarrow> bool" where
  "Valid now s \<longleftrightarrow>
     (if sh_Disabled (sh_DB s) then False
      else if sh_MaxAccessed (sh_DB s) > 0 \<and> sh_Accessed (sh_DB s) \<ge> sh_MaxAccessed (sh_DB s) then False
      else if sh_Files s = [] then False
      else case sh_Creator s of
        None \<Rightarrow> False
      | Some c \<Rightarrow>
          if \<not> CanShare (Permission c) then False
          else (case sh_Expires (sh_DB s) of None \<Rightarrow> True | Some t \<Rightarrow> t = 0 \<or> \<not> t < now))"

definition Verify :: "Sharing \<Rightarrow> string \<Rightarrow> bool" where
  "Verify s pwd \<longleftrightarrow> sh_Pwd (sh_DB s) = [] \<or> sh_Pwd (sh_DB s) = pwd"

section \<open>The table\<close>

definition share_find :: "string \<Rightarrow> SharingDB list \<Rightarrow> SharingDB option" where
  "share_find i rows = find (\<lambda>r. i = [] \<or> sh_ID r = i) rows"

definition db_GetSharingById :: "sv_env \<Rightarrow> string \<Rightarrow> server \<Rightarrow> share_error + SharingDB" where
  "db_GetSharingById env i s =
     (case svFail env ''sharing'' of
        Some e \<Rightarrow> Inl (ShareDB e)
      | None \<Rightarrow> (case share_find i (svSharings s) of None \<Rightarrow> Inl (ShareDB ''record not found'') | Some r \<Rightarrow> Inr r))"

definition db_GetSharings :: "sv_env \<Rightarrow> int \<Rightarrow> int \<Rightarrow> server \<Rightarrow> share_error + SharingDB list \<times> nat" where
  "db_GetSharings env pageIndex pageSize s =
     (case svFail env ''sharings'' of
        Some e \<Rightarrow> Inl (ShareDB e)
      | None \<Rightarrow> Inr (db_page pageIndex pageSize (svSharings s), length (svSharings s)))"

definition db_GetSharingsByCreatorId :: "sv_env \<Rightarrow> nat \<Rightarrow> int \<Rightarrow> int \<Rightarrow> server \<Rightarrow> share_error + SharingDB list \<times> nat" where
  "db_GetSharingsByCreatorId env creator pageIndex pageSize s =
     (case svFail env ''sharings'' of
        Some e \<Rightarrow> Inl (ShareDB e)
      | None \<Rightarrow>
          let rows = filter (\<lambda>r. creator = 0 \<or> sh_CreatorId r = creator) (svSharings s)
          in Inr (db_page pageIndex pageSize rows, length rows))"

text \<open>Adding a row whose key is new.\<close>

definition share_insert :: "sv_env \<Rightarrow> SharingDB \<Rightarrow> server \<Rightarrow> share_error option \<times> server" where
  "share_insert env r s =
     (case svFail env ''create sharing'' of
        Some e \<Rightarrow> (Some (ShareDB e), s)
      | None \<Rightarrow>
          if list_ex (\<lambda>x. sh_ID x = sh_ID r) (svSharings s) then (Some (ShareDB ''UNIQUE constraint failed''), s)
          else (None, s\<lparr>svSharings := insort_key sh_ID r (svSharings s)\<rparr>))"

text \<open>The loop that looks for an identifier, from a random one of eight characters to one of eleven; a query that fails counts as a
  free identifier.\<close>

function db_free_id :: "share_env \<Rightarrow> string \<Rightarrow> server \<Rightarrow> string option" where
  "db_free_id env i s =
     (if length i \<ge> 12 then None
      else case db_GetSharingById (shBase env) i s of
        Inl e \<Rightarrow> Some i
      | Inr r \<Rightarrow> db_free_id env (i @ [shRandomChar env (length i)]) s)"
  by pat_completeness auto

termination
  by (relation "measure (\<lambda>(env, i, s). 12 - length i)") auto

declare db_free_id.simps [simp del]

definition db_CreateSharing :: "share_env \<Rightarrow> SharingDB \<Rightarrow> server \<Rightarrow> (share_error + string) \<times> server" where
  "db_CreateSharing env r s =
     (if sh_ID r = [] then
        (case db_free_id env (shRandom env) s of
           None \<Rightarrow> (Inl NoValidId, s)
         | Some i \<Rightarrow>
             (case share_insert (shBase env) (r\<lparr>sh_ID := i\<rparr>) s of
                (Some e, s1) \<Rightarrow> (Inl e, s1)
              | (None, s1) \<Rightarrow> (Inr i, s1)))
      else case db_GetSharingById (shBase env) (sh_ID r) s of
        Inr old \<Rightarrow> (Inl ShareExists, s)
      | Inl e \<Rightarrow>
          (case share_insert (shBase env) r s of
             (Some e, s1) \<Rightarrow> (Inl e, s1)
           | (None, s1) \<Rightarrow> (Inr (sh_ID r), s1)))"

text \<open>\<open>Save\<close> overwrites the row of the key or adds one.\<close>

definition db_UpdateSharing :: "sv_env \<Rightarrow> SharingDB \<Rightarrow> server \<Rightarrow> share_error option \<times> server" where
  "db_UpdateSharing env r s =
     (if \<not> list_ex (\<lambda>x. sh_ID x = sh_ID r) (svSharings s) then share_insert env r s
      else case svFail env ''save sharing'' of
        Some e \<Rightarrow> (Some (ShareDB e), s)
      | None \<Rightarrow> (None, s\<lparr>svSharings := map (\<lambda>x. if sh_ID x = sh_ID r then r else x) (svSharings s)\<rparr>))"

definition db_UpdateSharingId :: "sv_env \<Rightarrow> string \<Rightarrow> string \<Rightarrow> server \<Rightarrow> share_error option \<times> server" where
  "db_UpdateSharingId env oldId newId s =
     (if svFail env ''sharing'' = None \<and> list_ex (\<lambda>x. sh_ID x = newId) (svSharings s) then (Some ShareExists, s)
      else case svFail env ''rename sharing'' of
        Some e \<Rightarrow> (Some (ShareDB e), s)
      | None \<Rightarrow>
          (case find (\<lambda>x. sh_ID x = oldId) (svSharings s) of
             None \<Rightarrow> (None, s)
           | Some r \<Rightarrow>
               if newId \<noteq> oldId \<and> list_ex (\<lambda>x. sh_ID x = newId) (svSharings s) then (Some (ShareDB ''UNIQUE constraint failed''), s)
               else (None, s\<lparr>svSharings := insort_key sh_ID (r\<lparr>sh_ID := newId\<rparr>) (filter (\<lambda>x. sh_ID x \<noteq> oldId) (svSharings s))\<rparr>)))"

definition db_DeleteSharingById :: "sv_env \<Rightarrow> string \<Rightarrow> server \<Rightarrow> share_error option \<times> server" where
  "db_DeleteSharingById env i s =
     (case svFail env ''delete sharing'' of
        Some e \<Rightarrow> (Some (ShareDB e), s)
      | None \<Rightarrow> if i = [] then (Some MissingWhere, s) else (None, s\<lparr>svSharings := filter (\<lambda>x. sh_ID x \<noteq> i) (svSharings s)\<rparr>))"

section \<open>Operations\<close>

definition read_files :: "share_env \<Rightarrow> SharingDB \<Rightarrow> string list" where
  "read_files env r = (case shUnmarshal env (sh_FilesRaw r) of None \<Rightarrow> [] | Some files \<Rightarrow> files)"

text \<open>\<open>creators\<close> are those found so far; one that cannot be read is looked up again.\<close>

fun makeJoined :: "share_env \<Rightarrow> (nat \<Rightarrow> User option) \<Rightarrow> SharingDB list \<Rightarrow> server \<Rightarrow> Sharing list" where
  "makeJoined env creators [] s = []"
| "makeJoined env creators (r # rs) s =
     (let c = (case creators (sh_CreatorId r) of
                 Some u \<Rightarrow> Some u
               | None \<Rightarrow> (case db_GetUserById (shBase env) (sh_CreatorId r) s of Inl e \<Rightarrow> None | Inr u \<Rightarrow> Some u))
      in \<lparr>sh_DB = r, sh_Files = read_files env r, sh_Creator = c\<rparr> # makeJoined env (creators(sh_CreatorId r := c)) rs s)"

definition GetSharingById :: "share_env \<Rightarrow> string \<Rightarrow> bool \<Rightarrow> server \<Rightarrow> share_error + Sharing" where
  "GetSharingById env i refresh s =
     (case (if refresh then None else sharingCache s i) of
        Some x \<Rightarrow> Inr x
      | None \<Rightarrow>
          (case db_GetSharingById (shBase env) i s of
             Inl e \<Rightarrow> Inl e
           | Inr r \<Rightarrow>
               (case db_GetUserById (shBase env) (sh_CreatorId r) s of
                  Inl e \<Rightarrow> Inl (ShareUser e)
                | Inr c \<Rightarrow> Inr \<lparr>sh_DB = r, sh_Files = read_files env r, sh_Creator = Some c\<rparr>)))"

definition GetSharings :: "share_env \<Rightarrow> int \<Rightarrow> int \<Rightarrow> server \<Rightarrow> share_error + Sharing list \<times> nat" where
  "GetSharings env pageIndex pageSize s =
     (case db_GetSharings (shBase env) pageIndex pageSize s of Inl e \<Rightarrow> Inl e | Inr (rows, n) \<Rightarrow> Inr (makeJoined env (\<lambda>_. None) rows s, n))"

definition GetSharingsByCreatorId :: "share_env \<Rightarrow> nat \<Rightarrow> int \<Rightarrow> int \<Rightarrow> server \<Rightarrow> share_error + Sharing list \<times> nat" where
  "GetSharingsByCreatorId env creator pageIndex pageSize s =
     (case db_GetSharingsByCreatorId (shBase env) creator pageIndex pageSize s of
        Inl e \<Rightarrow> Inl e
      | Inr (rows, n) \<Rightarrow> Inr (makeJoined env (\<lambda>_. None) rows s, n))"

text \<open>The path that a path of the shared link stands for.\<close>

definition GetSharingUnwrapPath :: "Sharing \<Rightarrow> string \<Rightarrow> share_error + string" where
  "GetSharingUnwrapPath s path0 =
     (if sh_Files s = [] then Inl InvalidFiles
      else case (case sh_Creator s of
                   Some c \<Rightarrow> if IsAdmin c then None else find (\<lambda>f. \<not> IsSubPath (BasePath c) f) (sh_Files s)
                 | None \<Rightarrow> None) of
        Some f \<Rightarrow> Inl (OutsideBase f)
      | None \<Rightarrow>
          if length (sh_Files s) = 1 then Inr (PathJoin (hd (sh_Files s)) path0)
          else
            let path = tl (FixAndCleanPath path0)
            in if path = [] then Inl RootPath
               else
                 let (child, rest, _) = Cut path CHR ''/''
                 in (case find (\<lambda>c. child = Base c) (sh_Files s) of
                       None \<Rightarrow> Inl (NoChild child (sh_ID (sh_DB s)))
                     | Some mapPath \<Rightarrow> if mapPath = [] then Inl (NoChild child (sh_ID (sh_DB s))) else Inr (PathJoin mapPath rest)))"

definition CreateSharing :: "share_env \<Rightarrow> Sharing \<Rightarrow> User \<Rightarrow> server \<Rightarrow> (share_error + string) \<times> server" where
  "CreateSharing env x creator s =
     (case shMarshal env (map FixAndCleanPath (sh_Files x)) of
        Inl e \<Rightarrow> (Inl (ShareJson e), s)
      | Inr raw \<Rightarrow> db_CreateSharing env ((sh_DB x)\<lparr>sh_CreatorId := ID creator, sh_FilesRaw := raw\<rparr>) s)"

definition share_cache_del :: "string \<Rightarrow> server \<Rightarrow> server" where
  "share_cache_del i s = s\<lparr>sharingCache := (sharingCache s)(i := None)\<rparr>"

text \<open>With \<open>skipMarshal\<close> the row is written as it was read.\<close>

definition UpdateSharing_raw :: "share_env \<Rightarrow> SharingDB \<Rightarrow> server \<Rightarrow> share_error option \<times> server" where
  "UpdateSharing_raw env r s = db_UpdateSharing (shBase env) r (share_cache_del (sh_ID r) s)"

definition UpdateSharing :: "share_env \<Rightarrow> Sharing \<Rightarrow> User \<Rightarrow> server \<Rightarrow> share_error option \<times> server" where
  "UpdateSharing env x creator s =
     (case shMarshal env (map FixAndCleanPath (sh_Files x)) of
        Inl e \<Rightarrow> (Some (ShareJson e), s)
      | Inr raw \<Rightarrow> UpdateSharing_raw env ((sh_DB x)\<lparr>sh_CreatorId := ID creator, sh_FilesRaw := raw\<rparr>) s)"

definition UpdateSharingId :: "share_env \<Rightarrow> Sharing \<Rightarrow> string \<Rightarrow> server \<Rightarrow> (share_error + Sharing) \<times> server" where
  "UpdateSharingId env x newId s =
     (case db_UpdateSharingId (shBase env) (sh_ID (sh_DB x)) newId (share_cache_del (sh_ID (sh_DB x)) s) of
        (Some e, s1) \<Rightarrow> (Inl e, s1)
      | (None, s1) \<Rightarrow> (Inr (x\<lparr>sh_DB := (sh_DB x)\<lparr>sh_ID := newId\<rparr>\<rparr>), s1))"

definition DeleteSharing :: "share_env \<Rightarrow> string \<Rightarrow> server \<Rightarrow> share_error option \<times> server" where
  "DeleteSharing env i s = db_DeleteSharingById (shBase env) i (share_cache_del i s)"

section \<open>What visitors see\<close>

text \<open>The operations on a storage, over a state of their own.\<close>

record 'st share_ops =
  soGet :: "Driver \<Rightarrow> string \<Rightarrow> 'st \<Rightarrow> (op_error + Obj) \<times> 'st"
  soList :: "Driver \<Rightarrow> string \<Rightarrow> ListArgs \<Rightarrow> 'st \<Rightarrow> (op_error + Obj list) \<times> 'st"
  soLink :: "Driver \<Rightarrow> string \<Rightarrow> LinkArgs \<Rightarrow> 'st \<Rightarrow> ((op_error + Link \<times> Obj) \<times> 'st) option"
  soSorting :: sorting
  soApiUrl :: string

text \<open>The operations of the storage layer as an instance.\<close>

definition storage_share_ops :: "'w op_env \<Rightarrow> (Driver \<Rightarrow> 'w op_driver) \<Rightarrow> string \<Rightarrow> 'w op_state share_ops" where
  "storage_share_ops env drv_of api =
     \<lparr>soGet = (\<lambda>d path st. op_Get env (drv_of d) path False st), soList = (\<lambda>d path args st. op_List env (drv_of d) path args st),
      soLink = (\<lambda>d path args st. op_Link env (drv_of d) path args st), soSorting = envSorting env, soApiUrl = api\<rparr>"

text \<open>The way into a shared link: it exists, is valid and the code is right.\<close>

definition sharing_enter :: "share_env \<Rightarrow> string \<Rightarrow> bool \<Rightarrow> string \<Rightarrow> server \<Rightarrow> share_error + Sharing" where
  "sharing_enter env sid refresh pwd s =
     (case GetSharingById env sid refresh s of
        Inl e \<Rightarrow> Inl SharingNotFound
      | Inr x \<Rightarrow>
          if \<not> Valid (svNow (shBase env)) x then Inl InvalidSharing
          else if \<not> Verify x pwd then Inl WrongShareCode
          else Inr x)"

definition share_root :: "string \<Rightarrow> Obj" where
  "share_root sid = Obj (virtual_object sid 0 0)"

text \<open>The storage's object at a path; a result \<open>None\<close> is a panic.\<close>

definition get_at :: "'st share_ops \<Rightarrow> string \<Rightarrow> mount_state \<Rightarrow> 'st \<Rightarrow> (share_error + Obj) \<times> mount_state \<times> 'st" where
  "get_at ops path m st =
     (case GetStorageAndActualPath m path of
        (Inl e, m1) \<Rightarrow> (Inl (ShareStorage e), m1, st)
      | (Inr (storage, actualPath), m1) \<Rightarrow>
          (case soGet ops storage actualPath st of
             (Inl e, st1) \<Rightarrow> (Inl (ShareOp e), m1, st1)
           | (Inr obj, st1) \<Rightarrow> (Inr obj, m1, st1)))"

definition virtual_named :: "mount_state \<Rightarrow> string \<Rightarrow> Obj option option" where
  "virtual_named m path = map_option (find (\<lambda>f. GetName f = Base path)) (GetStorageVirtualFilesByPath (storagesMap m) (Dir path))"

definition sharing_get ::
  "share_env \<Rightarrow> 'st share_ops \<Rightarrow> string \<Rightarrow> string \<Rightarrow> bool \<Rightarrow> string \<Rightarrow> server \<Rightarrow> mount_state \<Rightarrow> 'st \<Rightarrow>
   ((share_error + Sharing \<times> Obj) \<times> mount_state \<times> 'st) option" where
  "sharing_get env ops sid path0 refresh pwd s m st =
     (case sharing_enter env sid refresh pwd s of
        Inl e \<Rightarrow> Some (Inl e, m, st)
      | Inr x \<Rightarrow>
          let path = FixAndCleanPath path0
          in if length (sh_Files x) = 1 \<or> path \<noteq> ''/'' then
               (case GetSharingUnwrapPath x path of
                  Inl e \<Rightarrow> Some (Inl e, m, st)
                | Inr unwrapPath \<Rightarrow>
                    if unwrapPath \<noteq> ''/'' then
                      (case virtual_named m unwrapPath of
                         None \<Rightarrow> None
                       | Some (Some f) \<Rightarrow> Some (Inr (x, f), m, st)
                       | Some None \<Rightarrow>
                           (case get_at ops unwrapPath m st of
                              (Inl e, ms) \<Rightarrow> Some (Inl e, ms)
                            | (Inr obj, ms) \<Rightarrow> Some (Inr (x, obj), ms)))
                    else Some (Inr (x, share_root sid), m, st))
             else Some (Inr (x, share_root sid), m, st))"

text \<open>The entries of the root of a link with several files; those that cannot be read are left out.\<close>

fun root_entries :: "'st share_ops \<Rightarrow> string list \<Rightarrow> mount_state \<Rightarrow> 'st \<Rightarrow> (Obj list \<times> mount_state \<times> 'st) option" where
  "root_entries ops [] m st = Some ([], m, st)"
| "root_entries ops (f # files) m st =
     (if f = ''/'' then root_entries ops files m st
      else case virtual_named m f of
        None \<Rightarrow> None
      | Some (Some vf) \<Rightarrow> map_option (\<lambda>(objs, ms). (vf # objs, ms)) (root_entries ops files m st)
      | Some None \<Rightarrow>
          (case get_at ops f m st of
             (Inl e, m1, st1) \<Rightarrow> root_entries ops files m1 st1
           | (Inr obj, m1, st1) \<Rightarrow> map_option (\<lambda>(objs, ms). (obj # objs, ms)) (root_entries ops files m1 st1)))"

definition share_sorted :: "'st share_ops \<Rightarrow> Sharing \<Rightarrow> Obj list \<Rightarrow> Obj list" where
  "share_sorted ops x objs =
     ExtractFolder (SortFiles (sort_Slice (soSorting ops)) (natural_Less (soSorting ops)) objs (sh_OrderBy (sh_DB x)) (sh_OrderDirection (sh_DB x)))
       (sh_ExtractFolder (sh_DB x))"

definition list_at ::
  "'st share_ops \<Rightarrow> ListArgs \<Rightarrow> string \<Rightarrow> mount_state \<Rightarrow> 'st \<Rightarrow> ((share_error + Obj list) \<times> mount_state \<times> 'st) option" where
  "list_at ops args path m st =
     (case GetStorageVirtualFilesByPath (storagesMap m) path of
        None \<Rightarrow> None
      | Some virtualFiles \<Rightarrow>
          (case GetStorageAndActualPath m path of
             (Inl e, m1) \<Rightarrow>
               Some (if virtualFiles = [] then Inl (ShareStorage e) else Inr (fst (Merge NewObjMerge [] virtualFiles)), m1, st)
           | (Inr (storage, actualPath), m1) \<Rightarrow>
               (case soList ops storage actualPath args st of
                  (Inl e, st1) \<Rightarrow> Some (if virtualFiles = [] then Inl (ShareOp e) else Inr (fst (Merge NewObjMerge [] virtualFiles)), m1, st1)
                | (Inr objs, st1) \<Rightarrow> Some (Inr (fst (Merge NewObjMerge objs virtualFiles)), m1, st1))))"

definition sharing_list ::
  "share_env \<Rightarrow> 'st share_ops \<Rightarrow> string \<Rightarrow> string \<Rightarrow> bool \<Rightarrow> string \<Rightarrow> server \<Rightarrow> mount_state \<Rightarrow> 'st \<Rightarrow>
   ((share_error + Sharing \<times> Obj list) \<times> mount_state \<times> 'st) option" where
  "sharing_list env ops sid path0 refresh pwd s m st =
     (case sharing_enter env sid refresh pwd s of
        Inl e \<Rightarrow> Some (Inl e, m, st)
      | Inr x \<Rightarrow>
          let path = FixAndCleanPath path0
          in if length (sh_Files x) = 1 \<or> path \<noteq> ''/'' then
               (case GetSharingUnwrapPath x path of
                  Inl e \<Rightarrow> Some (Inl e, m, st)
                | Inr unwrapPath \<Rightarrow>
                    map_option (\<lambda>(r, ms). (map_sum id (\<lambda>objs. (x, share_sorted ops x objs)) r, ms))
                      (list_at ops ((list_args refresh False)\<lparr>laReqPath := PathJoin sid path\<rparr>) unwrapPath m st))
             else map_option (\<lambda>(objs, ms). (Inr (x, share_sorted ops x objs), ms)) (root_entries ops (sh_Files x) m st))"

text \<open>The source completes a relative URL in the link that the cache holds; here the result is completed and the cache keeps the
  relative one, which the next call completes again.\<close>

definition sharing_link ::
  "share_env \<Rightarrow> 'st share_ops \<Rightarrow> string \<Rightarrow> string \<Rightarrow> bool \<Rightarrow> string \<Rightarrow> LinkArgs \<Rightarrow> server \<Rightarrow> mount_state \<Rightarrow> 'st \<Rightarrow>
   ((share_error + Sharing \<times> Link \<times> Obj) \<times> mount_state \<times> 'st) option" where
  "sharing_link env ops sid path0 refresh pwd args s m st =
     (case sharing_enter env sid refresh pwd s of
        Inl e \<Rightarrow> Some (Inl e, m, st)
      | Inr x \<Rightarrow>
          let path = FixAndCleanPath path0
          in if length (sh_Files x) = 1 \<or> path \<noteq> ''/'' then
               (case GetSharingUnwrapPath x path of
                  Inl e \<Rightarrow> Some (Inl e, m, st)
                | Inr unwrapPath \<Rightarrow>
                    (case GetStorageAndActualPath m unwrapPath of
                       (Inl e, m1) \<Rightarrow> Some (Inl (ShareStorage e), m1, st)
                     | (Inr (storage, actualPath), m1) \<Rightarrow>
                         (case soLink ops storage actualPath args st of
                            None \<Rightarrow> None
                          | Some (Inl e, st1) \<Rightarrow> Some (Inl (ShareOp e), m1, st1)
                          | Some (Inr (l, obj), st1) \<Rightarrow>
                              let u = lURL l;
                                  l1 = (if u \<noteq> [] \<and> \<not> HasPrefix u ''http://'' \<and> \<not> HasPrefix u ''https://'' then l\<lparr>lURL := soApiUrl ops @ u\<rparr> else l)
                              in Some (Inr (x, l1, obj), m1, st1))))
             else Some (Inl ShareRoot, m, st))"

end
