(* ===== verification/Share_Handlers.thy ===== *)
theory Share_Handlers
  imports Sharing
begin

text \<open>
  The handlers for shared links of \<open>server/handles/sharing.go\<close>: what visitors ask for and what owners and administrators change, and the
  pages of a listing (\<open>server/handles/fsread.go\<close>, \<open>internal/model/req.go\<close>).  A result \<open>None\<close> is a panic.  The pattern of identifiers and the
  decision to proxy a download are parameters.
\<close>

section \<open>Pages\<close>

definition PageReq_Validate :: "int64 \<times> int64 \<Rightarrow> int64 \<times> int64" where
  "PageReq_Validate p = (let (page, perPage) = p in (if page < 1 then 1 else page, if perPage < 1 then max_int64 else perPage))"

definition pagination :: "'a list \<Rightarrow> int64 \<times> int64 \<Rightarrow> (nat \<times> 'a list) option" where
  "pagination objs req =
     (let (pageIndex, pageSize) = req; total_n = length objs; start = wrap64 ((pageIndex - 1) * pageSize)
      in if start > int total_n then Some (total_n, [])
         else let e0 = wrap64 (start + pageSize); e = (if e0 > int total_n then int total_n else e0)
              in if 0 \<le> start \<and> start \<le> e then Some (total_n, take (nat (e - start)) (drop (nat start) objs)) else None)"

section \<open>Visitors\<close>

definition AccessCountDelay :: int where "AccessCountDelay = 30 * Minute"

text \<open>One access per address and half hour is counted; the row is written as it was when the request read it.\<close>

definition countAccess :: "share_env \<Rightarrow> string \<Rightarrow> Sharing \<Rightarrow> server \<Rightarrow> share_error option \<times> server" where
  "countAccess env ip x s =
     (let now = svNow (shBase env); key = sh_ID (sh_DB x) @ '':'' @ ip
      in if (case AccessCache s key of Some t \<Rightarrow> now < t | None \<Rightarrow> False) then (None, s)
         else UpdateSharing_raw env ((sh_DB x)\<lparr>sh_Accessed := wrap64 (sh_Accessed (sh_DB x) + 1)\<rparr>)
                (s\<lparr>AccessCache := (AccessCache s)(key \<mapsto> now + AccessCountDelay)\<rparr>))"

definition dealError :: "share_error \<Rightarrow> int" where
  "dealError e = (if e = WrongShareCode then 403 else 500)"

definition split_share_path :: "string \<Rightarrow> string \<times> string" where
  "split_share_path reqPath = (let (sid, path, _) = Cut (TrimPrefix reqPath ''/'') CHR ''/'' in (sid, path))"

definition share_url :: "string \<Rightarrow> string \<Rightarrow> string \<Rightarrow> Sharing \<Rightarrow> string" where
  "share_url api sid path x =
     api @ ''/sd'' @ EncodePath (''/'' @ sid @ ''/'' @ path) [True] @ (if sh_Pwd (sh_DB x) \<noteq> [] then ''?pwd='' @ sh_Pwd (sh_DB x) else [])"

datatype visit_answer = VisitCode int | VisitObj Obj string string string | VisitList "Obj list" nat string string

text \<open>The requests for one object and for a listing; the access is counted after the answer is known.\<close>

definition SharingGet ::
  "share_env \<Rightarrow> 'st share_ops \<Rightarrow> string \<Rightarrow> string \<Rightarrow> string \<Rightarrow> server \<Rightarrow> mount_state \<Rightarrow> 'st \<Rightarrow> (visit_answer \<times> server \<times> mount_state \<times> 'st) option" where
  "SharingGet env ops ip reqPath password s m st =
     (let (sid, path) = split_share_path reqPath
      in if sid = [] then Some (VisitCode 400, s, m, st)
         else case sharing_get env ops sid path False password s m st of
           None \<Rightarrow> None
         | Some (Inl e, ms) \<Rightarrow> Some (VisitCode (dealError e), s, ms)
         | Some (Inr (x, obj), ms) \<Rightarrow>
             let s1 = snd (countAccess env ip x s)
             in Some (VisitObj obj (if IsDir obj then [] else share_url (soApiUrl ops) sid path x) (sh_Readme (sh_DB x)) (sh_Header (sh_DB x)), s1, ms))"

definition SharingList ::
  "share_env \<Rightarrow> 'st share_ops \<Rightarrow> string \<Rightarrow> string \<Rightarrow> string \<Rightarrow> bool \<Rightarrow> int64 \<times> int64 \<Rightarrow> server \<Rightarrow> mount_state \<Rightarrow> 'st \<Rightarrow>
   (visit_answer \<times> server \<times> mount_state \<times> 'st) option" where
  "SharingList env ops ip reqPath password refresh page s m st =
     (let (sid, path) = split_share_path reqPath
      in if sid = [] then Some (VisitCode 400, s, m, st)
         else case sharing_list env ops sid path refresh password s m st of
           None \<Rightarrow> None
         | Some (Inl e, ms) \<Rightarrow> Some (VisitCode (dealError e), s, ms)
         | Some (Inr (x, objs), ms) \<Rightarrow>
             let s1 = snd (countAccess env ip x s)
             in (case pagination objs page of
                   None \<Rightarrow> None
                 | Some (total_n, shown) \<Rightarrow> Some (VisitList shown total_n (sh_Readme (sh_DB x)) (sh_Header (sh_DB x)), s1, ms)))"

datatype down_answer = DownCode int | DownProxyURL string | DownProxy Link Obj | DownRedirect Link

text \<open>A download; \<open>proxyURL\<close> is what the storage's download proxy makes of the path, \<open>noProxyURL\<close> that the request rules it out.\<close>

definition SharingDown ::
  "share_env \<Rightarrow> 'st share_ops \<Rightarrow> (Driver \<Rightarrow> string \<Rightarrow> bool) \<Rightarrow> (Driver \<Rightarrow> string \<Rightarrow> string) \<Rightarrow> bool \<Rightarrow> LinkArgs \<Rightarrow> string \<Rightarrow> string \<Rightarrow> string \<Rightarrow> string \<Rightarrow>
   server \<Rightarrow> mount_state \<Rightarrow> 'st \<Rightarrow> (down_answer \<times> server \<times> mount_state \<times> 'st) option" where
  "SharingDown env ops shouldProxy proxyURL noProxyURL args ip sid path0 pwd s m st =
     (let path = FixAndCleanPath path0
      in case GetSharingById env sid False s of
        Inl e \<Rightarrow> Some (DownCode (dealError e), s, m, st)
      | Inr x \<Rightarrow>
          if \<not> Valid (svNow (shBase env)) x then Some (DownCode (dealError InvalidSharing), s, m, st)
          else if \<not> Verify x pwd then Some (DownCode (dealError WrongShareCode), s, m, st)
          else if length (sh_Files x) \<noteq> 1 \<and> path = ''/'' then Some (DownCode (dealError ShareRoot), s, m, st)
          else (case GetSharingUnwrapPath x path of
                  Inl e \<Rightarrow> Some (DownCode 500, s, m, st)
                | Inr unwrapPath \<Rightarrow>
                    (case GetStorageAndActualPath m unwrapPath of
                       (Inl e, m1) \<Rightarrow> Some (DownCode 500, s, m1, st)
                     | (Inr (storage, actualPath), m1) \<Rightarrow>
                         (case GetBool (shBase env) ''share_force_proxy'' s of
                            (force, s1) \<Rightarrow>
                              if force \<or> shouldProxy storage (Base actualPath) then
                                let url = (if noProxyURL then [] else proxyURL storage unwrapPath)
                                in if url \<noteq> [] then Some (DownProxyURL url, snd (countAccess env ip x s1), m1, st)
                                   else (case soLink ops storage actualPath (args\<lparr>linkIP := [], linkRedirect := False\<rparr>) st of
                                           None \<Rightarrow> None
                                         | Some (Inl e, st1) \<Rightarrow> Some (DownCode 500, s1, m1, st1)
                                         | Some (Inr (l, obj), st1) \<Rightarrow> Some (DownProxy l obj, snd (countAccess env ip x s1), m1, st1))
                              else (case soLink ops storage actualPath (args\<lparr>linkIP := ip, linkRedirect := True\<rparr>) st of
                                      None \<Rightarrow> None
                                    | Some (Inl e, st1) \<Rightarrow> Some (DownCode 500, s1, m1, st1)
                                    | Some (Inr (l, obj), st1) \<Rightarrow> Some (DownRedirect l, snd (countAccess env ip x s1), m1, st1))))))"

section \<open>Owners and administrators\<close>

record UpdateSharingReq =
  rqFiles :: "string list"
  rqExpires :: "int option"
  rqPwd :: string
  rqMaxAccessed :: int64
  rqDisabled :: bool
  rqRemark :: string
  rqReadme :: string
  rqHeader :: string
  rqOrderBy :: string
  rqOrderDirection :: string
  rqExtractFolder :: string
  rqCreatorName :: string
  rqAccessed :: int64
  rqID :: string
  rqNewID :: string

datatype share_answer = ShareCode int | ShareOk Sharing

text \<open>The loop over the files of a request, which cleans them in place.\<close>

fun check_files :: "bool \<Rightarrow> string \<Rightarrow> string list \<Rightarrow> string + string list" where
  "check_files admin base [] = Inr []"
| "check_files admin base (f # fs) =
     (let c = FixAndCleanPath f
      in if \<not> admin \<and> \<not> IsSubPath base c then Inl c
         else (case check_files admin base fs of Inl e \<Rightarrow> Inl e | Inr cs \<Rightarrow> Inr (c # cs)))"

definition no_files :: "string list \<Rightarrow> bool" where
  "no_files files \<longleftrightarrow> files = [] \<or> files = [[]]"

text \<open>The creator that a request names.  An administrator may name one; others create in their own name.\<close>

definition share_creator :: "share_env \<Rightarrow> UpdateSharingReq \<Rightarrow> User \<Rightarrow> bool \<Rightarrow> server \<Rightarrow> (int + User) \<times> server" where
  "share_creator env req reqUser allowed s =
     (if IsAdmin reqUser \<and> rqCreatorName req \<noteq> [] then
        (case GetUserByName (shBase env) (rqCreatorName req) s of (Inl e, s1) \<Rightarrow> (Inl 400, s1) | (Inr u, s1) \<Rightarrow> (Inr u, s1))
      else if \<not> allowed then (Inl 403, s) else (Inr reqUser, s))"

definition handle_CreateSharing :: "share_env \<Rightarrow> (string \<Rightarrow> bool) \<Rightarrow> User \<Rightarrow> UpdateSharingReq \<Rightarrow> server \<Rightarrow> share_answer \<times> server" where
  "handle_CreateSharing env validID reqUser req s =
     (if no_files (rqFiles req) then (ShareCode 400, s)
      else if rqID req \<noteq> [] \<and> \<not> validID (rqID req) then (ShareCode 400, s)
      else case share_creator env req reqUser
             (CanShare (Permission reqUser) \<and> \<not> (\<not> CanCustomizeShareID (Permission reqUser) \<and> rqID req \<noteq> [])) s of
        (Inl code, s1) \<Rightarrow> (ShareCode code, s1)
      | (Inr user, s1) \<Rightarrow>
          (case check_files (IsAdmin reqUser) (BasePath user) (rqFiles req) of
             Inl f \<Rightarrow> (ShareCode 500, s1)
           | Inr files \<Rightarrow>
               let x = \<lparr>sh_DB = \<lparr>sh_ID = rqID req, sh_FilesRaw = [], sh_Expires = rqExpires req, sh_Pwd = rqPwd req, sh_Accessed = rqAccessed req,
                          sh_MaxAccessed = rqMaxAccessed req, sh_CreatorId = 0, sh_Disabled = rqDisabled req, sh_Remark = rqRemark req,
                          sh_Readme = rqReadme req, sh_Header = rqHeader req, sh_OrderBy = rqOrderBy req, sh_OrderDirection = rqOrderDirection req,
                          sh_ExtractFolder = rqExtractFolder req\<rparr>,
                        sh_Files = files, sh_Creator = Some user\<rparr>
               in (case CreateSharing env x user s1 of
                     (Inl e, s2) \<Rightarrow> (ShareCode 500, s2)
                   | (Inr i, s2) \<Rightarrow> (ShareOk (x\<lparr>sh_DB := (sh_DB x)\<lparr>sh_ID := i\<rparr>\<rparr>), s2))))"

text \<open>The shared link that a request of the user may change.\<close>

definition own_sharing :: "share_env \<Rightarrow> string \<Rightarrow> User \<Rightarrow> server \<Rightarrow> Sharing option" where
  "own_sharing env sid user s =
     (case GetSharingById env sid False s of
        Inl e \<Rightarrow> None
      | Inr x \<Rightarrow> if \<not> IsAdmin user \<and> sh_CreatorId (sh_DB x) \<noteq> ID user then None else Some x)"

definition updated_sharing :: "UpdateSharingReq \<Rightarrow> string list \<Rightarrow> User \<Rightarrow> Sharing \<Rightarrow> Sharing" where
  "updated_sharing req files user x =
     x\<lparr>sh_DB := (sh_DB x)\<lparr>sh_Expires := rqExpires req, sh_Pwd := rqPwd req, sh_Accessed := rqAccessed req, sh_MaxAccessed := rqMaxAccessed req,
          sh_Disabled := rqDisabled req, sh_OrderBy := rqOrderBy req, sh_OrderDirection := rqOrderDirection req, sh_ExtractFolder := rqExtractFolder req,
          sh_Header := rqHeader req, sh_Readme := rqReadme req, sh_Remark := rqRemark req\<rparr>,
       sh_Files := files, sh_Creator := Some user\<rparr>"

definition handle_UpdateSharing :: "share_env \<Rightarrow> (string \<Rightarrow> bool) \<Rightarrow> User \<Rightarrow> UpdateSharingReq \<Rightarrow> server \<Rightarrow> share_answer \<times> server" where
  "handle_UpdateSharing env validID reqUser req s =
     (if no_files (rqFiles req) then (ShareCode 400, s)
      else case share_creator env req reqUser (CanShare (Permission reqUser)) s of
        (Inl code, s1) \<Rightarrow> (ShareCode code, s1)
      | (Inr user0, s1) \<Rightarrow>
          (case check_files (IsAdmin reqUser) (BasePath user0) (rqFiles req) of
             Inl f \<Rightarrow> (ShareCode 500, s1)
           | Inr files \<Rightarrow>
               (case GetSharingById env (rqID req) False s1 of
                  Inl e \<Rightarrow> (ShareCode 404, s1)
                | Inr x0 \<Rightarrow>
                    if \<not> IsAdmin reqUser \<and> sh_CreatorId (sh_DB x0) \<noteq> ID user0 then (ShareCode 404, s1)
                    else
                      let user = (if IsAdmin reqUser \<and> rqCreatorName req = [] then the (sh_Creator x0) else user0);
                          x = updated_sharing req files user x0;
                          save = (\<lambda>x s. case UpdateSharing env x user s of (Some e, s') \<Rightarrow> (ShareCode 500, s') | (None, s') \<Rightarrow> (ShareOk x, s'))
                      in if rqNewID req \<noteq> [] \<and> rqNewID req \<noteq> rqID req then
                           if \<not> CanCustomizeShareID (Permission reqUser) then (ShareCode 403, s1)
                           else if \<not> validID (rqNewID req) then (ShareCode 400, s1)
                           else (case UpdateSharingId env x (rqNewID req) s1 of
                                   (Inl e, s2) \<Rightarrow> (ShareCode 500, s2)
                                 | (Inr x1, s2) \<Rightarrow> save x1 s2)
                         else save x s1)))"

text \<open>The answer to a request for a link of somebody else reads the message of an error that is not there.\<close>

definition handle_DeleteSharing :: "share_env \<Rightarrow> User \<Rightarrow> string \<Rightarrow> server \<Rightarrow> (int \<times> server) option" where
  "handle_DeleteSharing env user sid s =
     (case GetSharingById env sid False s of
        Inl e \<Rightarrow> Some (404, s)
      | Inr x \<Rightarrow>
          if \<not> IsAdmin user \<and> sh_CreatorId (sh_DB x) \<noteq> ID user then None
          else (case DeleteSharing env sid s of (Some e, s1) \<Rightarrow> Some (500, s1) | (None, s1) \<Rightarrow> Some (200, s1)))"

definition SetEnableSharing :: "share_env \<Rightarrow> bool \<Rightarrow> User \<Rightarrow> string \<Rightarrow> server \<Rightarrow> int \<times> server" where
  "SetEnableSharing env disable user sid s =
     (case own_sharing env sid user s of
        None \<Rightarrow> (404, s)
      | Some x \<Rightarrow>
          (case UpdateSharing_raw env ((sh_DB x)\<lparr>sh_Disabled := disable\<rparr>) s of (Some e, s1) \<Rightarrow> (500, s1) | (None, s1) \<Rightarrow> (200, s1)))"

definition handle_GetSharing :: "share_env \<Rightarrow> User \<Rightarrow> string \<Rightarrow> server \<Rightarrow> Sharing option" where
  "handle_GetSharing env user sid s =
     (case GetSharingById env sid False s of
        Inl e \<Rightarrow> None
      | Inr x \<Rightarrow> if \<not> IsAdmin user \<and> ID (the (sh_Creator x)) \<noteq> ID user then None else Some x)"

text \<open>The listing for owners; it panics when the creator of a row cannot be read.\<close>

definition ListSharings :: "share_env \<Rightarrow> User \<Rightarrow> int64 \<times> int64 \<Rightarrow> server \<Rightarrow> (share_error + (Sharing \<times> string) list \<times> nat) option" where
  "ListSharings env user req s =
     (let (page, perPage) = PageReq_Validate req
      in case (if IsAdmin user then GetSharings env page perPage s else GetSharingsByCreatorId env (ID user) page perPage s) of
        Inl e \<Rightarrow> Some (Inl e)
      | Inr (xs, total_n) \<Rightarrow>
          if list_ex (\<lambda>x. sh_Creator x = None) xs then None
          else Some (Inr (map (\<lambda>x. (x, Username (the (sh_Creator x)))) xs, total_n)))"

end
