(* ===== verification/Share_Props.thy ===== *)
theory Share_Props
  imports Share_Handlers Session_Props Fs_List
begin

text \<open>
  What shared links guarantee: visitors reach nothing outside the shared files, a link opens only while it is valid, only its owner or an
  administrator changes it, and what was created is what visitors get.
\<close>

section \<open>The invariant\<close>

definition clean_files :: "share_env \<Rightarrow> SharingDB \<Rightarrow> bool" where
  "clean_files env r \<longleftrightarrow> list_all (\<lambda>f. FixAndCleanPath f = f) (read_files env r)"

definition shares_ok :: "(string \<Rightarrow> string list option) \<Rightarrow> server \<Rightarrow> bool" where
  "shares_ok unmarshal s \<longleftrightarrow>
     sharingCache s = (\<lambda>_. None) \<and> distinct (map sh_ID (svSharings s)) \<and>
     (\<forall>r \<in> set (svSharings s). \<forall>fs. unmarshal (sh_FilesRaw r) = Some fs \<longrightarrow> list_all (\<lambda>f. FixAndCleanPath f = f) fs)"

text \<open>Reading back what was written gives the same list; the strings come out of a JSON request, so they are valid UTF-8.\<close>

definition json_ok :: "share_env \<Rightarrow> bool" where
  "json_ok env \<longleftrightarrow> (\<forall>xs raw. shMarshal env xs = Inr raw \<longrightarrow> shUnmarshal env raw = Some xs)"

text \<open>A step is a request of an owner, the count of a visit, whose row may have been read long before, or anything else that leaves the
  table alone but for dropping rows, such as deleting a user.  All environments read JSON in the same way.\<close>

inductive share_step :: "(string \<Rightarrow> string list option) \<Rightarrow> server \<Rightarrow> server \<Rightarrow> bool" for unmarshal where
  create: "json_ok env \<Longrightarrow> shUnmarshal env = unmarshal \<Longrightarrow> share_step unmarshal s (snd (handle_CreateSharing env validID u req s))"
| update: "json_ok env \<Longrightarrow> shUnmarshal env = unmarshal \<Longrightarrow> share_step unmarshal s (snd (handle_UpdateSharing env validID u req s))"
| delete: "shUnmarshal env = unmarshal \<Longrightarrow> handle_DeleteSharing env u sid s = Some (c, s') \<Longrightarrow> share_step unmarshal s s'"
| enable: "shUnmarshal env = unmarshal \<Longrightarrow> share_step unmarshal s (snd (SetEnableSharing env disable u sid s))"
| count: "shUnmarshal env = unmarshal \<Longrightarrow> clean_files env (sh_DB x) \<Longrightarrow> share_step unmarshal s (snd (countAccess env ip x s))"
| other: "sharingCache s' = sharingCache s \<Longrightarrow> svSharings s' = filter P (svSharings s) \<Longrightarrow> share_step unmarshal s s'"

definition share_start :: "server \<Rightarrow> bool" where
  "share_start s \<longleftrightarrow> sharingCache s = (\<lambda>_. None) \<and> svSharings s = []"

abbreviation clean_row :: "(string \<Rightarrow> string list option) \<Rightarrow> SharingDB \<Rightarrow> bool" where
  "clean_row unmarshal r \<equiv> \<forall>fs. unmarshal (sh_FilesRaw r) = Some fs \<longrightarrow> list_all (\<lambda>f. FixAndCleanPath f = f) fs"

lemma clean_files_row: "clean_files env r \<longleftrightarrow> clean_row (shUnmarshal env) r"
  by (auto simp: clean_files_def read_files_def split: option.split)



text \<open>Each write of the table keeps the invariant.\<close>

lemma share_insert_ok:
  assumes "shares_ok unm s" "clean_row unm r"
  shows "shares_ok unm (snd (share_insert env r s))"
  using assms by (auto simp: share_insert_def shares_ok_def set_insort_key list_ex_iff distinct_insort distinct_map inj_on_def
    split: option.split)

lemma db_UpdateSharing_ok:
  assumes "shares_ok unm s" "clean_row unm r"
  shows "shares_ok unm (snd (db_UpdateSharing env r s))"
proof (cases "list_ex (\<lambda>x. sh_ID x = sh_ID r) (svSharings s)")
  case True
  have same: "map sh_ID (map (\<lambda>x. if sh_ID x = sh_ID r then r else x) (svSharings s)) = map sh_ID (svSharings s)" by simp
  have "distinct (map sh_ID (map (\<lambda>x. if sh_ID x = sh_ID r then r else x) (svSharings s)))" using assms(1) unfolding same by (simp add: shares_ok_def)
  with True assms show ?thesis by (auto simp: db_UpdateSharing_def shares_ok_def split: option.split)
qed (use assms share_insert_ok in \<open>simp add: db_UpdateSharing_def\<close>)

lemma shares_ok_del [simp]: "shares_ok unm s \<Longrightarrow> shares_ok unm (share_cache_del i s)"
  by (simp add: shares_ok_def share_cache_del_def fun_eq_iff)

lemma UpdateSharing_raw_ok: "shares_ok unm s \<Longrightarrow> clean_row unm r \<Longrightarrow> shares_ok unm (snd (UpdateSharing_raw env r s))"
  unfolding UpdateSharing_raw_def by (rule db_UpdateSharing_ok) simp_all

lemma db_UpdateSharingId_ok:
  assumes ok: "shares_ok unm s"
  shows "shares_ok unm (snd (db_UpdateSharingId env old new s))"
proof (cases "find (\<lambda>x. sh_ID x = old) (svSharings s)")
  case (Some r)
  then have r: "r \<in> set (svSharings s)" by (auto simp: find_Some_iff)
  let ?rest = "filter (\<lambda>x. sh_ID x \<noteq> old) (svSharings s)"
  have "shares_ok unm (s\<lparr>svSharings := insort_key sh_ID (r\<lparr>sh_ID := new\<rparr>) ?rest\<rparr>)"
    if "\<not> (new \<noteq> old \<and> list_ex (\<lambda>x. sh_ID x = new) (svSharings s))"
    using ok r that by (auto simp: shares_ok_def set_insort_key list_ex_iff distinct_insort distinct_map inj_on_def)
  with ok Some show ?thesis by (auto simp: db_UpdateSharingId_def split: option.split)
qed (use ok in \<open>auto simp: db_UpdateSharingId_def split: option.split\<close>)

lemma db_DeleteSharingById_ok: "shares_ok unm s \<Longrightarrow> shares_ok unm (snd (db_DeleteSharingById env i s))"
  by (auto simp: db_DeleteSharingById_def shares_ok_def distinct_map_filter split: option.split)

lemma db_CreateSharing_ok:
  assumes "shares_ok unm s" "clean_row unm r"
  shows "shares_ok unm (snd (db_CreateSharing env r s))"
proof -
  have "shares_ok unm (snd (share_insert (shBase env) (r\<lparr>sh_ID := i\<rparr>) s))" for i
    by (rule share_insert_ok [OF assms(1)]) (use assms(2) in simp)
  moreover have "shares_ok unm (snd (share_insert (shBase env) r s))" by (rule share_insert_ok [OF assms])
  ultimately show ?thesis
    using assms(1) unfolding db_CreateSharing_def by (simp add: case_prod_beta split: option.split sum.split)
qed

lemma GetSharingById_row:
  assumes "shares_ok unm s" "GetSharingById env i refresh s = Inr x"
  shows "sh_DB x \<in> set (svSharings s) \<and> (i = [] \<or> sh_ID (sh_DB x) = i) \<and> sh_Files x = read_files env (sh_DB x) \<and>
    (\<exists>c \<in> set (svUsers s). sh_Creator x = Some c \<and> ID c = sh_CreatorId (sh_DB x))"
proof -
  from assms obtain r where r: "db_GetSharingById (shBase env) i s = Inr r" and x: "(case db_GetUserById (shBase env) (sh_CreatorId r) s of
      Inl e \<Rightarrow> Inl (ShareUser e) | Inr c \<Rightarrow> Inr \<lparr>sh_DB = r, sh_Files = read_files env r, sh_Creator = Some c\<rparr>) = Inr x"
    by (auto simp: GetSharingById_def shares_ok_def split: sum.splits if_splits)
  obtain c where c: "db_GetUserById (shBase env) (sh_CreatorId r) s = Inr c" "x = \<lparr>sh_DB = r, sh_Files = read_files env r, sh_Creator = Some c\<rparr>"
    using x by (auto split: sum.splits)
  from r have "r \<in> set (svSharings s)" "i = [] \<or> sh_ID r = i"
    by (auto simp: db_GetSharingById_def share_find_def find_Some_iff split: option.splits)
  with db_GetUserByIdD [OF c(1)] c(2) show ?thesis by auto
qed

lemma share_creator_same:
  "share_creator env req u a s = (r, s') \<Longrightarrow> svSharings s' = svSharings s \<and> sharingCache s' = sharingCache s \<and> svUsers s' = svUsers s"
  by (auto simp: share_creator_def GetUserByName_def GetUser_def GetUserByName_fill_def on_svCaches_def Let_def
    split: if_splits prod.splits sum.splits option.splits)

lemma shares_ok_cong: "svSharings s' = svSharings s \<Longrightarrow> sharingCache s' = sharingCache s \<Longrightarrow> shares_ok unm s' = shares_ok unm s"
  by (simp add: shares_ok_def)

lemma share_creator_ok [simp]: "shares_ok unm (snd (share_creator env req u a s)) = shares_ok unm s"
  using share_creator_same [of env req u a s "fst (share_creator env req u a s)" "snd (share_creator env req u a s)"] by (simp add: shares_ok_def)

lemma CreateSharing_ok: "shares_ok (shUnmarshal env) s \<Longrightarrow> json_ok env \<Longrightarrow> shares_ok (shUnmarshal env) (snd (CreateSharing env x c s))"
  by (auto simp: CreateSharing_def json_ok_def list_all_iff intro!: db_CreateSharing_ok split: sum.split)

lemma UpdateSharing_ok: "shares_ok (shUnmarshal env) s \<Longrightarrow> json_ok env \<Longrightarrow> shares_ok (shUnmarshal env) (snd (UpdateSharing env x c s))"
  by (auto simp: UpdateSharing_def json_ok_def list_all_iff intro!: UpdateSharing_raw_ok split: sum.split)

lemma UpdateSharingId_ok: "shares_ok unm s \<Longrightarrow> shares_ok unm (snd (UpdateSharingId env x new s))"
  using db_UpdateSharingId_ok [of unm "share_cache_del (sh_ID (sh_DB x)) s" "shBase env" "sh_ID (sh_DB x)" new]
  by (auto simp: UpdateSharingId_def split: prod.split option.split)

lemma handle_CreateSharing_ok:
  assumes ok: "shares_ok (shUnmarshal env) s" and js: "json_ok env"
  shows "shares_ok (shUnmarshal env) (snd (handle_CreateSharing env v u req s))"
  using ok js by (simp add: handle_CreateSharing_def Let_def case_prod_beta CreateSharing_ok split: sum.split)

lemma handle_UpdateSharing_ok:
  assumes ok: "shares_ok (shUnmarshal env) s" and js: "json_ok env"
  shows "shares_ok (shUnmarshal env) (snd (handle_UpdateSharing env v u req s))"
  using ok js by (simp add: handle_UpdateSharing_def Let_def case_prod_beta UpdateSharing_ok UpdateSharingId_ok split: sum.split option.split)

lemma handle_DeleteSharing_ok:
  assumes "shares_ok unm s" "handle_DeleteSharing env u sid s = Some (c, s')"
  shows "shares_ok unm s'"
  using assms(2,1) db_DeleteSharingById_ok [OF shares_ok_del [OF assms(1)], of "shBase env" sid sid]
  by (auto simp: handle_DeleteSharing_def DeleteSharing_def split: sum.splits if_splits prod.splits option.splits)

lemma SetEnableSharing_ok:
  assumes ok: "shares_ok (shUnmarshal env) s"
  shows "shares_ok (shUnmarshal env) (snd (SetEnableSharing env d u sid s))"
proof (cases "own_sharing env sid u s")
  case (Some x)
  then have "GetSharingById env sid False s = Inr x" by (auto simp: own_sharing_def split: sum.splits if_splits)
  from GetSharingById_row [OF ok this] ok have "clean_row (shUnmarshal env) ((sh_DB x)\<lparr>sh_Disabled := d\<rparr>)" by (auto simp: shares_ok_def)
  from UpdateSharing_raw_ok [OF ok this, of env] Some show ?thesis by (simp add: SetEnableSharing_def case_prod_beta split: option.split)
qed (use ok in \<open>simp add: SetEnableSharing_def\<close>)

lemma countAccess_ok:
  assumes ok: "shares_ok (shUnmarshal env) s" and x: "clean_files env (sh_DB x)"
  shows "shares_ok (shUnmarshal env) (snd (countAccess env ip x s))"
proof -
  have "shares_ok (shUnmarshal env) (s\<lparr>AccessCache := a\<rparr>)" for a using ok by (simp add: shares_ok_def)
  moreover have "clean_row (shUnmarshal env) ((sh_DB x)\<lparr>sh_Accessed := n\<rparr>)" for n using x by (simp add: clean_files_row)
  ultimately show ?thesis using ok by (auto simp: countAccess_def Let_def intro!: UpdateSharing_raw_ok)
qed

interpretation share_machine: invariant_machine share_start "share_step unm" "shares_ok unm" for unm
proof
  show "shares_ok unm s" if "share_start s" for s using that by (simp add: share_start_def shares_ok_def)
  show "shares_ok unm t" if ok: "shares_ok unm s" and "share_step unm s t" for s t
    using that(2)
  proof cases
    case (create env v u req)
    with handle_CreateSharing_ok [of env s] ok show ?thesis by simp
  next
    case (update env v u req)
    with handle_UpdateSharing_ok [of env s] ok show ?thesis by simp
  next
    case (delete env u sid c)
    with handle_DeleteSharing_ok [OF ok] show ?thesis by simp
  next
    case (enable env d u sid)
    with SetEnableSharing_ok [of env s] ok show ?thesis by simp
  next
    case (count env x ip)
    with countAccess_ok [of env s] ok show ?thesis by simp
  next
    case (other P)
    with ok show ?thesis by (auto simp: shares_ok_def distinct_map_filter)
  qed
qed

text \<open>Deleting a user is one of the other steps.\<close>

lemma DeleteUserById_share_step: "share_step unm s (snd (DeleteUserById env i s))"
proof -
  have all: "\<exists>P. xs = filter P xs" for xs :: "SharingDB list" by (rule exI [of _ "\<lambda>_. True"]) simp
  have "\<exists>P. svSharings (snd (DeleteUserById env i s)) = filter P (svSharings s)"
    by (auto simp: DeleteUserById_def DeleteUser_begin_def db_DeleteSharingsByCreatorId_def db_DeleteUserById_def on_svCaches_def all
      split: sum.split option.split)
  moreover have "sharingCache (snd (DeleteUserById env i s)) = sharingCache s"
    by (auto simp: DeleteUserById_def DeleteUser_begin_def db_DeleteSharingsByCreatorId_def db_DeleteUserById_def on_svCaches_def
      split: sum.split option.split)
  ultimately show ?thesis by (auto intro: other)
qed

section \<open>Where a path of a link leads\<close>

lemma child_rest:
  assumes "fix_comps p = c # cs"
  shows "Cut (tl (FixAndCleanPath p)) CHR ''/'' = (c, (if cs = [] then [] else tl (path_of cs)), cs \<noteq> [])"
proof -
  have v: "valid_names (c # cs)" using fix_comps_valid [of p] assms by simp
  then have c: "slash \<notin> set c" "valid_names cs" by (auto simp: valid_names_def valid_name_def)
  have "tl (FixAndCleanPath p) = c @ (if cs = [] then [] else path_of cs)"
    using v unfolding FixAndCleanPath_eq assms by (simp add: path_of_def Join_Cons)
  then show ?thesis using c by (cases cs) (auto simp: Cut_def path_of_def Join_Cons takeWhile_append dropWhile_append)
qed

lemma find_in: "find P xs = Some y \<Longrightarrow> y \<in> set xs"
  by (auto simp: find_Some_iff)

lemma rest_comps: "valid_names cs \<Longrightarrow> comps_of (if cs = [] then [] else tl (path_of cs)) = cs"
  using comps_of_path_of [of cs] by (auto simp: comps_of_def path_of_def)

lemma clean_path: "FixAndCleanPath f = f \<Longrightarrow> f = path_of (fix_comps f)"
  using FixAndCleanPath_eq [of f] by simp

text \<open>A cleaned path of a link leads to a place at or below one of its files and, unless the creator is an administrator, of the
  creator's base path.\<close>

lemma unwrap_below:
  assumes clean: "list_all (\<lambda>f. FixAndCleanPath f = f) (sh_Files x)" and u: "GetSharingUnwrapPath x (FixAndCleanPath p) = Inr q"
  shows "\<exists>f \<in> set (sh_Files x). IsSubPath f q \<and> FixAndCleanPath q = q \<and> (\<forall>c. sh_Creator x = Some c \<longrightarrow> IsAdmin c \<or> IsSubPath (BasePath c) q)"
proof -
  have files: "sh_Files x \<noteq> []" using u by (auto simp: GetSharingUnwrapPath_def)
  have base: "IsAdmin c \<or> IsSubPath (BasePath c) f" if "sh_Creator x = Some c" "f \<in> set (sh_Files x)" for c f
    using u that by (auto simp: GetSharingUnwrapPath_def find_None_iff split: if_splits option.splits)
  have place: "\<exists>f \<in> set (sh_Files x). IsSubPath f q \<and> FixAndCleanPath q = q \<and> (\<forall>c. sh_Creator x = Some c \<longrightarrow> IsAdmin c \<or> IsSubPath (BasePath c) q)"
    if f: "f \<in> set (sh_Files x)" and q: "q = path_of (fix_comps f @ cs)" and cs: "fix_comps (path_of (fix_comps f @ cs)) = fix_comps f @ cs" for f cs
  proof (intro bexI [OF _ f] conjI allI impI)
    show "IsSubPath f q" by (simp add: IsSubPath_iff q cs)
    show "FixAndCleanPath q = q" by (simp add: FixAndCleanPath_eq q cs)
    show "IsAdmin c \<or> IsSubPath (BasePath c) q" if "sh_Creator x = Some c" for c
      using base [OF that f] by (auto simp: IsSubPath_iff q cs)
  qed
  show ?thesis
  proof (cases "length (sh_Files x) = 1")
    case True
    then obtain f where f: "sh_Files x = [f]" by (auto simp: length_Suc_conv)
    with u clean have "q = PathJoin f (FixAndCleanPath p)" by (auto simp: GetSharingUnwrapPath_def split: option.splits)
    also have "\<dots> = path_of (fix_comps f @ fix_comps p)"
      using clean f clean_path [of f] FixAndCleanPath_eq [of p] PathJoin_path_of [of "fix_comps f" "fix_comps p"] by simp
    finally show ?thesis using f by (intro place [of f "fix_comps p"]) auto
  next
    case False
    obtain c cs where p: "fix_comps p = c # cs"
      using u False files by (cases "fix_comps p") (auto simp: GetSharingUnwrapPath_def FixAndCleanPath_eq path_of_def split: option.splits if_splits)
    have cut: "Cut (tl (FixAndCleanPath (FixAndCleanPath p))) CHR ''/'' = (c, (if cs = [] then [] else tl (path_of cs)), cs \<noteq> [])"
      using child_rest [of "FixAndCleanPath p" c cs] p by simp
    then obtain f where f: "f \<in> set (sh_Files x)" "q = PathJoin f (if cs = [] then [] else tl (path_of cs))"
      using u False files by (auto simp: GetSharingUnwrapPath_def Let_def dest: find_in split: option.splits if_splits)
    have v: "valid_names cs" using fix_comps_valid [of p] p by simp
    have "q = path_of (fix_comps f @ cs)"
      using f clean clean_path [of f] v PathJoin_comps [of "fix_comps f" "if cs = [] then [] else tl (path_of cs)"] rest_comps [OF v]
      by (auto simp: list_all_iff)
    moreover have "fix_comps (path_of (fix_comps f @ cs)) = fix_comps f @ cs"
      by (rule fix_comps_path_of) (use v fix_comps_no_backslash [of _ f] fix_comps_no_backslash [of _ p] p in auto)
    ultimately show ?thesis by (rule place [OF f(1)])
  qed
qed

section \<open>What visitors can reach\<close>

lemma GetStorageAndActualPath_map: "GetStorageAndActualPath m q = (r, m') \<Longrightarrow> storagesMap m' = storagesMap m"
  by (auto simp: GetStorageAndActualPath_def GetBalancedStorage_eq Let_def split: prod.splits option.splits list.splits if_splits)

text \<open>Two worlds of storages that differ only outside the files.\<close>

definition agree_below :: "storages \<Rightarrow> string list \<Rightarrow> 'st share_ops \<Rightarrow> 'st share_ops \<Rightarrow> bool" where
  "agree_below ss files ops ops' \<longleftrightarrow>
     soSorting ops = soSorting ops' \<and> soApiUrl ops = soApiUrl ops' \<and>
     (\<forall>m m' q d a. storagesMap m = ss \<longrightarrow> FixAndCleanPath q = q \<longrightarrow> (\<exists>f \<in> set files. IsSubPath f q) \<longrightarrow> GetStorageAndActualPath m q = (Inr (d, a), m') \<longrightarrow>
        soGet ops d a = soGet ops' d a \<and> soList ops d a = soList ops' d a \<and> soLink ops d a = soLink ops' d a)"

lemma agreeD:
  assumes "agree_below ss files ops ops'" "storagesMap m = ss" "FixAndCleanPath q = q" "f \<in> set files" "IsSubPath f q"
    "GetStorageAndActualPath m q = (Inr (d, a), m')"
  shows "soGet ops d a = soGet ops' d a" "soList ops d a = soList ops' d a" "soLink ops d a = soLink ops' d a"
  using assms unfolding agree_below_def by blast+

lemma get_at_agree:
  assumes "agree_below (storagesMap m) files ops ops'" "FixAndCleanPath q = q" "f \<in> set files" "IsSubPath f q"
  shows "get_at ops q m st = get_at ops' q m st"
proof (cases "GetStorageAndActualPath m q")
  case (Pair r m')
  with agreeD [OF assms(1) refl assms(2-4)] show ?thesis by (auto simp: get_at_def split: sum.split prod.split)
qed

lemma get_at_map: "get_at ops q m st = (r, m', st') \<Longrightarrow> storagesMap m' = storagesMap m"
  by (auto simp: get_at_def split: prod.splits sum.splits dest: GetStorageAndActualPath_map)

lemma list_at_agree:
  assumes "agree_below (storagesMap m) files ops ops'" "FixAndCleanPath q = q" "f \<in> set files" "IsSubPath f q"
  shows "list_at ops args q m st = list_at ops' args q m st"
proof (cases "GetStorageAndActualPath m q")
  case (Pair r m')
  with agreeD [OF assms(1) refl assms(2-4)] show ?thesis by (auto simp: list_at_def split: option.split sum.split prod.split)
qed

lemma IsSubPath_refl: "IsSubPath f f"
  by (simp add: IsSubPath_iff)

lemma root_entries_agree:
  assumes "agree_below (storagesMap m) files ops ops'" "set fs \<subseteq> set files" "list_all (\<lambda>f. FixAndCleanPath f = f) fs"
  shows "root_entries ops fs m st = root_entries ops' fs m st"
  using assms
proof (induction fs arbitrary: m st)
  case (Cons f fs)
  have g: "get_at ops f m st = get_at ops' f m st"
    using Cons.prems by (intro get_at_agree [OF _ _ _ IsSubPath_refl]) auto
  obtain r m1 st1 where r: "get_at ops' f m st = (r, m1, st1)" by (metis prod_cases3)
  have m1: "storagesMap m1 = storagesMap m" by (rule get_at_map [OF r])
  have "root_entries ops fs m st = root_entries ops' fs m st" "root_entries ops fs m1 st1 = root_entries ops' fs m1 st1"
    using Cons.prems m1 by (auto intro!: Cons.IH)
  then show ?case by (simp add: g r split: option.split sum.split)
qed simp

text \<open>The files of the links that an identifier can mean.\<close>

definition shared_files :: "share_env \<Rightarrow> string \<Rightarrow> server \<Rightarrow> string list" where
  "shared_files env sid s = concat (map (read_files env) (filter (\<lambda>r. sid = [] \<or> sh_ID r = sid) (svSharings s)))"

lemma sharing_enter_files:
  assumes ok: "shares_ok (shUnmarshal env) s" and e: "sharing_enter env sid refresh pwd s = Inr x"
  shows "set (sh_Files x) \<subseteq> set (shared_files env sid s) \<and> list_all (\<lambda>f. FixAndCleanPath f = f) (sh_Files x)"
proof -
  have g: "GetSharingById env sid refresh s = Inr x" using e by (auto simp: sharing_enter_def split: sum.splits if_splits)
  note r = GetSharingById_row [OF ok g]
  have "clean_files env (sh_DB x)" using r ok by (auto simp: clean_files_row shares_ok_def)
  with r show ?thesis by (auto simp: shared_files_def clean_files_def)
qed

lemma visits_agree:
  assumes ok: "shares_ok (shUnmarshal env) s" and ag: "agree_below (storagesMap m) (shared_files env sid s) ops ops'"
  shows "sharing_get env ops sid p refresh pwd s m st = sharing_get env ops' sid p refresh pwd s m st"
    "sharing_list env ops sid p refresh pwd s m st = sharing_list env ops' sid p refresh pwd s m st"
    "sharing_link env ops sid p refresh pwd args s m st = sharing_link env ops' sid p refresh pwd args s m st"
proof -
  have same: "soSorting ops = soSorting ops'" "soApiUrl ops = soApiUrl ops'" using ag by (auto simp: agree_below_def)
  then have sorted: "share_sorted ops = share_sorted ops'" by (simp add: share_sorted_def fun_eq_iff)
  have x: "get_at ops q m st = get_at ops' q m st" "list_at ops largs q m st = list_at ops' largs q m st"
      "GetStorageAndActualPath m q = (Inr (d, a), m') \<Longrightarrow> soLink ops d a = soLink ops' d a"
    if e: "sharing_enter env sid refresh pwd s = Inr x" and u: "GetSharingUnwrapPath x (FixAndCleanPath p) = Inr q" for x q largs d a m'
  proof -
    from sharing_enter_files [OF ok e] unwrap_below [OF _ u] obtain f where "f \<in> set (shared_files env sid s)" "IsSubPath f q" "FixAndCleanPath q = q" by blast
    from get_at_agree [OF ag this(3,1,2)] list_at_agree [OF ag this(3,1,2)] agreeD(3) [OF ag refl this(3,1,2)]
    show "get_at ops q m st = get_at ops' q m st" "list_at ops largs q m st = list_at ops' largs q m st"
      "GetStorageAndActualPath m q = (Inr (d, a), m') \<Longrightarrow> soLink ops d a = soLink ops' d a" by blast+
  qed
  show "sharing_get env ops sid p refresh pwd s m st = sharing_get env ops' sid p refresh pwd s m st"
    unfolding sharing_get_def by (auto simp: Let_def x split: sum.split option.split)
  show "sharing_list env ops sid p refresh pwd s m st = sharing_list env ops' sid p refresh pwd s m st"
  proof (cases "sharing_enter env sid refresh pwd s")
    case (Inr y)
    have "root_entries ops (sh_Files y) m st = root_entries ops' (sh_Files y) m st"
      using sharing_enter_files [OF ok Inr] ag by (intro root_entries_agree) auto
    with Inr show ?thesis unfolding sharing_list_def by (auto simp: Let_def x sorted split: sum.split)
  qed (simp add: sharing_list_def)
  show "sharing_link env ops sid p refresh pwd args s m st = sharing_link env ops' sid p refresh pwd args s m st"
    unfolding sharing_link_def by (auto simp: Let_def x same split: sum.split prod.split option.split)
qed

text \<open>
  What visitors can send: a request for an object, for a listing or for a download.  The link and the path are the parts of the request path, or
  parameters of the route.  The decision to proxy a download and the address of the proxy depend on the storage alone.
\<close>

datatype visit_request =
    VisitGet string string
  | VisitListing string string bool "int64 \<times> int64"
  | VisitDown string string string LinkArgs bool

datatype visit_reply = VisitReply visit_answer | DownReply down_answer

definition serve_visit ::
  "share_env \<Rightarrow> 'st share_ops \<Rightarrow> (Driver \<Rightarrow> string \<Rightarrow> bool) \<Rightarrow> (Driver \<Rightarrow> string \<Rightarrow> string) \<Rightarrow> string \<Rightarrow> visit_request \<Rightarrow>
   server \<Rightarrow> mount_state \<Rightarrow> 'st \<Rightarrow> (visit_reply \<times> server \<times> mount_state \<times> 'st) option" where
  "serve_visit env ops shouldProxy proxyURL ip req s m st =
     (case req of
        VisitGet path pwd \<Rightarrow> map_option (map_prod VisitReply id) (SharingGet env ops ip path pwd s m st)
      | VisitListing path pwd refresh page \<Rightarrow> map_option (map_prod VisitReply id) (SharingList env ops ip path pwd refresh page s m st)
      | VisitDown sid path pwd args noProxyURL \<Rightarrow>
          map_option (map_prod DownReply id) (SharingDown env ops shouldProxy proxyURL noProxyURL args ip sid path pwd s m st))"

primrec visit_target :: "visit_request \<Rightarrow> string \<times> string \<times> string" where
  "visit_target (VisitGet path pwd) = (fst (split_share_path path), snd (split_share_path path), pwd)"
| "visit_target (VisitListing path pwd refresh page) = (fst (split_share_path path), snd (split_share_path path), pwd)"
| "visit_target (VisitDown sid path pwd args noProxyURL) = (sid, path, pwd)"

definition turned_away :: "visit_reply \<Rightarrow> bool" where
  "turned_away r \<longleftrightarrow> (\<exists>c. r = VisitReply (VisitCode c)) \<or> (\<exists>c. r = DownReply (DownCode c))"

lemma SharingDown_agree:
  assumes ok: "shares_ok (shUnmarshal env) s" and ag: "agree_below (storagesMap m) (shared_files env sid s) ops ops'"
  shows "SharingDown env ops shouldProxy proxyURL noProxyURL args ip sid p pwd s m st = SharingDown env ops' shouldProxy proxyURL noProxyURL args ip sid p pwd s m st"
proof -
  have "soLink ops d a = soLink ops' d a"
    if g: "GetSharingById env sid False s = Inr x" "Valid (svNow (shBase env)) x" "Verify x pwd" and u: "GetSharingUnwrapPath x (FixAndCleanPath p) = Inr q"
      and r: "GetStorageAndActualPath m q = (Inr (d, a), m')" for x q d a m'
  proof -
    have "sharing_enter env sid False pwd s = Inr x" using g by (simp add: sharing_enter_def)
    from sharing_enter_files [OF ok this] unwrap_below [OF _ u] obtain f where "f \<in> set (shared_files env sid s)" "IsSubPath f q" "FixAndCleanPath q = q" by blast
    from agreeD(3) [OF ag refl this(3,1,2) r] show ?thesis .
  qed
  then show ?thesis unfolding SharingDown_def Let_def by (auto split: sum.split prod.split)
qed

lemma serve_visit_agree:
  assumes ok: "shares_ok (shUnmarshal env) s" and ag: "agree_below (storagesMap m) (shared_files env (fst (visit_target req)) s) ops ops'"
  shows "serve_visit env ops shouldProxy proxyURL ip req s m st = serve_visit env ops' shouldProxy proxyURL ip req s m st"
proof -
  have api: "soApiUrl ops = soApiUrl ops'" using ag by (simp add: agree_below_def)
  show ?thesis
  proof (cases req)
    case (VisitGet path pwd)
    then have a: "agree_below (storagesMap m) (shared_files env (fst (split_share_path path)) s) ops ops'" using ag by simp
    have "SharingGet env ops ip path pwd s m st = SharingGet env ops' ip path pwd s m st"
      unfolding SharingGet_def case_prod_beta Let_def visits_agree(1) [OF ok a] api by (rule refl)
    then show ?thesis by (simp add: VisitGet serve_visit_def)
  next
    case (VisitListing path pwd refresh page)
    then have a: "agree_below (storagesMap m) (shared_files env (fst (split_share_path path)) s) ops ops'" using ag by simp
    show ?thesis unfolding VisitListing serve_visit_def SharingList_def by (simp add: visits_agree(2) [OF ok a] case_prod_beta)
  next
    case (VisitDown sid path pwd args noProxyURL)
    then show ?thesis using SharingDown_agree [OF ok, of m sid ops ops'] ag by (simp add: serve_visit_def)
  qed
qed

section \<open>Samples\<close>

definition sample_share_env :: share_env where
  "sample_share_env = \<lparr>shBase = aBase sample_auth,
     shMarshal = (\<lambda>xs. if xs = [] \<or> list_ex (\<lambda>x. CHR ''|'' \<in> set x) xs then Inl [] else Inr (Join xs ''|'')),
     shUnmarshal = (\<lambda>raw. Some (Split CHR ''|'' raw)), shRandom = ''abcdefgh'', shRandomChar = (\<lambda>_. CHR ''x'')\<rparr>"

lemma sample_json_ok: "json_ok sample_share_env"
  by (auto simp: json_ok_def sample_share_env_def list_ex_iff intro!: Split_Join split: if_splits)

definition sample_share_req :: UpdateSharingReq where
  "sample_share_req = \<lparr>rqFiles = [''pub'', ''/doc/''], rqExpires = None, rqPwd = ''code'', rqMaxAccessed = 0, rqDisabled = False, rqRemark = [], rqReadme = [],
     rqHeader = [], rqOrderBy = [], rqOrderDirection = [], rqExtractFolder = [], rqCreatorName = [], rqAccessed = 0, rqID = ''abc'', rqNewID = []\<rparr>"

definition sample_admin :: User where
  "sample_admin = sample_row 1 ''admin'' 2"

definition sample_owner :: User where
  "sample_owner = (sample_row 3 ''u'' 0)\<lparr>Permission := -1\<rparr>"

definition sample_share_start :: server where
  "sample_share_start = sample_server\<lparr>svUsers := [sample_admin, sample_row 2 ''guest'' 1, sample_owner]\<rparr>"

definition sample_shared :: server where
  "sample_shared = snd (handle_CreateSharing sample_share_env (\<lambda>_. True) sample_owner sample_share_req sample_share_start)"

lemma sample_shared_reachable: "reachable share_start (share_step (shUnmarshal sample_share_env)) sample_shared"
proof -
  have "share_start sample_share_start" by (simp add: share_start_def sample_share_start_def sample_server_def)
  then have "reachable share_start (share_step (shUnmarshal sample_share_env)) sample_share_start" by (rule reachable_start)
  then show ?thesis unfolding sample_shared_def by (rule reachable_step) (rule share_step.create [OF sample_json_ok refl])
qed

definition sample_share_row :: SharingDB where
  "sample_share_row = \<lparr>sh_ID = ''abc'', sh_FilesRaw = ''/pub|/doc'', sh_Expires = None, sh_Pwd = ''code'', sh_Accessed = 0, sh_MaxAccessed = 0, sh_CreatorId = 3,
     sh_Disabled = False, sh_Remark = [], sh_Readme = [], sh_Header = [], sh_OrderBy = [], sh_OrderDirection = [], sh_ExtractFolder = []\<rparr>"

lemma sample_shared_row: "svSharings sample_shared = [sample_share_row]"
  by code_simp

definition sample_disk :: mount_state where
  "sample_disk = \<lparr>storagesMap = [(''/'', sample_driver 1 ''/'')], balanceMap = (\<lambda>_. None)\<rparr>"

definition sample_share_link :: Link where
  "sample_share_link = \<lparr>lURL = ''http://h/f'', lHeader = [], lRangeReader = None, lExpiration = None, lConcurrency = 0, lPartSize = 0, lContentLength = 5,
     lMultiSource = [], lClosers = 0, lRequireReference = False\<rparr>"

definition sample_link_args :: LinkArgs where
  "sample_link_args = \<lparr>linkIP = [], linkHeader = [], linkType = [], linkRedirect = False\<rparr>"

text \<open>A disk with a file \<open>/pub/f\<close> and, if told so, a file \<open>/secret\<close>.\<close>

definition sample_ops :: "bool \<Rightarrow> nat share_ops" where
  "sample_ops b = \<lparr>soGet = (\<lambda>d a st. (if a = ''/pub/f'' \<or> (b \<and> a = ''/secret'') then Inr (sample_file (Base a)) else Inl (ObjectNotFound), Suc st)),
     soList = (\<lambda>d a args st. (Inr (if a = ''/pub'' then [sample_file ''f''] else []), Suc st)),
     soLink = (\<lambda>d a args st. Some (if a = ''/pub/f'' \<or> (b \<and> a = ''/secret'') then Inr (sample_share_link, sample_file (Base a)) else Inl ObjectNotFound, Suc st)),
     soSorting = sample_sorting, soApiUrl = []\<rparr>"


lemma sample_disk_ok: "mounts_ok (storagesMap sample_disk)"
  by (simp add: mounts_ok_def cleaned_mount_def sample_disk_def sample_driver_def, code_simp)

lemma sample_disk_route:
  assumes m: "storagesMap m = storagesMap sample_disk" and q: "FixAndCleanPath q = q" "GetStorageAndActualPath m q = (Inr (d, a), m')"
  shows "GetFullPath ''/'' a = q"
proof -
  have mount: "drv_mount d = ''/''" and "GetFullPath (drv_mount d) a = FixAndCleanPath q"
    using route_spec [of m q] sample_disk_ok m q by (auto simp: sample_disk_def sample_driver_def mounts_ok_def)
  then show ?thesis using q by simp
qed

lemma sample_ops_agree: "agree_below (storagesMap sample_disk) [''/pub'', ''/doc''] (sample_ops b) (sample_ops b')"
proof -
  have no: "a \<noteq> ''/secret''" if "\<exists>f \<in> set [''/pub'', ''/doc'']. IsSubPath f q" "GetFullPath ''/'' a = q" for q a :: string
  proof
    assume "a = ''/secret''"
    moreover have "GetFullPath ''/'' ''/secret'' = ''/secret''" "\<not> IsSubPath ''/pub'' ''/secret''" "\<not> IsSubPath ''/doc'' ''/secret''" by code_simp+
    ultimately show False using that by auto
  qed
  have "a \<noteq> ''/secret''" if "storagesMap m = storagesMap sample_disk" "FixAndCleanPath q = q" "\<exists>f \<in> set [''/pub'', ''/doc'']. IsSubPath f q"
    "GetStorageAndActualPath m q = (Inr (d, a), m')" for m q d a m'
    by (rule no [OF that(3) sample_disk_route [OF that(1,2,4)]])
  then show ?thesis unfolding agree_below_def by (simp add: sample_ops_def del: set_simps bex_simps)
qed

section \<open>Properties\<close>

text \<open>C16: In every state of the links that owners, administrators and visitors can reach, the answer to a visitor's request for an object, a
  listing or a download through a link (\<open>SharingGet\<close>, \<open>SharingList\<close>, \<open>SharingDown\<close>), for every path and every code, and the state it leaves behind depend on nothing outside
  the files of that link: two worlds of storages that answer alike at and below these files give the same.\<close>

theorem visitors_reach_only_shared:
  assumes "reachable share_start (share_step (shUnmarshal env)) s"
    "agree_below (storagesMap m) (shared_files env (fst (visit_target req)) s) ops ops'"
  shows "serve_visit env ops shouldProxy proxyURL ip req s m st = serve_visit env ops' shouldProxy proxyURL ip req s m st"
  by (rule serve_visit_agree [OF share_machine.reachable_inv [OF assms(1)] assms(2)])

theorem visitors_reach_only_shared_witness:
  "map_option fst (serve_visit sample_share_env (sample_ops True) (\<lambda>_ _. False) (\<lambda>_ _. []) ''1'' (VisitGet ''/abc/pub/../secret'' ''code'') sample_shared sample_disk 0) =
     Some (VisitReply (VisitCode 500)) \<and>
   map_option fst (serve_visit sample_share_env (sample_ops True) (\<lambda>_ _. False) (\<lambda>_ _. []) ''1'' (VisitDown ''abc'' ''/pub/f'' ''code'' sample_link_args False) sample_shared sample_disk 0) =
     map_option fst (serve_visit sample_share_env (sample_ops False) (\<lambda>_ _. False) (\<lambda>_ _. []) ''1'' (VisitDown ''abc'' ''/pub/f'' ''code'' sample_link_args False) sample_shared sample_disk 0) \<and>
   map_option fst (serve_visit sample_share_env (sample_ops False) (\<lambda>_ _. False) (\<lambda>_ _. []) ''1'' (VisitDown ''abc'' ''/pub/f'' ''code'' sample_link_args False) sample_shared sample_disk 0) =
     Some (DownReply (DownRedirect sample_share_link))"
proof -
  let ?r = "VisitDown ''abc'' ''/pub/f'' ''code'' sample_link_args False"
  have "shared_files sample_share_env ''abc'' sample_shared = [''/pub'', ''/doc'']"
    unfolding shared_files_def sample_shared_row by code_simp
  then have "agree_below (storagesMap sample_disk) (shared_files sample_share_env (fst (visit_target ?r)) sample_shared) (sample_ops True) (sample_ops False)"
    by (simp add: sample_ops_agree)
  note same = visitors_reach_only_shared [OF sample_shared_reachable this, of "\<lambda>_ _. False" "\<lambda>_ _. []" "''1''" 0]
  have "map_option fst (serve_visit sample_share_env (sample_ops True) (\<lambda>_ _. False) (\<lambda>_ _. []) ''1'' (VisitGet ''/abc/pub/../secret'' ''code'') sample_shared sample_disk 0) =
      Some (VisitReply (VisitCode 500))"
    "map_option fst (serve_visit sample_share_env (sample_ops False) (\<lambda>_ _. False) (\<lambda>_ _. []) ''1'' ?r sample_shared sample_disk 0) =
      Some (DownReply (DownRedirect sample_share_link))"
    by code_simp+
  with same show ?thesis by simp
qed

text \<open>What it takes to open a link.\<close>

definition link_open :: "share_env \<Rightarrow> string \<Rightarrow> string \<Rightarrow> server \<Rightarrow> Sharing \<Rightarrow> bool" where
  "link_open env sid pwd s x \<longleftrightarrow>
     sh_DB x \<in> set (svSharings s) \<and> (sid = [] \<or> sh_ID (sh_DB x) = sid) \<and> sh_Files x = read_files env (sh_DB x) \<and> sh_Files x \<noteq> [] \<and>
     \<not> sh_Disabled (sh_DB x) \<and> (sh_MaxAccessed (sh_DB x) \<le> 0 \<or> sh_Accessed (sh_DB x) < sh_MaxAccessed (sh_DB x)) \<and>
     (sh_Expires (sh_DB x) = None \<or> sh_Expires (sh_DB x) = Some 0 \<or> the (sh_Expires (sh_DB x)) \<ge> svNow (shBase env)) \<and>
     (sh_Pwd (sh_DB x) = [] \<or> sh_Pwd (sh_DB x) = pwd) \<and>
     list_ex (\<lambda>c. sh_Creator x = Some c \<and> ID c = sh_CreatorId (sh_DB x) \<and> CanShare (Permission c)) (svUsers s)"

lemma sharing_enter_open:
  assumes ok: "shares_ok (shUnmarshal env) s" and e: "sharing_enter env sid refresh pwd s = Inr x"
  shows "link_open env sid pwd s x"
proof -
  have g: "GetSharingById env sid refresh s = Inr x" "Valid (svNow (shBase env)) x" "Verify x pwd"
    using e by (auto simp: sharing_enter_def split: sum.splits if_splits)
  from GetSharingById_row [OF ok g(1)] g(2,3) show ?thesis
    by (auto simp: link_open_def Valid_def Verify_def list_ex_iff split: if_splits option.splits)
qed

text \<open>A request that went through a link.\<close>

definition passed :: "share_env \<Rightarrow> string \<Rightarrow> string \<Rightarrow> bool \<Rightarrow> string \<Rightarrow> server \<Rightarrow> Sharing \<Rightarrow> bool" where
  "passed env sid p refresh pwd s x \<longleftrightarrow> sharing_enter env sid refresh pwd s = Inr x \<and>
     ((length (sh_Files x) \<noteq> 1 \<and> FixAndCleanPath p = ''/'') \<or> (\<exists>q. GetSharingUnwrapPath x (FixAndCleanPath p) = Inr q))"

lemma map_sum_id_Inr: "map_sum id f r = Inr y \<longleftrightarrow> (\<exists>z. r = Inr z \<and> f z = y)"
  by (cases r) auto

lemma sharing_get_passed: "sharing_get env ops sid p refresh pwd s m st = Some (Inr (x, obj), ms) \<Longrightarrow> passed env sid p refresh pwd s x"
  by (auto simp: passed_def sharing_get_def Let_def split: sum.splits if_splits option.splits prod.splits)

lemma sharing_list_passed: "sharing_list env ops sid p refresh pwd s m st = Some (Inr (x, objs), ms) \<Longrightarrow> passed env sid p refresh pwd s x"
  by (auto simp: passed_def sharing_list_def Let_def map_sum_id_Inr split: sum.splits if_splits option.splits prod.splits)

lemma SharingDown_passed:
  assumes "SharingDown env ops shouldProxy proxyURL noProxyURL args ip sid p pwd s m st = Some (r, rest)" "\<And>c. r \<noteq> DownCode c"
  shows "\<exists>x. passed env sid p False pwd s x"
proof -
  obtain x where x: "GetSharingById env sid False s = Inr x" "Valid (svNow (shBase env)) x" "Verify x pwd"
    "\<exists>q. GetSharingUnwrapPath x (FixAndCleanPath p) = Inr q"
    using assms unfolding SharingDown_def Let_def by (auto split: sum.splits if_splits)
  then show ?thesis by (auto simp: passed_def sharing_enter_def)
qed

lemma serve_visit_passed:
  assumes "serve_visit env ops shouldProxy proxyURL ip req s m st = Some (r, rest)" "\<not> turned_away r" "visit_target req = (sid, p, pwd)"
  shows "\<exists>x refresh. passed env sid p refresh pwd s x"
proof (cases req)
  case (VisitGet path pwd')
  then show ?thesis using assms
    by (auto simp: serve_visit_def SharingGet_def turned_away_def case_prod_beta Let_def split: if_splits option.splits sum.splits dest!: sharing_get_passed) blast+
next
  case (VisitListing path pwd' refresh page)
  then show ?thesis using assms
    by (auto simp: serve_visit_def SharingList_def turned_away_def case_prod_beta Let_def split: if_splits option.splits sum.splits dest!: sharing_list_passed) blast+
next
  case (VisitDown sid' path pwd' args noProxyURL)
  then show ?thesis using assms SharingDown_passed [of env ops shouldProxy proxyURL noProxyURL args ip sid p pwd s m st]
    by (auto simp: serve_visit_def turned_away_def) blast
qed

text \<open>C17: A visitor's request for an object, a listing or a download is answered with more than an error only through a link of the table that is
  enabled, not expired, not used up and not empty, with the code of the link, and only while the table of users has a creator who
  may share; and unless the path is the root of a link with several files, every file of the link is within the base path that a
  creator who is not an administrator has now.\<close>

theorem visit_needs_open_link:
  assumes "reachable share_start (share_step (shUnmarshal env)) s" "serve_visit env ops shouldProxy proxyURL ip req s m st = Some (r, rest)"
    "\<not> turned_away r" "visit_target req = (sid, p, pwd)"
  shows "\<exists>x. link_open env sid pwd s x \<and>
    ((length (sh_Files x) \<noteq> 1 \<and> FixAndCleanPath p = ''/'') \<or>
     list_all (\<lambda>f. IsAdmin (the (sh_Creator x)) \<or> IsSubPath (BasePath (the (sh_Creator x))) f) (sh_Files x))"
proof -
  from serve_visit_passed [OF assms(2-4)] obtain x refresh where e: "sharing_enter env sid refresh pwd s = Inr x"
    "(length (sh_Files x) \<noteq> 1 \<and> FixAndCleanPath p = ''/'') \<or> (\<exists>q. GetSharingUnwrapPath x (FixAndCleanPath p) = Inr q)"
    by (auto simp: passed_def)
  have l: "link_open env sid pwd s x" by (rule sharing_enter_open [OF share_machine.reachable_inv [OF assms(1)] e(1)])
  then obtain c where "sh_Creator x = Some c" by (auto simp: link_open_def list_ex_iff)
  then have "list_all (\<lambda>f. IsAdmin c \<or> IsSubPath (BasePath c) f) (sh_Files x)" if "GetSharingUnwrapPath x (FixAndCleanPath p) = Inr q" for q
    using that by (auto simp: GetSharingUnwrapPath_def list_all_iff find_None_iff split: if_splits option.splits)
  with e(2) l \<open>sh_Creator x = Some c\<close> show ?thesis by auto
qed

definition sample_sharing :: Sharing where
  "sample_sharing = \<lparr>sh_DB = sample_share_row, sh_Files = [''/pub'', ''/doc''], sh_Creator = Some sample_owner\<rparr>"

theorem visit_needs_open_link_witness:
  "map_option fst (serve_visit sample_share_env (sample_ops False) (\<lambda>_ _. False) (\<lambda>_ _. []) ''1'' (VisitDown ''abc'' ''/pub/f'' ''code'' sample_link_args False) sample_shared sample_disk 0) =
     Some (DownReply (DownRedirect sample_share_link)) \<and>
   (\<exists>x. link_open sample_share_env ''abc'' ''code'' sample_shared x \<and>
     list_all (\<lambda>f. IsAdmin (the (sh_Creator x)) \<or> IsSubPath (BasePath (the (sh_Creator x))) f) (sh_Files x))"
proof -
  let ?v = "serve_visit sample_share_env (sample_ops False) (\<lambda>_ _. False) (\<lambda>_ _. []) ''1'' (VisitDown ''abc'' ''/pub/f'' ''code'' sample_link_args False) sample_shared sample_disk 0"
  have v: "map_option fst ?v = Some (DownReply (DownRedirect sample_share_link))" by code_simp
  obtain rest where "?v = Some (DownReply (DownRedirect sample_share_link), rest)"
  proof (cases ?v)
    case None
    with v show ?thesis by (simp only: option.map option.distinct)
  next
    case (Some a)
    with v have "fst a = DownReply (DownRedirect sample_share_link)" by (simp only: option.map option.inject)
    with Some that [of "snd a"] show ?thesis by (metis prod.collapse)
  qed
  from visit_needs_open_link [OF sample_shared_reachable this] have
    "\<exists>x. link_open sample_share_env ''abc'' ''code'' sample_shared x \<and>
      ((length (sh_Files x) \<noteq> 1 \<and> FixAndCleanPath ''/pub/f'' = ''/'') \<or>
       list_all (\<lambda>f. IsAdmin (the (sh_Creator x)) \<or> IsSubPath (BasePath (the (sh_Creator x))) f) (sh_Files x))"
    by (simp add: turned_away_def)
  moreover have "FixAndCleanPath ''/pub/f'' \<noteq> ''/''" by code_simp
  ultimately show ?thesis using v by auto
qed

section \<open>Who may change a link\<close>

text \<open>The rows of others.\<close>

definition foreign_rows :: "User \<Rightarrow> server \<Rightarrow> SharingDB list" where
  "foreign_rows u s = filter (\<lambda>r. sh_CreatorId r \<noteq> ID u) (svSharings s)"

lemma foreign_del [simp]: "foreign_rows u (share_cache_del i s) = foreign_rows u s"
  by (simp add: foreign_rows_def share_cache_del_def)

lemma share_insert_foreign: "sh_CreatorId r = ID u \<Longrightarrow> foreign_rows u (snd (share_insert env r s)) = foreign_rows u s"
  by (auto simp: share_insert_def foreign_rows_def filter_insort_triv split: option.split)

lemma db_CreateSharing_foreign: "sh_CreatorId r = ID u \<Longrightarrow> foreign_rows u (snd (db_CreateSharing env r s)) = foreign_rows u s"
  using share_insert_foreign [of r u] share_insert_foreign [of "r\<lparr>sh_ID := i\<rparr>" u for i]
  by (simp add: db_CreateSharing_def case_prod_beta split: option.split sum.split)

text \<open>The row of the key, if there is one, is the user's.\<close>

definition owns_key :: "User \<Rightarrow> string \<Rightarrow> server \<Rightarrow> bool" where
  "owns_key u i s \<longleftrightarrow> list_all (\<lambda>r. sh_ID r = i \<longrightarrow> sh_CreatorId r = ID u) (svSharings s)"

lemma filter_map_same: "\<forall>x \<in> set xs. f x = x \<or> (\<not> P x \<and> \<not> P (f x)) \<Longrightarrow> filter P (map f xs) = filter P xs"
  by (induction xs) auto

lemma db_UpdateSharing_foreign:
  assumes "owns_key u (sh_ID r) s" "sh_CreatorId r = ID u"
  shows "foreign_rows u (snd (db_UpdateSharing env r s)) = foreign_rows u s"
proof -
  have "filter (\<lambda>r. sh_CreatorId r \<noteq> ID u) (map (\<lambda>x. if sh_ID x = sh_ID r then r else x) (svSharings s)) = foreign_rows u s"
    unfolding foreign_rows_def by (rule filter_map_same) (use assms in \<open>auto simp: owns_key_def list_all_iff\<close>)
  then show ?thesis using share_insert_foreign [OF assms(2)] by (auto simp: db_UpdateSharing_def foreign_rows_def split: option.split)
qed

lemma UpdateSharing_raw_foreign:
  "owns_key u (sh_ID r) s \<Longrightarrow> sh_CreatorId r = ID u \<Longrightarrow> foreign_rows u (snd (UpdateSharing_raw env r s)) = foreign_rows u s"
  using db_UpdateSharing_foreign [of u r "share_cache_del (sh_ID r) s"] by (simp add: UpdateSharing_raw_def owns_key_def share_cache_del_def foreign_rows_def)

lemma owned_row_key:
  "distinct (map sh_ID (svSharings s)) \<Longrightarrow> r \<in> set (svSharings s) \<Longrightarrow> sh_CreatorId r = ID u \<Longrightarrow> owns_key u (sh_ID r) s"
  by (auto simp: owns_key_def list_all_iff distinct_map inj_on_def)

lemma db_UpdateSharingId_foreign:
  assumes own: "owns_key u old s" and y: "y \<in> set (svSharings s)" "sh_ID y = old" and r: "db_UpdateSharingId env old new s = (r, s')"
  shows "foreign_rows u s' = foreign_rows u s \<and> (r = None \<longrightarrow> owns_key u new s')"
proof (cases r)
  case None
  from y obtain x where f: "find (\<lambda>x. sh_ID x = old) (svSharings s) = Some x"
    by (cases "find (\<lambda>x. sh_ID x = old) (svSharings s)") (auto simp: find_None_iff)
  then have x: "sh_CreatorId x = ID u" using own by (auto simp: find_Some_iff owns_key_def list_all_length)
  let ?rest = "filter (\<lambda>x. sh_ID x \<noteq> old) (svSharings s)"
  have s': "svSharings s' = insort_key sh_ID (x\<lparr>sh_ID := new\<rparr>) ?rest" and free: "new = old \<or> (\<forall>z \<in> set (svSharings s). sh_ID z \<noteq> new)"
    using r None f by (auto simp: db_UpdateSharingId_def list_ex_iff split: if_splits option.splits)
  have "filter (\<lambda>r. sh_CreatorId r \<noteq> ID u) ?rest = foreign_rows u s"
    using own by (auto simp: foreign_rows_def owns_key_def list_all_iff intro: filter_cong)
  then have "foreign_rows u s' = foreign_rows u s" using x by (simp add: foreign_rows_def s' filter_insort_triv)
  moreover have "owns_key u new s'"
    unfolding owns_key_def list_all_iff s' set_insort_key ball_simps using free x by (auto simp: owns_key_def)
  ultimately show ?thesis by blast
qed (use r in \<open>auto simp: db_UpdateSharingId_def split: if_splits option.splits\<close>)


text \<open>The requests of a user who is no administrator.\<close>

lemma share_creator_own: "\<not> IsAdmin u \<Longrightarrow> share_creator env req u a s = (Inr c, s') \<Longrightarrow> c = u \<and> s' = s"
  by (auto simp: share_creator_def split: if_splits)

lemma handle_CreateSharing_foreign:
  assumes "\<not> IsAdmin u"
  shows "foreign_rows u (snd (handle_CreateSharing env v u req s)) = foreign_rows u s"
  using assms
  by (auto simp: handle_CreateSharing_def share_creator_def CreateSharing_def Let_def case_prod_beta db_CreateSharing_foreign split: sum.split)

lemma UpdateSharing_foreign:
  "owns_key u (sh_ID (sh_DB x)) s \<Longrightarrow> foreign_rows u (snd (UpdateSharing env x u s)) = foreign_rows u s"
  by (auto simp: UpdateSharing_def UpdateSharing_raw_foreign split: sum.split)

lemma UpdateSharingId_foreign:
  assumes "owns_key u (sh_ID (sh_DB x)) s" "y \<in> set (svSharings s)" "sh_ID y = sh_ID (sh_DB x)" "UpdateSharingId env x new s = (r, s')"
  shows "foreign_rows u s' = foreign_rows u s \<and> (\<forall>x'. r = Inr x' \<longrightarrow> owns_key u (sh_ID (sh_DB x')) s')"
  using assms(4) db_UpdateSharingId_foreign [of u "sh_ID (sh_DB x)" "share_cache_del (sh_ID (sh_DB x)) s" y "shBase env" new] assms(1-3)
  by (auto simp: UpdateSharingId_def owns_key_def share_cache_del_def foreign_rows_def split: prod.splits option.splits)

lemma handle_UpdateSharing_foreign:
  assumes ok: "shares_ok (shUnmarshal env) s" and u: "\<not> IsAdmin u"
  shows "foreign_rows u (snd (handle_UpdateSharing env v u req s)) = foreign_rows u s"
proof (cases "GetSharingById env (rqID req) False s")
  case (Inr x)
  note row = GetSharingById_row [OF ok Inr]
  show ?thesis
  proof (cases "sh_CreatorId (sh_DB x) = ID u")
    case True
    let ?x = "\<lambda>files. updated_sharing req files u x"
    have id: "sh_ID (sh_DB (?x files)) = sh_ID (sh_DB x)" for files by (simp add: updated_sharing_def)
    have key: "owns_key u (sh_ID (sh_DB (?x files))) s" for files
      unfolding id using ok row True by (intro owned_row_key) (auto simp: shares_ok_def)
    have "foreign_rows u (snd (UpdateSharingId env (?x files) new s)) = foreign_rows u s"
      "fst (UpdateSharingId env (?x files) new s) = Inr y \<Longrightarrow> owns_key u (sh_ID (sh_DB y)) (snd (UpdateSharingId env (?x files) new s))" for files new y
      using UpdateSharingId_foreign [OF key _ _ prod.collapse [symmetric], of "sh_DB x" files env new] row by (auto simp: id)
    then show ?thesis using u Inr key UpdateSharing_foreign
      by (auto simp: handle_UpdateSharing_def share_creator_def Let_def case_prod_beta split: sum.split option.split)
  qed (use u Inr in \<open>auto simp: handle_UpdateSharing_def share_creator_def split: sum.split\<close>)
qed (use u in \<open>auto simp: handle_UpdateSharing_def share_creator_def split: sum.split\<close>)

lemma handle_DeleteSharing_foreign:
  assumes ok: "shares_ok (shUnmarshal env) s" and u: "\<not> IsAdmin u" and d: "handle_DeleteSharing env u sid s = Some (c, s')"
  shows "foreign_rows u s' = foreign_rows u s"
proof (cases "GetSharingById env sid False s")
  case (Inr x)
  note row = GetSharingById_row [OF ok Inr]
  have own: "sh_CreatorId (sh_DB x) = ID u" using d u Inr by (auto simp: handle_DeleteSharing_def split: if_splits)
  have "owns_key u (sh_ID (sh_DB x)) s" using ok row own by (intro owned_row_key) (auto simp: shares_ok_def)
  then have "filter (\<lambda>r. sh_CreatorId r \<noteq> ID u) (filter (\<lambda>x. sh_ID x \<noteq> sid) (svSharings s)) = foreign_rows u s" if "sid \<noteq> []"
    using row that by (auto simp: foreign_rows_def owns_key_def list_all_iff intro: filter_cong)
  then show ?thesis using d u Inr own
    by (auto simp: handle_DeleteSharing_def DeleteSharing_def db_DeleteSharingById_def foreign_rows_def share_cache_del_def split: option.splits if_splits)
qed (use d in \<open>auto simp: handle_DeleteSharing_def\<close>)

lemma SetEnableSharing_foreign:
  assumes ok: "shares_ok (shUnmarshal env) s" and u: "\<not> IsAdmin u"
  shows "foreign_rows u (snd (SetEnableSharing env d u sid s)) = foreign_rows u s"
proof (cases "own_sharing env sid u s")
  case (Some x)
  then have g: "GetSharingById env sid False s = Inr x" "sh_CreatorId (sh_DB x) = ID u" using u by (auto simp: own_sharing_def split: sum.splits if_splits)
  have "owns_key u (sh_ID (sh_DB x)) s" using ok GetSharingById_row [OF ok g(1)] g(2) by (intro owned_row_key) (auto simp: shares_ok_def)
  with Some g show ?thesis by (simp add: SetEnableSharing_def case_prod_beta UpdateSharing_raw_foreign split: option.split)
qed (simp add: SetEnableSharing_def)


text \<open>C18: A request of a user who is no administrator to create, change, rename, enable, disable or delete a link changes no row of
  the table that belongs to somebody else, answers to such requests that panic included.  (Visiting a link is no such request: it counts
  the access in the row of its owner.)\<close>

theorem only_owner_changes:
  assumes "reachable share_start (share_step (shUnmarshal env)) s" "\<not> IsAdmin u"
  shows "foreign_rows u (snd (handle_CreateSharing env v u req s)) = foreign_rows u s \<and>
    foreign_rows u (snd (handle_UpdateSharing env v u req s)) = foreign_rows u s \<and>
    foreign_rows u (snd (SetEnableSharing env d u sid s)) = foreign_rows u s \<and>
    (case handle_DeleteSharing env u sid s of None \<Rightarrow> True | Some (c, s') \<Rightarrow> foreign_rows u s' = foreign_rows u s)"
proof -
  have ok: "shares_ok (shUnmarshal env) s" by (rule share_machine.reachable_inv [OF assms(1)])
  show ?thesis
    using handle_CreateSharing_foreign [OF assms(2)] handle_UpdateSharing_foreign [OF ok assms(2)] SetEnableSharing_foreign [OF ok assms(2)]
      handle_DeleteSharing_foreign [OF ok assms(2)]
    by (auto split: option.split)
qed

theorem only_owner_changes_witness:
  "foreign_rows (sample_row 2 ''guest'' 1) sample_shared = [sample_share_row] \<and>
   foreign_rows (sample_row 2 ''guest'' 1) (snd (SetEnableSharing sample_share_env True (sample_row 2 ''guest'' 1) ''abc'' sample_shared)) = [sample_share_row] \<and>
   map sh_Disabled (svSharings (snd (SetEnableSharing sample_share_env True sample_owner ''abc'' sample_shared))) = [True]"
proof -
  have a: "\<not> IsAdmin (sample_row 2 ''guest'' 1)" by (simp add: IsAdmin_def sample_row_def ADMIN_def)
  have "foreign_rows (sample_row 2 ''guest'' 1) sample_shared = [sample_share_row]"
    by (simp add: foreign_rows_def sample_shared_row sample_share_row_def sample_row_def)
  moreover have "map sh_Disabled (svSharings (snd (SetEnableSharing sample_share_env True sample_owner ''abc'' sample_shared))) = [True]" by code_simp
  ultimately show ?thesis using only_owner_changes [OF sample_shared_reachable a] by simp
qed

section \<open>What was created is what visitors get\<close>

lemma find_insort:
  assumes "i \<noteq> []" "sh_ID r = i" "\<not> list_ex (\<lambda>x. sh_ID x = i) rows"
  shows "share_find i (insort_key sh_ID r rows) = Some r"
proof -
  obtain y where y: "find (\<lambda>x. sh_ID x = i) (insort_key sh_ID r rows) = Some y"
    using assms(2) by (cases "find (\<lambda>x. sh_ID x = i) (insort_key sh_ID r rows)") (auto simp: find_None_iff set_insort_key)
  then have "y \<in> set (insort_key sh_ID r rows)" "sh_ID y = i" by (auto simp: find_Some_iff)
  with assms(3) have "y = r" by (auto simp: set_insort_key list_ex_iff)
  with y assms(1) show ?thesis by (simp add: share_find_def)
qed

lemma share_insert_find:
  assumes "share_insert env r s = (None, s')" "sh_ID r \<noteq> []"
  shows "share_find (sh_ID r) (svSharings s') = Some r \<and> svUsers s' = svUsers s \<and> sharingCache s' = sharingCache s"
  using assms by (auto simp: share_insert_def find_insort split: option.splits if_splits)

lemma db_free_id_nonempty: "db_free_id env i s = Some j \<Longrightarrow> i \<noteq> [] \<Longrightarrow> j \<noteq> []"
proof (induction env i s rule: db_free_id.induct)
  case (1 env i s)
  then show ?case by (subst (asm) (2) db_free_id.simps) (auto split: if_splits sum.splits)
qed

lemma db_CreateSharing_find:
  assumes "db_CreateSharing env r s = (Inr i, s')" "shRandom env \<noteq> []"
  shows "i \<noteq> [] \<and> share_find i (svSharings s') = Some (r\<lparr>sh_ID := i\<rparr>) \<and> svUsers s' = svUsers s \<and> sharingCache s' = sharingCache s"
proof (cases "sh_ID r = []")
  case True
  then obtain j where "db_free_id env (shRandom env) s = Some j" "j = i" "share_insert (shBase env) (r\<lparr>sh_ID := j\<rparr>) s = (None, s')"
    using assms(1) by (auto simp: db_CreateSharing_def split: option.splits prod.splits)
  with share_insert_find [of "shBase env" "r\<lparr>sh_ID := i\<rparr>" s s'] db_free_id_nonempty [of env "shRandom env" s j] assms(2) show ?thesis by auto
next
  case False
  then have "i = sh_ID r" "share_insert (shBase env) r s = (None, s')"
    using assms(1) by (auto simp: db_CreateSharing_def split: sum.splits prod.splits option.splits)
  with share_insert_find [of "shBase env" r s s'] False show ?thesis by simp
qed

lemma check_files_map: "check_files admin base fs = Inr cs \<Longrightarrow> cs = map FixAndCleanPath fs \<and> (admin \<or> list_all (IsSubPath base) cs)"
  by (induction fs arbitrary: cs) (auto simp: Let_def split: if_splits sum.splits)


lemma handle_CreateSharing_row:
  assumes h: "handle_CreateSharing env v u req s = (ShareOk x, s')" and js: "json_ok env" and rnd: "shRandom env \<noteq> []"
  shows "\<exists>raw c. share_find (sh_ID (sh_DB x)) (svSharings s') = Some ((sh_DB x)\<lparr>sh_CreatorId := ID c, sh_FilesRaw := raw\<rparr>) \<and>
    sh_ID (sh_DB x) \<noteq> [] \<and> shUnmarshal env raw = Some (sh_Files x) \<and> sh_Files x = map FixAndCleanPath (rqFiles req) \<and> sh_Creator x = Some c \<and>
    (IsAdmin u \<or> c = u \<and> list_all (IsSubPath (BasePath u)) (sh_Files x)) \<and> sharingCache s' = sharingCache s \<and> svUsers s' = svUsers s"
proof -
  let ?a = "CanShare (Permission u) \<and> \<not> (\<not> CanCustomizeShareID (Permission u) \<and> rqID req \<noteq> [])"
  obtain c s1 files i where c: "share_creator env req u ?a s = (Inr c, s1)" and f: "check_files (IsAdmin u) (BasePath c) (rqFiles req) = Inr files"
    and x: "sh_Files x = files" "sh_Creator x = Some c" "sh_ID (sh_DB x) = i" "CreateSharing env (x\<lparr>sh_DB := (sh_DB x)\<lparr>sh_ID := rqID req\<rparr>\<rparr>) c s1 = (Inr i, s')"
    using h by (auto simp: handle_CreateSharing_def Let_def split: if_splits prod.splits sum.splits)
  note same = share_creator_same [OF c]
  obtain raw where raw: "shMarshal env (map FixAndCleanPath files) = Inr raw"
    "db_CreateSharing env ((sh_DB x)\<lparr>sh_ID := rqID req, sh_CreatorId := ID c, sh_FilesRaw := raw\<rparr>) s1 = (Inr i, s')"
    using x by (auto simp: CreateSharing_def split: sum.splits)
  have "map FixAndCleanPath files = files" using check_files_map [OF f] by simp
  then have "shUnmarshal env raw = Some files" using js raw(1) by (simp add: json_ok_def)
  moreover have "IsAdmin u \<or> c = u \<and> list_all (IsSubPath (BasePath u)) files"
    using check_files_map [OF f] share_creator_own [OF _ c] by auto
  moreover have "(sh_DB x)\<lparr>sh_ID := rqID req, sh_CreatorId := ID c, sh_FilesRaw := raw, sh_ID := i\<rparr> = (sh_DB x)\<lparr>sh_CreatorId := ID c, sh_FilesRaw := raw\<rparr>"
    using x(3) by (cases "sh_DB x") simp
  ultimately show ?thesis using db_CreateSharing_find [OF raw(2) rnd] check_files_map [OF f] x(1-3) same
    by (intro exI [of _ raw] exI [of _ c]) simp
qed

text \<open>C19: After a link was created, reading it by its identifier gives the files of the request, cleaned, every setting of the request
  (expiry, code, limit and count of accesses, whether it is disabled, remark, readme, header and order) and the current row of its creator,
  and with the code of the request a visitor enters it if it is valid; the files of a user who is no administrator are within the base path
  of that user, who is the creator.  This holds when files can be written as JSON and read back, the generator of identifiers
  gives some text, and the tables can be read.\<close>

theorem created_link_served:
  assumes "reachable share_start (share_step (shUnmarshal env)) s" "json_ok env" "shRandom env \<noteq> []" "svFail (shBase env) ''sharing'' = None"
    "handle_CreateSharing env v u req s = (ShareOk x, s')" "db_GetUserById (shBase env) (ID (the (sh_Creator x))) s = Inr c"
  shows "\<exists>y. GetSharingById env (sh_ID (sh_DB x)) refresh s' = Inr y \<and> sh_Files y = map FixAndCleanPath (rqFiles req) \<and> sh_Creator y = Some c \<and>
    sh_ID (sh_DB y) = sh_ID (sh_DB x) \<and> sh_Expires (sh_DB y) = rqExpires req \<and> sh_Pwd (sh_DB y) = rqPwd req \<and> sh_MaxAccessed (sh_DB y) = rqMaxAccessed req \<and>
    sh_Accessed (sh_DB y) = rqAccessed req \<and> sh_Disabled (sh_DB y) = rqDisabled req \<and> sh_Remark (sh_DB y) = rqRemark req \<and>
    sh_Readme (sh_DB y) = rqReadme req \<and> sh_Header (sh_DB y) = rqHeader req \<and> sh_OrderBy (sh_DB y) = rqOrderBy req \<and>
    sh_OrderDirection (sh_DB y) = rqOrderDirection req \<and> sh_ExtractFolder (sh_DB y) = rqExtractFolder req \<and>
    (sharing_enter env (sh_ID (sh_DB x)) refresh (rqPwd req) s' = (if Valid (svNow (shBase env)) y then Inr y else Inl InvalidSharing)) \<and>
    (IsAdmin u \<or> the (sh_Creator x) = u \<and> list_all (IsSubPath (BasePath u)) (sh_Files y))"
proof -
  have ok: "sharingCache s = (\<lambda>_. None)" using share_machine.reachable_inv [OF assms(1)] by (simp add: shares_ok_def)
  from handle_CreateSharing_row [OF assms(5,2,3)] obtain raw c0 where
    r: "share_find (sh_ID (sh_DB x)) (svSharings s') = Some ((sh_DB x)\<lparr>sh_CreatorId := ID c0, sh_FilesRaw := raw\<rparr>)" "shUnmarshal env raw = Some (sh_Files x)"
      "sh_Files x = map FixAndCleanPath (rqFiles req)" "sh_Creator x = Some c0" "IsAdmin u \<or> c0 = u \<and> list_all (IsSubPath (BasePath u)) (sh_Files x)"
      "sharingCache s' = sharingCache s" "svUsers s' = svUsers s"
    by blast
  let ?y = "\<lparr>sh_DB = (sh_DB x)\<lparr>sh_CreatorId := ID c0, sh_FilesRaw := raw\<rparr>, sh_Files = sh_Files x, sh_Creator = Some c\<rparr>"
  have c: "db_GetUserById (shBase env) (ID c0) s' = Inr c" using assms(6) r by (simp add: db_GetUserById_def)
  have g: "GetSharingById env (sh_ID (sh_DB x)) refresh s' = Inr ?y"
    using r c ok assms(4) by (simp add: GetSharingById_def db_GetSharingById_def read_files_def)
  have req: "sh_Expires (sh_DB x) = rqExpires req" "sh_Pwd (sh_DB x) = rqPwd req" "sh_MaxAccessed (sh_DB x) = rqMaxAccessed req"
    "sh_Accessed (sh_DB x) = rqAccessed req" "sh_Disabled (sh_DB x) = rqDisabled req" "sh_Remark (sh_DB x) = rqRemark req"
    "sh_Readme (sh_DB x) = rqReadme req" "sh_Header (sh_DB x) = rqHeader req" "sh_OrderBy (sh_DB x) = rqOrderBy req"
    "sh_OrderDirection (sh_DB x) = rqOrderDirection req" "sh_ExtractFolder (sh_DB x) = rqExtractFolder req"
    using assms(5) by (auto simp: handle_CreateSharing_def Let_def split: if_splits prod.splits sum.splits)
  have e: "sharing_enter env (sh_ID (sh_DB x)) refresh (rqPwd req) s' = (if Valid (svNow (shBase env)) ?y then Inr ?y else Inl InvalidSharing)"
    using req by (simp add: sharing_enter_def g Verify_def)
  show ?thesis by (rule exI [of _ ?y]) (use g e r req in \<open>simp\<close>)
qed

theorem created_link_served_witness:
  "GetSharingById sample_share_env ''abc'' True sample_shared = Inr sample_sharing \<and>
   sharing_enter sample_share_env ''abc'' True ''code'' sample_shared = Inr sample_sharing"
proof -
  let ?h = "handle_CreateSharing sample_share_env (\<lambda>_. True) sample_owner sample_share_req sample_share_start"
  have "share_start sample_share_start" by (simp add: share_start_def sample_share_start_def sample_server_def)
  then have r: "reachable share_start (share_step (shUnmarshal sample_share_env)) sample_share_start" by (rule reachable_start)
  have "fst ?h = ShareOk (sample_sharing\<lparr>sh_DB := sample_share_row\<lparr>sh_FilesRaw := [], sh_CreatorId := 0\<rparr>\<rparr>)" by code_simp
  then have h: "?h = (ShareOk (sample_sharing\<lparr>sh_DB := sample_share_row\<lparr>sh_FilesRaw := [], sh_CreatorId := 0\<rparr>\<rparr>), sample_shared)"
    unfolding sample_shared_def by (metis prod.collapse)
  have f: "svFail (shBase sample_share_env) ''sharing'' = None" "shRandom sample_share_env \<noteq> []" by (simp_all add: sample_share_env_def sample_auth_def)
  have c: "db_GetUserById (shBase sample_share_env) (ID (the (sh_Creator (sample_sharing\<lparr>sh_DB := sample_share_row\<lparr>sh_FilesRaw := [], sh_CreatorId := 0\<rparr>\<rparr>)))) sample_share_start =
    Inr sample_owner" by code_simp
  have g: "GetSharingById sample_share_env ''abc'' True sample_shared = Inr sample_sharing" and v: "Valid (svNow (shBase sample_share_env)) sample_sharing"
    by code_simp+
  have "sh_ID (sh_DB (sample_sharing\<lparr>sh_DB := sample_share_row\<lparr>sh_FilesRaw := [], sh_CreatorId := 0\<rparr>\<rparr>)) = ''abc''" "rqPwd sample_share_req = ''code''"
    by (simp_all add: sample_share_row_def sample_share_req_def)
  with created_link_served [OF r sample_json_ok f(2,1) h c, of True] g v show ?thesis by simp
qed


section \<open>Counting visits\<close>

lemma map_find_key:
  assumes "i \<noteq> []" "sh_ID r = i" "list_ex (\<lambda>x. sh_ID x = i) rows"
  shows "share_find i (map (\<lambda>x. if sh_ID x = i then r else x) rows) = Some r"
  using assms by (induction rows) (auto simp: share_find_def)

lemma UpdateSharing_raw_find:
  assumes "sh_ID r \<noteq> []" "svFail (shBase env) ''save sharing'' = None" "svFail (shBase env) ''create sharing'' = None"
  shows "share_find (sh_ID r) (svSharings (snd (UpdateSharing_raw env r s))) = Some r"
  using assms by (auto simp: UpdateSharing_raw_def db_UpdateSharing_def share_insert_def share_cache_del_def find_insort map_find_key)

text \<open>C40: The count of a visit writes the whole row as the visit read it: whatever the owner has changed since, disabled, restricted
  or deleted, the row that the visitor had read is back afterwards, with one access more.\<close>

theorem late_count_undoes_changes:
  assumes "sh_ID (sh_DB x) \<noteq> []" "svFail (shBase env) ''save sharing'' = None" "svFail (shBase env) ''create sharing'' = None"
    "AccessCache s (sh_ID (sh_DB x) @ '':'' @ ip) = None"
  shows "share_find (sh_ID (sh_DB x)) (svSharings (snd (countAccess env ip x s))) = Some ((sh_DB x)\<lparr>sh_Accessed := wrap64 (sh_Accessed (sh_DB x) + 1)\<rparr>)"
  using assms UpdateSharing_raw_find [of "(sh_DB x)\<lparr>sh_Accessed := wrap64 (sh_Accessed (sh_DB x) + 1)\<rparr>" env] by (simp add: countAccess_def Let_def)

theorem late_count_undoes_changes_witness:
  "sharing_enter sample_share_env ''abc'' False ''code'' sample_shared = Inr sample_sharing \<and>
   svSharings (snd (the (handle_DeleteSharing sample_share_env sample_owner ''abc'' sample_shared))) = [] \<and>
   share_find ''abc'' (svSharings (snd (countAccess sample_share_env ''ip'' sample_sharing
       (snd (the (handle_DeleteSharing sample_share_env sample_owner ''abc'' sample_shared)))))) =
     Some (sample_share_row\<lparr>sh_Accessed := 1\<rparr>)"
proof -
  have d: "sh_ID (sh_DB sample_sharing) \<noteq> []" "svFail (shBase sample_share_env) op = None" for op
    by (simp_all add: sample_sharing_def sample_share_row_def sample_share_env_def sample_auth_def)
  have a: "AccessCache (snd (the (handle_DeleteSharing sample_share_env sample_owner ''abc'' sample_shared))) (sh_ID (sh_DB sample_sharing) @ '':'' @ ''ip'') = None"
    by code_simp
  have "sharing_enter sample_share_env ''abc'' False ''code'' sample_shared = Inr sample_sharing"
    "svSharings (snd (the (handle_DeleteSharing sample_share_env sample_owner ''abc'' sample_shared))) = []" by code_simp+
  moreover have "wrap64 1 = 1" by (simp add: int64_defs)
  ultimately show ?thesis using late_count_undoes_changes [OF d(1) d(2) d(2) a] by (simp add: sample_sharing_def sample_share_row_def)
qed

section \<open>Pages\<close>

lemma pagination_page:
  assumes "0 \<le> k" "0 < n" "(k + 1) * n + int (length objs) < 2 ^ 63"
  shows "pagination objs (k + 1, n) = Some (length objs, take (nat n) (drop (nat (k * n)) objs))"
proof -
  have k: "0 \<le> k * n" "k * n + n = (k + 1) * n" "(k + 1) * n - k * n = n" using assms by (auto simp: algebra_simps)
  then have w: "wrap64 (k * n) = k * n" "wrap64 (k * n + n) = k * n + n" using assms by (auto simp: int64_defs intro!: wrap64_id)
  show ?thesis
  proof (cases "k * n + n > int (length objs)")
    case True
    then show ?thesis using k w assms by (auto simp: pagination_def Let_def nat_diff_distrib)
  next
    case False
    then show ?thesis using k w assms by (auto simp: pagination_def Let_def)
  qed
qed

text \<open>C39: As long as no product overflows, the pages of a listing one after the other are the listing: no object is missing, none is
  shown twice and the order is kept.\<close>

theorem pages_are_listing:
  assumes "0 < n" "(int m + 1) * n + int (length objs) < 2 ^ 63"
  shows "concat (map (\<lambda>k. snd (the (pagination objs (int k + 1, n)))) [0..<m]) = take (m * nat n) objs"
  using assms(2)
proof (induction m)
  case (Suc m)
  have "(int m + 1) * n \<le> (int (Suc m) + 1) * n" using assms(1) by (intro mult_right_mono) auto
  with Suc.prems have le: "(int m + 1) * n + int (length objs) < 2 ^ 63" by linarith
  have p: "pagination objs (int m + 1, n) = Some (length objs, take (nat n) (drop (nat (int m * n)) objs))"
    by (rule pagination_page [OF _ assms(1) le]) simp
  have "nat (int m * n) = m * nat n" using assms(1) by (simp add: nat_mult_distrib)
  with p Suc.IH [OF le] take_add [of "m * nat n" "nat n" objs] show ?case by (simp add: ac_simps del: take_add)
qed simp

theorem pages_are_listing_witness:
  "map (\<lambda>k. pagination [1, 2, 3, 4, 5 :: nat] (int k + 1, 2)) [0..<3] = [Some (5, [1, 2]), Some (5, [3, 4]), Some (5, [5])] \<and>
   concat (map (\<lambda>k. snd (the (pagination [1, 2, 3, 4, 5 :: nat] (int k + 1, 2)))) [0..<3]) = [1, 2, 3, 4, 5]"
  using pages_are_listing [of 2 3 "[1, 2, 3, 4, 5 :: nat]"] by (simp, code_simp)

text \<open>The third page of a request that names no page size panics, whatever there is to list.\<close>

lemma third_page_panics: "PageReq_Validate (3, 0) = (3, max_int64)" "pagination objs (3, max_int64) = None"
  by (simp_all add: PageReq_Validate_def pagination_def max_int64_def wrap64_def)

end
