(* ===== verification/Signing.thy ===== *)
theory Signing
  imports Session_Props Meta_Store Mounts
begin

text \<open>
  Signed download links: \<open>pkg/sign/hmac.go\<close>, \<open>internal/sign\<close>, \<open>server/common/sign.go\<close>, the middleware of \<open>server/middlewares/down.go\<close> and
  the request that sets a new token (\<open>server/handles/setting.go\<close>).  The keyed hash with its base64 encoding is a parameter
  \<open>mac\<close>.  A signature is accepted exactly when the server would write it now for that path and a time that has not passed.
\<close>

section \<open>Signatures\<close>

type_synonym mac = "string \<Rightarrow> string \<Rightarrow> string"

datatype sign_error = ErrSignExpired | ErrSignInvalid | ErrExpireInvalid | ErrExpireMissing

definition sign_input :: "string \<Rightarrow> int64 \<Rightarrow> string" where
  "sign_input data e = data @ '':'' @ FormatInt e"

definition HMACSign_Sign :: "mac \<Rightarrow> string \<Rightarrow> string \<Rightarrow> int64 \<Rightarrow> string" where
  "HMACSign_Sign mac key data e = mac key (sign_input data e) @ '':'' @ FormatInt e"

definition HMACSign_Verify :: "mac \<Rightarrow> string \<Rightarrow> int \<Rightarrow> string \<Rightarrow> string \<Rightarrow> sign_error option" where
  "HMACSign_Verify mac key now data sg =
     (let ex = (case LastIndex sg '':'' of None \<Rightarrow> sg | Some i \<Rightarrow> drop (i + 1) sg)
      in if ex = [] then Some ErrExpireMissing
         else case ParseInt ex of
           (_, Some _) \<Rightarrow> Some ErrExpireInvalid
         | (expires, None) \<Rightarrow>
             if expires < now \<and> expires \<noteq> 0 then Some ErrSignExpired
             else if HMACSign_Sign mac key data expires \<noteq> sg then Some ErrSignInvalid
             else None)"

section \<open>The signers of the server\<close>

text \<open>A \<open>sync.Once\<close> and the instance it guards.\<close>

record signer =
  sgOnce :: bool
  sgKey :: "string option"

definition once_do :: "(server \<times> signer \<Rightarrow> server \<times> signer) \<Rightarrow> server \<times> signer \<Rightarrow> server \<times> signer" where
  "once_do f x = (if sgOnce (snd x) then x else (let (s, g) = f x in (s, g\<lparr>sgOnce := True\<rparr>)))"

definition Instance :: "sv_env \<Rightarrow> server \<times> signer \<Rightarrow> server \<times> signer" where
  "Instance env x = (let (s, g) = x; (v, s1) = GetStr env ''token'' [] s in (s1, g\<lparr>sgKey := Some v\<rparr>))"

definition InstanceArchive :: "sv_env \<Rightarrow> server \<times> signer \<Rightarrow> server \<times> signer" where
  "InstanceArchive env x = (let (s, g) = x; (v, s1) = GetStr env ''token'' [] s in (s1, g\<lparr>sgKey := Some (v @ ''-archive'')\<rparr>))"

definition Unix :: "int \<Rightarrow> int" where
  "Unix t = t div 1000000000"

text \<open>\<open>inst\<close> is the function that makes the instance, so that the two pairs of functions of the source are instances of one.\<close>

definition sign_at :: "mac \<Rightarrow> (server \<times> signer \<Rightarrow> server \<times> signer) \<Rightarrow> string \<Rightarrow> int64 \<Rightarrow> server \<times> signer \<Rightarrow> string \<times> server \<times> signer" where
  "sign_at mac inst data e x = (let (s, g) = once_do inst x in (HMACSign_Sign mac (the (sgKey g)) data e, s, g))"

definition WithDuration :: "mac \<Rightarrow> sv_env \<Rightarrow> string \<Rightarrow> int64 \<Rightarrow> server \<times> signer \<Rightarrow> string \<times> server \<times> signer" where
  "WithDuration mac env data d = sign_at mac (Instance env) data (Unix (svNow env + d))"

definition NotExpired :: "mac \<Rightarrow> sv_env \<Rightarrow> string \<Rightarrow> server \<times> signer \<Rightarrow> string \<times> server \<times> signer" where
  "NotExpired mac env data = sign_at mac (Instance env) data 0"

definition WithDurationArchive :: "mac \<Rightarrow> sv_env \<Rightarrow> string \<Rightarrow> int64 \<Rightarrow> server \<times> signer \<Rightarrow> string \<times> server \<times> signer" where
  "WithDurationArchive mac env data d = sign_at mac (InstanceArchive env) data (Unix (svNow env + d))"

definition NotExpiredArchive :: "mac \<Rightarrow> sv_env \<Rightarrow> string \<Rightarrow> server \<times> signer \<Rightarrow> string \<times> server \<times> signer" where
  "NotExpiredArchive mac env data = sign_at mac (InstanceArchive env) data 0"

definition sign_Sign :: "mac \<Rightarrow> sv_env \<Rightarrow> string \<Rightarrow> server \<times> signer \<Rightarrow> string \<times> server \<times> signer" where
  "sign_Sign mac env data x =
     (let (s, g) = x; (expire, s1) = GetInt env ''link_expiration'' 0 s
      in if expire = 0 then NotExpired mac env data (s1, g) else WithDuration mac env data (wrap64 (expire * Hour)) (s1, g))"

definition SignArchive :: "mac \<Rightarrow> sv_env \<Rightarrow> string \<Rightarrow> server \<times> signer \<Rightarrow> string \<times> server \<times> signer" where
  "SignArchive mac env data x =
     (let (s, g) = x; (expire, s1) = GetInt env ''link_expiration'' 0 s
      in if expire = 0 then NotExpiredArchive mac env data (s1, g) else WithDurationArchive mac env data (wrap64 (expire * Hour)) (s1, g))"

definition sign_Verify :: "mac \<Rightarrow> sv_env \<Rightarrow> string \<Rightarrow> string \<Rightarrow> server \<times> signer \<Rightarrow> sign_error option \<times> server \<times> signer" where
  "sign_Verify mac env data sg x =
     (let (s, g) = once_do (Instance env) x in (HMACSign_Verify mac (the (sgKey g)) (Unix (svNow env)) data sg, s, g))"

definition VerifyArchive :: "mac \<Rightarrow> sv_env \<Rightarrow> string \<Rightarrow> string \<Rightarrow> server \<times> signer \<Rightarrow> sign_error option \<times> server \<times> signer" where
  "VerifyArchive mac env data sg x =
     (let (s, g) = once_do (InstanceArchive env) x in (HMACSign_Verify mac (the (sgKey g)) (Unix (svNow env)) data sg, s, g))"

definition ResetToken :: "sv_env \<Rightarrow> string \<Rightarrow> server \<times> signer \<Rightarrow> (int + string) \<times> server \<times> signer" where
  "ResetToken env tok x =
     (let (s, g) = x;
          item = \<lparr>setKey = ''token'', setValue = tok, setMigrationValue = [], setHelp = [], setType = ''string'', setOptions = [], setGroup = 0,
                  setFlag = PRIVATE, setIndex = 0\<rparr>
      in case SaveSettingItem env item s of
        (Some e, s1) \<Rightarrow> (Inl 500, s1, g)
      | (None, s1) \<Rightarrow> (Inr tok, Instance env (s1, g)))"

section \<open>The middleware\<close>

text \<open>The field \<open>EnableSign\<close> of a storage is an argument.  The lookup takes a turn of the balancing.\<close>

definition IsStorageSignEnabled :: "(Driver \<Rightarrow> bool) \<Rightarrow> string \<Rightarrow> mount_state \<Rightarrow> bool \<times> mount_state" where
  "IsStorageSignEnabled enableSign rawPath m =
     (case GetBalancedStorage m rawPath of (None, m1) \<Rightarrow> (False, m1) | (Some d, m1) \<Rightarrow> (enableSign d, m1))"

definition needSign ::
  "sv_env \<Rightarrow> equal_fold \<Rightarrow> (Driver \<Rightarrow> bool) \<Rightarrow> Meta option \<Rightarrow> string \<Rightarrow> server \<Rightarrow> mount_state \<Rightarrow> (bool \<times> server \<times> mount_state) option" where
  "needSign env EqualFold enableSign meta path s m =
     (let (signAll, s1) = GetBool env ''sign_all'' s
      in if signAll then Some (True, s1, m)
         else let (enabled, m1) = IsStorageSignEnabled enableSign path m
              in if enabled then Some (True, s1, m1)
                 else case meta of
                   None \<Rightarrow> Some (False, s1, m1)
                 | Some x \<Rightarrow>
                     if MetaPassword x = [] then Some (False, s1, m1)
                     else if PSub x then Some (True, s1, m1)
                     else map_option (\<lambda>covered. (covered, s1, m1)) (MetaCoversPath EqualFold (Path x) path False))"

datatype down_next = DownAbort int | DownNext "Meta option"

definition TrimSuffix :: "string \<Rightarrow> string \<Rightarrow> string" where
  "TrimSuffix s p = (if HasSuffix s p then take (length s - length p) s else s)"

text \<open>\<open>metaResult\<close> is what the search for the nearest record returned; a result \<open>None\<close> is a loop that does not end.\<close>

definition Down ::
  "mac \<Rightarrow> sv_env \<Rightarrow> equal_fold \<Rightarrow> (Driver \<Rightarrow> bool) \<Rightarrow> meta_error + Meta \<Rightarrow> string \<Rightarrow> string \<Rightarrow> server \<times> signer \<Rightarrow> mount_state \<Rightarrow>
   (down_next \<times> (server \<times> signer) \<times> mount_state) option" where
  "Down mac env EqualFold enableSign metaResult rawPath signQuery x m =
     (if (case metaResult of Inl e \<Rightarrow> e \<noteq> MetaNotFound | Inr _ \<Rightarrow> False) then Some (DownAbort 500, x, m)
      else
        let meta = (case metaResult of Inl e \<Rightarrow> None | Inr y \<Rightarrow> Some y)
        in case needSign env EqualFold enableSign meta rawPath (fst x) m of
          None \<Rightarrow> None
        | Some (need, s1, m1) \<Rightarrow>
            if need then
              (case sign_Verify mac env rawPath (TrimSuffix signQuery ''/'') (s1, snd x) of
                 (Some e, x1) \<Rightarrow> Some (DownAbort 401, x1, m1)
               | (None, x1) \<Rightarrow> Some (DownNext meta, x1, m1))
            else Some (DownNext meta, (s1, snd x), m1))"

section \<open>Which links are signed\<close>

definition isEncrypt :: "equal_fold \<Rightarrow> (Driver \<Rightarrow> bool) \<Rightarrow> Meta option \<Rightarrow> string \<Rightarrow> mount_state \<Rightarrow> (bool \<times> mount_state) option" where
  "isEncrypt EqualFold enableSign meta path m =
     (let (enabled, m1) = IsStorageSignEnabled enableSign path m
      in if enabled then Some (True, m1)
         else case meta of
           None \<Rightarrow> Some (False, m1)
         | Some x \<Rightarrow>
             if MetaPassword x = [] then Some (False, m1)
             else map_option (\<lambda>covered. (covered, m1)) (MetaCoversPath EqualFold (Path x) path (PSub x)))"

definition common_Sign :: "mac \<Rightarrow> sv_env \<Rightarrow> bool \<Rightarrow> string \<Rightarrow> string \<Rightarrow> bool \<Rightarrow> server \<times> signer \<Rightarrow> string \<times> server \<times> signer" where
  "common_Sign mac env isDir name parent encrypt x =
     (if isDir then ([], x)
      else let (signIt, s1) = (if encrypt then (True, fst x) else GetBool env ''sign_all'' (fst x))
           in if signIt then sign_Sign mac env (PathJoin parent name) (s1, snd x) else ([], s1, snd x))"

section \<open>Which signatures are accepted\<close>

lemma LastIndex_colon: "CHR '':'' \<notin> set b \<Longrightarrow> LastIndex (a @ CHR '':'' # b) '':'' = Some (length a)"
proof -
  have "LastIndex b '':'' = None" if "CHR '':'' \<notin> set b" for b
    using that by (induction b) (auto simp: HasPrefix_def)
  then show ?thesis if "CHR '':'' \<notin> set b" using that by (induction a) (auto simp: HasPrefix_def)
qed

lemma FormatInt_no_colon: "CHR '':'' \<notin> set (FormatInt e)"
  using FormatInt_chars [of "CHR '':''" e] by (auto simp: is_digit_def)

lemma Verify_iff:
  "HMACSign_Verify mac key now data sg = None \<longleftrightarrow> (\<exists>e. in_int64 e \<and> (e = 0 \<or> now \<le> e) \<and> sg = HMACSign_Sign mac key data e)"
proof
  assume v: "HMACSign_Verify mac key now data sg = None"
  define ex where "ex = (case LastIndex sg '':'' of None \<Rightarrow> sg | Some i \<Rightarrow> drop (i + 1) sg)"
  obtain e err where p: "ParseInt ex = (e, err)" by fastforce
  with v show "\<exists>e. in_int64 e \<and> (e = 0 \<or> now \<le> e) \<and> sg = HMACSign_Sign mac key data e"
    by (intro exI [of _ e]) (auto simp: HMACSign_Verify_def Let_def ex_def [symmetric] ParseInt_in_int64 split: if_splits option.splits)
next
  assume "\<exists>e. in_int64 e \<and> (e = 0 \<or> now \<le> e) \<and> sg = HMACSign_Sign mac key data e"
  then obtain e where e: "in_int64 e" "e = 0 \<or> now \<le> e" "sg = HMACSign_Sign mac key data e" by blast
  have ex: "(case LastIndex sg '':'' of None \<Rightarrow> sg | Some i \<Rightarrow> drop (i + 1) sg) = FormatInt e"
    using LastIndex_colon [OF FormatInt_no_colon, of "mac key (sign_input data e)" e] by (simp add: e(3) HMACSign_Sign_def)
  show "HMACSign_Verify mac key now data sg = None"
    unfolding HMACSign_Verify_def Let_def ex using e ParseInt_FormatInt [OF e(1)] by auto
qed

text \<open>Path and time can be read off the text that is hashed.\<close>

lemma sign_input_colon: "LastIndex (sign_input data e) '':'' = Some (length data)"
  by (simp add: sign_input_def LastIndex_colon FormatInt_no_colon)

lemma sign_input_inj: "sign_input data e = sign_input data' e' \<longleftrightarrow> data = data' \<and> e = e'"
proof
  assume i: "sign_input data e = sign_input data' e'"
  then have len: "length data = length data'" using sign_input_colon [of data e] sign_input_colon [of data' e'] by simp
  have "data = data' \<and> FormatInt e = FormatInt e'"
    using i unfolding sign_input_def append_eq_append_conv [OF disjI1, OF len] by simp
  then show "data = data' \<and> e = e'" by (auto dest: FormatInt_inj)
qed auto


text \<open>The key that the signer uses.\<close>

definition sign_key :: "sv_env \<Rightarrow> server \<times> signer \<Rightarrow> string" where
  "sign_key env x = the (sgKey (snd (once_do (Instance env) x)))"

lemma once_do_done [simp]: "sgOnce (snd (once_do f x))"
  by (auto simp: once_do_def split: prod.split)

lemma once_do_idem [simp]: "once_do f (s, snd (once_do f x)) = (s, snd (once_do f x))"
  using once_do_done [of f x] unfolding once_do_def [of f "(s, snd (once_do f x))"] by simp

lemma sign_key_once: "sgOnce g \<Longrightarrow> sign_key env (s, g) = the (sgKey g)"
  by (simp add: sign_key_def once_do_def)

lemma sign_Verify_iff:
  "fst (sign_Verify mac env data sg x) = None \<longleftrightarrow>
   (\<exists>e. in_int64 e \<and> (e = 0 \<or> Unix (svNow env) \<le> e) \<and> sg = HMACSign_Sign mac (sign_key env x) data e)"
  by (simp add: sign_Verify_def sign_key_def Verify_iff case_prod_beta)


lemma sign_Sign_value:
  assumes "sign_Sign mac env data x = (sg, x1)"
  shows "\<exists>e. sg = HMACSign_Sign mac (the (sgKey (snd x1))) data e \<and> sgOnce (snd x1) \<and>
    (let h = fst (GetInt env ''link_expiration'' 0 (fst x)) in e = (if h = 0 then 0 else Unix (svNow env + wrap64 (h * Hour))))"
  using assms by (auto simp: sign_Sign_def NotExpired_def WithDuration_def sign_at_def Let_def case_prod_beta split: if_splits)

text \<open>The time stamp of a signature.\<close>

definition sign_expiry :: "sv_env \<Rightarrow> server \<Rightarrow> int" where
  "sign_expiry env s = (let h = fst (GetInt env ''link_expiration'' 0 s) in if h = 0 then 0 else Unix (svNow env + wrap64 (h * Hour)))"

section \<open>Properties\<close>

text \<open>Equal signatures carry the same time, and if they are for different paths the keyed hash has a collision.\<close>

lemma signature_binds:
  assumes "HMACSign_Sign mac key data e = HMACSign_Sign mac key' data' e'"
  shows "e = e' \<and> mac key (sign_input data e) = mac key' (sign_input data' e') \<and> (sign_input data e = sign_input data' e' \<longleftrightarrow> data = data')"
proof -
  have "length (mac key (sign_input data e)) = length (mac key' (sign_input data' e'))"
    using LastIndex_colon [OF FormatInt_no_colon, of "mac key (sign_input data e)" e]
      LastIndex_colon [OF FormatInt_no_colon, of "mac key' (sign_input data' e')" e'] assms by (simp add: HMACSign_Sign_def)
  then have "mac key (sign_input data e) = mac key' (sign_input data' e')" "FormatInt e = FormatInt e'" using assms by (simp_all add: HMACSign_Sign_def)
  then show ?thesis by (auto simp: sign_input_inj dest: FormatInt_inj)
qed

lemma Down_cases:
  assumes "Down mac env EqualFold enableSign metaResult path sg x m = Some (DownNext meta, x', m')"
  shows "\<exists>need s1 m1. needSign env EqualFold enableSign meta path (fst x) m = Some (need, s1, m1) \<and>
    (need \<longrightarrow> fst (sign_Verify mac env path (TrimSuffix sg ''/'') (s1, snd x)) = None)"
proof -
  have meta: "meta = (case metaResult of Inl e \<Rightarrow> None | Inr y \<Rightarrow> Some y)"
    using assms by (auto simp: Down_def Let_def split: if_splits option.splits prod.splits)
  show ?thesis using assms unfolding Down_def Let_def meta [symmetric]
    by (auto split: if_splits option.splits prod.splits)
qed

text \<open>C20: The middleware lets a download pass only if neither the setting, nor the storage, nor a password of the nearest record asks for a
  signature, or if the signature of the request is the one that the server itself writes, with its current key, for exactly this
  path and a time that is zero or has not passed; and a signature made for another path, or with another key, that passes is a
  collision of the keyed hash.\<close>

theorem protected_download_signed:
  assumes "Down mac env EqualFold enableSign metaResult path sg x m = Some (DownNext meta, x', m')"
  shows "\<exists>need s1 m1. needSign env EqualFold enableSign meta path (fst x) m = Some (need, s1, m1) \<and>
    (need = False \<or>
     (\<exists>e. in_int64 e \<and> (e = 0 \<or> Unix (svNow env) \<le> e) \<and> TrimSuffix sg ''/'' = HMACSign_Sign mac (sign_key env (s1, snd x)) path e \<and>
        (\<forall>key' path' e'. TrimSuffix sg ''/'' = HMACSign_Sign mac key' path' e' \<longrightarrow>
           e' = e \<and> mac key' (sign_input path' e) = mac (sign_key env (s1, snd x)) (sign_input path e) \<and> (sign_input path' e = sign_input path e \<longleftrightarrow> path' = path))))"
proof -
  obtain need s1 m1 where n: "needSign env EqualFold enableSign meta path (fst x) m = Some (need, s1, m1)"
    "need \<longrightarrow> fst (sign_Verify mac env path (TrimSuffix sg ''/'') (s1, snd x)) = None"
    using Down_cases [OF assms] by blast
  show ?thesis
  proof (cases need)
    case True
    with n(2) obtain e where e: "in_int64 e" "e = 0 \<or> Unix (svNow env) \<le> e" "TrimSuffix sg ''/'' = HMACSign_Sign mac (sign_key env (s1, snd x)) path e"
      unfolding sign_Verify_iff by blast
    have "e' = e \<and> mac key' (sign_input path' e) = mac (sign_key env (s1, snd x)) (sign_input path e) \<and> (sign_input path' e = sign_input path e \<longleftrightarrow> path' = path)"
      if "TrimSuffix sg ''/'' = HMACSign_Sign mac key' path' e'" for key' path' e'
      using signature_binds [of mac key' path' e' "sign_key env (s1, snd x)" path e] that e(3) by auto
    with n(1) e show ?thesis by blast
  qed (use n(1) in auto)
qed


lemma no_trailing_slash: "TrimSuffix (HMACSign_Sign mac key data e) ''/'' = HMACSign_Sign mac key data e"
proof -
  have "last (FormatInt e) \<noteq> CHR ''/''" using FormatInt_chars [of "last (FormatInt e)" e] by (auto simp: is_digit_def)
  then have "last (HMACSign_Sign mac key data e) \<noteq> CHR ''/''" by (simp add: HMACSign_Sign_def)
  then have "\<not> HasSuffix (HMACSign_Sign mac key data e) ''/''" by (auto simp: HasSuffix_iff suffix_def)
  then show ?thesis by (simp add: TrimSuffix_def)
qed

text \<open>C21: A signature that the server has issued for a path is not refused by the middleware of downloads for that path, as long as the signer is the one that
  issued it (the token has not been reset and the server has not been started with another) and the time of the signature, which fits in 64 bits, has not passed;
  the other settings, the mounts and the metadata may have changed in any way.\<close>

theorem issued_signature_opens:
  assumes "sign_Sign mac env path x = (sg, x1)" "in_int64 (sign_expiry env (fst x))"
    "sign_expiry env (fst x) = 0 \<or> Unix (svNow env') \<le> sign_expiry env (fst x)"
    "Down mac env' EqualFold enableSign metaResult path sg (s2, snd x1) m = Some (r, x', m')"
  shows "r \<noteq> DownAbort 401"
proof -
  obtain e where e: "sg = HMACSign_Sign mac (the (sgKey (snd x1))) path e" "sgOnce (snd x1)" "e = sign_expiry env (fst x)"
    using sign_Sign_value [OF assms(1)] by (auto simp: sign_expiry_def Let_def)
  have "fst (sign_Verify mac env' path (TrimSuffix sg ''/'') (s, snd x1)) = None" for s
    unfolding sign_Verify_iff using assms(2,3) e by (auto simp: no_trailing_slash sign_key_once)
  then show ?thesis
    using assms(4) unfolding Down_def Let_def by (auto split: if_splits option.splits prod.splits) (metis fst_conv option.distinct(1))+
qed


definition sample_mac :: mac where
  "sample_mac key data = key @ data"

definition sample_signer :: signer where
  "sample_signer = \<lparr>sgOnce = False, sgKey = None\<rparr>"

lemma map_fst_Some: "map_option fst y = Some r \<Longrightarrow> \<exists>a b. y = Some (r, a, b)"
  by auto

lemma sample_down:
  "map_option fst (Down sample_mac (aBase sample_auth) (=) (\<lambda>_. False) (Inr (Meta_Store.sample_meta ''p'')) ''/a/d'' ''T/a/d:0:0'' (sample_server, sample_signer) sample_mounts) =
     Some (DownNext (Some (Meta_Store.sample_meta ''p'')))"
  "map_option fst (Down sample_mac (aBase sample_auth) (=) (\<lambda>_. False) (Inr (Meta_Store.sample_meta ''p'')) ''/a/d'' ''T/a/e:0:0'' (sample_server, sample_signer) sample_mounts) =
     Some (DownAbort 401)"
  by code_simp+

theorem protected_download_signed_witness:
  "map_option fst (Down sample_mac (aBase sample_auth) (=) (\<lambda>_. False) (Inr (Meta_Store.sample_meta ''p'')) ''/a/d'' ''T/a/d:0:0'' (sample_server, sample_signer) sample_mounts) =
     Some (DownNext (Some (Meta_Store.sample_meta ''p''))) \<and>
   (\<exists>s1 m1 e. needSign (aBase sample_auth) (=) (\<lambda>_. False) (Some (Meta_Store.sample_meta ''p'')) ''/a/d'' sample_server sample_mounts = Some (True, s1, m1) \<and>
      TrimSuffix ''T/a/d:0:0'' ''/'' = HMACSign_Sign sample_mac (sign_key (aBase sample_auth) (s1, sample_signer)) ''/a/d'' e)"
proof -
  from map_fst_Some [OF sample_down(1)] obtain x' m' where d: "Down sample_mac (aBase sample_auth) (=) (\<lambda>_. False) (Inr (Meta_Store.sample_meta ''p'')) ''/a/d'' ''T/a/d:0:0''
      (sample_server, sample_signer) sample_mounts = Some (DownNext (Some (Meta_Store.sample_meta ''p'')), x', m')"
    by blast
  have n: "map_option fst (needSign (aBase sample_auth) (=) (\<lambda>_. False) (Some (Meta_Store.sample_meta ''p'')) ''/a/d'' sample_server sample_mounts) = Some True"
    by code_simp
  from protected_download_signed [OF d] obtain need s1 m1 where r:
    "needSign (aBase sample_auth) (=) (\<lambda>_. False) (Some (Meta_Store.sample_meta ''p'')) ''/a/d'' (fst (sample_server, sample_signer)) sample_mounts = Some (need, s1, m1)"
    "need = False \<or> (\<exists>e. TrimSuffix ''T/a/d:0:0'' ''/'' = HMACSign_Sign sample_mac (sign_key (aBase sample_auth) (s1, snd (sample_server, sample_signer))) ''/a/d'' e)"
    by blast
  have need: "need = True" using n r(1) unfolding fst_conv by (simp only: option.map fst_conv option.inject)
  show ?thesis using sample_down(1) r unfolding need fst_conv snd_conv by blast
qed

theorem issued_signature_opens_witness:
  "fst (sign_Sign sample_mac (aBase sample_auth) ''/a/d'' (sample_server, sample_signer)) = ''T/a/d:0:0'' \<and>
   map_option fst (Down sample_mac (aBase sample_auth) (=) (\<lambda>_. True) (Inl MetaNotFound) ''/a/d'' ''T/a/d:0:0''
     (sample_server, snd (snd (sign_Sign sample_mac (aBase sample_auth) ''/a/d'' (sample_server, sample_signer)))) sample_mounts) = Some (DownNext None) \<and>
   DownNext None \<noteq> DownAbort 401"
proof -
  let ?S = "sign_Sign sample_mac (aBase sample_auth) ''/a/d'' (sample_server, sample_signer)"
  have s: "fst ?S = ''T/a/d:0:0''" and e: "sign_expiry (aBase sample_auth) (fst (sample_server, sample_signer)) = 0"
    and d: "map_option fst (Down sample_mac (aBase sample_auth) (=) (\<lambda>_. True) (Inl MetaNotFound) ''/a/d'' ''T/a/d:0:0'' (sample_server, snd (snd ?S)) sample_mounts) =
      Some (DownNext None)"
    by code_simp+
  have S: "?S = (''T/a/d:0:0'', snd ?S)" by (subst s [symmetric]) (rule prod.collapse [symmetric])
  from map_fst_Some [OF d] obtain x' m' where "Down sample_mac (aBase sample_auth) (=) (\<lambda>_. True) (Inl MetaNotFound) ''/a/d'' ''T/a/d:0:0'' (sample_server, snd (snd ?S)) sample_mounts =
      Some (DownNext None, x', m')"
    by blast
  from issued_signature_opens [OF S _ _ this] s d e show ?thesis by (simp add: int64_defs)
qed

end
