(* ===== verification/Fs_Handlers.thy ===== *)
theory Fs_Handlers
  imports Fs_List Signing Share_Handlers
begin

text \<open>
  The requests of the REST interface that read and change files: \<open>server/handles/fsmanage.go\<close>, \<open>fsbatch.go\<close>, \<open>fsread.go\<close>, \<open>fsup.go\<close> and the
  middleware of \<open>server/middlewares/fsup.go\<close>.  What the package \<open>internal/fs\<close> does is a record of functions on a state of its own; a result
  \<open>None\<close> is a panic or a loop that does not end.  Early returns are the branches that do not call the rest of the handler.
\<close>

section \<open>The interface to the virtual file system\<close>

text \<open>\<open>apiMeta\<close> is \<open>op.GetNearestMeta\<close>, whose answer is that of the table (\<open>Meta_Store\<close>).  A listing is filtered for the user of the request
  with the record in the request's context; its arguments are whether to read the storage anew and whether to add
  details of storages.  A transfer says whether it made a task and whether it failed.\<close>

record 'st fs_api =
  apiMeta :: "string \<Rightarrow> meta_error + Meta"
  apiList :: "Meta option \<Rightarrow> string \<Rightarrow> bool \<times> bool \<Rightarrow> 'st \<Rightarrow> (Obj list option \<times> 'st) option"
  apiGet :: "string \<Rightarrow> 'st \<Rightarrow> (Obj option \<times> 'st) option"
  apiMakeDir :: "string \<Rightarrow> 'st \<Rightarrow> bool \<times> 'st"
  apiMove :: "string \<Rightarrow> string \<Rightarrow> bool \<Rightarrow> 'st \<Rightarrow> (bool \<times> bool) \<times> 'st"
  apiCopy :: "string \<Rightarrow> string \<Rightarrow> bool \<Rightarrow> 'st \<Rightarrow> (bool \<times> bool) \<times> 'st"
  apiMerge :: "string \<Rightarrow> string \<Rightarrow> bool \<Rightarrow> 'st \<Rightarrow> (bool \<times> bool) \<times> 'st"
  apiRename :: "string \<Rightarrow> string \<Rightarrow> 'st \<Rightarrow> bool \<times> 'st"
  apiRemove :: "string \<Rightarrow> 'st \<Rightarrow> bool \<times> 'st"
  apiPut :: "bool \<Rightarrow> string \<Rightarrow> string \<Rightarrow> int64 \<Rightarrow> 'st \<Rightarrow> (bool \<times> bool) \<times> 'st"
  apiStorage :: "string \<Rightarrow> 'st \<Rightarrow> Driver option \<times> 'st"
  apiEncrypt :: "Meta option \<Rightarrow> string \<Rightarrow> 'st \<Rightarrow> (bool \<times> 'st) option"
  apiSign :: "bool \<Rightarrow> string \<Rightarrow> string \<Rightarrow> bool \<Rightarrow> 'st \<Rightarrow> string \<times> 'st"

text \<open>What the language's packages for Unicode and regular expressions do, whether settings have system files ignored and details of storages
  hidden.\<close>

record fs_env =
  fhEqualFold :: equal_fold
  fhCompile :: compile
  fhRegexp :: "string \<Rightarrow> ((string \<Rightarrow> bool) \<times> (string \<Rightarrow> string \<Rightarrow> string)) option"
  fhIgnored :: "string \<Rightarrow> bool"
  fhHideDetails :: bool

datatype fs_answer = FsCode int | FsTasks nat | FsMoved nat | FsListing nat "(Obj \<times> string) list" string string bool bool | FsNames "string list"

type_synonym 'st handler = "'st \<Rightarrow> (fs_answer \<times> 'st) option"

section \<open>Checks that handlers share\<close>

text \<open>Each takes the rest of the handler as its last argument.\<close>

definition answer :: "int \<Rightarrow> 'st handler" where
  "answer code st = Some (FsCode code, st)"

definition require :: "bool option \<Rightarrow> int \<Rightarrow> 'st handler \<Rightarrow> 'st handler" where
  "require ok code rest = (case ok of None \<Rightarrow> (\<lambda>_. None) | Some b \<Rightarrow> if b then rest else answer code)"

definition joined :: "User \<Rightarrow> string \<Rightarrow> (string \<Rightarrow> 'st handler) \<Rightarrow> 'st handler" where
  "joined user path rest = (case JoinPath user path of Inl e \<Rightarrow> answer 403 | Inr reqPath \<Rightarrow> rest reqPath)"

definition nearest :: "'st fs_api \<Rightarrow> string \<Rightarrow> (Meta option \<Rightarrow> 'st handler) \<Rightarrow> 'st handler" where
  "nearest api path rest =
     (case apiMeta api path of
        Inl e \<Rightarrow> if e = MetaNotFound then rest None else answer 500
      | Inr meta \<Rightarrow> rest (Some meta))"

text \<open>The directory that a request names, with its record, if the user may write there.\<close>

definition writable_dir :: "fs_env \<Rightarrow> 'st fs_api \<Rightarrow> User \<Rightarrow> string \<Rightarrow> (string \<Rightarrow> Meta option \<Rightarrow> 'st handler) \<Rightarrow> 'st handler" where
  "writable_dir env api user path rest =
     joined user path (\<lambda>dir. nearest api dir (\<lambda>meta. require (CanWrite (fhEqualFold env) (Some user) meta dir) 403 (rest dir meta)))"

definition finished :: "bool \<times> 'st \<Rightarrow> (fs_answer \<times> 'st) option" where
  "finished r = (case r of (ok, st) \<Rightarrow> answer (if ok then 200 else 500) st)"

definition checkRelativePath :: "string \<Rightarrow> bool" where
  "checkRelativePath path \<longleftrightarrow> \<not> (CHR ''/'' \<in> set path \<or> CHR 0x5C \<in> set path \<or> path = [] \<or> path = ''.'' \<or> path = ''..'')"

section \<open>Making directories, moving and copying\<close>

definition FsMkdir :: "fs_env \<Rightarrow> 'st fs_api \<Rightarrow> User \<Rightarrow> string \<Rightarrow> 'st handler" where
  "FsMkdir env api user path =
     joined user path (\<lambda>reqPath. let parentPath = Dir reqPath in
       nearest api parentPath (\<lambda>parentMeta.
         require (Some (CanWriteContent (Permission user) \<or> CanWriteContentBypassUserPerms parentMeta parentPath)) 403
           (require (CanWrite (fhEqualFold env) (Some user) parentMeta parentPath) 403
             (\<lambda>st. finished (apiMakeDir api reqPath st)))))"

record MoveCopyReq =
  mcSrcDir :: string
  mcDstDir :: string
  mcNames :: "string list"
  mcOverwrite :: bool
  mcSkipExisting :: bool
  mcMerge :: bool

text \<open>The names of a request, checked one after the other.\<close>

fun safe_names :: "string \<Rightarrow> string list \<Rightarrow> int + string list" where
  "safe_names srcDir [] = Inr []"
| "safe_names srcDir (name # names) =
     (if \<not> checkRelativePath name then Inl 403
      else let srcPath = PathJoin srcDir name
           in if \<not> HasPrefix (srcPath @ ''/'') srcDir then safe_names srcDir names
              else if Base srcPath = ''.'' \<or> Base srcPath = ''/'' then Inl 400
              else map_sum id ((#) name) (safe_names srcDir names))"

definition with_slash :: "string \<Rightarrow> string" where
  "with_slash dir = (if HasSuffix dir ''/'' then dir else dir @ ''/'')"

text \<open>The names that do not exist at the destination; an existing one ends a move or is left out.\<close>

fun new_names :: "'st fs_api \<Rightarrow> string \<Rightarrow> bool \<Rightarrow> string list \<Rightarrow> 'st \<Rightarrow> ((int + string list) \<times> 'st) option" where
  "new_names api dstDir skipExisting [] st = Some (Inr [], st)"
| "new_names api dstDir skipExisting (name # names) st =
     (case apiGet api (PathJoin dstDir name) st of
        None \<Rightarrow> None
      | Some (Some res, st1) \<Rightarrow> if \<not> skipExisting then Some (Inl 403, st1) else new_names api dstDir skipExisting names st1
      | Some (None, st1) \<Rightarrow> map_option (\<lambda>(r, st2). (map_sum id ((#) name) r, st2)) (new_names api dstDir skipExisting names st1))"

fun copy_names :: "'st fs_api \<Rightarrow> string \<Rightarrow> bool \<Rightarrow> bool \<Rightarrow> string list \<Rightarrow> 'st \<Rightarrow> ((int + string list) \<times> 'st) option" where
  "copy_names api dstDir skipExisting merge [] st = Some (Inr [], st)"
| "copy_names api dstDir skipExisting merge (name # names) st =
     (case apiGet api (PathJoin dstDir name) st of
        None \<Rightarrow> None
      | Some (Some res, st1) \<Rightarrow>
          if \<not> skipExisting \<and> \<not> merge then Some (Inl 403, st1)
          else map_option (\<lambda>(r, st2). (map_sum id (if merge \<and> IsDir res then (#) name else id) r, st2)) (copy_names api dstDir skipExisting merge names st1)
      | Some (None, st1) \<Rightarrow> map_option (\<lambda>(r, st2). (map_sum id ((#) name) r, st2)) (copy_names api dstDir skipExisting merge names st1))"

text \<open>The loop over the transfers; the hook is skipped for all but the last.\<close>

fun transfers :: "(string \<Rightarrow> string \<Rightarrow> bool \<Rightarrow> 'st \<Rightarrow> (bool \<times> bool) \<times> 'st) \<Rightarrow> string \<Rightarrow> string \<Rightarrow> string list \<Rightarrow> nat \<Rightarrow> 'st handler" where
  "transfers f srcDir dstDir [] added st = Some (if added > 0 then FsTasks added else FsCode 200, st)"
| "transfers f srcDir dstDir (name # names) added st =
     (case f (PathJoin srcDir name) dstDir (names \<noteq> []) st of
        ((tsk, ok), st1) \<Rightarrow> if \<not> ok then answer 500 st1 else transfers f srcDir dstDir names (if tsk then Suc added else added) st1)"

definition run_names ::
  "('st \<Rightarrow> ((int + string list) \<times> 'st) option) \<Rightarrow> (string \<Rightarrow> string \<Rightarrow> bool \<Rightarrow> 'st \<Rightarrow> (bool \<times> bool) \<times> 'st) \<Rightarrow> string \<Rightarrow> string \<Rightarrow> 'st handler" where
  "run_names select f srcDir dstDir st =
     (case select st of
        None \<Rightarrow> None
      | Some (Inl code, st1) \<Rightarrow> answer code st1
      | Some (Inr names, st1) \<Rightarrow> transfers f srcDir dstDir names 0 st1)"

definition FsMove :: "fs_env \<Rightarrow> 'st fs_api \<Rightarrow> User \<Rightarrow> MoveCopyReq \<Rightarrow> 'st handler" where
  "FsMove env api user req =
     (if mcNames req = [] then answer 400
      else require (Some (CanMove (Permission user))) 403
        (writable_dir env api user (mcSrcDir req) (\<lambda>src0 _.
          writable_dir env api user (mcDstDir req) (\<lambda>dstDir _.
            let srcDir = with_slash src0
            in case safe_names srcDir (mcNames req) of
              Inl code \<Rightarrow> answer code
            | Inr names \<Rightarrow>
                run_names (if mcOverwrite req then (\<lambda>st. Some (Inr names, st)) else new_names api dstDir (mcSkipExisting req) names) (apiMove api) srcDir dstDir))))"

definition FsCopy :: "fs_env \<Rightarrow> 'st fs_api \<Rightarrow> User \<Rightarrow> MoveCopyReq \<Rightarrow> 'st handler" where
  "FsCopy env api user req =
     (if mcNames req = [] then answer 400
      else require (Some (CanCopy (Permission user))) 403
        (joined user (mcSrcDir req) (\<lambda>src0. nearest api src0 (\<lambda>srcMeta.
          require (CanRead (fhEqualFold env) (Some user) srcMeta src0) 403
            (writable_dir env api user (mcDstDir req) (\<lambda>dstDir _.
              let srcDir = with_slash src0
              in case safe_names srcDir (mcNames req) of
                Inl code \<Rightarrow> answer code
              | Inr names \<Rightarrow>
                  run_names (if mcOverwrite req then (\<lambda>st. Some (Inr names, st)) else copy_names api dstDir (mcSkipExisting req) (mcMerge req) names)
                    (if mcMerge req then apiMerge api else apiCopy api) srcDir dstDir))))))"


section \<open>Renaming and removing\<close>

definition FsRename :: "fs_env \<Rightarrow> 'st fs_api \<Rightarrow> User \<Rightarrow> string \<Rightarrow> string \<Rightarrow> bool \<Rightarrow> 'st handler" where
  "FsRename env api user path name overwrite =
     require (Some (CanRename (Permission user))) 403
       (joined user path (\<lambda>reqPath.
         require (Some (checkRelativePath name)) 403
           (let parentPath = Dir reqPath in nearest api parentPath (\<lambda>parentMeta.
             require (CanWrite (fhEqualFold env) (Some user) parentMeta parentPath) 403
               (\<lambda>st. let dstPath = PathJoin (Dir reqPath) name
                     in if \<not> overwrite \<and> dstPath \<noteq> reqPath then
                          (case apiGet api dstPath st of
                             None \<Rightarrow> None
                           | Some (Some res, st1) \<Rightarrow> answer 403 st1
                           | Some (None, st1) \<Rightarrow> finished (apiRename api reqPath name st1))
                        else finished (apiRename api reqPath name st))))))"

fun remove_names :: "'st fs_api \<Rightarrow> string \<Rightarrow> string list \<Rightarrow> 'st handler" where
  "remove_names api reqDir [] st = answer 200 st"
| "remove_names api reqDir (name # names) st =
     (if \<not> checkRelativePath name then answer 403 st
      else if TrimSpace (FixAndCleanPath name) = ''/'' then remove_names api reqDir names st
      else let fullPath = PathJoin reqDir name
           in if \<not> HasPrefix (fullPath @ ''/'') (reqDir @ ''/'') then remove_names api reqDir names st
              else case apiRemove api fullPath st of (ok, st1) \<Rightarrow> if \<not> ok then answer 500 st1 else remove_names api reqDir names st1)"

definition FsRemove :: "fs_env \<Rightarrow> 'st fs_api \<Rightarrow> User \<Rightarrow> string \<Rightarrow> string list \<Rightarrow> 'st handler" where
  "FsRemove env api user dir names =
     (if names = [] then answer 400
      else require (Some (CanRemove (Permission user))) 403
        (writable_dir env api user dir (\<lambda>reqDir _. remove_names api reqDir names)))"

text \<open>The search for empty directories.  A directory on the queue is the list of the names that lead to it from the directory of the
  request, the last one first; the source keeps the same in maps from objects to their path and to their parent.\<close>

fun dir_path :: "string \<Rightarrow> string list \<Rightarrow> string" where
  "dir_path srcDir [] = srcDir"
| "dir_path srcDir (name # names) = dir_path srcDir names @ ''/'' @ name"

partial_function (option) remove_empty ::
  "'st fs_api \<Rightarrow> Meta option \<Rightarrow> string \<Rightarrow> string list list \<Rightarrow> string set \<Rightarrow> 'st \<Rightarrow> (fs_answer \<times> 'st) option" where
  "remove_empty api meta srcDir queue removed st =
     (case queue of
        [] \<Rightarrow> answer 200 st
      | d # rest \<Rightarrow>
          let path = dir_path srcDir d
          in if path \<in> removed then remove_empty api meta srcDir rest removed st
             else case apiList api meta path (True, False) st of
               None \<Rightarrow> None
             | Some (None, st1) \<Rightarrow> answer 500 st1
             | Some (Some subFiles, st1) \<Rightarrow>
                 if subFiles = [] then
                   (case apiRemove api path st1 of
                      (ok, st2) \<Rightarrow>
                        if \<not> ok then answer 500 st2
                        else remove_empty api meta srcDir (if tl d = [] then rest else rest @ [tl d]) (insert path removed) st2)
                 else remove_empty api meta srcDir (rest @ map (\<lambda>f. GetName f # d) (filter IsDir subFiles)) removed st1)"

declare remove_empty.simps [code]

definition FsRemoveEmptyDirectory :: "fs_env \<Rightarrow> 'st fs_api \<Rightarrow> User \<Rightarrow> string \<Rightarrow> 'st handler" where
  "FsRemoveEmptyDirectory env api user dir =
     require (Some (CanRemove (Permission user))) 403
       (writable_dir env api user dir (\<lambda>srcDir meta st.
         case apiList api meta srcDir (False, False) st of
           None \<Rightarrow> None
         | Some (None, st1) \<Rightarrow> answer 500 st1
         | Some (Some rootFiles, st1) \<Rightarrow> remove_empty api meta srcDir (map (\<lambda>f. [GetName f]) (filter IsDir rootFiles)) {} st1))"

section \<open>Batches\<close>

definition CANCEL :: string where "CANCEL = ''cancel''"

definition OVERWRITE :: string where "OVERWRITE = ''overwrite''"

definition SKIP :: string where "SKIP = ''skip''"

text \<open>The search for the files of a recursive move.  An entry of the queue is a directory, as the list of names above, and an object in it.\<close>

partial_function (option) collect_files ::
  "'st fs_api \<Rightarrow> Meta option \<Rightarrow> string \<Rightarrow> string \<Rightarrow> string \<Rightarrow> (string list \<times> Obj) list \<Rightarrow> string list \<Rightarrow> string list \<Rightarrow> 'st \<Rightarrow> ((int + string list) \<times> 'st) option" where
  "collect_files api meta policy srcDir dstDir queue existing moving st =
     (case queue of
        [] \<Rightarrow> Some (Inr moving, st)
      | (d, f) # rest \<Rightarrow>
          let fileName = dir_path srcDir d @ ''/'' @ GetName f
          in if IsDir f then
               (case apiList api meta fileName (True, False) st of
                  None \<Rightarrow> None
                | Some (None, st1) \<Rightarrow> Some (Inl 500, st1)
                | Some (Some subFiles, st1) \<Rightarrow>
                    collect_files api meta policy srcDir dstDir (rest @ map (Pair (GetName f # d)) subFiles) existing moving st1)
             else if dir_path srcDir d = dstDir then collect_files api meta policy srcDir dstDir rest existing moving st
             else if GetName f \<in> set existing \<and> policy = CANCEL then Some (Inl 403, st)
             else if GetName f \<in> set existing \<and> policy = SKIP then collect_files api meta policy srcDir dstDir rest existing moving st
             else collect_files api meta policy srcDir dstDir rest
                    (if GetName f \<notin> set existing \<and> policy \<noteq> OVERWRITE then existing @ [GetName f] else existing) (moving @ [fileName]) st)"

declare collect_files.simps [code]

fun move_files :: "'st fs_api \<Rightarrow> string \<Rightarrow> string list \<Rightarrow> nat \<Rightarrow> 'st handler" where
  "move_files api dstDir [] moved st = Some (FsMoved moved, st)"
| "move_files api dstDir (f # fs) moved st =
     (case apiMove api f dstDir (fs \<noteq> []) st of ((tsk, ok), st1) \<Rightarrow> if \<not> ok then answer 500 st1 else move_files api dstDir fs (Suc moved) st1)"

definition FsRecursiveMove :: "fs_env \<Rightarrow> 'st fs_api \<Rightarrow> User \<Rightarrow> string \<Rightarrow> string \<Rightarrow> string \<Rightarrow> 'st handler" where
  "FsRecursiveMove env api user src dst policy =
     require (Some (CanMove (Permission user))) 403
       (writable_dir env api user src (\<lambda>srcDir srcMeta.
         writable_dir env api user dst (\<lambda>dstDir _ st.
           case apiList api srcMeta srcDir (False, False) st of
             None \<Rightarrow> None
           | Some (None, st1) \<Rightarrow> answer 500 st1
           | Some (Some rootFiles, st1) \<Rightarrow>
               (case (if policy = OVERWRITE then Some (Some [], st1) else apiList api srcMeta dstDir (False, False) st1) of
                  None \<Rightarrow> None
                | Some (None, st2) \<Rightarrow> answer 500 st2
                | Some (Some dstFiles, st2) \<Rightarrow>
                    (case collect_files api srcMeta policy srcDir dstDir (map (Pair []) rootFiles) (map GetName dstFiles) [] st2 of
                       None \<Rightarrow> None
                     | Some (Inl code, st3) \<Rightarrow> answer code st3
                     | Some (Inr files, st3) \<Rightarrow> move_files api dstDir files 0 st3)))))"

fun batch_rename :: "'st fs_api \<Rightarrow> string \<Rightarrow> (string \<times> string) list \<Rightarrow> 'st handler" where
  "batch_rename api reqPath [] st = answer 200 st"
| "batch_rename api reqPath ((src, new) # rs) st =
     (if src = [] \<or> new = [] then batch_rename api reqPath rs st
      else if \<not> checkRelativePath src then answer 403 st
      else if \<not> checkRelativePath new then answer 403 st
      else case apiRename api (reqPath @ ''/'' @ src) new st of (ok, st1) \<Rightarrow> if \<not> ok then answer 500 st1 else batch_rename api reqPath rs st1)"

definition FsBatchRename :: "fs_env \<Rightarrow> 'st fs_api \<Rightarrow> User \<Rightarrow> string \<Rightarrow> (string \<times> string) list \<Rightarrow> 'st handler" where
  "FsBatchRename env api user dir rs =
     require (Some (CanRename (Permission user))) 403 (writable_dir env api user dir (\<lambda>reqPath _. batch_rename api reqPath rs))"

fun regex_rename :: "'st fs_api \<Rightarrow> string \<Rightarrow> (string \<Rightarrow> bool) \<Rightarrow> (string \<Rightarrow> string) \<Rightarrow> Obj list \<Rightarrow> 'st handler" where
  "regex_rename api reqPath matches replace [] st = answer 200 st"
| "regex_rename api reqPath matches replace (f # fs) st =
     (if \<not> matches (GetName f) then regex_rename api reqPath matches replace fs st
      else if \<not> checkRelativePath (replace (GetName f)) then answer 403 st
      else case apiRename api (reqPath @ ''/'' @ GetName f) (replace (GetName f)) st of
        (ok, st1) \<Rightarrow> if \<not> ok then answer 500 st1 else regex_rename api reqPath matches replace fs st1)"

definition FsRegexRename :: "fs_env \<Rightarrow> 'st fs_api \<Rightarrow> User \<Rightarrow> string \<Rightarrow> string \<Rightarrow> string \<Rightarrow> 'st handler" where
  "FsRegexRename env api user dir srcRegex newRegex =
     require (Some (CanRename (Permission user))) 403
       (writable_dir env api user dir (\<lambda>reqPath meta st.
         case fhRegexp env srcRegex of
           None \<Rightarrow> answer 500 st
         | Some (matches, replace) \<Rightarrow>
             (case apiList api meta reqPath (False, False) st of
                None \<Rightarrow> None
              | Some (None, st1) \<Rightarrow> answer 500 st1
              | Some (Some files, st1) \<Rightarrow> regex_rename api reqPath matches (\<lambda>n. replace n newRegex) files st1)))"


section \<open>Listing\<close>

definition covered_text :: "equal_fold \<Rightarrow> Meta option \<Rightarrow> string \<Rightarrow> (Meta \<Rightarrow> bool) \<Rightarrow> (Meta \<Rightarrow> string) \<Rightarrow> string option" where
  "covered_text EqualFold meta path sub txt =
     (case meta of
        None \<Rightarrow> Some []
      | Some m \<Rightarrow> map_option (\<lambda>covered. if covered then txt m else []) (MetaCoversPath EqualFold (Path m) path (sub m)))"

definition getReadme :: "equal_fold \<Rightarrow> Meta option \<Rightarrow> string \<Rightarrow> string option" where
  "getReadme EqualFold meta path = covered_text EqualFold meta path RSub Readme"

definition getHeader :: "equal_fold \<Rightarrow> Meta option \<Rightarrow> string \<Rightarrow> string option" where
  "getHeader EqualFold meta path = covered_text EqualFold meta path HeaderSub Header"

fun toObjsResp :: "'st fs_api \<Rightarrow> Obj list \<Rightarrow> string \<Rightarrow> bool \<Rightarrow> 'st \<Rightarrow> (Obj \<times> string) list \<times> 'st" where
  "toObjsResp api [] parent encrypt st = ([], st)"
| "toObjsResp api (obj # objs) parent encrypt st =
     (let (sg, st1) = apiSign api (IsDir obj) (GetName obj) parent encrypt st; (rest, st2) = toObjsResp api objs parent encrypt st1
      in ((obj, sg) # rest, st2))"

text \<open>The user may read at a path with the password that the request carries.\<close>

definition readable :: "fs_env \<Rightarrow> 'st fs_api \<Rightarrow> User \<Rightarrow> string \<Rightarrow> string \<Rightarrow> (Meta option \<Rightarrow> 'st handler) \<Rightarrow> 'st handler" where
  "readable env api user reqPath password rest =
     nearest api reqPath (\<lambda>meta. require (CanAccess (fhEqualFold env) (fhCompile env) (Some user) meta reqPath password) 403 (rest meta))"

text \<open>The answer to a listing, once the objects are known.\<close>

definition list_answer ::
  "fs_env \<Rightarrow> 'st fs_api \<Rightarrow> Meta option \<Rightarrow> string \<Rightarrow> int64 \<times> int64 \<Rightarrow> bool \<Rightarrow> bool \<Rightarrow> bool \<Rightarrow> Obj list \<Rightarrow> 'st handler" where
  "list_answer env api meta reqPath page canWrite bypass writeHere objs st =
     (case pagination objs page of
        None \<Rightarrow> None
      | Some (total_n, shown) \<Rightarrow>
          let st1 = (if writeHere then snd (apiStorage api reqPath st) else st)
          in (case apiEncrypt api meta reqPath st1 of
                None \<Rightarrow> None
              | Some (encrypt, st2) \<Rightarrow>
                  let (content, st3) = toObjsResp api shown reqPath encrypt st2
                  in (case (getReadme (fhEqualFold env) meta reqPath, getHeader (fhEqualFold env) meta reqPath) of
                        (Some readme, Some header) \<Rightarrow> Some (FsListing total_n content readme header canWrite bypass, st3)
                      | _ \<Rightarrow> None)))"

definition FsList :: "fs_env \<Rightarrow> 'st fs_api \<Rightarrow> User \<Rightarrow> string \<Rightarrow> string \<Rightarrow> bool \<Rightarrow> int64 \<times> int64 \<Rightarrow> 'st handler" where
  "FsList env api user path password refresh page =
     joined user path (\<lambda>reqPath. readable env api user reqPath password (\<lambda>meta st.
       case CanWrite (fhEqualFold env) (Some user) meta reqPath of
         None \<Rightarrow> None
       | Some canWrite \<Rightarrow>
           let bypass = CanWriteContentBypassUserPerms meta reqPath; writeHere = (canWrite \<and> (CanWriteContent (Permission user) \<or> bypass))
           in if refresh \<and> \<not> writeHere then answer 403 st
              else case apiList api meta reqPath (refresh, \<not> IsGuest user \<and> \<not> fhHideDetails env) st of
                None \<Rightarrow> None
              | Some (None, st1) \<Rightarrow> answer 500 st1
              | Some (Some objs, st1) \<Rightarrow> list_answer env api meta reqPath page canWrite bypass writeHere objs st1))"

definition filterDirs :: "Obj list \<Rightarrow> string list" where
  "filterDirs objs = map GetName (filter IsDir objs)"

definition FsDirs :: "fs_env \<Rightarrow> 'st fs_api \<Rightarrow> User \<Rightarrow> string \<Rightarrow> string \<Rightarrow> bool \<Rightarrow> 'st handler" where
  "FsDirs env api user path password forceRoot =
     (let list_dirs = (\<lambda>reqPath. readable env api user reqPath password (\<lambda>meta st.
            case apiList api meta reqPath (False, False) st of
              None \<Rightarrow> None
            | Some (None, st1) \<Rightarrow> answer 500 st1
            | Some (Some objs, st1) \<Rightarrow> Some (FsNames (filterDirs objs), st1)))
      in if forceRoot then (if IsAdmin user then list_dirs path else answer 403) else joined user path list_dirs)"

section \<open>Uploads\<close>

text \<open>The middleware, and the handler for a body that is the file.  \<open>headers\<close> are the path, the length of the content and the size header.\<close>

definition FsUp :: "fs_env \<Rightarrow> 'st fs_api \<Rightarrow> User \<Rightarrow> string \<Rightarrow> 'st handler \<Rightarrow> 'st handler" where
  "FsUp env api user filePath rest =
     (case url_decode filePath of
        None \<Rightarrow> answer 400
      | Some path \<Rightarrow>
          joined user path (\<lambda>reqPath. let parentPath = Dir reqPath in
            nearest api parentPath (\<lambda>parentMeta.
              require (Some (CanWriteContent (Permission user) \<or> CanWriteContentBypassUserPerms parentMeta parentPath)) 403
                (require (CanWrite (fhEqualFold env) (Some user) parentMeta parentPath) 403 rest))))"

definition upload_size :: "int64 \<Rightarrow> string \<Rightarrow> int64 option" where
  "upload_size contentLength sizeStr =
     (if contentLength < 0 \<and> sizeStr \<noteq> [] then (case ParseInt sizeStr of (n, None) \<Rightarrow> Some n | (_, Some _) \<Rightarrow> None) else Some contentLength)"

definition stream_put :: "fs_env \<Rightarrow> 'st fs_api \<Rightarrow> bool \<Rightarrow> int64 \<Rightarrow> string \<Rightarrow> string \<Rightarrow> 'st handler" where
  "stream_put env api asTask contentLength sizeStr path st =
     (let (dir, name) = PathSplit path
      in if fhIgnored env name then answer 403 st
         else case upload_size contentLength sizeStr of
           None \<Rightarrow> answer 400 st
         | Some n \<Rightarrow>
             (case apiPut api asTask dir name n st of
                ((tsk, ok), st1) \<Rightarrow> if \<not> ok then answer 500 st1 else if tsk then Some (FsTasks 1, st1) else answer 200 st1))"

definition FsStream :: "fs_env \<Rightarrow> 'st fs_api \<Rightarrow> User \<Rightarrow> string \<Rightarrow> bool \<Rightarrow> bool \<Rightarrow> int64 \<Rightarrow> string \<Rightarrow> 'st handler" where
  "FsStream env api user filePath asTask overwrite contentLength sizeStr =
     (case url_decode filePath of
        None \<Rightarrow> answer 400
      | Some path0 \<Rightarrow>
          joined user path0 (\<lambda>path st.
            case (if overwrite then Some (None, st) else apiGet api path st) of
              None \<Rightarrow> None
            | Some (Some res, st1) \<Rightarrow> answer 403 st1
            | Some (None, st1) \<Rightarrow> stream_put env api asTask contentLength sizeStr path st1))"

end
