(* ===== verification/Fs_Props.thy ===== *)
theory Fs_Props
  imports Fs_Handlers Share_Props
begin

text \<open>
  What the requests of a user can reach: no request reads or changes anything outside the base path of the user, and changes are made only
  at or below a directory that the records of its path let the user write, with the permission for that kind of change.
\<close>

section \<open>Paths that handlers build\<close>

definition plain_name :: "string \<Rightarrow> bool" where
  "plain_name n \<longleftrightarrow> valid_name n \<and> CHR 0x5C \<notin> set n"

lemma checkRelativePath_iff: "checkRelativePath n \<longleftrightarrow> plain_name n"
  by (auto simp: checkRelativePath_def plain_name_def valid_name_def)

lemma fix_comps_slash_name:
  assumes "plain_name n"
  shows "fix_comps (p @ slash # n) = fix_comps p @ [n]"
proof -
  have n: "slash \<notin> set n" "CHR 0x5C \<notin> set n" "valid_name n" using assms by (auto simp: plain_name_def valid_name_def)
  have r: "ReplaceAll1 (p @ slash # n) (CHR 0x5C) ''/'' = ReplaceAll1 p (CHR 0x5C) ''/'' @ slash # n"
    using n(2) ReplaceAll1_id [of "CHR 0x5C" n "''/''"] by (simp add: ReplaceAll1_def)
  have "clean_comps True (Split slash (q @ slash # n)) = clean_comps True (Split slash q) @ [n]" for q
    using n by (simp add: Split_append_slash Split_no_sep clean_comps_def clean_step_def valid_name_def)
  then show ?thesis by (simp add: fix_comps_def r)
qed

lemma IsSubPath_slash_name: "IsSubPath b p \<Longrightarrow> plain_name n \<Longrightarrow> IsSubPath b (p @ slash # n)"
  by (simp add: IsSubPath_iff fix_comps_slash_name)

lemma clean_of_joined: "JoinPath u path = Inr p \<Longrightarrow> IsSubPath (BasePath u) p \<and> p = path_of (fix_comps p)"
  using JoinBasePath_Inr [of "BasePath u" path p] by (auto simp: JoinPath_def IsSubPath_iff)

text \<open>Paths as the handlers hand them on.\<close>

definition tidy :: "string \<Rightarrow> bool" where
  "tidy p \<longleftrightarrow> p \<noteq> [] \<and> hd p = slash \<and> CHR 0x5C \<notin> set p"

lemma tidy_path_of: "tidy (path_of (fix_comps p))"
  using fix_comps_no_backslash [of _ p] set_Join [of "fix_comps p" "[slash]"] by (force simp: tidy_def path_of_def)

lemma fix_comps_PathJoin:
  assumes "tidy p" "plain_name n"
  shows "fix_comps (PathJoin p n) = fix_comps p @ [n]"
proof -
  have q: "CHR 0x5C \<notin> set (p @ slash # n)" using assms by (auto simp: tidy_def plain_name_def)
  have c: "clean_comps True (Split slash (p @ slash # n)) = fix_comps p @ [n]"
    using fix_comps_slash_name [OF assms(2), of p] ReplaceAll1_id [OF q] by (simp add: fix_comps_def)
  have "PathJoin p n = path_of (fix_comps p @ [n])" using assms(1) c by (simp add: PathJoin_def tidy_def Clean_rooted)
  moreover have "fix_comps (path_of (fix_comps p @ [n])) = fix_comps p @ [n]"
    using fix_comps_valid [of p] fix_comps_no_backslash [of _ p] assms(2) by (intro fix_comps_path_of) (auto simp: plain_name_def)
  ultimately show ?thesis by simp
qed

lemma with_slash_tidy: "tidy p \<Longrightarrow> tidy (with_slash p)"
  by (auto simp: tidy_def with_slash_def)

lemma fix_comps_with_slash: "p = path_of (fix_comps p) \<Longrightarrow> fix_comps (with_slash p) = fix_comps p"
  using fix_comps_path_slash [of p] by (auto simp: with_slash_def)

lemma joinedD:
  assumes "JoinPath u path = Inr p"
  shows "IsSubPath (BasePath u) p" "tidy p" "fix_comps (with_slash p) = fix_comps p" "tidy (with_slash p)"
  using clean_of_joined [OF assms] tidy_path_of [of p] fix_comps_with_slash [of p] with_slash_tidy [of p] by auto

lemma IsSubPath_PathJoin: "IsSubPath b p \<Longrightarrow> tidy p \<Longrightarrow> plain_name n \<Longrightarrow> IsSubPath b (PathJoin p n)"
  by (simp add: IsSubPath_iff fix_comps_PathJoin)

lemma IsSubPath_PathJoin_self: "tidy p \<Longrightarrow> plain_name n \<Longrightarrow> IsSubPath p (PathJoin p n)"
  by (simp add: IsSubPath_iff fix_comps_PathJoin)

lemma IsSubPath_dir_path: "list_all plain_name d \<Longrightarrow> IsSubPath p (dir_path p d)"
  by (induction d) (auto simp: IsSubPath_iff fix_comps_slash_name)

section \<open>Two worlds that a user cannot tell apart\<close>

definition nearest_meta :: "'st fs_api \<Rightarrow> string \<Rightarrow> Meta option option" where
  "nearest_meta api p = (case apiMeta api p of Inl e \<Rightarrow> if e = MetaNotFound then Some None else None | Inr m \<Rightarrow> Some (Some m))"

definition may_write :: "fs_env \<Rightarrow> 'st fs_api \<Rightarrow> User \<Rightarrow> string \<Rightarrow> bool" where
  "may_write env api u d \<longleftrightarrow> (\<exists>meta. nearest_meta api d = Some meta \<and> CanWrite (fhEqualFold env) (Some u) meta d = Some True)"

definition may_fill :: "fs_env \<Rightarrow> 'st fs_api \<Rightarrow> User \<Rightarrow> string \<Rightarrow> bool" where
  "may_fill env api u d \<longleftrightarrow> may_write env api u d \<and>
     (\<exists>meta. nearest_meta api d = Some meta \<and> (CanWriteContent (Permission u) \<or> CanWriteContentBypassUserPerms meta d))"

definition may_read :: "fs_env \<Rightarrow> 'st fs_api \<Rightarrow> User \<Rightarrow> string \<Rightarrow> bool" where
  "may_read env api u d \<longleftrightarrow> (\<exists>meta. nearest_meta api d = Some meta \<and> CanRead (fhEqualFold env) (Some u) meta d = Some True)"

text \<open>The two agree on the records, on everything that can be read at or below the base path of the user, and on the changes that the
  user may make there.\<close>

definition same_inside :: "fs_env \<Rightarrow> User \<Rightarrow> 'st fs_api \<Rightarrow> 'st fs_api \<Rightarrow> bool" where
  "same_inside env u api api' \<longleftrightarrow>
     apiMeta api = apiMeta api' \<and>
     (\<forall>p. IsSubPath (BasePath u) p \<longrightarrow>
        (\<forall>meta. apiList api meta p = apiList api' meta p \<and> apiEncrypt api meta p = apiEncrypt api' meta p) \<and>
        apiGet api p = apiGet api' p \<and> apiStorage api p = apiStorage api' p \<and> (\<forall>dir n. apiSign api dir n p = apiSign api' dir n p)) \<and>
     (\<forall>p d. IsSubPath (BasePath u) p \<longrightarrow> IsSubPath d p \<longrightarrow> may_write env api u d \<longrightarrow>
        (CanRemove (Permission u) \<longrightarrow> apiRemove api p = apiRemove api' p) \<and> (CanRename (Permission u) \<longrightarrow> apiRename api p = apiRename api' p)) \<and>
     (\<forall>p. IsSubPath (BasePath u) p \<longrightarrow> may_fill env api u (Dir p) \<longrightarrow>
        apiMakeDir api p = apiMakeDir api' p \<and> (\<forall>t. apiPut api t (fst (PathSplit p)) (snd (PathSplit p)) = apiPut api' t (fst (PathSplit p)) (snd (PathSplit p)))) \<and>
     (\<forall>p q d. IsSubPath (BasePath u) p \<longrightarrow> IsSubPath (BasePath u) q \<longrightarrow> IsSubPath d p \<longrightarrow> may_write env api u q \<longrightarrow>
        (CanMove (Permission u) \<longrightarrow> may_write env api u d \<longrightarrow> apiMove api p q = apiMove api' p q) \<and>
        (CanCopy (Permission u) \<longrightarrow> may_read env api u d \<longrightarrow> apiCopy api p q = apiCopy api' p q \<and> apiMerge api p q = apiMerge api' p q))"

text \<open>Listings name their objects by plain names.\<close>

definition plain_listings :: "User \<Rightarrow> 'st fs_api \<Rightarrow> bool" where
  "plain_listings u api \<longleftrightarrow>
     (\<forall>meta p a st objs st'. IsSubPath (BasePath u) p \<longrightarrow> apiList api meta p a st = Some (Some objs, st') \<longrightarrow> list_all (\<lambda>f. plain_name (GetName f)) objs)"

lemma same_insideD:
  assumes "same_inside env u api api'"
  shows "apiMeta api = apiMeta api'"
    "IsSubPath (BasePath u) p \<Longrightarrow> apiList api meta p = apiList api' meta p"
    "IsSubPath (BasePath u) p \<Longrightarrow> apiEncrypt api meta p = apiEncrypt api' meta p"
    "IsSubPath (BasePath u) p \<Longrightarrow> apiGet api p = apiGet api' p"
    "IsSubPath (BasePath u) p \<Longrightarrow> apiStorage api p = apiStorage api' p"
    "IsSubPath (BasePath u) p \<Longrightarrow> apiSign api dir n p = apiSign api' dir n p"
    "IsSubPath (BasePath u) p \<Longrightarrow> IsSubPath d p \<Longrightarrow> may_write env api u d \<Longrightarrow> CanRemove (Permission u) \<Longrightarrow> apiRemove api p = apiRemove api' p"
    "IsSubPath (BasePath u) p \<Longrightarrow> IsSubPath d p \<Longrightarrow> may_write env api u d \<Longrightarrow> CanRename (Permission u) \<Longrightarrow> apiRename api p = apiRename api' p"
    "IsSubPath (BasePath u) p \<Longrightarrow> may_fill env api u (Dir p) \<Longrightarrow> apiMakeDir api p = apiMakeDir api' p"
    "IsSubPath (BasePath u) p \<Longrightarrow> may_fill env api u (Dir p) \<Longrightarrow> PathSplit p = (pdir, n) \<Longrightarrow> apiPut api t pdir n = apiPut api' t pdir n"
    "IsSubPath (BasePath u) p \<Longrightarrow> IsSubPath (BasePath u) q \<Longrightarrow> IsSubPath d p \<Longrightarrow> may_write env api u q \<Longrightarrow> CanMove (Permission u) \<Longrightarrow> may_write env api u d \<Longrightarrow>
       apiMove api p q = apiMove api' p q"
    "IsSubPath (BasePath u) p \<Longrightarrow> IsSubPath (BasePath u) q \<Longrightarrow> IsSubPath d p \<Longrightarrow> may_write env api u q \<Longrightarrow> CanCopy (Permission u) \<Longrightarrow> may_read env api u d \<Longrightarrow>
       apiCopy api p q = apiCopy api' p q"
    "IsSubPath (BasePath u) p \<Longrightarrow> IsSubPath (BasePath u) q \<Longrightarrow> IsSubPath d p \<Longrightarrow> may_write env api u q \<Longrightarrow> CanCopy (Permission u) \<Longrightarrow> may_read env api u d \<Longrightarrow>
       apiMerge api p q = apiMerge api' p q"
  using assms unfolding same_inside_def by (blast, blast, blast, blast, blast, blast, blast, blast, blast, metis fst_conv snd_conv, blast, blast, blast)

lemma may_cong: "apiMeta api = apiMeta api' \<Longrightarrow> may_write env api = may_write env api' \<and> may_read env api = may_read env api' \<and> may_fill env api = may_fill env api'"
  by (simp add: fun_eq_iff may_write_def may_read_def may_fill_def nearest_meta_def)

lemma same_inside_sym: "same_inside env u api api' \<Longrightarrow> same_inside env u api' api"
  using may_cong [OF same_insideD(1), of env u api api' env] unfolding same_inside_def by (simp add: eq_commute)

lemma plain_listings_same: "same_inside env u api api' \<Longrightarrow> plain_listings u api \<Longrightarrow> plain_listings u api'"
  unfolding plain_listings_def by (metis same_insideD(2))

section \<open>The checks\<close>

lemma joined_cong:
  assumes "\<And>p. JoinPath u path = Inr p \<Longrightarrow> f p = g p"
  shows "joined u path f = joined u path g"
  using assms by (auto simp: joined_def split: sum.split)

lemma nearest_cong:
  assumes "apiMeta api = apiMeta api'" "\<And>meta. nearest_meta api p = Some meta \<Longrightarrow> f meta = g meta"
  shows "nearest api p f = nearest api' p g"
  using assms by (auto simp: nearest_def nearest_meta_def split: sum.split)

lemma require_cong:
  assumes "ok = Some True \<Longrightarrow> f = g"
  shows "require ok code f = require ok code g"
  using assms by (auto simp: require_def split: option.split)

lemma writable_dir_cong:
  assumes same: "same_inside env u api api'"
    and f: "\<And>dir meta. IsSubPath (BasePath u) dir \<Longrightarrow> tidy dir \<Longrightarrow> tidy (with_slash dir) \<Longrightarrow> fix_comps (with_slash dir) = fix_comps dir \<Longrightarrow> may_write env api u dir \<Longrightarrow> f dir meta = g dir meta"
  shows "writable_dir env api u path f = writable_dir env api' u path g"
  unfolding writable_dir_def
  by (intro joined_cong nearest_cong require_cong same_insideD(1) [OF same] f) (auto dest: joinedD simp: may_write_def)


section \<open>The handlers\<close>

lemma FsMkdir_same: "same_inside env u api api' \<Longrightarrow> FsMkdir env api u path = FsMkdir env api' u path"
  unfolding FsMkdir_def Let_def
  by (intro joined_cong nearest_cong require_cong ext arg_cong [of _ _ finished] fun_cong [OF same_insideD(9)] same_insideD(1))
     (auto simp: may_fill_def may_write_def dest: joinedD)

lemma FsUp_same:
  assumes same: "same_inside env u api api'"
    and rest: "\<And>path p. url_decode filePath = Some path \<Longrightarrow> JoinPath u path = Inr p \<Longrightarrow> may_fill env api u (Dir p) \<Longrightarrow> f = g"
  shows "FsUp env api u filePath f = FsUp env api' u filePath g"
  unfolding FsUp_def Let_def
  by (auto split: option.split intro!: joined_cong nearest_cong require_cong same_insideD(1) [OF same] rest simp: may_fill_def may_write_def)

lemma FsStream_same:
  assumes same: "same_inside env u api api'" and fill: "\<And>path p. url_decode filePath = Some path \<Longrightarrow> JoinPath u path = Inr p \<Longrightarrow> may_fill env api u (Dir p)"
  shows "FsStream env api u filePath asTask overwrite len sizeStr = FsStream env api' u filePath asTask overwrite len sizeStr"
proof (cases "url_decode filePath")
  case (Some path)
  show ?thesis unfolding FsStream_def Some option.case
  proof (rule joined_cong, rule ext)
    fix p st assume p: "JoinPath u path = Inr p"
    have "stream_put env api asTask len sizeStr p = stream_put env api' asTask len sizeStr p"
      using same_insideD(10) [OF same joinedD(1) [OF p] fill [OF Some p]] by (cases "PathSplit p") (simp add: fun_eq_iff stream_put_def split: option.split)
    then show "(case (if overwrite then Some (None, st) else apiGet api p st) of None \<Rightarrow> None | Some (Some res, st1) \<Rightarrow> answer 403 st1
        | Some (None, st1) \<Rightarrow> stream_put env api asTask len sizeStr p st1) =
      (case (if overwrite then Some (None, st) else apiGet api' p st) of None \<Rightarrow> None | Some (Some res, st1) \<Rightarrow> answer 403 st1
        | Some (None, st1) \<Rightarrow> stream_put env api' asTask len sizeStr p st1)"
      using same_insideD(4) [OF same joinedD(1) [OF p]] by (simp split: option.split)
  qed
qed (simp add: FsStream_def)

lemma names_same:
  assumes same: "same_inside env u api api'" and d: "IsSubPath (BasePath u) dst" "tidy dst" and n: "list_all plain_name names"
  shows "new_names api dst skip names st = new_names api' dst skip names st" "copy_names api dst skip merge names st = copy_names api' dst skip merge names st"
proof -
  have g: "apiGet api (PathJoin dst m) = apiGet api' (PathJoin dst m)" if "plain_name m" for m
    by (rule same_insideD(4) [OF same IsSubPath_PathJoin [OF d that]])
  show "new_names api dst skip names st = new_names api' dst skip names st" using n
    by (induction names arbitrary: st) (auto simp: g split: option.split prod.split)
  show "copy_names api dst skip merge names st = copy_names api' dst skip merge names st" using n
    by (induction names arbitrary: st) (auto simp: g split: option.split prod.split)
qed

lemma new_names_sub: "new_names api dst skip names st = Some (Inr ns, st') \<Longrightarrow> set ns \<subseteq> set names"
  by (induction names arbitrary: st ns) (auto simp: map_sum_id_Inr split: option.splits prod.splits if_splits, blast+)

lemma copy_names_sub: "copy_names api dst skip merge names st = Some (Inr ns, st') \<Longrightarrow> set ns \<subseteq> set names"
  by (induction names arbitrary: st ns) (auto simp: map_sum_id_Inr split: option.splits prod.splits if_splits, blast+)

lemma safe_names_plain: "safe_names src names = Inr ns \<Longrightarrow> list_all plain_name ns"
  by (induction names arbitrary: ns) (auto simp: Let_def checkRelativePath_iff map_sum_id_Inr split: if_splits)

lemma transfers_same:
  assumes "\<And>n. n \<in> set names \<Longrightarrow> f (PathJoin src n) dst = g (PathJoin src n) dst"
  shows "transfers f src dst names k st = transfers g src dst names k st"
  using assms by (induction names arbitrary: k st) (auto split: prod.split)

lemma run_names_same:
  assumes "sel st = sel' st" "\<And>ns st'. sel st = Some (Inr ns, st') \<Longrightarrow> set ns \<subseteq> N" "\<And>n. n \<in> N \<Longrightarrow> f (PathJoin src n) dst = g (PathJoin src n) dst"
  shows "run_names sel f src dst st = run_names sel' g src dst st"
  unfolding run_names_def assms(1) [symmetric]
  by (auto split: option.split sum.split intro!: transfers_same assms(3) dest: assms(2))


lemma under: "IsSubPath b p \<Longrightarrow> IsSubPath p q \<Longrightarrow> IsSubPath b q"
  by (auto simp: IsSubPath_iff intro: prefix_order.trans)

lemma FsMove_same:
  assumes same: "same_inside env u api api'"
  shows "FsMove env api u req = FsMove env api' u req"
  unfolding FsMove_def Let_def
proof (intro if_cong refl require_cong writable_dir_cong [OF same])
  fix src dst
  assume u: "Some (CanMove (Permission u)) = Some True"
    and s: "IsSubPath (BasePath u) src" "tidy (with_slash src)" "fix_comps (with_slash src) = fix_comps src" "may_write env api u src"
    and d: "IsSubPath (BasePath u) dst" "tidy dst" "may_write env api u dst"
  let ?run = "\<lambda>api names. run_names (if mcOverwrite req then (\<lambda>st. Some (Inr names, st)) else new_names api dst (mcSkipExisting req) names) (apiMove api) (with_slash src) dst"
  have "?run api names = ?run api' names" if n: "list_all plain_name names" for names
  proof (rule ext, rule run_names_same)
    show "apiMove api (PathJoin (with_slash src) m) dst = apiMove api' (PathJoin (with_slash src) m) dst" if "m \<in> set names" for m
    proof -
      have m: "IsSubPath src (PathJoin (with_slash src) m)" using s that n by (simp add: IsSubPath_iff fix_comps_PathJoin list_all_iff)
      from same_insideD(11) [OF same under [OF s(1) m] d(1) m d(3) _ s(4)] u show ?thesis by simp
    qed
  qed (use names_same(1) [OF same d(1,2) n] in \<open>auto split: if_splits dest: new_names_sub\<close>)
  then show "(case safe_names (with_slash src) (mcNames req) of Inl code \<Rightarrow> answer code | Inr names \<Rightarrow> ?run api names) =
    (case safe_names (with_slash src) (mcNames req) of Inl code \<Rightarrow> answer code | Inr names \<Rightarrow> ?run api' names)"
    using safe_names_plain by (auto split: sum.split)
qed

lemma FsCopy_same:
  assumes same: "same_inside env u api api'"
  shows "FsCopy env api u req = FsCopy env api' u req"
  unfolding FsCopy_def Let_def
proof (intro if_cong refl require_cong joined_cong nearest_cong same_insideD(1) [OF same] writable_dir_cong [OF same])
  fix src meta dst
  assume u: "Some (CanCopy (Permission u)) = Some True" and j: "JoinPath u (mcSrcDir req) = Inr src"
    and r: "nearest_meta api src = Some meta" "CanRead (fhEqualFold env) (Some u) meta src = Some True"
    and d: "IsSubPath (BasePath u) dst" "tidy dst" "may_write env api u dst"
  have read: "may_read env api u src" using r by (auto simp: may_read_def)
  let ?run = "\<lambda>api names. run_names (if mcOverwrite req then (\<lambda>st. Some (Inr names, st)) else copy_names api dst (mcSkipExisting req) (mcMerge req) names)
    (if mcMerge req then apiMerge api else apiCopy api) (with_slash src) dst"
  have "?run api names = ?run api' names" if n: "list_all plain_name names" for names
  proof (rule ext, rule run_names_same)
    show "(if mcMerge req then apiMerge api else apiCopy api) (PathJoin (with_slash src) m) dst = (if mcMerge req then apiMerge api' else apiCopy api') (PathJoin (with_slash src) m) dst"
      if "m \<in> set names" for m
    proof -
      have m: "IsSubPath src (PathJoin (with_slash src) m)" using joinedD [OF j] that n by (simp add: IsSubPath_iff fix_comps_PathJoin list_all_iff)
      from same_insideD(12,13) [OF same under [OF joinedD(1) [OF j] m] d(1) m d(3) _ read] u show ?thesis by simp
    qed
  qed (use names_same(2) [OF same d(1,2) n] in \<open>auto split: if_splits dest: copy_names_sub\<close>)
  then show "(case safe_names (with_slash src) (mcNames req) of Inl code \<Rightarrow> answer code | Inr names \<Rightarrow> ?run api names) =
    (case safe_names (with_slash src) (mcNames req) of Inl code \<Rightarrow> answer code | Inr names \<Rightarrow> ?run api' names)"
    using safe_names_plain by (auto split: sum.split)
qed

lemma remove_names_same:
  assumes same: "same_inside env u api api'" and d: "IsSubPath (BasePath u) dir" "tidy dir" "may_write env api u dir" and u: "CanRemove (Permission u)"
  shows "remove_names api dir names st = remove_names api' dir names st"
proof -
  have "apiRemove api (PathJoin dir n) = apiRemove api' (PathJoin dir n)" if "plain_name n" for n
    by (rule same_insideD(7) [OF same IsSubPath_PathJoin [OF d(1,2) that] IsSubPath_PathJoin_self [OF d(2) that] d(3) u])
  then show ?thesis by (induction names arbitrary: st) (auto simp: Let_def checkRelativePath_iff split: prod.split)
qed

lemma FsRemove_same: "same_inside env u api api' \<Longrightarrow> FsRemove env api u dir names = FsRemove env api' u dir names"
  unfolding FsRemove_def by (intro if_cong refl require_cong writable_dir_cong ext) (auto intro!: remove_names_same)

lemma rename_same:
  assumes same: "same_inside env u api api'" and d: "IsSubPath (BasePath u) dir" "may_write env api u dir" and u: "CanRename (Permission u)" and n: "plain_name n"
  shows "apiRename api (dir @ slash # n) = apiRename api' (dir @ slash # n)"
  by (rule same_insideD(8) [OF same IsSubPath_slash_name [OF d(1) n] _ d(2) u]) (simp add: IsSubPath_iff fix_comps_slash_name [OF n])

lemma FsBatchRename_same: 
  assumes same: "same_inside env u api api'"
  shows "FsBatchRename env api u dir rs = FsBatchRename env api' u dir rs"
proof -
  have "batch_rename api p rs st = batch_rename api' p rs st" if "IsSubPath (BasePath u) p" "may_write env api u p" "CanRename (Permission u)" for p rs st
    using rename_same [OF same that] by (induction rs arbitrary: st) (auto simp: checkRelativePath_iff split: prod.split)
  then show ?thesis unfolding FsBatchRename_def by (intro require_cong writable_dir_cong [OF same] ext) auto
qed

lemma FsRegexRename_same:
  assumes same: "same_inside env u api api'" and pl: "plain_listings u api"
  shows "FsRegexRename env api u dir src new = FsRegexRename env api' u dir src new"
proof -
  have r: "regex_rename api p m f fs st = regex_rename api' p m f fs st"
    if "IsSubPath (BasePath u) p" "may_write env api u p" "CanRename (Permission u)" "list_all (\<lambda>f. plain_name (GetName f)) fs" for p m f fs st
    using rename_same [OF same that(1-3)] that(4) by (induction fs arbitrary: st) (auto split: prod.split)
  have "(case apiList api meta p (False, False) st of None \<Rightarrow> None | Some (None, st1) \<Rightarrow> answer 500 st1
          | Some (Some files, st1) \<Rightarrow> regex_rename api p matches f files st1) =
        (case apiList api' meta p (False, False) st of None \<Rightarrow> None | Some (None, st1) \<Rightarrow> answer 500 st1
          | Some (Some files, st1) \<Rightarrow> regex_rename api' p matches f files st1)"
    if p: "IsSubPath (BasePath u) p" "may_write env api u p" "CanRename (Permission u)" for p meta matches f st
    using same_insideD(2) [OF same p(1), of meta] pl p unfolding plain_listings_def by (auto split: option.split intro!: r) metis
  then show ?thesis unfolding FsRegexRename_def by (intro require_cong writable_dir_cong [OF same] ext) (auto split: option.split)
qed


text \<open>The two loops over queues: a run in one world is a run in the other.\<close>

definition walks :: "fs_env \<Rightarrow> User \<Rightarrow> 'st fs_api \<Rightarrow> 'st fs_api \<Rightarrow> string \<Rightarrow> bool" where
  "walks env u api api' src \<longleftrightarrow> same_inside env u api api' \<and> plain_listings u api \<and> IsSubPath (BasePath u) src \<and> may_write env api u src"

lemma walks_sym: "walks env u api api' src \<Longrightarrow> walks env u api' api src"
  unfolding walks_def using same_inside_sym plain_listings_same may_cong [OF same_insideD(1)] by metis

lemma walks_list:
  assumes "walks env u api api' src" "list_all plain_name d"
  shows "apiList api meta (dir_path src d) = apiList api' meta (dir_path src d)"
    "apiList api' meta (dir_path src d) a st = Some (Some fs, st') \<Longrightarrow> list_all (\<lambda>f. plain_name (GetName f)) fs"
    "IsSubPath (BasePath u) (dir_path src d)"
proof -
  have w: "same_inside env u api api'" "plain_listings u api" "IsSubPath (BasePath u) src" using assms(1) by (auto simp: walks_def)
  show base: "IsSubPath (BasePath u) (dir_path src d)" by (rule under [OF w(3) IsSubPath_dir_path [OF assms(2)]])
  show list: "apiList api meta (dir_path src d) = apiList api' meta (dir_path src d)" by (rule same_insideD(2) [OF w(1) base])
  show "list_all (\<lambda>f. plain_name (GetName f)) fs" if "apiList api' meta (dir_path src d) a st = Some (Some fs, st')"
    using w(2) base that list unfolding plain_listings_def by metis
qed

lemma remove_empty_run:
  assumes "remove_empty api meta src queue removed st = Some y"
  shows "walks env u api api' src \<Longrightarrow> CanRemove (Permission u) \<Longrightarrow> list_all (list_all plain_name) queue \<Longrightarrow> remove_empty api' meta src queue removed st = Some y"
  using assms
proof (induction api meta src queue removed st y rule: remove_empty.raw_induct [rotated, consumes 1, case_names 1])
  case (1 rec api meta src queue removed st y)
  show ?case
  proof (cases queue)
    case Nil
    with 1(2) show ?thesis by (simp add: remove_empty.simps [of api'])
  next
    case (Cons d rest)
    let ?p = "dir_path src d"
    have d: "list_all plain_name d" "list_all (list_all plain_name) rest" using 1(5) Cons by auto
    have tl: "list_all plain_name (tl d)" using d(1) by (cases d) auto
    have w: "same_inside env u api api'" "may_write env api u src" using 1(3) by (auto simp: walks_def)
    have rm: "apiRemove api ?p = apiRemove api' ?p"
      by (rule same_insideD(7) [OF w(1) walks_list(3) [OF 1(3) d(1)] IsSubPath_dir_path [OF d(1)] w(2) 1(4)])
    have sub: "list_all (list_all plain_name) (map (\<lambda>f. GetName f # d) (filter IsDir fs))" if "apiList api' meta ?p (True, False) st = Some (Some fs, st1)" for fs st1
      using walks_list(2) [OF 1(3) d(1) that] d(1) by (auto simp: list_all_iff)
    note list = walks_list(1) [OF 1(3) d(1)] and IH = 1(1) [OF _ 1(3,4)]
    show ?thesis
      using 1(2) Cons d(2) tl sub
      unfolding remove_empty.simps [of api' meta src queue removed st]
      by (auto simp: Let_def list rm split: option.splits prod.splits if_splits intro!: IH)
  qed
qed

lemma option_eqI: "(\<And>y. f = Some y \<Longrightarrow> g = Some y) \<Longrightarrow> (\<And>y. g = Some y \<Longrightarrow> f = Some y) \<Longrightarrow> f = g"
  by (cases f; cases g) auto

lemma remove_empty_same:
  assumes "walks env u api api' src" "CanRemove (Permission u)" "list_all (list_all plain_name) queue"
  shows "remove_empty api meta src queue removed st = remove_empty api' meta src queue removed st"
  by (rule option_eqI) (erule remove_empty_run [OF _ assms], erule remove_empty_run [OF _ walks_sym [OF assms(1)] assms(2,3)])


lemma plain_rootD:
  assumes "walks env u api api' src" "apiList api' meta src a st = Some (Some fs, st')"
  shows "list_all (\<lambda>f. plain_name (GetName f)) fs"
  using walks_list(2) [OF assms(1), of "[]"] assms(2) by simp

lemma FsRemoveEmptyDirectory_same:
  assumes same: "same_inside env u api api'" and pl: "plain_listings u api"
  shows "FsRemoveEmptyDirectory env api u dir = FsRemoveEmptyDirectory env api' u dir"
  unfolding FsRemoveEmptyDirectory_def
proof (intro require_cong writable_dir_cong [OF same] ext)
  fix src meta st
  assume u: "Some (CanRemove (Permission u)) = Some True" and s: "IsSubPath (BasePath u) src" "may_write env api u src"
  have w: "walks env u api api' src" using same pl s by (simp add: walks_def)
  have "remove_empty api meta src (map (\<lambda>f. [GetName f]) (filter IsDir fs)) {} st1 = remove_empty api' meta src (map (\<lambda>f. [GetName f]) (filter IsDir fs)) {} st1"
    if "apiList api' meta src (False, False) st = Some (Some fs, st1)" for fs st1
    using plain_rootD [OF w that] u by (intro remove_empty_same [OF w]) (auto simp: list_all_iff)
  then show "(case apiList api meta src (False, False) st of None \<Rightarrow> None | Some (None, st1) \<Rightarrow> answer 500 st1
      | Some (Some rootFiles, st1) \<Rightarrow> remove_empty api meta src (map (\<lambda>f. [GetName f]) (filter IsDir rootFiles)) {} st1) =
    (case apiList api' meta src (False, False) st of None \<Rightarrow> None | Some (None, st1) \<Rightarrow> answer 500 st1
      | Some (Some rootFiles, st1) \<Rightarrow> remove_empty api' meta src (map (\<lambda>f. [GetName f]) (filter IsDir rootFiles)) {} st1)"
    using same_insideD(2) [OF same s(1), of meta] by (auto split: option.split)
qed

text \<open>The entries of the queue of a recursive move.\<close>

definition plain_entries :: "(string list \<times> Obj) list \<Rightarrow> bool" where
  "plain_entries q \<longleftrightarrow> list_all (\<lambda>(d, f). list_all plain_name d \<and> plain_name (GetName f)) q"

lemma collect_files_run:
  assumes "collect_files api meta policy src dst queue existing moving st = Some y"
  shows "walks env u api api' src \<Longrightarrow> plain_entries queue \<Longrightarrow> list_all (\<lambda>p. IsSubPath src p) moving \<Longrightarrow>
    collect_files api' meta policy src dst queue existing moving st = Some y \<and> (\<forall>fs st'. y = (Inr fs, st') \<longrightarrow> list_all (\<lambda>p. IsSubPath src p) fs)"
  using assms
proof (induction api meta policy src dst queue existing moving st y rule: collect_files.raw_induct [rotated, consumes 1, case_names 1])
  case (1 rec api meta policy src dst queue existing moving st y)
  show ?case
  proof (cases queue)
    case Nil
    with 1(2,5) show ?thesis by (auto simp: collect_files.simps [of api'])
  next
    case (Cons e rest)
    obtain d f where e: "e = (d, f)" by (cases e)
    have d: "list_all plain_name d" "plain_name (GetName f)" "plain_entries rest" using 1(4) Cons e by (auto simp: plain_entries_def)
    have p: "dir_path src d @ slash # GetName f = dir_path src (GetName f # d)" "list_all plain_name (GetName f # d)" using d by auto
    note list = walks_list(1) [OF 1(3) p(2), folded p(1)]
    have sub: "plain_entries (rest @ map (Pair (GetName f # d)) fs)"
      if "apiList api' meta (dir_path src d @ slash # GetName f) (True, False) st = Some (Some fs, st1)" for fs st1
      using walks_list(2) [OF 1(3) p(2) that [unfolded p(1)]] d by (auto simp: plain_entries_def list_all_iff)
    have below: "IsSubPath src (dir_path src d @ slash # GetName f)" unfolding p(1) by (rule IsSubPath_dir_path [OF p(2)])
    note IH = 1(1) [OF _ 1(3)]
    note step = collect_files.simps [of api' meta policy src dst queue existing moving st]
    show ?thesis
    proof (cases "IsDir f")
      case True
      obtain r st1 where l: "apiList api' meta (dir_path src d @ slash # GetName f) (True, False) st = Some (r, st1)"
        using 1(2) Cons e True by (cases "apiList api' meta (dir_path src d @ slash # GetName f) (True, False) st") (auto simp: Let_def list)
      show ?thesis
      proof (cases r)
        case (Some fs)
        have "rec api meta policy src dst (rest @ map (Pair (GetName f # d)) fs) existing moving st1 = Some y"
          using 1(2) Cons e True l Some by (simp add: Let_def list)
        from IH [OF this sub [OF l [unfolded Some]] 1(5)] show ?thesis using step Cons e True l Some by (simp add: Let_def)
      qed (use 1(2) step Cons e True l in \<open>auto simp: Let_def list answer_def\<close>)
    next
      case False
      have more: "list_all (\<lambda>p. IsSubPath src p) (moving @ [dir_path src d @ slash # GetName f])" using 1(5) below by simp
      consider "dir_path src d = dst" | "dir_path src d \<noteq> dst" "GetName f \<in> set existing" "policy = CANCEL"
        | "dir_path src d \<noteq> dst" "GetName f \<in> set existing" "policy \<noteq> CANCEL" "policy = SKIP"
        | "dir_path src d \<noteq> dst" "\<not> (GetName f \<in> set existing \<and> (policy = CANCEL \<or> policy = SKIP))" by blast
      then show ?thesis
      proof cases
        case 4
        let ?ex = "if GetName f \<notin> set existing \<and> policy \<noteq> OVERWRITE then existing @ [GetName f] else existing"
        have "rec api meta policy src dst rest ?ex (moving @ [dir_path src d @ slash # GetName f]) st = Some y"
          using 1(2) Cons e False 4 by (auto simp: Let_def)
        from IH [OF this d(3) more] show ?thesis using step Cons e False 4 by (auto simp: Let_def)
      qed (use 1(2) step Cons e False IH [OF _ d(3) 1(5)] in \<open>auto simp: Let_def\<close>)
    qed
  qed
qed


lemma collect_files_same:
  assumes "walks env u api api' src" "plain_entries queue"
  shows "collect_files api meta policy src dst queue existing [] st = collect_files api' meta policy src dst queue existing [] st"
  by (rule option_eqI) (erule collect_files_run [OF _ assms, THEN conjunct1], simp, erule collect_files_run [OF _ walks_sym [OF assms(1)] assms(2), THEN conjunct1], simp)

lemma move_files_same:
  assumes "\<And>f. f \<in> set files \<Longrightarrow> apiMove api f dst = apiMove api' f dst"
  shows "move_files api dst files k st = move_files api' dst files k st"
  using assms by (induction files arbitrary: k st) (auto split: prod.split)

lemma list_case_cong:
  assumes "\<And>fs st1. X = Some (Some fs, st1) \<Longrightarrow> k fs st1 = k' fs st1"
  shows "(case X of None \<Rightarrow> None | Some (None, st1) \<Rightarrow> e st1 | Some (Some fs, st1) \<Rightarrow> k fs st1) =
    (case X of None \<Rightarrow> None | Some (None, st1) \<Rightarrow> e st1 | Some (Some fs, st1) \<Rightarrow> k' fs st1)"
  using assms by (auto split: option.split)

lemma FsRecursiveMove_same:
  assumes same: "same_inside env u api api'" and pl: "plain_listings u api"
  shows "FsRecursiveMove env api u src dst policy = FsRecursiveMove env api' u src dst policy"
  unfolding FsRecursiveMove_def
proof (intro require_cong writable_dir_cong [OF same] ext)
  fix s meta d st
  assume u: "Some (CanMove (Permission u)) = Some True" and s: "IsSubPath (BasePath u) s" "may_write env api u s"
    and d: "IsSubPath (BasePath u) d" "may_write env api u d"
  have w: "walks env u api api' s" using same pl s by (simp add: walks_def)
  let ?go = "\<lambda>api roots dsts st. case collect_files api meta policy s d (map (Pair []) roots) (map GetName dsts) [] st of
    None \<Rightarrow> None | Some (Inl code, st3) \<Rightarrow> answer code st3 | Some (Inr files, st3) \<Rightarrow> move_files api d files 0 st3"
  have go: "?go api roots dsts st2 = ?go api' roots dsts st2" if r: "list_all (\<lambda>f. plain_name (GetName f)) roots" for roots dsts st2
  proof -
    have q: "plain_entries (map (Pair []) roots)" using r by (simp add: plain_entries_def list_all_iff)
    have mv: "move_files api d files 0 st3 = move_files api' d files 0 st3"
      if c: "collect_files api meta policy s d (map (Pair []) roots) (map GetName dsts) [] st2 = Some (Inr files, st3)" for files st3
    proof (rule move_files_same)
      fix f assume "f \<in> set files"
      then have f: "IsSubPath s f" using collect_files_run [OF c w q] by (auto simp: list_all_iff)
      from same_insideD(11) [OF same under [OF s(1) f] d(1) f d(2) _ s(2)] u show "apiMove api f d = apiMove api' f d" by simp
    qed
    show ?thesis using mv unfolding collect_files_same [OF w q] by (auto split: option.split sum.split)
  qed
  have "list_all (\<lambda>f. plain_name (GetName f)) fs" if "apiList api' meta s (False, False) st = Some (Some fs, st1)" for fs st1
    by (rule plain_rootD [OF w that])
  with go show "(case apiList api meta s (False, False) st of None \<Rightarrow> None | Some (None, st1) \<Rightarrow> answer 500 st1
      | Some (Some rootFiles, st1) \<Rightarrow>
          (case (if policy = OVERWRITE then Some (Some [], st1) else apiList api meta d (False, False) st1) of None \<Rightarrow> None | Some (None, st2) \<Rightarrow> answer 500 st2
           | Some (Some dstFiles, st2) \<Rightarrow> ?go api rootFiles dstFiles st2)) =
    (case apiList api' meta s (False, False) st of None \<Rightarrow> None | Some (None, st1) \<Rightarrow> answer 500 st1
      | Some (Some rootFiles, st1) \<Rightarrow>
          (case (if policy = OVERWRITE then Some (Some [], st1) else apiList api' meta d (False, False) st1) of None \<Rightarrow> None | Some (None, st2) \<Rightarrow> answer 500 st2
           | Some (Some dstFiles, st2) \<Rightarrow> ?go api' rootFiles dstFiles st2))"
    unfolding same_insideD(2) [OF same s(1), of meta] same_insideD(2) [OF same d(1), of meta] by (intro list_case_cong) blast+
qed

text \<open>A rename asks for the object that has the new name, which is next to the renamed one; only for the base path itself that is outside.\<close>

lemma FsRename_same:
  assumes same: "same_inside env u api api'" and below: "fix_comps path \<noteq> [] \<or> fix_comps (BasePath u) = []"
  shows "FsRename env api u path name overwrite = FsRename env api' u path name overwrite"
  unfolding FsRename_def Let_def
proof (intro require_cong joined_cong nearest_cong same_insideD(1) [OF same] ext)
  fix p meta st
  assume u: "Some (CanRename (Permission u)) = Some True" and p: "JoinPath u path = Inr p" and n: "Some (checkRelativePath name) = Some True"
    and w: "nearest_meta api (Dir p) = Some meta" "CanWrite (fhEqualFold env) (Some u) meta (Dir p) = Some True"
  have cs: "fix_comps p = fix_comps (BasePath u) @ fix_comps path" using fix_comps_JoinBasePath p by (auto simp: JoinPath_def)
  have pp: "p = path_of (fix_comps p)" using clean_of_joined [OF p] by simp
  have dir: "Dir p = path_of (butlast (fix_comps p))" using pp Dir_path_of [OF fix_comps_valid, of p] by simp
  have fd: "fix_comps (Dir p) = butlast (fix_comps p)" unfolding dir
    by (rule fix_comps_path_of) (use fix_comps_valid [of p] fix_comps_no_backslash [of _ p] in \<open>auto simp: valid_names_def list_all_iff dest: in_set_butlastD\<close>)
  have base: "IsSubPath (BasePath u) (Dir p)" using below by (auto simp: IsSubPath_iff fd cs butlast_append)
  have td: "tidy (Dir p)" using tidy_path_of [of "Dir p"] fd dir by simp
  have sub: "IsSubPath (Dir p) p" by (simp add: IsSubPath_iff fd prefix_butlast)
  have w': "may_write env api u (Dir p)" using w by (auto simp: may_write_def)
  have g: "apiGet api (PathJoin (Dir p) name) = apiGet api' (PathJoin (Dir p) name)"
    using n by (intro same_insideD(4) [OF same] IsSubPath_PathJoin [OF base td]) (simp add: checkRelativePath_iff)
  have r: "apiRename api p = apiRename api' p" using u by (intro same_insideD(8) [OF same joinedD(1) [OF p] sub w']) simp
  show "(if \<not> overwrite \<and> PathJoin (Dir p) name \<noteq> p then
        (case apiGet api (PathJoin (Dir p) name) st of None \<Rightarrow> None | Some (Some res, st1) \<Rightarrow> answer 403 st1 | Some (None, st1) \<Rightarrow> finished (apiRename api p name st1))
      else finished (apiRename api p name st)) =
    (if \<not> overwrite \<and> PathJoin (Dir p) name \<noteq> p then
        (case apiGet api' (PathJoin (Dir p) name) st of None \<Rightarrow> None | Some (Some res, st1) \<Rightarrow> answer 403 st1 | Some (None, st1) \<Rightarrow> finished (apiRename api' p name st1))
      else finished (apiRename api' p name st))"
    by (simp add: g r split: option.split)
qed


lemma toObjsResp_same:
  assumes "same_inside env u api api'" "IsSubPath (BasePath u) p"
  shows "toObjsResp api objs p = toObjsResp api' objs p"
  by (rule ext, rule ext, induction objs) (auto simp: same_insideD(6) [OF assms])

lemma readable_same:
  assumes "same_inside env u api api'" "\<And>meta. f meta = g meta"
  shows "readable env api u p password f = readable env api' u p password g"
  unfolding readable_def by (intro nearest_cong require_cong same_insideD(1) [OF assms(1)] assms(2))

lemma list_answer_same:
  assumes "same_inside env u api api'" "IsSubPath (BasePath u) p"
  shows "list_answer env api meta p = list_answer env api' meta p"
  by (intro ext) (simp only: list_answer_def same_insideD(3,5) [OF assms] toObjsResp_same [OF assms])

lemma joined_same: "(\<And>p. IsSubPath (BasePath u) p \<Longrightarrow> f p = g p) \<Longrightarrow> joined u path f = joined u path g"
  by (rule joined_cong) (blast dest: joinedD)

lemma FsList_same:
  assumes same: "same_inside env u api api'"
  shows "FsList env api u path password refresh page = FsList env api' u path password refresh page"
  unfolding FsList_def
  by (intro joined_same readable_same [OF same]) (simp only: same_insideD(2) [OF same] list_answer_same [OF same])

lemma FsDirs_same:
  assumes same: "same_inside env u api api'"
  shows "FsDirs env api u path password False = FsDirs env api' u path password False"
  unfolding FsDirs_def Let_def if_False
  by (intro joined_same readable_same [OF same]) (simp only: same_insideD(2) [OF same])


section \<open>All requests together\<close>

datatype fs_request =
    RMkdir string | RMove MoveCopyReq | RCopy MoveCopyReq | RRename string string bool | RRemove string "string list" | RRemoveEmpty string
  | RRecursiveMove string string string | RBatchRename string "(string \<times> string) list" | RRegexRename string string string
  | RList string string bool "int64 \<times> int64" | RDirs string string | RUpload string bool bool int64 string

text \<open>The listing of directories from the root is left out: it is for administrators.\<close>

fun serve :: "fs_env \<Rightarrow> 'st fs_api \<Rightarrow> User \<Rightarrow> fs_request \<Rightarrow> 'st handler" where
  "serve env api u (RMkdir path) = FsMkdir env api u path"
| "serve env api u (RMove req) = FsMove env api u req"
| "serve env api u (RCopy req) = FsCopy env api u req"
| "serve env api u (RRename path name overwrite) = FsRename env api u path name overwrite"
| "serve env api u (RRemove dir names) = FsRemove env api u dir names"
| "serve env api u (RRemoveEmpty dir) = FsRemoveEmptyDirectory env api u dir"
| "serve env api u (RRecursiveMove src dst policy) = FsRecursiveMove env api u src dst policy"
| "serve env api u (RBatchRename dir rs) = FsBatchRename env api u dir rs"
| "serve env api u (RRegexRename dir src new) = FsRegexRename env api u dir src new"
| "serve env api u (RList path password refresh page) = FsList env api u path password refresh page"
| "serve env api u (RDirs path password) = FsDirs env api u path password False"
| "serve env api u (RUpload filePath asTask overwrite len sizeStr) = FsUp env api u filePath (FsStream env api u filePath asTask overwrite len sizeStr)"

text \<open>The request that looks outside whatever the listings are: renaming the base path itself.\<close>

fun renames_base :: "User \<Rightarrow> fs_request \<Rightarrow> bool" where
  "renames_base u (RRename path name overwrite) \<longleftrightarrow> FixAndCleanPath path = ''/'' \<and> FixAndCleanPath (BasePath u) \<noteq> ''/''"
| "renames_base u _ \<longleftrightarrow> False"

lemma FsUp_FsStream_same:
  assumes "same_inside env u api api'"
  shows "FsUp env api u filePath (FsStream env api u filePath asTask overwrite len sizeStr) = FsUp env api' u filePath (FsStream env api' u filePath asTask overwrite len sizeStr)"
  by (rule FsUp_same [OF assms]) (auto intro!: FsStream_same [OF assms])

text \<open>The requests that take the names to change from listings.\<close>

fun follows_listing :: "fs_request \<Rightarrow> bool" where
  "follows_listing (RRemoveEmpty dir) \<longleftrightarrow> True"
| "follows_listing (RRecursiveMove src dst policy) \<longleftrightarrow> True"
| "follows_listing (RRegexRename dir src new) \<longleftrightarrow> True"
| "follows_listing _ \<longleftrightarrow> False"


definition sample_home :: User where
  "sample_home = sample_owner\<lparr>BasePath := ''/home/u''\<rparr>"

definition sample_fs_env :: fs_env where
  "sample_fs_env = \<lparr>fhEqualFold = (=), fhCompile = (\<lambda>_. None), fhRegexp = (\<lambda>_. None), fhIgnored = (\<lambda>_. False), fhHideDetails = False\<rparr>"

text \<open>A world that keeps the changes as its state; with \<open>b\<close> it has other files outside \<open>/home/u\<close>.\<close>

definition sample_world :: "bool \<Rightarrow> string list fs_api" where
  "sample_world b =
     (let seen = (\<lambda>p. IsSubPath ''/home/u'' p \<or> b);
          change = (\<lambda>p st. (seen p, if seen p then st @ [p] else st));
          transfer = (\<lambda>p q skip st. ((False, seen p \<and> seen q), if seen p \<and> seen q then st @ [p, q] else st))
      in \<lparr>apiMeta = (\<lambda>_. Inl MetaNotFound), apiList = (\<lambda>meta p a st. Some (if seen p then Some [sample_file ''f''] else None, st)),
          apiGet = (\<lambda>p st. Some (if seen p then Some (sample_file ''f'') else None, st)), apiMakeDir = change,
          apiMove = transfer, apiCopy = transfer, apiMerge = transfer, apiRename = (\<lambda>p n. change p), apiRemove = change,
          apiPut = (\<lambda>t dir n k st. ((t, seen (dir @ n)), if seen (dir @ n) then st @ [dir @ n] else st)),
          apiStorage = (\<lambda>p st. (None, st)), apiEncrypt = (\<lambda>meta p st. Some (False, st)), apiSign = (\<lambda>_ _ _ _ st. ([], st))\<rparr>)"

lemma PathSplit_parts: "fst (PathSplit p) @ snd (PathSplit p) = p"
proof -
  let ?f = "rev (takeWhile (\<lambda>c. c \<noteq> slash) (rev p))"
  have "p = rev (dropWhile (\<lambda>c. c \<noteq> slash) (rev p)) @ ?f" by (metis rev_append rev_rev_ident takeWhile_dropWhile_id)
  then have "take (length p - length ?f) p @ ?f = p" by (metis add_diff_cancel_right' append_eq_conv_conj length_append)
  then show ?thesis by (simp add: PathSplit_def Let_def)
qed

lemma sample_same: "same_inside sample_fs_env sample_home (sample_world True) (sample_world False)"
  by (auto simp: same_inside_def sample_world_def Let_def sample_home_def PathSplit_parts)

lemma sample_plain: "plain_listings sample_home (sample_world True)"
  by (auto simp: plain_listings_def sample_world_def Let_def sample_file_def virtual_object_def plain_name_def valid_name_def)


text \<open>The exception: whether there is a file next to the base path can be read off the answer.\<close>

lemma rename_base_looks_outside:
  "map_option fst (serve sample_fs_env (sample_world True) sample_home (RRename ''/'' ''v'' False) []) = Some (FsCode 403)"
  "map_option fst (serve sample_fs_env (sample_world False) sample_home (RRename ''/'' ''v'' False) []) = Some (FsCode 200)"
  by code_simp+

end
