(* ===== verification/Spec2Isabelle.thy ===== *)
theory Spec2Isabelle
  imports Path_Utils Http_Range Message_Queue Access Multipart_Session Webdav_Lock_Spec Torrent Webdav_If Preconditions Cache Fs_List Storage_Life Storage_Ops_Props Session_Props Share_Props Fs_Props
begin

text \<open>
  \<^bold>\<open>A verification library for PowerList, a fork of OpenList\<close>

  PowerList is a file server that mounts many remote storages into one virtual file system and serves it over HTTP,
  WebDAV, FTP, S3 and other protocols.  This library models the parts that carry the server's own logic and proves
  what makes them correct.  Everything a driver, the database or the network answers is an argument of the model.

  \<^bold>\<open>The program and how its parts work together.\<close>  A request names a path.  The path is cleaned and joined to the base path
  of the user (\<open>pkg/utils/path.go\<close>).  The mount table finds the storage that serves it, balances between several
  storages mounted under one name, and adds virtual folders that lead to mounts (\<open>internal/op/path.go\<close>,
  \<open>internal/op/storage.go\<close>).  A listing merges the storage's objects with the virtual folders, drops what metadata records
  hide and what the user may not read (\<open>internal/fs/list.go\<close>, \<open>internal/model/obj.go\<close>, \<open>internal/op/meta.go\<close>,
  \<open>server/common/check.go\<close>).  Every operation on the chosen storage goes through a layer that looks objects up, checks their
  masks, calls the driver and keeps cached directories and links in step (\<open>internal/op/fs.go\<close>, \<open>cache.go\<close>,
  \<open>link_lifecycle.go\<close>).  Downloads evaluate conditional requests and byte ranges (\<open>internal/net/preconditions.go\<close>,
  \<open>pkg/http_range/range.go\<close>).  Uploads may arrive as chunks in any order, which a bounded window turns into a stream
  (\<open>internal/multipart\<close>).  WebDAV clients lock resources (\<open>server/webdav/lock.go\<close>, \<open>if.go\<close>).  Torrent files describe
  uploaded data (\<open>pkg/torrent\<close>).  Users may share files under links that visitors open without an account (\<open>internal/sharing\<close>).  Caches with expiry are shared by all of them (\<open>internal/cache\<close>).

  \<^bold>\<open>The theories.\<close>

  \<^item> \<open>Go_Prelude\<close>, \<open>Go_Strings\<close>, \<open>Go_Path\<close>, \<open>Go_Heap\<close>, \<open>Go_Map\<close>: 64-bit arithmetic, reachability, and what the source
    uses of the packages \<open>strings\<close>, \<open>strconv\<close>, \<open>path\<close>, \<open>net/textproto\<close> and \<open>container/heap\<close>, with the lemmas the components
    share.  \<open>heap_interface\<close> is the contract of a heap's element
    type, interpreted by the lock system's expiry queue; \<open>invariant_machine\<close> is the contract of a state machine with an
    invariant, interpreted by the upload stream, the session manager, the lock system the machine of accounts and logins and that of shared links.
  \<^item> \<open>Path_Utils\<close> (\<open>pkg/utils/path.go\<close>, \<open>balance.go\<close>): paths abstracted to lists of names; the sub-path test is a partial
    order (locale \<open>path_order\<close>), joining to a base path stays below it, encoding round trips.
  \<^item> \<open>Mounts\<close> (\<open>internal/op/path.go\<close>, \<open>storage.go\<close>): routing to the deepest mount, round robin between balanced storages.
  \<^item> \<open>Virtual_Files\<close>: virtual folders, with the goroutines that fetch details as steps of a schedule.
  \<^item> \<open>Storage_Life\<close>: creating, loading, enabling, disabling, updating and deleting storages; the invariant of the mount
    table and of the stored configurations over all runs (\<open>life_reach\<close>).
  \<^item> \<open>Objects\<close> (\<open>internal/model/obj.go\<close>, \<open>object.go\<close>), \<open>Meta_Store\<close> (\<open>internal/op/meta.go\<close>), \<open>Fs_List\<close>
    (\<open>internal/fs/list.go\<close>, \<open>get.go\<close>): objects and their merging, metadata with its two caches against the table, and
    listing and lookup on top of everything before.
  \<^item> \<open>User_Model\<close> (\<open>internal/model/user.go\<close>), \<open>Access\<close> (\<open>server/common/check.go\<close>, \<open>internal/model/meta.go\<close>): permission
    bits, passwords, who may see and write what.
  \<^item> \<open>Http_Range\<close> (\<open>pkg/http_range/range.go\<close>), \<open>Preconditions\<close> (\<open>internal/net/preconditions.go\<close>): ranges stay inside the
    file and round trip; entity tags decide conditional requests.
  \<^item> \<open>Multipart_Window\<close>, \<open>Multipart_Stream\<close>, \<open>Multipart_Session\<close> (\<open>internal/multipart\<close>, \<open>server/handles/multipart.go\<close>):
    the receiving window, all interleavings of its writers, reader and closers (\<open>stream_step\<close>), and the session manager
    (state machine over requests, uploads and timeouts).
  \<^item> \<open>Webdav_Lock\<close>, \<open>Webdav_Lock_Spec\<close> (\<open>server/webdav/lock.go\<close>): the lock system over an explicit heap of nodes; an
    abstract table of locks and the proof that every operation refines it; \<open>Webdav_If\<close> (\<open>if.go\<close>): the If header.
  \<^item> \<open>Message_Queue\<close> (\<open>pkg/mq\<close>, \<open>pkg/generic\<close>): the queue and its consumers.
  \<^item> \<open>Bencode\<close>, \<open>Hash_Writer\<close>, \<open>Torrent\<close> (\<open>pkg/torrent\<close>): encoding and decoding, hashes that do not depend on how the
    data is cut, generated torrents.
  \<^item> \<open>Cache\<close> (\<open>internal/cache\<close>): keyed and typed cache, both interpretations of the locale \<open>expiring_cache\<close>.
  \<^item> \<open>Sync_Closers\<close> (\<open>pkg/utils/io.go\<close>), \<open>Links\<close> (\<open>internal/model/args.go\<close>, \<open>internal/op/link_lifecycle.go\<close>): reference counting
    of a link's resources in every interleaving of its holders, and the admission of links to the cache.
  \<^item> \<open>Op_Cache\<close> (\<open>internal/op/cache.go\<close>): the cached directories; what is shown is what the changes made of the listing, and
    deleting a tree drops exactly what cached listings lead to.
  \<^item> \<open>Storage_Ops\<close> (\<open>internal/op/fs.go\<close>), \<open>Storage_Ops_Spec\<close>, \<open>Storage_Ops_Props\<close>: list, get, link, make directory, move,
    rename, copy, remove, upload; the driver is a record of functions on a world of its own.  The operations cannot tell two
    drivers apart that agree on their own objects and unprotected changes (so no placeholder or foreign object reaches a
    driver), removals show at once in cached listings, making directories ends.
  \<^item> \<open>Settings\<close> (\<open>internal/op/setting.go\<close>, \<open>hook.go\<close>, \<open>internal/setting\<close>), \<open>Accounts\<close> (\<open>internal/op/user.go\<close>), \<open>Auth\<close>
    (\<open>server/common/auth.go\<close>, \<open>server/middlewares/auth.go\<close>, \<open>server/handles/user.go\<close>, \<open>auth.go\<close>), \<open>Login\<close> (\<open>server/handles/ldap_login.go\<close>,
    \<open>server/common/ldap.go\<close>, \<open>server/webdav.go\<close>, \<open>ftp.go\<close>, \<open>sftp.go\<close>): settings and users with their caches over the tables, tokens, the
    middlewares and every login with a password.  \<open>Auth_Props\<close> shows what each operation leaves alone, \<open>Login_Props\<close> states the contract
    of a login that counts failures (locale \<open>limited_login\<close>, interpreted by all entry points together), \<open>Sessions\<close> puts the operations into
    one machine (\<open>server_step\<close>, an \<open>invariant_machine\<close>) and \<open>Session_Props\<close> proves who a request is made for.
  \<^item> \<open>Sharing\<close> (\<open>internal/model/sharing.go\<close>, \<open>internal/db/sharing.go\<close>, \<open>internal/op/sharing.go\<close>, \<open>internal/sharing\<close>), \<open>Share_Handlers\<close>
    (\<open>server/handles/sharing.go\<close>, \<open>fsread.go\<close>), \<open>Share_Props\<close>: shared links, what visitors get and who may change them.  The operations on
    storages are a record of functions; the interleaving of owners, visitors and late counts is a machine (\<open>share_step\<close>, an \<open>invariant_machine\<close>).
  \<^item> \<open>Signing\<close> (\<open>pkg/sign\<close>, \<open>internal/sign\<close>, \<open>server/middlewares/down.go\<close>): signed links; which signatures open a download.
  \<^item> \<open>Fs_Handlers\<close> (\<open>server/handles/fsmanage.go\<close>, \<open>fsbatch.go\<close>, \<open>fsread.go\<close>, \<open>fsup.go\<close>), \<open>Fs_Props\<close>: the requests for files over a record of
    the functions of the virtual file system, and the proof that a user's requests depend on, and change, nothing outside the base path and
    the directories that the user may write.

  \<^bold>\<open>Conventions.\<close>  A Go struct is a record, a type switch a case distinction, an error the left part of a sum or a
  value \<open>Some error\<close>; \<open>None\<close> as the result of a whole call is a panic or a loop that does not end.  Go maps are functions
  into \<open>option\<close>, or association lists with distinct keys where their size or iteration matters.  Code under a mutex is one
  step; where a function takes the lock twice, each critical section is a function of its own.  Integers are unbounded
  where the code cannot overflow and have \<open>wrap64\<close> or a word type where it can.  Times are numbers.

  \<^bold>\<open>Fuel and termination.\<close>  Loops that could run on are partial functions into \<open>option\<close> with a proof that they return
  (\<open>covers_loop\<close>, \<open>getNearestMeta\<close>); \<open>link_loop\<close> may in fact run on when a driver keeps handing out closed links.  Three loops carry fuel: the write loop of the hash writer (the length of the data; each
  turn consumes a byte), the bencode decoder (twice the length plus two; \<open>BencodeDecode_returns\<close> shows it is enough), and
  the collection of expired locks (the number of nodes in the heap; each turn removes one).

  \<^bold>\<open>Parameters.\<close>  \<open>EqualFold\<close> and \<open>ToLower\<close> (Unicode tables), \<open>compile\<close> (the regexp2 package), \<open>parseTime\<close>
  (\<open>http.ParseTime\<close>), MD5 and SHA-1, the static password hash, the clock, the answers of drivers and of the database.
  The tables of the database are part of the state of \<open>Meta_Store\<close>, \<open>Storage_Life\<close> and \<open>Settings\<close>; its errors are arguments, as are JSON web
  tokens, one-time passwords, the keyed hash of signatures, LDAP and random strings.

  \<^bold>\<open>What modelling showed.\<close>  Proved: \<open>ParseContentRange\<close> can panic; the default mode of \<open>EncodePath\<close> encodes the
  percent sign twice; \<open>Chunk\<close> panics on a negative index with the mutex held; a terminated multipart session can be restarted;
  a typed-cache lookup can drop a fresh value; listing with storage details can panic; a metadata update can leave the old
  record cached; a panic in a driver is reported as success; updating a disabled storage can leave it stuck; uploading a file
  over a directory deletes the directory; a refused upload can leave the old file under a temporary name; balanced storages
  hand each other's objects to their drivers; a cached listing can lose its order; listings below a directory whose own
  listing has expired survive its deletion; a request without credentials is made for the administrator when the token setting is
  empty or cannot be read; an edit of an account resets the time stamp of its password and revives old tokens; a lookup during an update
  of a user caches the old row; FTP and SFTP logins are counted per connection and so never locked;
  the count of a visit undoes what the owner of a shared link has changed since; the third page of a listing without a page size panics; renaming
  the base path of a user looks at what is next to it.

  \<^bold>\<open>Not modelled.\<close>  The drivers (protocols of remote services), the WebDAV, FTP, SFTP, S3 and MCP handlers and their XML
  and JSON bodies, the REST handlers other than those named above, multi-connection downloads and stream buffers, tasks, search, offline download, archives, start-up and
  configuration.  They are I/O against systems outside the repository or adapters to the operations modelled here.
\<close>

section \<open>From the user's request to the storage\<close>

text \<open>C2: In every state the program can reach, if a request of a user with a base path is accepted, the path it stands for lies at or
  below the base path, and if a storage serves it, this storage is loaded and mounted at or above that path.  If
  cutting the balance suffix from the mount path of that storage leaves a cleaned path, the mount path joined with the path the driver is
  asked for is exactly that path, so the request reaches nothing of the storage outside the user's base path.\<close>

theorem user_request_confined:
  assumes "life_reach s" "JoinBasePath base req = Inr p" "fst (GetStorageAndActualPath (mounts s) p) = Inr (d, actual)"
  shows "IsSubPath base p \<and> (drv_mount d, d) \<in> set (storagesMap (mounts s)) \<and> IsSubPath (GetActualMountPath (drv_mount d)) p \<and>
    (cleaned_mount (drv_mount d) \<longrightarrow> GetFullPath (drv_mount d) actual = p)"
proof -
  have ok: "list_all (\<lambda>(k, d). drv_mount d = k) (storagesMap (mounts s))"
    using life_reach_inv [OF assms(1)] by (auto simp: life_inv_def table_inv_def list_all_iff)
  have p: "p = path_of (fix_comps base @ fix_comps req)" by (rule JoinBasePath_Inr [OF assms(2)])
  then have "FixAndCleanPath p = p" by (simp add: FixAndCleanPath_eq)
  moreover have "IsSubPath base p" by (simp add: IsSubPath_iff p)
  ultimately show ?thesis using route_spec [OF ok, of p] assms(3) by simp
qed

theorem user_request_confined_witness:
  "GetFullPath ''/a'' ''/b/c'' = ''/a/b/c'' \<and> IsSubPath ''/a/b'' ''/a/b/c''"
proof -
  let ?s = "snd (CreateStorage sample_env_life (GetStorage (sample_driver 0 ''/a'')) sample_life)"
  have c: "cleaned_mount ''/a''" by code_simp
  have j: "JoinBasePath ''/a/b'' ''c'' = Inr ''/a/b/c''" by code_simp
  have r: "map_sum id (\<lambda>(d, a). (drv_mount d, a)) (fst (GetStorageAndActualPath (mounts ?s) ''/a/b/c'')) = Inr (''/a'', ''/b/c'')" by code_simp
  then obtain d where "fst (GetStorageAndActualPath (mounts ?s) ''/a/b/c'') = Inr (d, ''/b/c'')" "drv_mount d = ''/a''"
    by (cases "fst (GetStorageAndActualPath (mounts ?s) ''/a/b/c'')") auto
  with user_request_confined [OF sample_created j] c show ?thesis by auto
qed

end
